(* ===== verification/Prelude.thy ===== *)
theory Prelude
  imports Main "HOL-Library.Word"
begin

text \<open>
  Shared vocabulary of the development: the machine integer types of the Rust sources, the
  \<open>Result\<close> type with its early return, the checked and saturating integer operations of the
  Rust standard library, little- and big-endian byte arrays, ASCII byte predicates, and the
  generic list and word lemmas every component theory uses.
\<close>

unbundle bit_operations_syntax

named_theorems result_defs \<open>definitions of the early-return combinators\<close>
named_theorems arith_defs \<open>definitions of the checked and saturating operations\<close>

section \<open>Machine integers and byte strings\<close>

type_synonym u8 = "8 word"
type_synonym u16 = "16 word"
type_synonym u32 = "32 word"
type_synonym u64 = "64 word"
type_synonym u128 = "128 word"

text \<open>
  A Rust \<open>&str\<close> or \<open>String\<close> is its UTF-8 byte sequence, modelled as an Isabelle
  \<^typ>\<open>string\<close>: a \<^typ>\<open>char\<close> is one byte.
\<close>

section \<open>Results and early return\<close>

type_synonym ('a, 'e) result = "'e + 'a"

abbreviation Ok :: "'a \<Rightarrow> ('a, 'e) result" where
  "Ok \<equiv> Inr"

abbreviation Err :: "'e \<Rightarrow> ('a, 'e) result" where
  "Err \<equiv> Inl"

text \<open>\<open>rbind r k\<close> is \<open>let x = r?; k x\<close>.\<close>

definition rbind :: "('a, 'e) result \<Rightarrow> ('a \<Rightarrow> ('b, 'e) result) \<Rightarrow> ('b, 'e) result" where
  [result_defs]: "rbind r k = (case r of Inl e \<Rightarrow> Inl e | Inr x \<Rightarrow> k x)"

text \<open>\<open>ensure c e k\<close> is \<open>ensure!(c, e); k\<close>.\<close>

definition ensure :: "bool \<Rightarrow> 'e \<Rightarrow> ('b, 'e) result \<Rightarrow> ('b, 'e) result" where
  [result_defs]: "ensure c e k = (if c then k else Inl e)"

text \<open>\<open>ok_or\<close> is \<open>Option::context\<close>: \<open>None\<close> becomes the error.\<close>

definition ok_or :: "'a option \<Rightarrow> 'e \<Rightarrow> ('a, 'e) result" where
  [result_defs]: "ok_or x e = (case x of None \<Rightarrow> Inl e | Some a \<Rightarrow> Inr a)"

text \<open>\<open>map_err\<close> wraps an error of an inner crate.\<close>

definition map_err :: "('e \<Rightarrow> 'f) \<Rightarrow> ('a, 'e) result \<Rightarrow> ('a, 'f) result" where
  [result_defs]: "map_err f r = (case r of Inl e \<Rightarrow> Inl (f e) | Inr x \<Rightarrow> Inr x)"

text \<open>Collecting an iterator of results: the first error wins.\<close>

fun collect_results :: "('a \<Rightarrow> ('b, 'e) result) \<Rightarrow> 'a list \<Rightarrow> ('b list, 'e) result" where
  "collect_results f [] = Ok []"
| "collect_results f (x # xs) =
     rbind (f x) (\<lambda>y. rbind (collect_results f xs) (\<lambda>ys. Ok (y # ys)))"

lemma rbind_simps [simp]:
  "rbind (Inr x) k = k x"
  "rbind (Inl e) k = Inl e"
  by (simp_all add: rbind_def)

lemma rbind_cong [fundef_cong]:
  "r = r' \<Longrightarrow> (\<And>x. r' = Inr x \<Longrightarrow> k x = k' x) \<Longrightarrow> rbind r k = rbind r' k'"
  by (cases r') simp_all

lemma ensure_cong [fundef_cong]:
  "c = c' \<Longrightarrow> e = e' \<Longrightarrow> (c' \<Longrightarrow> k = k') \<Longrightarrow> ensure c e k = ensure c' e' k'"
  by (simp add: ensure_def)

lemma rbind_Ok_iff: "rbind r k = Inr y \<longleftrightarrow> (\<exists>x. r = Inr x \<and> k x = Inr y)"
  by (cases r) auto

lemma rbind_Err_iff: "rbind r k = Inl e \<longleftrightarrow> r = Inl e \<or> (\<exists>x. r = Inr x \<and> k x = Inl e)"
  by (cases r) auto

lemma ensure_simps [simp]:
  "ensure True e k = k"
  "ensure False e k = Inl e"
  by (simp_all add: ensure_def)

lemma ensure_Ok_iff: "ensure c e k = Inr y \<longleftrightarrow> c \<and> k = Inr y"
  by (cases c) auto

lemma ensure_Err_iff: "ensure c e k = Inl e' \<longleftrightarrow> (c \<and> k = Inl e') \<or> (\<not> c \<and> e = e')"
  by (cases c) auto

lemma ok_or_simps [simp]:
  "ok_or (Some a) e = Inr a"
  "ok_or None e = Inl e"
  by (simp_all add: ok_or_def)

lemma ok_or_Ok_iff: "ok_or x e = Inr a \<longleftrightarrow> x = Some a"
  by (cases x) auto

lemma map_err_simps [simp]:
  "map_err f (Inr x) = Inr x"
  "map_err f (Inl e) = Inl (f e)"
  by (simp_all add: map_err_def)

lemma map_err_Ok_iff: "map_err f r = Inr x \<longleftrightarrow> r = Inr x"
  by (cases r) auto

lemmas result_iffs = rbind_Ok_iff ensure_Ok_iff ok_or_Ok_iff map_err_Ok_iff

text \<open>
  Case expressions equal to a value, as existential statements: these unfold a handler that
  returned into the branch it took.
\<close>

lemma case_option_eq_iff:
  "(case x of None \<Rightarrow> a | Some y \<Rightarrow> f y) = z \<longleftrightarrow> (x = None \<and> a = z) \<or> (\<exists>y. x = Some y \<and> f y = z)"
  by (cases x) auto

lemma case_sum_eq_iff:
  "(case x of Inl y \<Rightarrow> g y | Inr y \<Rightarrow> f y) = z \<longleftrightarrow>
   (\<exists>y. x = Inl y \<and> g y = z) \<or> (\<exists>y. x = Inr y \<and> f y = z)"
  by (cases x) auto

lemma case_list_eq_iff:
  "(case x of [] \<Rightarrow> a | y # ys \<Rightarrow> f y ys) = z \<longleftrightarrow>
   (x = [] \<and> a = z) \<or> (\<exists>y ys. x = y # ys \<and> f y ys = z)"
  by (cases x) auto

lemma case_prod_eq_iff: "(case x of (a, b) \<Rightarrow> f a b) = z \<longleftrightarrow> (\<exists>a b. x = (a, b) \<and> f a b = z)"
  by (cases x) auto

lemma if_eq_iff: "(if c then a else b) = z \<longleftrightarrow> (c \<and> a = z) \<or> (\<not> c \<and> b = z)"
  by simp

lemmas case_iffs = case_option_eq_iff case_sum_eq_iff case_list_eq_iff if_eq_iff

lemma collect_results_Ok_iff:
  "collect_results f xs = Inr ys \<longleftrightarrow> list_all2 (\<lambda>x y. f x = Inr y) xs ys"
proof (induction xs arbitrary: ys)
  case Nil
  then show ?case by auto
next
  case (Cons x xs)
  then show ?case by (cases ys) (auto simp: rbind_Ok_iff)
qed

section \<open>Checked and saturating arithmetic\<close>

definition checked_add :: "'a::len word \<Rightarrow> 'a word \<Rightarrow> 'a word option" where
  [arith_defs]: "checked_add a b =
    (if unat a + unat b < 2 ^ LENGTH('a) then Some (a + b) else None)"

definition checked_mul :: "'a::len word \<Rightarrow> 'a word \<Rightarrow> 'a word option" where
  [arith_defs]: "checked_mul a b =
    (if unat a * unat b < 2 ^ LENGTH('a) then Some (a * b) else None)"

definition checked_sub :: "'a::len word \<Rightarrow> 'a word \<Rightarrow> 'a word option" where
  [arith_defs]: "checked_sub a b = (if b \<le> a then Some (a - b) else None)"

definition saturating_sub :: "'a::len word \<Rightarrow> 'a word \<Rightarrow> 'a word" where
  [arith_defs]: "saturating_sub a b = (if b \<le> a then a - b else 0)"

definition saturating_add :: "'a::len word \<Rightarrow> 'a word \<Rightarrow> 'a word" where
  [arith_defs]: "saturating_add a b =
    (if unat a + unat b < 2 ^ LENGTH('a) then a + b else of_nat (2 ^ LENGTH('a) - 1))"

lemma unat_add_no_overflow:
  "unat a + unat b < 2 ^ LENGTH('a) \<Longrightarrow> unat (a + b :: 'a::len word) = unat a + unat b"
  by (simp add: unat_word_ariths)

lemma unat_mult_no_overflow:
  "unat a * unat b < 2 ^ LENGTH('a) \<Longrightarrow> unat (a * b :: 'a::len word) = unat a * unat b"
  by (simp add: unat_word_ariths)

lemma checked_add_Some_iff:
  "checked_add a b = Some c \<longleftrightarrow> unat c = unat a + unat (b :: 'a::len word)"
proof
  assume "checked_add a b = Some c"
  then show "unat c = unat a + unat b"
    by (auto simp: checked_add_def unat_add_no_overflow split: if_splits)
next
  assume c: "unat c = unat a + unat b"
  then have lt: "unat a + unat b < 2 ^ LENGTH('a)"
    by (metis unsigned_less)
  then have "unat (a + b) = unat c"
    by (simp add: unat_add_no_overflow c)
  then have "a + b = c" by (simp add: word_unat_eq_iff)
  with lt show "checked_add a b = Some c" by (simp add: checked_add_def)
qed

lemma checked_add_None_iff:
  "checked_add a b = None \<longleftrightarrow> 2 ^ LENGTH('a) \<le> unat a + unat (b :: 'a::len word)"
  by (auto simp: checked_add_def)

lemma checked_mul_Some_iff:
  "checked_mul a b = Some c \<longleftrightarrow> unat c = unat a * unat (b :: 'a::len word)"
proof
  assume "checked_mul a b = Some c"
  then show "unat c = unat a * unat b"
    by (auto simp: checked_mul_def unat_mult_no_overflow split: if_splits)
next
  assume c: "unat c = unat a * unat b"
  then have lt: "unat a * unat b < 2 ^ LENGTH('a)"
    by (metis unsigned_less)
  then have "unat (a * b) = unat c"
    by (simp add: unat_mult_no_overflow c)
  then have "a * b = c" by (simp add: word_unat_eq_iff)
  with lt show "checked_mul a b = Some c" by (simp add: checked_mul_def)
qed

lemma checked_sub_Some_iff:
  "checked_sub a b = Some c \<longleftrightarrow> unat b \<le> unat a \<and> unat c = unat a - unat (b :: 'a::len word)"
proof -
  have "unat (a - b) = unat a - unat b" if "b \<le> a"
    using that by (rule unat_sub)
  then show ?thesis
    by (auto simp: checked_sub_def word_le_nat_alt word_unat_eq_iff)
qed

lemma unat_saturating_sub: "unat (saturating_sub a b) = unat a - unat (b :: 'a::len word)"
  by (simp add: saturating_sub_def unat_sub word_le_nat_alt)

lemma saturating_sub_le: "saturating_sub a b \<le> (a :: 'a::len word)"
  by (simp add: word_le_nat_alt unat_saturating_sub)

section \<open>Byte arrays\<close>

text \<open>\<open>n\<close> bytes of a value, least significant first (\<open>to_le_bytes\<close>), and back.\<close>

fun to_le_bytes :: "nat \<Rightarrow> 'a::len word \<Rightarrow> u8 list" where
  "to_le_bytes 0 w = []"
| "to_le_bytes (Suc n) w = ucast w # to_le_bytes n (drop_bit 8 w)"

fun from_le_bytes :: "u8 list \<Rightarrow> 'a::len word" where
  "from_le_bytes [] = 0"
| "from_le_bytes (b # bs) = ucast b OR push_bit 8 (from_le_bytes bs)"

definition to_be_bytes :: "nat \<Rightarrow> 'a::len word \<Rightarrow> u8 list" where
  "to_be_bytes n w = rev (to_le_bytes n w)"

definition from_be_bytes :: "u8 list \<Rightarrow> 'a::len word" where
  "from_be_bytes bs = from_le_bytes (rev bs)"

lemma length_to_le_bytes [simp]: "length (to_le_bytes n w) = n"
  by (induction n arbitrary: w) auto

lemma length_to_be_bytes [simp]: "length (to_be_bytes n w) = n"
  by (simp add: to_be_bytes_def)

lemma from_le_to_le_take:
  "from_le_bytes (to_le_bytes n w) = take_bit (8 * n) (w :: 'a::len word)"
proof (induction n arbitrary: w)
  case 0
  show ?case by simp
next
  case (Suc n)
  show ?case
    by (simp add: Suc.IH bit_eq_iff bit_simps) (auto simp: not_less)
qed

lemma from_le_to_le_bytes:
  "LENGTH('a) \<le> 8 * n \<Longrightarrow> from_le_bytes (to_le_bytes n w) = (w :: 'a::len word)"
  by (simp add: from_le_to_le_take bit_eq_iff bit_simps)

lemma from_be_to_be_bytes:
  "LENGTH('a) \<le> 8 * n \<Longrightarrow> from_be_bytes (to_be_bytes n w) = (w :: 'a::len word)"
  by (simp add: from_be_bytes_def to_be_bytes_def from_le_to_le_bytes)

lemma to_le_bytes_inject:
  "LENGTH('a) \<le> 8 * n \<Longrightarrow> to_le_bytes n a = to_le_bytes n b \<longleftrightarrow> a = (b :: 'a::len word)"
  by (metis from_le_to_le_bytes)

lemma to_be_bytes_inject:
  "LENGTH('a) \<le> 8 * n \<Longrightarrow> to_be_bytes n a = to_be_bytes n b \<longleftrightarrow> a = (b :: 'a::len word)"
  by (metis from_be_to_be_bytes)

lemma to_le_from_le_bytes:
  "8 * length bs \<le> LENGTH('a) \<Longrightarrow> to_le_bytes (length bs) (from_le_bytes bs :: 'a::len word) = bs"
proof (induction bs)
  case Nil
  show ?case by simp
next
  case (Cons b bs)
  let ?w = "from_le_bytes bs :: 'a word"
  have len: "8 * length bs + 8 \<le> LENGTH('a)" using Cons.prems by simp
  have b8: "ucast (ucast b OR push_bit 8 ?w :: 'a word) = b"
    using len by (simp add: bit_eq_iff bit_simps)
  have small: "take_bit (8 * length bs) ?w = ?w"
    using Cons.IH len from_le_to_le_take [of "length bs" ?w] by simp
  have hi: "bit ?w n \<Longrightarrow> n < 8 * length bs" for n
    using small by (metis bit_take_bit_iff)
  have "drop_bit 8 (ucast b OR push_bit 8 ?w) = ?w"
  proof (rule bit_eqI)
    fix n
    show "bit (drop_bit 8 (ucast b OR push_bit 8 ?w)) n = bit ?w n"
      using hi [of n] len by (auto simp: bit_simps dest: bit_imp_le_length)
  qed
  then show ?case using Cons b8 by simp
qed

lemma to_be_from_be_bytes:
  "8 * length bs \<le> LENGTH('a) \<Longrightarrow> to_be_bytes (length bs) (from_be_bytes bs :: 'a::len word) = bs"
  using to_le_from_le_bytes [of "rev bs", where 'a = 'a]
  by (simp add: to_be_bytes_def from_be_bytes_def)

section \<open>ASCII bytes\<close>

definition byte_in :: "nat \<Rightarrow> nat \<Rightarrow> char \<Rightarrow> bool" where
  "byte_in lo hi c \<longleftrightarrow> lo \<le> of_char c \<and> of_char c \<le> hi"

definition is_ascii_digit :: "char \<Rightarrow> bool" where
  "is_ascii_digit = byte_in 48 57"

definition is_ascii_uppercase :: "char \<Rightarrow> bool" where
  "is_ascii_uppercase = byte_in 65 90"

definition is_ascii_lowercase :: "char \<Rightarrow> bool" where
  "is_ascii_lowercase = byte_in 97 122"

definition is_ascii_graphic :: "char \<Rightarrow> bool" where
  "is_ascii_graphic = byte_in 33 126"

definition is_ascii_alphanumeric :: "char \<Rightarrow> bool" where
  "is_ascii_alphanumeric c \<longleftrightarrow> is_ascii_digit c \<or> is_ascii_uppercase c \<or> is_ascii_lowercase c"

definition is_ascii_hexdigit :: "char \<Rightarrow> bool" where
  "is_ascii_hexdigit c \<longleftrightarrow> is_ascii_digit c \<or> byte_in 65 70 c \<or> byte_in 97 102 c"

definition to_ascii_uppercase :: "char \<Rightarrow> char" where
  "to_ascii_uppercase c = (if is_ascii_lowercase c then char_of (of_char c - 32 :: nat) else c)"

definition to_ascii_lowercase :: "char \<Rightarrow> char" where
  "to_ascii_lowercase c = (if is_ascii_uppercase c then char_of (of_char c + 32 :: nat) else c)"

lemmas ascii_defs = byte_in_def is_ascii_digit_def is_ascii_uppercase_def is_ascii_lowercase_def
  is_ascii_graphic_def is_ascii_alphanumeric_def is_ascii_hexdigit_def

lemma of_char_to_ascii_lowercase:
  "of_char (to_ascii_lowercase c) = (if is_ascii_uppercase c then of_char c + 32 else (of_char c :: nat))"
  by (auto simp: to_ascii_lowercase_def ascii_defs)

lemma of_char_to_ascii_uppercase:
  "of_char (to_ascii_uppercase c) = (if is_ascii_lowercase c then of_char c - 32 else (of_char c :: nat))"
  by (auto simp: to_ascii_uppercase_def ascii_defs)

lemma to_ascii_lowercase_idem [simp]:
  "to_ascii_lowercase (to_ascii_lowercase c) = to_ascii_lowercase c"
proof -
  have "\<not> is_ascii_uppercase (to_ascii_lowercase c)"
    by (auto simp: ascii_defs of_char_to_ascii_lowercase)
  then show ?thesis by (simp add: to_ascii_lowercase_def [of "to_ascii_lowercase c"])
qed

end
