(* ===== verification/Ids.thy ===== *)
theory Ids
  imports Prelude
begin

text \<open>
  Identifiers, sequence numbers, timestamps and idempotency keys
  (\<^verbatim>\<open>crates/syntheke/src/ids.rs\<close>), with the variants of the contract crate's error type that
  these parsers raise.

  A 16-byte identifier is represented by the 128-bit value of its bytes read big-endian, so that
  the derived byte-wise \<open>Ord\<close> of the Rust newtypes is the order of \<^typ>\<open>u128\<close>; \<open>id_from_bytes\<close>
  and \<open>id_to_bytes\<close> are the bijection with the byte arrays.  The ULID text form is the Crockford
  base32 form of that value.
\<close>

section \<open>Definitions\<close>

subsection \<open>Identifiers\<close>

datatype TenantId = TenantId u128
datatype GrantId = GrantId u128
datatype SessionId = SessionId u128
datatype InvocationId = InvocationId u128
datatype ArtifactRef = ArtifactRef u128
datatype ReservationId = ReservationId u128

definition id_from_bytes :: "u8 list \<Rightarrow> u128" where
  "id_from_bytes bytes = from_be_bytes bytes"

definition id_to_bytes :: "u128 \<Rightarrow> u8 list" where
  "id_to_bytes v = to_be_bytes 16 v"

primrec tenant_to_bytes :: "TenantId \<Rightarrow> u8 list" where
  "tenant_to_bytes (TenantId v) = id_to_bytes v"

datatype AuditSeq = AuditSeq u64

primrec audit_seq_get :: "AuditSeq \<Rightarrow> u64" where
  "audit_seq_get (AuditSeq n) = n"

text \<open>
  Wall time in milliseconds.  The crates only compare timestamps, so the \<open>i64\<close> is its value.
\<close>

type_synonym Timestamp = int

subsection \<open>Errors of the identifier parsers\<close>

datatype IdError =
    UlidLength nat
  | UlidCharacter nat
  | UlidOverflow
  | IdempotencyKeyLength nat

subsection \<open>The ULID text form\<close>

definition ULID_LEN :: nat where
  "ULID_LEN = 26"

definition ALPHABET :: string where
  "ALPHABET = ''0123456789ABCDEFGHJKMNPQRSTVWXYZ''"

definition MAX_LEADING_DIGIT :: nat where
  "MAX_LEADING_DIGIT = 7"

text \<open>
  The slots are filled from the last one: each takes the low five bits and shifts the value.
  The lookup falls back to \<open>'0'\<close> as \<open>unwrap_or\<close> does.
\<close>

definition alphabet_get :: "nat \<Rightarrow> char" where
  "alphabet_get i = (if i < length ALPHABET then ALPHABET ! i else CHR ''0'')"

fun write_slots :: "nat \<Rightarrow> u128 \<Rightarrow> string" where
  "write_slots 0 value = []"
| "write_slots (Suc n) value =
     write_slots n (drop_bit 5 value) @ [alphabet_get (unat (value AND 0x1f))]"

definition write_ulid :: "u128 \<Rightarrow> string" where
  "write_ulid v = write_slots ULID_LEN v"

fun position_of :: "char \<Rightarrow> string \<Rightarrow> nat \<Rightarrow> nat option" where
  "position_of c [] i = None"
| "position_of c (x # xs) i = (if x = c then Some i else position_of c xs (Suc i))"

fun parse_slots :: "nat \<Rightarrow> string \<Rightarrow> u128 \<Rightarrow> (u128, IdError) result" where
  "parse_slots position [] value = Ok value"
| "parse_slots position (byte # bytes) value =
     rbind (ok_or (position_of (to_ascii_uppercase byte) ALPHABET 0) (UlidCharacter position))
       (\<lambda>digit. ensure (position \<noteq> 0 \<or> digit \<le> MAX_LEADING_DIGIT) UlidOverflow
         (parse_slots (Suc position) bytes (push_bit 5 value OR of_nat digit)))"

definition parse_ulid :: "string \<Rightarrow> (u128, IdError) result" where
  "parse_ulid text =
     ensure (length text = ULID_LEN) (UlidLength (length text)) (parse_slots 0 text 0)"

subsection \<open>Idempotency keys\<close>

datatype IdempotencyKey = IdempotencyKey "u8 list"

primrec key_bytes :: "IdempotencyKey \<Rightarrow> u8 list" where
  "key_bytes (IdempotencyKey bytes) = bytes"

definition KEY_MIN_LEN :: nat where "KEY_MIN_LEN = 16"
definition KEY_MAX_LEN :: nat where "KEY_MAX_LEN = 64"

definition key_check :: "IdempotencyKey \<Rightarrow> (unit, IdError) result" where
  "key_check key =
     (let len = length (key_bytes key)
      in ensure (KEY_MIN_LEN \<le> len \<and> len \<le> KEY_MAX_LEN) (IdempotencyKeyLength len) (Ok ()))"

definition key_new :: "u8 list \<Rightarrow> (IdempotencyKey, IdError) result" where
  "key_new bytes = rbind (key_check (IdempotencyKey bytes)) (\<lambda>_. Ok (IdempotencyKey bytes))"

definition key_from_slice :: "u8 list \<Rightarrow> (IdempotencyKey, IdError) result" where
  "key_from_slice bytes =
     ensure (KEY_MIN_LEN \<le> length bytes \<and> length bytes \<le> KEY_MAX_LEN)
       (IdempotencyKeyLength (length bytes)) (Ok (IdempotencyKey bytes))"

section \<open>Lemmas\<close>

lemma id_bytes_roundtrip: "id_from_bytes (id_to_bytes v) = v"
  by (simp add: id_from_bytes_def id_to_bytes_def from_be_to_be_bytes)

lemma id_bytes_roundtrip': "length bytes = 16 \<Longrightarrow> id_to_bytes (id_from_bytes bytes) = bytes"
  using to_be_from_be_bytes [of bytes, where 'a = 128]
  by (simp add: id_from_bytes_def id_to_bytes_def)

lemma length_id_to_bytes [simp]: "length (id_to_bytes v) = 16"
  by (simp add: id_to_bytes_def)

subsection \<open>The alphabet\<close>

lemma length_ALPHABET [simp]: "length ALPHABET = 32"
  by (simp add: ALPHABET_def)

lemma distinct_ALPHABET: "distinct ALPHABET"
  by (simp add: ALPHABET_def)

lemma position_of_Some_iff:
  "distinct xs \<Longrightarrow>
   position_of c xs i = Some p \<longleftrightarrow> i \<le> p \<and> p < i + length xs \<and> xs ! (p - i) = c"
proof (induction xs arbitrary: i)
  case Nil
  then show ?case by auto
next
  case (Cons x xs)
  show ?case
  proof (cases "x = c")
    case True
    with Cons.prems have "c \<notin> set xs" by auto
    with True show ?thesis
      by (auto simp: nth_Cons' dest: nth_mem split: if_splits)
  next
    case False
    have "distinct xs" using Cons.prems by simp
    from Cons.IH [OF this, of "Suc i"] False show ?thesis
      by (auto simp: nth_Cons' Suc_le_eq)
  qed
qed

lemma position_of_ALPHABET:
  "position_of c ALPHABET 0 = Some p \<longleftrightarrow> p < 32 \<and> ALPHABET ! p = c"
  using position_of_Some_iff [OF distinct_ALPHABET, of c 0 p] by simp

lemma alphabet_uppercase: "c \<in> set ALPHABET \<Longrightarrow> to_ascii_uppercase c = c"
  by (auto simp: ALPHABET_def to_ascii_uppercase_def ascii_defs)

lemma alphabet_get_ALPHABET: "i < 32 \<Longrightarrow> alphabet_get i = ALPHABET ! i"
  by (simp add: alphabet_get_def)

lemma position_of_alphabet_get:
  "i < 32 \<Longrightarrow> position_of (to_ascii_uppercase (alphabet_get i)) ALPHABET 0 = Some i"
  by (simp add: alphabet_get_ALPHABET alphabet_uppercase position_of_ALPHABET)

subsection \<open>Five-bit slots\<close>

lemma low_slot_less: "unat (v AND 0x1f :: u128) < 32"
proof -
  have "v AND 0x1f = take_bit 5 v"
    by (simp add: take_bit_eq_mask mask_eq_exp_minus_1)
  then show ?thesis
    using take_bit_nat_less_exp [of 5 "unat v"] by (simp only: unsigned_take_bit_eq) simp
qed

lemma unat_drop_slot: "unat (drop_bit 5 v :: u128) = unat v div 32"
  by (simp only: unat_drop_bit_eq) (simp add: drop_bit_eq_div)

lemma slot_split: "push_bit 5 (drop_bit 5 v) OR (v AND 0x1f) = (v :: u128)"
proof -
  have "v AND 0x1f = take_bit 5 v"
    by (simp add: take_bit_eq_mask mask_eq_exp_minus_1)
  then show ?thesis
    by (simp add: bit_eq_iff bit_simps) auto
qed

lemma bit_bound: "unat (w :: u128) < 2 ^ k \<Longrightarrow> bit w n \<Longrightarrow> n < k"
proof (rule ccontr)
  assume w: "unat w < 2 ^ k" and b: "bit w n" and n: "\<not> n < k"
  have "take_bit k (unat w) = unat w"
    using w by (simp add: take_bit_nat_eq_self_iff)
  moreover have "bit (unat w) n" using b by (simp add: bit_unsigned_iff bit_imp_le_length)
  ultimately show False using n by (metis bit_take_bit_iff)
qed

lemma slot_join:
  assumes w: "unat (w :: u128) < 2 ^ 123" and d: "d < 32"
  shows "drop_bit 5 (push_bit 5 w OR of_nat d) = w"
    and "unat ((push_bit 5 w OR of_nat d) AND 0x1f) = d"
    and "unat (push_bit 5 w OR of_nat d) = 32 * unat w + d"
proof -
  have d': "unat (of_nat d :: u128) = d"
    using d by (simp add: unat_of_nat)
  have dbit: "bit (of_nat d :: u128) n \<Longrightarrow> n < 5" for n
    by (rule bit_bound) (use d d' in simp_all)
  show drop: "drop_bit 5 (push_bit 5 w OR of_nat d) = w"
  proof (rule bit_eqI)
    fix n
    show "bit (drop_bit 5 (push_bit 5 w OR of_nat d)) n = bit w n"
      using bit_bound [OF w, of n] dbit [of "5 + n"] by (auto simp: bit_simps simp del: of_nat_numeral)
  qed
  have low: "(push_bit 5 w OR of_nat d) AND 0x1f = of_nat d"
  proof -
    have "(push_bit 5 w OR of_nat d) AND 0x1f = take_bit 5 (push_bit 5 w OR of_nat d)"
      by (simp add: take_bit_eq_mask mask_eq_exp_minus_1)
    also have "\<dots> = of_nat d"
    proof (rule bit_eqI)
      fix n
      show "bit (take_bit 5 (push_bit 5 w OR of_nat d)) n = bit (of_nat d :: u128) n"
        using dbit [of n] by (auto simp: bit_take_bit_iff bit_or_iff bit_push_bit_iff)
    qed
    finally show ?thesis .
  qed
  then show "unat ((push_bit 5 w OR of_nat d) AND 0x1f) = d" using d' by simp
  have "push_bit 5 w OR of_nat d = push_bit 5 w + of_nat d"
  proof (rule disjunctive_add [symmetric])
    fix n
    show "\<not> bit (push_bit 5 w) n \<or> \<not> bit (of_nat d :: u128) n"
      using dbit [of n] by (auto simp: bit_push_bit_iff)
  qed
  moreover have "push_bit 5 w = 32 * w"
    by (simp add: push_bit_eq_mult)
  moreover have "unat (32 * w + of_nat d) = 32 * unat w + d"
  proof -
    have m: "unat (32 * w) = 32 * unat w"
      using w unat_mult_no_overflow [of 32 w] by simp
    show ?thesis
      using w d d' m unat_add_no_overflow [of "32 * w" "of_nat d"] by simp
  qed
  ultimately show "unat (push_bit 5 w OR of_nat d) = 32 * unat w + d" by simp
qed

lemma parse_slots_append:
  "parse_slots pos (xs @ ys) acc =
   rbind (parse_slots pos xs acc) (\<lambda>a. parse_slots (pos + length xs) ys a)"
proof (induction xs arbitrary: pos acc)
  case Nil
  show ?case by simp
next
  case (Cons x xs)
  then show ?case
    by (cases "position_of (to_ascii_uppercase x) ALPHABET 0") (auto simp: ensure_def)
qed

lemma length_write_slots [simp]: "length (write_slots n v) = n"
  by (induction n arbitrary: v) auto

subsection \<open>Writing then parsing\<close>

lemma parse_write_slots:
  "unat v < 2 ^ (5 * n + 3) \<Longrightarrow> parse_slots 0 (write_slots (Suc n) v) 0 = Ok v"
proof (induction n arbitrary: v)
  case 0
  then have small: "unat v < 8" by simp
  have "drop_bit 5 v = 0"
    using unat_drop_slot [of v] small by (simp add: unat_eq_0 flip: unat_eq_zero)
  with slot_split [of v] have v: "v AND 0x1f = v" by (metis or.left_neutral push_bit_of_0)
  have "position_of (to_ascii_uppercase (alphabet_get (unat v))) ALPHABET 0 = Some (unat v)"
    using small by (intro position_of_alphabet_get) simp
  with small v show ?case
    by (simp add: MAX_LEADING_DIGIT_def)
next
  case (Suc n)
  have "unat (drop_bit 5 v) < 2 ^ (5 * n + 3)"
    using Suc.prems by (simp add: unat_drop_slot less_mult_imp_div_less power_add)
  then have IH: "parse_slots 0 (write_slots (Suc n) (drop_bit 5 v)) 0 = Ok (drop_bit 5 v)"
    by (rule Suc.IH)
  have pos: "position_of (to_ascii_uppercase (alphabet_get (unat (v AND 0x1f)))) ALPHABET 0 =
      Some (unat (v AND 0x1f))"
    by (rule position_of_alphabet_get) (rule low_slot_less)
  have "parse_slots 0 (write_slots (Suc (Suc n)) v) 0 =
      parse_slots (Suc n) [alphabet_get (unat (v AND 0x1f))] (drop_bit 5 v)"
    by (simp only: write_slots.simps(2) [of "Suc n"] parse_slots_append IH rbind_simps
        length_write_slots add_0)
  also have "\<dots> = Ok (push_bit 5 (drop_bit 5 v) OR (v AND 0x1f))"
    using pos by simp
  finally show ?case by (simp only: slot_split)
qed

lemma parse_write_ulid: "parse_ulid (write_ulid v) = Ok v"
proof -
  have "unat v < 2 ^ (5 * 25 + 3)"
    using unsigned_less [of v] by simp
  then have "parse_slots 0 (write_slots (Suc 25) v) 0 = Ok v"
    by (rule parse_write_slots)
  then show ?thesis
    by (simp add: parse_ulid_def write_ulid_def ULID_LEN_def del: write_slots.simps)
qed

subsection \<open>Parsing then writing\<close>

lemma write_parse_slots:
  "parse_slots 0 t 0 = Ok v \<Longrightarrow> t \<noteq> [] \<Longrightarrow> length t \<le> 26 \<Longrightarrow>
   unat v < 2 ^ (5 * length t - 2) \<and> write_slots (length t) v = map to_ascii_uppercase t"
proof (induction t arbitrary: v rule: rev_induct)
  case Nil
  then show ?case by simp
next
  case (snoc c t)
  from snoc.prems(1) obtain w d where w: "parse_slots 0 t 0 = Ok w"
    and d: "position_of (to_ascii_uppercase c) ALPHABET 0 = Some d"
    and lead: "t = [] \<longrightarrow> d \<le> 7"
    and v: "v = push_bit 5 w OR of_nat d"
    by (auto simp: parse_slots_append result_iffs MAX_LEADING_DIGIT_def)
  from d have d32: "d < 32" and c: "alphabet_get d = to_ascii_uppercase c"
    by (auto simp: position_of_ALPHABET alphabet_get_ALPHABET)
  show ?case
  proof (cases "t = []")
    case True
    with w have w0: "w = 0" by simp
    have "unat v = d" and "unat (v AND 0x1f) = d"
      using slot_join [of w d] d32 v w0 by simp_all
    with True lead c show ?thesis by simp
  next
    case False
    with w snoc.IH snoc.prems(3)
    have wb: "unat w < 2 ^ (5 * length t - 2)"
      and wt: "write_slots (length t) w = map to_ascii_uppercase t" by auto
    have "(2::nat) ^ (5 * length t - 2) \<le> 2 ^ 123"
      using snoc.prems(3) by (intro power_increasing) auto
    with wb have w123: "unat w < 2 ^ 123" by linarith
    note j = slot_join [OF w123 d32, folded v]
    have "5 * length (t @ [c]) - 2 = 5 + (5 * length t - 2)"
      using False by (cases t) auto
    then have "(2::nat) ^ (5 * length (t @ [c]) - 2) = 2 ^ 5 * 2 ^ (5 * length t - 2)"
      by (simp only: power_add)
    then have "(2::nat) ^ (5 * length (t @ [c]) - 2) = 32 * 2 ^ (5 * length t - 2)"
      by simp
    moreover have "unat v < 32 * 2 ^ (5 * length t - 2)"
      using j(3) wb d32 by simp
    ultimately have "unat v < 2 ^ (5 * length (t @ [c]) - 2)" by simp
    moreover have "write_slots (length (t @ [c])) v = map to_ascii_uppercase (t @ [c])"
      using j(1,2) wt c by simp
    ultimately show ?thesis by blast
  qed
qed

lemma write_parse_ulid:
  "parse_ulid t = Ok v \<Longrightarrow> write_ulid v = map to_ascii_uppercase t"
  using write_parse_slots [of t v]
  by (cases t) (auto simp: parse_ulid_def write_ulid_def ULID_LEN_def ensure_Ok_iff)


section \<open>Properties\<close>

text \<open>The 26-character text form of an identifier is a faithful round trip: parsing what the writer
  produced gives the identifier back for every 128-bit value, and any text the parser accepts is the
  written form of the value it denotes, up to letter case.\<close>
theorem ulid_roundtrip:
  "parse_ulid (write_ulid v) = Ok v \<and>
   (parse_ulid text = Ok v \<longrightarrow> write_ulid v = map to_ascii_uppercase text)"
  using parse_write_ulid write_parse_ulid by blast

theorem ulid_roundtrip_witness:
  "parse_ulid ''00000000000000000000000021'' = Ok 65 \<and>
   write_ulid 65 = map to_ascii_uppercase ''00000000000000000000000021''"
proof -
  have "parse_ulid ''00000000000000000000000021'' = Ok 65" by code_simp
  with ulid_roundtrip [of 65 "''00000000000000000000000021''"] show ?thesis by blast
qed

end
