(* ===== verification/Vocab.thy ===== *)
theory Vocab
  imports Ids
begin

text \<open>
  The contract's vocabulary: the named enums of \<^verbatim>\<open>crates/syntheke/src/vocab.rs\<close> and
  \<^verbatim>\<open>outcome.rs\<close>, the macro of \<^verbatim>\<open>names.rs\<close> that gives each its \<open>ALL\<close>, \<open>name\<close> and \<open>from_name\<close>,
  the outcome taxonomy, and the budget dimensions of \<^verbatim>\<open>budget.rs\<close>.

  The interface every named enum implements is the locale \<open>named_enum\<close>; each enum interprets it.
  Constructors shared by several enums are written with their type's name, as in Rust
  (\<open>InvocationState.Denied\<close>, \<open>Failure.Denied\<close>).  \<open>AuditScope::All\<close> is written \<open>AllScope\<close>, since
  \<open>All\<close> is the universal quantifier of HOL.
\<close>

section \<open>Definitions\<close>

subsection \<open>The \<open>named_enum!\<close> macro\<close>

definition from_name :: "'v list \<Rightarrow> ('v \<Rightarrow> string) \<Rightarrow> string \<Rightarrow> 'v option" where
  "from_name variants nm s = find (\<lambda>variant. nm variant = s) variants"

subsection \<open>Capabilities, modes, tenant classes and scopes\<close>

datatype Capability =
    SessionCreate | SessionFork | Capture | Ingest | Read | Query
  | GrantIssue | GrantRevoke | AuditQuery

definition Capability_ALL :: "Capability list" where
  "Capability_ALL = [SessionCreate, SessionFork, Capture, Ingest, Read, Query,
     GrantIssue, GrantRevoke, AuditQuery]"

primrec Capability_name :: "Capability \<Rightarrow> string" where
  "Capability_name SessionCreate = ''SessionCreate''"
| "Capability_name SessionFork = ''SessionFork''"
| "Capability_name Capture = ''Capture''"
| "Capability_name Ingest = ''Ingest''"
| "Capability_name Read = ''Read''"
| "Capability_name Query = ''Query''"
| "Capability_name GrantIssue = ''GrantIssue''"
| "Capability_name GrantRevoke = ''GrantRevoke''"
| "Capability_name AuditQuery = ''AuditQuery''"

primrec is_state_changing :: "Capability \<Rightarrow> bool" where
  "is_state_changing SessionCreate = True"
| "is_state_changing SessionFork = True"
| "is_state_changing Capture = True"
| "is_state_changing Ingest = True"
| "is_state_changing Read = False"
| "is_state_changing Query = False"
| "is_state_changing GrantIssue = True"
| "is_state_changing GrantRevoke = True"
| "is_state_changing AuditQuery = False"

datatype Mode = Execute | DryRun

definition Mode_ALL :: "Mode list" where
  "Mode_ALL = [Execute, DryRun]"

primrec Mode_name :: "Mode \<Rightarrow> string" where
  "Mode_name Execute = ''Execute''"
| "Mode_name DryRun = ''DryRun''"

datatype TenantClass = Operator | Agent | SubAgent

definition TenantClass_ALL :: "TenantClass list" where
  "TenantClass_ALL = [Operator, Agent, SubAgent]"

primrec TenantClass_name :: "TenantClass \<Rightarrow> string" where
  "TenantClass_name Operator = ''Operator''"
| "TenantClass_name Agent = ''Agent''"
| "TenantClass_name SubAgent = ''SubAgent''"

datatype AuditScope = AllScope | OwnAndOwnedSessions

definition AuditScope_ALL :: "AuditScope list" where
  "AuditScope_ALL = [AllScope, OwnAndOwnedSessions]"

primrec AuditScope_name :: "AuditScope \<Rightarrow> string" where
  "AuditScope_name AllScope = ''All''"
| "AuditScope_name OwnAndOwnedSessions = ''OwnAndOwnedSessions''"

datatype SessionScope = Own | Sessions "SessionId list"

subsection \<open>Budget dimensions, ceilings and costs\<close>

datatype Dimension = WallTimeMs | Fetches | BytesTransferred | OutputBytes | Tokens | OpsBand

definition Dimension_ALL :: "Dimension list" where
  "Dimension_ALL = [WallTimeMs, Fetches, BytesTransferred, OutputBytes, Tokens, OpsBand]"

primrec Dimension_name :: "Dimension \<Rightarrow> string" where
  "Dimension_name WallTimeMs = ''wall_time_ms''"
| "Dimension_name Fetches = ''fetches''"
| "Dimension_name BytesTransferred = ''bytes_transferred''"
| "Dimension_name OutputBytes = ''output_bytes''"
| "Dimension_name Tokens = ''tokens''"
| "Dimension_name OpsBand = ''ops_band''"

record Ceilings =
  ceiling_wall_time_ms :: "u64 option"
  ceiling_fetches :: "u64 option"
  ceiling_bytes_transferred :: "u64 option"
  ceiling_output_bytes :: "u64 option"
  ceiling_tokens :: "u64 option"
  ceiling_ops_band :: "u64 option"

primrec ceilings_get :: "Ceilings \<Rightarrow> Dimension \<Rightarrow> u64 option" where
  "ceilings_get c WallTimeMs = ceiling_wall_time_ms c"
| "ceilings_get c Fetches = ceiling_fetches c"
| "ceilings_get c BytesTransferred = ceiling_bytes_transferred c"
| "ceilings_get c OutputBytes = ceiling_output_bytes c"
| "ceilings_get c Tokens = ceiling_tokens c"
| "ceilings_get c OpsBand = ceiling_ops_band c"

definition ceilings_default :: Ceilings where
  "ceilings_default = \<lparr>ceiling_wall_time_ms = None, ceiling_fetches = None,
     ceiling_bytes_transferred = None, ceiling_output_bytes = None,
     ceiling_tokens = None, ceiling_ops_band = None\<rparr>"

record Cost =
  wall_time_ms :: u64
  fetches :: u64
  bytes_transferred :: u64
  output_bytes :: u64
  tokens :: u64
  ops_band :: u64

primrec cost_get :: "Cost \<Rightarrow> Dimension \<Rightarrow> u64" where
  "cost_get c WallTimeMs = wall_time_ms c"
| "cost_get c Fetches = fetches c"
| "cost_get c BytesTransferred = bytes_transferred c"
| "cost_get c OutputBytes = output_bytes c"
| "cost_get c Tokens = tokens c"
| "cost_get c OpsBand = ops_band c"

definition cost_default :: Cost where
  "cost_default = \<lparr>wall_time_ms = 0, fetches = 0, bytes_transferred = 0, output_bytes = 0,
     tokens = 0, ops_band = 0\<rparr>"

subsection \<open>Outcomes\<close>

datatype DenyCode =
    CapabilityNotGranted | ScopeViolation | GrantNotYetValid | GrantExpired | GrantRevoked
  | NarrowingViolation | BudgetUnavailable | SessionRequired | NotSupported

definition DenyCode_ALL :: "DenyCode list" where
  "DenyCode_ALL = [CapabilityNotGranted, ScopeViolation, GrantNotYetValid, GrantExpired,
     GrantRevoked, NarrowingViolation, BudgetUnavailable, SessionRequired, NotSupported]"

primrec DenyCode_name :: "DenyCode \<Rightarrow> string" where
  "DenyCode_name CapabilityNotGranted = ''CapabilityNotGranted''"
| "DenyCode_name ScopeViolation = ''ScopeViolation''"
| "DenyCode_name GrantNotYetValid = ''GrantNotYetValid''"
| "DenyCode_name GrantExpired = ''GrantExpired''"
| "DenyCode_name GrantRevoked = ''GrantRevoked''"
| "DenyCode_name NarrowingViolation = ''NarrowingViolation''"
| "DenyCode_name BudgetUnavailable = ''BudgetUnavailable''"
| "DenyCode_name SessionRequired = ''SessionRequired''"
| "DenyCode_name NotSupported = ''NotSupported''"

datatype NarrowingAxis =
    Capabilities | AuditScopeAxis | SessionScopeAxis | TargetScopeAxis | CeilingsAxis
  | Expiry | Depth | IssuerAuthority

definition NarrowingAxis_ALL :: "NarrowingAxis list" where
  "NarrowingAxis_ALL = [Capabilities, AuditScopeAxis, SessionScopeAxis, TargetScopeAxis,
     CeilingsAxis, Expiry, Depth, IssuerAuthority]"

primrec NarrowingAxis_name :: "NarrowingAxis \<Rightarrow> string" where
  "NarrowingAxis_name Capabilities = ''capabilities''"
| "NarrowingAxis_name AuditScopeAxis = ''audit_scope''"
| "NarrowingAxis_name SessionScopeAxis = ''session_scope''"
| "NarrowingAxis_name TargetScopeAxis = ''target_scope''"
| "NarrowingAxis_name CeilingsAxis = ''ceilings''"
| "NarrowingAxis_name Expiry = ''expiry''"
| "NarrowingAxis_name Depth = ''depth''"
| "NarrowingAxis_name IssuerAuthority = ''issuer_authority''"

datatype TransferClass = Reset | Timeout | TooLarge | Status | Redirect | Tls | PolicyRefused

definition TransferClass_ALL :: "TransferClass list" where
  "TransferClass_ALL = [Reset, Timeout, TransferClass.TooLarge, Status, Redirect, Tls, PolicyRefused]"

primrec TransferClass_name :: "TransferClass \<Rightarrow> string" where
  "TransferClass_name Reset = ''Reset''"
| "TransferClass_name Timeout = ''Timeout''"
| "TransferClass_name TooLarge = ''TooLarge''"
| "TransferClass_name Status = ''Status''"
| "TransferClass_name Redirect = ''Redirect''"
| "TransferClass_name Tls = ''Tls''"
| "TransferClass_name PolicyRefused = ''PolicyRefused''"

datatype ExtractionClass = Malformed | Unsupported | TooLarge

definition ExtractionClass_ALL :: "ExtractionClass list" where
  "ExtractionClass_ALL = [Malformed, Unsupported, ExtractionClass.TooLarge]"

primrec ExtractionClass_name :: "ExtractionClass \<Rightarrow> string" where
  "ExtractionClass_name Malformed = ''Malformed''"
| "ExtractionClass_name Unsupported = ''Unsupported''"
| "ExtractionClass_name ExtractionClass.TooLarge = ''TooLarge''"

datatype OutcomeKind =
    Success | Plan | InProgress | ProtocolError | AuthFailed | Denied | NotFoundOrDenied
  | BudgetExceeded | ProducerUnavailable | TransferFailed | ExtractionFailed
  | DeadlineExceeded | Cancelled | UnknownEffect | IdempotencyConflict

definition OutcomeKind_ALL :: "OutcomeKind list" where
  "OutcomeKind_ALL = [Success, Plan, InProgress, ProtocolError, AuthFailed, Denied,
     NotFoundOrDenied, BudgetExceeded, ProducerUnavailable, TransferFailed, ExtractionFailed,
     DeadlineExceeded, Cancelled, UnknownEffect, IdempotencyConflict]"

primrec OutcomeKind_name :: "OutcomeKind \<Rightarrow> string" where
  "OutcomeKind_name Success = ''Success''"
| "OutcomeKind_name Plan = ''Plan''"
| "OutcomeKind_name InProgress = ''InProgress''"
| "OutcomeKind_name ProtocolError = ''ProtocolError''"
| "OutcomeKind_name AuthFailed = ''AuthFailed''"
| "OutcomeKind_name Denied = ''Denied''"
| "OutcomeKind_name NotFoundOrDenied = ''NotFoundOrDenied''"
| "OutcomeKind_name BudgetExceeded = ''BudgetExceeded''"
| "OutcomeKind_name ProducerUnavailable = ''ProducerUnavailable''"
| "OutcomeKind_name TransferFailed = ''TransferFailed''"
| "OutcomeKind_name ExtractionFailed = ''ExtractionFailed''"
| "OutcomeKind_name DeadlineExceeded = ''DeadlineExceeded''"
| "OutcomeKind_name Cancelled = ''Cancelled''"
| "OutcomeKind_name UnknownEffect = ''UnknownEffect''"
| "OutcomeKind_name IdempotencyConflict = ''IdempotencyConflict''"

datatype Failure =
    ProtocolError | AuthFailed | Denied DenyCode "NarrowingAxis option" | NotFoundOrDenied
  | BudgetExceeded Dimension | ProducerUnavailable | TransferFailed TransferClass
  | ExtractionFailed ExtractionClass | DeadlineExceeded | Cancelled | UnknownEffect
  | IdempotencyConflict

definition failure_denied :: "DenyCode \<Rightarrow> Failure" where
  "failure_denied code = Failure.Denied code None"

definition failure_narrowing :: "NarrowingAxis \<Rightarrow> Failure" where
  "failure_narrowing axis = Failure.Denied NarrowingViolation (Some axis)"

fun is_well_formed :: "Failure \<Rightarrow> bool" where
  "is_well_formed (Failure.Denied code axis) = ((code = NarrowingViolation) = (axis \<noteq> None))"
| "is_well_formed _ = True"

primrec failure_kind :: "Failure \<Rightarrow> OutcomeKind" where
  "failure_kind Failure.ProtocolError = OutcomeKind.ProtocolError"
| "failure_kind Failure.AuthFailed = OutcomeKind.AuthFailed"
| "failure_kind (Failure.Denied code axis) = OutcomeKind.Denied"
| "failure_kind Failure.NotFoundOrDenied = OutcomeKind.NotFoundOrDenied"
| "failure_kind (Failure.BudgetExceeded d) = OutcomeKind.BudgetExceeded"
| "failure_kind Failure.ProducerUnavailable = OutcomeKind.ProducerUnavailable"
| "failure_kind (Failure.TransferFailed c) = OutcomeKind.TransferFailed"
| "failure_kind (Failure.ExtractionFailed c) = OutcomeKind.ExtractionFailed"
| "failure_kind Failure.DeadlineExceeded = OutcomeKind.DeadlineExceeded"
| "failure_kind Failure.Cancelled = OutcomeKind.Cancelled"
| "failure_kind Failure.UnknownEffect = OutcomeKind.UnknownEffect"
| "failure_kind Failure.IdempotencyConflict = OutcomeKind.IdempotencyConflict"

subsection \<open>Invocation states\<close>

datatype InvocationState =
    Planned | Denied | IntentPersisted | Dispatched | TransferComplete | Published
  | Settled | Released | UnknownEffect

definition InvocationState_ALL :: "InvocationState list" where
  "InvocationState_ALL = [Planned, InvocationState.Denied, IntentPersisted, Dispatched,
     TransferComplete, Published, Settled, Released, InvocationState.UnknownEffect]"

primrec InvocationState_name :: "InvocationState \<Rightarrow> string" where
  "InvocationState_name Planned = ''Planned''"
| "InvocationState_name InvocationState.Denied = ''Denied''"
| "InvocationState_name IntentPersisted = ''IntentPersisted''"
| "InvocationState_name Dispatched = ''Dispatched''"
| "InvocationState_name TransferComplete = ''TransferComplete''"
| "InvocationState_name Published = ''Published''"
| "InvocationState_name Settled = ''Settled''"
| "InvocationState_name Released = ''Released''"
| "InvocationState_name InvocationState.UnknownEffect = ''UnknownEffect''"

fun is_terminal :: "InvocationState \<Rightarrow> bool" where
  "is_terminal InvocationState.Denied = True"
| "is_terminal Settled = True"
| "is_terminal Released = True"
| "is_terminal InvocationState.UnknownEffect = True"
| "is_terminal _ = False"

fun is_durable :: "InvocationState \<Rightarrow> bool" where
  "is_durable Planned = False"
| "is_durable _ = True"

datatype ReleaseReason =
    Abandoned | Revoked | ProducerUnavailable | Cancelled | DeadlineExceeded | Expired

definition ReleaseReason_ALL :: "ReleaseReason list" where
  "ReleaseReason_ALL = [Abandoned, Revoked, ReleaseReason.ProducerUnavailable,
     ReleaseReason.Cancelled, ReleaseReason.DeadlineExceeded, Expired]"

primrec ReleaseReason_name :: "ReleaseReason \<Rightarrow> string" where
  "ReleaseReason_name Abandoned = ''Abandoned''"
| "ReleaseReason_name Revoked = ''Revoked''"
| "ReleaseReason_name ReleaseReason.ProducerUnavailable = ''ProducerUnavailable''"
| "ReleaseReason_name ReleaseReason.Cancelled = ''Cancelled''"
| "ReleaseReason_name ReleaseReason.DeadlineExceeded = ''DeadlineExceeded''"
| "ReleaseReason_name Expired = ''Expired''"

section \<open>The interface of a named enum\<close>

locale named_enum =
  fixes variants :: "'v list"
    and nm :: "'v \<Rightarrow> string"
  assumes all_variants: "v \<in> set variants"
    and names_distinct: "distinct (map nm variants)"
begin

lemma name_inject: "nm v = nm w \<longleftrightarrow> v = w"
  using names_distinct all_variants by (auto simp: distinct_map dest: inj_onD)

lemma from_name_name: "from_name variants nm (nm v) = Some v"
proof -
  have "find (\<lambda>w. nm w = nm v) variants = find (\<lambda>w. w = v) variants"
    by (simp add: name_inject)
  also have "\<dots> = Some v"
  proof -
    have "find (\<lambda>w. w = v) variants \<noteq> None"
      using all_variants by (auto simp: find_None_iff)
    then obtain w where "find (\<lambda>w. w = v) variants = Some w" by blast
    then show ?thesis by (auto simp: find_Some_iff)
  qed
  finally show ?thesis by (simp add: from_name_def)
qed

lemma from_name_Some_iff: "from_name variants nm s = Some v \<longleftrightarrow> s = nm v"
proof
  assume "from_name variants nm s = Some v"
  then show "s = nm v" by (auto simp: from_name_def find_Some_iff)
next
  assume "s = nm v"
  then show "from_name variants nm s = Some v" by (simp add: from_name_name)
qed

lemma from_name_None_iff: "from_name variants nm s = None \<longleftrightarrow> s \<notin> range nm"
  using all_variants by (auto simp: from_name_def find_None_iff)

end

lemmas enum_ALL_defs = Capability_ALL_def Mode_ALL_def TenantClass_ALL_def AuditScope_ALL_def
  Dimension_ALL_def DenyCode_ALL_def NarrowingAxis_ALL_def TransferClass_ALL_def
  ExtractionClass_ALL_def OutcomeKind_ALL_def InvocationState_ALL_def ReleaseReason_ALL_def

interpretation capability: named_enum Capability_ALL Capability_name
proof
  fix v show "v \<in> set Capability_ALL" by (cases v) (simp_all add: enum_ALL_defs)
qed (simp add: enum_ALL_defs)

interpretation mode: named_enum Mode_ALL Mode_name
proof
  fix v show "v \<in> set Mode_ALL" by (cases v) (simp_all add: enum_ALL_defs)
qed (simp add: enum_ALL_defs)

interpretation tenant_class: named_enum TenantClass_ALL TenantClass_name
proof
  fix v show "v \<in> set TenantClass_ALL" by (cases v) (simp_all add: enum_ALL_defs)
qed (simp add: enum_ALL_defs)

interpretation audit_scope: named_enum AuditScope_ALL AuditScope_name
proof
  fix v show "v \<in> set AuditScope_ALL" by (cases v) (simp_all add: enum_ALL_defs)
qed (simp add: enum_ALL_defs)

interpretation dimension: named_enum Dimension_ALL Dimension_name
proof
  fix v show "v \<in> set Dimension_ALL" by (cases v) (simp_all add: enum_ALL_defs)
qed (simp add: enum_ALL_defs)

interpretation deny_code: named_enum DenyCode_ALL DenyCode_name
proof
  fix v show "v \<in> set DenyCode_ALL" by (cases v) (simp_all add: enum_ALL_defs)
qed (simp add: enum_ALL_defs)

interpretation narrowing_axis: named_enum NarrowingAxis_ALL NarrowingAxis_name
proof
  fix v show "v \<in> set NarrowingAxis_ALL" by (cases v) (simp_all add: enum_ALL_defs)
qed (simp add: enum_ALL_defs)

interpretation transfer_class: named_enum TransferClass_ALL TransferClass_name
proof
  fix v show "v \<in> set TransferClass_ALL" by (cases v) (simp_all add: enum_ALL_defs)
qed (simp add: enum_ALL_defs)

interpretation extraction_class: named_enum ExtractionClass_ALL ExtractionClass_name
proof
  fix v show "v \<in> set ExtractionClass_ALL" by (cases v) (simp_all add: enum_ALL_defs)
qed (simp add: enum_ALL_defs)

interpretation outcome_kind: named_enum OutcomeKind_ALL OutcomeKind_name
proof
  fix v show "v \<in> set OutcomeKind_ALL" by (cases v) (simp_all add: enum_ALL_defs)
qed (simp add: enum_ALL_defs)

interpretation invocation_state: named_enum InvocationState_ALL InvocationState_name
proof
  fix v show "v \<in> set InvocationState_ALL" by (cases v) (simp_all add: enum_ALL_defs)
qed (simp add: enum_ALL_defs)

interpretation release_reason: named_enum ReleaseReason_ALL ReleaseReason_name
proof
  fix v show "v \<in> set ReleaseReason_ALL" by (cases v) (simp_all add: enum_ALL_defs)
qed (simp add: enum_ALL_defs)

section \<open>The derived order of capabilities\<close>

text \<open>
  \<open>#[derive(Ord)]\<close> orders the variants as declared; a \<open>BTreeSet<Capability>\<close> iterates in this
  order.
\<close>

instantiation Capability :: linorder
begin

definition less_eq_Capability :: "Capability \<Rightarrow> Capability \<Rightarrow> bool" where
  "less_eq_Capability a b \<longleftrightarrow>
     the (List.find (\<lambda>i. Capability_ALL ! i = a) [0..<9]) \<le>
     the (List.find (\<lambda>i. Capability_ALL ! i = b) [0..<9])"

definition less_Capability :: "Capability \<Rightarrow> Capability \<Rightarrow> bool" where
  "less_Capability a b \<longleftrightarrow> a \<le> b \<and> \<not> b \<le> (a :: Capability)"

instance
proof
  fix x y z :: Capability
  show "x < y \<longleftrightarrow> x \<le> y \<and> \<not> y \<le> x" by (simp add: less_Capability_def)
  show "x \<le> x" by (simp add: less_eq_Capability_def)
  show "x \<le> y \<Longrightarrow> y \<le> z \<Longrightarrow> x \<le> z" by (simp add: less_eq_Capability_def)
  show "x \<le> y \<Longrightarrow> y \<le> x \<Longrightarrow> x = y"
    by (cases x; cases y) (simp_all add: less_eq_Capability_def Capability_ALL_def upt_rec)
  show "x \<le> y \<or> y \<le> x" by (simp add: less_eq_Capability_def linear)
qed

end

section \<open>Lemmas\<close>

lemma Dimension_ALL_complete [simp]: "set Dimension_ALL = UNIV"
  using dimension.all_variants by auto

lemma all_dimensions_iff: "(\<forall>d. P d) \<longleftrightarrow> (\<forall>d \<in> set Dimension_ALL. P d)"
  by simp

lemma cost_eq_iff: "(a :: Cost) = b \<longleftrightarrow> (\<forall>d. cost_get a d = cost_get b d)"
proof
  assume "\<forall>d. cost_get a d = cost_get b d"
  then have "cost_get a d = cost_get b d" for d by blast
  from this [of WallTimeMs] this [of Fetches] this [of BytesTransferred] this [of OutputBytes]
    this [of Tokens] this [of OpsBand]
  show "a = b" by simp
qed simp

lemma cost_get_default [simp]: "cost_get cost_default d = 0"
  by (cases d) (simp_all add: cost_default_def)

lemma ceilings_get_default [simp]: "ceilings_get ceilings_default d = None"
  by (cases d) (simp_all add: ceilings_default_def)

lemma failure_denied_well_formed: "is_well_formed (failure_denied code) \<longleftrightarrow> code \<noteq> NarrowingViolation"
  by (simp add: failure_denied_def)

lemma failure_narrowing_well_formed [simp]: "is_well_formed (failure_narrowing axis)"
  by (simp add: failure_narrowing_def)

end
