(* ===== verification/Payload.thy ===== *)
theory Payload
  imports Vocab
begin

text \<open>
  Request and response payloads of every capability (\<^verbatim>\<open>crates/syntheke/src/payload.rs\<close>): plain
  data, one record per struct with its fields in the source's order, and the two body enums with
  the capability and the outcome kind they denote.
\<close>

section \<open>Definitions\<close>

definition MAX_QUERY_PREDICATE_LEN :: nat where
  "MAX_QUERY_PREDICATE_LEN = 1024"

record SessionForkRequest =
  fork_parent_session :: SessionId

record CaptureLimits =
  max_output_bytes :: "u64 option"
  max_transfer_bytes :: "u64 option"

type_synonym EgressPolicy = "u8 list"

record CaptureRequest =
  cap_session :: SessionId
  cap_target :: string
  cap_limits :: CaptureLimits
  cap_egress_policy :: "EgressPolicy option"

record IngestRequest =
  ingest_artifact_ref :: ArtifactRef

record ReadRequest =
  read_artifact_ref :: ArtifactRef
  read_offset :: u64
  read_len :: u32

record QueryRequest =
  query_session_scope :: "SessionId option"
  query_predicate :: string
  query_limit :: u32

record GrantIssueRequest =
  req_holder :: TenantId
  req_capabilities :: "Capability list"
  req_session_scope :: SessionScope
  req_target_scope :: "string list"
  req_ceilings :: Ceilings
  req_not_before :: Timestamp
  req_expires_at :: Timestamp
  req_max_depth :: "u8 option"

record GrantRevokeRequest =
  target_grant :: GrantId

record AuditQueryRequest =
  aq_audit_scope :: AuditScope
  aq_session :: "SessionId option"
  aq_after :: "AuditSeq option"
  aq_limit :: u32

datatype RequestBody =
    SessionCreate
  | SessionFork SessionForkRequest
  | Capture CaptureRequest
  | Ingest IngestRequest
  | Read ReadRequest
  | Query QueryRequest
  | GrantIssue GrantIssueRequest
  | GrantRevoke GrantRevokeRequest
  | AuditQuery AuditQueryRequest

primrec body_capability :: "RequestBody \<Rightarrow> Capability" where
  "body_capability RequestBody.SessionCreate = Capability.SessionCreate"
| "body_capability (RequestBody.SessionFork r) = Capability.SessionFork"
| "body_capability (RequestBody.Capture r) = Capability.Capture"
| "body_capability (RequestBody.Ingest r) = Capability.Ingest"
| "body_capability (RequestBody.Read r) = Capability.Read"
| "body_capability (RequestBody.Query r) = Capability.Query"
| "body_capability (RequestBody.GrantIssue r) = Capability.GrantIssue"
| "body_capability (RequestBody.GrantRevoke r) = Capability.GrantRevoke"
| "body_capability (RequestBody.AuditQuery r) = Capability.AuditQuery"

record SessionOpened =
  opened_session :: SessionId
  opened_owner :: TenantId
  opened_parent_session :: "SessionId option"

record SourceRef =
  fingerprint :: string
  schema_id :: string
  producer_revision :: string

record CaptureOutcome =
  out_artifact_ref :: ArtifactRef
  out_source :: SourceRef
  out_text_view :: "string option"
  out_truncated :: bool
  out_output_bytes :: u64
  out_revoked_after_effect :: bool

record ReadChunk =
  chunk_offset :: u64
  chunk_bytes :: "u8 list"
  chunk_total_len :: u64

record QueryPage =
  result_refs :: "ArtifactRef list"
  query_more :: bool

record AuditRecord =
  ar_seq :: AuditSeq
  ar_time :: Timestamp
  ar_tenant :: TenantId
  ar_session :: "SessionId option"
  ar_invocation :: InvocationId
  ar_capability :: Capability
  ar_state :: InvocationState
  ar_outcome :: OutcomeKind

record AuditPage =
  scope_applied :: AuditScope
  page_records :: "AuditRecord list"
  next_after :: "AuditSeq option"

record Plan =
  plan_capability :: Capability
  plan_cost :: Cost
  plan_grant_chain :: "GrantId list"
  plan_rule_chain :: "string list"
  plan_refusal :: "Failure option"

record GrantRevokedReply =
  revoked_grant :: GrantId
  effect_sequence :: AuditSeq
  effect_time :: Timestamp

text \<open>\<open>IngestReceipt\<close> and \<open>GrantIssued\<close> are spelled out in their constructors.\<close>

datatype ResponseBody =
    SessionOpened SessionOpened
  | Captured CaptureOutcome
  | Ingested ArtifactRef
  | Chunk ReadChunk
  | QueryPage QueryPage
  | GrantIssued GrantId GrantId
  | GrantRevoked GrantRevokedReply
  | AuditPage AuditPage
  | Plan Plan
  | InProgress
  | Failed Failure

primrec body_outcome :: "ResponseBody \<Rightarrow> OutcomeKind" where
  "body_outcome (ResponseBody.SessionOpened r) = Success"
| "body_outcome (Captured r) = Success"
| "body_outcome (Ingested r) = Success"
| "body_outcome (Chunk r) = Success"
| "body_outcome (ResponseBody.QueryPage r) = Success"
| "body_outcome (GrantIssued g p) = Success"
| "body_outcome (ResponseBody.GrantRevoked r) = Success"
| "body_outcome (ResponseBody.AuditPage r) = Success"
| "body_outcome (ResponseBody.Plan p) = OutcomeKind.Plan"
| "body_outcome ResponseBody.InProgress = OutcomeKind.InProgress"
| "body_outcome (Failed f) = failure_kind f"

section \<open>Lemmas\<close>

lemma body_outcome_failed_iff:
  "body_outcome body \<notin> {Success, OutcomeKind.Plan, OutcomeKind.InProgress} \<longleftrightarrow>
   (\<exists>f. body = Failed f)"
proof (cases body)
  case (Failed f)
  then show ?thesis by (cases f) simp_all
qed simp_all

end
