(* ===== verification/Wire.thy ===== *)
theory Wire
  imports Payload
begin

text \<open>
  The wire protocol (\<^verbatim>\<open>crates/syntheke/src/wire.rs\<close>) and the frame codec
  (\<^verbatim>\<open>crates/syntheke/src/codec.rs\<close>): constants, the 12-byte frame header, version negotiation,
  the checks each message runs, the authentication transcript, and encoding and decoding of frames.

  A fixed-size byte array is a list whose length is its size.  The archive serializer is code
  outside this repository: \<open>to_bytes\<close> and \<open>from_bytes\<close> are parameters of the codec, and the
  theorems name what they rely on.
\<close>

section \<open>Definitions\<close>

subsection \<open>Constants\<close>

definition MAGIC :: "u8 list" where
  "MAGIC = [0x44, 0x50, 0x54, 0x31]"

definition HEADER_LEN :: nat where "HEADER_LEN = 12"
definition PRE_AUTH_MAX_BODY :: u32 where "PRE_AUTH_MAX_BODY = 4 * 1024"
definition DEFAULT_MAX_BODY :: u32 where "DEFAULT_MAX_BODY = 1024 * 1024"
definition HARD_MAX_BODY :: u32 where "HARD_MAX_BODY = 4 * 1024 * 1024"
definition WIRE_VERSION :: u16 where "WIRE_VERSION = 1"

text \<open>The sixteen bytes of \<^verbatim>\<open>dioptron-auth-v1\<close>.\<close>

definition AUTH_LABEL :: "u8 list" where
  "AUTH_LABEL = map of_char ''dioptron-auth-v1''"

definition AUTH_TRANSCRIPT_LEN :: nat where "AUTH_TRANSCRIPT_LEN = 66"

definition clamp_cap :: "u32 \<Rightarrow> u32" where
  "clamp_cap cap = (if cap > HARD_MAX_BODY then HARD_MAX_BODY else cap)"

subsection \<open>Frame kinds\<close>

datatype FrameKind = ClientHello | ServerHello | Auth | Admitted | Request | Cancel | Response | Fault

definition FrameKind_ALL :: "FrameKind list" where
  "FrameKind_ALL = [ClientHello, ServerHello, Auth, Admitted, Request, Cancel, Response, Fault]"

primrec kind_to_u8 :: "FrameKind \<Rightarrow> u8" where
  "kind_to_u8 ClientHello = 1"
| "kind_to_u8 ServerHello = 2"
| "kind_to_u8 Auth = 3"
| "kind_to_u8 Admitted = 4"
| "kind_to_u8 Request = 5"
| "kind_to_u8 Cancel = 6"
| "kind_to_u8 Response = 7"
| "kind_to_u8 Fault = 8"

definition kind_from_u8 :: "u8 \<Rightarrow> FrameKind option" where
  "kind_from_u8 byte =
     (if byte = 1 then Some ClientHello
      else if byte = 2 then Some ServerHello
      else if byte = 3 then Some Auth
      else if byte = 4 then Some Admitted
      else if byte = 5 then Some Request
      else if byte = 6 then Some Cancel
      else if byte = 7 then Some Response
      else if byte = 8 then Some Fault
      else None)"

primrec FrameKind_name :: "FrameKind \<Rightarrow> string" where
  "FrameKind_name ClientHello = ''ClientHello''"
| "FrameKind_name ServerHello = ''ServerHello''"
| "FrameKind_name Auth = ''Auth''"
| "FrameKind_name Admitted = ''Admitted''"
| "FrameKind_name Request = ''Request''"
| "FrameKind_name Cancel = ''Cancel''"
| "FrameKind_name Response = ''Response''"
| "FrameKind_name Fault = ''Fault''"

subsection \<open>Errors\<close>

text \<open>
  The contract crate's error type; the identifier parsers' variants are \<^typ>\<open>IdError\<close>.  The
  serializer's own error is not carried, nor are source locations.
\<close>

datatype WireError =
    IdErr IdError
  | BadMagic "u8 list"
  | UnknownFrameKind u8
  | UnknownFlags u8
  | NonzeroReserved u16
  | FrameTooLarge u64 u32
  | BodyLengthMismatch u32 u64
  | UnexpectedFrameKind FrameKind FrameKind
  | InvalidArchive
  | NonCanonical u64 u64
  | EncodeError
  | InvalidVersionRange u16 u16
  | MaxFrameOutOfRange u32
  | MissingIdempotencyKey Capability
  | PredicateTooLong nat nat
  | FaultNotConnectionLevel OutcomeKind
  | DeniedAxisMismatch

subsection \<open>Frame headers\<close>

definition FLAGS_KNOWN :: u8 where "FLAGS_KNOWN = 0"
definition FLAGS_NONE :: u8 where "FLAGS_NONE = 0"

record FrameHeader =
  h_kind :: FrameKind
  h_flags :: u8
  h_len :: u32

definition header_new :: "FrameKind \<Rightarrow> u32 \<Rightarrow> FrameHeader" where
  "header_new kind len = \<lparr>h_kind = kind, h_flags = FLAGS_NONE, h_len = len\<rparr>"

definition header_encode :: "FrameHeader \<Rightarrow> u8 list" where
  "header_encode h =
     MAGIC @ [kind_to_u8 (h_kind h), h_flags h, 0, 0] @ to_le_bytes 4 (h_len h)"

definition header_decode :: "u8 list \<Rightarrow> u32 \<Rightarrow> (FrameHeader, WireError) result" where
  "header_decode bytes cap =
     (let found = take 4 bytes; kind_byte = bytes ! 4; flags = bytes ! 5 in
      ensure (found = MAGIC) (BadMagic found)
        (rbind (ok_or (kind_from_u8 kind_byte) (UnknownFrameKind kind_byte)) (\<lambda>kind.
          ensure (flags AND NOT FLAGS_KNOWN = 0) (UnknownFlags flags)
           (let reserved = from_le_bytes [bytes ! 6, bytes ! 7] in
            ensure (reserved = 0) (NonzeroReserved reserved)
             (let len = from_le_bytes [bytes ! 8, bytes ! 9, bytes ! 10, bytes ! 11];
                  cap' = clamp_cap cap in
              ensure (len \<le> cap') (FrameTooLarge (ucast len) cap')
                (Ok \<lparr>h_kind = kind, h_flags = flags, h_len = len\<rparr>))))))"

subsection \<open>Handshake and request messages\<close>

datatype Nonce = Nonce u128

primrec nonce_bytes :: "Nonce \<Rightarrow> u8 list" where
  "nonce_bytes (Nonce v) = to_be_bytes 16 v"

record ClientHelloMsg =
  version_min :: u16
  version_max :: u16
  hello_tenant :: TenantId
  client_nonce :: Nonce

definition client_hello_check :: "ClientHelloMsg \<Rightarrow> (unit, WireError) result" where
  "client_hello_check m =
     ensure (version_min m \<le> version_max m)
       (InvalidVersionRange (version_min m) (version_max m)) (Ok ())"

datatype VersionChoice = Chosen u16 | Incompatible

definition negotiate_version :: "u16 \<Rightarrow> u16 \<Rightarrow> u16 \<Rightarrow> u16 \<Rightarrow> VersionChoice" where
  "negotiate_version client_min client_max server_min server_max =
     (let low = (if client_min > server_min then client_min else server_min);
          high = (if client_max < server_max then client_max else server_max)
      in if low \<le> high then Chosen high else Incompatible)"

record ServerHelloMsg =
  hello_version :: VersionChoice
  server_nonce :: Nonce
  max_frame :: u32

definition server_hello_check :: "ServerHelloMsg \<Rightarrow> (unit, WireError) result" where
  "server_hello_check m =
     ensure (PRE_AUTH_MAX_BODY \<le> max_frame m \<and> max_frame m \<le> HARD_MAX_BODY)
       (MaxFrameOutOfRange (max_frame m)) (Ok ())"

record RequestMsg =
  request_id :: u64
  req_grant :: GrantId
  idempotency_key :: "IdempotencyKey option"
  req_mode :: Mode
  deadline_ms :: u32
  req_body :: RequestBody

definition request_check :: "RequestMsg \<Rightarrow> (unit, WireError) result" where
  "request_check r =
     (let capability = body_capability (req_body r) in
      rbind (case idempotency_key r of
          Some key \<Rightarrow> map_err IdErr (key_check key)
        | None \<Rightarrow> ensure (req_mode r = DryRun \<or> \<not> is_state_changing capability)
            (MissingIdempotencyKey capability) (Ok ()))
       (\<lambda>_. case req_body r of
          RequestBody.Query query \<Rightarrow>
            (let len = length (query_predicate query) in
             ensure (len \<le> MAX_QUERY_PREDICATE_LEN)
               (PredicateTooLong len MAX_QUERY_PREDICATE_LEN) (Ok ()))
        | _ \<Rightarrow> Ok ()))"

record ResponseMsg =
  resp_request_id :: u64
  resp_invocation :: "InvocationId option"
  resp_body :: ResponseBody

definition response_check :: "ResponseMsg \<Rightarrow> (unit, WireError) result" where
  "response_check r =
     (let failure = (case resp_body r of
          Failed f \<Rightarrow> Some f
        | ResponseBody.Plan p \<Rightarrow> plan_refusal p
        | _ \<Rightarrow> None)
      in case failure of
          Some f \<Rightarrow> ensure (is_well_formed f) DeniedAxisMismatch (Ok ())
        | None \<Rightarrow> Ok ())"

definition fault_check :: "Failure \<Rightarrow> (unit, WireError) result" where
  "fault_check failure =
     ensure (failure = Failure.ProtocolError \<or> failure = Failure.AuthFailed)
       (FaultNotConnectionLevel (failure_kind failure)) (Ok ())"

subsection \<open>The authentication transcript\<close>

text \<open>
  The parts are copied into a zeroed array of \<open>AUTH_TRANSCRIPT_LEN\<close> bytes; \<open>zip\<close> stops at the
  shorter of the two.
\<close>

definition auth_transcript :: "u16 \<Rightarrow> TenantId \<Rightarrow> Nonce \<Rightarrow> Nonce \<Rightarrow> u8 list" where
  "auth_transcript version tenant cnonce snonce =
     (let parts = concat [AUTH_LABEL, to_le_bytes 2 version, tenant_to_bytes tenant,
            nonce_bytes cnonce, nonce_bytes snonce]
      in take AUTH_TRANSCRIPT_LEN parts @ replicate (AUTH_TRANSCRIPT_LEN - length parts) 0)"

subsection \<open>Encoding and decoding frames\<close>

text \<open>
  \<open>Message\<close>: the frame kind and the invariant check of a message type, with the archive
  serializer's encoding and validated decoding of that type as parameters.
\<close>

record 'm Message =
  msg_kind :: FrameKind
  msg_check :: "'m \<Rightarrow> (unit, WireError) result"
  to_bytes :: "'m \<Rightarrow> u8 list option"
  from_bytes :: "u8 list \<Rightarrow> 'm option"

definition len_u64 :: "nat \<Rightarrow> u64" where
  "len_u64 len = (if len < 2 ^ 64 then of_nat len else - 1)"

definition within :: "nat \<Rightarrow> u32 \<Rightarrow> bool" where
  "within len cap \<longleftrightarrow> len \<le> unat cap"

definition encode :: "'m Message \<Rightarrow> 'm \<Rightarrow> (u8 list, WireError) result" where
  "encode T message = rbind (msg_check T message) (\<lambda>_. ok_or (to_bytes T message) EncodeError)"

definition encode_frame :: "'m Message \<Rightarrow> 'm \<Rightarrow> u32 \<Rightarrow> (u8 list, WireError) result" where
  "encode_frame T message cap =
     rbind (encode T message) (\<lambda>body.
       let cap' = clamp_cap cap in
       rbind (if length body < 2 ^ 32 \<and> of_nat (length body) \<le> cap'
              then Ok (of_nat (length body))
              else Err (FrameTooLarge (len_u64 (length body)) cap')) (\<lambda>len.
         Ok (header_encode (header_new (msg_kind T) len) @ body)))"

definition decode :: "'m Message \<Rightarrow> u8 list \<Rightarrow> u32 \<Rightarrow> ('m, WireError) result" where
  "decode T body cap =
     (let cap' = clamp_cap cap in
      ensure (within (length body) cap') (FrameTooLarge (len_u64 (length body)) cap')
       (rbind (ok_or (from_bytes T body) InvalidArchive) (\<lambda>message.
         rbind (ok_or (to_bytes T message) EncodeError) (\<lambda>canonical.
          ensure (canonical = body)
            (NonCanonical (len_u64 (length body)) (len_u64 (length canonical)))
            (rbind (msg_check T message) (\<lambda>_. Ok message))))))"

definition decode_frame ::
  "'m Message \<Rightarrow> FrameHeader \<Rightarrow> u8 list \<Rightarrow> u32 \<Rightarrow> ('m, WireError) result" where
  "decode_frame T header body cap =
     ensure (h_kind header = msg_kind T) (UnexpectedFrameKind (msg_kind T) (h_kind header))
      (ensure (unat (h_len header) = length body)
         (BodyLengthMismatch (h_len header) (len_u64 (length body)))
         (decode T body cap))"

section \<open>Lemmas\<close>

interpretation frame_kind: named_enum FrameKind_ALL FrameKind_name
proof
  fix v show "v \<in> set FrameKind_ALL" by (cases v) (simp_all add: FrameKind_ALL_def)
qed (simp add: FrameKind_ALL_def)

subsection \<open>Headers\<close>

lemma length_MAGIC [simp]: "length MAGIC = 4"
  by (simp add: MAGIC_def)

lemma length_header_encode [simp]: "length (header_encode h) = HEADER_LEN"
  by (simp add: header_encode_def HEADER_LEN_def)

lemma kind_from_to [simp]: "kind_from_u8 (kind_to_u8 k) = Some k"
  by (cases k) (simp_all add: kind_from_u8_def)

lemma kind_to_from: "kind_from_u8 b = Some k \<Longrightarrow> kind_to_u8 k = b"
  by (auto simp: kind_from_u8_def split: if_splits)

lemma to_le_bytes_4:
  "to_le_bytes 4 (w :: u32) = [ucast w, ucast (drop_bit 8 w), ucast (drop_bit 16 w), ucast (drop_bit 24 w)]"
  by (simp add: numeral_eq_Suc)

lemma take4_eq:
  assumes "length bytes = 12"
  shows "bytes = take 4 bytes @ [bytes ! 4, bytes ! 5, bytes ! 6, bytes ! 7] @
    [bytes ! 8, bytes ! 9, bytes ! 10, bytes ! 11]"
  using assms by (auto simp: list_eq_iff_nth_eq nth_append less_Suc_eq_0_disj numeral_eq_Suc)

lemma clamp_cap_le: "clamp_cap cap \<le> HARD_MAX_BODY" "clamp_cap cap \<le> cap"
  by (auto simp: clamp_cap_def)

lemma header_decode_encode:
  assumes "h_flags h = FLAGS_NONE"
  shows "header_decode (header_encode h) cap =
    (if h_len h \<le> clamp_cap cap then Ok h
     else Err (FrameTooLarge (ucast (h_len h)) (clamp_cap cap)))"
proof -
  have len: "from_le_bytes (to_le_bytes 4 (h_len h)) = h_len h"
    by (rule from_le_to_le_bytes) simp
  show ?thesis
    using assms len
    by (simp add: header_decode_def header_encode_def MAGIC_def FLAGS_NONE_def FLAGS_KNOWN_def
        to_le_bytes_4 ensure_def)
qed

lemma header_encode_decode:
  assumes len: "length bytes = HEADER_LEN" and ok: "header_decode bytes cap = Ok h"
  shows "header_encode h = bytes" and "h_flags h = FLAGS_NONE" and "h_len h \<le> clamp_cap cap"
proof -
  have len': "length bytes = 12" using len by (simp add: HEADER_LEN_def)
  from ok have magic: "take 4 bytes = MAGIC"
    and kind: "kind_from_u8 (bytes ! 4) = Some (h_kind h)"
    and flags: "h_flags h = bytes ! 5" "bytes ! 5 = 0"
    and res: "(from_le_bytes [bytes ! 6, bytes ! 7] :: u16) = 0"
    and l: "h_len h = from_le_bytes [bytes ! 8, bytes ! 9, bytes ! 10, bytes ! 11]"
    and cap: "h_len h \<le> clamp_cap cap"
    by (auto simp: header_decode_def Let_def result_iffs FLAGS_KNOWN_def)
  have "to_le_bytes 2 (from_le_bytes [bytes ! 6, bytes ! 7] :: u16) = [bytes ! 6, bytes ! 7]"
    using to_le_from_le_bytes [of "[bytes ! 6, bytes ! 7]", where 'a = 16]
    by (simp add: numeral_eq_Suc)
  with res have r: "bytes ! 6 = 0" "bytes ! 7 = 0" by (simp_all add: numeral_eq_Suc)
  have "to_le_bytes 4 (h_len h) = [bytes ! 8, bytes ! 9, bytes ! 10, bytes ! 11]"
    using to_le_from_le_bytes [of "[bytes ! 8, bytes ! 9, bytes ! 10, bytes ! 11]", where 'a = 32] l
    by (simp add: numeral_eq_Suc)
  with magic kind flags r take4_eq [OF len'] show "header_encode h = bytes"
    by (simp add: header_encode_def kind_to_from)
  show "h_flags h = FLAGS_NONE" using flags by (simp add: FLAGS_NONE_def)
  show "h_len h \<le> clamp_cap cap" by (rule cap)
qed

subsection \<open>Frames\<close>

lemma decode_Ok_iff:
  "decode T body cap = Ok m \<longleftrightarrow>
   length body \<le> unat (clamp_cap cap) \<and> from_bytes T body = Some m \<and> to_bytes T m = Some body \<and>
   msg_check T m = Ok ()"
  by (auto simp: decode_def Let_def result_iffs within_def)

lemma decode_frame_Ok_iff:
  "decode_frame T header body cap = Ok m \<longleftrightarrow>
   h_kind header = msg_kind T \<and> unat (h_len header) = length body \<and> decode T body cap = Ok m"
  by (auto simp: decode_frame_def result_iffs)

lemma encode_frame_Ok_iff:
  "encode_frame T m cap = Ok frame \<longleftrightarrow>
   (\<exists>body. msg_check T m = Ok () \<and> to_bytes T m = Some body \<and>
      length body \<le> unat (clamp_cap cap) \<and>
      frame = header_encode (header_new (msg_kind T) (of_nat (length body))) @ body)"
proof -
  have "length body < 2 ^ 32 \<and> of_nat (length body) \<le> clamp_cap cap \<longleftrightarrow>
      length body \<le> unat (clamp_cap cap)" for body :: "u8 list"
  proof
    assume "length body \<le> unat (clamp_cap cap)"
    moreover have "unat (clamp_cap cap) < 2 ^ 32"
      using unsigned_less [of "clamp_cap cap"] by simp
    ultimately have "length body < 2 ^ 32" by linarith
    moreover from this have "unat (of_nat (length body) :: u32) = length body"
      by (simp add: unat_of_nat)
    ultimately show "length body < 2 ^ 32 \<and> of_nat (length body) \<le> clamp_cap cap"
      using \<open>length body \<le> unat (clamp_cap cap)\<close> by (simp add: word_le_nat_alt)
  next
    assume "length body < 2 ^ 32 \<and> of_nat (length body) \<le> clamp_cap cap"
    then show "length body \<le> unat (clamp_cap cap)"
      by (auto simp: word_le_nat_alt unat_of_nat)
  qed
  then show ?thesis
    by (auto simp: encode_frame_def encode_def Let_def result_iffs)
qed

subsection \<open>The transcript\<close>

lemma length_AUTH_LABEL [simp]: "length AUTH_LABEL = 16"
  by (simp add: AUTH_LABEL_def)

lemma length_tenant_to_bytes [simp]: "length (tenant_to_bytes t) = 16"
  by (cases t) simp

lemma length_nonce_bytes [simp]: "length (nonce_bytes n) = 16"
  by (cases n) simp

lemma tenant_to_bytes_inject: "tenant_to_bytes a = tenant_to_bytes b \<longleftrightarrow> a = b"
  by (cases a; cases b) (simp add: id_to_bytes_def to_be_bytes_inject)

lemma nonce_bytes_inject: "nonce_bytes a = nonce_bytes b \<longleftrightarrow> a = b"
  by (cases a; cases b) (simp add: to_be_bytes_inject)

lemma auth_transcript_eq:
  "auth_transcript v t c s =
   AUTH_LABEL @ to_le_bytes 2 v @ tenant_to_bytes t @ nonce_bytes c @ nonce_bytes s"
  by (simp add: auth_transcript_def AUTH_TRANSCRIPT_LEN_def Let_def)

section \<open>Properties\<close>

text \<open>Decoding is the inverse of encoding a frame header: a header that the crate builds decodes
  to itself exactly when its length is within the clamped bound, and is refused as too large
  otherwise.\<close>

theorem frame_header_roundtrip:
  "header_decode (header_encode (header_new kind len)) cap =
   (if len \<le> clamp_cap cap then Ok (header_new kind len)
    else Err (FrameTooLarge (ucast len) (clamp_cap cap)))"
  by (simp add: header_decode_encode header_new_def)

text \<open>Every 12-byte header the decoder accepts is the canonical encoding of the header it
  returns, and its declared body length never exceeds the caller's bound nor the 4 MiB hard
  maximum: a receiver that decodes the header first never allocates for an oversized frame.\<close>

theorem frame_header_canonical:
  assumes "length bytes = HEADER_LEN" and "header_decode bytes cap = Ok h"
  shows "header_encode h = bytes \<and> h_flags h = FLAGS_NONE \<and> h_len h \<le> cap \<and>
    h_len h \<le> HARD_MAX_BODY"
  using header_encode_decode [OF assms] clamp_cap_le [of cap] by (auto intro: order_trans)

theorem frame_header_canonical_witness:
  "header_encode (header_new Cancel 24) =
     [0x44, 0x50, 0x54, 0x31, 6, 0, 0, 0, 24, 0, 0, 0] \<and> (24 :: u32) \<le> HARD_MAX_BODY"
proof -
  let ?b = "[0x44, 0x50, 0x54, 0x31, 6, 0, 0, 0, 24, 0, 0, 0] :: u8 list"
  have len: "length ?b = HEADER_LEN" by (simp add: HEADER_LEN_def)
  have ok: "header_decode ?b PRE_AUTH_MAX_BODY = Ok (header_new Cancel 24)"
    by code_simp
  show ?thesis
    using frame_header_canonical [OF len ok] by (simp add: header_new_def)
qed

text \<open>A frame that encodes decodes back to its message, given that the archive serializer's
  validated decoding inverts its encoding.\<close>

theorem frame_roundtrip:
  assumes serializer: "\<And>m body. to_bytes T m = Some body \<Longrightarrow> from_bytes T body = Some m"
    and enc: "encode_frame T m cap = Ok frame"
  shows "\<exists>h. header_decode (take HEADER_LEN frame) cap = Ok h \<and>
    decode_frame T h (drop HEADER_LEN frame) cap = Ok m"
proof -
  from enc obtain body where c: "msg_check T m = Ok ()" and b: "to_bytes T m = Some body"
    and l: "length body \<le> unat (clamp_cap cap)"
    and f: "frame = header_encode (header_new (msg_kind T) (of_nat (length body))) @ body"
    by (auto simp: encode_frame_Ok_iff)
  let ?h = "header_new (msg_kind T) (of_nat (length body))"
  have len: "unat (of_nat (length body) :: u32) = length body"
    using l by (rule le_unat_uoi)
  have "header_decode (take HEADER_LEN frame) cap = Ok ?h"
    using f l len header_decode_encode [of ?h cap]
    by (simp add: header_new_def word_le_nat_alt)
  moreover have "decode_frame T ?h (drop HEADER_LEN frame) cap = Ok m"
    using f c b l len serializer [OF b] by (simp add: decode_frame_Ok_iff decode_Ok_iff header_new_def)
  ultimately show ?thesis by blast
qed

text \<open>A serializer for the witnesses: the one-byte message, stored as itself.\<close>

definition byte_message :: "u8 Message" where
  "byte_message = \<lparr>msg_kind = Cancel, msg_check = (\<lambda>_. Ok ()), to_bytes = (\<lambda>m. Some [m]),
     from_bytes = (\<lambda>body. case body of [m] \<Rightarrow> Some m | _ \<Rightarrow> None)\<rparr>"

theorem frame_roundtrip_witness:
  "\<exists>h. header_decode (take HEADER_LEN [0x44, 0x50, 0x54, 0x31, 6, 0, 0, 0, 1, 0, 0, 0, 42]) 4096 = Ok h \<and>
     decode_frame byte_message h (drop HEADER_LEN [0x44, 0x50, 0x54, 0x31, 6, 0, 0, 0, 1, 0, 0, 0, 42]) 4096
       = Ok 42"
proof (rule frame_roundtrip)
  show "encode_frame byte_message 42 4096 =
      Ok [0x44, 0x50, 0x54, 0x31, 6, 0, 0, 0, 1, 0, 0, 0, 42]"
    by (simp add: encode_frame_Ok_iff byte_message_def clamp_cap_def HARD_MAX_BODY_def
        header_encode_def header_new_def MAGIC_def FLAGS_NONE_def to_le_bytes_4)
qed (auto simp: byte_message_def)

text \<open>Each message value has exactly one accepted body: two bodies that decode to the same
  message are equal, whatever the archive validator accepts.\<close>

theorem decode_injective:
  assumes "decode T body cap = Ok m" and "decode T body' cap' = Ok m"
  shows "body = body'"
  using assms by (auto simp: decode_Ok_iff)

theorem decode_injective_witness:
  "decode byte_message [7] 4096 = Ok 7 \<and> [7 :: u8] = [7]"
proof -
  have ok: "decode byte_message [7] 4096 = Ok 7"
    by (simp add: decode_Ok_iff byte_message_def clamp_cap_def HARD_MAX_BODY_def)
  show ?thesis using ok decode_injective [OF ok ok] by simp
qed

text \<open>Version negotiation picks the highest version both ranges contain, and answers
  \<open>Incompatible\<close> exactly when the ranges share none.\<close>

theorem negotiate_version_highest:
  "case negotiate_version cmin cmax smin smax of
     Chosen v \<Rightarrow> v \<in> {cmin..cmax} \<inter> {smin..smax} \<and> (\<forall>w \<in> {cmin..cmax} \<inter> {smin..smax}. w \<le> v)
   | Incompatible \<Rightarrow> {cmin..cmax} \<inter> {smin..smax} = {}"
  by (auto simp: negotiate_version_def Let_def)

theorem negotiate_version_highest_witness:
  "negotiate_version 1 3 2 5 = Chosen 3 \<and> (2 :: u16) \<le> 3 \<and> (3 :: u16) \<in> {1..3} \<inter> {2..5}"
proof -
  have "negotiate_version 1 3 2 5 = Chosen 3" by code_simp
  with negotiate_version_highest [of 1 3 2 5] show ?thesis by simp
qed

text \<open>The signed transcript is the label, version, tenant and both nonces, 66 bytes in all, and
  determines every one of them: no two different handshakes share a transcript.\<close>

theorem auth_transcript_injective:
  "length (auth_transcript v t c s) = AUTH_TRANSCRIPT_LEN \<and>
   (auth_transcript v t c s = auth_transcript v' t' c' s' \<longleftrightarrow>
    v = v' \<and> t = t' \<and> c = c' \<and> s = s')"
proof -
  have "to_le_bytes 2 v = to_le_bytes 2 v' \<longleftrightarrow> v = v'"
    by (rule to_le_bytes_inject) simp
  then show ?thesis
    by (auto simp: auth_transcript_eq AUTH_TRANSCRIPT_LEN_def tenant_to_bytes_inject
        nonce_bytes_inject)
qed

end
