(* ===== verification/Origin.thy ===== *)
theory Origin
  imports Prelude
begin

text \<open>
  Origins and origin patterns for target-scope authorization
  (\<^verbatim>\<open>crates/epitrope/src/origin.rs\<close>): the strict origin parser, the pattern parser, matching, and
  the covering relation that delegation narrowing uses.

  The string primitives of the standard library that the parser calls (\<open>split_once\<close>, \<open>split\<close>,
  \<open>strip_prefix\<close>, \<open>strip_suffix\<close>) come first.
\<close>

section \<open>Definitions\<close>

subsection \<open>String primitives\<close>

fun split_once :: "string \<Rightarrow> string \<Rightarrow> (string \<times> string) option" where
  "split_once sep [] = (if sep = [] then Some ([], []) else None)"
| "split_once sep (c # cs) =
     (if take (length sep) (c # cs) = sep then Some ([], drop (length sep) (c # cs))
      else map_option (\<lambda>(a, b). (c # a, b)) (split_once sep cs))"

fun split_on :: "char \<Rightarrow> string \<Rightarrow> string list" where
  "split_on sep [] = [[]]"
| "split_on sep (c # cs) =
     (if c = sep then [] # split_on sep cs
      else (case split_on sep cs of [] \<Rightarrow> [[c]] | l # ls \<Rightarrow> (c # l) # ls))"

definition strip_prefix :: "string \<Rightarrow> string \<Rightarrow> string option" where
  "strip_prefix pre s = (if take (length pre) s = pre then Some (drop (length pre) s) else None)"

definition strip_suffix :: "string \<Rightarrow> string \<Rightarrow> string option" where
  "strip_suffix suf s =
     (if length suf \<le> length s \<and> drop (length s - length suf) s = suf
      then Some (take (length s - length suf) s) else None)"

definition eq_ignore_ascii_case :: "string \<Rightarrow> string \<Rightarrow> bool" where
  "eq_ignore_ascii_case a b \<longleftrightarrow> map to_ascii_lowercase a = map to_ascii_lowercase b"

subsection \<open>Schemes, hosts and origins\<close>

datatype OriginError = OriginSyntax string

definition MAX_HOST_LEN :: nat where "MAX_HOST_LEN = 253"
definition MAX_LABEL_LEN :: nat where "MAX_LABEL_LEN = 63"

datatype Scheme = Http | Https

definition Scheme_ALL :: "Scheme list" where
  "Scheme_ALL = [Http, Https]"

primrec default_port :: "Scheme \<Rightarrow> u16" where
  "default_port Http = 80"
| "default_port Https = 443"

definition scheme_parse :: "string \<Rightarrow> (Scheme, OriginError) result" where
  "scheme_parse s =
     (if eq_ignore_ascii_case s ''http'' then Ok Http
      else if eq_ignore_ascii_case s ''https'' then Ok Https
      else Err (OriginSyntax ''scheme is not http or https''))"

datatype Host = Domain string | Ipv4 u8 u8 u8 u8

record Origin =
  o_scheme :: Scheme
  o_host :: Host
  o_port :: u16

subsection \<open>Ports\<close>

definition digit_u16 :: "char \<Rightarrow> u16" where
  "digit_u16 c = ucast ((of_char c :: u8) - 48)"

fun fold_port :: "u16 \<Rightarrow> string \<Rightarrow> u16 option" where
  "fold_port acc [] = Some acc"
| "fold_port acc (d # ds) =
     (case checked_mul acc 10 of
        None \<Rightarrow> None
      | Some m \<Rightarrow> (case checked_add m (digit_u16 d) of None \<Rightarrow> None | Some a \<Rightarrow> fold_port a ds))"

definition split_port :: "string \<Rightarrow> (string \<times> u16 option, OriginError) result" where
  "split_port authority =
     (case split_once '':'' authority of
        None \<Rightarrow> Ok (authority, None)
      | Some (host, port) \<Rightarrow>
          ensure (port \<noteq> [] \<and> list_all is_ascii_digit port)
            (OriginSyntax ''port is empty or not decimal'')
            (rbind (ok_or (fold_port 0 port) (OriginSyntax ''port is above 65535'')) (\<lambda>p.
               ensure (p \<noteq> 0) (OriginSyntax ''port is 0'') (Ok (host, Some p)))))"

subsection \<open>Hosts\<close>

definition ends_in_number :: "string \<Rightarrow> bool" where
  "ends_in_number label \<longleftrightarrow>
     (label \<noteq> [] \<and> list_all is_ascii_digit label) \<or>
     (case (case strip_prefix ''0x'' label of Some d \<Rightarrow> Some d | None \<Rightarrow> strip_prefix ''0X'' label) of
        None \<Rightarrow> False
      | Some digits \<Rightarrow> list_all is_ascii_hexdigit digits)"

definition decimal_value :: "string \<Rightarrow> nat" where
  "decimal_value s = foldl (\<lambda>acc c. acc * 10 + (of_char c - 48)) 0 s"

definition octet :: "string \<Rightarrow> (u8, OriginError) result" where
  "octet label =
     ensure (label \<noteq> [] \<and> length label \<le> 3 \<and> list_all is_ascii_digit label \<and>
         (label = ''0'' \<or> hd label \<noteq> CHR ''0''))
       (OriginSyntax ''numeric host octet is not canonical decimal'')
       (if decimal_value label \<le> 255 then Ok (of_nat (decimal_value label))
        else Err (OriginSyntax ''numeric host octet is above 255''))"

definition parse_ipv4 :: "string list \<Rightarrow> (Host, OriginError) result" where
  "parse_ipv4 labels =
     (case labels of
        [a, b, c, d] \<Rightarrow>
          rbind (octet a) (\<lambda>a'. rbind (octet b) (\<lambda>b'. rbind (octet c) (\<lambda>c'.
            rbind (octet d) (\<lambda>d'. Ok (Ipv4 a' b' c' d')))))
      | _ \<Rightarrow> Err (OriginSyntax ''numeric host is not four dotted octets''))"

definition is_ldh_label :: "string \<Rightarrow> bool" where
  "is_ldh_label label \<longleftrightarrow>
     label \<noteq> [] \<and> length label \<le> MAX_LABEL_LEN \<and>
     list_all (\<lambda>b. is_ascii_alphanumeric b \<or> b = CHR ''-'') label \<and>
     hd label \<noteq> CHR ''-'' \<and> last label \<noteq> CHR ''-''"

definition parse_host :: "string \<Rightarrow> (Host, OriginError) result" where
  "parse_host s =
     ensure (s \<noteq> [] \<and> length s \<le> MAX_HOST_LEN) (OriginSyntax ''host is empty or too long'')
      (let labels = split_on CHR ''.'' s in
       if ends_in_number (last labels) then parse_ipv4 labels
       else ensure (list_all is_ldh_label labels)
         (OriginSyntax ''host label is empty, too long, or not letters, digits, and hyphens'')
         (Ok (Domain (map to_ascii_lowercase s))))"

subsection \<open>Parsing origins\<close>

definition origin_parse :: "string \<Rightarrow> (Origin, OriginError) result" where
  "origin_parse target =
     ensure (list_all is_ascii_graphic target)
       (OriginSyntax ''target holds whitespace, control, or non-ASCII bytes'')
      (rbind (ok_or (split_once ''://'' target) (OriginSyntax ''target has no scheme separator''))
        (\<lambda>(scheme_text, rest).
         rbind (scheme_parse scheme_text) (\<lambda>scheme.
          let authority = takeWhile (\<lambda>c. c \<notin> set ''/?#'' \<and> c \<noteq> CHR 0x5C) rest in
          rbind (split_port authority) (\<lambda>(host_text, port).
           rbind (parse_host host_text) (\<lambda>host.
            Ok \<lparr>o_scheme = scheme, o_host = host,
                o_port = (case port of Some p \<Rightarrow> p | None \<Rightarrow> default_port scheme)\<rparr>)))))"

subsection \<open>Displaying origins\<close>

fun decimal :: "nat \<Rightarrow> string" where
  "decimal n = (if n < 10 then [char_of (48 + n)] else decimal (n div 10) @ [char_of (48 + n mod 10)])"

primrec host_display :: "Host \<Rightarrow> string" where
  "host_display (Domain d) = d"
| "host_display (Ipv4 a b c d) =
     decimal (unat a) @ ''.'' @ decimal (unat b) @ ''.'' @ decimal (unat c) @ ''.'' @ decimal (unat d)"

definition origin_display :: "Origin \<Rightarrow> string" where
  "origin_display orig =
     (case o_scheme orig of Http \<Rightarrow> ''http'' | Https \<Rightarrow> ''https'') @ ''://'' @
     host_display (o_host orig) @ '':'' @ decimal (unat (o_port orig))"

subsection \<open>Patterns\<close>

datatype HostPattern = AnyHost | Exact Host | Subdomains string

record OriginPattern =
  p_scheme :: "Scheme option"
  p_host :: HostPattern
  p_port :: "u16 option"

definition is_proper_subdomain :: "string \<Rightarrow> string \<Rightarrow> bool" where
  "is_proper_subdomain name domain =
     (case strip_suffix domain name of
        None \<Rightarrow> False
      | Some front \<Rightarrow> (case strip_suffix ''.'' front of None \<Rightarrow> False | Some f \<Rightarrow> f \<noteq> []))"

definition pattern_parse :: "string \<Rightarrow> (OriginPattern, OriginError) result" where
  "pattern_parse s =
     ensure (list_all is_ascii_graphic s)
       (OriginSyntax ''pattern holds whitespace, control, or non-ASCII bytes'')
      (rbind (case split_once ''://'' s of
          Some (scheme_text, authority) \<Rightarrow>
            rbind (scheme_parse scheme_text) (\<lambda>scheme. Ok (Some scheme, authority))
        | None \<Rightarrow> Ok (None, s))
       (\<lambda>(scheme, authority).
        rbind (split_port authority) (\<lambda>(host, port).
         rbind (if host = ''*'' then Ok AnyHost
           else (case strip_prefix ''*.'' host of
               Some domain \<Rightarrow> rbind (parse_host domain) (\<lambda>h. case h of
                   Domain d \<Rightarrow> Ok (Subdomains d)
                 | Ipv4 _ _ _ _ \<Rightarrow> Err (OriginSyntax ''a wildcard cannot precede an address''))
             | None \<Rightarrow> rbind (parse_host host) (\<lambda>h. Ok (Exact h))))
         (\<lambda>hp. Ok \<lparr>p_scheme = scheme, p_host = hp, p_port = port\<rparr>))))"

definition admits_scheme :: "OriginPattern \<Rightarrow> Scheme \<Rightarrow> bool" where
  "admits_scheme p scheme = (case p_scheme p of None \<Rightarrow> True | Some own \<Rightarrow> own = scheme)"

definition port_for :: "OriginPattern \<Rightarrow> Scheme \<Rightarrow> u16" where
  "port_for p scheme = (case p_port p of Some port \<Rightarrow> port | None \<Rightarrow> default_port scheme)"

definition host_matches :: "HostPattern \<Rightarrow> Host \<Rightarrow> bool" where
  "host_matches hp h =
     (case hp of
        AnyHost \<Rightarrow> True
      | Exact host \<Rightarrow> host = h
      | Subdomains domain \<Rightarrow> (case h of
            Domain name \<Rightarrow> is_proper_subdomain name domain
          | Ipv4 _ _ _ _ \<Rightarrow> False))"

definition pattern_matches :: "OriginPattern \<Rightarrow> Origin \<Rightarrow> bool" where
  "pattern_matches p orig \<longleftrightarrow>
     admits_scheme p (o_scheme orig) \<and> port_for p (o_scheme orig) = o_port orig \<and>
     host_matches (p_host p) (o_host orig)"

definition host_covers :: "HostPattern \<Rightarrow> HostPattern \<Rightarrow> bool" where
  "host_covers outer inner =
     (case (outer, inner) of
        (AnyHost, _) \<Rightarrow> True
      | (Exact _, AnyHost) \<Rightarrow> False
      | (Subdomains _, AnyHost) \<Rightarrow> False
      | (Exact _, Subdomains _) \<Rightarrow> False
      | (Exact out, Exact host) \<Rightarrow> out = host
      | (Subdomains out, Exact host) \<Rightarrow> (case host of
            Domain name \<Rightarrow> is_proper_subdomain name out
          | Ipv4 _ _ _ _ \<Rightarrow> False)
      | (Subdomains out, Subdomains domain) \<Rightarrow> domain = out \<or> is_proper_subdomain domain out)"

definition pattern_covers :: "OriginPattern \<Rightarrow> OriginPattern \<Rightarrow> bool" where
  "pattern_covers self inner \<longleftrightarrow>
     list_all (\<lambda>scheme. admits_scheme self scheme \<and> port_for self scheme = port_for inner scheme)
       (filter (admits_scheme inner) Scheme_ALL) \<and>
     host_covers (p_host self) (p_host inner)"

subsection \<open>Target scopes\<close>

type_synonym TargetScope = "OriginPattern list"

definition target_scope_parse :: "string list \<Rightarrow> (TargetScope, OriginError) result" where
  "target_scope_parse patterns = collect_results pattern_parse patterns"

definition target_scope_matches :: "TargetScope \<Rightarrow> Origin \<Rightarrow> bool" where
  "target_scope_matches scope orig \<longleftrightarrow> list_ex (\<lambda>p. pattern_matches p orig) scope"

definition target_scope_covers :: "TargetScope \<Rightarrow> TargetScope \<Rightarrow> bool" where
  "target_scope_covers scope inner \<longleftrightarrow>
     list_all (\<lambda>p. list_ex (\<lambda>out. pattern_covers out p) scope) inner"

section \<open>Lemmas\<close>

subsection \<open>String primitives\<close>

lemma split_once_Some:
  "split_once sep s = Some (a, b) \<Longrightarrow> s = a @ sep @ b"
proof (induction sep s arbitrary: a b rule: split_once.induct)
  case (1 sep)
  then show ?case by (auto split: if_splits)
next
  case (2 sep c cs)
  show ?case
  proof (cases "take (length sep) (c # cs) = sep")
    case True
    with "2.prems" show ?thesis
      by (auto simp del: take_Suc_Cons) (metis append_take_drop_id)
  next
    case False
    with 2 show ?thesis by (auto simp: case_prod_beta)
  qed
qed

lemma split_once_char:
  "split_once [x] s = (if x \<in> set s
     then Some (takeWhile (\<lambda>c. c \<noteq> x) s, tl (dropWhile (\<lambda>c. c \<noteq> x) s)) else None)"
  by (induction s) auto

lemma split_once_char_append:
  "x \<notin> set a \<Longrightarrow> split_once [x] (a @ x # b) = Some (a, b)"
  by (induction a) auto

lemma strip_suffix_Some_iff: "strip_suffix suf s = Some f \<longleftrightarrow> s = f @ suf"
  by (auto simp: strip_suffix_def split: if_splits) (metis append_take_drop_id)

lemma strip_prefix_Some_iff: "strip_prefix pre s = Some r \<longleftrightarrow> s = pre @ r"
  by (auto simp: strip_prefix_def split: if_splits) (metis append_take_drop_id)

lemma split_on_not_Nil [simp]: "split_on sep s \<noteq> []"
  by (cases s) (auto split: list.splits)

lemma split_on_no_sep: "sep \<notin> set s \<Longrightarrow> split_on sep s = [s]"
  by (induction s) auto

lemma split_on_append:
  "sep \<notin> set a \<Longrightarrow> split_on sep (a @ sep # b) = a # split_on sep b"
  by (induction a) auto

lemma split_on_elems: "l \<in> set (split_on sep s) \<Longrightarrow> set l \<subseteq> set s - {sep}"
proof (induction s arbitrary: l)
  case Nil
  then show ?case by simp
next
  case (Cons c cs)
  then show ?case
    by (cases "split_on sep cs") (fastforce split: if_splits)+
qed

lemma split_on_join: "set s \<subseteq> insert sep (\<Union> (set ` set (split_on sep s)))"
proof (induction s)
  case Nil
  then show ?case by simp
next
  case (Cons c cs)
  then show ?case by (cases "split_on sep cs") auto
qed

lemma split_on_map:
  "(\<And>c. c \<in> set s \<Longrightarrow> f c = sep \<longleftrightarrow> c = sep) \<Longrightarrow> split_on sep (map f s) = map (map f) (split_on sep s)"
proof (induction s)
  case Nil
  then show ?case by simp
next
  case (Cons c cs)
  then show ?case by (cases "split_on sep cs") auto
qed

subsection \<open>Subdomains\<close>

lemma is_proper_subdomain_iff:
  "is_proper_subdomain name domain \<longleftrightarrow> (\<exists>front. front \<noteq> [] \<and> name = front @ ''.'' @ domain)"
proof (cases "strip_suffix domain name")
  case None
  then have "name \<noteq> (front @ ''.'') @ domain" for front
    using strip_suffix_Some_iff [of domain name "front @ ''.''"] by simp
  with None show ?thesis by (simp add: is_proper_subdomain_def)
next
  case (Some f)
  then have n: "name = f @ domain" by (simp add: strip_suffix_Some_iff)
  have "(\<exists>front. front \<noteq> [] \<and> name = front @ ''.'' @ domain) \<longleftrightarrow>
      (\<exists>front. front \<noteq> [] \<and> strip_suffix ''.'' f = Some front)"
    unfolding n strip_suffix_Some_iff by simp
  with Some show ?thesis
    by (simp add: is_proper_subdomain_def split: option.splits)
qed

lemma is_proper_subdomain_trans:
  "is_proper_subdomain a b \<Longrightarrow> is_proper_subdomain b c \<Longrightarrow> is_proper_subdomain a c"
  by (auto simp: is_proper_subdomain_iff)

subsection \<open>Covering\<close>

lemma Scheme_ALL_complete [simp]: "set Scheme_ALL = UNIV"
  by (auto simp: Scheme_ALL_def intro: Scheme.exhaust)

lemma host_covers_sound:
  "host_covers outer inner \<Longrightarrow> host_matches inner h \<Longrightarrow> host_matches outer h"
  by (auto simp: host_covers_def host_matches_def split: HostPattern.splits Host.splits
      intro: is_proper_subdomain_trans)

lemma pattern_covers_schemes:
  "pattern_covers self inner \<longleftrightarrow>
   (\<forall>s. admits_scheme inner s \<longrightarrow> admits_scheme self s \<and> port_for self s = port_for inner s) \<and>
   host_covers (p_host self) (p_host inner)"
  by (auto simp: pattern_covers_def list_all_iff)

lemma pattern_covers_sound:
  "pattern_covers outer inner \<Longrightarrow> pattern_matches inner orig \<Longrightarrow> pattern_matches outer orig"
  by (auto simp: pattern_covers_schemes pattern_matches_def intro: host_covers_sound)

lemma target_scope_covers_sound:
  "target_scope_covers scope inner \<Longrightarrow> target_scope_matches inner orig \<Longrightarrow>
   target_scope_matches scope orig"
  unfolding target_scope_covers_def target_scope_matches_def list_all_iff list_ex_iff
  using pattern_covers_sound by blast

subsection \<open>Letter case\<close>

lemma char_eq_of_char: "c = d \<longleftrightarrow> (of_char c :: nat) = of_char d"
  by simp

lemma lowercase_classes [simp]:
  "is_ascii_digit (to_ascii_lowercase c) = is_ascii_digit c"
  "is_ascii_hexdigit (to_ascii_lowercase c) = is_ascii_hexdigit c"
  "is_ascii_alphanumeric (to_ascii_lowercase c) = is_ascii_alphanumeric c"
  by (auto simp: ascii_defs of_char_to_ascii_lowercase)

lemma lowercase_nonletter:
  assumes "\<not> is_ascii_lowercase d" and "\<not> is_ascii_uppercase d"
  shows "to_ascii_lowercase c = d \<longleftrightarrow> c = d"
  using assms unfolding char_eq_of_char [of _ d]
  by (auto simp: ascii_defs of_char_to_ascii_lowercase)

lemma lowercase_fixed [simp]:
  "to_ascii_lowercase c = CHR ''-'' \<longleftrightarrow> c = CHR ''-''"
  "to_ascii_lowercase c = CHR ''.'' \<longleftrightarrow> c = CHR ''.''"
  "to_ascii_lowercase c = CHR ''0'' \<longleftrightarrow> c = CHR ''0''"
  by (rule lowercase_nonletter; simp add: ascii_defs)+

lemma lowercase_x: "to_ascii_lowercase c = CHR ''x'' \<longleftrightarrow> c = CHR ''x'' \<or> c = CHR ''X''"
  unfolding char_eq_of_char [of "to_ascii_lowercase c"] char_eq_of_char [of c]
  by (auto simp: ascii_defs of_char_to_ascii_lowercase)

lemma lowercase_not_X: "to_ascii_lowercase c \<noteq> CHR ''X''"
  unfolding char_eq_of_char [of "to_ascii_lowercase c"]
  by (auto simp: ascii_defs of_char_to_ascii_lowercase)

lemma ends_in_number_iff:
  "ends_in_number l \<longleftrightarrow> (l \<noteq> [] \<and> list_all is_ascii_digit l) \<or>
     (\<exists>x d. (x = CHR ''x'' \<or> x = CHR ''X'') \<and> l = CHR ''0'' # x # d \<and> list_all is_ascii_hexdigit d)"
proof -
  have x: "strip_prefix ''0x'' l = Some d \<longleftrightarrow> l = CHR ''0'' # CHR ''x'' # d"
    and X: "strip_prefix ''0X'' l = Some d \<longleftrightarrow> l = CHR ''0'' # CHR ''X'' # d" for d
    by (simp_all add: strip_prefix_Some_iff)
  show ?thesis
  proof (cases "strip_prefix ''0x'' l")
    case None
    then have no_x: "l \<noteq> CHR ''0'' # CHR ''x'' # d" for d using x [of d] by auto
    show ?thesis
    proof (cases "strip_prefix ''0X'' l")
      case None': None
      then have "l \<noteq> CHR ''0'' # CHR ''X'' # d" for d using X [of d] by auto
      with no_x None None' show ?thesis by (auto simp: ends_in_number_def)
    next
      case (Some d)
      with None X [of d] show ?thesis by (simp add: ends_in_number_def)
    qed
  next
    case (Some d)
    with x [of d] show ?thesis by (simp add: ends_in_number_def)
  qed
qed

lemma ends_in_number_lower [simp]:
  "ends_in_number (map to_ascii_lowercase l) = ends_in_number l"
proof -
  have "(\<exists>x d. (x = CHR ''x'' \<or> x = CHR ''X'') \<and> map to_ascii_lowercase l = CHR ''0'' # x # d \<and>
        list_all is_ascii_hexdigit d) \<longleftrightarrow>
      (\<exists>x d. (x = CHR ''x'' \<or> x = CHR ''X'') \<and> l = CHR ''0'' # x # d \<and> list_all is_ascii_hexdigit d)"
  proof (cases l)
    case (Cons a as)
    then show ?thesis
      by (cases as) (auto simp: lowercase_x lowercase_not_X list_all_iff)
  qed simp
  then show ?thesis
    unfolding ends_in_number_iff by (simp add: list_all_iff)
qed

lemma is_ldh_label_lower [simp]: "is_ldh_label (map to_ascii_lowercase l) = is_ldh_label l"
  by (cases l rule: rev_cases) (auto simp: is_ldh_label_def list_all_iff hd_map last_map hd_append)

lemma split_dots_lower:
  "split_on CHR ''.'' (map to_ascii_lowercase s) = map (map to_ascii_lowercase) (split_on CHR ''.'' s)"
  by (rule split_on_map) simp

subsection \<open>Well-formed hosts and origins\<close>

definition wf_domain :: "string \<Rightarrow> bool" where
  "wf_domain d \<longleftrightarrow> d \<noteq> [] \<and> length d \<le> MAX_HOST_LEN \<and> list_all is_ldh_label (split_on CHR ''.'' d) \<and>
     \<not> ends_in_number (last (split_on CHR ''.'' d)) \<and> map to_ascii_lowercase d = d"

fun wf_host :: "Host \<Rightarrow> bool" where
  "wf_host (Domain d) = wf_domain d"
| "wf_host (Ipv4 _ _ _ _) = True"

fun wf_host_pattern :: "HostPattern \<Rightarrow> bool" where
  "wf_host_pattern AnyHost = True"
| "wf_host_pattern (Exact h) = wf_host h"
| "wf_host_pattern (Subdomains d) = wf_domain d"

definition wf_origin :: "Origin \<Rightarrow> bool" where
  "wf_origin orig \<longleftrightarrow> wf_host (o_host orig) \<and> o_port orig \<noteq> 0"

definition wf_pattern :: "OriginPattern \<Rightarrow> bool" where
  "wf_pattern p \<longleftrightarrow> wf_host_pattern (p_host p) \<and> p_port p \<noteq> Some 0"

lemma parse_ipv4_shape: "parse_ipv4 labels = Ok h \<Longrightarrow> \<exists>a b c d. h = Ipv4 a b c d"
  by (auto simp: parse_ipv4_def rbind_Ok_iff split: list.splits)

lemma parse_host_wf: "parse_host s = Ok h \<Longrightarrow> wf_host h"
  by (auto simp: parse_host_def Let_def ensure_Ok_iff wf_domain_def split_dots_lower list_all_iff
      last_map comp_def dest!: parse_ipv4_shape split: if_splits)

lemma split_port_nonzero: "split_port a = Ok (h, p) \<Longrightarrow> p \<noteq> Some 0"
  by (auto simp: split_port_def result_iffs split: option.splits)

lemma default_port_nonzero [simp]: "default_port s \<noteq> 0"
  by (cases s) simp_all

lemma origin_parse_wf: "origin_parse t = Ok orig \<Longrightarrow> wf_origin orig"
  by (auto simp: origin_parse_def result_iffs wf_origin_def Let_def
      dest!: parse_host_wf split_port_nonzero split: option.splits)

lemma wildcard_host_Ok_iff:
  "(case h of Domain d \<Rightarrow> Ok (Subdomains d) | Ipv4 _ _ _ _ \<Rightarrow> Err e) = Ok y \<longleftrightarrow>
   (\<exists>d. h = Domain d \<and> y = Subdomains d)"
  by (cases h) auto

lemma pattern_parse_wf: "pattern_parse t = Ok p \<Longrightarrow> wf_pattern p"
  by (auto simp: pattern_parse_def result_iffs wf_pattern_def wildcard_host_Ok_iff
      dest!: parse_host_wf split_port_nonzero split: if_splits option.splits)

subsection \<open>Covering is exact\<close>

lemma wf_domain_hd: "wf_domain d \<Longrightarrow> d \<noteq> CHR ''.'' # r"
  by (auto simp: wf_domain_def is_ldh_label_def)

lemma subdomains_covered:
  assumes wf: "wf_domain d"
    and sub: "is_proper_subdomain (CHR ''a'' # CHR ''.'' # d) out"
  shows "d = out \<or> is_proper_subdomain d out"
proof -
  from sub obtain front where front: "front \<noteq> []" "CHR ''a'' # CHR ''.'' # d = front @ ''.'' @ out"
    by (auto simp: is_proper_subdomain_iff)
  then obtain f where f: "front = CHR ''a'' # f" "CHR ''.'' # d = f @ ''.'' @ out"
    by (cases front) auto
  show ?thesis
  proof (cases f)
    case Nil
    with f show ?thesis by simp
  next
    case (Cons c g)
    with f have d: "d = g @ ''.'' @ out" by simp
    moreover have "g \<noteq> []" using d wf_domain_hd [OF wf, of out] by auto
    ultimately show ?thesis by (auto simp: is_proper_subdomain_iff)
  qed
qed

lemma proper_subdomain_prefix [simp]: "is_proper_subdomain (c # CHR ''.'' # d) d"
  unfolding is_proper_subdomain_iff by (rule exI [of _ "[c]"]) simp

lemma host_covers_complete:
  assumes wf: "wf_host_pattern inner"
    and all: "\<And>h. host_matches inner h \<Longrightarrow> host_matches outer h"
  shows "host_covers outer inner"
proof (cases inner)
  case AnyHost
  then have m: "host_matches outer h" for h using all by (simp add: host_matches_def)
  show ?thesis
    using m [of "Ipv4 0 0 0 0"] m [of "Ipv4 0 0 0 1"]
    by (cases outer) (auto simp: host_matches_def host_covers_def AnyHost)
next
  case (Exact h)
  then have "host_matches outer h" using all by (simp add: host_matches_def)
  then show ?thesis
    by (cases outer; cases h) (auto simp: host_matches_def host_covers_def Exact)
next
  case (Subdomains d)
  then have m: "host_matches outer (Domain (c # CHR ''.'' # d))" for c
    using all by (simp add: host_matches_def)
  show ?thesis
  proof (cases outer)
    case (Exact h)
    then show ?thesis using m [of "CHR ''a''"] m [of "CHR ''b''"] by (simp add: host_matches_def)
  next
    case out: (Subdomains x)
    have "is_proper_subdomain (CHR ''a'' # CHR ''.'' # d) x"
      using m [of "CHR ''a''"] by (simp add: host_matches_def out)
    moreover have "wf_domain d" using wf Subdomains by simp
    ultimately show ?thesis
      using subdomains_covered [of d x] by (simp add: host_covers_def Subdomains out)
  qed (simp add: host_covers_def)
qed

lemma host_pattern_inhabited: "\<exists>h. host_matches hp h"
proof (cases hp)
  case (Subdomains d)
  have "host_matches hp (Domain (CHR ''a'' # CHR ''.'' # d))"
    by (simp add: Subdomains host_matches_def)
  then show ?thesis by blast
qed (auto simp: host_matches_def)

lemma pattern_covers_complete:
  assumes wf: "wf_pattern inner"
    and all: "\<And>orig. pattern_matches inner orig \<Longrightarrow> pattern_matches outer orig"
  shows "pattern_covers outer inner"
proof -
  obtain s where s: "admits_scheme inner s"
    by (cases "p_scheme inner") (auto simp: admits_scheme_def)
  have m: "pattern_matches outer \<lparr>o_scheme = t, o_host = h, o_port = port_for inner t\<rparr>"
    if "admits_scheme inner t" and "host_matches (p_host inner) h" for t h
    using all [of "\<lparr>o_scheme = t, o_host = h, o_port = port_for inner t\<rparr>"] that
    by (simp add: pattern_matches_def)
  obtain h where "host_matches (p_host inner) h" using host_pattern_inhabited by blast
  then have "admits_scheme outer t \<and> port_for outer t = port_for inner t"
    if "admits_scheme inner t" for t
    using m [OF that] by (simp add: pattern_matches_def)
  moreover have "host_covers (p_host outer) (p_host inner)"
  proof (rule host_covers_complete)
    show "wf_host_pattern (p_host inner)" using wf by (simp add: wf_pattern_def)
    show "host_matches (p_host outer) h" if "host_matches (p_host inner) h" for h
      using m [OF s that] by (simp add: pattern_matches_def)
  qed
  ultimately show ?thesis by (auto simp: pattern_covers_schemes)
qed

subsection \<open>Decimal numbers\<close>

declare decimal.simps [simp del]

lemma decimal_digits: "list_all is_ascii_digit (decimal n)"
proof (induction n rule: decimal.induct)
  case (1 n)
  show ?case
  proof (cases "n < 10")
    case True
    then show ?thesis by (subst decimal.simps) (simp add: ascii_defs)
  next
    case False
    have m: "n mod 10 < 10" by simp
    then have "is_ascii_digit (char_of (48 + n mod 10))" by (simp add: ascii_defs)
    with False 1 show ?thesis by (subst decimal.simps) simp
  qed
qed

lemma decimal_not_Nil [simp]: "decimal n \<noteq> []"
  by (subst decimal.simps) simp

lemma decimal_value_snoc:
  "decimal_value (s @ [c]) = decimal_value s * 10 + (of_char c - 48)"
  by (simp add: decimal_value_def)

lemma decimal_value_decimal: "decimal_value (decimal n) = n"
proof (induction n rule: decimal.induct)
  case (1 n)
  show ?case
  proof (cases "n < 10")
    case True
    then show ?thesis by (subst decimal.simps) (simp add: decimal_value_def)
  next
    case False
    have "of_char (char_of (48 + n mod 10 :: nat)) - 48 = n mod 10"
      using mod_less_divisor [of 10 n] by simp
    with False 1 show ?thesis
      by (subst decimal.simps) (simp add: decimal_value_snoc)
  qed
qed

lemma hd_decimal: "0 < n \<Longrightarrow> hd (decimal n) \<noteq> CHR ''0''"
proof (induction n rule: decimal.induct)
  case (1 n)
  show ?case
  proof (cases "n < 10")
    case True
    then have "char_of (48 + n) \<noteq> CHR ''0''"
      using "1.prems" unfolding char_eq_of_char [of "char_of _"] by simp
    with True show ?thesis by (subst decimal.simps) simp
  next
    case False
    with 1 show ?thesis by (subst decimal.simps) simp
  qed
qed

lemma length_decimal: "n < 10 ^ k \<Longrightarrow> 0 < k \<Longrightarrow> length (decimal n) \<le> k"
proof (induction n arbitrary: k rule: decimal.induct)
  case (1 n)
  show ?case
  proof (cases "n < 10")
    case True
    with "1.prems" show ?thesis by (subst decimal.simps) simp
  next
    case False
    then have "k \<noteq> 1" using "1.prems" by auto
    then obtain j where j: "k = Suc j" "0 < j" using "1.prems"(2) by (cases k) auto
    have "n div 10 < 10 ^ j" using "1.prems"(1) j by (simp add: less_mult_imp_div_less mult.commute)
    with 1 False j have "length (decimal (n div 10)) \<le> j" by simp
    with False j show ?thesis by (subst decimal.simps) simp
  qed
qed

lemma octet_decimal: "octet (decimal (unat a)) = Ok a"
proof -
  have a: "unat a < 256" using unsigned_less [of a] by simp
  have "length (decimal (unat a)) \<le> 3" by (rule length_decimal) (use a in simp_all)
  moreover have "decimal (unat a) = ''0'' \<or> hd (decimal (unat a)) \<noteq> CHR ''0''"
  proof (cases "unat a")
    case 0
    then show ?thesis by (simp add: decimal.simps)
  next
    case (Suc m)
    then show ?thesis using hd_decimal [of "unat a"] by simp
  qed
  ultimately show ?thesis
    using a decimal_digits [of "unat a"]
    by (simp add: octet_def decimal_value_decimal ensure_def)
qed

lemma fold_port_value:
  "list_all is_ascii_digit ds \<Longrightarrow>
   fold_port acc ds =
     (let v = foldl (\<lambda>acc c. acc * 10 + (of_char c - 48)) (unat acc) ds
      in if v < 2 ^ 16 then Some (of_nat v) else None)"
proof (induction ds arbitrary: acc)
  case Nil
  have "unat acc < 2 ^ 16" using unsigned_less [of acc, where ?'a = nat] by simp
  then show ?case by (simp add: Let_def)
next
  case (Cons d ds)
  let ?step = "\<lambda>acc c. acc * 10 + (of_char c - 48 :: nat)"
  have mono: "n \<le> foldl ?step n xs" for n xs
  proof (induction xs arbitrary: n)
    case (Cons a xs)
    have "n \<le> ?step n a" by simp
    also have "\<dots> \<le> foldl ?step (?step n a) xs" by (rule Cons.IH)
    finally show ?case by simp
  qed simp
  have dig: "48 \<le> (of_char d :: nat)" "of_char d \<le> (57 :: nat)"
    using Cons.prems by (auto simp: ascii_defs)
  have du: "unat (digit_u16 d) = of_char d - 48"
  proof -
    have "unat ((of_char d :: u8)) = of_char d"
      unfolding of_nat_of_char [symmetric, of d, where 'a = u8] using dig by (simp add: unat_of_nat)
    then have "unat ((of_char d :: u8) - 48) = of_char d - 48"
      using dig by (simp add: unat_sub word_le_nat_alt)
    moreover have "unat (ucast w :: u16) = unat w" for w :: u8
      using unsigned_less [of w, where ?'a = nat] by (simp add: unsigned_ucast_eq take_bit_nat_eq_self)
    ultimately show ?thesis by (simp add: digit_u16_def)
  qed
  show ?case
  proof (cases "?step (unat acc) d < 2 ^ 16")
    case True
    then have m: "checked_mul acc 10 = Some (acc * 10)" by (simp add: checked_mul_def)
    have mu: "unat (acc * 10) = unat acc * 10"
      using True unat_mult_no_overflow [of acc 10] by simp
    have a: "checked_add (acc * 10) (digit_u16 d) = Some (acc * 10 + digit_u16 d)"
      using True by (simp add: checked_add_def mu du)
    have au: "unat (acc * 10 + digit_u16 d) = ?step (unat acc) d"
      using True unat_add_no_overflow [of "acc * 10" "digit_u16 d"] by (simp add: mu du)
    show ?thesis using Cons m a au by simp
  next
    case False
    have "\<not> foldl ?step (?step (unat acc) d) ds < 2 ^ 16"
      using False mono [of "?step (unat acc) d" ds] by linarith
    moreover have "fold_port acc (d # ds) = None"
      using False by (auto simp: checked_mul_def checked_add_def du unat_mult_no_overflow
          split: option.splits if_splits)
    ultimately show ?thesis by simp
  qed
qed

lemma fold_port_decimal: "fold_port 0 (decimal (unat p)) = Some p"
proof -
  have "unat p < 2 ^ 16" using unsigned_less [of p, where ?'a = nat] by simp
  then show ?thesis
    using fold_port_value [OF decimal_digits, of 0 "unat p"] decimal_value_decimal [of "unat p"]
    by (simp add: decimal_value_def Let_def)
qed


subsection \<open>Displaying and reparsing\<close>

definition host_char :: "char \<Rightarrow> bool" where
  "host_char c \<longleftrightarrow> is_ascii_alphanumeric c \<or> c = CHR ''-'' \<or> c = CHR ''.''"

lemma digit_host_char: "is_ascii_digit c \<Longrightarrow> host_char c"
  by (simp add: host_char_def ascii_defs)

lemma host_char_graphic: "host_char c \<Longrightarrow> is_ascii_graphic c"
  by (auto simp: host_char_def ascii_defs)

lemma host_char_no_delimiter:
  "host_char c \<Longrightarrow> c \<noteq> CHR '':'' \<and> c \<noteq> CHR ''/'' \<and> c \<noteq> CHR ''?'' \<and> c \<noteq> CHR ''#'' \<and> c \<noteq> CHR 0x5C"
  by (auto simp: host_char_def ascii_defs)

lemma decimal_chars: "c \<in> set (decimal n) \<Longrightarrow> is_ascii_digit c"
  using decimal_digits by (auto simp: list_all_iff)

lemma digit_not_dot: "is_ascii_digit c \<Longrightarrow> c \<noteq> CHR ''.''"
  by (auto simp: ascii_defs)

lemma wf_domain_chars: "wf_domain d \<Longrightarrow> c \<in> set d \<Longrightarrow> host_char c"
  using split_on_join [of d "CHR ''.''"]
  by (fastforce simp: wf_domain_def host_char_def is_ldh_label_def list_all_iff)

lemma host_display_chars: "wf_host h \<Longrightarrow> c \<in> set (host_display h) \<Longrightarrow> host_char c"
  by (cases h) (auto intro: wf_domain_chars digit_host_char decimal_chars simp: host_char_def [of "CHR ''.''"])

lemma split_ipv4:
  "split_on CHR ''.'' (decimal a @ ''.'' @ decimal b @ ''.'' @ decimal c @ ''.'' @ decimal d) =
   [decimal a, decimal b, decimal c, decimal d]"
proof -
  have "CHR ''.'' \<notin> set (decimal n)" for n
    using decimal_chars [of "CHR ''.''" n] digit_not_dot by blast
  then show ?thesis by (simp add: split_on_append split_on_no_sep)
qed

lemma parse_host_display:
  assumes "wf_host h"
  shows "parse_host (host_display h) = Ok h"
proof (cases h)
  case (Domain d)
  with assms show ?thesis by (simp add: parse_host_def wf_domain_def ensure_def Let_def)
next
  case (Ipv4 a b c d)
  have len: "length (decimal (unat x)) \<le> 3" for x :: u8
    using unsigned_less [of x, where ?'a = nat] by (intro length_decimal) simp_all
  have "length (host_display h) \<le> 3 + 3 + 3 + 3 + 3"
    unfolding Ipv4 using len [of a] len [of b] len [of c] len [of d] by simp
  moreover have "ends_in_number (decimal (unat d))"
    using decimal_digits by (simp add: ends_in_number_def)
  ultimately show ?thesis
    unfolding parse_host_def Ipv4 host_display.simps split_ipv4
    by (simp add: ensure_def MAX_HOST_LEN_def parse_ipv4_def octet_decimal)
qed

lemma split_port_display:
  assumes "\<And>c. c \<in> set host \<Longrightarrow> host_char c" and "p \<noteq> 0"
  shows "split_port (host @ CHR '':'' # decimal (unat p)) = Ok (host, Some p)"
proof -
  have "CHR '':'' \<notin> set host" using assms(1) host_char_no_delimiter by blast
  then show ?thesis
    using assms(2) decimal_digits
    by (simp add: split_port_def split_once_char_append fold_port_decimal ensure_def ok_or_def)
qed

lemma origin_parse_display_wf:
  assumes "wf_origin orig"
  shows "origin_parse (origin_display orig) = Ok orig"
proof -
  let ?h = "host_display (o_host orig)" and ?p = "decimal (unat (o_port orig))"
  let ?auth = "?h @ CHR '':'' # ?p"
  have wf: "wf_host (o_host orig)" "o_port orig \<noteq> 0" using assms by (simp_all add: wf_origin_def)
  have ch: "host_char c" if "c \<in> set ?h \<or> c \<in> set ?p" for c
    using that host_display_chars [OF wf(1)] decimal_chars digit_host_char by blast
  have graphic: "list_all is_ascii_graphic ?auth"
    using ch host_char_graphic by (auto simp: list_all_iff ascii_defs)
  have cut: "takeWhile (\<lambda>c. c \<notin> set ''/?#'' \<and> c \<noteq> CHR 0x5C) ?auth = ?auth"
    using ch host_char_no_delimiter by (auto simp: takeWhile_eq_all_conv)
  have port: "split_port ?auth = Ok (?h, Some (o_port orig))"
    using split_port_display ch wf(2) by blast
  obtain t where t: "origin_display orig = t @ ''://'' @ ?auth"
      "split_once ''://'' (t @ ''://'' @ ?auth) = Some (t, ?auth)"
      "scheme_parse t = Ok (o_scheme orig)" "list_all is_ascii_graphic t"
    by (cases "o_scheme orig")
      (auto simp: origin_display_def scheme_parse_def eq_ignore_ascii_case_def ascii_defs)
  have "list_all is_ascii_graphic (t @ ''://'' @ ?auth)"
    using graphic t(4) by (simp add: ascii_defs)
  then show ?thesis
    unfolding origin_parse_def t(1,2)
    by (simp add: t(3) cut port parse_host_display [OF wf(1)] Let_def del: takeWhile_append set_simps list.set)
qed


section \<open>Properties\<close>

text \<open>Rendering an origin is a right inverse of the strict parser: whatever target text an origin was
  parsed from (letter case, path, query or default port included), the parser reads its display
  form back as the same scheme, host and port.\<close>
theorem origin_display_roundtrip:
  assumes "origin_parse target = Ok orig"
  shows "origin_parse (origin_display orig) = Ok orig"
  using assms by (intro origin_parse_display_wf origin_parse_wf)

theorem origin_display_roundtrip_witness:
  "origin_parse (origin_display \<lparr>o_scheme = Https, o_host = Domain ''a.example'', o_port = 443\<rparr>) =
   Ok \<lparr>o_scheme = Https, o_host = Domain ''a.example'', o_port = 443\<rparr>"
  by (rule origin_display_roundtrip [of "''HTTPS://A.example/p?q''"]) code_simp

text \<open>C39. Covering is exact: for a pattern that the parser accepted, another pattern covers it precisely
  when every origin the inner one matches is matched by the outer one. Narrowing checks on
  delegation therefore neither widen a target scope nor refuse one that is contained.\<close>
theorem pattern_covers_exact:
  assumes "pattern_parse text = Ok inner"
  shows "pattern_covers outer inner \<longleftrightarrow>
    (\<forall>orig. pattern_matches inner orig \<longrightarrow> pattern_matches outer orig)"
  using assms pattern_parse_wf pattern_covers_sound pattern_covers_complete by blast

theorem pattern_covers_exact_witness:
  "pattern_covers \<lparr>p_scheme = None, p_host = Subdomains ''example'', p_port = None\<rparr>
      \<lparr>p_scheme = Some Https, p_host = Subdomains ''b.example'', p_port = None\<rparr> \<longleftrightarrow>
   (\<forall>orig. pattern_matches \<lparr>p_scheme = Some Https, p_host = Subdomains ''b.example'', p_port = None\<rparr> orig
      \<longrightarrow> pattern_matches \<lparr>p_scheme = None, p_host = Subdomains ''example'', p_port = None\<rparr> orig)"
  by (rule pattern_covers_exact [of "''https://*.B.example''"]) code_simp

text \<open>A target scope that covers another admits every origin the other admits, so a grant whose scope is
  covered by its parent's never reaches an origin outside the parent's scope.\<close>
theorem target_scope_covers_admits:
  assumes "target_scope_covers scope inner" and "target_scope_matches inner orig"
  shows "target_scope_matches scope orig"
  using assms by (rule target_scope_covers_sound)

theorem target_scope_covers_admits_witness:
  "target_scope_matches [\<lparr>p_scheme = None, p_host = AnyHost, p_port = None\<rparr>]
     \<lparr>o_scheme = Http, o_host = Domain ''x.example'', o_port = 80\<rparr>"
  by (rule target_scope_covers_admits
      [of _ "[\<lparr>p_scheme = Some Http, p_host = Subdomains ''example'', p_port = None\<rparr>]"]) code_simp+

end
