(* ===== verification/Budget.thy ===== *)
theory Budget
  imports Payload Origin
begin

text \<open>
  Budget reservation and settlement arithmetic (\<^verbatim>\<open>crates/epitrope/src/budget.rs\<close>), with the types
  the authorization crate shares: the ledger identifiers of \<^verbatim>\<open>view.rs\<close>, the lifecycle steps of
  \<^verbatim>\<open>lifecycle.rs\<close> and the crate's error type of \<^verbatim>\<open>error.rs\<close>, which mentions them.

  \<open>plan_reservation\<close> is the nested loop of the source with its two accumulators and its early
  return; \<open>first_overflow\<close> and \<open>shortfalls\<close> are the reference reading it is proved equal to.
\<close>

section \<open>Definitions\<close>

subsection \<open>Shared authorization types\<close>

datatype LedgerId = LedgerGrant GrantId | LedgerSession SessionId | LedgerTenant TenantId

datatype ViewError = ViewError string

record Settlement =
  debit :: Cost
  release_amount :: Cost

datatype Step =
    Deny | PersistIntent | Dispatch | CompleteTransfer | Publish | Settle
  | Release ReleaseReason | MarkUnknownEffect

datatype AuthzError =
    View ViewError
  | ChainBroken GrantId
  | ChainMalformed GrantId
  | TenantLineage TenantId
  | OriginFault OriginError
  | LedgerOverflow Dimension
  | LedgerUnderflow Dimension
  | SettleOverrun Dimension u64 u64 Settlement
  | SessionNotApplicable Capability
  | IllegalTransition InvocationState Step

subsection \<open>Reservations\<close>

record LedgerState =
  ls_id :: LedgerId
  ls_ceilings :: Ceilings
  ls_used :: Cost
  ls_own :: bool

record ReservationPlan =
  rp_cost :: Cost
  rp_ledgers :: "LedgerId list"

definition debits :: "ReservationPlan \<Rightarrow> (LedgerId \<times> Cost) list" where
  "debits plan = map (\<lambda>ledger. (ledger, rp_cost plan)) (rp_ledgers plan)"

datatype BudgetRefusal = Own LedgerId Dimension | Upstream

fun budget_failure :: "BudgetRefusal \<Rightarrow> Failure" where
  "budget_failure (BudgetRefusal.Own ledger dimension) = Failure.BudgetExceeded dimension"
| "budget_failure Upstream = failure_denied BudgetUnavailable"

datatype BudgetCheck = Fits ReservationPlan | Exceeded BudgetRefusal

definition ledger_covers :: "LedgerState \<Rightarrow> Cost \<Rightarrow> Dimension \<Rightarrow> (bool, AuthzError) result" where
  "ledger_covers ledger declared dimension =
     (let total = checked_add (cost_get (ls_used ledger) dimension) (cost_get declared dimension) in
      case (ceilings_get (ls_ceilings ledger) dimension, total) of
        (None, Some _) \<Rightarrow> Ok True
      | (None, None) \<Rightarrow> Err (LedgerOverflow dimension)
      | (Some ceiling, Some t) \<Rightarrow> Ok (t \<le> ceiling)
      | (Some _, None) \<Rightarrow> Ok False)"

fun scan_dimensions :: "LedgerState \<Rightarrow> Cost \<Rightarrow> Dimension list \<Rightarrow> BudgetRefusal option \<times> bool \<Rightarrow>
    (BudgetRefusal option \<times> bool, AuthzError) result" where
  "scan_dimensions ledger declared [] acc = Ok acc"
| "scan_dimensions ledger declared (d # ds) (own_refusal, upstream) =
     rbind (ledger_covers ledger declared d) (\<lambda>covers.
       if covers then scan_dimensions ledger declared ds (own_refusal, upstream)
       else if ls_own ledger
         then scan_dimensions ledger declared ds
           ((case own_refusal of
               Some r \<Rightarrow> Some r
             | None \<Rightarrow> Some (BudgetRefusal.Own (ls_id ledger) d)), upstream)
         else scan_dimensions ledger declared ds (own_refusal, True))"

fun scan_ledgers :: "LedgerState list \<Rightarrow> Cost \<Rightarrow> BudgetRefusal option \<times> bool \<Rightarrow>
    (BudgetRefusal option \<times> bool, AuthzError) result" where
  "scan_ledgers [] declared acc = Ok acc"
| "scan_ledgers (l # ls) declared acc =
     rbind (scan_dimensions l declared Dimension_ALL acc) (scan_ledgers ls declared)"

definition plan_reservation :: "LedgerState list \<Rightarrow> Cost \<Rightarrow> (BudgetCheck, AuthzError) result" where
  "plan_reservation ledgers declared =
     rbind (scan_ledgers ledgers declared (None, False)) (\<lambda>acc. Ok
       (case acc of
          (Some refusal, _) \<Rightarrow> Exceeded refusal
        | (None, True) \<Rightarrow> Exceeded Upstream
        | (None, False) \<Rightarrow> Fits \<lparr>rp_cost = declared, rp_ledgers = map ls_id ledgers\<rparr>))"

definition min_option :: "u64 list \<Rightarrow> u64 option" where
  "min_option xs = (case xs of [] \<Rightarrow> None | y # ys \<Rightarrow> Some (fold min ys y))"

definition own_left :: "LedgerState list \<Rightarrow> Dimension \<Rightarrow> u64 option" where
  "own_left ledgers dimension =
     min_option (List.map_filter (\<lambda>ledger.
         map_option (\<lambda>ceiling. saturating_sub ceiling (cost_get (ls_used ledger) dimension))
           (ceilings_get (ls_ceilings ledger) dimension))
       (filter ls_own ledgers))"

definition own_remaining :: "LedgerState list \<Rightarrow> Ceilings" where
  "own_remaining ledgers =
     \<lparr>ceiling_wall_time_ms = own_left ledgers WallTimeMs,
      ceiling_fetches = own_left ledgers Fetches,
      ceiling_bytes_transferred = own_left ledgers BytesTransferred,
      ceiling_output_bytes = own_left ledgers OutputBytes,
      ceiling_tokens = own_left ledgers Tokens,
      ceiling_ops_band = own_left ledgers OpsBand\<rparr>"

subsection \<open>Settlement and ledger updates\<close>

definition cost_from :: "(Dimension \<Rightarrow> u64) \<Rightarrow> Cost" where
  "cost_from amount =
     \<lparr>wall_time_ms = amount WallTimeMs, fetches = amount Fetches,
      bytes_transferred = amount BytesTransferred, output_bytes = amount OutputBytes,
      tokens = amount Tokens, ops_band = amount OpsBand\<rparr>"

definition try_cost_from :: "(Dimension \<Rightarrow> (u64, AuthzError) result) \<Rightarrow> (Cost, AuthzError) result" where
  "try_cost_from amount =
     rbind (amount WallTimeMs) (\<lambda>w. rbind (amount Fetches) (\<lambda>f.
     rbind (amount BytesTransferred) (\<lambda>b. rbind (amount OutputBytes) (\<lambda>out.
     rbind (amount Tokens) (\<lambda>t. rbind (amount OpsBand) (\<lambda>ops.
       Ok \<lparr>wall_time_ms = w, fetches = f, bytes_transferred = b, output_bytes = out,
           tokens = t, ops_band = ops\<rparr>))))))"

definition settlement_of :: "Cost \<Rightarrow> Cost \<Rightarrow> Settlement" where
  "settlement_of reserved actual =
     (let debit = cost_from (\<lambda>d. min (cost_get reserved d) (cost_get actual d)) in
      \<lparr>debit = debit,
       release_amount = cost_from (\<lambda>d. saturating_sub (cost_get reserved d) (cost_get debit d))\<rparr>)"

definition settle :: "Cost \<Rightarrow> Cost \<Rightarrow> (Settlement, AuthzError) result" where
  "settle reserved actual =
     (case find (\<lambda>d. cost_get actual d > cost_get reserved d) Dimension_ALL of
        Some dimension \<Rightarrow> Err (SettleOverrun dimension (cost_get reserved dimension)
          (cost_get actual dimension) (settlement_of reserved actual))
      | None \<Rightarrow> Ok (settlement_of reserved actual))"

definition unknown_effect_settlement :: "Cost \<Rightarrow> Settlement" where
  "unknown_effect_settlement reserved =
     \<lparr>debit = reserved,
      release_amount = \<lparr>wall_time_ms = 0, fetches = 0, bytes_transferred = 0, output_bytes = 0,
        tokens = 0, ops_band = 0\<rparr>\<rparr>"

definition reserve :: "Cost \<Rightarrow> Cost \<Rightarrow> (Cost, AuthzError) result" where
  "reserve used amount =
     try_cost_from (\<lambda>d. ok_or (checked_add (cost_get used d) (cost_get amount d)) (LedgerOverflow d))"

definition release :: "Cost \<Rightarrow> Cost \<Rightarrow> (Cost, AuthzError) result" where
  "release used amount =
     try_cost_from (\<lambda>d. ok_or (checked_sub (cost_get used d) (cost_get amount d)) (LedgerUnderflow d))"

section \<open>Lemmas\<close>

subsection \<open>Costs by dimension\<close>

lemma cost_get_cost_from [simp]: "cost_get (cost_from f) d = f d"
  by (cases d) (simp_all add: cost_from_def)

lemma ceilings_get_own_remaining: "ceilings_get (own_remaining ls) d = own_left ls d"
  by (cases d) (simp_all add: own_remaining_def)

lemma try_cost_from_Ok_iff:
  "try_cost_from f = Ok c \<longleftrightarrow> (\<forall>d. f d = Ok (cost_get c d))"
proof
  assume "try_cost_from f = Ok c"
  then show "\<forall>d. f d = Ok (cost_get c d)"
    by (intro allI, case_tac d) (auto simp: try_cost_from_def rbind_Ok_iff)
next
  assume "\<forall>d. f d = Ok (cost_get c d)"
  then show "try_cost_from f = Ok c"
    by (simp add: try_cost_from_def)
qed

lemma try_cost_from_Err: "try_cost_from f = Err e \<Longrightarrow> \<exists>d. f d = Err e"
  by (auto simp: try_cost_from_def rbind_Err_iff)

text \<open>The unsigned reading of a cost on a dimension, where the arithmetic facts live.\<close>

abbreviation amount_nat :: "Cost \<Rightarrow> Dimension \<Rightarrow> nat" where
  "amount_nat c d \<equiv> unat (cost_get c d)"

lemma cost_eq_nat_iff: "(a :: Cost) = b \<longleftrightarrow> (\<forall>d. amount_nat a d = amount_nat b d)"
  by (simp add: cost_eq_iff word_unat_eq_iff)

lemma reserve_Ok_iff:
  "reserve used amount = Ok used' \<longleftrightarrow>
   (\<forall>d. amount_nat used' d = amount_nat used d + amount_nat amount d)"
  by (simp add: reserve_def try_cost_from_Ok_iff ok_or_Ok_iff checked_add_Some_iff)

lemma release_Ok_iff:
  "release used amount = Ok used' \<longleftrightarrow>
   (\<forall>d. amount_nat amount d \<le> amount_nat used d \<and>
        amount_nat used' d = amount_nat used d - amount_nat amount d)"
  by (simp add: release_def try_cost_from_Ok_iff ok_or_Ok_iff checked_sub_Some_iff)

lemma reserve_Err: "reserve used amount = Err e \<Longrightarrow> \<exists>d. e = LedgerOverflow d"
  unfolding reserve_def by (drule try_cost_from_Err) (auto simp: ok_or_def split: option.splits)

lemma reserve_total:
  assumes "\<And>d. amount_nat used d + amount_nat amount d < 2 ^ 64"
  obtains used' where "reserve used amount = Ok used'"
proof -
  have "reserve used amount = Ok (cost_from (\<lambda>d. cost_get used d + cost_get amount d))"
    unfolding reserve_Ok_iff using assms by (simp add: unat_add_no_overflow)
  with that show ?thesis by blast
qed

lemma release_after_reserve:
  "reserve used amount = Ok used' \<Longrightarrow> release used' amount = Ok used"
  by (simp add: reserve_Ok_iff release_Ok_iff)

subsection \<open>Settlement\<close>

lemma settlement_debit [simp]:
  "cost_get (debit (settlement_of reserved actual)) d = min (cost_get reserved d) (cost_get actual d)"
  by (simp add: settlement_of_def Let_def)

lemma settlement_release [simp]:
  "amount_nat (release_amount (settlement_of reserved actual)) d =
   amount_nat reserved d - amount_nat actual d"
  by (simp add: settlement_of_def Let_def unat_saturating_sub min_def word_le_nat_alt)

lemma settlement_debit_nat:
  "amount_nat (debit (settlement_of reserved actual)) d = min (amount_nat reserved d) (amount_nat actual d)"
  by (simp add: min_def word_le_nat_alt)

lemma settlement_conserves:
  "amount_nat (debit (settlement_of reserved actual)) d +
   amount_nat (release_amount (settlement_of reserved actual)) d = amount_nat reserved d"
  unfolding settlement_debit_nat by simp

lemma settle_Ok_iff:
  "settle reserved actual = Ok s \<longleftrightarrow>
   (\<forall>d. cost_get actual d \<le> cost_get reserved d) \<and> s = settlement_of reserved actual"
  by (auto simp: settle_def find_None_iff find_Some_iff not_less split: option.splits dest: leD)

lemma settle_Err:
  assumes "settle reserved actual = Err e"
  obtains d where "e = SettleOverrun d (cost_get reserved d) (cost_get actual d)
      (settlement_of reserved actual)" and "cost_get reserved d < cost_get actual d"
  using assms by (auto simp: settle_def find_Some_iff split: option.splits)

lemma settle_carries:
  "settle reserved actual = Ok s \<or> settle reserved actual = Err (SettleOverrun d r a s) \<Longrightarrow>
   s = settlement_of reserved actual"
  by (auto simp: settle_def split: option.splits)

text \<open>Releasing what a settlement returns leaves exactly the earlier use plus the debit.\<close>

lemma release_settlement:
  assumes "reserve used reserved = Ok held"
  shows "release held (release_amount (settlement_of reserved actual)) = Ok after \<longleftrightarrow>
    reserve used (debit (settlement_of reserved actual)) = Ok after"
proof -
  let ?s = "settlement_of reserved actual"
  have held: "amount_nat held d = amount_nat used d + amount_nat reserved d" for d
    using assms by (simp add: reserve_Ok_iff)
  have "amount_nat (release_amount ?s) d \<le> amount_nat held d \<and>
      amount_nat held d - amount_nat (release_amount ?s) d = amount_nat used d + amount_nat (debit ?s) d" for d
    using settlement_conserves [of reserved actual d] held [of d] by linarith
  then show ?thesis unfolding release_Ok_iff reserve_Ok_iff by metis
qed

subsection \<open>Reservation planning against its reference\<close>

text \<open>The most a ledger may hold on a dimension: its ceiling, or the largest \<open>u64\<close>.\<close>

definition ledger_limit :: "LedgerState \<Rightarrow> Dimension \<Rightarrow> nat" where
  "ledger_limit l d = (case ceilings_get (ls_ceilings l) d of None \<Rightarrow> 2 ^ 64 - 1 | Some c \<Rightarrow> unat c)"

definition fits_ledger :: "LedgerState \<Rightarrow> Cost \<Rightarrow> Dimension \<Rightarrow> bool" where
  "fits_ledger l declared d \<longleftrightarrow> amount_nat (ls_used l) d + amount_nat declared d \<le> ledger_limit l d"

definition ledger_cells :: "LedgerState list \<Rightarrow> (LedgerState \<times> Dimension) list" where
  "ledger_cells ls = concat (map (\<lambda>l. map (Pair l) Dimension_ALL) ls)"

definition first_overflow :: "LedgerState list \<Rightarrow> Cost \<Rightarrow> Dimension option" where
  "first_overflow ls declared =
     map_option snd (find (\<lambda>(l, d). ceilings_get (ls_ceilings l) d = None \<and> \<not> fits_ledger l declared d)
       (ledger_cells ls))"

definition shortfalls :: "LedgerState list \<Rightarrow> Cost \<Rightarrow> (LedgerState \<times> Dimension) list" where
  "shortfalls ls declared = filter (\<lambda>(l, d). \<not> fits_ledger l declared d) (ledger_cells ls)"

definition reservation_spec :: "LedgerState list \<Rightarrow> Cost \<Rightarrow> (BudgetCheck, AuthzError) result" where
  "reservation_spec ls declared =
     (case first_overflow ls declared of
        Some d \<Rightarrow> Err (LedgerOverflow d)
      | None \<Rightarrow> Ok (case find (\<lambda>(l, d). ls_own l) (shortfalls ls declared) of
            Some (l, d) \<Rightarrow> Exceeded (BudgetRefusal.Own (ls_id l) d)
          | None \<Rightarrow> (if shortfalls ls declared = []
              then Fits \<lparr>rp_cost = declared, rp_ledgers = map ls_id ls\<rparr>
              else Exceeded Upstream)))"

lemma ledger_covers_eq:
  "ledger_covers l declared d =
     (if ceilings_get (ls_ceilings l) d = None \<and> \<not> fits_ledger l declared d
      then Err (LedgerOverflow d) else Ok (fits_ledger l declared d))"
proof -
  have limit: "unat w < 2 ^ 64" for w :: u64 using unsigned_less [of w, where ?'a = nat] by simp
  show ?thesis
  proof (cases "checked_add (cost_get (ls_used l) d) (cost_get declared d)")
    case None
    then have "2 ^ 64 \<le> amount_nat (ls_used l) d + amount_nat declared d"
      by (simp add: checked_add_None_iff)
    moreover have "ledger_limit l d < 2 ^ 64"
      using limit by (simp add: ledger_limit_def split: option.split)
    ultimately have "\<not> fits_ledger l declared d" by (simp add: fits_ledger_def)
    with None show ?thesis by (simp add: ledger_covers_def Let_def split: option.split)
  next
    case (Some total)
    then have "unat total = amount_nat (ls_used l) d + amount_nat declared d"
      by (simp add: checked_add_Some_iff)
    with Some limit [of total] show ?thesis
      by (auto simp: ledger_covers_def Let_def fits_ledger_def ledger_limit_def word_le_nat_alt
          split: option.split)
  qed
qed

fun scan_cells :: "(LedgerState \<times> Dimension) list \<Rightarrow> Cost \<Rightarrow> BudgetRefusal option \<times> bool \<Rightarrow>
    (BudgetRefusal option \<times> bool, AuthzError) result" where
  "scan_cells [] declared acc = Ok acc"
| "scan_cells ((l, d) # cells) declared (own_refusal, upstream) =
     (if ceilings_get (ls_ceilings l) d = None \<and> \<not> fits_ledger l declared d
      then Err (LedgerOverflow d)
      else if fits_ledger l declared d then scan_cells cells declared (own_refusal, upstream)
      else if ls_own l then scan_cells cells declared
         ((case own_refusal of Some r \<Rightarrow> Some r | None \<Rightarrow> Some (BudgetRefusal.Own (ls_id l) d)), upstream)
      else scan_cells cells declared (own_refusal, True))"

lemma scan_dimensions_cells:
  "scan_cells (map (Pair l) ds @ cells) declared acc =
   rbind (scan_dimensions l declared ds acc) (scan_cells cells declared)"
  by (induction ds arbitrary: acc) (auto simp: ledger_covers_eq)

lemma scan_ledgers_cells: "scan_ledgers ls declared acc = scan_cells (ledger_cells ls) declared acc"
proof (induction ls arbitrary: acc)
  case (Cons l ls)
  then have "scan_ledgers ls declared = scan_cells (ledger_cells ls) declared" by blast
  then show ?case by (simp add: ledger_cells_def scan_dimensions_cells)
qed (simp add: ledger_cells_def)

lemma scan_cells_eq:
  "scan_cells cells declared (own, up) =
   (case find (\<lambda>(l, d). ceilings_get (ls_ceilings l) d = None \<and> \<not> fits_ledger l declared d) cells of
      Some (l, d) \<Rightarrow> Err (LedgerOverflow d)
    | None \<Rightarrow> (let short = filter (\<lambda>(l, d). \<not> fits_ledger l declared d) cells in
        Ok (case own of Some r \<Rightarrow> Some r
              | None \<Rightarrow> map_option (\<lambda>(l, d). BudgetRefusal.Own (ls_id l) d) (find (\<lambda>(l, d). ls_own l) short),
            up \<or> (\<exists>(l, d) \<in> set short. \<not> ls_own l))))"
proof (induction cells arbitrary: own up)
  case Nil
  then show ?case by (cases own) simp_all
next
  case (Cons c cells)
  obtain l d where c: "c = (l, d)" by (cases c)
  show ?case
    unfolding c scan_cells.simps Cons.IH by (cases own) (auto simp: Let_def split: option.split)
qed

lemma plan_reservation_eq_spec: "plan_reservation ls declared = reservation_spec ls declared"
proof (cases "find (\<lambda>(l, d). ceilings_get (ls_ceilings l) d = None \<and> \<not> fits_ledger l declared d)
      (ledger_cells ls)")
  case (Some c)
  then show ?thesis
    by (cases c) (simp add: plan_reservation_def reservation_spec_def first_overflow_def
        scan_ledgers_cells scan_cells_eq)
next
  case None
  let ?short = "shortfalls ls declared"
  have some: "(\<exists>(l, d) \<in> set ?short. \<not> ls_own l) \<longleftrightarrow> ?short \<noteq> []"
    if "find (\<lambda>(l, d). ls_own l) ?short = None"
    using that by (cases ?short) (auto simp: find_None_iff)
  show ?thesis
    using None some
    by (auto simp: plan_reservation_def reservation_spec_def first_overflow_def
        scan_ledgers_cells scan_cells_eq shortfalls_def [symmetric] Let_def
        split: option.split bool.split)
qed

lemma set_ledger_cells: "set (ledger_cells ls) = set ls \<times> UNIV"
  by (auto simp: ledger_cells_def)

lemma plan_reservation_Fits_iff:
  "plan_reservation ls declared = Ok (Fits plan) \<longleftrightarrow>
   (\<forall>l \<in> set ls. \<forall>d. fits_ledger l declared d) \<and>
   plan = \<lparr>rp_cost = declared, rp_ledgers = map ls_id ls\<rparr>"
proof -
  have empty: "shortfalls ls declared = [] \<longleftrightarrow> (\<forall>l \<in> set ls. \<forall>d. fits_ledger l declared d)"
    by (auto simp: shortfalls_def filter_empty_conv set_ledger_cells)
  have none: "first_overflow ls declared = None" if "\<forall>l \<in> set ls. \<forall>d. fits_ledger l declared d"
    using that by (auto simp: first_overflow_def find_None_iff set_ledger_cells)
  show ?thesis
    unfolding plan_reservation_eq_spec reservation_spec_def
    using empty none by (auto split: option.splits if_splits)
qed

lemma fits_ledger_reserve:
  assumes "\<And>d. fits_ledger l declared d"
  obtains used' where "reserve (ls_used l) declared = Ok used'"
    and "\<And>d. amount_nat used' d \<le> ledger_limit l d"
proof -
  have lt: "ledger_limit l d < 2 ^ 64" for d
  proof -
    have "unat w < 2 ^ 64" for w :: u64 using unsigned_less [of w, where ?'a = nat] by simp
    then show ?thesis by (simp add: ledger_limit_def split: option.split)
  qed
  have "amount_nat (ls_used l) d + amount_nat declared d < 2 ^ 64" for d
    using assms [of d] lt [of d] by (simp add: fits_ledger_def)
  then obtain used' where "reserve (ls_used l) declared = Ok used'"
    by (rule reserve_total)
  with that assms show ?thesis by (auto simp: reserve_Ok_iff fits_ledger_def)
qed

subsection \<open>Remaining budgets\<close>

lemma fold_min_le: "fold min xs (y :: u64) \<le> y \<and> (\<forall>x \<in> set xs. fold min xs y \<le> x)"
proof (induction xs arbitrary: y)
  case (Cons x xs)
  from Cons [of "min x y"] show ?case by auto
qed simp

lemma fold_min_in: "fold min xs (y :: u64) \<in> insert y (set xs)"
proof (induction xs arbitrary: y)
  case (Cons x xs)
  from Cons [of "min x y"] show ?case by (auto simp: min_def split: if_splits)
qed simp

lemma min_option_Some_iff:
  "min_option xs = Some m \<longleftrightarrow> m \<in> set xs \<and> (\<forall>x \<in> set xs. m \<le> x)"
proof (cases xs)
  case (Cons y ys)
  have "fold min ys y \<in> set xs" "\<forall>x \<in> set xs. fold min ys y \<le> x"
    using fold_min_in [of ys y] fold_min_le [of ys y] by (auto simp: Cons)
  then show ?thesis by (auto simp: min_option_def Cons intro: order_antisym)
qed (simp add: min_option_def)

lemma min_option_None_iff: "min_option xs = None \<longleftrightarrow> xs = []"
  by (simp add: min_option_def split: list.split)

lemma own_left_le:
  assumes "own_left ls d = Some m" and "l \<in> set ls" and "ls_own l"
    and "ceilings_get (ls_ceilings l) d = Some c"
  shows "unat m \<le> unat c - amount_nat (ls_used l) d"
proof -
  let ?f = "\<lambda>l. map_option (\<lambda>c. saturating_sub c (cost_get (ls_used l) d)) (ceilings_get (ls_ceilings l) d)"
  have "?f l = Some (saturating_sub c (cost_get (ls_used l) d))" using assms(4) by simp
  then have "saturating_sub c (cost_get (ls_used l) d) \<in> set (List.map_filter ?f (filter ls_own ls))"
    using assms(2,3) by (force simp: List.map_filter_def)
  then have "m \<le> saturating_sub c (cost_get (ls_used l) d)"
    using assms(1) by (auto simp: own_left_def min_option_Some_iff)
  then show ?thesis by (simp add: word_le_nat_alt unat_saturating_sub)
qed

lemma own_left_None:
  assumes "own_left ls d = None" and "l \<in> set ls" and "ls_own l"
  shows "ceilings_get (ls_ceilings l) d = None"
proof (rule ccontr)
  assume "ceilings_get (ls_ceilings l) d \<noteq> None"
  moreover have "List.map_filter (\<lambda>l. map_option (\<lambda>c. saturating_sub c (cost_get (ls_used l) d))
      (ceilings_get (ls_ceilings l) d)) (filter ls_own ls) = []"
    using assms(1) by (simp add: own_left_def min_option_None_iff)
  ultimately show False using assms(2,3) by (auto simp: List.map_filter_def filter_empty_conv)
qed

section \<open>Properties\<close>

text \<open>C38. The reservation planner computes its reference reading exactly: the first uncapped ledger and
  dimension whose sum would pass \<open>u64::MAX\<close> is an overflow fault; otherwise the first shortfall on
  one of the caller's own ledgers (ledger order, then dimension order) is reported with its
  dimension; otherwise any shortfall is reported as upstream, naming no dimension; otherwise the
  declared cost is to be debited from every ledger, in order.\<close>
theorem plan_reservation_reference:
  "plan_reservation ledgers declared = reservation_spec ledgers declared"
  by (rule plan_reservation_eq_spec)

text \<open>A reservation that fits can be committed: reserving the planned cost on each planned ledger
  succeeds without overflow and leaves every dimension of that ledger within its ceiling.\<close>
theorem plan_reservation_commits:
  assumes "plan_reservation ledgers declared = Ok (Fits plan)" and "l \<in> set ledgers"
  shows "ls_id l \<in> set (rp_ledgers plan) \<and>
    (\<exists>used'. reserve (ls_used l) (rp_cost plan) = Ok used' \<and>
       (\<forall>d c. ceilings_get (ls_ceilings l) d = Some c \<longrightarrow> cost_get used' d \<le> c))"
proof -
  have fits: "\<And>d. fits_ledger l declared d"
    and plan: "plan = \<lparr>rp_cost = declared, rp_ledgers = map ls_id ledgers\<rparr>"
    using assms by (auto simp: plan_reservation_Fits_iff)
  obtain used' where "reserve (ls_used l) declared = Ok used'"
    and "\<And>d. amount_nat used' d \<le> ledger_limit l d"
    using fits by (rule fits_ledger_reserve) blast
  with plan assms(2) show ?thesis
    by (fastforce simp: word_le_nat_alt ledger_limit_def split: option.splits)
qed

theorem plan_reservation_commits_witness:
  "\<exists>used'. reserve (cost_default\<lparr>fetches := 3\<rparr>) (cost_default\<lparr>fetches := 2\<rparr>) = Ok used' \<and>
     (\<forall>d c. ceilings_get (ceilings_default\<lparr>ceiling_fetches := Some 5\<rparr>) d = Some c \<longrightarrow> cost_get used' d \<le> c)"
  using plan_reservation_commits [of
      "[\<lparr>ls_id = LedgerTenant (TenantId 1), ls_ceilings = ceilings_default\<lparr>ceiling_fetches := Some 5\<rparr>,
         ls_used = cost_default\<lparr>fetches := 3\<rparr>, ls_own = True\<rparr>]"
      "cost_default\<lparr>fetches := 2\<rparr>"
      "\<lparr>rp_cost = cost_default\<lparr>fetches := 2\<rparr>, rp_ledgers = [LedgerTenant (TenantId 1)]\<rparr>"
      "\<lparr>ls_id = LedgerTenant (TenantId 1), ls_ceilings = ceilings_default\<lparr>ceiling_fetches := Some 5\<rparr>,
         ls_used = cost_default\<lparr>fetches := 3\<rparr>, ls_own = True\<rparr>"]
  by (simp add: plan_reservation_def ledger_covers_def Dimension_ALL_def checked_add_def
      cost_default_def ceilings_default_def)

text \<open>Settlement conserves the reservation: on every dimension the debit is the smaller of reserved and
  actual, debit and release add up to the reservation, and the result is an overrun error exactly
  when some dimension consumed more than it reserved; the overrun carries that same clamped
  settlement.\<close>
theorem settle_conserves:
  "amount_nat (debit (settlement_of reserved actual)) d = min (amount_nat reserved d) (amount_nat actual d) \<and>
   amount_nat (debit (settlement_of reserved actual)) d +
     amount_nat (release_amount (settlement_of reserved actual)) d = amount_nat reserved d \<and>
   (if \<forall>d. cost_get actual d \<le> cost_get reserved d
    then settle reserved actual = Ok (settlement_of reserved actual)
    else \<exists>d. cost_get reserved d < cost_get actual d \<and>
      settle reserved actual = Err (SettleOverrun d (cost_get reserved d) (cost_get actual d)
        (settlement_of reserved actual)))"
proof -
  have "\<exists>d. cost_get reserved d < cost_get actual d \<and>
      settle reserved actual = Err (SettleOverrun d (cost_get reserved d) (cost_get actual d)
        (settlement_of reserved actual))"
    if over: "\<not> (\<forall>d. cost_get actual d \<le> cost_get reserved d)"
  proof -
    from over obtain e where e: "settle reserved actual = Err e"
      using settle_Ok_iff [of reserved actual] by (cases "settle reserved actual") auto
    from settle_Err [OF e] e show ?thesis by metis
  qed
  then show ?thesis
    using settlement_debit_nat settlement_conserves settle_Ok_iff [of reserved actual] by auto
qed

text \<open>The default limit offered to a caller never exceeds what its own ledgers have left: where the
  caller's own ledgers set a ceiling, the reported remainder is at most that ceiling minus the amount
  used on every one of them, and where none is reported no own ledger has a ceiling.\<close>
theorem own_remaining_sound:
  assumes "l \<in> set ledgers" and "ls_own l" and "ceilings_get (ls_ceilings l) d = Some c"
  shows "\<exists>m. ceilings_get (own_remaining ledgers) d = Some m \<and>
    unat m \<le> unat c - amount_nat (ls_used l) d"
proof (cases "own_left ledgers d")
  case None
  with own_left_None [OF None assms(1,2)] assms(3) show ?thesis by simp
next
  case (Some m)
  with own_left_le [OF Some assms] show ?thesis by (simp add: ceilings_get_own_remaining)
qed

theorem own_remaining_sound_witness:
  "\<exists>m. ceilings_get (own_remaining
      [\<lparr>ls_id = LedgerTenant (TenantId 1), ls_ceilings = ceilings_default\<lparr>ceiling_tokens := Some 5\<rparr>,
        ls_used = cost_default\<lparr>tokens := 3\<rparr>, ls_own = True\<rparr>]) Tokens = Some m \<and>
     unat m \<le> unat (5 :: u64) - amount_nat (cost_default\<lparr>tokens := 3\<rparr>) Tokens"
  using own_remaining_sound [of
      "\<lparr>ls_id = LedgerTenant (TenantId 1), ls_ceilings = ceilings_default\<lparr>ceiling_tokens := Some 5\<rparr>,
        ls_used = cost_default\<lparr>tokens := 3\<rparr>, ls_own = True\<rparr>"
      "[\<lparr>ls_id = LedgerTenant (TenantId 1), ls_ceilings = ceilings_default\<lparr>ceiling_tokens := Some 5\<rparr>,
        ls_used = cost_default\<lparr>tokens := 3\<rparr>, ls_own = True\<rparr>]" Tokens 5]
  by simp

end
