(* ===== verification/Grants.thy ===== *)
theory Grants
  imports Budget
begin

text \<open>
  Grants, revocation records, chain walking and delegation narrowing
  (\<^verbatim>\<open>crates/epitrope/src/view.rs\<close>, \<^verbatim>\<open>grant.rs\<close>, \<^verbatim>\<open>chain.rs\<close>, \<^verbatim>\<open>session.rs\<close>, \<^verbatim>\<open>audit.rs\<close>).

  The read-only views of the source are records of query functions, each of which may fail; every
  decision is a function of such a record.  The clock is read once per decision, so it is the
  argument \<open>now\<close>.
\<close>

section \<open>Definitions\<close>

subsection \<open>Grants and views\<close>

record Grant =
  g_id :: GrantId
  g_issuer :: TenantId
  g_holder :: TenantId
  g_capabilities :: "Capability set"
  g_session_scope :: SessionScope
  g_target_scope :: TargetScope
  g_audit_scope :: AuditScope
  g_ceilings :: Ceilings
  g_not_before :: Timestamp
  g_expires_at :: Timestamp
  g_parent :: "GrantId option"
  g_depth :: u8
  g_max_depth :: u8

record Revocation =
  rev_grant :: GrantId
  rev_at_seq :: AuditSeq
  rev_at_time :: Timestamp

record GrantView =
  view_grant :: "GrantId \<Rightarrow> (Grant option, ViewError) result"
  view_revocation :: "GrantId \<Rightarrow> (Revocation option, ViewError) result"
  view_session_owner :: "SessionId \<Rightarrow> (TenantId option, ViewError) result"
  view_tenant_parent :: "TenantId \<Rightarrow> (TenantId option, ViewError) result"

record Snapshot = GrantView +
  view_used :: "LedgerId \<Rightarrow> (Cost, ViewError) result"
  view_session_ceilings :: "SessionId \<Rightarrow> (Ceilings, ViewError) result"
  view_tenant_ceilings :: "TenantId \<Rightarrow> (Ceilings, ViewError) result"

subsection \<open>Audit scopes and session requirements\<close>

fun default_audit_scope :: "TenantClass \<Rightarrow> AuditScope" where
  "default_audit_scope Operator = AllScope"
| "default_audit_scope _ = OwnAndOwnedSessions"

definition audit_scope_within :: "AuditScope \<Rightarrow> AuditScope \<Rightarrow> bool" where
  "audit_scope_within inner outer \<longleftrightarrow>
     inner = outer \<or> (inner = OwnAndOwnedSessions \<and> outer = AllScope)"

definition applied_audit_scope :: "AuditScope \<Rightarrow> AuditScope \<Rightarrow> AuditScope" where
  "applied_audit_scope requested granted =
     (if audit_scope_within requested granted then requested else granted)"

record RuleView =
  rule_tenant :: TenantId
  rule_class :: TenantClass
  rule_capability :: Capability
  rule_session :: "SessionId option"
  rule_target :: "string option"
  rule_grant_chain :: "GrantId list"

datatype SessionRequirement = Required | Optional | Forbidden

fun session_requirement :: "Capability \<Rightarrow> SessionRequirement" where
  "session_requirement Capability.AuditQuery = Optional"
| "session_requirement Capability.SessionCreate = Forbidden"
| "session_requirement Capability.GrantIssue = Forbidden"
| "session_requirement Capability.GrantRevoke = Forbidden"
| "session_requirement _ = Required"

subsection \<open>Tenant lineage\<close>

definition MAX_TENANT_LINEAGE :: nat where "MAX_TENANT_LINEAGE = 255"

fun lineage_walk :: "'v GrantView_scheme \<Rightarrow> TenantId \<Rightarrow> TenantId \<Rightarrow> nat \<Rightarrow> TenantId \<Rightarrow>
    (bool, AuthzError) result" where
  "lineage_walk view tenant ancestor 0 current = Err (TenantLineage tenant)"
| "lineage_walk view tenant ancestor (Suc n) current =
     (if current = ancestor then Ok True
      else rbind (map_err View (view_tenant_parent view current)) (\<lambda>found.
        case found of
          Some parent \<Rightarrow> lineage_walk view tenant ancestor n parent
        | None \<Rightarrow> Ok False))"

definition in_lineage :: "'v GrantView_scheme \<Rightarrow> TenantId \<Rightarrow> TenantId \<Rightarrow> (bool, AuthzError) result" where
  "in_lineage view tenant ancestor =
     lineage_walk view tenant ancestor (MAX_TENANT_LINEAGE + 1) tenant"

subsection \<open>Chains\<close>

datatype ChainStatus = Valid "Grant list" | Invalid DenyCode GrantId

definition link_ok :: "Grant \<Rightarrow> GrantId \<Rightarrow> Grant \<Rightarrow> bool" where
  "link_ok current parent_id parent \<longleftrightarrow>
     g_id parent = parent_id \<and>
     checked_add (g_depth parent) 1 = Some (g_depth current) \<and>
     g_depth current < g_max_depth parent \<and>
     g_max_depth current \<le> g_max_depth parent \<and>
     g_issuer current = g_holder parent"

function load_chain :: "'v GrantView_scheme \<Rightarrow> Grant \<Rightarrow> (Grant list, AuthzError) result" where
  "load_chain view current =
     (case g_parent current of
        Some parent_id \<Rightarrow>
          rbind (map_err View (view_grant view parent_id)) (\<lambda>found.
          rbind (ok_or found (ChainBroken parent_id)) (\<lambda>parent.
          ensure (link_ok current parent_id parent) (ChainMalformed (g_id current))
            (rbind (load_chain view parent) (\<lambda>chain. Ok (current # chain)))))
      | None \<Rightarrow> ensure (g_depth current = 0) (ChainMalformed (g_id current)) (Ok [current]))"
  by pat_completeness auto
termination
  by (relation "measure (\<lambda>(view, current). unat (g_depth current))")
    (auto simp: link_ok_def checked_add_Some_iff)

definition link_code :: "bool \<Rightarrow> Grant \<Rightarrow> Timestamp \<Rightarrow> DenyCode option" where
  "link_code revoked link now =
     (if revoked then Some DenyCode.GrantRevoked
      else if now \<ge> g_expires_at link then Some GrantExpired
      else if now < g_not_before link then Some GrantNotYetValid
      else None)"

fun check_links :: "'v GrantView_scheme \<Rightarrow> Timestamp \<Rightarrow> Grant list \<Rightarrow>
    ((DenyCode \<times> GrantId) option, AuthzError) result" where
  "check_links view now [] = Ok None"
| "check_links view now (link # links) =
     rbind (map_err View (view_revocation view (g_id link))) (\<lambda>record.
       case link_code (record \<noteq> None) link now of
         Some code \<Rightarrow> Ok (Some (code, g_id link))
       | None \<Rightarrow> check_links view now links)"

definition check_chain :: "'v GrantView_scheme \<Rightarrow> Grant \<Rightarrow> Timestamp \<Rightarrow> (ChainStatus, AuthzError) result" where
  "check_chain view leaf now =
     rbind (load_chain view leaf) (\<lambda>chain.
     rbind (check_links view now chain) (\<lambda>failing. Ok
       (case failing of Some (code, link) \<Rightarrow> Invalid code link | None \<Rightarrow> Valid chain)))"

subsection \<open>Delegation narrowing\<close>

fun sessions_in_lineage :: "'v GrantView_scheme \<Rightarrow> TenantId \<Rightarrow> SessionId list \<Rightarrow> (bool, AuthzError) result" where
  "sessions_in_lineage view ancestor [] = Ok True"
| "sessions_in_lineage view ancestor (session # sessions) =
     rbind (map_err View (view_session_owner view session)) (\<lambda>owner.
     rbind (case owner of Some own \<Rightarrow> in_lineage view own ancestor | None \<Rightarrow> Ok False) (\<lambda>admitted.
       if admitted then sessions_in_lineage view ancestor sessions else Ok False))"

definition session_scope_within :: "'v GrantView_scheme \<Rightarrow> Grant \<Rightarrow> Grant \<Rightarrow> (bool, AuthzError) result" where
  "session_scope_within view parent child =
     (case (g_session_scope parent, g_session_scope child) of
        (SessionScope.Own, SessionScope.Own) \<Rightarrow> in_lineage view (g_holder child) (g_holder parent)
      | (SessionScope.Own, Sessions sessions) \<Rightarrow> sessions_in_lineage view (g_holder parent) sessions
      | (Sessions allowed, Sessions sessions) \<Rightarrow>
          Ok (list_all (\<lambda>session. session \<in> set allowed) sessions)
      | (Sessions _, SessionScope.Own) \<Rightarrow> Ok False)"

definition ceilings_within :: "Ceilings \<Rightarrow> Cost \<Rightarrow> Ceilings \<Rightarrow> bool" where
  "ceilings_within parent parent_used child \<longleftrightarrow>
     list_all (\<lambda>d. case (ceilings_get parent d, ceilings_get child d) of
         (None, _) \<Rightarrow> True
       | (Some _, None) \<Rightarrow> False
       | (Some ceiling, Some amount) \<Rightarrow> amount \<le> saturating_sub ceiling (cost_get parent_used d))
     Dimension_ALL"

definition narrowing_violation :: "'v GrantView_scheme \<Rightarrow> Grant \<Rightarrow> Cost \<Rightarrow> Grant \<Rightarrow>
    (NarrowingAxis option, AuthzError) result" where
  "narrowing_violation view parent parent_used child =
     rbind (session_scope_within view parent child) (\<lambda>sessions_ok. Ok
       (map_option fst (find (\<lambda>(axis, holds). \<not> holds)
         [(Capabilities, g_capabilities child \<subseteq> g_capabilities parent),
          (AuditScopeAxis, audit_scope_within (g_audit_scope child) (g_audit_scope parent)),
          (SessionScopeAxis, sessions_ok),
          (TargetScopeAxis, target_scope_covers (g_target_scope parent) (g_target_scope child)),
          (CeilingsAxis, ceilings_within (g_ceilings parent) parent_used (g_ceilings child)),
          (Expiry, g_not_before parent \<le> g_not_before child \<and>
             g_not_before child < g_expires_at child \<and> g_expires_at child \<le> g_expires_at parent),
          (Depth, checked_add (g_depth parent) 1 = Some (g_depth child) \<and>
             g_depth child < g_max_depth parent \<and> g_max_depth child \<le> g_max_depth parent),
          (IssuerAuthority, g_parent child = Some (g_id parent) \<and> g_issuer child = g_holder parent)])))"

subsection \<open>Issuing a child grant\<close>

datatype IssueDecision = Issued Grant | NotFoundOrDenied | Denied DenyCode | Narrowing NarrowingAxis

primrec issue_refusal :: "IssueDecision \<Rightarrow> Failure option" where
  "issue_refusal (Issued g) = None"
| "issue_refusal IssueDecision.NotFoundOrDenied = Some Failure.NotFoundOrDenied"
| "issue_refusal (IssueDecision.Denied code) = Some (failure_denied code)"
| "issue_refusal (Narrowing axis) = Some (failure_narrowing axis)"

record IssueContext =
  ctx_issuer :: TenantId
  ctx_designated :: GrantId
  ctx_child :: GrantId

definition issue_candidate :: "IssueContext \<Rightarrow> GrantIssueRequest \<Rightarrow> Grant \<Rightarrow> TargetScope \<Rightarrow> u8 \<Rightarrow> Grant" where
  "issue_candidate context request parent target_scope depth =
     \<lparr>g_id = ctx_child context, g_issuer = ctx_issuer context, g_holder = req_holder request,
      g_capabilities = set (req_capabilities request),
      g_session_scope = req_session_scope request, g_target_scope = target_scope,
      g_audit_scope = OwnAndOwnedSessions, g_ceilings = req_ceilings request,
      g_not_before = req_not_before request, g_expires_at = req_expires_at request,
      g_parent = Some (g_id parent), g_depth = depth,
      g_max_depth = (case req_max_depth request of Some m \<Rightarrow> m | None \<Rightarrow> g_max_depth parent)\<rparr>"

definition issue_under :: "'v Snapshot_scheme \<Rightarrow> IssueContext \<Rightarrow> GrantIssueRequest \<Rightarrow> Grant \<Rightarrow>
    (IssueDecision, AuthzError) result" where
  "issue_under view context request parent =
     (case target_scope_parse (req_target_scope request) of
        Err _ \<Rightarrow> Ok (Narrowing TargetScopeAxis)
      | Ok target_scope \<Rightarrow>
         (case checked_add (g_depth parent) 1 of
            None \<Rightarrow> Ok (Narrowing Depth)
          | Some depth \<Rightarrow>
              let candidate = issue_candidate context request parent target_scope depth in
              rbind (map_err View (view_used view (LedgerGrant (g_id parent)))) (\<lambda>parent_used.
              rbind (narrowing_violation view parent parent_used candidate) (\<lambda>violation. Ok
                (case violation of Some axis \<Rightarrow> Narrowing axis | None \<Rightarrow> Issued candidate)))))"

definition check_issue :: "'v Snapshot_scheme \<Rightarrow> IssueContext \<Rightarrow> GrantIssueRequest \<Rightarrow> Timestamp \<Rightarrow>
    (IssueDecision, AuthzError) result" where
  "check_issue view context request now =
     rbind (map_err View (view_grant view (ctx_designated context))) (\<lambda>found.
     (case found of
        None \<Rightarrow> Ok IssueDecision.NotFoundOrDenied
      | Some parent \<Rightarrow>
         (if g_id parent = ctx_designated context \<and> g_holder parent = ctx_issuer context
          then rbind (check_chain view parent now) (\<lambda>status.
            case status of
              Invalid code _ \<Rightarrow> Ok (IssueDecision.Denied code)
            | Valid chain \<Rightarrow>
                if \<not> list_all (\<lambda>link. Capability.GrantIssue \<in> g_capabilities link) chain
                then Ok (Narrowing IssuerAuthority)
                else (case chain of
                    [] \<Rightarrow> Ok IssueDecision.NotFoundOrDenied
                  | leaf # _ \<Rightarrow> issue_under view context request leaf))
          else Ok IssueDecision.NotFoundOrDenied)))"

section \<open>Lemmas\<close>

declare load_chain.simps [simp del]

subsection \<open>Tenant lineage\<close>

definition parent_step :: "'v GrantView_scheme \<Rightarrow> TenantId \<Rightarrow> TenantId \<Rightarrow> bool" where
  "parent_step view t p \<longleftrightarrow> view_tenant_parent view t = Ok (Some p)"

abbreviation descends :: "'v GrantView_scheme \<Rightarrow> TenantId \<Rightarrow> TenantId \<Rightarrow> bool" where
  "descends view \<equiv> (parent_step view)\<^sup>*\<^sup>*"

lemma lineage_walk_Ok_True_iff:
  "lineage_walk view tenant ancestor n current = Ok True \<longleftrightarrow>
   (\<exists>k < n. (parent_step view ^^ k) current ancestor)"
proof (induction n arbitrary: current)
  case 0
  then show ?case by simp
next
  case (Suc n)
  show ?case
  proof (cases "current = ancestor")
    case True
    have "(parent_step view ^^ 0) current ancestor" using True by simp
    with True show ?thesis by auto
  next
    case False
    have "(\<exists>k < Suc n. (parent_step view ^^ k) current ancestor) \<longleftrightarrow>
        (\<exists>p. parent_step view current p \<and> (\<exists>k < n. (parent_step view ^^ k) p ancestor))"
    proof
      assume "\<exists>k < Suc n. (parent_step view ^^ k) current ancestor"
      then obtain k where k: "k < Suc n" "(parent_step view ^^ k) current ancestor" by blast
      with False obtain j where "k = Suc j" by (cases k) auto
      with k have j: "j < n" "(parent_step view ^^ Suc j) current ancestor" by auto
      then show "\<exists>p. parent_step view current p \<and> (\<exists>k < n. (parent_step view ^^ k) p ancestor)"
        using relpowp_Suc_D2 [OF j(2)] by blast
    next
      assume "\<exists>p. parent_step view current p \<and> (\<exists>k < n. (parent_step view ^^ k) p ancestor)"
      then show "\<exists>k < Suc n. (parent_step view ^^ k) current ancestor"
        using relpowp_Suc_I2 by (metis Suc_less_eq)
    qed
    moreover have "lineage_walk view tenant ancestor (Suc n) current = Ok True \<longleftrightarrow>
        (\<exists>p. parent_step view current p \<and> lineage_walk view tenant ancestor n p = Ok True)"
      using False by (auto simp: parent_step_def result_iffs split: option.splits)
    ultimately show ?thesis using Suc.IH by simp
  qed
qed

lemma lineage_walk_Ok_False:
  "lineage_walk view tenant ancestor n current = Ok False \<Longrightarrow> \<not> descends view current ancestor"
proof (induction n arbitrary: current)
  case (Suc n)
  from Suc.prems have ne: "current \<noteq> ancestor" by auto
  show ?case
  proof
    assume "descends view current ancestor"
    with ne obtain p where p: "parent_step view current p" "descends view p ancestor"
      by (auto elim: converse_rtranclpE)
    with Suc.prems ne have "lineage_walk view tenant ancestor n p = Ok False"
      by (simp add: parent_step_def)
    with Suc.IH p(2) show False by blast
  qed
qed simp

lemma in_lineage_Ok_True_iff:
  "in_lineage view tenant ancestor = Ok True \<longleftrightarrow>
   (\<exists>k \<le> MAX_TENANT_LINEAGE. (parent_step view ^^ k) tenant ancestor)"
  by (simp add: in_lineage_def lineage_walk_Ok_True_iff less_Suc_eq_le del: lineage_walk.simps)

lemma in_lineage_descends: "in_lineage view tenant ancestor = Ok b \<Longrightarrow> b \<longleftrightarrow> descends view tenant ancestor"
proof (cases b)
  case True
  assume "in_lineage view tenant ancestor = Ok b"
  with True obtain k where "(parent_step view ^^ k) tenant ancestor"
    by (auto simp: in_lineage_Ok_True_iff)
  with True show ?thesis by (simp add: relpowp_imp_rtranclp)
next
  case False
  assume "in_lineage view tenant ancestor = Ok b"
  with False have "\<not> descends view tenant ancestor"
    by (intro lineage_walk_Ok_False) (simp add: in_lineage_def del: lineage_walk.simps)
  with False show ?thesis by simp
qed

subsection \<open>The shape of a loaded chain\<close>

fun linked :: "'v GrantView_scheme \<Rightarrow> Grant list \<Rightarrow> bool" where
  "linked view [] = False"
| "linked view [g] = (g_parent g = None \<and> g_depth g = 0)"
| "linked view (g # p # gs) =
     ((\<exists>pid. g_parent g = Some pid \<and> view_grant view pid = Ok (Some p) \<and> link_ok g pid p) \<and>
      linked view (p # gs))"

lemma load_chain_Ok_iff:
  "load_chain view leaf = Ok chain \<longleftrightarrow> linked view chain \<and> hd chain = leaf"
proof (induction view leaf arbitrary: chain rule: load_chain.induct)
  case (1 view current)
  show ?case
  proof (cases "g_parent current")
    case None
    then show ?thesis
      by (subst load_chain.simps) (cases "(view, chain)" rule: linked.cases, auto simp: ensure_Ok_iff)
  next
    case (Some pid)
    show ?thesis
    proof (cases "\<exists>p. view_grant view pid = Ok (Some p) \<and> link_ok current pid p")
      case True
      then obtain p where p: "view_grant view pid = Ok (Some p)" "link_ok current pid p" by blast
      have IH: "load_chain view p = Ok c \<longleftrightarrow> linked view c \<and> hd c = p" for c
        using "1.IH" [OF Some, of "Some p" p c] p by simp
      have "load_chain view current = Ok chain \<longleftrightarrow> (\<exists>c. linked view c \<and> hd c = p \<and> chain = current # c)"
        using Some p by (subst load_chain.simps) (auto simp: rbind_Ok_iff IH)
      also have "\<dots> \<longleftrightarrow> linked view chain \<and> hd chain = current"
        using Some p by (cases "(view, chain)" rule: linked.cases) (auto intro: exI [of _ "_ # _"])
      finally show ?thesis .
    next
      case False
      then have "load_chain view current \<noteq> Ok chain"
        using Some by (subst load_chain.simps) (auto simp: result_iffs)
      moreover have "\<not> (linked view chain \<and> hd chain = current)"
        using False Some by (cases "(view, chain)" rule: linked.cases) auto
      ultimately show ?thesis by blast
    qed
  qed
qed

lemma linked_not_Nil: "linked view chain \<Longrightarrow> chain \<noteq> []"
  by (cases chain) auto

lemma linked_length: "linked view chain \<Longrightarrow> length chain = unat (g_depth (hd chain)) + 1"
  by (induction view chain rule: linked.induct) (auto simp: link_ok_def checked_add_Some_iff)

lemma linked_drop: "linked view chain \<Longrightarrow> i < length chain \<Longrightarrow> linked view (drop i chain)"
proof (induction i arbitrary: chain)
  case (Suc i)
  then obtain g p gs where c: "chain = g # p # gs"
    by (cases chain; cases "tl chain") auto
  with Suc show ?case by auto
qed simp

lemma linked_depth:
  assumes "linked view chain" and "i < length chain"
  shows "unat (g_depth (chain ! i)) + i + 1 = length chain"
  using linked_length [OF linked_drop [OF assms]] assms(2) by (simp add: hd_drop_conv_nth)

lemma linked_bound: "linked view chain \<Longrightarrow> length chain \<le> 256"
proof -
  assume l: "linked view chain"
  have "unat (g_depth (hd chain)) < 256"
    using unsigned_less [of "g_depth (hd chain)", where ?'a = nat] by simp
  with linked_length [OF l] show ?thesis by simp
qed

lemma linked_step:
  assumes "linked view chain" and "Suc i < length chain"
  shows "\<exists>pid. g_parent (chain ! i) = Some pid \<and> view_grant view pid = Ok (Some (chain ! Suc i)) \<and>
    link_ok (chain ! i) pid (chain ! Suc i)"
proof -
  have "drop i chain = chain ! i # chain ! Suc i # drop (Suc (Suc i)) chain"
    using assms(2) by (metis Cons_nth_drop_Suc Suc_lessD)
  with linked_drop [OF assms(1), of i] assms(2) show ?thesis by simp
qed

lemma linked_root: "linked view chain \<Longrightarrow> g_parent (last chain) = None \<and> g_depth (last chain) = 0"
  by (induction view chain rule: linked.induct) auto

text \<open>Every link is the view's own record of its id, provided the leaf is.\<close>

lemma linked_records:
  assumes "linked view chain" and "view_grant view (g_id (hd chain)) = Ok (Some (hd chain))"
    and "g \<in> set chain"
  shows "view_grant view (g_id g) = Ok (Some g)"
proof -
  from assms(3) obtain i where i: "i < length chain" "g = chain ! i" by (metis in_set_conv_nth)
  show ?thesis
  proof (cases i)
    case 0
    with i assms show ?thesis by (simp add: hd_conv_nth linked_not_Nil)
  next
    case (Suc j)
    with linked_step [OF assms(1), of j] i show ?thesis by (auto simp: link_ok_def)
  qed
qed

lemma linked_distinct:
  assumes "linked view chain" and "view_grant view (g_id (hd chain)) = Ok (Some (hd chain))"
  shows "distinct (map g_id chain)"
proof -
  have "g_id (chain ! i) \<noteq> g_id (chain ! j)"
    if ij: "i < length chain" "j < length chain" "i \<noteq> j" for i j
  proof
    assume "g_id (chain ! i) = g_id (chain ! j)"
    moreover have "view_grant view (g_id (chain ! i)) = Ok (Some (chain ! i))"
      by (rule linked_records [OF assms nth_mem [OF ij(1)]])
    moreover have "view_grant view (g_id (chain ! j)) = Ok (Some (chain ! j))"
      by (rule linked_records [OF assms nth_mem [OF ij(2)]])
    ultimately have "chain ! i = chain ! j" by (metis sum.inject(2) option.inject)
    then have "unat (g_depth (chain ! i)) = unat (g_depth (chain ! j))" by (simp only:)
    then have "i = j" using linked_depth [OF assms(1) ij(1)] linked_depth [OF assms(1) ij(2)] by linarith
    with ij(3) show False ..
  qed
  then show ?thesis by (simp add: distinct_conv_nth)
qed

subsection \<open>Usable chains\<close>

definition usable_at :: "'v GrantView_scheme \<Rightarrow> Timestamp \<Rightarrow> Grant \<Rightarrow> bool" where
  "usable_at view now link \<longleftrightarrow> view_revocation view (g_id link) = Ok None \<and>
     g_not_before link \<le> now \<and> now < g_expires_at link"

lemma link_code_None_iff:
  "link_code revoked link now = None \<longleftrightarrow> \<not> revoked \<and> g_not_before link \<le> now \<and> now < g_expires_at link"
  by (auto simp: link_code_def)

lemma check_links_None_iff:
  "check_links view now links = Ok None \<longleftrightarrow> (\<forall>link \<in> set links. usable_at view now link)"
proof (induction links)
  case (Cons link links)
  show ?case
  proof (cases "usable_at view now link")
    case True
    then have "link_code False link now = None" by (simp add: link_code_None_iff usable_at_def)
    with True Cons show ?thesis by (simp add: usable_at_def)
  next
    case False
    then show ?thesis
      using link_code_None_iff [of _ link now]
      by (fastforce simp: rbind_Ok_iff map_err_Ok_iff usable_at_def split: option.splits)
  qed
qed simp

lemma check_chain_Valid_iff:
  "check_chain view leaf now = Ok (Valid chain) \<longleftrightarrow>
   linked view chain \<and> hd chain = leaf \<and> (\<forall>link \<in> set chain. usable_at view now link)"
  by (auto simp: check_chain_def rbind_Ok_iff load_chain_Ok_iff check_links_None_iff [symmetric]
      split: option.splits)

lemma check_links_Some:
  "check_links view now links = Ok (Some (code, i)) \<Longrightarrow>
   \<exists>link \<in> set links. g_id link = i \<and> \<not> usable_at view now link"
proof (induction links)
  case (Cons link links)
  then show ?case
    by (auto simp: rbind_Ok_iff map_err_Ok_iff usable_at_def link_code_def split: option.splits if_splits)
qed simp

subsection \<open>Attenuation\<close>

definition session_admitted :: "'v GrantView_scheme \<Rightarrow> Grant \<Rightarrow> SessionId \<Rightarrow> TenantId \<Rightarrow> bool" where
  "session_admitted view g session owner =
     (case g_session_scope g of
        SessionScope.Own \<Rightarrow> descends view owner (g_holder g)
      | Sessions sessions \<Rightarrow> session \<in> set sessions)"

lemma narrowing_None_iff:
  "narrowing_violation view parent used child = Ok None \<longleftrightarrow>
   session_scope_within view parent child = Ok True \<and>
   g_capabilities child \<subseteq> g_capabilities parent \<and>
   audit_scope_within (g_audit_scope child) (g_audit_scope parent) \<and>
   target_scope_covers (g_target_scope parent) (g_target_scope child) \<and>
   ceilings_within (g_ceilings parent) used (g_ceilings child) \<and>
   (g_not_before parent \<le> g_not_before child \<and> g_not_before child < g_expires_at child \<and>
    g_expires_at child \<le> g_expires_at parent) \<and>
   (checked_add (g_depth parent) 1 = Some (g_depth child) \<and> g_depth child < g_max_depth parent \<and>
    g_max_depth child \<le> g_max_depth parent) \<and>
   (g_parent child = Some (g_id parent) \<and> g_issuer child = g_holder parent)"
  unfolding narrowing_violation_def rbind_Ok_iff by (auto split: if_splits)

lemma sessions_in_lineage_True:
  "sessions_in_lineage view ancestor sessions = Ok True \<Longrightarrow> session \<in> set sessions \<Longrightarrow>
   \<exists>owner. view_session_owner view session = Ok (Some owner) \<and> descends view owner ancestor"
proof (induction sessions)
  case (Cons s sessions)
  from Cons.prems(1) obtain owner where "view_session_owner view s = Ok (Some owner)"
    "in_lineage view owner ancestor = Ok True" "sessions_in_lineage view ancestor sessions = Ok True"
    by (auto simp: result_iffs split: option.splits if_splits)
  moreover from this have "descends view owner ancestor" using in_lineage_descends by blast
  ultimately show ?case using Cons by auto
qed simp

lemma session_scope_within_sound:
  assumes "session_scope_within view parent child = Ok True"
    and "view_session_owner view session = Ok (Some owner)"
    and "session_admitted view child session owner"
  shows "session_admitted view parent session owner"
proof (cases "g_session_scope parent")
  case Own
  show ?thesis
  proof (cases "g_session_scope child")
    case child: Own
    then have "descends view (g_holder child) (g_holder parent)"
      using assms(1) Own in_lineage_descends by (fastforce simp: session_scope_within_def)
    with assms(3) child Own show ?thesis by (simp add: session_admitted_def)
  next
    case (Sessions sessions)
    with Own assms sessions_in_lineage_True [of view "g_holder parent" sessions session]
    show ?thesis by (auto simp: session_scope_within_def session_admitted_def)
  qed
next
  case (Sessions allowed)
  then show ?thesis
    using assms(1,3)
    by (cases "g_session_scope child") (auto simp: session_scope_within_def session_admitted_def list_all_iff)
qed

lemma ceilings_within_get:
  assumes "ceilings_within parent used child" and "ceilings_get parent d = Some c"
  shows "\<exists>a. ceilings_get child d = Some a \<and> unat a \<le> unat c - amount_nat used d"
proof -
  have "case (ceilings_get parent d, ceilings_get child d) of
         (None, _) \<Rightarrow> True
       | (Some _, None) \<Rightarrow> False
       | (Some ceiling, Some amount) \<Rightarrow> amount \<le> saturating_sub ceiling (cost_get used d)"
    using assms(1) unfolding ceilings_within_def list_all_iff by simp
  with assms(2) show ?thesis
    by (auto simp: word_le_nat_alt unat_saturating_sub split: option.splits)
qed

subsection \<open>Issued grants\<close>

lemma case_status_eq_iff:
  "(case x of Valid c \<Rightarrow> f c | Invalid a b \<Rightarrow> g a b) = z \<longleftrightarrow>
   (\<exists>c. x = Valid c \<and> f c = z) \<or> (\<exists>a b. x = Invalid a b \<and> g a b = z)"
  by (cases x) auto

lemma check_issue_Issued:
  assumes "check_issue view context request now = Ok (Issued g)"
  obtains chain used where "linked view chain" and "\<forall>link \<in> set chain. usable_at view now link"
    and "view_grant view (ctx_designated context) = Ok (Some (hd chain))"
    and "g_id (hd chain) = ctx_designated context" and "g_holder (hd chain) = ctx_issuer context"
    and "\<forall>link \<in> set chain. Capability.GrantIssue \<in> g_capabilities link"
    and "view_used view (LedgerGrant (g_id (hd chain))) = Ok used"
    and "narrowing_violation view (hd chain) used g = Ok None"
    and "g_id g = ctx_child context" and "g_holder g = req_holder request"
    and "g_capabilities g = set (req_capabilities request)"
    and "g_audit_scope g = OwnAndOwnedSessions"
proof -
  from assms obtain parent chain where
    p: "view_grant view (ctx_designated context) = Ok (Some parent)"
      "g_id parent = ctx_designated context" "g_holder parent = ctx_issuer context"
    and c: "check_chain view parent now = Ok (Valid chain)"
      "list_all (\<lambda>link. Capability.GrantIssue \<in> g_capabilities link) chain"
    and u: "issue_under view context request (hd chain) = Ok (Issued g)"
    unfolding check_issue_def result_iffs case_iffs case_status_eq_iff by auto
  from c(1) have chain: "linked view chain" "hd chain = parent" "\<forall>link \<in> set chain. usable_at view now link"
    by (auto simp: check_chain_Valid_iff)
  from u obtain ts depth used where
    "view_used view (LedgerGrant (g_id (hd chain))) = Ok used"
    "g = issue_candidate context request (hd chain) ts depth"
    "narrowing_violation view (hd chain) used g = Ok None"
    unfolding issue_under_def Let_def result_iffs case_iffs by (auto simp: case_option_eq_iff)
  with chain p c(2) show ?thesis
    by (intro that [of chain used]) (auto simp: issue_candidate_def list_all_iff)
qed

lemma linked_view_cong:
  assumes "\<And>g. g \<in> set (tl chain) \<Longrightarrow> view_grant view' (g_id g) = view_grant view (g_id g)"
    and "linked view chain"
  shows "linked view' chain"
  using assms
proof (induction view chain rule: linked.induct)
  case (3 view g p gs)
  then obtain pid where pid: "g_parent g = Some pid" "view_grant view pid = Ok (Some p)" "link_ok g pid p"
    by auto
  moreover from pid(3) have "g_id p = pid" by (simp add: link_ok_def)
  ultimately have "view_grant view' pid = Ok (Some p)" using "3.prems"(1) [of p] by simp
  moreover have "linked view' (p # gs)" using 3 by simp
  ultimately show ?case using pid by auto
qed simp_all

lemma narrowing_link:
  "narrowing_violation view parent used child = Ok None \<Longrightarrow>
   g_parent child = Some (g_id parent) \<and> link_ok child (g_id parent) parent"
  by (simp add: narrowing_None_iff link_ok_def)

subsection \<open>A concrete snapshot\<close>

text \<open>One operator root grant and one delegated child, used to instantiate the properties.\<close>

definition sample_root :: Grant where
  "sample_root = \<lparr>g_id = GrantId 1, g_issuer = TenantId 1, g_holder = TenantId 1,
     g_capabilities = {Capability.Capture, Capability.Read, Capability.GrantIssue, Capability.GrantRevoke},
     g_session_scope = SessionScope.Own,
     g_target_scope = [\<lparr>p_scheme = None, p_host = AnyHost, p_port = None\<rparr>],
     g_audit_scope = AllScope, g_ceilings = ceilings_default\<lparr>ceiling_fetches := Some 10\<rparr>,
     g_not_before = 0, g_expires_at = 100, g_parent = None, g_depth = 0, g_max_depth = 3\<rparr>"

definition sample_child :: Grant where
  "sample_child = \<lparr>g_id = GrantId 2, g_issuer = TenantId 1, g_holder = TenantId 2,
     g_capabilities = {Capability.Capture, Capability.Read}, g_session_scope = SessionScope.Own,
     g_target_scope = [\<lparr>p_scheme = None, p_host = AnyHost, p_port = None\<rparr>],
     g_audit_scope = OwnAndOwnedSessions, g_ceilings = ceilings_default\<lparr>ceiling_fetches := Some 4\<rparr>,
     g_not_before = 0, g_expires_at = 50, g_parent = Some (GrantId 1), g_depth = 1, g_max_depth = 3\<rparr>"

definition sample_view :: Snapshot where
  "sample_view = \<lparr>
     view_grant = (\<lambda>i. Ok (if i = GrantId 1 then Some sample_root
        else if i = GrantId 2 then Some sample_child else None)),
     view_revocation = (\<lambda>i. Ok None),
     view_session_owner = (\<lambda>i. Ok (if i = SessionId 7 then Some (TenantId 2) else None)),
     view_tenant_parent = (\<lambda>i. Ok (if i = TenantId 2 then Some (TenantId 1) else None)),
     view_used = (\<lambda>i. Ok cost_default),
     view_session_ceilings = (\<lambda>i. Ok ceilings_default),
     view_tenant_ceilings = (\<lambda>i. Ok ceilings_default)\<rparr>"

lemmas sample_defs = sample_view_def sample_root_def sample_child_def

lemma sample_linked: "linked sample_view [sample_child, sample_root]"
  by (simp add: sample_defs link_ok_def checked_add_def)

lemma sample_usable: "usable_at sample_view 10 sample_root" "usable_at sample_view 10 sample_child"
  by (simp_all add: sample_defs usable_at_def)

section \<open>Properties\<close>

text \<open>The lineage walk decides descent: it answers true exactly when at most 255 parent links lead from
  the tenant to the ancestor, and when it answers false no number of links does; a longer or cyclic
  parent chain is an error, never an answer.\<close>
theorem in_lineage_exact:
  "(in_lineage view tenant ancestor = Ok True \<longleftrightarrow>
      (\<exists>k. k \<le> 255 \<and> (parent_step view ^^ k) tenant ancestor)) \<and>
   (in_lineage view tenant ancestor = Ok False \<longrightarrow> \<not> descends view tenant ancestor)"
  using in_lineage_Ok_True_iff [of view tenant ancestor] in_lineage_descends [of view tenant ancestor False]
  by (auto simp: MAX_TENANT_LINEAGE_def)

theorem in_lineage_exact_witness:
  "in_lineage sample_view (TenantId 2) (TenantId 1) = Ok True \<and>
   \<not> descends sample_view (TenantId 1) (TenantId 2)"
proof -
  have "in_lineage sample_view (TenantId 2) (TenantId 1) = Ok True"
    by (simp add: in_lineage_def MAX_TENANT_LINEAGE_def sample_view_def numeral_eq_Suc)
  moreover have "in_lineage sample_view (TenantId 1) (TenantId 2) = Ok False"
    by (simp add: in_lineage_def MAX_TENANT_LINEAGE_def sample_view_def numeral_eq_Suc)
  ultimately show ?thesis using in_lineage_exact by blast
qed

text \<open>A chain the walk loads is bounded and acyclic: it starts at the leaf, has exactly one link per
  depth level (so at most 256), ends in a root of depth zero without a parent, and its grant ids are
  pairwise distinct when the leaf is the view's own record.\<close>
theorem load_chain_bounded:
  assumes "load_chain view leaf = Ok chain" and "view_grant view (g_id leaf) = Ok (Some leaf)"
  shows "hd chain = leaf \<and> length chain = unat (g_depth leaf) + 1 \<and> length chain \<le> 256 \<and>
    g_parent (last chain) = None \<and> g_depth (last chain) = 0 \<and> distinct (map g_id chain)"
proof -
  have "linked view chain" "hd chain = leaf" using assms(1) by (simp_all add: load_chain_Ok_iff)
  then show ?thesis
    using assms(2) linked_length linked_bound linked_root linked_distinct by metis
qed

theorem load_chain_bounded_witness:
  "hd [sample_child, sample_root] = sample_child \<and> distinct (map g_id [sample_child, sample_root])"
proof -
  have "load_chain sample_view sample_child = Ok [sample_child, sample_root]"
    unfolding load_chain_Ok_iff using sample_linked by simp
  moreover have "view_grant sample_view (g_id sample_child) = Ok (Some sample_child)"
    by (simp add: sample_view_def) (simp add: sample_defs)
  ultimately show ?thesis using load_chain_bounded by blast
qed

text \<open>Chain validity is exactly usability of every link: the walk answers valid if and only if the chain
  is well linked from the leaf to a root and each of its grants has no revocation record and is
  inside its validity window now. In particular one revoked or expired ancestor invalidates every
  descendant, with no write to the descendants.\<close>
theorem check_chain_exact:
  "check_chain view leaf now = Ok (Valid chain) \<longleftrightarrow>
   load_chain view leaf = Ok chain \<and>
   list_all (\<lambda>link. view_revocation view (g_id link) = Ok None \<and>
     g_not_before link \<le> now \<and> now < g_expires_at link) chain"
  by (auto simp: check_chain_Valid_iff load_chain_Ok_iff usable_at_def list_all_iff)

text \<open>Attenuation is sound on every axis: a child with no narrowing violation confers only capabilities of
  its parent, reads no audit its parent does not, admits only sessions and origins its parent admits,
  is valid only while its parent is, and on every dimension its parent caps it has a ceiling no larger
  than what its parent has left.\<close>
theorem narrowing_attenuates:
  assumes "narrowing_violation view parent used child = Ok None"
  shows "g_capabilities child \<subseteq> g_capabilities parent \<and>
    (g_audit_scope child = AllScope \<longrightarrow> g_audit_scope parent = AllScope) \<and>
    (\<forall>session owner. view_session_owner view session = Ok (Some owner) \<and>
       session_admitted view child session owner \<longrightarrow> session_admitted view parent session owner) \<and>
    (\<forall>orig. target_scope_matches (g_target_scope child) orig \<longrightarrow>
       target_scope_matches (g_target_scope parent) orig) \<and>
    (\<forall>t. g_not_before child \<le> t \<and> t < g_expires_at child \<longrightarrow>
       g_not_before parent \<le> t \<and> t < g_expires_at parent) \<and>
    (\<forall>d c. ceilings_get (g_ceilings parent) d = Some c \<longrightarrow>
       (\<exists>a. ceilings_get (g_ceilings child) d = Some a \<and> unat a \<le> unat c - amount_nat used d))"
proof -
  note n = assms [unfolded narrowing_None_iff]
  have "g_audit_scope child = AllScope \<longrightarrow> g_audit_scope parent = AllScope"
    using n by (auto simp: audit_scope_within_def)
  moreover have "\<forall>session owner. view_session_owner view session = Ok (Some owner) \<and>
      session_admitted view child session owner \<longrightarrow> session_admitted view parent session owner"
    using n session_scope_within_sound by blast
  moreover have "\<forall>orig. target_scope_matches (g_target_scope child) orig \<longrightarrow>
      target_scope_matches (g_target_scope parent) orig"
    using n target_scope_covers_sound by blast
  moreover have "\<forall>d c. ceilings_get (g_ceilings parent) d = Some c \<longrightarrow>
      (\<exists>a. ceilings_get (g_ceilings child) d = Some a \<and> unat a \<le> unat c - amount_nat used d)"
    using n ceilings_within_get by blast
  ultimately show ?thesis using n by auto
qed

theorem narrowing_attenuates_witness:
  "g_capabilities sample_child \<subseteq> g_capabilities sample_root \<and>
   \<not> (g_audit_scope sample_child = AllScope \<and> g_audit_scope sample_root \<noteq> AllScope)"
proof -
  have "in_lineage sample_view (TenantId 2) (TenantId 1) = Ok True"
    by (simp add: in_lineage_def MAX_TENANT_LINEAGE_def sample_view_def numeral_eq_Suc)
  then have "narrowing_violation sample_view sample_root cost_default sample_child = Ok None"
    by (simp add: narrowing_None_iff session_scope_within_def audit_scope_within_def
        target_scope_covers_def pattern_covers_def host_covers_def ceilings_within_def Dimension_ALL_def
        checked_add_def saturating_sub_def sample_root_def sample_child_def ceilings_default_def
        cost_default_def admits_scheme_def port_for_def Scheme_ALL_def)
  from narrowing_attenuates [OF this] show ?thesis by blast
qed

text \<open>An issued grant is usable: the parent is the designated grant, held by the issuer, with every link
  of its chain usable and conferring \<open>GrantIssue\<close>; the grant carries the requested holder and
  capabilities and never more than the narrow audit scope; and once it is stored under its fresh id
  its own chain loads as itself followed by the parent's chain.\<close>
theorem issued_grant_chain:
  assumes "check_issue view context request now = Ok (Issued g)"
    and "view_grant view (ctx_child context) = Ok None"
    and "view' = view\<lparr>view_grant := (view_grant view)(ctx_child context := Ok (Some g))\<rparr>"
  shows "\<exists>chain. check_chain view (hd chain) now = Ok (Valid chain) \<and>
    view_grant view (ctx_designated context) = Ok (Some (hd chain)) \<and>
    g_holder (hd chain) = ctx_issuer context \<and>
    (\<forall>link \<in> set chain. Capability.GrantIssue \<in> g_capabilities link) \<and>
    g_holder g = req_holder request \<and> g_capabilities g = set (req_capabilities request) \<and>
    g_audit_scope g = OwnAndOwnedSessions \<and>
    view_grant view' (g_id g) = Ok (Some g) \<and> load_chain view' g = Ok (g # chain)"
proof -
  from assms(1) obtain chain used where c: "linked view chain"
    "\<forall>link \<in> set chain. usable_at view now link"
    "view_grant view (ctx_designated context) = Ok (Some (hd chain))"
    "g_id (hd chain) = ctx_designated context" "g_holder (hd chain) = ctx_issuer context"
    "\<forall>link \<in> set chain. Capability.GrantIssue \<in> g_capabilities link"
    and n: "narrowing_violation view (hd chain) used g = Ok None"
    and g: "g_id g = ctx_child context" "g_holder g = req_holder request"
    "g_capabilities g = set (req_capabilities request)" "g_audit_scope g = OwnAndOwnedSessions"
    by (rule check_issue_Issued)
  have rec: "view_grant view (g_id l) = Ok (Some l)" if "l \<in> set chain" for l
    using linked_records [OF c(1) _ that] c(3,4) by simp
  then have same: "view_grant view' (g_id l) = Ok (Some l)" if "l \<in> set chain" for l
    using that assms(2,3) by (cases "g_id l = ctx_child context") fastforce+
  then have "linked view' chain"
    using linked_view_cong [of chain view' view] c(1) rec by (metis list.set_sel(2) linked_not_Nil)
  moreover have "view_grant view' (g_id (hd chain)) = Ok (Some (hd chain))"
    by (rule same) (simp add: linked_not_Nil [OF c(1)])
  ultimately have "linked view' (g # chain)"
    using narrowing_link [OF n] by (cases chain) auto
  moreover have "view_grant view' (g_id g) = Ok (Some g)" using g(1) assms(3) by simp
  ultimately show ?thesis
    using c g by (intro exI [of _ chain]) (simp add: check_chain_Valid_iff load_chain_Ok_iff)
qed

theorem issued_grant_chain_witness:
  "\<exists>view' g chain. load_chain (view' :: Snapshot) g = Ok (g # chain) \<and> g_holder g = TenantId 2 \<and>
     g_capabilities g = {Capability.Read}"
proof -
  define req where "req = \<lparr>req_holder = TenantId 2, req_capabilities = [Capability.Read],
    req_session_scope = SessionScope.Own, req_target_scope = [''*''],
    req_ceilings = ceilings_default\<lparr>ceiling_fetches := Some 2\<rparr>, req_not_before = 5,
    req_expires_at = 20, req_max_depth = None\<rparr>"
  define ctx where "ctx = \<lparr>ctx_issuer = TenantId 1, ctx_designated = GrantId 1, ctx_child = GrantId 3\<rparr>"
  have scope: "target_scope_parse [''*''] = Ok [\<lparr>p_scheme = None, p_host = AnyHost, p_port = None\<rparr>]"
    by code_simp
  have chain: "check_chain sample_view sample_root 10 = Ok (Valid [sample_root])"
    unfolding check_chain_Valid_iff using sample_usable by (simp add: sample_root_def)
  have lin: "in_lineage sample_view (TenantId 2) (TenantId 1) = Ok True"
    by (simp add: in_lineage_def MAX_TENANT_LINEAGE_def sample_view_def numeral_eq_Suc)
  have "narrowing_violation sample_view sample_root cost_default (issue_candidate ctx req sample_root
      [\<lparr>p_scheme = None, p_host = AnyHost, p_port = None\<rparr>] 1) = Ok None"
    using lin by (simp add: narrowing_None_iff session_scope_within_def audit_scope_within_def
        target_scope_covers_def pattern_covers_def host_covers_def ceilings_within_def Dimension_ALL_def
        checked_add_def saturating_sub_def sample_root_def issue_candidate_def ceilings_default_def
        cost_default_def admits_scheme_def port_for_def Scheme_ALL_def req_def ctx_def)
  then have under: "issue_under sample_view ctx req sample_root = Ok (Issued (issue_candidate ctx req sample_root
      [\<lparr>p_scheme = None, p_host = AnyHost, p_port = None\<rparr>] 1))"
    using scope by (simp add: issue_under_def req_def checked_add_def Let_def sample_root_def sample_view_def)
  have "check_issue sample_view ctx req 10 = Ok (Issued (issue_candidate ctx req sample_root
      [\<lparr>p_scheme = None, p_host = AnyHost, p_port = None\<rparr>] 1))"
  proof -
    have "view_grant sample_view (ctx_designated ctx) = Ok (Some sample_root)"
      by (simp add: sample_view_def ctx_def)
    moreover have "g_id sample_root = GrantId 1" "g_holder sample_root = TenantId 1"
      "Capability.GrantIssue \<in> g_capabilities sample_root" by (simp_all add: sample_root_def)
    ultimately show ?thesis using chain under by (simp add: check_issue_def ctx_def)
  qed
  from issued_grant_chain [OF this _ refl] show ?thesis
    by (auto simp: sample_view_def ctx_def req_def)
qed

end
