(* ===== verification/Authorize.thy ===== *)
theory Authorize
  imports Grants
begin

text \<open>
  Designated-grant authorization, the dry-run planner and revocation authority
  (\<^verbatim>\<open>crates/epitrope/src/decision.rs\<close>, \<^verbatim>\<open>revoke.rs\<close>).

  A decision function returns an error when the decision cannot be made, and otherwise a decision
  value; where the source nests the two (\<open>Result<Result<_, Decision>, Error>\<close>) so does the model.
\<close>

section \<open>Definitions\<close>

subsection \<open>Requests and decisions\<close>

record AuthzRequest =
  az_tenant :: TenantId
  az_grant :: GrantId
  az_capability :: Capability
  az_target :: "string option"
  az_session :: "SessionId option"
  az_declared :: Cost

datatype Decision =
    Allowed "GrantId list" ReservationPlan
  | Denied DenyCode
  | BudgetExceeded Dimension
  | NotFoundOrDenied

primrec decision_refusal :: "Decision \<Rightarrow> Failure option" where
  "decision_refusal (Allowed chain reservation) = None"
| "decision_refusal (Decision.Denied code) = Some (failure_denied code)"
| "decision_refusal (Decision.BudgetExceeded dimension) = Some (Failure.BudgetExceeded dimension)"
| "decision_refusal Decision.NotFoundOrDenied = Some Failure.NotFoundOrDenied"

fun decision_next_state :: "Decision \<Rightarrow> Mode \<Rightarrow> InvocationState option" where
  "decision_next_state (Allowed chain reservation) Execute = Some IntentPersisted"
| "decision_next_state _ Execute = Some InvocationState.Denied"
| "decision_next_state (Allowed chain reservation) DryRun = Some Planned"
| "decision_next_state _ DryRun = None"

subsection \<open>The checks\<close>

fun is_served :: "Capability \<Rightarrow> bool" where
  "is_served Capability.Ingest = False"
| "is_served _ = True"

definition designated_chain :: "'v GrantView_scheme \<Rightarrow> TenantId \<Rightarrow> GrantId \<Rightarrow> Capability \<Rightarrow> Timestamp \<Rightarrow>
    ((Grant list, Decision) result, AuthzError) result" where
  "designated_chain view tenant grant capability now =
     rbind (map_err View (view_grant view grant)) (\<lambda>found.
     (case found of
        None \<Rightarrow> Ok (Err Decision.NotFoundOrDenied)
      | Some leaf \<Rightarrow>
         (if g_id leaf = grant \<and> g_holder leaf = tenant
          then rbind (check_chain view leaf now) (\<lambda>status.
            case status of
              Invalid code _ \<Rightarrow> Ok (Err (Decision.Denied code))
            | Valid chain \<Rightarrow>
                if list_all (\<lambda>link. capability \<in> g_capabilities link) chain
                then Ok (Ok chain)
                else Ok (Err (Decision.Denied CapabilityNotGranted)))
          else Ok (Err Decision.NotFoundOrDenied))))"

fun links_admit :: "'v GrantView_scheme \<Rightarrow> SessionId \<Rightarrow> TenantId \<Rightarrow> Grant list \<Rightarrow> (bool, AuthzError) result" where
  "links_admit view session owner [] = Ok True"
| "links_admit view session owner (link # links) =
     rbind (case g_session_scope link of
         SessionScope.Own \<Rightarrow> in_lineage view owner (g_holder link)
       | Sessions sessions \<Rightarrow> Ok (session \<in> set sessions))
       (\<lambda>admitted. if admitted then links_admit view session owner links else Ok False)"

definition check_session :: "'v GrantView_scheme \<Rightarrow> TenantId \<Rightarrow> Grant list \<Rightarrow> SessionId \<Rightarrow>
    ((TenantId, Decision) result, AuthzError) result" where
  "check_session view tenant chain session =
     rbind (map_err View (view_session_owner view session)) (\<lambda>found.
     (case found of
        None \<Rightarrow> Ok (Err Decision.NotFoundOrDenied)
      | Some owner \<Rightarrow>
          rbind (links_admit view session owner chain) (\<lambda>admitted. Ok
            (if admitted then Ok owner
             else if owner = tenant then Err (Decision.Denied ScopeViolation)
             else Err Decision.NotFoundOrDenied))))"

definition target_admitted :: "Grant list \<Rightarrow> Capability \<Rightarrow> string option \<Rightarrow> bool" where
  "target_admitted chain capability target =
     (case target of
        None \<Rightarrow> capability \<noteq> Capability.Capture
      | Some t \<Rightarrow> (case origin_parse t of
            Err _ \<Rightarrow> False
          | Ok orig \<Rightarrow> list_all (\<lambda>link. target_scope_matches (g_target_scope link) orig) chain))"

definition grant_ledger :: "'v Snapshot_scheme \<Rightarrow> TenantId \<Rightarrow> Grant \<Rightarrow> (LedgerState, AuthzError) result" where
  "grant_ledger view tenant link =
     rbind (map_err View (view_used view (LedgerGrant (g_id link)))) (\<lambda>used.
       Ok \<lparr>ls_id = LedgerGrant (g_id link), ls_ceilings = g_ceilings link, ls_used = used,
           ls_own = (g_holder link = tenant)\<rparr>)"

definition session_ledger :: "'v Snapshot_scheme \<Rightarrow> TenantId \<Rightarrow> SessionId \<times> TenantId \<Rightarrow>
    (LedgerState, AuthzError) result" where
  "session_ledger view tenant = (\<lambda>(session, owner).
     rbind (map_err View (view_session_ceilings view session)) (\<lambda>ceilings.
     rbind (map_err View (view_used view (LedgerSession session))) (\<lambda>used.
       Ok \<lparr>ls_id = LedgerSession session, ls_ceilings = ceilings, ls_used = used,
           ls_own = (owner = tenant)\<rparr>)))"

definition tenant_ledger :: "'v Snapshot_scheme \<Rightarrow> TenantId \<Rightarrow> (LedgerState, AuthzError) result" where
  "tenant_ledger view tenant =
     rbind (map_err View (view_tenant_ceilings view tenant)) (\<lambda>ceilings.
     rbind (map_err View (view_used view (LedgerTenant tenant))) (\<lambda>used.
       Ok \<lparr>ls_id = LedgerTenant tenant, ls_ceilings = ceilings, ls_used = used, ls_own = True\<rparr>))"

definition ledger_states :: "'v Snapshot_scheme \<Rightarrow> TenantId \<Rightarrow> Grant list \<Rightarrow> (SessionId \<times> TenantId) option \<Rightarrow>
    (LedgerState list, AuthzError) result" where
  "ledger_states view tenant chain session =
     rbind (collect_results (grant_ledger view tenant) chain) (\<lambda>grants.
     rbind (collect_results (session_ledger view tenant)
         (case session of Some s \<Rightarrow> [s] | None \<Rightarrow> [])) (\<lambda>sessions.
     rbind (tenant_ledger view tenant) (\<lambda>own. Ok (grants @ sessions @ [own]))))"

definition reserve_for :: "'v Snapshot_scheme \<Rightarrow> TenantId \<Rightarrow> Grant list \<Rightarrow> (SessionId \<times> TenantId) option \<Rightarrow>
    Cost \<Rightarrow> (Decision, AuthzError) result" where
  "reserve_for view tenant chain session declared =
     rbind (ledger_states view tenant chain session) (\<lambda>ledgers.
     rbind (plan_reservation ledgers declared) (\<lambda>check. Ok
       (case check of
          Fits reservation \<Rightarrow> Allowed (map g_id chain) reservation
        | Exceeded (BudgetRefusal.Own _ dimension) \<Rightarrow> Decision.BudgetExceeded dimension
        | Exceeded _ \<Rightarrow> Decision.Denied BudgetUnavailable)))"

definition caller_remaining :: "'v Snapshot_scheme \<Rightarrow> TenantId \<Rightarrow> Grant list \<Rightarrow> SessionId option \<Rightarrow>
    (Ceilings, AuthzError) result" where
  "caller_remaining view tenant chain session =
     rbind (case session of
         Some s \<Rightarrow> rbind (map_err View (view_session_owner view s)) (\<lambda>found. Ok
           (case found of Some owner \<Rightarrow> if owner = tenant then Some (s, owner) else None | None \<Rightarrow> None))
       | None \<Rightarrow> Ok None) (\<lambda>owned.
     rbind (ledger_states view tenant chain owned) (\<lambda>ledgers. Ok (own_remaining ledgers)))"

subsection \<open>Authorization and planning\<close>

definition acting_session :: "'v Snapshot_scheme \<Rightarrow> AuthzRequest \<Rightarrow> Grant list \<Rightarrow>
    (((SessionId \<times> TenantId) option, Decision) result, AuthzError) result" where
  "acting_session view request chain =
     (case az_session request of
        Some session \<Rightarrow>
          rbind (check_session view (az_tenant request) chain session) (\<lambda>checked. Ok
            (case checked of Ok owner \<Rightarrow> Ok (Some (session, owner)) | Err refusal \<Rightarrow> Err refusal))
      | None \<Rightarrow>
          if session_requirement (az_capability request) = Required
          then Ok (Err (Decision.Denied SessionRequired))
          else Ok (Ok None))"

definition authorize :: "'v Snapshot_scheme \<Rightarrow> AuthzRequest \<Rightarrow> Timestamp \<Rightarrow> (Decision, AuthzError) result" where
  "authorize view request now =
     (let requirement = session_requirement (az_capability request) in
      ensure (\<not> (az_session request \<noteq> None \<and> requirement = Forbidden))
        (SessionNotApplicable (az_capability request))
       (rbind (designated_chain view (az_tenant request) (az_grant request) (az_capability request) now)
         (\<lambda>designated. case designated of
            Err refusal \<Rightarrow> Ok refusal
          | Ok chain \<Rightarrow>
              if \<not> is_served (az_capability request) then Ok (Decision.Denied NotSupported)
              else rbind (acting_session view request chain)
                (\<lambda>checked. case checked of
                   Err refusal \<Rightarrow> Ok refusal
                 | Ok session_owner \<Rightarrow>
                     if \<not> target_admitted chain (az_capability request) (az_target request)
                     then Ok (Decision.Denied ScopeViolation)
                     else reserve_for view (az_tenant request) chain session_owner (az_declared request)))))"

definition plan_call :: "'v Snapshot_scheme \<Rightarrow> AuthzRequest \<Rightarrow> Timestamp \<Rightarrow> (Plan, AuthzError) result" where
  "plan_call snapshot request now =
     rbind (authorize snapshot request now) (\<lambda>decision. Ok
       \<lparr>plan_capability = az_capability request, plan_cost = az_declared request,
        plan_grant_chain = (case decision of Allowed chain _ \<Rightarrow> chain | _ \<Rightarrow> []),
        plan_rule_chain = [], plan_refusal = decision_refusal decision\<rparr>)"

subsection \<open>Revocation authority\<close>

definition SUBTREE_WALK_LIMIT :: nat where "SUBTREE_WALK_LIMIT = 256"

datatype RevokeDecision =
    Revoke GrantId | AlreadyRevoked Revocation | Denied DenyCode | NotFoundOrDenied

primrec revoke_refusal :: "RevokeDecision \<Rightarrow> Failure option" where
  "revoke_refusal (Revoke target) = None"
| "revoke_refusal (AlreadyRevoked record) = None"
| "revoke_refusal (RevokeDecision.Denied code) = Some (failure_denied code)"
| "revoke_refusal RevokeDecision.NotFoundOrDenied = Some Failure.NotFoundOrDenied"

fun subtree_walk :: "'v GrantView_scheme \<Rightarrow> GrantId \<Rightarrow> nat \<Rightarrow> GrantId \<Rightarrow> (bool, AuthzError) result" where
  "subtree_walk view root 0 current = Ok False"
| "subtree_walk view root (Suc n) current =
     (if current = root then Ok True
      else rbind (map_err View (view_grant view current)) (\<lambda>found.
        case found of
          Some grant \<Rightarrow>
            (if g_id grant = current
             then (case g_parent grant of
                 Some parent \<Rightarrow> subtree_walk view root n parent
               | None \<Rightarrow> Ok False)
             else Ok False)
        | None \<Rightarrow> Ok False))"

definition in_subtree :: "'v GrantView_scheme \<Rightarrow> GrantId \<Rightarrow> GrantId \<Rightarrow> (bool, AuthzError) result" where
  "in_subtree view root target = subtree_walk view root SUBTREE_WALK_LIMIT target"

definition check_revoke :: "'v GrantView_scheme \<Rightarrow> TenantId \<Rightarrow> GrantId \<Rightarrow> GrantId \<Rightarrow> Timestamp \<Rightarrow>
    (RevokeDecision, AuthzError) result" where
  "check_revoke view tenant designated target now =
     rbind (designated_chain view tenant designated Capability.GrantRevoke now) (\<lambda>chain.
       case chain of
         Err (Decision.Denied code) \<Rightarrow> Ok (RevokeDecision.Denied code)
       | Err _ \<Rightarrow> Ok RevokeDecision.NotFoundOrDenied
       | Ok _ \<Rightarrow>
           rbind (in_subtree view designated target) (\<lambda>inside.
             if \<not> inside then Ok RevokeDecision.NotFoundOrDenied
             else rbind (map_err View (view_revocation view target)) (\<lambda>found. Ok
               (case found of
                  Some record \<Rightarrow> AlreadyRevoked record
                | None \<Rightarrow> Revoke target))))"

section \<open>Lemmas\<close>

subsection \<open>The designated chain\<close>

lemma designated_chain_Ok_iff:
  "designated_chain view tenant grant capability now = Ok (Ok chain) \<longleftrightarrow>
   view_grant view grant = Ok (Some (hd chain)) \<and> g_id (hd chain) = grant \<and>
   g_holder (hd chain) = tenant \<and> linked view chain \<and>
   (\<forall>link \<in> set chain. usable_at view now link \<and> capability \<in> g_capabilities link)"
  unfolding designated_chain_def result_iffs case_iffs case_status_eq_iff
  by (auto simp: check_chain_Valid_iff list_all_iff)

lemma designated_chain_foreign:
  "view_grant view grant = Ok (Some found) \<Longrightarrow> g_holder found \<noteq> tenant \<Longrightarrow>
   designated_chain view tenant grant capability now = Ok (Err Decision.NotFoundOrDenied)"
  by (simp add: designated_chain_def)

lemma designated_chain_missing:
  "view_grant view grant = Ok None \<Longrightarrow>
   designated_chain view tenant grant capability now = Ok (Err Decision.NotFoundOrDenied)"
  by (simp add: designated_chain_def)

lemma load_chain_cong:
  "view_grant view' = view_grant view \<Longrightarrow> load_chain view' leaf = load_chain view leaf"
proof (induction view leaf rule: load_chain.induct)
  case (1 view current)
  show ?case
  proof (cases "g_parent current")
    case None
    then show ?thesis by (simp add: load_chain.simps)
  next
    case (Some pid)
    have "load_chain view' p = load_chain view p"
      if "view_grant view pid = Ok (Some p)" "link_ok current pid p" for p
      using "1.IH" [OF Some, of "Some p" p] that 1(2) by simp
    then show ?thesis
      unfolding load_chain.simps [of _ current] using Some 1(2)
      by (cases "view_grant view pid"; cases "projr (view_grant view pid)")
        (auto simp: ensure_def)
  qed
qed

lemma check_links_cong:
  "view_revocation view' = view_revocation view \<Longrightarrow> check_links view' now links = check_links view now links"
  by (induction links) (simp_all cong: option.case_cong)

lemma designated_chain_cong:
  "view_grant view' = view_grant view \<Longrightarrow> view_revocation view' = view_revocation view \<Longrightarrow>
   designated_chain view' tenant grant capability now = designated_chain view tenant grant capability now"
proof -
  assume v: "view_grant view' = view_grant view" "view_revocation view' = view_revocation view"
  have "check_chain view' leaf now = check_chain view leaf now" for leaf
    unfolding check_chain_def load_chain_cong [OF v(1)] check_links_cong [OF v(2)] ..
  with v show ?thesis by (simp only: designated_chain_def)
qed

subsection \<open>Sessions and ledgers\<close>

lemma links_admit_True:
  "links_admit view session owner links = Ok True \<Longrightarrow> link \<in> set links \<Longrightarrow>
   session_admitted view link session owner"
proof (induction links)
  case (Cons l links)
  show ?case
  proof (cases "g_session_scope l")
    case Own
    with Cons.prems(1) have "in_lineage view owner (g_holder l) = Ok True"
      "links_admit view session owner links = Ok True"
      by (auto simp: rbind_Ok_iff split: if_splits)
    with Cons Own in_lineage_descends [of view owner "g_holder l" True] show ?thesis
      by (auto simp: session_admitted_def)
  next
    case (Sessions sessions)
    with Cons show ?thesis by (auto simp: session_admitted_def split: if_splits)
  qed
qed simp

lemma check_session_Ok_iff:
  "check_session view tenant chain session = Ok (Ok owner) \<longleftrightarrow>
   view_session_owner view session = Ok (Some owner) \<and> links_admit view session owner chain = Ok True"
  unfolding check_session_def result_iffs case_iffs by auto

lemma collect_ids:
  "collect_results f xs = Ok ys \<Longrightarrow> (\<And>x y. f x = Ok y \<Longrightarrow> i y = j x) \<Longrightarrow> map i ys = map j xs"
  by (induction xs arbitrary: ys) (auto simp: rbind_Ok_iff)

lemma collect_results_member:
  "collect_results f xs = Ok ys \<Longrightarrow> y \<in> set ys \<Longrightarrow> \<exists>x \<in> set xs. f x = Ok y"
  by (induction xs arbitrary: ys) (auto simp: rbind_Ok_iff)

lemma ledger_states_ids:
  assumes "ledger_states view tenant chain session = Ok ls"
  shows "map ls_id ls = map (\<lambda>link. LedgerGrant (g_id link)) chain @
    (case session of Some (s, _) \<Rightarrow> [LedgerSession s] | None \<Rightarrow> []) @ [LedgerTenant tenant]"
proof -
  from assms obtain gs ss own where
    ls: "ls = gs @ ss @ [own]" and gs: "collect_results (grant_ledger view tenant) chain = Ok gs"
    and ss: "collect_results (session_ledger view tenant) (case session of Some s \<Rightarrow> [s] | None \<Rightarrow> []) = Ok ss"
    and own: "tenant_ledger view tenant = Ok own"
    by (auto simp: ledger_states_def rbind_Ok_iff)
  have "map ls_id gs = map (\<lambda>link. LedgerGrant (g_id link)) chain"
    by (rule collect_ids [OF gs]) (auto simp: grant_ledger_def rbind_Ok_iff)
  moreover have "map ls_id ss = map (\<lambda>x. LedgerSession (fst x)) (case session of Some s \<Rightarrow> [s] | None \<Rightarrow> [])"
    by (rule collect_ids [OF ss]) (auto simp: session_ledger_def rbind_Ok_iff)
  moreover have "ls_id own = LedgerTenant tenant"
    using own by (auto simp: tenant_ledger_def rbind_Ok_iff)
  ultimately show ?thesis by (auto simp: ls split: option.split)
qed

lemma case_check_eq_iff:
  "(case c of Fits r \<Rightarrow> Allowed ids r | Exceeded x \<Rightarrow> (case x of BudgetRefusal.Own _ d \<Rightarrow> Decision.BudgetExceeded d
      | Upstream \<Rightarrow> Decision.Denied BudgetUnavailable)) = Allowed ids' r' \<longleftrightarrow> c = Fits r' \<and> ids = ids'"
  "(case c of Fits r \<Rightarrow> Allowed ids r | Exceeded x \<Rightarrow> (case x of BudgetRefusal.Own _ d \<Rightarrow> Decision.BudgetExceeded d
      | Upstream \<Rightarrow> Decision.Denied BudgetUnavailable)) = Decision.BudgetExceeded d' \<longleftrightarrow>
   (\<exists>i. c = Exceeded (BudgetRefusal.Own i d'))"
  by (auto split: BudgetCheck.split BudgetRefusal.split)

lemma reserve_for_Allowed_iff:
  "reserve_for view tenant chain session declared = Ok (Allowed ids plan) \<longleftrightarrow>
   (\<exists>ls. ledger_states view tenant chain session = Ok ls \<and>
      (\<forall>l \<in> set ls. \<forall>d. fits_ledger l declared d) \<and> ids = map g_id chain \<and>
      plan = \<lparr>rp_cost = declared, rp_ledgers = map ls_id ls\<rparr>)"
proof -
  have "reserve_for view tenant chain session declared = Ok (Allowed ids plan) \<longleftrightarrow>
    (\<exists>ls. ledger_states view tenant chain session = Ok ls \<and>
      plan_reservation ls declared = Ok (Fits plan) \<and> ids = map g_id chain)"
    by (auto simp: reserve_for_def rbind_Ok_iff case_check_eq_iff)
  then show ?thesis by (auto simp: plan_reservation_Fits_iff)
qed

lemma reserve_for_BudgetExceeded:
  assumes "reserve_for view tenant chain session declared = Ok (Decision.BudgetExceeded d)"
  shows "\<exists>ls l limit. ledger_states view tenant chain session = Ok ls \<and> l \<in> set ls \<and> ls_own l \<and>
    ceilings_get (ls_ceilings l) d = Some limit \<and>
    unat limit < amount_nat (ls_used l) d + amount_nat declared d"
proof -
  from assms obtain ls i where ls: "ledger_states view tenant chain session = Ok ls"
    and plan: "plan_reservation ls declared = Ok (Exceeded (BudgetRefusal.Own i d))"
    by (auto simp: reserve_for_def rbind_Ok_iff case_check_eq_iff)
  then have over: "first_overflow ls declared = None"
    by (auto simp: plan_reservation_eq_spec reservation_spec_def case_option_eq_iff split: if_splits)
  from plan obtain l where "find (\<lambda>(l, d). ls_own l) (shortfalls ls declared) = Some (l, d)"
    by (auto simp: plan_reservation_eq_spec reservation_spec_def case_option_eq_iff split: if_splits)
  then have "(l, d) \<in> set (shortfalls ls declared)" and own: "ls_own l"
    by (auto simp: find_Some_iff) (metis nth_mem)
  then have cell: "(l, d) \<in> set (ledger_cells ls)" and short: "\<not> fits_ledger l declared d"
    by (auto simp: shortfalls_def)
  from over cell short have "ceilings_get (ls_ceilings l) d \<noteq> None"
    by (fastforce simp: first_overflow_def find_None_iff)
  with short obtain limit where "ceilings_get (ls_ceilings l) d = Some limit"
    "unat limit < amount_nat (ls_used l) d + amount_nat declared d"
    by (auto simp: fits_ledger_def ledger_limit_def)
  with ls own cell show ?thesis by (auto simp: set_ledger_cells)
qed

text \<open>An account of the caller, with its ceilings and its recorded use: a grant of the designated chain
  that the caller holds, the session of the request when the caller owns it, or its tenant ledger.\<close>
definition caller_account :: "'v Snapshot_scheme \<Rightarrow> AuthzRequest \<Rightarrow> Timestamp \<Rightarrow> Ceilings \<Rightarrow> Cost \<Rightarrow> bool" where
  "caller_account view request now ceilings used \<longleftrightarrow>
     (\<exists>chain link. designated_chain view (az_tenant request) (az_grant request) (az_capability request) now =
          Ok (Ok chain) \<and> link \<in> set chain \<and> g_holder link = az_tenant request \<and>
        g_ceilings link = ceilings \<and> view_used view (LedgerGrant (g_id link)) = Ok used) \<or>
     (\<exists>session. az_session request = Some session \<and>
        view_session_owner view session = Ok (Some (az_tenant request)) \<and>
        view_session_ceilings view session = Ok ceilings \<and> view_used view (LedgerSession session) = Ok used) \<or>
     (view_tenant_ceilings view (az_tenant request) = Ok ceilings \<and>
        view_used view (LedgerTenant (az_tenant request)) = Ok used)"

lemma acting_session_Some:
  "acting_session view request chain = Ok (Ok (Some (s, owner))) \<Longrightarrow>
   az_session request = Some s \<and> view_session_owner view s = Ok (Some owner)"
  unfolding acting_session_def result_iffs case_iffs
  by (auto simp: check_session_Ok_iff case_sum_eq_iff if_eq_iff)

lemma own_ledger_is_account:
  assumes "designated_chain view (az_tenant request) (az_grant request) (az_capability request) now = Ok (Ok chain)"
    and "acting_session view request chain = Ok (Ok session)"
    and "ledger_states view (az_tenant request) chain session = Ok ls" and "l \<in> set ls" and "ls_own l"
  shows "caller_account view request now (ls_ceilings l) (ls_used l)"
proof -
  from assms(3) obtain gs ss own where ls: "ls = gs @ ss @ [own]"
    and gs: "collect_results (grant_ledger view (az_tenant request)) chain = Ok gs"
    and ss: "collect_results (session_ledger view (az_tenant request))
      (case session of Some s \<Rightarrow> [s] | None \<Rightarrow> []) = Ok ss"
    and own: "tenant_ledger view (az_tenant request) = Ok own"
    by (auto simp: ledger_states_def rbind_Ok_iff)
  from assms(4) ls consider (grant) "l \<in> set gs" | (session) "l \<in> set ss" | (tenant) "l = own" by auto
  then show ?thesis
  proof cases
    case grant
    from collect_results_member [OF gs this] obtain link where
      "link \<in> set chain" "grant_ledger view (az_tenant request) link = Ok l" by blast
    with assms(1,5) show ?thesis by (auto simp: caller_account_def grant_ledger_def result_iffs)
  next
    case session
    from collect_results_member [OF ss this] obtain s owner where so: "session = Some (s, owner)"
      and "session_ledger view (az_tenant request) (s, owner) = Ok l" by (auto split: option.splits)
    with assms(5) acting_session_Some [OF assms(2) [unfolded so]] show ?thesis
      by (auto simp: caller_account_def session_ledger_def result_iffs)
  next
    case tenant
    with own show ?thesis by (auto simp: caller_account_def tenant_ledger_def result_iffs)
  qed
qed

subsection \<open>The authorization contract\<close>

text \<open>What an allowed call promises, independently of how the checks are ordered.\<close>

definition grants_call :: "'v Snapshot_scheme \<Rightarrow> AuthzRequest \<Rightarrow> Timestamp \<Rightarrow> Grant list \<Rightarrow>
    (SessionId \<times> TenantId) option \<Rightarrow> bool" where
  "grants_call view request now chain session \<longleftrightarrow>
     view_grant view (az_grant request) = Ok (Some (hd chain)) \<and>
     g_id (hd chain) = az_grant request \<and> g_holder (hd chain) = az_tenant request \<and>
     load_chain view (hd chain) = Ok chain \<and>
     (\<forall>link \<in> set chain. usable_at view now link \<and> az_capability request \<in> g_capabilities link) \<and>
     is_served (az_capability request) \<and>
     (case az_session request of
        None \<Rightarrow> session = None \<and> session_requirement (az_capability request) \<noteq> Required
      | Some s \<Rightarrow> session_requirement (az_capability request) \<noteq> Forbidden \<and>
          (\<exists>owner. session = Some (s, owner) \<and> view_session_owner view s = Ok (Some owner) \<and>
             (\<forall>link \<in> set chain. session_admitted view link s owner))) \<and>
     (case az_target request of
        None \<Rightarrow> az_capability request \<noteq> Capability.Capture
      | Some t \<Rightarrow> (\<exists>orig. origin_parse t = Ok orig \<and>
          (\<forall>link \<in> set chain. target_scope_matches (g_target_scope link) orig)))"

lemma target_admitted_iff:
  "target_admitted chain capability target \<longleftrightarrow>
   (case target of None \<Rightarrow> capability \<noteq> Capability.Capture
    | Some t \<Rightarrow> (\<exists>orig. origin_parse t = Ok orig \<and>
        (\<forall>link \<in> set chain. target_scope_matches (g_target_scope link) orig)))"
  by (auto simp: target_admitted_def list_all_iff split: option.split sum.split)

lemma authorize_Allowed:
  assumes "authorize view request now = Ok (Allowed ids plan)"
  obtains chain session where
    "designated_chain view (az_tenant request) (az_grant request) (az_capability request) now = Ok (Ok chain)"
    and "is_served (az_capability request)"
    and "target_admitted chain (az_capability request) (az_target request)"
    and "case az_session request of
        None \<Rightarrow> session = None \<and> session_requirement (az_capability request) \<noteq> Required
      | Some s \<Rightarrow> session_requirement (az_capability request) \<noteq> Forbidden \<and>
          (\<exists>owner. session = Some (s, owner) \<and>
             check_session view (az_tenant request) chain s = Ok (Ok owner))"
    and "reserve_for view (az_tenant request) chain session (az_declared request) = Ok (Allowed ids plan)"
proof -
  have no: "designated_chain view t g c now \<noteq> Ok (Err (Allowed i p))" for t g c i p
    unfolding designated_chain_def result_iffs case_iffs case_status_eq_iff by auto
  have ns: "acting_session view request c \<noteq> Ok (Err (Allowed i p))" for c i p
    unfolding acting_session_def check_session_def result_iffs case_iffs
    by (auto simp: case_sum_eq_iff if_eq_iff)
  from assms no ns obtain chain session where
    "\<not> (az_session request \<noteq> None \<and> session_requirement (az_capability request) = Forbidden)"
    "designated_chain view (az_tenant request) (az_grant request) (az_capability request) now = Ok (Ok chain)"
    "is_served (az_capability request)" "acting_session view request chain = Ok (Ok session)"
    "target_admitted chain (az_capability request) (az_target request)"
    "reserve_for view (az_tenant request) chain session (az_declared request) = Ok (Allowed ids plan)"
    unfolding authorize_def Let_def result_iffs case_iffs by auto
  moreover from this(1,4) have "case az_session request of
        None \<Rightarrow> session = None \<and> session_requirement (az_capability request) \<noteq> Required
      | Some s \<Rightarrow> session_requirement (az_capability request) \<noteq> Forbidden \<and>
          (\<exists>owner. session = Some (s, owner) \<and>
             check_session view (az_tenant request) chain s = Ok (Ok owner))"
    by (cases "az_session request")
      (auto simp: acting_session_def rbind_Ok_iff case_sum_eq_iff split: if_splits)
  ultimately show ?thesis using that by blast
qed

lemma authorize_contract:
  assumes "authorize view request now = Ok (Allowed ids plan)"
  obtains chain session ls where "grants_call view request now chain session"
    and "ids = map g_id chain"
    and "ledger_states view (az_tenant request) chain session = Ok ls"
    and "\<forall>l \<in> set ls. \<forall>d. fits_ledger l (az_declared request) d"
    and "plan = \<lparr>rp_cost = az_declared request, rp_ledgers = map ls_id ls\<rparr>"
    and "distinct (map g_id chain)"
proof -
  from assms obtain chain session where
    d: "designated_chain view (az_tenant request) (az_grant request) (az_capability request) now = Ok (Ok chain)"
    and served: "is_served (az_capability request)"
    and target: "target_admitted chain (az_capability request) (az_target request)"
    and sess: "case az_session request of
        None \<Rightarrow> session = None \<and> session_requirement (az_capability request) \<noteq> Required
      | Some s \<Rightarrow> session_requirement (az_capability request) \<noteq> Forbidden \<and>
          (\<exists>owner. session = Some (s, owner) \<and>
             check_session view (az_tenant request) chain s = Ok (Ok owner))"
    and res: "reserve_for view (az_tenant request) chain session (az_declared request) = Ok (Allowed ids plan)"
    by (rule authorize_Allowed)
  note dd = d [unfolded designated_chain_Ok_iff]
  have "grants_call view request now chain session"
    unfolding grants_call_def
    using dd served target sess links_admit_True
    by (auto simp: load_chain_Ok_iff target_admitted_iff check_session_Ok_iff split: option.splits)
  moreover have "distinct (map g_id chain)"
    by (rule linked_distinct) (use dd in auto)
  ultimately show ?thesis
    using res that by (auto simp: reserve_for_Allowed_iff)
qed

subsection \<open>What a store must promise the reservation\<close>

text \<open>
  The contract between the authorization rules and whoever provides their snapshot: the amounts and
  ceilings the view reports are those of one ledger table.  Its client lemma turns an allowed call into
  a statement about that table, whatever the provider's representation is.
\<close>

locale ledger_table =
  fixes snapshot :: "'s \<Rightarrow> Snapshot"
    and used :: "'s \<Rightarrow> LedgerId \<Rightarrow> Cost"
    and limits :: "'s \<Rightarrow> LedgerId \<Rightarrow> Ceilings"
    and known :: "'s \<Rightarrow> LedgerId \<Rightarrow> bool"
  assumes used_law: "view_used (snapshot s) l = Ok (used s l)"
    and grant_law: "view_grant (snapshot s) i = Ok (Some g) \<Longrightarrow>
      limits s (LedgerGrant i) = g_ceilings g \<and> known s (LedgerGrant i)"
    and session_law: "view_session_ceilings (snapshot s) i' = Ok (limits s (LedgerSession i'))"
    and session_known: "view_session_owner (snapshot s) i' = Ok (Some owner) \<Longrightarrow> known s (LedgerSession i')"
    and tenant_law: "view_tenant_ceilings (snapshot s) t = Ok (limits s (LedgerTenant t))"
begin

lemma ledger_states_table:
  assumes "ledger_states (snapshot s) tenant chain session = Ok ls"
    and "\<And>link. link \<in> set chain \<Longrightarrow> view_grant (snapshot s) (g_id link) = Ok (Some link)"
    and "l \<in> set ls"
  shows "ls_used l = used s (ls_id l)" and "ls_ceilings l = limits s (ls_id l)"
proof -
  from assms(1) obtain gs ss own where
    ls: "ls = gs @ ss @ [own]" and gs: "collect_results (grant_ledger (snapshot s) tenant) chain = Ok gs"
    and ss: "collect_results (session_ledger (snapshot s) tenant)
      (case session of Some s \<Rightarrow> [s] | None \<Rightarrow> []) = Ok ss"
    and own: "tenant_ledger (snapshot s) tenant = Ok own"
    by (auto simp: ledger_states_def rbind_Ok_iff)
  from assms(3) consider "l \<in> set gs" | "l \<in> set ss" | "l = own" by (auto simp: ls)
  then have "ls_used l = used s (ls_id l) \<and> ls_ceilings l = limits s (ls_id l)"
  proof cases
    case 1
    from collect_results_member [OF gs 1] obtain link where
      link: "link \<in> set chain" "grant_ledger (snapshot s) tenant link = Ok l" by blast
    with grant_law [OF assms(2) [OF link(1)]] show ?thesis
      by (auto simp: grant_ledger_def rbind_Ok_iff used_law)
  next
    case 2
    from collect_results_member [OF ss 2] show ?thesis
      by (auto simp: session_ledger_def rbind_Ok_iff used_law session_law)
  next
    case 3
    with own show ?thesis by (auto simp: tenant_ledger_def rbind_Ok_iff used_law tenant_law)
  qed
  then show "ls_used l = used s (ls_id l)" and "ls_ceilings l = limits s (ls_id l)" by simp_all
qed

lemma allowed_within_limits:
  assumes "authorize (snapshot s) request now = Ok (Allowed ids plan)" and "l \<in> set (rp_ledgers plan)"
  shows "known s l \<or> l = LedgerTenant (az_tenant request)"
    and "ceilings_get (limits s l) d = Some c \<Longrightarrow>
      amount_nat (used s l) d + amount_nat (rp_cost plan) d \<le> unat c"
proof -
  from assms(1) obtain chain session ls where c: "grants_call (snapshot s) request now chain session"
    "ledger_states (snapshot s) (az_tenant request) chain session = Ok ls"
    "\<forall>l \<in> set ls. \<forall>d. fits_ledger l (az_declared request) d"
    "plan = \<lparr>rp_cost = az_declared request, rp_ledgers = map ls_id ls\<rparr>"
    by (rule authorize_contract)
  have head: "view_grant (snapshot s) (g_id (hd chain)) = Ok (Some (hd chain))"
    and lnk: "linked (snapshot s) chain"
    using c(1) by (simp_all add: grants_call_def load_chain_Ok_iff)
  note recs = linked_records [OF lnk head]
  show "known s l \<or> l = LedgerTenant (az_tenant request)"
    using assms(2) c(1,4) ledger_states_ids [OF c(2)] grant_law [OF recs] session_known
    by (auto simp: grants_call_def split: option.splits)
  from assms(2) c(4) obtain st where st: "st \<in> set ls" "ls_id st = l" by auto
  show "amount_nat (used s l) d + amount_nat (rp_cost plan) d \<le> unat c"
    if "ceilings_get (limits s l) d = Some c"
  proof -
    have "ls_used st = used s l" "ls_ceilings st = limits s l"
      using ledger_states_table [OF c(2) _ st(1)] recs st(2) by blast+
    moreover have "fits_ledger st (az_declared request) d" using c(3) st(1) by blast
    ultimately show ?thesis using c(4) that by (simp add: fits_ledger_def ledger_limit_def)
  qed
qed

end

subsection \<open>Subtrees and revocation\<close>

definition grant_parent_step :: "'v GrantView_scheme \<Rightarrow> GrantId \<Rightarrow> GrantId \<Rightarrow> bool" where
  "grant_parent_step view i p \<longleftrightarrow>
     (\<exists>g. view_grant view i = Ok (Some g) \<and> g_id g = i \<and> g_parent g = Some p)"

lemma subtree_walk_True:
  "subtree_walk view root n current = Ok True \<Longrightarrow> (grant_parent_step view)\<^sup>*\<^sup>* current root"
proof (induction n arbitrary: current)
  case (Suc n)
  show ?case
  proof (cases "current = root")
    case False
    with Suc.prems obtain g p where "view_grant view current = Ok (Some g)" "g_id g = current"
      "g_parent g = Some p" "subtree_walk view root n p = Ok True"
      unfolding subtree_walk.simps result_iffs case_iffs by auto
    with Suc.IH show ?thesis
      by (metis grant_parent_step_def converse_rtranclp_into_rtranclp)
  qed simp
qed simp

lemma case_designated_eq_iff:
  "(case x of Inl a \<Rightarrow> (case a of Decision.Denied code \<Rightarrow> f code | _ \<Rightarrow> g) | Inr b \<Rightarrow> h b) = z \<longleftrightarrow>
   (\<exists>code. x = Inl (Decision.Denied code) \<and> f code = z) \<or>
   (\<exists>d. x = Inl d \<and> (\<forall>code. d \<noteq> Decision.Denied code) \<and> g = z) \<or> (\<exists>b. x = Inr b \<and> h b = z)"
  by (auto split: sum.split Decision.split)

lemma check_revoke_Revoke:
  assumes "check_revoke view tenant designated target now = Ok (Revoke i)"
  obtains chain where "i = target"
    and "designated_chain view tenant designated Capability.GrantRevoke now = Ok (Ok chain)"
    and "(grant_parent_step view)\<^sup>*\<^sup>* target designated" and "view_revocation view target = Ok None"
proof -
  from assms obtain chain found where
    "designated_chain view tenant designated Capability.GrantRevoke now = Ok (Ok chain)"
    "in_subtree view designated target = Ok True" "view_revocation view target = Ok found"
    "(case found of Some record \<Rightarrow> AlreadyRevoked record | None \<Rightarrow> Revoke target) = Revoke i"
    unfolding check_revoke_def rbind_Ok_iff map_err_Ok_iff case_designated_eq_iff if_eq_iff by auto
  moreover from this(4) have "found = None" "i = target" by (auto split: option.splits)
  ultimately show ?thesis
    using that subtree_walk_True unfolding in_subtree_def by blast
qed

lemma revoked_link_invalid:
  assumes "load_chain view leaf = Ok chain" and "link \<in> set chain"
    and "view_revocation view (g_id link) \<noteq> Ok None"
  shows "check_chain view leaf now \<noteq> Ok (Valid chain')"
proof
  assume v: "check_chain view leaf now = Ok (Valid chain')"
  then have "load_chain view leaf = Ok chain'" by (auto simp: check_chain_Valid_iff load_chain_Ok_iff)
  with assms(1) have "chain' = chain" by simp
  with v assms(2,3) show False by (auto simp: check_chain_Valid_iff usable_at_def)
qed

lemma check_links_revoked_other:
  assumes "\<And>link. link \<in> set links \<Longrightarrow> g_id link \<noteq> target"
  shows "check_links (view\<lparr>view_revocation := (view_revocation view)(target := r)\<rparr>) now links =
    check_links view now links"
  using assms by (induction links) (simp_all cong: option.case_cong)

section \<open>Properties\<close>

text \<open>C6. Authorization refines its contract: whenever a call is allowed, the designated grant is held by the
  calling tenant, its whole chain loads and every link is usable now and confers the capability, the
  session (when the capability acts in one) is admitted by every link, the target's origin is inside
  every link's scope, and the reservation debits the declared cost from the ledger of every chain
  grant, of the session and of the tenant, all different and each with room for it.\<close>
theorem authorize_refines_contract:
  assumes "authorize view request now = Ok (Allowed ids plan)"
  shows "\<exists>chain session ls. grants_call view request now chain session \<and> ids = map g_id chain \<and>
    ledger_states view (az_tenant request) chain session = Ok ls \<and>
    (\<forall>l \<in> set ls. \<forall>d. fits_ledger l (az_declared request) d) \<and>
    plan = \<lparr>rp_cost = az_declared request, rp_ledgers =
      map (\<lambda>link. LedgerGrant (g_id link)) chain @
      (case session of Some (s, _) \<Rightarrow> [LedgerSession s] | None \<Rightarrow> []) @
      [LedgerTenant (az_tenant request)]\<rparr> \<and> distinct (rp_ledgers plan)"
proof -
  from assms obtain chain session ls where c: "grants_call view request now chain session"
    "ids = map g_id chain" "ledger_states view (az_tenant request) chain session = Ok ls"
    "\<forall>l \<in> set ls. \<forall>d. fits_ledger l (az_declared request) d"
    "plan = \<lparr>rp_cost = az_declared request, rp_ledgers = map ls_id ls\<rparr>" "distinct (map g_id chain)"
    by (rule authorize_contract)
  have "distinct (map (\<lambda>link. LedgerGrant (g_id link)) chain)"
    using c(6) by (auto simp: distinct_map inj_on_def)
  with c ledger_states_ids [OF c(3)] show ?thesis
    by (intro exI [of _ chain] exI [of _ session] exI [of _ ls]) (auto split: option.split)
qed

theorem authorize_refines_contract_witness:
  "\<exists>chain session ls. grants_call sample_view
       \<lparr>az_tenant = TenantId 2, az_grant = GrantId 2, az_capability = Capability.Read, az_target = None,
        az_session = Some (SessionId 7), az_declared = cost_default\<lparr>fetches := 1\<rparr>\<rparr> 10 chain session \<and>
     [GrantId 2, GrantId 1] = map g_id chain \<and> ledger_states sample_view (TenantId 2) chain session = Ok ls"
proof -
  let ?req = "\<lparr>az_tenant = TenantId 2, az_grant = GrantId 2, az_capability = Capability.Read, az_target = None,
        az_session = Some (SessionId 7), az_declared = cost_default\<lparr>fetches := 1\<rparr>\<rparr>"
  let ?plan = "\<lparr>rp_cost = cost_default\<lparr>fetches := 1\<rparr>, rp_ledgers = [LedgerGrant (GrantId 2),
        LedgerGrant (GrantId 1), LedgerSession (SessionId 7), LedgerTenant (TenantId 2)]\<rparr>"
  have d: "designated_chain sample_view (TenantId 2) (GrantId 2) Capability.Read 10 =
      Ok (Ok [sample_child, sample_root])"
    unfolding designated_chain_Ok_iff using sample_linked sample_usable
    by (simp add: sample_view_def) (simp add: sample_root_def sample_child_def)
  have lin: "in_lineage sample_view (TenantId 2) (TenantId 1) = Ok True"
    "in_lineage sample_view (TenantId 2) (TenantId 2) = Ok True"
    by (simp_all add: in_lineage_def MAX_TENANT_LINEAGE_def sample_view_def numeral_eq_Suc)
  have s: "check_session sample_view (TenantId 2) [sample_child, sample_root] (SessionId 7) =
      Ok (Ok (TenantId 2))"
    unfolding check_session_Ok_iff using lin
    by (simp add: sample_root_def sample_child_def) (simp add: sample_view_def)
  have "reserve_for sample_view (TenantId 2) [sample_child, sample_root] (Some (SessionId 7, TenantId 2))
      (cost_default\<lparr>fetches := 1\<rparr>) = Ok (Allowed [GrantId 2, GrantId 1] ?plan)"
    unfolding reserve_for_Allowed_iff
    by (simp add: ledger_states_def grant_ledger_def session_ledger_def tenant_ledger_def
        sample_view_def sample_root_def sample_child_def fits_ledger_def ledger_limit_def
        all_dimensions_iff Dimension_ALL_def cost_default_def ceilings_default_def)
  then have "authorize sample_view ?req 10 = Ok (Allowed [GrantId 2, GrantId 1] ?plan)"
    using d s by (simp add: authorize_def acting_session_def target_admitted_def)
  from authorize_refines_contract [OF this] show ?thesis
    unfolding AuthzRequest.simps by (elim exE conjE) (intro exI conjI, assumption+)
qed

text \<open>C7. A foreign grant is indistinguishable from a missing one: when the designated grant exists but another
  tenant holds it, every decision taken under it (authorizing a call, issuing a child grant, revoking a
  grant) is exactly the decision taken when the view holds no such grant.\<close>
theorem foreign_grant_hidden:
  assumes "view_grant view grant = Ok (Some found)" and "g_holder found \<noteq> tenant"
    and "hidden = view\<lparr>view_grant := (view_grant view)(grant := Ok None)\<rparr>"
    and "az_grant request = grant" and "az_tenant request = tenant"
    and "ctx_designated context = grant" and "ctx_issuer context = tenant"
  shows "authorize view request now = authorize hidden request now \<and>
    check_issue view context issue now = check_issue hidden context issue now \<and>
    check_revoke view tenant grant target now = check_revoke hidden tenant grant target now"
proof -
  have "view_grant hidden grant = Ok None" using assms(3) by simp
  then have "designated_chain view tenant grant c now = designated_chain hidden tenant grant c now"
    and "check_issue view context issue now = check_issue hidden context issue now" for c
    using assms by (simp_all add: designated_chain_foreign designated_chain_missing check_issue_def)
  moreover from this have "designated_chain hidden tenant grant c now = Ok (Err Decision.NotFoundOrDenied)" for c
    using designated_chain_foreign [OF assms(1,2)] by simp
  ultimately show ?thesis
    using assms(4,5) by (simp add: authorize_def check_revoke_def)
qed

theorem foreign_grant_hidden_witness:
  "check_revoke sample_view (TenantId 2) (GrantId 1) (GrantId 2) 10 =
   check_revoke (sample_view\<lparr>view_grant := (view_grant sample_view)(GrantId 1 := Ok None)\<rparr>)
     (TenantId 2) (GrantId 1) (GrantId 2) 10"
proof -
  have "view_grant sample_view (GrantId 1) = Ok (Some sample_root)" by (simp add: sample_view_def)
  moreover have "g_holder sample_root \<noteq> TenantId 2" by (simp add: sample_root_def)
  ultimately show ?thesis
    using foreign_grant_hidden [of sample_view "GrantId 1" sample_root "TenantId 2" _
        "\<lparr>az_tenant = TenantId 2, az_grant = GrantId 1, az_capability = Capability.Read, az_target = None,
          az_session = None, az_declared = cost_default\<rparr>"
        "\<lparr>ctx_issuer = TenantId 2, ctx_designated = GrantId 1, ctx_child = GrantId 9\<rparr>" 10 undefined "GrantId 2"]
    by simp
qed

text \<open>C8. A dimension is only ever named for one of the caller's own accounts: when authorization answers that
  a dimension's budget is exceeded, that dimension has a ceiling that the recorded use and the declared
  cost together exceed on a grant of the designated chain that the caller itself holds, on the session of
  the request when its recorded owner is the caller, or on the caller's tenant ledger. An ancestor grant
  held by another tenant, or another tenant's session, is never the account the answer speaks of.\<close>
theorem exceeded_dimension_is_own:
  assumes "authorize view request now = Ok (Decision.BudgetExceeded d)"
  shows "\<exists>ceilings used limit. caller_account view request now ceilings used \<and>
    ceilings_get ceilings d = Some limit \<and>
    unat limit < amount_nat used d + amount_nat (az_declared request) d"
proof -
  have no: "designated_chain view t g c now \<noteq> Ok (Err (Decision.BudgetExceeded d))" for t g c
    unfolding designated_chain_def result_iffs case_iffs case_status_eq_iff by auto
  have ns: "acting_session view request c \<noteq> Ok (Err (Decision.BudgetExceeded d))" for c
    unfolding acting_session_def check_session_def result_iffs case_iffs
    by (auto simp: case_sum_eq_iff if_eq_iff)
  from assms no ns obtain chain session where
    chain: "designated_chain view (az_tenant request) (az_grant request) (az_capability request) now = Ok (Ok chain)"
    and session: "acting_session view request chain = Ok (Ok session)"
    and r: "reserve_for view (az_tenant request) chain session (az_declared request) = Ok (Decision.BudgetExceeded d)"
    unfolding authorize_def Let_def result_iffs case_iffs by auto
  from reserve_for_BudgetExceeded [OF r] obtain ls l limit where
    "ledger_states view (az_tenant request) chain session = Ok ls" "l \<in> set ls" "ls_own l"
    and limit: "ceilings_get (ls_ceilings l) d = Some limit"
      "unat limit < amount_nat (ls_used l) d + amount_nat (az_declared request) d" by blast
  from own_ledger_is_account [OF chain session this(1-3)] limit show ?thesis by blast
qed

theorem exceeded_dimension_is_own_witness:
  "\<exists>ceilings used limit. caller_account sample_view
      \<lparr>az_tenant = TenantId 2, az_grant = GrantId 2, az_capability = Capability.Read, az_target = None,
       az_session = Some (SessionId 7), az_declared = cost_default\<lparr>fetches := 5\<rparr>\<rparr> 10 ceilings used \<and>
    ceilings_get ceilings Fetches = Some limit \<and> unat limit < amount_nat used Fetches + 5"
proof -
  let ?req = "\<lparr>az_tenant = TenantId 2, az_grant = GrantId 2, az_capability = Capability.Read, az_target = None,
        az_session = Some (SessionId 7), az_declared = cost_default\<lparr>fetches := 5\<rparr>\<rparr>"
  have d: "designated_chain sample_view (TenantId 2) (GrantId 2) Capability.Read 10 =
      Ok (Ok [sample_child, sample_root])"
    unfolding designated_chain_Ok_iff using sample_linked sample_usable
    by (simp add: sample_view_def) (simp add: sample_root_def sample_child_def)
  have lin: "in_lineage sample_view (TenantId 2) (TenantId 1) = Ok True"
    "in_lineage sample_view (TenantId 2) (TenantId 2) = Ok True"
    by (simp_all add: in_lineage_def MAX_TENANT_LINEAGE_def sample_view_def numeral_eq_Suc)
  have s: "check_session sample_view (TenantId 2) [sample_child, sample_root] (SessionId 7) =
      Ok (Ok (TenantId 2))"
    unfolding check_session_Ok_iff using lin
    by (simp add: sample_root_def sample_child_def) (simp add: sample_view_def)
  have "reserve_for sample_view (TenantId 2) [sample_child, sample_root] (Some (SessionId 7, TenantId 2))
      (cost_default\<lparr>fetches := 5\<rparr>) = Ok (Decision.BudgetExceeded Fetches)"
    by (simp add: reserve_for_def ledger_states_def grant_ledger_def session_ledger_def tenant_ledger_def
        sample_view_def sample_root_def sample_child_def plan_reservation_def ledger_covers_def
        checked_add_def Dimension_ALL_def cost_default_def ceilings_default_def)
  then have "authorize sample_view ?req 10 = Ok (Decision.BudgetExceeded Fetches)"
    using d s by (simp add: authorize_def acting_session_def target_admitted_def)
  from exceeded_dimension_is_own [OF this] show ?thesis by simp
qed

text \<open>C9. Revocation authority is confined to the subtree and takes effect on all of it: a revocation is only
  decided when the caller holds a usable designated grant that confers \<open>GrantRevoke\<close> on every link and
  the target reaches it through parent links; once its record is written, every chain through the
  target is invalid at every later time, and every chain that avoids the target is unchanged.\<close>
theorem revoke_cuts_subtree:
  assumes "check_revoke view tenant designated target now = Ok (Revoke i)"
    and "view' = view\<lparr>view_revocation := (view_revocation view)(i := Ok (Some record))\<rparr>"
    and "load_chain view leaf = Ok chain"
  shows "i = target \<and> (grant_parent_step view)\<^sup>*\<^sup>* target designated \<and>
    (\<exists>own. designated_chain view tenant designated Capability.GrantRevoke now = Ok (Ok own)) \<and>
    (if target \<in> g_id ` set chain then \<forall>later c. check_chain view' leaf later \<noteq> Ok (Valid c)
     else \<forall>later. check_chain view' leaf later = check_chain view leaf later)"
proof -
  obtain own where i: "i = target" "(grant_parent_step view)\<^sup>*\<^sup>* target designated"
    "designated_chain view tenant designated Capability.GrantRevoke now = Ok (Ok own)"
    using assms(1) by (rule check_revoke_Revoke)
  have load: "load_chain view' leaf = Ok chain" using assms(2,3) load_chain_cong [of view' view] by simp
  have "check_chain view' leaf later \<noteq> Ok (Valid c)" if hit: "target \<in> g_id ` set chain" for later c
  proof -
    from hit obtain link where "link \<in> set chain" "g_id link = target" by blast
    then show ?thesis using revoked_link_invalid [OF load] assms(2) i(1) by fastforce
  qed
  moreover have "check_chain view' leaf later = check_chain view leaf later"
    if miss: "target \<notin> g_id ` set chain" for later
  proof -
    have "check_links view' later chain = check_links view later chain"
      unfolding assms(2) i(1) by (rule check_links_revoked_other) (use miss in blast)
    then show ?thesis using load assms(3) by (simp add: check_chain_def)
  qed
  ultimately show ?thesis using i by auto
qed

theorem revoke_cuts_subtree_witness:
  "\<exists>view' :: Snapshot. \<forall>later c. check_chain view' sample_child later \<noteq> Ok (Valid c)"
proof -
  have d: "designated_chain sample_view (TenantId 1) (GrantId 1) Capability.GrantRevoke 10 = Ok (Ok [sample_root])"
    unfolding designated_chain_Ok_iff using sample_usable(1)
    by (simp add: sample_view_def) (simp add: sample_root_def)
  have "in_subtree sample_view (GrantId 1) (GrantId 2) = Ok True"
    by (simp add: in_subtree_def SUBTREE_WALK_LIMIT_def numeral_eq_Suc sample_view_def)
      (simp add: sample_child_def)
  moreover have "view_revocation sample_view (GrantId 2) = Ok None" by (simp add: sample_view_def)
  ultimately have "check_revoke sample_view (TenantId 1) (GrantId 1) (GrantId 2) 10 = Ok (Revoke (GrantId 2))"
    using d by (simp add: check_revoke_def)
  moreover have "load_chain sample_view sample_child = Ok [sample_child, sample_root]"
    unfolding load_chain_Ok_iff using sample_linked by simp
  moreover have "GrantId 2 \<in> g_id ` set [sample_child, sample_root]" by (simp add: sample_child_def)
  ultimately show ?thesis using revoke_cuts_subtree [OF _ refl] by meson
qed

end
