(* ===== verification/Lifecycle.thy ===== *)
theory Lifecycle
  imports Budget
begin

text \<open>
  The invocation transition table and restart recovery (\<^verbatim>\<open>crates/epitrope/src/lifecycle.rs\<close>).

  \<open>next_state\<close> is the source's match.  The relation \<open>lifecycle\<close> is the contract's transition table,
  one rule per row; runs of steps are folded through \<open>next_state\<close>.
\<close>

section \<open>Definitions\<close>

definition next_state_option :: "InvocationState \<Rightarrow> Step \<Rightarrow> InvocationState option" where
  "next_state_option start step =
     (case (start, step) of
        (Planned, Deny) \<Rightarrow> Some InvocationState.Denied
      | (Planned, PersistIntent) \<Rightarrow> Some IntentPersisted
      | (IntentPersisted, Dispatch) \<Rightarrow> Some Dispatched
      | (IntentPersisted, Release reason) \<Rightarrow>
          (if reason \<in> {Abandoned, Revoked, Expired, ReleaseReason.Cancelled, ReleaseReason.DeadlineExceeded}
           then Some Released else None)
      | (Dispatched, Release reason) \<Rightarrow>
          (if reason \<in> {Revoked, Expired, ReleaseReason.Cancelled, ReleaseReason.DeadlineExceeded,
              ReleaseReason.ProducerUnavailable}
           then Some Released else None)
      | (Dispatched, CompleteTransfer) \<Rightarrow> Some TransferComplete
      | (Dispatched, Settle) \<Rightarrow> Some Settled
      | (Published, Settle) \<Rightarrow> Some Settled
      | (Dispatched, MarkUnknownEffect) \<Rightarrow> Some InvocationState.UnknownEffect
      | (TransferComplete, Publish) \<Rightarrow> Some Published
      | _ \<Rightarrow> None)"

definition next_state :: "InvocationState \<Rightarrow> Step \<Rightarrow> (InvocationState, AuthzError) result" where
  "next_state start step =
     (case next_state_option start step of
        None \<Rightarrow> Err (IllegalTransition start step)
      | Some state \<Rightarrow> Ok state)"

datatype RecoveryAction =
    ReleaseAbandoned | MarkUnknownEffect | RollForwardPublish | RollForwardSettle

primrec recovery_step :: "RecoveryAction \<Rightarrow> Step" where
  "recovery_step ReleaseAbandoned = Release Abandoned"
| "recovery_step RecoveryAction.MarkUnknownEffect = Step.MarkUnknownEffect"
| "recovery_step RollForwardPublish = Publish"
| "recovery_step RollForwardSettle = Settle"

fun recovery_action :: "InvocationState \<Rightarrow> RecoveryAction option" where
  "recovery_action IntentPersisted = Some ReleaseAbandoned"
| "recovery_action Dispatched = Some RecoveryAction.MarkUnknownEffect"
| "recovery_action TransferComplete = Some RollForwardPublish"
| "recovery_action Published = Some RollForwardSettle"
| "recovery_action _ = None"

section \<open>The transition table as a relation\<close>

inductive lifecycle :: "InvocationState \<Rightarrow> Step \<Rightarrow> InvocationState \<Rightarrow> bool" where
  deny: "lifecycle Planned Deny InvocationState.Denied"
| persist: "lifecycle Planned PersistIntent IntentPersisted"
| dispatch: "lifecycle IntentPersisted Dispatch Dispatched"
| release_intent: "reason \<noteq> ReleaseReason.ProducerUnavailable \<Longrightarrow>
    lifecycle IntentPersisted (Release reason) Released"
| transfer: "lifecycle Dispatched CompleteTransfer TransferComplete"
| settle_failed: "lifecycle Dispatched Settle Settled"
| unknown_effect: "lifecycle Dispatched Step.MarkUnknownEffect InvocationState.UnknownEffect"
| release_dispatched: "reason \<noteq> Abandoned \<Longrightarrow> lifecycle Dispatched (Release reason) Released"
| publish: "lifecycle TransferComplete Publish Published"
| settle_published: "lifecycle Published Settle Settled"

inductive_cases lifecycleE: "lifecycle start step to"

inductive_simps lifecycle_terminal_simps:
  "lifecycle Settled step to"
  "lifecycle Released step to"
  "lifecycle InvocationState.UnknownEffect step to"
  "lifecycle InvocationState.Denied step to"

fun run_steps :: "InvocationState \<Rightarrow> Step list \<Rightarrow> (InvocationState, AuthzError) result" where
  "run_steps state [] = Ok state"
| "run_steps state (step # steps) = rbind (next_state state step) (\<lambda>s. run_steps s steps)"

section \<open>Lemmas\<close>

lemma next_state_iff: "next_state start step = Ok to \<longleftrightarrow> lifecycle start step to"
proof
  assume "next_state start step = Ok to"
  then show "lifecycle start step to"
    unfolding next_state_def next_state_option_def
    by (cases start; cases step) (auto intro: lifecycle.intros split: if_splits)
next
  assume "lifecycle start step to"
  then show "next_state start step = Ok to"
  proof cases
    case (release_intent reason)
    then show ?thesis by (cases reason) (simp_all add: next_state_def next_state_option_def)
  next
    case (release_dispatched reason)
    then show ?thesis by (cases reason) (simp_all add: next_state_def next_state_option_def)
  qed (simp_all add: next_state_def next_state_option_def)
qed

lemma next_state_Err: "next_state start step = Err e \<Longrightarrow> e = IllegalTransition start step"
  by (auto simp: next_state_def split: option.splits)

lemma terminal_final: "is_terminal state \<Longrightarrow> \<not> lifecycle state step to"
  by (cases state) (auto simp: lifecycle_terminal_simps)

lemma run_steps_append:
  "run_steps s (xs @ ys) = rbind (run_steps s xs) (\<lambda>t. run_steps t ys)"
  by (induction xs arbitrary: s) (auto simp: rbind_def split: sum.splits)

text \<open>Steps that close an invocation's reservation.\<close>

fun closes :: "Step \<Rightarrow> bool" where
  "closes Settle = True"
| "closes (Release reason) = True"
| "closes Step.MarkUnknownEffect = True"
| "closes _ = False"

definition charged :: "InvocationState \<Rightarrow> bool" where
  "charged state \<longleftrightarrow> state \<in> {Settled, Released, InvocationState.UnknownEffect}"

lemma lifecycle_closes: "lifecycle start step to \<Longrightarrow> \<not> charged start \<and> (closes step \<longleftrightarrow> charged to)"
  by (auto simp: charged_def elim!: lifecycleE)

lemma run_steps_closes:
  "run_steps s steps = Ok t \<Longrightarrow>
   length (filter closes steps) = (if charged t then 1 else 0) - (if charged s then 1 else 0)
   \<and> (charged s \<longrightarrow> steps = [] \<and> t = s)"
proof (induction steps arbitrary: s)
  case (Cons step steps)
  then obtain u where u: "lifecycle s step u" "run_steps u steps = Ok t"
    by (auto simp: rbind_Ok_iff next_state_iff)
  with Cons.IH [OF u(2)] lifecycle_closes [OF u(1)] show ?case by auto
qed simp

lemma run_steps_after_transfer:
  "run_steps s steps = Ok t \<Longrightarrow> s \<in> {TransferComplete, Published, Settled} \<Longrightarrow>
   t \<in> {TransferComplete, Published, Settled} \<and> (\<forall>reason. Release reason \<notin> set steps) \<and>
   Dispatch \<notin> set steps"
proof (induction steps arbitrary: s)
  case (Cons step steps)
  then obtain u where u: "lifecycle s step u" "run_steps u steps = Ok t"
    by (auto simp: rbind_Ok_iff next_state_iff)
  with Cons.prems(2) have "u \<in> {TransferComplete, Published, Settled}" "closes step \<longrightarrow> step = Settle"
    "step \<noteq> Dispatch"
    by (auto elim!: lifecycleE)
  with Cons.IH [OF u(2)] show ?case by auto
qed simp

lemma recovery_action_Some_iff: "recovery_action state \<noteq> None \<longleftrightarrow> is_durable state \<and> \<not> is_terminal state"
  by (cases state) auto

section \<open>Properties\<close>

text \<open>The transition function is exactly the contract's table: it returns a state if and only if the table
  has that row, and otherwise the illegal-transition error naming the state and the step; in particular
  no step leaves a terminal state.\<close>
theorem next_state_is_table:
  "(next_state start step = Ok to \<longleftrightarrow> lifecycle start step to) \<and>
   ((\<nexists>to. lifecycle start step to) \<longleftrightarrow> next_state start step = Err (IllegalTransition start step)) \<and>
   \<not> (is_terminal start \<and> lifecycle start step to)"
proof -
  have "(\<nexists>to. lifecycle start step to) \<longleftrightarrow> next_state start step = Err (IllegalTransition start step)"
    unfolding next_state_iff [symmetric] using next_state_Err [of start step]
    by (cases "next_state start step") auto
  then show ?thesis using next_state_iff terminal_final by blast
qed

text \<open>A reservation is closed exactly once: along every legal run from \<open>Planned\<close> the number of steps that
  settle, release or charge the reservation is one when the run has reached a charged state and zero
  otherwise; and once a transfer is complete no legal continuation releases the reservation or
  dispatches again.\<close>
theorem reservation_closed_once:
  assumes "run_steps Planned steps = Ok state"
  shows "length (filter closes steps) = (if charged state then 1 else 0) \<and>
    (\<forall>before after. steps = before @ CompleteTransfer # after \<longrightarrow>
       (\<forall>reason. Release reason \<notin> set after) \<and> Dispatch \<notin> set after)"
proof -
  have "\<not> charged Planned" by (simp add: charged_def)
  moreover have "(\<forall>reason. Release reason \<notin> set after) \<and> Dispatch \<notin> set after"
    if split: "steps = before @ CompleteTransfer # after" for before after
  proof -
    from assms split obtain s u where "lifecycle s CompleteTransfer u" "run_steps u after = Ok state"
      by (auto simp: run_steps_append rbind_Ok_iff next_state_iff)
    moreover from this(1) have "u = TransferComplete" by (auto elim: lifecycleE)
    ultimately show ?thesis using run_steps_after_transfer by blast
  qed
  ultimately show ?thesis using run_steps_closes [OF assms] by auto
qed

theorem reservation_closed_once_witness:
  "length (filter closes [PersistIntent, Dispatch, CompleteTransfer, Publish, Settle]) =
   (if charged Settled then 1 else 0)"
proof -
  have "run_steps Planned [PersistIntent, Dispatch, CompleteTransfer, Publish, Settle] = Ok Settled"
    by code_simp
  then show ?thesis using reservation_closed_once by blast
qed

text \<open>Recovery always completes: an action is defined exactly for the durable states that are not
  terminal, its first step is legal there, and the invocation is terminal after that step, or, for a
  completed transfer, after publishing and settling; a call that was dispatched is charged and never
  released or dispatched again.\<close>
theorem recovery_completes:
  "(recovery_action state = None \<longleftrightarrow> \<not> is_durable state \<or> is_terminal state) \<and>
   (case recovery_action state of
      None \<Rightarrow> True
    | Some RollForwardPublish \<Rightarrow> run_steps state [Publish, Settle] = Ok Settled
    | Some action \<Rightarrow> (\<exists>to. run_steps state [recovery_step action] = Ok to \<and> is_terminal to \<and>
        (to = Released \<longrightarrow> state = IntentPersisted)))"
  by (cases state) (simp_all add: next_state_def next_state_option_def)

theorem recovery_completes_witness:
  "run_steps TransferComplete [Publish, Settle] = Ok Settled"
  using recovery_completes [of TransferComplete] by simp

end
