(* ===== verification/Custody.thy ===== *)
theory Custody
  imports Wire Authorize Lifecycle
begin

text \<open>
  The custody store's data model and shared primitives (\<^verbatim>\<open>crates/phylake/src/store/records.rs\<close>,
  \<^verbatim>\<open>mod.rs\<close>, \<^verbatim>\<open>failpoint.rs\<close>, \<^verbatim>\<open>keyring.rs\<close>, \<^verbatim>\<open>view.rs\<close>, \<^verbatim>\<open>audit.rs\<close>).

  The database is a record with one map per keyspace, keyed by the logical identifiers that the
  source hashes into its physical record keys.  A store-sealed value is its record; a tenant-sealed
  value carries the id of the data key it is sealed under, and opens exactly under a key list that
  contains that id, as \<open>crypto::open\<close> selects its key.  The two keyspaces that are scanned in key
  order, \<open>audit_stub\<close> and a tenant's \<open>audit\<close> partition, are association lists in ascending
  sequence order.

  A transaction computes a new database from the one it started on and ends by abandoning it or by
  committing it at a boundary, where a failpoint may crash the process before or after the commit.
  What lies outside the crate (the clock, failpoints, SHA-256, the keyed blob address) is the
  environment record \<open>Env\<close>; the clock reads the same instant throughout one transaction.
\<close>

section \<open>Definitions\<close>

subsection \<open>Errors, boundaries and the environment\<close>

datatype Boundary =
    PersistIntent | Dispatch | CompleteTransfer | Publish | Terminal
  | RekeyBegin | RekeyBatch | RekeyRetire | RootRotation

datatype Phase = BeforeCommit | AfterCommit

datatype StoreError =
    RootKeyMissing
  | RootKeyIo
  | RootKeySymlink
  | RootKeyOwner u32 u32
  | RootKeyNotFile
  | RootKeyPermissions u32
  | RootKeyLength u64
  | RootKeyExists
  | Entropy
  | KeyMaterial string
  | PlaintextTooLarge nat nat
  | AadComponentTooLong string nat
  | StoreMalformed string nat
  | UnsupportedRecordVersion u16
  | UnknownKeyId u32
  | StoreOpen string
  | TenantKeyUnwrap
  | StoreLocked
  | StoreDatabase
  | StoreIo
  | StoreExists
  | StoreMissing string
  | MetaMalformed string
  | SchemaTooNew u32 u32
  | MigrationRequired u32 u32
  | StoreEncode
  | StoreDecode string
  | Inconsistent string
  | Authz AuthzError
  | SettleMismatch InvocationState
  | InvocationMissing InvocationId
  | TenantMissing TenantId
  | TenantShredded TenantId
  | TenantBusy TenantId
  | RekeyInProgress TenantId
  | RekeyNotInProgress TenantId
  | StorePathUnnamed
  | StoreInUse
  | ExchangeUnsupported
  | Conflict string
  | InjectedCrash Boundary Phase

record Env =
  env_now :: Timestamp
  env_crash :: "Phase \<Rightarrow> Boundary \<Rightarrow> bool"
  env_sha256 :: "u8 list \<Rightarrow> u8 list"
  env_blob_address :: "TenantId \<Rightarrow> u8 list \<Rightarrow> u8 list"

definition MAX_PLAINTEXT_LEN :: nat where
  "MAX_PLAINTEXT_LEN = 64 * 1024 * 1024"

definition INITIAL_DATA_KEY_ID :: u32 where "INITIAL_DATA_KEY_ID = 1"

subsection \<open>Stored records\<close>

datatype Terminal = Settled "Failure option" | Released ReleaseReason | UnknownEffect

primrec terminal_state :: "Terminal \<Rightarrow> InvocationState" where
  "terminal_state (Terminal.Settled failure) = InvocationState.Settled"
| "terminal_state (Terminal.Released reason) = InvocationState.Released"
| "terminal_state Terminal.UnknownEffect = InvocationState.UnknownEffect"

primrec terminal_release_reason :: "Terminal \<Rightarrow> ReleaseReason option" where
  "terminal_release_reason (Terminal.Settled failure) = None"
| "terminal_release_reason (Terminal.Released reason) = Some reason"
| "terminal_release_reason Terminal.UnknownEffect = None"

fun release_reply :: "ReleaseReason \<Rightarrow> Failure" where
  "release_reply Revoked = failure_denied DenyCode.GrantRevoked"
| "release_reply Expired = failure_denied GrantExpired"
| "release_reply ReleaseReason.ProducerUnavailable = Failure.ProducerUnavailable"
| "release_reply ReleaseReason.DeadlineExceeded = Failure.DeadlineExceeded"
| "release_reply _ = Failure.Cancelled"

primrec reply_failure :: "Terminal \<Rightarrow> Failure option" where
  "reply_failure (Terminal.Settled failure) = failure"
| "reply_failure (Terminal.Released reason) = Some (release_reply reason)"
| "reply_failure Terminal.UnknownEffect = Some Failure.UnknownEffect"

definition terminal_outcome :: "Terminal \<Rightarrow> OutcomeKind" where
  "terminal_outcome terminal =
     (case reply_failure terminal of Some failure \<Rightarrow> failure_kind failure | None \<Rightarrow> Success)"

record TenantRecord =
  tr_id :: TenantId
  tr_class :: TenantClass
  tr_verifying_key :: "u8 list"
  tr_bound_uids :: "u32 list"
  tr_parent :: "TenantId option"
  tr_ceilings :: Ceilings
  tr_data_key_id :: u32
  tr_registered_at :: Timestamp

record GrantRecord =
  gr_id :: GrantId
  gr_issuer :: TenantId
  gr_holder :: TenantId
  gr_capabilities :: "Capability list"
  gr_session_scope :: SessionScope
  gr_target_patterns :: "string list"
  gr_audit_scope :: AuditScope
  gr_ceilings :: Ceilings
  gr_not_before :: Timestamp
  gr_expires_at :: Timestamp
  gr_parent :: "GrantId option"
  gr_depth :: u8
  gr_max_depth :: u8

definition grant_record_from :: "Grant \<Rightarrow> string list \<Rightarrow> GrantRecord" where
  "grant_record_from g patterns =
     \<lparr>gr_id = g_id g, gr_issuer = g_issuer g, gr_holder = g_holder g,
      gr_capabilities = filter (\<lambda>c. c \<in> g_capabilities g) Capability_ALL,
      gr_session_scope = g_session_scope g, gr_target_patterns = patterns,
      gr_audit_scope = g_audit_scope g, gr_ceilings = g_ceilings g,
      gr_not_before = g_not_before g, gr_expires_at = g_expires_at g,
      gr_parent = g_parent g, gr_depth = g_depth g, gr_max_depth = g_max_depth g\<rparr>"

definition record_to_grant :: "GrantRecord \<Rightarrow> (Grant, StoreError) result" where
  "record_to_grant r =
     rbind (map_err (\<lambda>e. Authz (OriginFault e)) (target_scope_parse (gr_target_patterns r))) (\<lambda>scope.
       Ok \<lparr>g_id = gr_id r, g_issuer = gr_issuer r, g_holder = gr_holder r,
           g_capabilities = set (gr_capabilities r), g_session_scope = gr_session_scope r,
           g_target_scope = scope, g_audit_scope = gr_audit_scope r, g_ceilings = gr_ceilings r,
           g_not_before = gr_not_before r, g_expires_at = gr_expires_at r,
           g_parent = gr_parent r, g_depth = gr_depth r, g_max_depth = gr_max_depth r\<rparr>)"

record RevocationRecord =
  rr_grant :: GrantId
  rr_at_seq :: AuditSeq
  rr_at_time :: Timestamp
  rr_by :: TenantId

definition to_revocation :: "RevocationRecord \<Rightarrow> Revocation" where
  "to_revocation r = \<lparr>rev_grant = rr_grant r, rev_at_seq = rr_at_seq r, rev_at_time = rr_at_time r\<rparr>"

record SessionRecord =
  sr_id :: SessionId
  sr_owner :: TenantId
  sr_parent :: "SessionId option"
  sr_ceilings :: Ceilings
  sr_created_at :: Timestamp

text \<open>\<open>LedgerRef\<close> has the same three kinds as \<open>LedgerId\<close>, which stands for both.\<close>

record InvocationRecord =
  inv_id :: InvocationId
  inv_tenant :: TenantId
  inv_capability :: Capability
  inv_session :: "SessionId option"
  inv_grant_chain :: "GrantId list"
  inv_ledgers :: "LedgerId list"
  inv_reserved :: Cost
  inv_state :: InvocationState
  inv_terminal :: "Terminal option"
  inv_actual :: "Cost option"
  inv_debited :: "Cost option"
  inv_artifact :: "ArtifactRef option"
  inv_revoked_after_effect :: bool
  inv_created_at :: Timestamp
  inv_updated_at :: Timestamp

record IdemRecord =
  idem_invocation :: InvocationId
  idem_request_binding :: "u8 list"

record ArtifactRecord =
  art_artifact :: ArtifactRef
  art_invocation :: InvocationId
  art_tenant :: TenantId
  art_session :: "SessionId option"
  art_grant_chain :: "GrantId list"
  art_reservation :: InvocationId
  art_classification :: "string option"
  art_lineage :: "ArtifactRef option"
  art_provenance_digest :: "u8 list"
  art_blob_address :: "u8 list"
  art_blob_len :: u64
  art_source :: SourceRef
  art_text_view :: "string option"
  art_truncated :: bool
  art_output_bytes :: u64
  art_revoked_after_effect :: bool
  art_published_at :: "Timestamp option"

record LocatorRecord =
  loc_artifact :: ArtifactRef
  loc_owner :: TenantId
  loc_session :: "SessionId option"

record SessionIndexRecord =
  six_artifact :: ArtifactRef
  six_captured_by :: TenantId
  six_published_at :: Timestamp

record AuditEntryRecord =
  aer_seq :: AuditSeq
  aer_time :: Timestamp
  aer_tenant :: TenantId
  aer_session :: "SessionId option"
  aer_invocation :: InvocationId
  aer_capability :: Capability
  aer_state :: InvocationState
  aer_outcome :: OutcomeKind
  aer_release_reason :: "ReleaseReason option"
  aer_grant :: "GrantId option"
  aer_audit_scope :: "AuditScope option"

record AuditStubRecord =
  stub_seq :: AuditSeq
  stub_invocation :: InvocationId
  stub_capability :: Capability
  stub_outcome :: OutcomeKind
  stub_time :: Timestamp

record RekeyRecord =
  rk_tenant :: TenantId
  rk_from_key_id :: u32
  rk_to_key_id :: u32
  rk_keyspace :: u8
  rk_cursor :: "u8 list option"
  rk_visited :: u64
  rk_resealed :: u64
  rk_total :: u64
  rk_done :: bool
  rk_started_at :: Timestamp
  rk_finished_at :: "Timestamp option"

record TombstoneRecord =
  tomb_tenant :: TenantId
  tomb_shredded_at :: Timestamp

subsection \<open>The database\<close>

record 'a Sealed =
  sealed_key :: u32
  sealed_value :: 'a

record Db =
  db_tenants :: "TenantId \<Rightarrow> TenantRecord option"
  db_tombstones :: "TenantId \<Rightarrow> TombstoneRecord option"
  db_data_keys :: "(TenantId \<times> u32) set"
  db_address_keys :: "TenantId set"
  db_rekey :: "TenantId \<Rightarrow> RekeyRecord option"
  db_grants :: "GrantId \<Rightarrow> GrantRecord option"
  db_revocations :: "GrantId \<Rightarrow> RevocationRecord option"
  db_sessions :: "SessionId \<Rightarrow> SessionRecord option"
  db_invocations :: "InvocationId \<Rightarrow> InvocationRecord option"
  db_idem :: "TenantId \<times> Capability \<times> IdempotencyKey \<Rightarrow> IdemRecord Sealed option"
  db_ledgers :: "LedgerId \<Rightarrow> Cost option"
  db_pending :: "TenantId \<times> InvocationId \<Rightarrow> ArtifactRecord Sealed option"
  db_artifacts :: "TenantId \<times> ArtifactRef \<Rightarrow> ArtifactRecord Sealed option"
  db_locators :: "ArtifactRef \<Rightarrow> LocatorRecord option"
  db_blobs :: "TenantId \<times> u8 list \<Rightarrow> u8 list Sealed option"
  db_session_index :: "TenantId \<times> SessionId \<times> ArtifactRef \<Rightarrow> SessionIndexRecord Sealed option"
  db_audit :: "TenantId \<Rightarrow> (u64 \<times> AuditEntryRecord Sealed) list"
  db_audit_stub :: "(u64 \<times> AuditStubRecord) list"

definition empty_db :: Db where
  "empty_db = \<lparr>db_tenants = (\<lambda>_. None), db_tombstones = (\<lambda>_. None), db_data_keys = {},
     db_address_keys = {}, db_rekey = (\<lambda>_. None), db_grants = (\<lambda>_. None),
     db_revocations = (\<lambda>_. None), db_sessions = (\<lambda>_. None), db_invocations = (\<lambda>_. None),
     db_idem = (\<lambda>_. None), db_ledgers = (\<lambda>_. None), db_pending = (\<lambda>_. None),
     db_artifacts = (\<lambda>_. None), db_locators = (\<lambda>_. None), db_blobs = (\<lambda>_. None),
     db_session_index = (\<lambda>_. None), db_audit = (\<lambda>_. []), db_audit_stub = []\<rparr>"

text \<open>Insertion into an ordered keyspace: replaces an equal key, keeps the keys ascending.\<close>

fun kv_insert :: "'k::linorder \<Rightarrow> 'v \<Rightarrow> ('k \<times> 'v) list \<Rightarrow> ('k \<times> 'v) list" where
  "kv_insert k v [] = [(k, v)]"
| "kv_insert k v ((k', v') # kvs) =
     (if k < k' then (k, v) # (k', v') # kvs
      else if k = k' then (k, v) # kvs
      else (k', v') # kv_insert k v kvs)"

definition open_sealed :: "u32 list \<Rightarrow> 'a Sealed \<Rightarrow> ('a, StoreError) result" where
  "open_sealed keys s =
     (if sealed_key s \<in> set keys then Ok (sealed_value s) else Err (UnknownKeyId (sealed_key s)))"

subsection \<open>Transactions\<close>

datatype 'a TxEnd = Abandon 'a | Commit "Boundary option" 'a Db

definition commit :: "Env \<Rightarrow> Boundary option \<Rightarrow> Db \<Rightarrow> Db \<Rightarrow> 'a \<Rightarrow> Db \<times> ('a, StoreError) result" where
  "commit env boundary db tx value =
     (case boundary of
        None \<Rightarrow> (tx, Ok value)
      | Some b \<Rightarrow>
          if env_crash env BeforeCommit b then (db, Err (InjectedCrash b BeforeCommit))
          else if env_crash env AfterCommit b then (tx, Err (InjectedCrash b AfterCommit))
          else (tx, Ok value))"

definition end_tx :: "Env \<Rightarrow> Db \<Rightarrow> ('a TxEnd, StoreError) result \<Rightarrow> Db \<times> ('a, StoreError) result" where
  "end_tx env db r =
     (case r of
        Err e \<Rightarrow> (db, Err e)
      | Ok (Abandon value) \<Rightarrow> (db, Ok value)
      | Ok (Commit boundary value tx) \<Rightarrow> commit env boundary db tx value)"

subsection \<open>Keyrings\<close>

record Keyring =
  kr_active :: u32
  kr_retiring :: "u32 option"

definition meta_openers :: "Keyring \<Rightarrow> u32 list" where
  "meta_openers keys =
     [kr_active keys, (case kr_retiring keys of Some r \<Rightarrow> r | None \<Rightarrow> kr_active keys)]"

definition key_ids :: "Db \<Rightarrow> TenantId \<Rightarrow> (u32 \<times> u32 option) option" where
  "key_ids db tenant =
     (case db_tenants db tenant of
        None \<Rightarrow> None
      | Some r \<Rightarrow> Some (tr_data_key_id r,
          (case db_rekey db tenant of
             Some rekey \<Rightarrow> if rk_done rekey then None else Some (rk_from_key_id rekey)
           | None \<Rightarrow> None)))"

definition absent_tenant :: "Db \<Rightarrow> TenantId \<Rightarrow> StoreError" where
  "absent_tenant db tenant =
     (case db_tombstones db tenant of Some _ \<Rightarrow> TenantShredded tenant | None \<Rightarrow> TenantMissing tenant)"

definition load_keyring :: "Db \<Rightarrow> TenantId \<Rightarrow> u32 \<Rightarrow> u32 option \<Rightarrow> (Keyring, StoreError) result" where
  "load_keyring db tenant active retiring =
     ensure ((tenant, active) \<in> db_data_keys db) (Inconsistent ''tenant data key is missing'')
     (ensure (tenant \<in> db_address_keys db \<or> active = INITIAL_DATA_KEY_ID)
        (Inconsistent ''rotated tenant has no addressing subkeys'')
     (ensure (case retiring of None \<Rightarrow> True | Some r \<Rightarrow> (tenant, r) \<in> db_data_keys db)
        (Inconsistent ''retiring tenant data key is missing'')
     (Ok \<lparr>kr_active = active, kr_retiring = retiring\<rparr>)))"

definition tenant_keys :: "Db \<Rightarrow> TenantId \<Rightarrow> (Keyring, StoreError) result" where
  "tenant_keys db tenant =
     (case key_ids db tenant of
        None \<Rightarrow> Err (absent_tenant db tenant)
      | Some (active, retiring) \<Rightarrow> load_keyring db tenant active retiring)"

definition live_tenant_keys :: "Db \<Rightarrow> TenantId \<Rightarrow> (Keyring option, StoreError) result" where
  "live_tenant_keys db tenant =
     (case tenant_keys db tenant of
        Ok keys \<Rightarrow> Ok (Some keys)
      | Err (TenantShredded _) \<Rightarrow> Ok None
      | Err e \<Rightarrow> Err e)"

subsection \<open>The view over the database\<close>

definition ledger_used :: "Db \<Rightarrow> LedgerId \<Rightarrow> Cost" where
  "ledger_used db ledger = (case db_ledgers db ledger of Some used \<Rightarrow> used | None \<Rightarrow> cost_default)"

definition store_view :: "Db \<Rightarrow> Snapshot" where
  "store_view db = \<lparr>
     view_grant = (\<lambda>i. case db_grants db i of
         None \<Rightarrow> Ok None
       | Some r \<Rightarrow> map_err (\<lambda>_. ViewError ''authorization rule refused the operation'')
           (rbind (record_to_grant r) (\<lambda>g. Ok (Some g)))),
     view_revocation = (\<lambda>i. Ok (map_option to_revocation (db_revocations db i))),
     view_session_owner = (\<lambda>i. Ok (map_option sr_owner (db_sessions db i))),
     view_tenant_parent = (\<lambda>i. Ok (case db_tenants db i of Some r \<Rightarrow> tr_parent r | None \<Rightarrow> None)),
     view_used = (\<lambda>i. Ok (ledger_used db i)),
     view_session_ceilings = (\<lambda>i. Ok
       (case db_sessions db i of Some r \<Rightarrow> sr_ceilings r | None \<Rightarrow> ceilings_default)),
     view_tenant_ceilings = (\<lambda>i. Ok
       (case db_tenants db i of Some r \<Rightarrow> tr_ceilings r | None \<Rightarrow> ceilings_default))\<rparr>"

subsection \<open>Audit\<close>

record AuditEntry =
  ae_tenant :: TenantId
  ae_session :: "SessionId option"
  ae_invocation :: InvocationId
  ae_capability :: Capability
  ae_state :: InvocationState
  ae_outcome :: OutcomeKind
  ae_release_reason :: "ReleaseReason option"
  ae_grant :: "GrantId option"
  ae_audit_scope :: "AuditScope option"

definition audit_entry_new :: "TenantId \<Rightarrow> InvocationId \<Rightarrow> Capability \<Rightarrow> InvocationState \<Rightarrow> OutcomeKind \<Rightarrow>
    AuditEntry" where
  "audit_entry_new tenant invocation capability state outcome =
     \<lparr>ae_tenant = tenant, ae_session = None, ae_invocation = invocation, ae_capability = capability,
      ae_state = state, ae_outcome = outcome, ae_release_reason = None, ae_grant = None,
      ae_audit_scope = None\<rparr>"

definition audit_entry_terminal :: "TenantId \<Rightarrow> InvocationId \<Rightarrow> Capability \<Rightarrow> Terminal \<Rightarrow> AuditEntry" where
  "audit_entry_terminal tenant invocation capability terminal =
     (audit_entry_new tenant invocation capability (terminal_state terminal)
        (terminal_outcome terminal))\<lparr>ae_release_reason := terminal_release_reason terminal\<rparr>"

definition next_audit_seq :: "Db \<Rightarrow> (u64, StoreError) result" where
  "next_audit_seq db =
     (let last_seq = (if db_audit_stub db = [] then 0 else fst (last (db_audit_stub db))) in
      ok_or (checked_add last_seq 1) (Inconsistent ''audit sequence is exhausted''))"

definition append_audit :: "Env \<Rightarrow> Db \<Rightarrow> AuditEntry \<Rightarrow> (AuditSeq \<times> Db, StoreError) result" where
  "append_audit env db entry =
     rbind (next_audit_seq db) (\<lambda>seq.
     let stub = \<lparr>stub_seq = AuditSeq seq, stub_invocation = ae_invocation entry,
           stub_capability = ae_capability entry, stub_outcome = ae_outcome entry,
           stub_time = env_now env\<rparr>;
         db1 = db\<lparr>db_audit_stub := kv_insert seq stub (db_audit_stub db)\<rparr> in
     rbind (tenant_keys db1 (ae_tenant entry)) (\<lambda>keys.
     let value = \<lparr>aer_seq = AuditSeq seq, aer_time = env_now env, aer_tenant = ae_tenant entry,
           aer_session = ae_session entry, aer_invocation = ae_invocation entry,
           aer_capability = ae_capability entry, aer_state = ae_state entry,
           aer_outcome = ae_outcome entry, aer_release_reason = ae_release_reason entry,
           aer_grant = ae_grant entry, aer_audit_scope = ae_audit_scope entry\<rparr>;
         part = kv_insert seq \<lparr>sealed_key = kr_active keys, sealed_value = value\<rparr>
           (db_audit db1 (ae_tenant entry)) in
     Ok (AuditSeq seq, db1\<lparr>db_audit := (db_audit db1)(ae_tenant entry := part)\<rparr>)))"

section \<open>Transactional operations\<close>

text \<open>
  The contract every mutating operation of the store shares: its body computes one transaction, blind
  to failpoints, and the operation is that transaction's end.  \<open>crash_atomic\<close> is what a caller gets
  from it: an injected crash leaves the database as it was, or as the undisturbed operation leaves it.
\<close>

definition no_crash :: "Env \<Rightarrow> Env" where
  "no_crash env = env\<lparr>env_crash := \<lambda>_ _. False\<rparr>"

definition crash_atomic :: "(Env \<Rightarrow> Db \<Rightarrow> Db \<times> ('a, StoreError) result) \<Rightarrow> Env \<Rightarrow> Db \<Rightarrow> bool" where
  "crash_atomic op env db \<longleftrightarrow>
     (case snd (op env db) of
        Err (InjectedCrash b BeforeCommit) \<Rightarrow> fst (op env db) = db
      | Err (InjectedCrash b AfterCommit) \<Rightarrow> fst (op env db) = fst (op (no_crash env) db)
      | Err e \<Rightarrow> fst (op env db) = db \<and> op (no_crash env) db = op env db
      | Ok v \<Rightarrow> op (no_crash env) db = op env db)"

locale transactional =
  fixes op :: "Env \<Rightarrow> Db \<Rightarrow> Db \<times> ('a, StoreError) result"
    and body :: "Env \<Rightarrow> Db \<Rightarrow> ('a TxEnd, StoreError) result"
  assumes runs: "op env db = end_tx env db (body env db)"
    and blind: "body (env\<lparr>env_crash := c\<rparr>) db = body env db"
begin

lemma atomic: "crash_atomic op env db"
  using runs [of env db] runs [of "no_crash env" db] blind [of "\<lambda>_ _. False" env db]
  by (auto simp: crash_atomic_def no_crash_def end_tx_def commit_def
      split: sum.split TxEnd.split option.split StoreError.split Phase.split)

lemma succeeds_without_crash:
  "body env db = Ok (Commit b v tx) \<Longrightarrow> op (no_crash env) db = (tx, Ok v)"
  using runs [of "no_crash env" db] blind [of "\<lambda>_ _. False" env db]
  by (simp add: no_crash_def end_tx_def commit_def split: option.split)

end

lemma append_audit_blind [simp]: "append_audit (env\<lparr>env_crash := c\<rparr>) = append_audit env"
  by (simp add: append_audit_def fun_eq_iff)

text \<open>A tenant's keyring depends on its own directory entries only.\<close>

lemma tenant_keys_cong:
  "db_tenants db' t = db_tenants db t \<Longrightarrow> db_tombstones db' t = db_tombstones db t \<Longrightarrow>
   db_rekey db' t = db_rekey db t \<Longrightarrow> (\<And>k. (t, k) \<in> db_data_keys db' \<longleftrightarrow> (t, k) \<in> db_data_keys db) \<Longrightarrow>
   (t \<in> db_address_keys db' \<longleftrightarrow> t \<in> db_address_keys db) \<Longrightarrow> tenant_keys db' t = tenant_keys db t"
  by (simp add: tenant_keys_def key_ids_def absent_tenant_def load_keyring_def split: option.split)

section \<open>The store as a ledger table\<close>

text \<open>What the store knows of each ledger; \<open>ledger_used\<close> is what the ledger holds.\<close>

definition ledger_known :: "Db \<Rightarrow> LedgerId \<Rightarrow> bool" where
  "ledger_known db l =
     (case l of
        LedgerGrant g \<Rightarrow> db_grants db g \<noteq> None
      | LedgerSession s \<Rightarrow> db_sessions db s \<noteq> None
      | LedgerTenant t \<Rightarrow> db_tenants db t \<noteq> None \<or> db_tombstones db t \<noteq> None)"

definition ledger_limits :: "Db \<Rightarrow> LedgerId \<Rightarrow> Ceilings" where
  "ledger_limits db l =
     (case l of
        LedgerGrant g \<Rightarrow> (case db_grants db g of Some r \<Rightarrow> gr_ceilings r | None \<Rightarrow> ceilings_default)
      | LedgerSession s \<Rightarrow> (case db_sessions db s of Some r \<Rightarrow> sr_ceilings r | None \<Rightarrow> ceilings_default)
      | LedgerTenant t \<Rightarrow> (case db_tenants db t of Some r \<Rightarrow> tr_ceilings r | None \<Rightarrow> ceilings_default))"

lemma record_to_grant_fields:
  "record_to_grant r = Ok g \<Longrightarrow> g_id g = gr_id r \<and> g_ceilings g = gr_ceilings r"
  by (auto simp: record_to_grant_def rbind_Ok_iff)

interpretation store_table: ledger_table store_view ledger_used ledger_limits ledger_known
proof unfold_locales
  fix s i g
  assume "view_grant (store_view s) i = Ok (Some g)"
  then obtain r where "db_grants s i = Some r" "record_to_grant r = Ok g"
    by (auto simp: store_view_def map_err_Ok_iff rbind_Ok_iff split: option.splits)
  then show "ledger_limits s (LedgerGrant i) = g_ceilings g \<and> ledger_known s (LedgerGrant i)"
    by (auto simp: ledger_limits_def ledger_known_def dest: record_to_grant_fields)
qed (auto simp: store_view_def ledger_limits_def ledger_known_def)

end
