(* ===== verification/Invocations.thy ===== *)
theory Invocations
  imports Custody
begin

text \<open>
  The invocation lifecycle in the store: intent (B1) with its idempotency index, the dry-run plan,
  the transitions B2 to B5, and restart recovery (\<^verbatim>\<open>crates/phylake/src/store/invocation.rs\<close>,
  \<^verbatim>\<open>transition.rs\<close>, \<^verbatim>\<open>recovery.rs\<close>).

  Every operation maps the environment, its arguments and the database to the database afterwards
  and its result.  The scan of the invocation keyspace visits its records in the order of their
  hashed keys, which is the argument \<open>scan\<close>.
\<close>

section \<open>Definitions\<close>

subsection \<open>Intents and statuses\<close>

record Intent =
  int_invocation :: InvocationId
  int_authz :: AuthzRequest
  int_idempotency_key :: IdempotencyKey
  int_request_digest :: "u8 list"

record InvocationStatus =
  st_id :: InvocationId
  st_tenant :: TenantId
  st_capability :: Capability
  st_session :: "SessionId option"
  st_state :: InvocationState
  st_terminal :: "Terminal option"
  st_artifact :: "ArtifactRef option"
  st_reserved :: Cost
  st_debited :: "Cost option"
  st_grant_chain :: "GrantId list"
  st_revoked_after_effect :: bool

definition status_of :: "InvocationRecord \<Rightarrow> InvocationStatus" where
  "status_of r =
     \<lparr>st_id = inv_id r, st_tenant = inv_tenant r, st_capability = inv_capability r,
      st_session = inv_session r, st_state = inv_state r, st_terminal = inv_terminal r,
      st_artifact = inv_artifact r, st_reserved = inv_reserved r, st_debited = inv_debited r,
      st_grant_chain = inv_grant_chain r, st_revoked_after_effect = inv_revoked_after_effect r\<rparr>"

datatype Begin =
    Persisted InvocationStatus
  | Replayed InvocationStatus
  | BeginConflict
  | Refused Failure AuditSeq

record Transfer =
  tf_envelope :: "u8 list"
  tf_source :: SourceRef
  tf_text_view :: "string option"
  tf_truncated :: bool
  tf_output_bytes :: u64
  tf_actual :: Cost
  tf_revoked_after_effect :: bool

primrec artifact_ref :: "InvocationId \<Rightarrow> ArtifactRef" where
  "artifact_ref (InvocationId i) = ArtifactRef i"

datatype SettleOutcome = SettleSuccess | SettleFailed Failure Cost

subsection \<open>The request binding\<close>

definition bytes_of :: "string \<Rightarrow> u8 list" where
  "bytes_of s = map of_char s"

definition length_prefixed :: "u8 list \<Rightarrow> u8 list" where
  "length_prefixed bytes =
     to_le_bytes 8 (if length bytes < 2 ^ 64 then of_nat (length bytes) else - 1 :: u64) @ bytes"

primrec grant_to_bytes :: "GrantId \<Rightarrow> u8 list" where
  "grant_to_bytes (GrantId i) = id_to_bytes i"

primrec session_to_bytes :: "SessionId \<Rightarrow> u8 list" where
  "session_to_bytes (SessionId i) = id_to_bytes i"

definition binding_input :: "Intent \<Rightarrow> u8 list" where
  "binding_input intent =
     (let authz = int_authz intent in
      bytes_of ''dioptron/v1/idem-binding'' @ int_request_digest intent @
      grant_to_bytes (az_grant authz) @
      length_prefixed (bytes_of (Capability_name (az_capability authz))) @
      (case az_session authz of Some session \<Rightarrow> 1 # session_to_bytes session | None \<Rightarrow> [0]) @
      (case az_target authz of Some target \<Rightarrow> 1 # length_prefixed (bytes_of target) | None \<Rightarrow> [0]))"

definition request_binding :: "Env \<Rightarrow> Intent \<Rightarrow> u8 list" where
  "request_binding env intent = env_sha256 env (binding_input intent)"

subsection \<open>Reads\<close>

definition invocation :: "Db \<Rightarrow> InvocationId \<Rightarrow> InvocationStatus option" where
  "invocation db i = map_option status_of (db_invocations db i)"

definition existing_invocation :: "Db \<Rightarrow> InvocationId \<Rightarrow> (InvocationRecord, StoreError) result" where
  "existing_invocation db i = ok_or (db_invocations db i) (InvocationMissing i)"

definition store_plan :: "Env \<Rightarrow> AuthzRequest \<Rightarrow> Db \<Rightarrow> (Plan, StoreError) result" where
  "store_plan env request db = map_err Authz (plan_call (store_view db) request (env_now env))"

definition session_owner_shredded :: "Db \<Rightarrow> SessionId option \<Rightarrow> bool" where
  "session_owner_shredded db session =
     (case session of
        None \<Rightarrow> False
      | Some s \<Rightarrow> (case db_sessions db s of
            Some r \<Rightarrow> db_tombstones db (sr_owner r) \<noteq> None
          | None \<Rightarrow> False))"

subsection \<open>B1\<close>

definition put_ledger :: "Db \<Rightarrow> LedgerId \<Rightarrow> Cost \<Rightarrow> Db" where
  "put_ledger db ledger used = db\<lparr>db_ledgers := (db_ledgers db)(ledger := Some used)\<rparr>"

definition put_invocation :: "Db \<Rightarrow> InvocationRecord \<Rightarrow> Db" where
  "put_invocation db r = db\<lparr>db_invocations := (db_invocations db)(inv_id r := Some r)\<rparr>"

fun debit_ledgers :: "Db \<Rightarrow> (LedgerId \<times> Cost) list \<Rightarrow> (Db, StoreError) result" where
  "debit_ledgers db [] = Ok db"
| "debit_ledgers db ((ledger, amount) # rest) =
     rbind (map_err Authz (reserve (ledger_used db ledger) amount)) (\<lambda>used.
       debit_ledgers (put_ledger db ledger used) rest)"

definition intent_record :: "Env \<Rightarrow> Intent \<Rightarrow> GrantId list \<Rightarrow> ReservationPlan \<Rightarrow> InvocationRecord" where
  "intent_record env intent chain reservation =
     \<lparr>inv_id = int_invocation intent, inv_tenant = az_tenant (int_authz intent),
      inv_capability = az_capability (int_authz intent), inv_session = az_session (int_authz intent),
      inv_grant_chain = chain, inv_ledgers = rp_ledgers reservation,
      inv_reserved = rp_cost reservation, inv_state = IntentPersisted, inv_terminal = None,
      inv_actual = None, inv_debited = None, inv_artifact = None,
      inv_revoked_after_effect = False, inv_created_at = env_now env, inv_updated_at = env_now env\<rparr>"

definition replay :: "Env \<Rightarrow> Db \<Rightarrow> Intent \<Rightarrow> IdemRecord \<Rightarrow> (Begin, StoreError) result" where
  "replay env db intent idem =
     (if idem_request_binding idem \<noteq> request_binding env intent then Ok BeginConflict
      else rbind (ok_or (db_invocations db (idem_invocation idem))
          (Inconsistent ''idempotency entry names a missing invocation'')) (\<lambda>r.
        Ok (Replayed (status_of r))))"

definition refuse :: "Env \<Rightarrow> Db \<Rightarrow> Intent \<Rightarrow> Failure \<Rightarrow> (Begin TxEnd, StoreError) result" where
  "refuse env db intent failure =
     (let entry = (audit_entry_new (az_tenant (int_authz intent)) (int_invocation intent)
           (az_capability (int_authz intent)) InvocationState.Denied (failure_kind failure))
           \<lparr>ae_session := az_session (int_authz intent), ae_grant := Some (az_grant (int_authz intent))\<rparr> in
      rbind (append_audit env db entry) (\<lambda>(seq, tx). Ok (Commit None (Refused failure seq) tx)))"

definition persist :: "Env \<Rightarrow> Db \<Rightarrow> Intent \<Rightarrow> Keyring \<Rightarrow> GrantId list \<Rightarrow> ReservationPlan \<Rightarrow>
    (Begin TxEnd, StoreError) result" where
  "persist env db intent keys chain reservation =
     rbind (debit_ledgers db (debits reservation)) (\<lambda>tx.
     let r = intent_record env intent chain reservation;
         tx1 = put_invocation tx r;
         slot = (az_tenant (int_authz intent), az_capability (int_authz intent), int_idempotency_key intent);
         idem = \<lparr>idem_invocation = int_invocation intent, idem_request_binding = request_binding env intent\<rparr>;
         tx2 = tx1\<lparr>db_idem := (db_idem tx1)(slot := Some \<lparr>sealed_key = kr_active keys, sealed_value = idem\<rparr>)\<rparr> in
     Ok (Commit (Some Boundary.PersistIntent) (Persisted (status_of r)) tx2))"

definition begin_tx :: "Env \<Rightarrow> Intent \<Rightarrow> Db \<Rightarrow> (Begin TxEnd, StoreError) result" where
  "begin_tx env intent db =
     (let authz = int_authz intent; tenant = az_tenant authz in
      rbind (tenant_keys db tenant) (\<lambda>keys.
      (case db_idem db (tenant, az_capability authz, int_idempotency_key intent) of
         Some sealed \<Rightarrow>
           rbind (open_sealed (meta_openers keys) sealed) (\<lambda>idem.
           rbind (replay env db intent idem) (\<lambda>reply. Ok (Abandon reply)))
       | None \<Rightarrow>
           ensure (db_invocations db (int_invocation intent) = None) (Conflict ''invocation'')
           (rbind (map_err Authz (authorize (store_view db) authz (env_now env))) (\<lambda>decision.
              case decision of
                Allowed chain reservation \<Rightarrow>
                  if session_owner_shredded db (az_session authz)
                  then refuse env db intent Failure.NotFoundOrDenied
                  else persist env db intent keys chain reservation
              | _ \<Rightarrow> refuse env db intent
                  (case decision_refusal decision of
                     Some failure \<Rightarrow> failure | None \<Rightarrow> Failure.NotFoundOrDenied))))))"

definition begin_invocation :: "Env \<Rightarrow> Intent \<Rightarrow> Db \<Rightarrow> Db \<times> (Begin, StoreError) result" where
  "begin_invocation env intent db = end_tx env db (begin_tx env intent db)"

subsection \<open>B2 to B5\<close>

definition record_terminal :: "Env \<Rightarrow> Db \<Rightarrow> InvocationRecord \<Rightarrow> (Db, StoreError) result" where
  "record_terminal env db r =
     (if is_terminal (inv_state r)
      then rbind (ok_or (case inv_terminal r of
              Some t \<Rightarrow> if terminal_state t = inv_state r then Some t else None
            | None \<Rightarrow> None)
          (Inconsistent ''terminal state without a matching terminal record'')) (\<lambda>terminal.
        let entry = (audit_entry_terminal (inv_tenant r) (inv_id r) (inv_capability r) terminal)
              \<lparr>ae_session := inv_session r,
               ae_grant := (case inv_grant_chain r of [] \<Rightarrow> None | g # _ \<Rightarrow> Some g)\<rparr> in
        rbind (append_audit env db entry) (\<lambda>(seq, tx). Ok tx))
      else Ok db)"

definition transition_tx :: "Env \<Rightarrow> InvocationId \<Rightarrow> Step \<Rightarrow> Boundary \<Rightarrow>
    (Db \<Rightarrow> InvocationRecord \<Rightarrow> (InvocationRecord \<times> Db, StoreError) result) \<Rightarrow> Db \<Rightarrow>
    (InvocationStatus TxEnd, StoreError) result" where
  "transition_tx env i step boundary apply_step db =
     rbind (existing_invocation db i) (\<lambda>r.
     rbind (map_err Authz (next_state (inv_state r) step)) (\<lambda>next.
     rbind (apply_step db r) (\<lambda>(r1, db1).
     let r2 = r1\<lparr>inv_state := next, inv_updated_at := env_now env\<rparr> in
     rbind (record_terminal env db1 r2) (\<lambda>db2.
     Ok (Commit (Some boundary) (status_of r2) (put_invocation db2 r2))))))"

definition transition :: "Env \<Rightarrow> InvocationId \<Rightarrow> Step \<Rightarrow> Boundary \<Rightarrow>
    (Db \<Rightarrow> InvocationRecord \<Rightarrow> (InvocationRecord \<times> Db, StoreError) result) \<Rightarrow> Db \<Rightarrow>
    Db \<times> (InvocationStatus, StoreError) result" where
  "transition env i step boundary apply_step db =
     end_tx env db (transition_tx env i step boundary apply_step db)"

definition dispatch :: "Env \<Rightarrow> InvocationId \<Rightarrow> Db \<Rightarrow> Db \<times> (InvocationStatus, StoreError) result" where
  "dispatch env i = transition env i Step.Dispatch Boundary.Dispatch (\<lambda>db r. Ok (r, db))"

definition stage_transfer :: "Env \<Rightarrow> Transfer \<Rightarrow> Db \<Rightarrow> InvocationRecord \<Rightarrow>
    (InvocationRecord \<times> Db, StoreError) result" where
  "stage_transfer env transfer db r =
     rbind (tenant_keys db (inv_tenant r)) (\<lambda>keys.
     let artifact = artifact_ref (inv_id r);
         address = env_blob_address env (inv_tenant r) (tf_envelope transfer);
         blob_key = (inv_tenant r, address) in
     rbind (case db_blobs db blob_key of
         Some _ \<Rightarrow> Ok db
       | None \<Rightarrow>
           ensure (length (tf_envelope transfer) \<le> MAX_PLAINTEXT_LEN)
             (PlaintextTooLarge (length (tf_envelope transfer)) MAX_PLAINTEXT_LEN)
             (Ok (db\<lparr>db_blobs := (db_blobs db)(blob_key :=
                Some \<lparr>sealed_key = kr_active keys, sealed_value = tf_envelope transfer\<rparr>)\<rparr>))) (\<lambda>db1.
     let pending = \<lparr>art_artifact = artifact, art_invocation = inv_id r, art_tenant = inv_tenant r,
           art_session = inv_session r, art_grant_chain = inv_grant_chain r,
           art_reservation = inv_id r, art_classification = None, art_lineage = None,
           art_provenance_digest = env_sha256 env (tf_envelope transfer),
           art_blob_address = address, art_blob_len = len_u64 (length (tf_envelope transfer)),
           art_source = tf_source transfer, art_text_view = tf_text_view transfer,
           art_truncated = tf_truncated transfer, art_output_bytes = tf_output_bytes transfer,
           art_revoked_after_effect = tf_revoked_after_effect transfer, art_published_at = None\<rparr>;
         db2 = db1\<lparr>db_pending := (db_pending db1)((inv_tenant r, inv_id r) :=
           Some \<lparr>sealed_key = kr_active keys, sealed_value = pending\<rparr>)\<rparr> in
     Ok (r\<lparr>inv_artifact := Some artifact, inv_actual := Some (tf_actual transfer),
           inv_revoked_after_effect := tf_revoked_after_effect transfer\<rparr>, db2)))"

definition complete_transfer :: "Env \<Rightarrow> InvocationId \<Rightarrow> Transfer \<Rightarrow> Db \<Rightarrow>
    Db \<times> (InvocationStatus, StoreError) result" where
  "complete_transfer env i transfer =
     transition env i Step.CompleteTransfer Boundary.CompleteTransfer (stage_transfer env transfer)"

definition stage_publish :: "Env \<Rightarrow> Db \<Rightarrow> InvocationRecord \<Rightarrow>
    (InvocationRecord \<times> Db, StoreError) result" where
  "stage_publish env db r =
     rbind (tenant_keys db (inv_tenant r)) (\<lambda>keys.
     rbind (ok_or (db_pending db (inv_tenant r, inv_id r))
         (Inconsistent ''transfer-complete invocation has no pending record'')) (\<lambda>sealed.
     rbind (open_sealed (meta_openers keys) sealed) (\<lambda>pending.
     ensure (db_locators db (art_artifact pending) = None)
       (Inconsistent ''artifact is already published'')
      (let artifact = pending\<lparr>art_published_at := Some (env_now env)\<rparr>;
           db1 = db\<lparr>db_artifacts := (db_artifacts db)((inv_tenant r, art_artifact artifact) :=
                  Some \<lparr>sealed_key = kr_active keys, sealed_value = artifact\<rparr>),
                db_pending := (db_pending db)((inv_tenant r, inv_id r) := None),
                db_locators := (db_locators db)(art_artifact artifact :=
                  Some \<lparr>loc_artifact = art_artifact artifact, loc_owner = inv_tenant r,
                        loc_session = inv_session r\<rparr>)\<rparr> in
       (case inv_session r of
          None \<Rightarrow> Ok (r, db1)
        | Some session \<Rightarrow>
            rbind (ok_or (db_sessions db1 session)
                (Inconsistent ''invocation names a missing session'')) (\<lambda>sess.
            rbind (tenant_keys db1 (sr_owner sess)) (\<lambda>owner_keys.
            let entry = \<lparr>six_artifact = art_artifact artifact, six_captured_by = inv_tenant r,
                         six_published_at = env_now env\<rparr> in
            Ok (r, db1\<lparr>db_session_index :=
              (db_session_index db1)((sr_owner sess, session, art_artifact artifact) :=
                Some \<lparr>sealed_key = kr_active owner_keys, sealed_value = entry\<rparr>)\<rparr>))))))))"

definition publish :: "Env \<Rightarrow> InvocationId \<Rightarrow> Db \<Rightarrow> Db \<times> (InvocationStatus, StoreError) result" where
  "publish env i = transition env i Step.Publish Boundary.Publish (stage_publish env)"

fun release_ledgers :: "Db \<Rightarrow> LedgerId list \<Rightarrow> Cost \<Rightarrow> (Db, StoreError) result" where
  "release_ledgers db [] amount = Ok db"
| "release_ledgers db (ledger # ledgers) amount =
     rbind (map_err Authz (Budget.release (ledger_used db ledger) amount)) (\<lambda>used.
       release_ledgers (put_ledger db ledger used) ledgers amount)"

definition apply_settlement :: "Settlement \<Rightarrow> Db \<Rightarrow> InvocationRecord \<Rightarrow>
    (InvocationRecord \<times> Db, StoreError) result" where
  "apply_settlement settlement db r =
     rbind (release_ledgers db (inv_ledgers r) (release_amount settlement)) (\<lambda>db1.
       Ok (r\<lparr>inv_debited := Some (debit settlement)\<rparr>, db1))"

fun started_failure :: "Failure \<Rightarrow> bool" where
  "started_failure (Failure.TransferFailed c) = True"
| "started_failure (Failure.ExtractionFailed c) = True"
| "started_failure Failure.DeadlineExceeded = True"
| "started_failure Failure.Cancelled = True"
| "started_failure _ = False"

definition settle_consumption :: "SettleOutcome \<Rightarrow> InvocationRecord \<Rightarrow>
    (Cost \<times> Failure option, StoreError) result" where
  "settle_consumption outcome r =
     (case (inv_state r, outcome) of
        (Published, SettleSuccess) \<Rightarrow>
          rbind (ok_or (inv_actual r)
            (Inconsistent ''published invocation has no recorded consumption'')) (\<lambda>actual.
          Ok (actual, None))
      | (Dispatched, SettleFailed failure actual) \<Rightarrow>
          if started_failure failure then Ok (actual, Some failure)
          else Err (SettleMismatch (inv_state r))
      | _ \<Rightarrow> Err (SettleMismatch (inv_state r)))"

definition settlement_result :: "(Settlement, AuthzError) result \<Rightarrow> (Settlement, StoreError) result" where
  "settlement_result r =
     (case r of
        Ok settlement \<Rightarrow> Ok settlement
      | Err (SettleOverrun _ _ _ settlement) \<Rightarrow> Ok settlement
      | Err e \<Rightarrow> Err (Authz e))"

definition stage_settle :: "SettleOutcome \<Rightarrow> Db \<Rightarrow> InvocationRecord \<Rightarrow>
    (InvocationRecord \<times> Db, StoreError) result" where
  "stage_settle outcome db r =
     rbind (settle_consumption outcome r) (\<lambda>(actual, failure).
     rbind (settlement_result (Budget.settle (inv_reserved r) actual)) (\<lambda>settlement.
     apply_settlement settlement db
       (r\<lparr>inv_actual := Some actual, inv_terminal := Some (Terminal.Settled failure)\<rparr>)))"

definition settle_invocation :: "Env \<Rightarrow> InvocationId \<Rightarrow> SettleOutcome \<Rightarrow> Db \<Rightarrow>
    Db \<times> (InvocationStatus, StoreError) result" where
  "settle_invocation env i outcome =
     transition env i Step.Settle Boundary.Terminal (stage_settle outcome)"

definition stage_release :: "ReleaseReason \<Rightarrow> Db \<Rightarrow> InvocationRecord \<Rightarrow>
    (InvocationRecord \<times> Db, StoreError) result" where
  "stage_release reason db r =
     apply_settlement \<lparr>debit = cost_default, release_amount = inv_reserved r\<rparr> db
       (r\<lparr>inv_terminal := Some (Terminal.Released reason)\<rparr>)"

definition release_invocation :: "Env \<Rightarrow> InvocationId \<Rightarrow> ReleaseReason \<Rightarrow> Db \<Rightarrow>
    Db \<times> (InvocationStatus, StoreError) result" where
  "release_invocation env i reason =
     transition env i (Step.Release reason) Boundary.Terminal (stage_release reason)"

definition stage_unknown :: "Db \<Rightarrow> InvocationRecord \<Rightarrow> (InvocationRecord \<times> Db, StoreError) result" where
  "stage_unknown db r =
     apply_settlement (unknown_effect_settlement (inv_reserved r)) db
       (r\<lparr>inv_terminal := Some Terminal.UnknownEffect\<rparr>)"

definition mark_unknown_effect :: "Env \<Rightarrow> InvocationId \<Rightarrow> Db \<Rightarrow>
    Db \<times> (InvocationStatus, StoreError) result" where
  "mark_unknown_effect env i =
     transition env i Step.MarkUnknownEffect Boundary.Terminal stage_unknown"

subsection \<open>Recovery\<close>

record RecoveryReport =
  rep_released :: u32
  rep_unknown_effect :: u32
  rep_published :: u32
  rep_settled :: u32

definition report_default :: RecoveryReport where
  "report_default = \<lparr>rep_released = 0, rep_unknown_effect = 0, rep_published = 0, rep_settled = 0\<rparr>"

definition report_is_empty :: "RecoveryReport \<Rightarrow> bool" where
  "report_is_empty report \<longleftrightarrow> rep_released report = 0 \<and> rep_unknown_effect report = 0 \<and>
     rep_published report = 0 \<and> rep_settled report = 0"

definition open_invocations :: "InvocationId list \<Rightarrow> Db \<Rightarrow> (InvocationId \<times> RecoveryAction) list" where
  "open_invocations scan db =
     List.map_filter (\<lambda>i. case db_invocations db i of
         None \<Rightarrow> None
       | Some r \<Rightarrow> map_option (Pair (inv_id r)) (recovery_action (inv_state r))) scan"

definition recover_one :: "Env \<Rightarrow> InvocationId \<Rightarrow> RecoveryAction \<Rightarrow> RecoveryReport \<Rightarrow> Db \<Rightarrow>
    Db \<times> (RecoveryReport, StoreError) result" where
  "recover_one env i action report db =
     (case action of
        ReleaseAbandoned \<Rightarrow>
          (case release_invocation env i Abandoned db of
             (db1, Err e) \<Rightarrow> (db1, Err e)
           | (db1, Ok _) \<Rightarrow> (db1, Ok (report\<lparr>rep_released := saturating_add (rep_released report) 1\<rparr>)))
      | RecoveryAction.MarkUnknownEffect \<Rightarrow>
          (case mark_unknown_effect env i db of
             (db1, Err e) \<Rightarrow> (db1, Err e)
           | (db1, Ok _) \<Rightarrow> (db1, Ok (report\<lparr>rep_unknown_effect := saturating_add (rep_unknown_effect report) 1\<rparr>)))
      | RollForwardPublish \<Rightarrow>
          (case publish env i db of
             (db1, Err e) \<Rightarrow> (db1, Err e)
           | (db1, Ok _) \<Rightarrow>
               (case settle_invocation env i SettleSuccess db1 of
                  (db2, Err e) \<Rightarrow> (db2, Err e)
                | (db2, Ok _) \<Rightarrow> (db2, Ok (report\<lparr>rep_published := saturating_add (rep_published report) 1\<rparr>))))
      | RollForwardSettle \<Rightarrow>
          (case settle_invocation env i SettleSuccess db of
             (db1, Err e) \<Rightarrow> (db1, Err e)
           | (db1, Ok _) \<Rightarrow> (db1, Ok (report\<lparr>rep_settled := saturating_add (rep_settled report) 1\<rparr>))))"

fun recover_all :: "Env \<Rightarrow> (InvocationId \<times> RecoveryAction) list \<Rightarrow> RecoveryReport \<Rightarrow> Db \<Rightarrow>
    Db \<times> (RecoveryReport, StoreError) result" where
  "recover_all env [] report db = (db, Ok report)"
| "recover_all env ((i, action) # rest) report db =
     (case recover_one env i action report db of
        (db1, Err e) \<Rightarrow> (db1, Err e)
      | (db1, Ok report1) \<Rightarrow> recover_all env rest report1 db1)"

definition recover :: "Env \<Rightarrow> InvocationId list \<Rightarrow> Db \<Rightarrow> Db \<times> (RecoveryReport, StoreError) result" where
  "recover env scan db = recover_all env (open_invocations scan db) report_default db"

section \<open>The operations as transactions\<close>

text \<open>No transaction body reads the failpoints.\<close>

lemma env_blind:
  "env_now (env\<lparr>env_crash := c\<rparr>) = env_now env"
  "env_sha256 (env\<lparr>env_crash := c\<rparr>) = env_sha256 env"
  "env_blob_address (env\<lparr>env_crash := c\<rparr>) = env_blob_address env"
  by simp_all

lemma begin_parts_blind:
  "refuse (env\<lparr>env_crash := c\<rparr>) = refuse env"
  "persist (env\<lparr>env_crash := c\<rparr>) = persist env"
  "replay (env\<lparr>env_crash := c\<rparr>) = replay env"
  unfolding refuse_def persist_def replay_def request_binding_def intent_record_def env_blind
    append_audit_blind by (rule refl)+

lemma begin_tx_blind: "begin_tx (env\<lparr>env_crash := c\<rparr>) = begin_tx env"
  unfolding begin_tx_def begin_parts_blind env_blind by (rule refl)

lemma transition_tx_blind: "transition_tx (env\<lparr>env_crash := c\<rparr>) = transition_tx env"
  unfolding transition_tx_def record_terminal_def append_audit_blind env_blind by (rule refl)

lemma stage_blind:
  "stage_transfer (env\<lparr>env_crash := c\<rparr>) = stage_transfer env"
  "stage_publish (env\<lparr>env_crash := c\<rparr>) = stage_publish env"
  unfolding stage_transfer_def stage_publish_def env_blind by (rule refl)+

lemmas lifecycle_blind = begin_tx_blind transition_tx_blind stage_blind

interpretation begin_op: transactional "\<lambda>env. begin_invocation env intent" "\<lambda>env. begin_tx env intent" for intent
  by unfold_locales (simp_all add: begin_invocation_def lifecycle_blind)

interpretation dispatch_op: transactional "\<lambda>env. dispatch env i"
    "\<lambda>env. transition_tx env i Step.Dispatch Boundary.Dispatch (\<lambda>db r. Ok (r, db))" for i
  by unfold_locales (simp_all add: dispatch_def transition_def lifecycle_blind)

interpretation transfer_op: transactional "\<lambda>env. complete_transfer env i transfer"
    "\<lambda>env. transition_tx env i Step.CompleteTransfer Boundary.CompleteTransfer (stage_transfer env transfer)"
    for i transfer
  by unfold_locales (simp_all add: complete_transfer_def transition_def lifecycle_blind)

interpretation publish_op: transactional "\<lambda>env. publish env i"
    "\<lambda>env. transition_tx env i Step.Publish Boundary.Publish (stage_publish env)" for i
  by unfold_locales (simp_all add: publish_def transition_def lifecycle_blind)

interpretation settle_op: transactional "\<lambda>env. settle_invocation env i outcome"
    "\<lambda>env. transition_tx env i Step.Settle Boundary.Terminal (stage_settle outcome)" for i outcome
  by unfold_locales (simp_all add: settle_invocation_def transition_def lifecycle_blind)

interpretation release_op: transactional "\<lambda>env. release_invocation env i reason"
    "\<lambda>env. transition_tx env i (Step.Release reason) Boundary.Terminal (stage_release reason)" for i reason
  by unfold_locales (simp_all add: release_invocation_def transition_def lifecycle_blind)

interpretation unknown_op: transactional "\<lambda>env. mark_unknown_effect env i"
    "\<lambda>env. transition_tx env i Step.MarkUnknownEffect Boundary.Terminal stage_unknown" for i
  by unfold_locales (simp_all add: mark_unknown_effect_def transition_def lifecycle_blind)

end
