(* ===== verification/Directory.thy ===== *)
theory Directory
  imports Invocations
begin

text \<open>
  Tenant, grant, revocation and session writes, idempotency claims, standalone audit entries and
  crypto-shredding (\<^verbatim>\<open>crates/phylake/src/store/directory.rs\<close>, \<^verbatim>\<open>claim.rs\<close>, \<^verbatim>\<open>shred.rs\<close>).  Each
  operation is one transaction that ends as \<open>TxEnd\<close> says.

  Drawing and wrapping a tenant's data key is the presence of that key in \<open>db_data_keys\<close>.
\<close>

section \<open>Definitions\<close>

subsection \<open>Tenants\<close>

record TenantRegistration =
  reg_id :: TenantId
  reg_class :: TenantClass
  reg_verifying_key :: "u8 list"
  reg_bound_uids :: "u32 list"
  reg_parent :: "TenantId option"
  reg_ceilings :: Ceilings

definition same_identity :: "TenantRecord \<Rightarrow> TenantRegistration \<Rightarrow> bool" where
  "same_identity existing reg \<longleftrightarrow>
     tr_class existing = reg_class reg \<and> tr_verifying_key existing = reg_verifying_key reg \<and>
     tr_bound_uids existing = reg_bound_uids reg \<and> tr_parent existing = reg_parent reg \<and>
     tr_ceilings existing = reg_ceilings reg"

definition register_tenant_tx :: "Env \<Rightarrow> TenantRegistration \<Rightarrow> Db \<Rightarrow> (unit TxEnd, StoreError) result" where
  "register_tenant_tx env reg db =
     (case db_tenants db (reg_id reg) of
        Some existing \<Rightarrow>
          ensure (same_identity existing reg) (Conflict ''tenant'') (Ok (Abandon ()))
      | None \<Rightarrow>
          ensure (db_tombstones db (reg_id reg) = None) (TenantShredded (reg_id reg))
          (rbind (case reg_parent reg of
              None \<Rightarrow> Ok ()
            | Some parent \<Rightarrow> rbind (ok_or (db_tenants db parent) (TenantMissing parent)) (\<lambda>_. Ok ()))
           (\<lambda>_. Ok (Commit None () (db\<lparr>
               db_data_keys := insert (reg_id reg, INITIAL_DATA_KEY_ID) (db_data_keys db),
               db_tenants := (db_tenants db)(reg_id reg := Some
                 \<lparr>tr_id = reg_id reg, tr_class = reg_class reg, tr_verifying_key = reg_verifying_key reg,
                  tr_bound_uids = reg_bound_uids reg, tr_parent = reg_parent reg,
                  tr_ceilings = reg_ceilings reg, tr_data_key_id = INITIAL_DATA_KEY_ID,
                  tr_registered_at = env_now env\<rparr>)\<rparr>)))))"

definition register_tenant :: "Env \<Rightarrow> TenantRegistration \<Rightarrow> Db \<Rightarrow> Db \<times> (unit, StoreError) result" where
  "register_tenant env reg db = end_tx env db (register_tenant_tx env reg db)"

subsection \<open>Grants\<close>

record RootGrant =
  rg_id :: GrantId
  rg_holder :: TenantId
  rg_capabilities :: "Capability set"
  rg_session_scope :: SessionScope
  rg_target_scope :: "string list"
  rg_audit_scope :: AuditScope
  rg_ceilings :: Ceilings
  rg_not_before :: Timestamp
  rg_expires_at :: Timestamp
  rg_max_depth :: u8

definition root_to_grant :: "RootGrant \<Rightarrow> (Grant, StoreError) result" where
  "root_to_grant root =
     rbind (map_err (\<lambda>e. Authz (OriginFault e)) (target_scope_parse (rg_target_scope root))) (\<lambda>scope.
       Ok \<lparr>g_id = rg_id root, g_issuer = rg_holder root, g_holder = rg_holder root,
           g_capabilities = rg_capabilities root, g_session_scope = rg_session_scope root,
           g_target_scope = scope, g_audit_scope = rg_audit_scope root,
           g_ceilings = rg_ceilings root, g_not_before = rg_not_before root,
           g_expires_at = rg_expires_at root, g_parent = None, g_depth = 0,
           g_max_depth = rg_max_depth root\<rparr>)"

definition put_new_grant :: "Db \<Rightarrow> GrantRecord \<Rightarrow> (bool \<times> Db, StoreError) result" where
  "put_new_grant db r =
     (case db_grants db (gr_id r) of
        Some existing \<Rightarrow> ensure (existing = r) (Conflict ''grant'') (Ok (False, db))
      | None \<Rightarrow> Ok (True, db\<lparr>db_grants := (db_grants db)(gr_id r := Some r)\<rparr>))"

definition install_root_grant_tx :: "RootGrant \<Rightarrow> Db \<Rightarrow> (unit TxEnd, StoreError) result" where
  "install_root_grant_tx root db =
     rbind (root_to_grant root) (\<lambda>g.
     rbind (ok_or (db_tenants db (rg_holder root)) (TenantMissing (rg_holder root))) (\<lambda>_.
     rbind (put_new_grant db (grant_record_from g (rg_target_scope root))) (\<lambda>(staged, tx).
       Ok (if staged then Commit None () tx else Abandon ()))))"

definition install_root_grant :: "Env \<Rightarrow> RootGrant \<Rightarrow> Db \<Rightarrow> Db \<times> (unit, StoreError) result" where
  "install_root_grant env root db = end_tx env db (install_root_grant_tx root db)"

record GrantIssueCall =
  gi_context :: IssueContext
  gi_request :: GrantIssueRequest
  gi_invocation :: InvocationId

datatype IssueOutcome = OutcomeIssued GrantId GrantId | OutcomeRefused Failure

definition issued_from :: "Db \<Rightarrow> GrantRecord \<Rightarrow> GrantIssueRequest \<Rightarrow> bool" where
  "issued_from db existing request \<longleftrightarrow>
     (let max_depth = (case req_max_depth request of
           Some m \<Rightarrow> Some m
         | None \<Rightarrow> (case gr_parent existing of
               Some parent \<Rightarrow> map_option gr_max_depth (db_grants db parent)
             | None \<Rightarrow> None)) in
      gr_holder existing = req_holder request \<and>
      set (gr_capabilities existing) = set (req_capabilities request) \<and>
      gr_session_scope existing = req_session_scope request \<and>
      gr_target_patterns existing = req_target_scope request \<and>
      gr_ceilings existing = req_ceilings request \<and>
      gr_not_before existing = req_not_before request \<and>
      gr_expires_at existing = req_expires_at request \<and>
      Some (gr_max_depth existing) = max_depth)"

definition audit_issue :: "Env \<Rightarrow> GrantIssueCall \<Rightarrow> Db \<Rightarrow> IssueOutcome \<Rightarrow> InvocationState \<Rightarrow> OutcomeKind \<Rightarrow>
    (IssueOutcome TxEnd, StoreError) result" where
  "audit_issue env issue tx outcome state kind =
     (let entry = (audit_entry_new (ctx_issuer (gi_context issue)) (gi_invocation issue)
           Capability.GrantIssue state kind)\<lparr>ae_grant := Some (ctx_designated (gi_context issue))\<rparr> in
      rbind (append_audit env tx entry) (\<lambda>(seq, tx1). Ok (Commit None outcome tx1)))"

definition decide_issue :: "Env \<Rightarrow> GrantIssueCall \<Rightarrow> Db \<Rightarrow> (IssueOutcome TxEnd, StoreError) result" where
  "decide_issue env issue db =
     (let context = gi_context issue in
      rbind (map_err Authz (check_issue (store_view db) context (gi_request issue) (env_now env))) (\<lambda>decision.
      (case decision of
         Issued child \<Rightarrow>
           let r = grant_record_from child (req_target_scope (gi_request issue)) in
           rbind (put_new_grant db r) (\<lambda>(staged, tx).
             if staged
             then audit_issue env issue tx (OutcomeIssued (gr_id r) (ctx_designated context))
               InvocationState.Settled Success
             else Ok (Abandon (OutcomeIssued (gr_id r) (ctx_designated context))))
       | refused \<Rightarrow>
           let failure = (case issue_refusal refused of
               Some f \<Rightarrow> f | None \<Rightarrow> Failure.NotFoundOrDenied) in
           audit_issue env issue db (OutcomeRefused failure) InvocationState.Denied (failure_kind failure))))"

definition issue_grant_tx :: "Env \<Rightarrow> GrantIssueCall \<Rightarrow> Db \<Rightarrow> (IssueOutcome TxEnd, StoreError) result" where
  "issue_grant_tx env issue db =
     (let context = gi_context issue in
      (case db_grants db (ctx_child context) of
         Some existing \<Rightarrow>
           if gr_issuer existing = ctx_issuer context \<and> gr_parent existing = Some (ctx_designated context)
           then ensure (issued_from db existing (gi_request issue)) (Conflict ''grant'')
             (Ok (Abandon (OutcomeIssued (gr_id existing) (ctx_designated context))))
           else decide_issue env issue db
       | None \<Rightarrow> decide_issue env issue db))"

definition issue_grant :: "Env \<Rightarrow> GrantIssueCall \<Rightarrow> Db \<Rightarrow> Db \<times> (IssueOutcome, StoreError) result" where
  "issue_grant env issue db = end_tx env db (issue_grant_tx env issue db)"

record RevokeGrant =
  rv_actor :: TenantId
  rv_grant :: GrantId
  rv_invocation :: InvocationId

definition revoke_grant_tx :: "Env \<Rightarrow> RevokeGrant \<Rightarrow> Db \<Rightarrow> (Revocation option TxEnd, StoreError) result" where
  "revoke_grant_tx env revoke db =
     (if db_grants db (rv_grant revoke) = None then Ok (Abandon None)
      else (case db_revocations db (rv_grant revoke) of
          Some existing \<Rightarrow> Ok (Abandon (Some (to_revocation existing)))
        | None \<Rightarrow>
            let entry = audit_entry_new (rv_actor revoke) (rv_invocation revoke) Capability.GrantRevoke
              InvocationState.Settled Success in
            rbind (append_audit env db entry) (\<lambda>(seq, tx).
            let r = \<lparr>rr_grant = rv_grant revoke, rr_at_seq = seq, rr_at_time = env_now env,
                     rr_by = rv_actor revoke\<rparr> in
            Ok (Commit None (Some (to_revocation r))
              (tx\<lparr>db_revocations := (db_revocations tx)(rv_grant revoke := Some r)\<rparr>)))))"

definition revoke_grant :: "Env \<Rightarrow> RevokeGrant \<Rightarrow> Db \<Rightarrow> Db \<times> (Revocation option, StoreError) result" where
  "revoke_grant env revoke db = end_tx env db (revoke_grant_tx env revoke db)"

subsection \<open>Sessions\<close>

record NewSession =
  ns_session :: SessionId
  ns_owner :: TenantId
  ns_ceilings :: Ceilings
  ns_invocation :: InvocationId

definition session_opened :: "NewSession \<Rightarrow> SessionId option \<Rightarrow> SessionOpened" where
  "session_opened new parent =
     \<lparr>opened_session = ns_session new, opened_owner = ns_owner new, opened_parent_session = parent\<rparr>"

definition open_session_tx :: "Env \<Rightarrow> NewSession \<Rightarrow> SessionId option \<Rightarrow> Db \<Rightarrow>
    (SessionOpened option TxEnd, StoreError) result" where
  "open_session_tx env new parent db =
     rbind (ok_or (db_tenants db (ns_owner new)) (TenantMissing (ns_owner new))) (\<lambda>_.
     if (case parent of Some p \<Rightarrow> db_sessions db p = None | None \<Rightarrow> False) then Ok (Abandon None)
     else (case db_sessions db (ns_session new) of
         Some existing \<Rightarrow>
           ensure (sr_owner existing = ns_owner new \<and> sr_parent existing = parent \<and>
               sr_ceilings existing = ns_ceilings new) (Conflict ''session'')
             (Ok (Abandon (Some (session_opened new parent))))
       | None \<Rightarrow>
           let r = \<lparr>sr_id = ns_session new, sr_owner = ns_owner new, sr_parent = parent,
                 sr_ceilings = ns_ceilings new, sr_created_at = env_now env\<rparr>;
               tx = db\<lparr>db_sessions := (db_sessions db)(ns_session new := Some r)\<rparr>;
               entry = (audit_entry_new (ns_owner new) (ns_invocation new)
                 (if parent \<noteq> None then Capability.SessionFork else Capability.SessionCreate)
                 InvocationState.Settled Success)\<lparr>ae_session := Some (ns_session new)\<rparr> in
           rbind (append_audit env tx entry) (\<lambda>(seq, tx1).
             Ok (Commit None (Some (session_opened new parent)) tx1))))"

definition open_session :: "Env \<Rightarrow> NewSession \<Rightarrow> SessionId option \<Rightarrow> Db \<Rightarrow>
    Db \<times> (SessionOpened option, StoreError) result" where
  "open_session env new parent db = end_tx env db (open_session_tx env new parent db)"

definition create_session :: "Env \<Rightarrow> NewSession \<Rightarrow> Db \<Rightarrow> Db \<times> (SessionOpened, StoreError) result" where
  "create_session env new db =
     (case open_session env new None db of
        (db1, r) \<Rightarrow> (db1, rbind r (\<lambda>opened. Ok
          (case opened of Some o' \<Rightarrow> o' | None \<Rightarrow> session_opened new None))))"

definition fork_session :: "Env \<Rightarrow> NewSession \<Rightarrow> SessionId \<Rightarrow> Db \<Rightarrow>
    Db \<times> (SessionOpened option, StoreError) result" where
  "fork_session env new parent db = open_session env new (Some parent) db"

subsection \<open>Idempotency claims and audit notes\<close>

record IdemClaim =
  cl_tenant :: TenantId
  cl_grant :: GrantId
  cl_capability :: Capability
  cl_key :: IdempotencyKey
  cl_request_digest :: "u8 list"
  cl_invocation :: InvocationId

definition claim_input :: "IdemClaim \<Rightarrow> u8 list" where
  "claim_input claim =
     bytes_of ''dioptron/v1/idem-claim'' @ cl_request_digest claim @ grant_to_bytes (cl_grant claim) @
     length_prefixed (bytes_of (Capability_name (cl_capability claim)))"

definition claim_binding :: "Env \<Rightarrow> IdemClaim \<Rightarrow> u8 list" where
  "claim_binding env claim = env_sha256 env (claim_input claim)"

datatype Claimed = ClaimFresh InvocationId | ClaimReplay InvocationId | ClaimConflict

definition compare_claim :: "IdemRecord \<Rightarrow> u8 list \<Rightarrow> Claimed" where
  "compare_claim existing binding =
     (if idem_request_binding existing = binding then ClaimReplay (idem_invocation existing)
      else ClaimConflict)"

definition claim_tx :: "Env \<Rightarrow> IdemClaim \<Rightarrow> Db \<Rightarrow> (Claimed TxEnd, StoreError) result" where
  "claim_tx env claim db =
     rbind (tenant_keys db (cl_tenant claim)) (\<lambda>keys.
     let slot = (cl_tenant claim, cl_capability claim, cl_key claim);
         binding = claim_binding env claim in
     (case db_idem db slot of
        Some sealed \<Rightarrow>
          rbind (open_sealed [kr_active keys] sealed) (\<lambda>existing. Ok (Abandon (compare_claim existing binding)))
      | None \<Rightarrow>
          let r = \<lparr>idem_invocation = cl_invocation claim, idem_request_binding = binding\<rparr> in
          Ok (Commit None (ClaimFresh (cl_invocation claim))
            (db\<lparr>db_idem := (db_idem db)(slot :=
              Some \<lparr>sealed_key = kr_active keys, sealed_value = r\<rparr>)\<rparr>))))"

definition claim_key :: "Env \<Rightarrow> IdemClaim \<Rightarrow> Db \<Rightarrow> Db \<times> (Claimed, StoreError) result" where
  "claim_key env claim db = end_tx env db (claim_tx env claim db)"

definition claimed :: "Env \<Rightarrow> IdemClaim \<Rightarrow> Db \<Rightarrow> (Claimed option, StoreError) result" where
  "claimed env claim db =
     rbind (tenant_keys db (cl_tenant claim)) (\<lambda>keys.
     (case db_idem db (cl_tenant claim, cl_capability claim, cl_key claim) of
        Some sealed \<Rightarrow> rbind (open_sealed [kr_active keys] sealed) (\<lambda>existing.
          Ok (Some (compare_claim existing (claim_binding env claim))))
      | None \<Rightarrow> Ok None))"

datatype AuditOutcome = AuditRefused Failure | AuditCompleted "Failure option"

record AuditNote =
  an_tenant :: TenantId
  an_invocation :: InvocationId
  an_capability :: Capability
  an_session :: "SessionId option"
  an_outcome :: AuditOutcome
  an_grant :: "GrantId option"
  an_audit_scope :: "AuditScope option"

definition record_audit :: "Env \<Rightarrow> AuditNote \<Rightarrow> Db \<Rightarrow> Db \<times> (AuditSeq, StoreError) result" where
  "record_audit env note db =
     (let entry = (case an_outcome note of
           AuditRefused failure \<Rightarrow> audit_entry_new (an_tenant note) (an_invocation note)
             (an_capability note) InvocationState.Denied (failure_kind failure)
         | AuditCompleted failure \<Rightarrow> audit_entry_terminal (an_tenant note) (an_invocation note)
             (an_capability note) (Terminal.Settled failure))
         \<lparr>ae_session := an_session note, ae_grant := an_grant note, ae_audit_scope := an_audit_scope note\<rparr> in
      end_tx env db (rbind (append_audit env db entry) (\<lambda>(seq, tx). Ok (Commit None seq tx))))"

subsection \<open>Crypto-shredding\<close>

definition has_open_invocations :: "SessionId list \<Rightarrow> InvocationId list \<Rightarrow> Db \<Rightarrow> TenantId \<Rightarrow> bool" where
  "has_open_invocations sessions scan db tenant \<longleftrightarrow>
     (let owned = List.map_filter (\<lambda>s. case db_sessions db s of
           Some r \<Rightarrow> if sr_owner r = tenant then Some (sr_id r) else None
         | None \<Rightarrow> None) sessions in
      list_ex (\<lambda>i. case db_invocations db i of
          None \<Rightarrow> False
        | Some r \<Rightarrow> (inv_tenant r = tenant \<or>
              (case inv_session r of Some s \<Rightarrow> s \<in> set owned | None \<Rightarrow> False)) \<and>
            \<not> is_terminal (inv_state r)) scan)"

definition shred_tenant_tx :: "Env \<Rightarrow> SessionId list \<Rightarrow> InvocationId list \<Rightarrow> TenantId \<Rightarrow> Db \<Rightarrow>
    (unit TxEnd, StoreError) result" where
  "shred_tenant_tx env sessions scan tenant db =
     (if db_tombstones db tenant \<noteq> None then Ok (Abandon ())
      else rbind (ok_or (db_tenants db tenant) (TenantMissing tenant)) (\<lambda>r.
        ensure (\<not> has_open_invocations sessions scan db tenant) (TenantBusy tenant)
         (let retired = (case db_rekey db tenant of
                Some rekey \<Rightarrow> if rk_done rekey then {} else {(tenant, rk_from_key_id rekey)}
              | None \<Rightarrow> {}) in
          Ok (Commit None () (db\<lparr>
            db_data_keys := db_data_keys db - {(tenant, tr_data_key_id r)} - retired,
            db_rekey := (db_rekey db)(tenant := None),
            db_address_keys := db_address_keys db - {tenant},
            db_tenants := (db_tenants db)(tenant := None),
            db_tombstones := (db_tombstones db)(tenant :=
              Some \<lparr>tomb_tenant = tenant, tomb_shredded_at = env_now env\<rparr>)\<rparr>)))))"

definition shred_tenant :: "Env \<Rightarrow> SessionId list \<Rightarrow> InvocationId list \<Rightarrow> TenantId \<Rightarrow> Db \<Rightarrow>
    Db \<times> (unit, StoreError) result" where
  "shred_tenant env sessions scan tenant db =
     end_tx env db (shred_tenant_tx env sessions scan tenant db)"

section \<open>The operations as transactions\<close>

lemma directory_blind:
  "register_tenant_tx (env\<lparr>env_crash := c\<rparr>) = register_tenant_tx env"
  "issue_grant_tx (env\<lparr>env_crash := c\<rparr>) = issue_grant_tx env"
  "revoke_grant_tx (env\<lparr>env_crash := c\<rparr>) = revoke_grant_tx env"
  "open_session_tx (env\<lparr>env_crash := c\<rparr>) = open_session_tx env"
  "claim_tx (env\<lparr>env_crash := c\<rparr>) = claim_tx env"
  "shred_tenant_tx (env\<lparr>env_crash := c\<rparr>) = shred_tenant_tx env"
  unfolding register_tenant_tx_def issue_grant_tx_def decide_issue_def audit_issue_def revoke_grant_tx_def
    open_session_tx_def claim_tx_def claim_binding_def shred_tenant_tx_def append_audit_blind env_blind
  by (rule refl)+

interpretation register_op: transactional "\<lambda>env. register_tenant env reg" "\<lambda>env. register_tenant_tx env reg" for reg
  by unfold_locales (simp_all add: register_tenant_def directory_blind)

interpretation root_op: transactional "\<lambda>env. install_root_grant env root" "\<lambda>env. install_root_grant_tx root" for root
  by unfold_locales (simp_all add: install_root_grant_def)

interpretation issue_op: transactional "\<lambda>env. issue_grant env issue" "\<lambda>env. issue_grant_tx env issue" for issue
  by unfold_locales (simp_all add: issue_grant_def directory_blind)

interpretation revoke_op: transactional "\<lambda>env. revoke_grant env revoke" "\<lambda>env. revoke_grant_tx env revoke" for revoke
  by unfold_locales (simp_all add: revoke_grant_def directory_blind)

interpretation session_op: transactional "\<lambda>env. open_session env new parent"
    "\<lambda>env. open_session_tx env new parent" for new parent
  by unfold_locales (simp_all add: open_session_def directory_blind)

interpretation claim_op: transactional "\<lambda>env. claim_key env claim" "\<lambda>env. claim_tx env claim" for claim
  by unfold_locales (simp_all add: claim_key_def directory_blind)

interpretation shred_op: transactional "\<lambda>env. shred_tenant env sessions scan tenant"
    "\<lambda>env. shred_tenant_tx env sessions scan tenant" for sessions scan tenant
  by unfold_locales (simp_all add: shred_tenant_def directory_blind)

end
