(* ===== verification/Ledgers.thy ===== *)
theory Ledgers
  imports Directory
begin

text \<open>
  Ledger conservation: the invariant that ties every ledger's \<open>used\<close> amount to the invocations whose
  reservations it carries, and its preservation by every operation of the store.
\<close>

section \<open>Transactions and frames\<close>

lemma end_tx_inv:
  assumes "P db" and "\<And>b v tx. r = Ok (Commit b v tx) \<Longrightarrow> P tx"
  shows "P (fst (end_tx env db r))"
  using assms by (auto simp: end_tx_def commit_def split: sum.split TxEnd.split option.split)

lemma end_tx_Ok:
  assumes "end_tx env db r = (db', Ok v)"
  shows "(r = Ok (Abandon v) \<and> db' = db) \<or> (\<exists>b. r = Ok (Commit b v db'))"
  using assms by (auto simp: end_tx_def commit_def split: sum.splits TxEnd.splits option.splits if_splits)

lemma end_tx_crash:
  assumes "end_tx env db r = (db', Err e)"
  shows "(r = Err e \<and> db' = db) \<or>
    (\<exists>b v tx. r = Ok (Commit (Some b) v tx) \<and>
       (e = InjectedCrash b BeforeCommit \<and> db' = db \<or> e = InjectedCrash b AfterCommit \<and> db' = tx))"
  using assms by (auto simp: end_tx_def commit_def split: sum.splits TxEnd.splits option.splits if_splits)

text \<open>Appending an audit entry touches only the two audit keyspaces.\<close>

lemma append_audit_frame:
  assumes "append_audit env db entry = Ok (seq, db')"
  obtains stubs parts where "db' = db\<lparr>db_audit_stub := stubs, db_audit := parts\<rparr>"
  using assms unfolding append_audit_def Let_def by (auto simp: rbind_Ok_iff)

lemma record_terminal_frame:
  assumes "record_terminal env db r = Ok db'"
  obtains stubs parts where "db' = db\<lparr>db_audit_stub := stubs, db_audit := parts\<rparr>"
proof (cases "is_terminal (inv_state r)")
  case True
  with assms obtain entry seq where "append_audit env db entry = Ok (seq, db')"
    unfolding record_terminal_def Let_def by (auto simp: rbind_Ok_iff)
  then show ?thesis using that by (rule append_audit_frame)
next
  case False
  with assms have "db' = db\<lparr>db_audit_stub := db_audit_stub db, db_audit := db_audit db\<rparr>"
    by (simp add: record_terminal_def)
  then show ?thesis by (rule that)
qed

lemma transition_Commit:
  assumes "transition_tx env i step boundary f db = Ok (Commit b v tx)"
  obtains r nxt r1 db1 stubs parts where
    "db_invocations db i = Some r" and "lifecycle (inv_state r) step nxt"
    and "f db r = Ok (r1, db1)"
    and "tx = put_invocation (db1\<lparr>db_audit_stub := stubs, db_audit := parts\<rparr>)
        (r1\<lparr>inv_state := nxt, inv_updated_at := env_now env\<rparr>)"
    and "b = Some boundary"
    and "record_terminal env db1 (r1\<lparr>inv_state := nxt, inv_updated_at := env_now env\<rparr>) =
      Ok (db1\<lparr>db_audit_stub := stubs, db_audit := parts\<rparr>)"
proof -
  from assms obtain r nxt r1 db1 db2 where *: "db_invocations db i = Some r"
    "next_state (inv_state r) step = Ok nxt" "f db r = Ok (r1, db1)"
    "record_terminal env db1 (r1\<lparr>inv_state := nxt, inv_updated_at := env_now env\<rparr>) = Ok db2"
    "tx = put_invocation db2 (r1\<lparr>inv_state := nxt, inv_updated_at := env_now env\<rparr>)"
    "b = Some boundary"
    unfolding transition_tx_def existing_invocation_def Let_def by (auto simp: result_iffs)
  from *(4) obtain stubs parts where "db2 = db1\<lparr>db_audit_stub := stubs, db_audit := parts\<rparr>"
    by (rule record_terminal_frame)
  with * that show ?thesis by (simp add: next_state_iff)
qed

section \<open>Ledger arithmetic\<close>

lemma ledger_used_put [simp]:
  "ledger_used (put_ledger db ledger used) l = (if l = ledger then used else ledger_used db l)"
  by (simp add: ledger_used_def put_ledger_def)

lemma debit_ledgers_frame:
  "debit_ledgers db ds = Ok db' \<Longrightarrow> \<exists>m. db' = db\<lparr>db_ledgers := m\<rparr>"
proof (induction db ds arbitrary: db' rule: debit_ledgers.induct)
  case (1 db)
  then have "db' = db\<lparr>db_ledgers := db_ledgers db\<rparr>" by simp
  then show ?case by blast
next
  case (2 db ledger amount rest)
  then show ?case by (fastforce simp: rbind_Ok_iff map_err_Ok_iff put_ledger_def)
qed

lemma release_ledgers_frame:
  "release_ledgers db ls amount = Ok db' \<Longrightarrow> \<exists>m. db' = db\<lparr>db_ledgers := m\<rparr>"
proof (induction db ls amount arbitrary: db' rule: release_ledgers.induct)
  case (1 db amount)
  then have "db' = db\<lparr>db_ledgers := db_ledgers db\<rparr>" by simp
  then show ?case by blast
next
  case (2 db ledger ledgers amount)
  then show ?case by (fastforce simp: rbind_Ok_iff map_err_Ok_iff put_ledger_def)
qed

lemma debit_ledgers_amounts:
  assumes "debit_ledgers db (map (\<lambda>l. (l, cost)) ls) = Ok db'" and "distinct ls"
  shows "amount_nat (ledger_used db' l) d =
    amount_nat (ledger_used db l) d + (if l \<in> set ls then amount_nat cost d else 0)"
  using assms
proof (induction ls arbitrary: db)
  case (Cons a ls)
  then obtain used where u: "reserve (ledger_used db a) cost = Ok used"
    "debit_ledgers (put_ledger db a used) (map (\<lambda>l. (l, cost)) ls) = Ok db'"
    by (auto simp: rbind_Ok_iff map_err_Ok_iff)
  from Cons.IH [OF u(2)] Cons.prems(2) u(1) show ?case by (auto simp: reserve_Ok_iff)
qed simp

lemma release_ledgers_amounts:
  assumes "release_ledgers db ls amount = Ok db'" and "distinct ls"
  shows "amount_nat (ledger_used db l) d =
    amount_nat (ledger_used db' l) d + (if l \<in> set ls then amount_nat amount d else 0)"
  using assms
proof (induction ls arbitrary: db)
  case (Cons a ls)
  then obtain used where u: "Budget.release (ledger_used db a) amount = Ok used"
    "release_ledgers (put_ledger db a used) ls amount = Ok db'"
    by (auto simp: rbind_Ok_iff map_err_Ok_iff)
  from u(1) have "amount_nat (ledger_used db a) d = amount_nat used d + amount_nat amount d"
    by (simp add: release_Ok_iff)
  with Cons.IH [OF u(2)] Cons.prems(2) show ?case by (auto split: if_splits)
qed simp

section \<open>The conservation invariant\<close>

text \<open>What an invocation holds on each of its ledgers: its debit once closed, its reservation before.\<close>

definition held :: "InvocationRecord \<Rightarrow> Cost" where
  "held r = (case inv_debited r of Some debited \<Rightarrow> debited | None \<Rightarrow> inv_reserved r)"

definition charge_on :: "LedgerId \<Rightarrow> Dimension \<Rightarrow> InvocationRecord \<Rightarrow> nat" where
  "charge_on l d r = (if l \<in> set (inv_ledgers r) then amount_nat (held r) d else 0)"

definition total_on :: "Db \<Rightarrow> LedgerId \<Rightarrow> Dimension \<Rightarrow> nat" where
  "total_on db l d = (\<Sum>i \<in> dom (db_invocations db). charge_on l d (the (db_invocations db i)))"

definition wf_invocation :: "InvocationId \<Rightarrow> InvocationRecord \<Rightarrow> bool" where
  "wf_invocation i r \<longleftrightarrow> inv_id r = i \<and> distinct (inv_ledgers r) \<and>
     inv_state r \<notin> {Planned, InvocationState.Denied} \<and>
     (inv_debited r \<noteq> None \<longleftrightarrow> charged (inv_state r)) \<and>
     (charged (inv_state r) \<longrightarrow> map_option terminal_state (inv_terminal r) = Some (inv_state r)) \<and>
     (\<forall>c d. inv_debited r = Some c \<longrightarrow> amount_nat c d \<le> amount_nat (inv_reserved r) d)"

definition ledger_inv :: "Db \<Rightarrow> bool" where
  "ledger_inv db \<longleftrightarrow> finite (dom (db_invocations db)) \<and>
     (\<forall>i r. db_invocations db i = Some r \<longrightarrow> wf_invocation i r) \<and>
     (\<forall>l d. amount_nat (ledger_used db l) d = total_on db l d)"

lemma total_on_update:
  assumes "finite (dom (db_invocations db))" and "inv_id r = i"
  shows "total_on (put_invocation db r) l d +
      (case db_invocations db i of Some old \<Rightarrow> charge_on l d old | None \<Rightarrow> 0) =
    total_on db l d + charge_on l d r"
proof -
  let ?m = "db_invocations db"
  let ?f = "\<lambda>m j. charge_on l d (the (m j))"
  have rest: "(\<Sum>j \<in> dom ?m - {i}. ?f (?m(i := Some r)) j) = (\<Sum>j \<in> dom ?m - {i}. ?f ?m j)"
    by (rule sum.cong) auto
  have new: "total_on (put_invocation db r) l d = charge_on l d r + (\<Sum>j \<in> dom ?m - {i}. ?f ?m j)"
    using assms sum.insert_remove [of "dom ?m" "?f (?m(i := Some r))" i] rest
    by (simp add: total_on_def put_invocation_def)
  show ?thesis
  proof (cases "?m i")
    case None
    then have "dom ?m - {i} = dom ?m" by auto
    with new None show ?thesis by (simp add: total_on_def)
  next
    case (Some old)
    then have "i \<in> dom ?m" by auto
    from sum.remove [OF assms(1) this, of "?f ?m"] Some new show ?thesis by (simp add: total_on_def)
  qed
qed

lemma ledger_inv_cong:
  assumes "db_invocations db' = db_invocations db" and "db_ledgers db' = db_ledgers db"
  shows "ledger_inv db' = ledger_inv db"
  using assms by (simp add: ledger_inv_def total_on_def ledger_used_def)

lemma ledger_inv_empty: "ledger_inv empty_db"
  by (simp add: ledger_inv_def empty_db_def total_on_def ledger_used_def dom_def)

text \<open>The one shape of update that moves ledgers: an invocation's record changes and its ledgers follow.\<close>

lemma ledger_inv_update:
  assumes inv: "ledger_inv db" and wf: "wf_invocation i r"
    and invs: "db_invocations db' = (db_invocations db)(i := Some r)"
    and used: "\<And>l d. amount_nat (ledger_used db' l) d +
        (case db_invocations db i of Some old \<Rightarrow> charge_on l d old | None \<Rightarrow> 0) =
      amount_nat (ledger_used db l) d + charge_on l d r"
  shows "ledger_inv db'"
proof -
  have fin: "finite (dom (db_invocations db))" and id: "inv_id r = i"
    using inv wf by (auto simp: ledger_inv_def wf_invocation_def)
  have tot: "total_on db' l d = total_on (put_invocation db r) l d" for l d
    using invs id by (simp add: total_on_def put_invocation_def)
  have "amount_nat (ledger_used db' l) d = total_on db' l d" for l d
    using used [of l d] total_on_update [OF fin id, of l d] inv
    by (simp add: tot ledger_inv_def)
  with inv wf invs fin show ?thesis by (auto simp: ledger_inv_def)
qed

section \<open>Preservation by the lifecycle\<close>

subsection \<open>Transitions\<close>

lemma charge_on_update [simp]:
  "charge_on l d (r\<lparr>inv_state := st, inv_updated_at := t\<rparr>) = charge_on l d r"
  by (simp add: charge_on_def held_def split: option.split)

lemma transition_ledger_inv:
  assumes inv: "ledger_inv db"
    and stage: "\<And>r r1 db1 nxt. db_invocations db i = Some r \<Longrightarrow> wf_invocation i r \<Longrightarrow>
      lifecycle (inv_state r) step nxt \<Longrightarrow> f db r = Ok (r1, db1) \<Longrightarrow>
      db_invocations db1 = db_invocations db \<and>
      wf_invocation i (r1\<lparr>inv_state := nxt, inv_updated_at := env_now env\<rparr>) \<and>
      (\<forall>l d. amount_nat (ledger_used db1 l) d + charge_on l d r =
        amount_nat (ledger_used db l) d + charge_on l d r1)"
  shows "ledger_inv (fst (transition env i step boundary f db))"
  unfolding transition_def
proof (rule end_tx_inv [where P = ledger_inv, OF inv])
  fix b v tx
  assume "transition_tx env i step boundary f db = Ok (Commit b v tx)"
  then obtain r nxt r1 db1 stubs parts where
    r: "db_invocations db i = Some r" "lifecycle (inv_state r) step nxt" "f db r = Ok (r1, db1)"
    and tx: "tx = put_invocation (db1\<lparr>db_audit_stub := stubs, db_audit := parts\<rparr>)
        (r1\<lparr>inv_state := nxt, inv_updated_at := env_now env\<rparr>)"
    by (rule transition_Commit)
  have "wf_invocation i r" using inv r(1) by (simp add: ledger_inv_def)
  note st = stage [OF r(1) this r(2,3)]
  then have id: "inv_id r1 = i" by (simp add: wf_invocation_def)
  show "ledger_inv tx"
  proof (rule ledger_inv_update [OF inv])
    show "wf_invocation i (r1\<lparr>inv_state := nxt, inv_updated_at := env_now env\<rparr>)" using st by blast
    show "db_invocations tx = (db_invocations db)(i := Some (r1\<lparr>inv_state := nxt, inv_updated_at := env_now env\<rparr>))"
      using st id by (simp add: tx put_invocation_def)
    have "ledger_used tx l = ledger_used db1 l" for l
      by (simp add: tx put_invocation_def ledger_used_def)
    with st r(1) show "amount_nat (ledger_used tx l) d +
        (case db_invocations db i of Some old \<Rightarrow> charge_on l d old | None \<Rightarrow> 0) =
      amount_nat (ledger_used db l) d +
        charge_on l d (r1\<lparr>inv_state := nxt, inv_updated_at := env_now env\<rparr>)" for l d
      by simp
  qed
qed

lemma lifecycle_not_refused:
  "lifecycle start step to \<Longrightarrow> start \<notin> {Planned, InvocationState.Denied} \<Longrightarrow>
   to \<notin> {Planned, InvocationState.Denied}"
  by (auto elim: lifecycleE)

lemma open_wf_step:
  assumes "wf_invocation i r" and "lifecycle (inv_state r) step nxt" and "\<not> closes step"
    and "inv_id r1 = inv_id r" "inv_ledgers r1 = inv_ledgers r" "inv_debited r1 = inv_debited r"
      "inv_reserved r1 = inv_reserved r"
  shows "wf_invocation i (r1\<lparr>inv_state := nxt, inv_updated_at := t\<rparr>)"
  using assms lifecycle_closes [OF assms(2)] lifecycle_not_refused [OF assms(2)]
  by (auto simp: wf_invocation_def)

lemma stage_transfer_frame:
  assumes "stage_transfer env transfer db r = Ok (r1, db1)"
  shows "\<exists>blobs pending. db1 = db\<lparr>db_blobs := blobs, db_pending := pending\<rparr>"
    and "r1 = r\<lparr>inv_artifact := Some (artifact_ref (inv_id r)), inv_actual := Some (tf_actual transfer),
      inv_revoked_after_effect := tf_revoked_after_effect transfer\<rparr>"
proof -
  from assms obtain db0 where *: "db0 = db \<or> (\<exists>blobs. db0 = db\<lparr>db_blobs := blobs\<rparr>)"
    "\<exists>pending. db1 = db0\<lparr>db_pending := pending\<rparr>"
    unfolding stage_transfer_def Let_def rbind_Ok_iff case_option_eq_iff ensure_Ok_iff by auto
  moreover have "db = db\<lparr>db_blobs := db_blobs db\<rparr>" by simp
  ultimately have "\<exists>blobs. db0 = db\<lparr>db_blobs := blobs\<rparr>" by metis
  with *(2) show "\<exists>blobs pending. db1 = db\<lparr>db_blobs := blobs, db_pending := pending\<rparr>" by auto
  from assms show "r1 = r\<lparr>inv_artifact := Some (artifact_ref (inv_id r)),
      inv_actual := Some (tf_actual transfer),
      inv_revoked_after_effect := tf_revoked_after_effect transfer\<rparr>"
    unfolding stage_transfer_def Let_def rbind_Ok_iff by auto
qed

lemma stage_publish_frame:
  assumes "stage_publish env db r = Ok (r1, db1)"
  shows "r1 = r" and "\<exists>artifacts pending locators index. db1 = db\<lparr>db_artifacts := artifacts,
    db_pending := pending, db_locators := locators, db_session_index := index\<rparr>"
proof -
  from assms obtain db0 where *: "r1 = r"
    "\<exists>artifacts pending locators. db0 = db\<lparr>db_artifacts := artifacts, db_pending := pending,
      db_locators := locators\<rparr>"
    "db1 = db0 \<or> (\<exists>index. db1 = db0\<lparr>db_session_index := index\<rparr>)"
    unfolding stage_publish_def Let_def rbind_Ok_iff case_option_eq_iff ensure_Ok_iff by auto
  then show "r1 = r" by blast
  have "db0 = db0\<lparr>db_session_index := db_session_index db0\<rparr>" by simp
  with *(3) have "\<exists>index. db1 = db0\<lparr>db_session_index := index\<rparr>" by metis
  with *(2) show "\<exists>artifacts pending locators index. db1 = db\<lparr>db_artifacts := artifacts,
    db_pending := pending, db_locators := locators, db_session_index := index\<rparr>" by auto
qed

lemma apply_settlement_effect:
  assumes "apply_settlement s db r = Ok (r1, db1)" and "distinct (inv_ledgers r)"
    and "inv_debited r = None"
    and "\<And>d. amount_nat (debit s) d + amount_nat (release_amount s) d = amount_nat (inv_reserved r) d"
  shows "r1 = r\<lparr>inv_debited := Some (debit s)\<rparr>" and "\<exists>m. db1 = db\<lparr>db_ledgers := m\<rparr>"
    and "amount_nat (ledger_used db1 l) d + charge_on l d r =
      amount_nat (ledger_used db l) d + charge_on l d r1"
proof -
  from assms(1) have rel: "release_ledgers db (inv_ledgers r) (release_amount s) = Ok db1"
    and r1: "r1 = r\<lparr>inv_debited := Some (debit s)\<rparr>"
    by (auto simp: apply_settlement_def rbind_Ok_iff)
  show "r1 = r\<lparr>inv_debited := Some (debit s)\<rparr>" by (rule r1)
  show "\<exists>m. db1 = db\<lparr>db_ledgers := m\<rparr>" using rel by (rule release_ledgers_frame)
  show "amount_nat (ledger_used db1 l) d + charge_on l d r =
      amount_nat (ledger_used db l) d + charge_on l d r1"
    using release_ledgers_amounts [OF rel assms(2), of l d] assms(3) assms(4) [of d]
    by (simp add: r1 charge_on_def held_def)
qed

lemma settlement_result_eq:
  "settlement_result (Budget.settle reserved actual) = Ok s \<Longrightarrow> s = settlement_of reserved actual"
  by (cases "Budget.settle reserved actual")
    (auto simp: settlement_result_def settle_Ok_iff elim: settle_Err)

text \<open>A closing stage records a terminal and settles; the invariant's obligations for all three.\<close>

lemma closing_stage:
  assumes wf: "wf_invocation i r" and step: "lifecycle (inv_state r) step nxt" "closes step"
    and apply_s: "apply_settlement s db r' = Ok (r1, db1)"
    and r': "inv_id r' = inv_id r" "inv_ledgers r' = inv_ledgers r" "inv_debited r' = inv_debited r"
      "inv_reserved r' = inv_reserved r" "map_option terminal_state (inv_terminal r') = Some nxt"
    and cons: "\<And>d. amount_nat (debit s) d + amount_nat (release_amount s) d = amount_nat (inv_reserved r) d"
  shows "db_invocations db1 = db_invocations db \<and>
    wf_invocation i (r1\<lparr>inv_state := nxt, inv_updated_at := t\<rparr>) \<and>
    (\<forall>l d. amount_nat (ledger_used db1 l) d + charge_on l d r =
      amount_nat (ledger_used db l) d + charge_on l d r1)"
proof -
  have open_r: "inv_debited r = None" and nxt: "charged nxt"
    using lifecycle_closes [OF step(1)] step(2) wf by (auto simp: wf_invocation_def)
  have d: "distinct (inv_ledgers r')" using wf r' by (simp add: wf_invocation_def)
  note eff = apply_settlement_effect [OF apply_s d]
  have deb: "amount_nat (debit s) d \<le> amount_nat (inv_reserved r) d" for d using cons [of d] by simp
  have "charge_on l d r' = charge_on l d r" for l d
    using r' by (simp add: charge_on_def held_def split: option.split)
  moreover have "wf_invocation i (r1\<lparr>inv_state := nxt, inv_updated_at := t\<rparr>)"
    using eff(1) open_r r' wf nxt deb cons lifecycle_not_refused [OF step(1)]
    by (auto simp: wf_invocation_def)
  moreover have "db_invocations db1 = db_invocations db"
    using eff(2) open_r r' cons by auto
  ultimately show ?thesis using eff(3) open_r r' cons by simp
qed

lemma dispatch_ledger_inv: "ledger_inv db \<Longrightarrow> ledger_inv (fst (dispatch env i db))"
  unfolding dispatch_def
  by (rule transition_ledger_inv) (auto intro!: open_wf_step)

lemma complete_transfer_ledger_inv:
  "ledger_inv db \<Longrightarrow> ledger_inv (fst (complete_transfer env i transfer db))"
  unfolding complete_transfer_def
proof (rule transition_ledger_inv)
  fix r r1 db1 nxt
  assume r: "wf_invocation i r" "lifecycle (inv_state r) Step.CompleteTransfer nxt"
    and f: "stage_transfer env transfer db r = Ok (r1, db1)"
  note fr = stage_transfer_frame [OF f]
  have "wf_invocation i (r1\<lparr>inv_state := nxt, inv_updated_at := env_now env\<rparr>)"
    by (rule open_wf_step [OF r]) (simp_all add: fr(2))
  moreover have "db_invocations db1 = db_invocations db" "ledger_used db1 = ledger_used db"
    using fr(1) by (auto simp: ledger_used_def fun_eq_iff)
  moreover have "charge_on l d r1 = charge_on l d r" for l d
    by (simp add: fr(2) charge_on_def held_def split: option.split)
  ultimately show "db_invocations db1 = db_invocations db \<and>
      wf_invocation i (r1\<lparr>inv_state := nxt, inv_updated_at := env_now env\<rparr>) \<and>
      (\<forall>l d. amount_nat (ledger_used db1 l) d + charge_on l d r =
        amount_nat (ledger_used db l) d + charge_on l d r1)" by simp
qed

lemma publish_ledger_inv: "ledger_inv db \<Longrightarrow> ledger_inv (fst (publish env i db))"
  unfolding publish_def
proof (rule transition_ledger_inv)
  fix r r1 db1 nxt
  assume r: "wf_invocation i r" "lifecycle (inv_state r) Step.Publish nxt"
    and f: "stage_publish env db r = Ok (r1, db1)"
  note fr = stage_publish_frame [OF f]
  have "wf_invocation i (r1\<lparr>inv_state := nxt, inv_updated_at := env_now env\<rparr>)"
    by (rule open_wf_step [OF r]) (simp_all add: fr(1))
  moreover have "db_invocations db1 = db_invocations db" "ledger_used db1 = ledger_used db"
    using fr(2) by (auto simp: ledger_used_def fun_eq_iff)
  ultimately show "db_invocations db1 = db_invocations db \<and>
      wf_invocation i (r1\<lparr>inv_state := nxt, inv_updated_at := env_now env\<rparr>) \<and>
      (\<forall>l d. amount_nat (ledger_used db1 l) d + charge_on l d r =
        amount_nat (ledger_used db l) d + charge_on l d r1)" by (simp add: fr(1))
qed

lemma settle_ledger_inv: "ledger_inv db \<Longrightarrow> ledger_inv (fst (settle_invocation env i outcome db))"
  unfolding settle_invocation_def
proof (rule transition_ledger_inv)
  fix r r1 db1 nxt
  assume wf: "wf_invocation i r" and step: "lifecycle (inv_state r) Step.Settle nxt"
    and f: "stage_settle outcome db r = Ok (r1, db1)"
  from f obtain actual failure s where
    s: "settlement_result (Budget.settle (inv_reserved r) actual) = Ok s"
    and a: "apply_settlement s db (r\<lparr>inv_actual := Some actual,
      inv_terminal := Some (Terminal.Settled failure)\<rparr>) = Ok (r1, db1)"
    by (auto simp: stage_settle_def rbind_Ok_iff)
  have "nxt = InvocationState.Settled" using step by (auto elim: lifecycleE)
  then show "db_invocations db1 = db_invocations db \<and>
      wf_invocation i (r1\<lparr>inv_state := nxt, inv_updated_at := env_now env\<rparr>) \<and>
      (\<forall>l d. amount_nat (ledger_used db1 l) d + charge_on l d r =
        amount_nat (ledger_used db l) d + charge_on l d r1)"
    by (intro closing_stage [OF wf step _ a])
      (simp_all add: settlement_result_eq [OF s] settlement_conserves del: settlement_debit settlement_release)
qed

lemma release_ledger_inv: "ledger_inv db \<Longrightarrow> ledger_inv (fst (release_invocation env i reason db))"
  unfolding release_invocation_def
proof (rule transition_ledger_inv)
  fix r r1 db1 nxt
  assume wf: "wf_invocation i r" and step: "lifecycle (inv_state r) (Step.Release reason) nxt"
    and f: "stage_release reason db r = Ok (r1, db1)"
  have "nxt = InvocationState.Released" using step by (auto elim: lifecycleE)
  then show "db_invocations db1 = db_invocations db \<and>
      wf_invocation i (r1\<lparr>inv_state := nxt, inv_updated_at := env_now env\<rparr>) \<and>
      (\<forall>l d. amount_nat (ledger_used db1 l) d + charge_on l d r =
        amount_nat (ledger_used db l) d + charge_on l d r1)"
    by (intro closing_stage [OF wf step _ f [unfolded stage_release_def]]) simp_all
qed

lemma unknown_ledger_inv: "ledger_inv db \<Longrightarrow> ledger_inv (fst (mark_unknown_effect env i db))"
  unfolding mark_unknown_effect_def
proof (rule transition_ledger_inv)
  fix r r1 db1 nxt
  assume wf: "wf_invocation i r" and step: "lifecycle (inv_state r) Step.MarkUnknownEffect nxt"
    and f: "stage_unknown db r = Ok (r1, db1)"
  have zero: "amount_nat \<lparr>wall_time_ms = 0, fetches = 0, bytes_transferred = 0, output_bytes = 0,
      tokens = 0, ops_band = 0\<rparr> d = 0" for d by (cases d) simp_all
  have "nxt = InvocationState.UnknownEffect" using step by (auto elim: lifecycleE)
  then show "db_invocations db1 = db_invocations db \<and>
      wf_invocation i (r1\<lparr>inv_state := nxt, inv_updated_at := env_now env\<rparr>) \<and>
      (\<forall>l d. amount_nat (ledger_used db1 l) d + charge_on l d r =
        amount_nat (ledger_used db l) d + charge_on l d r1)"
    by (intro closing_stage [OF wf step _ f [unfolded stage_unknown_def]])
      (simp_all add: unknown_effect_settlement_def zero)
qed

subsection \<open>Intent\<close>

lemma authorize_distinct_ledgers:
  assumes "authorize view request now = Ok (Allowed ids plan)"
  shows "distinct (rp_ledgers plan)"
proof -
  from assms obtain chain session ls where c: "grants_call view request now chain session"
    "ids = map g_id chain" "ledger_states view (az_tenant request) chain session = Ok ls"
    "plan = \<lparr>rp_cost = az_declared request, rp_ledgers = map ls_id ls\<rparr>" "distinct (map g_id chain)"
    by (rule authorize_contract)
  have "distinct (map (\<lambda>link. LedgerGrant (g_id link)) chain)"
    using c(5) by (auto simp: distinct_map inj_on_def)
  with c(4) ledger_states_ids [OF c(3)] show ?thesis by (auto split: option.split)
qed

lemma case_decision_eq_iff:
  "(case x of Allowed c p \<Rightarrow> f c p | _ \<Rightarrow> g) = z \<longleftrightarrow>
   (\<exists>c p. x = Allowed c p \<and> f c p = z) \<or> ((\<forall>c p. x \<noteq> Allowed c p) \<and> g = z)"
  by (cases x) auto

lemma refuse_Commit:
  assumes "refuse env db intent failure = Ok (Commit b v tx)"
  obtains entry seq where "append_audit env db entry = Ok (seq, tx)" "v = Refused failure seq" "b = None"
  using assms by (auto simp: refuse_def Let_def rbind_Ok_iff)

lemma persist_Commit:
  assumes "persist env db intent keys chain reservation = Ok (Commit b v tx)"
  obtains m idem where "debit_ledgers db (debits reservation) = Ok (db\<lparr>db_ledgers := m\<rparr>)"
    and "tx = (put_invocation (db\<lparr>db_ledgers := m\<rparr>) (intent_record env intent chain reservation))\<lparr>db_idem := idem\<rparr>"
    and "v = Persisted (status_of (intent_record env intent chain reservation))"
    and "idem = (db_idem db)((az_tenant (int_authz intent), az_capability (int_authz intent),
        int_idempotency_key intent) := Some \<lparr>sealed_key = kr_active keys, sealed_value =
          \<lparr>idem_invocation = int_invocation intent, idem_request_binding = request_binding env intent\<rparr>\<rparr>)"
proof -
  from assms obtain db1 where db1: "debit_ledgers db (debits reservation) = Ok db1"
    and rest: "tx = (put_invocation db1 (intent_record env intent chain reservation))\<lparr>db_idem :=
       (db_idem db1)((az_tenant (int_authz intent), az_capability (int_authz intent),
        int_idempotency_key intent) := Some \<lparr>sealed_key = kr_active keys, sealed_value =
          \<lparr>idem_invocation = int_invocation intent, idem_request_binding = request_binding env intent\<rparr>\<rparr>)\<rparr>"
      "v = Persisted (status_of (intent_record env intent chain reservation))"
    by (auto simp: persist_def Let_def rbind_Ok_iff put_invocation_def)
  from debit_ledgers_frame [OF db1] obtain m where "db1 = db\<lparr>db_ledgers := m\<rparr>" by blast
  with db1 rest show ?thesis by (intro that [of m]) simp_all
qed

lemma begin_Commit:
  assumes "begin_tx env intent db = Ok (Commit b v tx)"
  obtains (refused) entry seq failure where "append_audit env db entry = Ok (seq, tx)" "v = Refused failure seq"
    | (persisted) keys chain reservation where
      "tenant_keys db (az_tenant (int_authz intent)) = Ok keys"
      "db_invocations db (int_invocation intent) = None"
      "db_idem db (az_tenant (int_authz intent), az_capability (int_authz intent), int_idempotency_key intent) = None"
      "authorize (store_view db) (int_authz intent) (env_now env) = Ok (Allowed chain reservation)"
      "\<not> session_owner_shredded db (az_session (int_authz intent))"
      "persist env db intent keys chain reservation = Ok (Commit b v tx)"
proof -
  from assms obtain keys decision where
    "tenant_keys db (az_tenant (int_authz intent)) = Ok keys"
    "db_invocations db (int_invocation intent) = None"
    "db_idem db (az_tenant (int_authz intent), az_capability (int_authz intent), int_idempotency_key intent) = None"
    "authorize (store_view db) (int_authz intent) (env_now env) = Ok decision"
    "(\<exists>chain reservation. decision = Allowed chain reservation \<and>
        \<not> session_owner_shredded db (az_session (int_authz intent)) \<and>
        persist env db intent keys chain reservation = Ok (Commit b v tx)) \<or>
     (\<exists>failure. refuse env db intent failure = Ok (Commit b v tx))"
    unfolding begin_tx_def Let_def result_iffs case_option_eq_iff case_decision_eq_iff if_eq_iff by auto blast+
  then show ?thesis
  proof (elim disjE exE conjE)
    fix failure
    assume "refuse env db intent failure = Ok (Commit b v tx)"
    then show ?thesis by (rule refuse_Commit) (rule refused)
  qed (use persisted in blast)
qed

lemma wf_intent_record:
  "distinct (rp_ledgers reservation) \<Longrightarrow>
   wf_invocation (int_invocation intent) (intent_record env intent chain reservation)"
  by (simp add: wf_invocation_def intent_record_def charged_def)

lemma begin_ledger_inv:
  assumes inv: "ledger_inv db"
  shows "ledger_inv (fst (begin_invocation env intent db))"
  unfolding begin_invocation_def
proof (rule end_tx_inv [where P = ledger_inv, OF inv])
  fix b v tx
  assume "begin_tx env intent db = Ok (Commit b v tx)"
  then show "ledger_inv tx"
  proof (cases rule: begin_Commit)
    case (refused entry seq failure)
    from refused(1) obtain stubs parts where "tx = db\<lparr>db_audit_stub := stubs, db_audit := parts\<rparr>"
      by (rule append_audit_frame)
    with inv ledger_inv_cong [of tx db] show ?thesis by simp
  next
    case (persisted keys chain reservation)
    let ?r = "intent_record env intent chain reservation"
    from persisted(6) obtain m idem where m: "debit_ledgers db (debits reservation) = Ok (db\<lparr>db_ledgers := m\<rparr>)"
      and tx: "tx = (put_invocation (db\<lparr>db_ledgers := m\<rparr>) ?r)\<lparr>db_idem := idem\<rparr>"
      by (rule persist_Commit)
    have dist: "distinct (rp_ledgers reservation)" using persisted(4) by (rule authorize_distinct_ledgers)
    show ?thesis
    proof (rule ledger_inv_update [OF inv wf_intent_record [OF dist]])
      show "db_invocations tx = (db_invocations db)(int_invocation intent := Some ?r)"
        by (simp add: tx put_invocation_def intent_record_def)
      fix l d
      have "charge_on l d ?r = (if l \<in> set (rp_ledgers reservation) then amount_nat (rp_cost reservation) d else 0)"
        by (simp add: charge_on_def held_def intent_record_def)
      moreover have "ledger_used tx l = ledger_used (db\<lparr>db_ledgers := m\<rparr>) l"
        by (simp add: tx put_invocation_def ledger_used_def)
      ultimately show "amount_nat (ledger_used tx l) d + (case db_invocations db (int_invocation intent) of
            Some old \<Rightarrow> charge_on l d old | None \<Rightarrow> 0) = amount_nat (ledger_used db l) d + charge_on l d ?r"
        using debit_ledgers_amounts [OF m [unfolded debits_def] dist, of l d] persisted(2) by simp
    qed
  qed
qed

section \<open>Operations outside the lifecycle\<close>

text \<open>Each directory operation leaves invocations and ledgers alone and only adds to the directory.\<close>

definition directory_step :: "Db \<Rightarrow> Db \<Rightarrow> bool" where
  "directory_step db tx \<longleftrightarrow>
     db_invocations tx = db_invocations db \<and> db_ledgers tx = db_ledgers db \<and>
     (\<forall>g r. db_grants db g = Some r \<longrightarrow> db_grants tx g = Some r) \<and>
     (\<forall>s r. db_sessions db s = Some r \<longrightarrow> db_sessions tx s = Some r) \<and>
     (\<forall>t r. db_tenants db t = Some r \<longrightarrow>
        db_tenants tx t = Some r \<or> (db_tenants tx t = None \<and> db_tombstones tx t \<noteq> None)) \<and>
     (\<forall>t. db_tombstones db t \<noteq> None \<longrightarrow> db_tombstones tx t \<noteq> None \<and> db_tenants tx t = db_tenants db t) \<and>
     (\<forall>t. db_tombstones tx t \<noteq> None \<longrightarrow> db_tombstones db t \<noteq> None \<or> db_tenants tx t = None)"

lemma directory_step_refl: "directory_step db db"
  by (simp add: directory_step_def)

lemma append_audit_directory:
  "append_audit env db entry = Ok (seq, tx) \<Longrightarrow> directory_step db tx"
  by (erule append_audit_frame) (simp add: directory_step_def)

lemma directory_step_audit:
  "append_audit env tx entry = Ok (seq, tx') \<Longrightarrow> directory_step db tx \<Longrightarrow> directory_step db tx'"
  by (erule append_audit_frame) (simp add: directory_step_def)

lemma register_tenant_step:
  "register_tenant_tx env reg db = Ok (Commit b v tx) \<Longrightarrow> directory_step db tx"
  unfolding register_tenant_tx_def case_option_eq_iff result_iffs
  by (auto simp: directory_step_def split: if_splits)

lemma put_new_grant_step: "put_new_grant db r = Ok (staged, tx) \<Longrightarrow> directory_step db tx"
  unfolding put_new_grant_def case_option_eq_iff result_iffs by (auto simp: directory_step_def)

lemma install_root_grant_step:
  "install_root_grant_tx root db = Ok (Commit b v tx) \<Longrightarrow> directory_step db tx"
  unfolding install_root_grant_tx_def
  by (auto simp: rbind_Ok_iff split: if_splits dest: put_new_grant_step)

lemma audit_issue_Commit:
  "audit_issue env issue tx outcome state kind = Ok (Commit b v tx') \<Longrightarrow>
   v = outcome \<and> (\<exists>entry seq. append_audit env tx entry = Ok (seq, tx'))"
  by (auto simp: audit_issue_def Let_def rbind_Ok_iff)

lemma decide_issue_Commit:
  assumes "decide_issue env issue db = Ok (Commit b v tx)"
  obtains (issued) child tx0 where
      "check_issue (store_view db) (gi_context issue) (gi_request issue) (env_now env) = Ok (Issued child)"
      "put_new_grant db (grant_record_from child (req_target_scope (gi_request issue))) = Ok (True, tx0)"
      "audit_issue env issue tx0 (OutcomeIssued (g_id child) (ctx_designated (gi_context issue)))
         InvocationState.Settled Success = Ok (Commit b v tx)"
    | (refused) failure kind where
      "audit_issue env issue db (OutcomeRefused failure) InvocationState.Denied kind = Ok (Commit b v tx)"
proof -
  from assms obtain decision where
    d: "check_issue (store_view db) (gi_context issue) (gi_request issue) (env_now env) = Ok decision"
    unfolding decide_issue_def Let_def by (auto simp: result_iffs)
  show ?thesis
  proof (cases decision)
    case (Issued child)
    with assms d show ?thesis
      unfolding decide_issue_def Let_def
      by (auto simp: rbind_Ok_iff grant_record_from_def split: if_splits intro: issued)
  qed (use assms d in \<open>auto simp: decide_issue_def Let_def intro: refused\<close>)
qed

lemma decide_issue_step: "decide_issue env issue db = Ok (Commit b v tx) \<Longrightarrow> directory_step db tx"
  by (erule decide_issue_Commit)
    (auto dest!: audit_issue_Commit put_new_grant_step intro: directory_step_audit append_audit_directory)

lemma issue_grant_step: "issue_grant_tx env issue db = Ok (Commit b v tx) \<Longrightarrow> directory_step db tx"
  unfolding issue_grant_tx_def Let_def case_option_eq_iff if_eq_iff ensure_Ok_iff
  by (auto intro: decide_issue_step)

lemma revoke_grant_step: "revoke_grant_tx env revoke db = Ok (Commit b v tx) \<Longrightarrow> directory_step db tx"
  unfolding revoke_grant_tx_def Let_def case_option_eq_iff if_eq_iff
  by (auto simp: rbind_Ok_iff directory_step_def elim!: append_audit_frame)

lemma open_session_step: "open_session_tx env new parent db = Ok (Commit b v tx) \<Longrightarrow> directory_step db tx"
  unfolding open_session_tx_def Let_def rbind_Ok_iff case_option_eq_iff if_eq_iff ensure_Ok_iff
  by (auto simp: directory_step_def elim!: append_audit_frame)

lemma claim_step: "claim_tx env claim db = Ok (Commit b v tx) \<Longrightarrow> directory_step db tx"
  unfolding claim_tx_def Let_def rbind_Ok_iff case_option_eq_iff
  by (auto simp: directory_step_def)

lemma shred_step: "shred_tenant_tx env sessions scan tenant db = Ok (Commit b v tx) \<Longrightarrow> directory_step db tx"
  unfolding shred_tenant_tx_def Let_def rbind_Ok_iff if_eq_iff ensure_Ok_iff
  by (auto simp: directory_step_def split: if_splits)

end
