(* ===== verification/Reachable.thy ===== *)
theory Reachable
  imports Ledgers
begin

text \<open>
  The store as a state machine: one step is any operation under any environment, so at any time and
  with a crash injected at any boundary.  Reachable databases are those the empty database leads to;
  invariants hold in all of them.  Conservation
  comes from the theory of ledgers; here it is joined with the ceilings of grants, sessions and
  tenants.
\<close>

section \<open>Steps and reachable databases\<close>

inductive store_step :: "Db \<Rightarrow> Db \<Rightarrow> bool" where
  begin_step: "store_step db (fst (begin_invocation env intent db))"
| dispatch_step: "store_step db (fst (dispatch env i db))"
| transfer_step: "store_step db (fst (complete_transfer env i transfer db))"
| publish_step: "store_step db (fst (publish env i db))"
| settle_step: "store_step db (fst (settle_invocation env i outcome db))"
| release_step: "store_step db (fst (release_invocation env i reason db))"
| unknown_step: "store_step db (fst (mark_unknown_effect env i db))"
| register_step: "store_step db (fst (register_tenant env reg db))"
| root_step: "store_step db (fst (install_root_grant env root db))"
| issue_step: "store_step db (fst (issue_grant env issue db))"
| revoke_step: "store_step db (fst (revoke_grant env revoke db))"
| session_step: "store_step db (fst (open_session env new parent db))"
| claim_step: "store_step db (fst (claim_key env claim db))"
| audit_step: "store_step db (fst (record_audit env note db))"
| shred_step: "set sessions = dom (db_sessions db) \<Longrightarrow> set scan = dom (db_invocations db) \<Longrightarrow>
    store_step db (fst (shred_tenant env sessions scan tenant db))"

definition store_reachable :: "Db \<Rightarrow> bool" where
  "store_reachable db \<longleftrightarrow> store_step\<^sup>*\<^sup>* empty_db db"

lemma reachable_empty: "store_reachable empty_db"
  by (simp add: store_reachable_def)

lemma reachable_step: "store_reachable db \<Longrightarrow> store_step db db' \<Longrightarrow> store_reachable db'"
  by (simp add: store_reachable_def rtranclp.rtrancl_into_rtrancl)

lemma reachable_invariant:
  assumes "store_reachable db" and "P empty_db"
    and "\<And>a b. P a \<Longrightarrow> store_step a b \<Longrightarrow> P b"
  shows "P db"
  using assms(1) unfolding store_reachable_def
  by (induction rule: rtranclp_induct) (auto intro: assms)

text \<open>The operations outside the lifecycle, as one case.\<close>

lemma end_tx_directory:
  assumes "\<And>b v tx. r = Ok (Commit b v tx) \<Longrightarrow> directory_step db tx"
  shows "directory_step db (fst (end_tx env db r))"
  using directory_step_refl assms by (rule end_tx_inv [where P = "directory_step db"])

lemma directory_ops:
  "directory_step db (fst (register_tenant env reg db))"
  "directory_step db (fst (install_root_grant env root db))"
  "directory_step db (fst (issue_grant env issue db))"
  "directory_step db (fst (revoke_grant env revoke db))"
  "directory_step db (fst (open_session env new parent db))"
  "directory_step db (fst (claim_key env claim db))"
  "directory_step db (fst (record_audit env note db))"
  "directory_step db (fst (shred_tenant env sessions scan tenant db))"
  unfolding register_tenant_def install_root_grant_def issue_grant_def revoke_grant_def
    open_session_def claim_key_def record_audit_def shred_tenant_def Let_def
  by (rule end_tx_directory,
      auto intro: register_tenant_step install_root_grant_step issue_grant_step revoke_grant_step
        open_session_step Ledgers.claim_step Ledgers.shred_step append_audit_directory
        simp: rbind_Ok_iff)+

lemma directory_ledger_inv: "directory_step db db' \<Longrightarrow> ledger_inv db \<Longrightarrow> ledger_inv db'"
  using ledger_inv_cong [of db' db] by (simp add: directory_step_def)

lemma store_step_ledger_inv: "store_step db db' \<Longrightarrow> ledger_inv db \<Longrightarrow> ledger_inv db'"
  by (induction rule: store_step.induct)
    (simp_all add: begin_ledger_inv dispatch_ledger_inv complete_transfer_ledger_inv
      publish_ledger_inv settle_ledger_inv release_ledger_inv unknown_ledger_inv
      directory_ledger_inv [OF directory_ops(1)] directory_ledger_inv [OF directory_ops(2)]
      directory_ledger_inv [OF directory_ops(3)] directory_ledger_inv [OF directory_ops(4)]
      directory_ledger_inv [OF directory_ops(5)] directory_ledger_inv [OF directory_ops(6)]
      directory_ledger_inv [OF directory_ops(7)] directory_ledger_inv [OF directory_ops(8)])

lemma reachable_ledger_inv: "store_reachable db \<Longrightarrow> ledger_inv db"
  by (rule reachable_invariant) (auto intro: ledger_inv_empty store_step_ledger_inv)

section \<open>Ceilings\<close>

definition ceiling_inv :: "Db \<Rightarrow> bool" where
  "ceiling_inv db \<longleftrightarrow> ledger_inv db \<and>
     (\<forall>i r l. db_invocations db i = Some r \<longrightarrow> l \<in> set (inv_ledgers r) \<longrightarrow> ledger_known db l) \<and>
     (\<forall>l d c. ceilings_get (ledger_limits db l) d = Some c \<longrightarrow> amount_nat (ledger_used db l) d \<le> unat c)"

lemma unknown_ledger_unused:
  assumes "ceiling_inv db" and "\<not> ledger_known db l"
  shows "amount_nat (ledger_used db l) d = 0"
proof -
  have "charge_on l d (the (db_invocations db i)) = 0" if "i \<in> dom (db_invocations db)" for i
    using that assms by (auto simp: ceiling_inv_def charge_on_def)
  then have "total_on db l d = 0" by (simp add: total_on_def)
  with assms(1) show ?thesis by (simp add: ceiling_inv_def ledger_inv_def)
qed

lemma directory_step_known: "directory_step db db' \<Longrightarrow> ledger_known db l \<Longrightarrow> ledger_known db' l"
  unfolding directory_step_def ledger_known_def by (cases l) (simp, fastforce, fastforce, fastforce)

lemma directory_step_limits:
  assumes "directory_step db db'" and "ledger_known db l"
  shows "ledger_limits db' l = ledger_limits db l \<or> ledger_limits db' l = ceilings_default"
  using assms
  by (cases l) (fastforce simp: directory_step_def ledger_known_def ledger_limits_def)+

lemma directory_ceiling_inv:
  assumes step: "directory_step db db'" and inv: "ceiling_inv db"
  shows "ceiling_inv db'"
proof -
  have same: "db_invocations db' = db_invocations db" "ledger_used db' = ledger_used db"
    using step by (auto simp: directory_step_def ledger_used_def fun_eq_iff)
  have "amount_nat (ledger_used db' l) d \<le> unat c"
    if c: "ceilings_get (ledger_limits db' l) d = Some c" for l d c
  proof (cases "ledger_known db l")
    case True
    with directory_step_limits [OF step True] c inv show ?thesis
      by (auto simp: same ceiling_inv_def)
  next
    case False
    with unknown_ledger_unused [OF inv False] show ?thesis by (simp add: same)
  qed
  with inv step same directory_step_known [OF step] directory_ledger_inv [OF step] show ?thesis
    by (auto simp: ceiling_inv_def)
qed

subsection \<open>Transitions\<close>

text \<open>What the stages of a transition leave alone.\<close>

definition same_directory :: "Db \<Rightarrow> Db \<Rightarrow> bool" where
  "same_directory db db' \<longleftrightarrow> db_grants db' = db_grants db \<and> db_sessions db' = db_sessions db \<and>
     db_tenants db' = db_tenants db \<and> db_tombstones db' = db_tombstones db \<and>
     db_data_keys db' = db_data_keys db \<and> db_address_keys db' = db_address_keys db \<and>
     db_rekey db' = db_rekey db \<and> db_revocations db' = db_revocations db"

lemma same_directory_limits:
  "same_directory db db' \<Longrightarrow> ledger_limits db' = ledger_limits db \<and> ledger_known db' = ledger_known db"
  by (simp add: same_directory_def ledger_limits_def ledger_known_def fun_eq_iff split: LedgerId.split)

definition frames_stage :: "(Db \<Rightarrow> InvocationRecord \<Rightarrow> (InvocationRecord \<times> Db, StoreError) result) \<Rightarrow> bool" where
  "frames_stage f \<longleftrightarrow> (\<forall>db r r1 db1. f db r = Ok (r1, db1) \<longrightarrow>
     inv_id r1 = inv_id r \<and> inv_tenant r1 = inv_tenant r \<and> inv_session r1 = inv_session r \<and>
     inv_ledgers r1 = inv_ledgers r \<and> inv_reserved r1 = inv_reserved r \<and>
     db_invocations db1 = db_invocations db \<and> db_audit_stub db1 = db_audit_stub db \<and>
     db_audit db1 = db_audit db \<and> same_directory db db1)"

lemma apply_settlement_frame:
  assumes "apply_settlement s db r = Ok (r1, db1)"
  obtains m where "r1 = r\<lparr>inv_debited := Some (debit s)\<rparr>" and "db1 = db\<lparr>db_ledgers := m\<rparr>"
  using assms release_ledgers_frame by (fastforce simp: apply_settlement_def rbind_Ok_iff)

lemma frames_stages:
  "frames_stage (\<lambda>db r. Ok (r, db))"
  "frames_stage (stage_transfer env transfer)"
  "frames_stage (stage_publish env)"
  "frames_stage (stage_settle outcome)"
  "frames_stage (stage_release reason)"
  "frames_stage stage_unknown"
  unfolding frames_stage_def same_directory_def stage_settle_def stage_release_def stage_unknown_def
  by (auto simp: rbind_Ok_iff dest: stage_transfer_frame stage_publish_frame elim!: apply_settlement_frame)

lemma held_decreases:
  assumes "wf_invocation i r" and "wf_invocation i r'" and "\<not> charged (inv_state r)"
    and "inv_ledgers r' = inv_ledgers r" and "inv_reserved r' = inv_reserved r"
  shows "charge_on l d r' \<le> charge_on l d r"
  using assms by (auto simp: charge_on_def held_def wf_invocation_def split: option.split)

lemma transition_ceiling_inv:
  assumes inv: "ceiling_inv db" and frame: "frames_stage f"
    and led: "ledger_inv (fst (transition env i step boundary f db))"
  shows "ceiling_inv (fst (transition env i step boundary f db))"
proof -
  have "ledger_inv (fst (transition env i step boundary f db)) \<longrightarrow>
      ceiling_inv (fst (transition env i step boundary f db))"
    unfolding transition_def
  proof (rule end_tx_inv [where P = "\<lambda>x. ledger_inv x \<longrightarrow> ceiling_inv x"], use inv in simp, intro impI)
    fix b v tx
    assume t: "transition_tx env i step boundary f db = Ok (Commit b v tx)" and tinv: "ledger_inv tx"
    from t obtain r nxt r1 db1 stubs parts where
      r: "db_invocations db i = Some r" "lifecycle (inv_state r) step nxt" "f db r = Ok (r1, db1)"
      and tx: "tx = put_invocation (db1\<lparr>db_audit_stub := stubs, db_audit := parts\<rparr>)
          (r1\<lparr>inv_state := nxt, inv_updated_at := env_now env\<rparr>)"
      by (rule transition_Commit)
    let ?r = "r1\<lparr>inv_state := nxt, inv_updated_at := env_now env\<rparr>"
    have dinv: "ledger_inv db" using inv by (simp add: ceiling_inv_def)
    have f: "inv_id r1 = inv_id r" "inv_ledgers ?r = inv_ledgers r" "inv_reserved ?r = inv_reserved r"
      "db_invocations db1 = db_invocations db" "same_directory db db1"
      using frame r(3) by (auto simp: frames_stage_def)
    have wf: "wf_invocation i r" and id: "inv_id ?r = i"
      using dinv r(1) f(1) by (auto simp: ledger_inv_def wf_invocation_def)
    have invs: "db_invocations tx = (db_invocations db)(i := Some ?r)"
      using f(4) id by (simp add: tx put_invocation_def)
    have dir: "same_directory db tx" using f(5) by (simp add: tx put_invocation_def same_directory_def)
    have "wf_invocation i ?r" using tinv invs by (simp add: ledger_inv_def)
    with wf f(2,3) lifecycle_closes [OF r(2)] have less: "charge_on l d ?r \<le> charge_on l d r" for l d
      by (intro held_decreases) auto
    have "total_on tx l d + charge_on l d r = total_on db l d + charge_on l d ?r" for l d
      using total_on_update [of db ?r i l d] dinv id r(1) invs
      by (simp add: ledger_inv_def total_on_def put_invocation_def)
    from this [of l d for l d] less have "total_on tx l d \<le> total_on db l d" for l d
      by (metis add_le_cancel_right add_left_mono)
    with dinv tinv have used: "amount_nat (ledger_used tx l) d \<le> amount_nat (ledger_used db l) d" for l d
      by (simp add: ledger_inv_def)
    show "ceiling_inv tx"
      using inv tinv invs f(2) r(1) same_directory_limits [OF dir]
      by (auto simp: ceiling_inv_def intro!: le_trans [OF used])
  qed
  with led show ?thesis by blast
qed

subsection \<open>Intent and the whole store\<close>

lemma tenant_keys_known: "tenant_keys db t = Ok keys \<Longrightarrow> ledger_known db (LedgerTenant t)"
  by (auto simp: tenant_keys_def key_ids_def ledger_known_def split: option.splits)

lemma begin_ceiling_inv:
  assumes inv: "ceiling_inv db"
  shows "ceiling_inv (fst (begin_invocation env intent db))"
proof -
  have "ledger_inv (fst (begin_invocation env intent db)) \<longrightarrow> ceiling_inv (fst (begin_invocation env intent db))"
    unfolding begin_invocation_def
  proof (rule end_tx_inv [where P = "\<lambda>x. ledger_inv x \<longrightarrow> ceiling_inv x"], use inv in simp, intro impI)
    fix b v tx
    assume "begin_tx env intent db = Ok (Commit b v tx)" and tinv: "ledger_inv tx"
    then show "ceiling_inv tx"
    proof (cases rule: begin_Commit)
      case (refused entry seq failure)
      with directory_ceiling_inv [OF append_audit_directory inv] show ?thesis by blast
    next
      case (persisted keys chain reservation)
      let ?r = "intent_record env intent chain reservation"
      from persisted(6) obtain m idem where m: "debit_ledgers db (debits reservation) = Ok (db\<lparr>db_ledgers := m\<rparr>)"
        and tx: "tx = (put_invocation (db\<lparr>db_ledgers := m\<rparr>) ?r)\<lparr>db_idem := idem\<rparr>"
        by (rule persist_Commit)
      have dist: "distinct (rp_ledgers reservation)" using persisted(4) by (rule authorize_distinct_ledgers)
      note table = store_table.allowed_within_limits [OF persisted(4)]
      have dir: "same_directory db tx" by (simp add: tx put_invocation_def same_directory_def)
      have "ledger_known db l" if "l \<in> set (inv_ledgers ?r)" for l
        using table(1) [of l] that tenant_keys_known [OF persisted(1)] by (auto simp: intent_record_def)
      moreover have "amount_nat (ledger_used tx l) d \<le> unat c"
        if c: "ceilings_get (ledger_limits db l) d = Some c" for l d c
      proof -
        have "amount_nat (ledger_used tx l) d = amount_nat (ledger_used db l) d +
            (if l \<in> set (rp_ledgers reservation) then amount_nat (rp_cost reservation) d else 0)"
          using debit_ledgers_amounts [OF m [unfolded debits_def] dist, of l d]
          by (simp add: tx put_invocation_def ledger_used_def)
        with table(2) [OF _ c] inv c show ?thesis by (auto simp: ceiling_inv_def)
      qed
      moreover have "db_invocations tx = (db_invocations db)(int_invocation intent := Some ?r)"
        by (simp add: tx put_invocation_def intent_record_def)
      ultimately show ?thesis
        using inv tinv same_directory_limits [OF dir] by (auto simp: ceiling_inv_def)
    qed
  qed
  with inv begin_ledger_inv show ?thesis by (simp add: ceiling_inv_def)
qed

lemma lifecycle_ceiling_inv:
  assumes "ceiling_inv db"
  shows "ceiling_inv (fst (dispatch env i db))"
    and "ceiling_inv (fst (complete_transfer env i transfer db))"
    and "ceiling_inv (fst (publish env i db))"
    and "ceiling_inv (fst (settle_invocation env i outcome db))"
    and "ceiling_inv (fst (release_invocation env i reason db))"
    and "ceiling_inv (fst (mark_unknown_effect env i db))"
proof -
  have inv: "ledger_inv db" using assms by (simp add: ceiling_inv_def)
  note * = transition_ceiling_inv [OF assms]
  show "ceiling_inv (fst (dispatch env i db))"
    unfolding dispatch_def by (rule * [OF frames_stages(1) dispatch_ledger_inv [OF inv, unfolded dispatch_def]])
  show "ceiling_inv (fst (complete_transfer env i transfer db))"
    unfolding complete_transfer_def
    by (rule * [OF frames_stages(2) complete_transfer_ledger_inv [OF inv, unfolded complete_transfer_def]])
  show "ceiling_inv (fst (publish env i db))"
    unfolding publish_def by (rule * [OF frames_stages(3) publish_ledger_inv [OF inv, unfolded publish_def]])
  show "ceiling_inv (fst (settle_invocation env i outcome db))"
    unfolding settle_invocation_def
    by (rule * [OF frames_stages(4) settle_ledger_inv [OF inv, unfolded settle_invocation_def]])
  show "ceiling_inv (fst (release_invocation env i reason db))"
    unfolding release_invocation_def
    by (rule * [OF frames_stages(5) release_ledger_inv [OF inv, unfolded release_invocation_def]])
  show "ceiling_inv (fst (mark_unknown_effect env i db))"
    unfolding mark_unknown_effect_def
    by (rule * [OF frames_stages(6) unknown_ledger_inv [OF inv, unfolded mark_unknown_effect_def]])
qed

lemma ceiling_inv_empty: "ceiling_inv empty_db"
  by (auto simp: ceiling_inv_def ledger_inv_empty)
    (auto simp: empty_db_def ledger_used_def)

lemma store_step_ceiling_inv: "store_step db db' \<Longrightarrow> ceiling_inv db \<Longrightarrow> ceiling_inv db'"
  by (induction rule: store_step.induct)
    (blast intro: begin_ceiling_inv lifecycle_ceiling_inv directory_ceiling_inv directory_ops)+

lemma reachable_ceiling_inv: "store_reachable db \<Longrightarrow> ceiling_inv db"
  by (rule reachable_invariant) (auto intro: ceiling_inv_empty store_step_ceiling_inv)

end
