(* ===== verification/AuditLog.thy ===== *)
theory AuditLog
  imports Reachable
begin

text \<open>
  The audit log as a store-wide invariant (\<^verbatim>\<open>crates/phylake/src/store/audit.rs\<close>): sequence numbers run
  from 1 without a gap, and every stub is mirrored by exactly one entry, in the partition of the tenant
  it concerns.
\<close>

section \<open>The log invariant\<close>

definition mirrors :: "TenantId \<Rightarrow> u64 \<Rightarrow> AuditStubRecord \<Rightarrow> AuditEntryRecord \<Rightarrow> bool" where
  "mirrors t k stub entry \<longleftrightarrow> stub_seq stub = AuditSeq k \<and> aer_seq entry = AuditSeq k \<and>
     aer_tenant entry = t \<and> aer_invocation entry = stub_invocation stub \<and>
     aer_capability entry = stub_capability stub \<and> aer_outcome entry = stub_outcome stub \<and>
     aer_time entry = stub_time stub"

definition audit_inv :: "Db \<Rightarrow> bool" where
  "audit_inv db \<longleftrightarrow>
     map (unat \<circ> fst) (db_audit_stub db) = [1..<Suc (length (db_audit_stub db))] \<and>
     (\<forall>t. sorted_wrt (<) (map fst (db_audit db t))) \<and>
     (\<forall>t k e. (k, e) \<in> set (db_audit db t) \<longrightarrow>
        (\<exists>stub. (k, stub) \<in> set (db_audit_stub db) \<and> mirrors t k stub (sealed_value e))) \<and>
     (\<forall>k. k \<in> fst ` set (db_audit_stub db) \<longrightarrow> (\<exists>!t. k \<in> fst ` set (db_audit db t)))"

definition last_seq :: "Db \<Rightarrow> nat" where
  "last_seq db = length (db_audit_stub db)"

lemma u64_bound: "unat (k :: u64) < 2 ^ 64"
proof -
  have "unat k < 2 ^ LENGTH(64)" by (rule unsigned_less)
  then show ?thesis by simp
qed

lemma kv_insert_append:
  "(\<And>k'. k' \<in> fst ` set kvs \<Longrightarrow> k' < k) \<Longrightarrow> kv_insert k v kvs = kvs @ [(k, v)]"
proof (induction kvs)
  case (Cons p kvs)
  obtain k' v' where p: "p = (k', v')" by (cases p)
  then have "k' < k" using Cons.prems [of k'] by simp
  then have "\<not> k < k'" "k \<noteq> k'" by auto
  with Cons p show ?case by simp
qed simp

lemma stub_key_iff:
  assumes "audit_inv db"
  shows "k \<in> fst ` set (db_audit_stub db) \<longleftrightarrow> 1 \<le> unat k \<and> unat k \<le> last_seq db"
proof -
  have "unat ` fst ` set (db_audit_stub db) = set (map (unat \<circ> fst) (db_audit_stub db))"
    by (simp add: image_comp)
  also have "\<dots> = {1..last_seq db}" using assms by (auto simp: audit_inv_def last_seq_def)
  finally have eq: "unat ` fst ` set (db_audit_stub db) = {1..last_seq db}" .
  have "k \<in> fst ` set (db_audit_stub db) \<longleftrightarrow> unat k \<in> unat ` fst ` set (db_audit_stub db)"
    by (rule inj_image_mem_iff [symmetric]) (simp add: inj_def word_unat_eq_iff)
  with eq show ?thesis by simp
qed

lemma last_seq_bound: "audit_inv db \<Longrightarrow> last_seq db < 2 ^ 64"
proof (rule ccontr)
  assume inv: "audit_inv db" and "\<not> last_seq db < 2 ^ 64"
  then have "last_seq db \<in> set [1..<Suc (last_seq db)]" by simp
  then have "last_seq db \<in> set (map (unat \<circ> fst) (db_audit_stub db))"
    using inv unfolding audit_inv_def last_seq_def by (metis (no_types))
  then obtain k :: u64 where "last_seq db = unat k" by auto
  with u64_bound [of k] \<open>\<not> last_seq db < 2 ^ 64\<close> show False by simp
qed

lemma last_stub:
  assumes "audit_inv db" and "db_audit_stub db \<noteq> []"
  shows "unat (fst (last (db_audit_stub db))) = last_seq db"
proof -
  have "unat (fst (last (db_audit_stub db))) = last (map (unat \<circ> fst) (db_audit_stub db))"
    using assms(2) by (simp add: last_map)
  also have "\<dots> = last [1..<Suc (length (db_audit_stub db))]" using assms(1) by (simp add: audit_inv_def)
  also have "\<dots> = last_seq db" using assms(2) by (cases "db_audit_stub db") (simp_all add: last_seq_def)
  finally show ?thesis .
qed

lemma next_audit_seq_iff:
  assumes "audit_inv db"
  shows "next_audit_seq db = Ok seq \<longleftrightarrow> last_seq db + 1 < 2 ^ 64 \<and> unat seq = last_seq db + 1"
proof -
  let ?l = "if db_audit_stub db = [] then 0 else fst (last (db_audit_stub db))"
  have l: "unat ?l = last_seq db" using last_stub [OF assms] by (simp add: last_seq_def)
  have "next_audit_seq db = Ok seq \<longleftrightarrow> checked_add ?l 1 = Some seq"
    by (simp add: next_audit_seq_def ok_or_def split: option.split)
  with l u64_bound [of seq] show ?thesis by (auto simp: checked_add_Some_iff)
qed

lemma partition_key:
  assumes "audit_inv db" and "k \<in> fst ` set (db_audit db t)"
  shows "k \<in> fst ` set (db_audit_stub db)"
proof -
  from assms(2) obtain e where "(k, e) \<in> set (db_audit db t)" by auto
  with assms(1) obtain stub where "(k, stub) \<in> set (db_audit_stub db)" unfolding audit_inv_def by blast
  then show ?thesis by (simp add: rev_image_eqI)
qed

lemma append_audit_effect:
  assumes inv: "audit_inv db" and "append_audit env db entry = Ok (seq, tx)"
  obtains k keys stub val where "unat k = last_seq db + 1" and "seq = AuditSeq k"
    and "db_audit_stub tx = db_audit_stub db @ [(k, stub)]"
    and "db_audit tx = (db_audit db)(ae_tenant entry := db_audit db (ae_tenant entry) @
      [(k, \<lparr>sealed_key = keys, sealed_value = val\<rparr>)])"
    and "mirrors (ae_tenant entry) k stub val"
proof -
  from assms(2) obtain k where k: "next_audit_seq db = Ok k"
    unfolding append_audit_def by (auto simp: rbind_Ok_iff)
  then have next_k: "unat k = last_seq db + 1" by (simp add: next_audit_seq_iff [OF inv])
  have "k' < k" if "k' \<in> fst ` set (db_audit_stub db)" for k'
    using that next_k by (simp add: stub_key_iff [OF inv] word_less_nat_alt)
  with partition_key [OF inv] have ins: "kv_insert k v (db_audit_stub db) = db_audit_stub db @ [(k, v)]"
    "kv_insert k w (db_audit db t) = db_audit db t @ [(k, w)]" for v w t
    by (blast intro: kv_insert_append)+
  from assms(2) k show ?thesis
    unfolding append_audit_def Let_def
    by (auto simp: rbind_Ok_iff ins mirrors_def intro!: that [OF next_k])
qed

lemma append_audit_inv:
  assumes inv: "audit_inv db" and app: "append_audit env db entry = Ok (seq, tx)"
  shows "audit_inv tx" and "last_seq tx = last_seq db + 1"
proof -
  from append_audit_effect [OF assms] obtain k keys stub val where
    k: "unat k = last_seq db + 1" and stubs: "db_audit_stub tx = db_audit_stub db @ [(k, stub)]"
    and parts: "db_audit tx = (db_audit db)(ae_tenant entry := db_audit db (ae_tenant entry) @
      [(k, \<lparr>sealed_key = keys, sealed_value = val\<rparr>)])"
    and m: "mirrors (ae_tenant entry) k stub val" by metis
  show "last_seq tx = last_seq db + 1" by (simp add: last_seq_def stubs)
  have fresh: "k \<notin> fst ` set (db_audit_stub db)" using k by (simp add: stub_key_iff [OF inv])
  have part: "k' < k" "k' \<in> fst ` set (db_audit_stub db)" if "k' \<in> fst ` set (db_audit db t)" for k' t
  proof -
    from that show "k' \<in> fst ` set (db_audit_stub db)" by (rule partition_key [OF inv])
    then show "k' < k" using k by (simp add: stub_key_iff [OF inv] word_less_nat_alt)
  qed
  have "map (unat \<circ> fst) (db_audit_stub tx) = [1..<Suc (length (db_audit_stub tx))]"
    using inv k by (simp add: stubs audit_inv_def last_seq_def)
  moreover have "sorted_wrt (<) (map fst (db_audit tx t))" for t
  proof -
    have "sorted_wrt (<) (map fst (db_audit db t))" using inv by (simp add: audit_inv_def)
    moreover have "\<forall>k' \<in> fst ` set (db_audit db t). k' < k" using part(1) by blast
    ultimately show ?thesis by (auto simp: parts sorted_wrt_append)
  qed
  moreover have "\<exists>stub. (k', stub) \<in> set (db_audit_stub tx) \<and> mirrors t k' stub (sealed_value e)"
    if "(k', e) \<in> set (db_audit tx t)" for t k' e
  proof -
    have old: "\<exists>stub. (k', stub) \<in> set (db_audit_stub db) \<and> mirrors t k' stub (sealed_value e)"
      if "(k', e) \<in> set (db_audit db t)" using inv that unfolding audit_inv_def by blast
    from that consider "(k', e) \<in> set (db_audit db t)"
      | "t = ae_tenant entry" "k' = k" "e = \<lparr>sealed_key = keys, sealed_value = val\<rparr>"
      by (auto simp: parts split: if_splits)
    then show ?thesis by cases (use old m in \<open>auto simp: stubs\<close>)
  qed
  moreover have "\<exists>!t. k' \<in> fst ` set (db_audit tx t)" if "k' \<in> fst ` set (db_audit_stub tx)" for k'
  proof (cases "k' = k")
    case True
    have "k \<notin> fst ` set (db_audit db t)" for t using part(2) fresh by blast
    then show ?thesis by (auto simp: True parts split: if_splits)
  next
    case False
    with that have "k' \<in> fst ` set (db_audit_stub db)" by (auto simp: stubs)
    moreover have "k' \<in> fst ` set (db_audit tx t) \<longleftrightarrow> k' \<in> fst ` set (db_audit db t)" for t
      using False by (auto simp: parts)
    ultimately show ?thesis using inv by (simp add: audit_inv_def)
  qed
  ultimately show "audit_inv tx" unfolding audit_inv_def by blast
qed

lemma append_audit_succeeds:
  assumes "audit_inv db" and "last_seq db + 1 < 2 ^ 64" and "tenant_keys db (ae_tenant entry) = Ok keys"
  obtains seq tx where "append_audit env db entry = Ok (seq, tx)"
proof -
  obtain k where k: "next_audit_seq db = Ok k"
  proof -
    define n where "n = last_seq db + 1"
    have lt: "n < 2 ^ 64" using assms(2) by (simp only: n_def)
    then have "unat (of_nat n :: u64) = n" by (simp add: unsigned_of_nat take_bit_nat_eq_self)
    then have "next_audit_seq db = Ok (of_nat n)"
      using assms(2) by (simp add: next_audit_seq_iff [OF assms(1)] n_def)
    then show ?thesis by (rule that)
  qed
  have "tenant_keys (db\<lparr>db_audit_stub := stubs\<rparr>) t = tenant_keys db t" for stubs t
    by (simp add: tenant_keys_def key_ids_def absent_tenant_def load_keyring_def split: option.split)
  with k assms(3) show ?thesis using that by (simp add: append_audit_def)
qed

section \<open>Every operation appends or leaves the log alone\<close>

definition audit_kept :: "Db \<Rightarrow> Db \<Rightarrow> bool" where
  "audit_kept db db' \<longleftrightarrow> db_audit_stub db' = db_audit_stub db \<and> db_audit db' = db_audit db"

definition audit_extends :: "Db \<Rightarrow> Db \<Rightarrow> bool" where
  "audit_extends db tx \<longleftrightarrow> audit_kept db tx \<or>
     (\<exists>env entry seq db0 tx0. audit_kept db db0 \<and> append_audit env db0 entry = Ok (seq, tx0) \<and> audit_kept tx0 tx \<and>
        (\<forall>t. tenant_keys tx t = tenant_keys tx0 t))"

lemma audit_inv_kept: "audit_kept db db' \<Longrightarrow> audit_inv db' = audit_inv db"
  by (simp add: audit_kept_def audit_inv_def)

lemma audit_extends_inv: "audit_extends db tx \<Longrightarrow> audit_inv db \<Longrightarrow> audit_inv tx"
  unfolding audit_extends_def using audit_inv_kept append_audit_inv(1) by blast

lemma audit_keptI:
  "audit_kept db db' \<Longrightarrow> audit_extends db db'"
  "append_audit env db entry = Ok (seq, db') \<Longrightarrow> audit_extends db db'"
  "audit_kept db db0 \<Longrightarrow> append_audit env db0 entry = Ok (seq, tx0) \<Longrightarrow> audit_kept tx0 tx \<Longrightarrow>
   (\<And>t. tenant_keys tx t = tenant_keys tx0 t) \<Longrightarrow> audit_extends db tx"
proof -
  have refl: "audit_kept x x" for x by (simp add: audit_kept_def)
  show "audit_kept db db' \<Longrightarrow> audit_extends db db'"
    and "append_audit env db entry = Ok (seq, db') \<Longrightarrow> audit_extends db db'"
    and "audit_kept db db0 \<Longrightarrow> append_audit env db0 entry = Ok (seq, tx0) \<Longrightarrow> audit_kept tx0 tx \<Longrightarrow>
      (\<And>t. tenant_keys tx t = tenant_keys tx0 t) \<Longrightarrow> audit_extends db tx"
    unfolding audit_extends_def using refl by blast+
qed

lemma record_terminal_audit:
  "record_terminal env db r = Ok db' \<Longrightarrow>
   (if is_terminal (inv_state r) then \<exists>entry seq. append_audit env db entry = Ok (seq, db') \<and> ae_tenant entry = inv_tenant r
    else db' = db)"
  by (auto simp: record_terminal_def Let_def rbind_Ok_iff audit_entry_terminal_def audit_entry_new_def)
    (intro exI conjI, assumption, simp)

lemma transition_audit:
  assumes "frames_stage f" and "transition_tx env i step boundary f db = Ok (Commit b v tx)"
  shows "audit_extends db tx"
proof -
  from assms(2) obtain r nxt r1 db1 stubs parts where f: "f db r = Ok (r1, db1)"
    and tx: "tx = put_invocation (db1\<lparr>db_audit_stub := stubs, db_audit := parts\<rparr>)
        (r1\<lparr>inv_state := nxt, inv_updated_at := env_now env\<rparr>)"
    and rt: "record_terminal env db1 (r1\<lparr>inv_state := nxt, inv_updated_at := env_now env\<rparr>) =
      Ok (db1\<lparr>db_audit_stub := stubs, db_audit := parts\<rparr>)"
    by (rule transition_Commit)
  have kept: "audit_kept db db1" using assms(1) f by (auto simp: frames_stage_def audit_kept_def)
  have out: "audit_kept (db1\<lparr>db_audit_stub := stubs, db_audit := parts\<rparr>) tx"
    by (simp add: tx put_invocation_def audit_kept_def)
  show ?thesis
  proof (cases "is_terminal nxt")
    case True
    with record_terminal_audit [OF rt] obtain entry seq where
      "append_audit env db1 entry = Ok (seq, db1\<lparr>db_audit_stub := stubs, db_audit := parts\<rparr>)"
      by (simp split: if_splits) blast
    then show ?thesis
      by (rule audit_keptI(3) [OF kept _ out]) (rule tenant_keys_cong, simp_all add: tx put_invocation_def)
  next
    case False
    with record_terminal_audit [OF rt] have same: "db1\<lparr>db_audit_stub := stubs, db_audit := parts\<rparr> = db1" by simp
    from kept out show ?thesis unfolding same by (intro audit_keptI(1)) (simp add: audit_kept_def)
  qed
qed

lemma directory_audit:
  "register_tenant_tx env reg db = Ok (Commit b u tx) \<Longrightarrow> audit_extends db tx"
  "install_root_grant_tx root db = Ok (Commit b u tx) \<Longrightarrow> audit_extends db tx"
  "issue_grant_tx env issue db = Ok (Commit b v tx) \<Longrightarrow> audit_extends db tx"
  "revoke_grant_tx env revoke db = Ok (Commit b w tx) \<Longrightarrow> audit_extends db tx"
  "open_session_tx env new parent db = Ok (Commit b y tx) \<Longrightarrow> audit_extends db tx"
  "claim_tx env claim db = Ok (Commit b x tx) \<Longrightarrow> audit_extends db tx"
  "shred_tenant_tx env sessions scan tenant db = Ok (Commit b u tx) \<Longrightarrow> audit_extends db tx"
proof -
  have put: "audit_kept db tx" if "put_new_grant db r = Ok (staged, tx)" for r staged tx
    using that unfolding put_new_grant_def case_option_eq_iff result_iffs by (auto simp: audit_kept_def)
  have refl: "audit_kept x x" for x by (simp add: audit_kept_def)
  have decide: "audit_extends db tx" if "decide_issue env issue db = Ok (Commit b v tx)"
    using that by (rule decide_issue_Commit)
      (auto dest!: audit_issue_Commit put intro: audit_keptI(3) [OF _ _ refl] audit_keptI(2))
  show "register_tenant_tx env reg db = Ok (Commit b u tx) \<Longrightarrow> audit_extends db tx"
    unfolding register_tenant_tx_def case_option_eq_iff result_iffs
    by (intro audit_keptI(1)) (auto simp: audit_kept_def split: if_splits)
  show "install_root_grant_tx root db = Ok (Commit b u tx) \<Longrightarrow> audit_extends db tx"
    unfolding install_root_grant_tx_def
    by (intro audit_keptI(1)) (auto simp: rbind_Ok_iff split: if_splits dest: put)
  show "issue_grant_tx env issue db = Ok (Commit b v tx) \<Longrightarrow> audit_extends db tx"
    unfolding issue_grant_tx_def Let_def case_option_eq_iff if_eq_iff ensure_Ok_iff
    by (auto intro: decide)
  show "revoke_grant_tx env revoke db = Ok (Commit b w tx) \<Longrightarrow> audit_extends db tx"
    unfolding revoke_grant_tx_def Let_def case_option_eq_iff if_eq_iff
    by (auto simp: rbind_Ok_iff audit_kept_def intro!: audit_keptI(3) [OF refl] tenant_keys_cong)
  show "open_session_tx env new parent db = Ok (Commit b y tx) \<Longrightarrow> audit_extends db tx"
    unfolding open_session_tx_def Let_def rbind_Ok_iff case_option_eq_iff if_eq_iff ensure_Ok_iff
    by (auto elim!: audit_keptI(3) [OF _ _ refl, rotated] simp: audit_kept_def)
  show "claim_tx env claim db = Ok (Commit b x tx) \<Longrightarrow> audit_extends db tx"
    unfolding claim_tx_def Let_def rbind_Ok_iff case_option_eq_iff
    by (intro audit_keptI(1)) (auto simp: audit_kept_def)
  show "shred_tenant_tx env sessions scan tenant db = Ok (Commit b u tx) \<Longrightarrow> audit_extends db tx"
    unfolding shred_tenant_tx_def Let_def rbind_Ok_iff if_eq_iff ensure_Ok_iff
    by (intro audit_keptI(1)) (auto simp: audit_kept_def)
qed

lemma begin_audit: "begin_tx env intent db = Ok (Commit b v tx) \<Longrightarrow> audit_extends db tx"
proof (erule begin_Commit)
  fix keys chain reservation
  assume "persist env db intent keys chain reservation = Ok (Commit b v tx)"
  then show "audit_extends db tx"
    by (rule persist_Commit) (simp add: audit_keptI(1) audit_kept_def put_invocation_def)
qed (rule audit_keptI(2))

lemma store_step_audit:
  assumes "store_step db db'"
  shows "audit_extends db db'"
proof -
  have refl: "audit_extends db db" by (simp add: audit_extends_def audit_kept_def)
  note tx = end_tx_inv [where P = "audit_extends db", OF refl]
  have tr: "audit_extends db (fst (transition env i step boundary f db))" if "frames_stage f"
    for env i step boundary f
    unfolding transition_def by (rule tx) (rule transition_audit [OF that])
  from assms show ?thesis
  proof cases
    case (audit_step env entry)
    then show ?thesis unfolding record_audit_def Let_def
      by (simp only:) (rule tx, auto intro: audit_keptI(2) simp: rbind_Ok_iff)
  next
    case (register_step env reg)
    then show ?thesis unfolding register_tenant_def by (simp only:) (rule tx, rule directory_audit(1))
  next
    case (root_step env root)
    then show ?thesis unfolding install_root_grant_def by (simp only:) (rule tx, rule directory_audit(2))
  next
    case (shred_step sessions scan env tenant)
    then show ?thesis unfolding shred_tenant_def by (simp only:) (rule tx, rule directory_audit(7))
  qed (simp_all add: dispatch_def complete_transfer_def publish_def settle_invocation_def
      release_invocation_def mark_unknown_effect_def tr frames_stages
      begin_invocation_def tx [OF begin_audit] issue_grant_def tx [OF directory_audit(3)]
      revoke_grant_def tx [OF directory_audit(4)] open_session_def tx [OF directory_audit(5)]
      claim_key_def tx [OF directory_audit(6)])
qed

lemma audit_inv_empty: "audit_inv empty_db"
  by (simp add: audit_inv_def empty_db_def)

lemma reachable_audit_inv: "store_reachable db \<Longrightarrow> audit_inv db"
  by (rule reachable_invariant) (auto intro: audit_inv_empty audit_extends_inv [OF store_step_audit])

lemma stub_unique:
  assumes inv: "audit_inv db" and "(k, a) \<in> set (db_audit_stub db)" and "(k, b) \<in> set (db_audit_stub db)"
  shows "a = b"
proof -
  have "distinct (map (unat \<circ> fst) (db_audit_stub db))" using inv by (simp add: audit_inv_def)
  then have "distinct (map fst (db_audit_stub db))" by (simp add: distinct_map comp_inj_on_iff inj_on_imageI2 inj_on_def)
  from this assms(2,3) show ?thesis by (rule eq_key_imp_eq_value)
qed

lemma audit_entry_of:
  assumes inv: "audit_inv db" and stub: "(k, stub) \<in> set (db_audit_stub db)"
  shows "(\<exists>!u. \<exists>e. (k, e) \<in> set (db_audit db u)) \<and>
    (\<forall>u e. (k, e) \<in> set (db_audit db u) \<longrightarrow> mirrors u k stub (sealed_value e))"
proof
  have key: "k \<in> fst ` set (db_audit db u) \<longleftrightarrow> (\<exists>e. (k, e) \<in> set (db_audit db u))" for u by force
  have "k \<in> fst ` set (db_audit_stub db)" using stub by force
  then have "\<exists>!u. k \<in> fst ` set (db_audit db u)" using inv unfolding audit_inv_def by blast
  then show "\<exists>!u. \<exists>e. (k, e) \<in> set (db_audit db u)" unfolding key .
  show "\<forall>u e. (k, e) \<in> set (db_audit db u) \<longrightarrow> mirrors u k stub (sealed_value e)"
  proof (intro allI impI)
    fix u e
    assume "(k, e) \<in> set (db_audit db u)"
    with inv obtain other where "(k, other) \<in> set (db_audit_stub db)" "mirrors u k other (sealed_value e)"
      unfolding audit_inv_def by blast
    with stub_unique [OF inv stub] show "mirrors u k stub (sealed_value e)" by blast
  qed
qed

end
