(* ===== verification/Recovery.thy ===== *)
theory Recovery
  imports AuditLog
begin

text \<open>
  Restart recovery as a liveness statement (\<^verbatim>\<open>crates/phylake/src/store/recovery.rs\<close>).  The custody
  invariant says what an open invocation needs to be carried to its end: live keys of its tenant and
  of its session's owner, the staged artifact, an unused locator.  Every operation keeps it, so in
  every reachable store an undisturbed recovery run succeeds and leaves nothing open.
\<close>

section \<open>The custody invariant\<close>

definition keys_live :: "Db \<Rightarrow> TenantId \<Rightarrow> bool" where
  "keys_live db t \<longleftrightarrow> (\<exists>keys. tenant_keys db t = Ok keys)"

definition opens_for :: "Db \<Rightarrow> TenantId \<Rightarrow> 'a Sealed \<Rightarrow> bool" where
  "opens_for db t sealed \<longleftrightarrow>
     (\<exists>keys. tenant_keys db t = Ok keys \<and> sealed_key sealed \<in> set (meta_openers keys))"

text \<open>States before publication.\<close>

definition early :: "InvocationState \<Rightarrow> bool" where
  "early state \<longleftrightarrow> state \<in> {IntentPersisted, Dispatched, TransferComplete}"

definition resumable :: "Db \<Rightarrow> InvocationId \<Rightarrow> InvocationRecord \<Rightarrow> bool" where
  "resumable db i r \<longleftrightarrow>
     keys_live db (inv_tenant r) \<and>
     (\<forall>s. inv_session r = Some s \<longrightarrow> (\<exists>sr. db_sessions db s = Some sr \<and> keys_live db (sr_owner sr))) \<and>
     (inv_state r \<in> {TransferComplete, Published} \<longrightarrow> inv_actual r \<noteq> None) \<and>
     (inv_state r = TransferComplete \<longrightarrow>
        (\<exists>sealed. db_pending db (inv_tenant r, i) = Some sealed \<and> opens_for db (inv_tenant r) sealed \<and>
           art_artifact (sealed_value sealed) = artifact_ref i))"

definition custody_inv :: "Db \<Rightarrow> bool" where
  "custody_inv db \<longleftrightarrow>
     (\<forall>t. db_tenants db t \<noteq> None \<longrightarrow> keys_live db t) \<and>
     (\<forall>t. db_tenants db t = None \<longrightarrow> db_rekey db t = None) \<and>
     (\<forall>s r. db_sessions db s = Some r \<longrightarrow> sr_id r = s \<and>
        (db_tenants db (sr_owner r) \<noteq> None \<or> db_tombstones db (sr_owner r) \<noteq> None)) \<and>
     (\<forall>i. db_locators db (artifact_ref i) \<noteq> None \<longrightarrow>
        (\<exists>r. db_invocations db i = Some r \<and> \<not> early (inv_state r))) \<and>
     (\<forall>i r. db_invocations db i = Some r \<longrightarrow> \<not> is_terminal (inv_state r) \<longrightarrow> resumable db i r)"

text \<open>The parts of the database the invariant reads.\<close>

definition keeps_custody :: "Db \<Rightarrow> Db \<Rightarrow> bool" where
  "keeps_custody db db' \<longleftrightarrow> db_tenants db' = db_tenants db \<and> db_tombstones db' = db_tombstones db \<and>
     db_data_keys db' = db_data_keys db \<and> db_address_keys db' = db_address_keys db \<and>
     db_rekey db' = db_rekey db \<and> db_sessions db' = db_sessions db \<and>
     db_invocations db' = db_invocations db \<and> db_pending db' = db_pending db \<and>
     db_locators db' = db_locators db"

lemma same_directory_keys: "same_directory db db' \<Longrightarrow> tenant_keys db' t = tenant_keys db t"
  by (rule tenant_keys_cong) (simp_all add: same_directory_def)

lemma keeps_custody_inv:
  assumes "keeps_custody db db'" and "custody_inv db"
  shows "custody_inv db'"
proof -
  have "tenant_keys db' t = tenant_keys db t" for t
    by (rule tenant_keys_cong) (use assms(1) in \<open>simp_all add: keeps_custody_def\<close>)
  with assms show ?thesis
    by (simp add: custody_inv_def resumable_def keys_live_def opens_for_def keeps_custody_def)
qed

lemma keeps_custody_refl: "keeps_custody db db"
  by (simp add: keeps_custody_def)

lemma append_audit_keeps:
  "append_audit env db entry = Ok (seq, tx) \<Longrightarrow> keeps_custody db tx"
  by (erule append_audit_frame) (simp add: keeps_custody_def)

lemma append_audit_custody:
  "append_audit env db entry = Ok (seq, tx) \<Longrightarrow> custody_inv db \<Longrightarrow> custody_inv tx"
  using keeps_custody_inv append_audit_keeps by blast

lemma custody_inv_empty: "custody_inv empty_db"
  by (simp add: custody_inv_def empty_db_def)

section \<open>Preservation outside the lifecycle\<close>

lemma register_tenant_custody:
  assumes "register_tenant_tx env reg db = Ok (Commit b v tx)" and inv: "custody_inv db"
  shows "custody_inv tx"
proof -
  define r where "r = \<lparr>tr_id = reg_id reg, tr_class = reg_class reg, tr_verifying_key = reg_verifying_key reg,
    tr_bound_uids = reg_bound_uids reg, tr_parent = reg_parent reg, tr_ceilings = reg_ceilings reg,
    tr_data_key_id = INITIAL_DATA_KEY_ID, tr_registered_at = env_now env\<rparr>"
  from assms(1) have new: "db_tenants db (reg_id reg) = None" "db_tombstones db (reg_id reg) = None"
    and tx: "tx = db\<lparr>db_data_keys := insert (reg_id reg, INITIAL_DATA_KEY_ID) (db_data_keys db),
      db_tenants := (db_tenants db)(reg_id reg := Some r)\<rparr>"
    unfolding register_tenant_tx_def case_option_eq_iff result_iffs r_def by (auto simp: result_iffs)
  have r: "tr_data_key_id r = INITIAL_DATA_KEY_ID" by (simp add: r_def)
  have rekey: "db_rekey db (reg_id reg) = None" using inv new(1) by (simp add: custody_inv_def)
  have live: "keys_live tx (reg_id reg)"
    using r rekey by (simp add: tx keys_live_def tenant_keys_def key_ids_def load_keyring_def ensure_def)
  have old: "tenant_keys tx t = tenant_keys db t" if "t \<noteq> reg_id reg" for t
    by (rule tenant_keys_cong) (use that in \<open>auto simp: tx\<close>)
  have dead: "tenant_keys db (reg_id reg) \<noteq> Ok keys" for keys
    using new by (simp add: tenant_keys_def key_ids_def)
  have keys: "tenant_keys tx t = Ok keys" if "tenant_keys db t = Ok keys" for t keys
    using that old [of t] dead by metis
  have "resumable tx i r" if "resumable db i r" for i r
    using that keys unfolding resumable_def keys_live_def opens_for_def by (simp add: tx) blast
  moreover have "keys_live tx t" if "db_tenants tx t \<noteq> None" for t
    using that live inv keys by (cases "t = reg_id reg") (auto simp: custody_inv_def keys_live_def tx)
  ultimately show ?thesis
    using inv by (auto simp: custody_inv_def tx)
qed

lemma directory_keeps:
  "install_root_grant_tx root db = Ok (Commit b u tx) \<Longrightarrow> keeps_custody db tx"
  "issue_grant_tx env issue db = Ok (Commit b v tx) \<Longrightarrow> keeps_custody db tx"
  "revoke_grant_tx env revoke db = Ok (Commit b w tx) \<Longrightarrow> keeps_custody db tx"
  "claim_tx env claim db = Ok (Commit b x tx) \<Longrightarrow> keeps_custody db tx"
proof -
  have put: "keeps_custody db tx" if "put_new_grant db r = Ok (staged, tx)" for r staged tx
    using that unfolding put_new_grant_def case_option_eq_iff result_iffs by (auto simp: keeps_custody_def)
  have trans: "keeps_custody db tx'" if "keeps_custody db tx" "append_audit env tx entry = Ok (seq, tx')"
    for tx tx' entry seq
    using append_audit_keeps [OF that(2)] that(1) by (simp add: keeps_custody_def)
  have decide: "keeps_custody db tx" if "decide_issue env issue db = Ok (Commit b v tx)"
    using that by (rule decide_issue_Commit)
      (auto dest!: audit_issue_Commit put intro: trans append_audit_keeps)
  show "install_root_grant_tx root db = Ok (Commit b u tx) \<Longrightarrow> keeps_custody db tx"
    unfolding install_root_grant_tx_def by (auto simp: rbind_Ok_iff split: if_splits dest: put)
  show "issue_grant_tx env issue db = Ok (Commit b v tx) \<Longrightarrow> keeps_custody db tx"
    unfolding issue_grant_tx_def Let_def case_option_eq_iff if_eq_iff ensure_Ok_iff
    by (auto intro: decide)
  show "revoke_grant_tx env revoke db = Ok (Commit b w tx) \<Longrightarrow> keeps_custody db tx"
    unfolding revoke_grant_tx_def Let_def case_option_eq_iff if_eq_iff
    by (auto simp: rbind_Ok_iff keeps_custody_def elim!: append_audit_frame)
  show "claim_tx env claim db = Ok (Commit b x tx) \<Longrightarrow> keeps_custody db tx"
    unfolding claim_tx_def Let_def rbind_Ok_iff case_option_eq_iff by (auto simp: keeps_custody_def)
qed

lemma open_session_custody:
  assumes "open_session_tx env new parent db = Ok (Commit b v tx)" and inv: "custody_inv db"
  shows "custody_inv tx"
proof -
  define r where "r = \<lparr>sr_id = ns_session new, sr_owner = ns_owner new, sr_parent = parent,
    sr_ceilings = ns_ceilings new, sr_created_at = env_now env\<rparr>"
  define db1 where "db1 = db\<lparr>db_sessions := (db_sessions db)(ns_session new := Some r)\<rparr>"
  from assms(1) obtain entry seq where fresh: "db_sessions db (ns_session new) = None"
    and owner: "db_tenants db (ns_owner new) \<noteq> None"
    and tx: "append_audit env db1 entry = Ok (seq, tx)"
    unfolding open_session_tx_def Let_def rbind_Ok_iff case_option_eq_iff if_eq_iff ensure_Ok_iff
      db1_def r_def by (auto simp: result_iffs)
  have keys: "tenant_keys db1 t = tenant_keys db t" for t
    by (rule tenant_keys_cong) (simp_all add: db1_def)
  have "resumable db1 i q" if "resumable db i q" for i q
    using that keys fresh unfolding resumable_def keys_live_def opens_for_def by (auto simp: db1_def)
  moreover have "sr_id q = s \<and> (db_tenants db (sr_owner q) \<noteq> None \<or> db_tombstones db (sr_owner q) \<noteq> None)"
    if "db_sessions db1 s = Some q" for s q
    using that inv owner by (cases "s = ns_session new") (auto simp: custody_inv_def db1_def r_def)
  moreover have "db_tenants db1 = db_tenants db" "db_tombstones db1 = db_tombstones db"
    "db_rekey db1 = db_rekey db" "db_invocations db1 = db_invocations db" "db_locators db1 = db_locators db"
    by (simp_all add: db1_def)
  ultimately have "custody_inv db1"
    using inv keys by (simp add: custody_inv_def keys_live_def)
  then show ?thesis by (rule append_audit_custody [OF tx])
qed

lemma no_open_invocations:
  assumes "\<not> has_open_invocations sessions scan db t" and "set scan = dom (db_invocations db)"
    and "set sessions = dom (db_sessions db)" and "custody_inv db"
    and r: "db_invocations db i = Some r" "\<not> is_terminal (inv_state r)"
  shows "inv_tenant r \<noteq> t"
    and "inv_session r = Some s \<Longrightarrow> db_sessions db s = Some sr \<Longrightarrow> sr_owner sr \<noteq> t"
proof -
  have "i \<in> set scan" using assms(2) r(1) by blast
  with assms(1) r have no: "inv_tenant r \<noteq> t"
    "\<And>s. inv_session r = Some s \<Longrightarrow> s \<notin> set (List.map_filter (\<lambda>s. case db_sessions db s of
           Some r \<Rightarrow> if sr_owner r = t then Some (sr_id r) else None | None \<Rightarrow> None) sessions)"
    by (auto simp: has_open_invocations_def list_ex_iff split: option.splits)
  show "inv_tenant r \<noteq> t" by (rule no)
  assume s: "inv_session r = Some s" "db_sessions db s = Some sr"
  moreover have "s \<in> set sessions" "sr_id sr = s" using assms(3,4) s(2) by (auto simp: custody_inv_def)
  ultimately show "sr_owner sr \<noteq> t"
    using no(2) [OF s(1)] by (force simp: map_filter_def)
qed

lemma shred_custody:
  assumes "shred_tenant_tx env sessions scan t db = Ok (Commit b v tx)" and inv: "custody_inv db"
    and scan: "set scan = dom (db_invocations db)" "set sessions = dom (db_sessions db)"
  shows "custody_inv tx"
proof -
  define retired where "retired = (case db_rekey db t of
    Some rekey \<Rightarrow> if rk_done rekey then {} else {(t, rk_from_key_id rekey)} | None \<Rightarrow> {})"
  from assms(1) obtain q :: TenantRecord where idle: "\<not> has_open_invocations sessions scan db t"
    and tx: "tx = db\<lparr>db_data_keys := db_data_keys db - {(t, tr_data_key_id q)} - retired,
      db_rekey := (db_rekey db)(t := None), db_address_keys := db_address_keys db - {t},
      db_tenants := (db_tenants db)(t := None), db_tombstones := (db_tombstones db)(t :=
        Some \<lparr>tomb_tenant = t, tomb_shredded_at = env_now env\<rparr>)\<rparr>"
    unfolding shred_tenant_tx_def Let_def rbind_Ok_iff if_eq_iff ensure_Ok_iff retired_def [symmetric]
      sum.inject TxEnd.inject by auto
  have "retired \<subseteq> {t} \<times> UNIV" by (auto simp: retired_def split: option.splits if_splits)
  then have keys: "(t', k) \<in> db_data_keys tx \<longleftrightarrow> (t', k) \<in> db_data_keys db" if "t' \<noteq> t" for t' k
    using that by (auto simp: tx)
  have same: "db_sessions tx = db_sessions db" "db_invocations tx = db_invocations db"
      "db_pending tx = db_pending db" "db_locators tx = db_locators db"
    and gone: "db_tenants tx = (db_tenants db)(t := None)" "db_rekey tx = (db_rekey db)(t := None)"
      "db_address_keys tx = db_address_keys db - {t}"
    and tomb: "\<And>t'. t' \<noteq> t \<Longrightarrow> db_tombstones tx t' = db_tombstones db t'"
      "db_tombstones tx t \<noteq> None"
    by (simp_all add: tx)
  have old: "tenant_keys tx t' = tenant_keys db t'" if "t' \<noteq> t" for t'
    by (rule tenant_keys_cong) (use that gone keys tomb(1) in auto)
  have res: "resumable tx i q"
    if q: "db_invocations db i = Some q" "\<not> is_terminal (inv_state q)" for i q
  proof -
    have "resumable db i q" using inv q by (simp add: custody_inv_def)
    moreover have "tenant_keys tx (inv_tenant q) = tenant_keys db (inv_tenant q)"
      by (rule old) (rule no_open_invocations(1) [OF idle scan inv q])
    moreover have "tenant_keys tx (sr_owner sr) = tenant_keys db (sr_owner sr)"
      if "inv_session q = Some s" "db_sessions db s = Some sr" for s sr
      by (rule old) (rule no_open_invocations(2) [OF idle scan inv q that])
    ultimately show ?thesis
      unfolding resumable_def keys_live_def opens_for_def same by metis
  qed
  have live: "keys_live tx t'" if "db_tenants tx t' \<noteq> None" for t'
    using that inv old [of t'] gone(1) by (cases "t' = t") (auto simp: custody_inv_def keys_live_def)
  have "db_tenants tx (sr_owner q) \<noteq> None \<or> db_tombstones tx (sr_owner q) \<noteq> None"
    if "db_sessions db s = Some q" for s q
    using that inv gone(1) tomb by (cases "sr_owner q = t") (auto simp: custody_inv_def)
  moreover have "db_rekey tx t' = None" if "db_tenants tx t' = None" for t'
    using that inv gone by (cases "t' = t") (auto simp: custody_inv_def)
  ultimately show ?thesis
    using inv res live unfolding custody_inv_def same by blast
qed

section \<open>Preservation by the lifecycle\<close>

lemma artifact_ref_inject [simp]: "artifact_ref i = artifact_ref j \<longleftrightarrow> i = j"
  by (cases i; cases j) simp

lemma early_unlocated:
  assumes "custody_inv db" and "db_invocations db i = Some r" and "early (inv_state r)"
  shows "db_locators db (artifact_ref i) = None"
  using assms by (fastforce simp: custody_inv_def)

text \<open>What a stage owes the custody invariant.\<close>

definition custody_stage :: "Step \<Rightarrow> (Db \<Rightarrow> InvocationRecord \<Rightarrow> (InvocationRecord \<times> Db, StoreError) result) \<Rightarrow> bool" where
  "custody_stage step f \<longleftrightarrow> (\<forall>db r r1 db1 nxt. f db r = Ok (r1, db1) \<longrightarrow> lifecycle (inv_state r) step nxt \<longrightarrow>
     resumable db (inv_id r) r \<longrightarrow>
     (\<forall>t j. j \<noteq> inv_id r \<longrightarrow> db_pending db1 (t, j) = db_pending db (t, j)) \<and>
     (\<forall>j. j \<noteq> inv_id r \<longrightarrow> db_locators db1 (artifact_ref j) = db_locators db (artifact_ref j)) \<and>
     (early nxt \<longrightarrow> db_locators db1 (artifact_ref (inv_id r)) = db_locators db (artifact_ref (inv_id r))) \<and>
     (\<not> is_terminal nxt \<longrightarrow> resumable db1 (inv_id r) (r1\<lparr>inv_state := nxt\<rparr>)))"

lemma lifecycle_early: "lifecycle start step nxt \<Longrightarrow> early nxt \<Longrightarrow> start = Planned \<or> early start"
  by (auto simp: early_def elim: lifecycleE)

lemma transition_custody:
  assumes inv: "custody_inv db" and led: "ledger_inv db" and frame: "frames_stage f"
    and stage: "custody_stage step f"
    and t: "transition_tx env i step boundary f db = Ok (Commit b v tx)"
  shows "custody_inv tx"
proof -
  from t obtain r nxt r1 db1 stubs parts where
    r: "db_invocations db i = Some r" "lifecycle (inv_state r) step nxt" "f db r = Ok (r1, db1)"
    and tx: "tx = put_invocation (db1\<lparr>db_audit_stub := stubs, db_audit := parts\<rparr>)
        (r1\<lparr>inv_state := nxt, inv_updated_at := env_now env\<rparr>)"
    by (rule transition_Commit)
  have wf: "wf_invocation i r" using led r(1) by (simp add: ledger_inv_def)
  then have id: "inv_id r = i" by (simp add: wf_invocation_def)
  have "\<not> is_terminal (inv_state r)" using terminal_final r(2) by blast
  with inv r(1) have res: "resumable db i r" by (simp add: custody_inv_def)
  have f: "inv_id r1 = i" "inv_tenant r1 = inv_tenant r" "inv_session r1 = inv_session r"
    "db_invocations db1 = db_invocations db" and dir: "same_directory db db1"
    using frame r(3) id by (auto simp: frames_stage_def)
  have keys: "tenant_keys db1 t = tenant_keys db t" "tenant_keys tx t = tenant_keys db1 t" for t
    using same_directory_keys [OF dir] by (simp, intro tenant_keys_cong) (simp_all add: tx put_invocation_def)
  have st: "\<forall>t j. j \<noteq> i \<longrightarrow> db_pending db1 (t, j) = db_pending db (t, j)"
     "\<forall>j. j \<noteq> i \<longrightarrow> db_locators db1 (artifact_ref j) = db_locators db (artifact_ref j)"
     "early nxt \<longrightarrow> db_locators db1 (artifact_ref i) = db_locators db (artifact_ref i)"
     "\<not> is_terminal nxt \<longrightarrow> resumable db1 i (r1\<lparr>inv_state := nxt\<rparr>)"
    using stage r res id unfolding custody_stage_def by blast+
  have tx_fields: "db_tenants tx = db_tenants db" "db_tombstones tx = db_tombstones db"
    "db_rekey tx = db_rekey db" "db_sessions tx = db_sessions db" "db_pending tx = db_pending db1"
    "db_locators tx = db_locators db1" "db_sessions db1 = db_sessions db"
    using dir by (simp_all add: tx put_invocation_def same_directory_def)
  let ?r = "r1\<lparr>inv_state := nxt, inv_updated_at := env_now env\<rparr>"
  have invs: "db_invocations tx = (db_invocations db)(i := Some ?r)"
    using f by (simp add: tx put_invocation_def)
  have "resumable tx i ?r" if "\<not> is_terminal nxt"
    using st(4) that by (simp add: resumable_def keys_live_def opens_for_def keys tx_fields)
  moreover have "resumable tx j q" if "j \<noteq> i" "resumable db j q" for j q
    using that st(1) by (simp add: resumable_def keys_live_def opens_for_def keys tx_fields)
  moreover have "\<exists>q. db_invocations tx j = Some q \<and> \<not> early (inv_state q)"
    if "db_locators tx (artifact_ref j) \<noteq> None" for j
  proof (cases "j = i")
    case True
    have "\<not> early nxt"
    proof
      assume e: "early nxt"
      then have "early (inv_state r)"
        using lifecycle_early [OF r(2)] wf by (auto simp: wf_invocation_def)
      with early_unlocated [OF inv r(1)] st(3) e that True show False by (simp add: tx_fields)
    qed
    then show ?thesis by (simp add: True invs)
  next
    case False
    with that st(2) inv show ?thesis by (auto simp: tx_fields invs custody_inv_def)
  qed
  ultimately show ?thesis
    using inv by (auto simp: custody_inv_def keys_live_def keys tx_fields invs)
qed

lemma custody_stage_dispatch: "custody_stage Step.Dispatch (\<lambda>db r. Ok (r, db))"
  by (auto simp: custody_stage_def resumable_def elim!: lifecycleE)

lemma custody_stage_closing:
  assumes "\<And>db r r1 db1. f db r = Ok (r1, db1) \<Longrightarrow> \<exists>m. db1 = db\<lparr>db_ledgers := m\<rparr>" and "closes step"
  shows "custody_stage step f"
proof -
  have "is_terminal nxt" if "lifecycle start step nxt" for start nxt
    using lifecycle_closes [OF that] assms(2) by (auto simp: charged_def)
  with assms(1) show ?thesis unfolding custody_stage_def by fastforce
qed

lemma custody_stage_transfer: "custody_stage Step.CompleteTransfer (stage_transfer env transfer)"
  unfolding custody_stage_def
proof (intro allI impI)
  fix db r r1 db1 nxt
  assume f: "stage_transfer env transfer db r = Ok (r1, db1)"
    and res: "resumable db (inv_id r) r" and step: "lifecycle (inv_state r) Step.CompleteTransfer nxt"
  have nxt: "nxt = TransferComplete" using step by (auto elim: lifecycleE)
  from f obtain keys pending where keys: "tenant_keys db (inv_tenant r) = Ok keys"
    and db1: "db_pending db1 = (db_pending db)((inv_tenant r, inv_id r) :=
      Some \<lparr>sealed_key = kr_active keys, sealed_value = pending\<rparr>)"
    and art: "art_artifact pending = artifact_ref (inv_id r)"
    unfolding stage_transfer_def Let_def rbind_Ok_iff case_option_eq_iff ensure_Ok_iff by auto
  note fr = stage_transfer_frame [OF f]
  have same: "db_locators db1 = db_locators db" "same_directory db db1" "db_sessions db1 = db_sessions db"
    using fr(1) by (auto simp: same_directory_def)
  have "resumable db1 (inv_id r) (r1\<lparr>inv_state := nxt\<rparr>)"
    using res keys art same_directory_keys [OF same(2)]
    by (simp add: resumable_def keys_live_def opens_for_def fr(2) nxt db1 same(3) meta_openers_def)
  with same show "(\<forall>t j. j \<noteq> inv_id r \<longrightarrow> db_pending db1 (t, j) = db_pending db (t, j)) \<and>
     (\<forall>j. j \<noteq> inv_id r \<longrightarrow> db_locators db1 (artifact_ref j) = db_locators db (artifact_ref j)) \<and>
     (early nxt \<longrightarrow> db_locators db1 (artifact_ref (inv_id r)) = db_locators db (artifact_ref (inv_id r))) \<and>
     (\<not> is_terminal nxt \<longrightarrow> resumable db1 (inv_id r) (r1\<lparr>inv_state := nxt\<rparr>))"
    by (simp add: db1)
qed

lemma stage_publish_effect:
  assumes "stage_publish env db r = Ok (r1, db1)"
  obtains keys sealed where "tenant_keys db (inv_tenant r) = Ok keys"
    and "db_pending db (inv_tenant r, inv_id r) = Some sealed"
    and "sealed_key sealed \<in> set (meta_openers keys)"
    and "db_pending db1 = (db_pending db)((inv_tenant r, inv_id r) := None)"
    and "db_artifacts db1 = (db_artifacts db)((inv_tenant r, art_artifact (sealed_value sealed)) :=
      Some \<lparr>sealed_key = kr_active keys,
        sealed_value = (sealed_value sealed)\<lparr>art_published_at := Some (env_now env)\<rparr>\<rparr>)"
    and "db_locators db (art_artifact (sealed_value sealed)) = None"
    and "db_locators db1 = (db_locators db)(art_artifact (sealed_value sealed) :=
      Some \<lparr>loc_artifact = art_artifact (sealed_value sealed), loc_owner = inv_tenant r,
        loc_session = inv_session r\<rparr>)"
proof -
  from assms obtain keys sealed where *: "tenant_keys db (inv_tenant r) = Ok keys"
    "db_pending db (inv_tenant r, inv_id r) = Some sealed"
    "open_sealed (meta_openers keys) sealed = Ok (sealed_value sealed)"
    "sealed_key sealed \<in> set (meta_openers keys)"
    unfolding stage_publish_def by (auto simp: rbind_Ok_iff ok_or_def open_sealed_def split: option.splits if_splits)
  with assms show ?thesis
    unfolding stage_publish_def
    by (intro that [of keys sealed])
      (auto simp: rbind_Ok_iff ok_or_def ensure_Ok_iff Let_def split: option.splits)
qed

lemma custody_stage_publish: "custody_stage Step.Publish (stage_publish env)"
  unfolding custody_stage_def
proof (intro allI impI)
  fix db r r1 db1 nxt
  assume f: "stage_publish env db r = Ok (r1, db1)"
    and res: "resumable db (inv_id r) r" and step: "lifecycle (inv_state r) Step.Publish nxt"
  have nxt: "nxt = Published" "inv_state r = TransferComplete" using step by (auto elim: lifecycleE)
  from f obtain keys sealed where pend: "db_pending db (inv_tenant r, inv_id r) = Some sealed"
    and p1: "db_pending db1 = (db_pending db)((inv_tenant r, inv_id r) := None)"
    and l1: "db_locators db1 = (db_locators db)(art_artifact (sealed_value sealed) :=
      Some \<lparr>loc_artifact = art_artifact (sealed_value sealed), loc_owner = inv_tenant r,
        loc_session = inv_session r\<rparr>)"
    by (rule stage_publish_effect)
  have art: "art_artifact (sealed_value sealed) = artifact_ref (inv_id r)"
    using res nxt(2) pend by (simp add: resumable_def)
  note fr = stage_publish_frame [OF f]
  have same: "same_directory db db1" "db_sessions db1 = db_sessions db"
    using fr(2) by (auto simp: same_directory_def)
  have "resumable db1 (inv_id r) (r1\<lparr>inv_state := nxt\<rparr>)"
    using res nxt same_directory_keys [OF same(1)]
    by (simp add: resumable_def keys_live_def fr(1) same(2))
  then show "(\<forall>t j. j \<noteq> inv_id r \<longrightarrow> db_pending db1 (t, j) = db_pending db (t, j)) \<and>
     (\<forall>j. j \<noteq> inv_id r \<longrightarrow> db_locators db1 (artifact_ref j) = db_locators db (artifact_ref j)) \<and>
     (early nxt \<longrightarrow> db_locators db1 (artifact_ref (inv_id r)) = db_locators db (artifact_ref (inv_id r))) \<and>
     (\<not> is_terminal nxt \<longrightarrow> resumable db1 (inv_id r) (r1\<lparr>inv_state := nxt\<rparr>))"
    by (simp add: p1 l1 art nxt early_def)
qed

lemma custody_stages_closing:
  "custody_stage Step.Settle (stage_settle outcome)"
  "custody_stage (Step.Release reason) (stage_release reason)"
  "custody_stage Step.MarkUnknownEffect stage_unknown"
  by (rule custody_stage_closing,
      auto simp: stage_settle_def stage_release_def stage_unknown_def rbind_Ok_iff elim!: apply_settlement_frame)+

lemma begin_custody:
  assumes "begin_tx env intent db = Ok (Commit b v tx)" and inv: "custody_inv db"
  shows "custody_inv tx"
  using assms(1)
proof (cases rule: begin_Commit)
  case (refused entry seq failure)
  then show ?thesis using inv append_audit_custody by blast
next
  case (persisted keys chain reservation)
  let ?r = "intent_record env intent chain reservation"
  from persisted(6) obtain m idem where
    tx: "tx = (put_invocation (db\<lparr>db_ledgers := m\<rparr>) ?r)\<lparr>db_idem := idem\<rparr>"
    by (rule persist_Commit)
  let ?i = "int_invocation intent" and ?req = "int_authz intent"
  have keys: "tenant_keys tx t = tenant_keys db t" for t
    by (rule tenant_keys_cong) (simp_all add: tx put_invocation_def)
  obtain c session where call: "grants_call (store_view db) ?req (env_now env) c session"
    using persisted(4) by (rule authorize_contract)
  have sess: "\<exists>sr. db_sessions db s = Some sr \<and> keys_live db (sr_owner sr)" if s: "az_session ?req = Some s" for s
  proof -
    from call s obtain sr where sr: "db_sessions db s = Some sr"
      by (auto simp: grants_call_def store_view_def)
    with persisted(5) s have "db_tombstones db (sr_owner sr) = None" by (simp add: session_owner_shredded_def)
    with sr inv have "keys_live db (sr_owner sr)" unfolding custody_inv_def by metis
    with sr show ?thesis by blast
  qed
  have flds: "db_tenants tx = db_tenants db" "db_tombstones tx = db_tombstones db" "db_rekey tx = db_rekey db"
    "db_sessions tx = db_sessions db" "db_pending tx = db_pending db" "db_locators tx = db_locators db"
    "db_invocations tx = (db_invocations db)(?i := Some ?r)"
    by (simp_all add: tx put_invocation_def intent_record_def)
  have "resumable tx ?i ?r"
    using sess persisted(1) by (simp add: resumable_def keys_live_def keys flds intent_record_def)
  moreover have "resumable tx j q" if "resumable db j q" for j q
    using that by (simp add: resumable_def keys_live_def opens_for_def keys flds)
  moreover have "db_locators db (artifact_ref ?i) = None"
    using inv persisted(2) by (fastforce simp: custody_inv_def)
  ultimately show ?thesis
    using inv by (auto simp: custody_inv_def keys_live_def keys flds)
qed

lemma transition_op_custody:
  assumes "custody_inv db" and "ledger_inv db" and "frames_stage f" and "custody_stage step f"
  shows "custody_inv (fst (transition env i step boundary f db))"
  unfolding transition_def
  by (rule end_tx_inv [where P = custody_inv, OF assms(1)]) (rule transition_custody [OF assms])

lemma store_step_custody:
  assumes "store_step db db'" and "ledger_inv db" and inv: "custody_inv db"
  shows "custody_inv db'"
proof -
  note tr = transition_op_custody [OF inv assms(2)]
  note tx = end_tx_inv [where P = custody_inv, OF inv]
  note keep = keeps_custody_inv [OF _ inv]
  from assms(1) show ?thesis
  proof cases
    case (audit_step env entry)
    then show ?thesis unfolding record_audit_def Let_def
      by (simp only:) (rule tx, auto intro: append_audit_custody [OF _ inv] simp: rbind_Ok_iff)
  next
    case (register_step env reg)
    then show ?thesis unfolding register_tenant_def
      by (simp only:) (rule tx, rule register_tenant_custody [OF _ inv])
  next
    case (root_step env root)
    then show ?thesis unfolding install_root_grant_def
      by (simp only:) (rule tx, rule keep [OF directory_keeps(1)])
  next
    case (shred_step sessions scan env tenant)
    then show ?thesis unfolding shred_tenant_def
      by (simp only:) (rule tx, rule shred_custody [OF _ inv], auto)
  qed (simp_all add: dispatch_def tr [OF frames_stages(1) custody_stage_dispatch]
      complete_transfer_def tr [OF frames_stages(2) custody_stage_transfer]
      publish_def tr [OF frames_stages(3) custody_stage_publish]
      settle_invocation_def tr [OF frames_stages(4) custody_stages_closing(1)]
      release_invocation_def tr [OF frames_stages(5) custody_stages_closing(2)]
      mark_unknown_effect_def tr [OF frames_stages(6) custody_stages_closing(3)]
      begin_invocation_def tx [OF begin_custody [OF _ inv]]
      issue_grant_def tx [OF keep [OF directory_keeps(2)]]
      revoke_grant_def tx [OF keep [OF directory_keeps(3)]]
      claim_key_def tx [OF keep [OF directory_keeps(4)]]
      open_session_def tx [OF open_session_custody [OF _ inv]])
qed

lemma reachable_custody_inv: "store_reachable db \<Longrightarrow> custody_inv db"
proof -
  assume "store_reachable db"
  then have "ledger_inv db \<and> custody_inv db"
    by (rule reachable_invariant)
      (auto intro: ledger_inv_empty custody_inv_empty store_step_ledger_inv store_step_custody)
  then show ?thesis ..
qed

section \<open>Progress\<close>

lemma release_total:
  assumes "\<And>d. amount_nat amount d \<le> amount_nat used d"
  obtains left where "Budget.release used amount = Ok left"
proof -
  have "Budget.release used amount = Ok (cost_from (\<lambda>d. cost_get used d - cost_get amount d))"
    unfolding release_Ok_iff using assms by (simp add: unat_sub word_le_nat_alt)
  then show ?thesis by (rule that)
qed

lemma release_ledgers_total:
  assumes "distinct ls" and "\<And>l d. l \<in> set ls \<Longrightarrow> amount_nat amount d \<le> amount_nat (ledger_used db l) d"
  shows "\<exists>db'. release_ledgers db ls amount = Ok db'"
  using assms
proof (induction ls arbitrary: db)
  case (Cons l ls)
  obtain left where left: "Budget.release (ledger_used db l) amount = Ok left"
    using Cons.prems(2) [of l] by (auto intro: release_total)
  have "\<exists>db'. release_ledgers (put_ledger db l left) ls amount = Ok db'"
    using Cons.prems by (intro Cons.IH) auto
  with left show ?case by simp
qed simp

lemma reservation_held:
  assumes "ledger_inv db" and "db_invocations db i = Some r" and "inv_debited r = None"
    and "l \<in> set (inv_ledgers r)"
  shows "amount_nat (inv_reserved r) d \<le> amount_nat (ledger_used db l) d"
proof -
  have "i \<in> dom (db_invocations db)" "finite (dom (db_invocations db))"
    using assms(1,2) by (auto simp: ledger_inv_def)
  then have "charge_on l d (the (db_invocations db i)) \<le> total_on db l d"
    unfolding total_on_def by (intro member_le_sum) simp_all
  with assms show ?thesis by (simp add: charge_on_def held_def ledger_inv_def)
qed

lemma apply_settlement_total:
  assumes inv: "ledger_inv db" and r: "db_invocations db i = Some r" "\<not> charged (inv_state r)"
    and r': "inv_ledgers r' = inv_ledgers r"
    and s: "\<And>d. amount_nat (release_amount s) d \<le> amount_nat (inv_reserved r) d"
  obtains m where "apply_settlement s db r' = Ok (r'\<lparr>inv_debited := Some (debit s)\<rparr>, db\<lparr>db_ledgers := m\<rparr>)"
proof -
  have wf: "wf_invocation i r" using inv r(1) by (simp add: ledger_inv_def)
  then have "distinct (inv_ledgers r')" and "inv_debited r = None"
    using r(2) r' by (auto simp: wf_invocation_def)
  then obtain db1 where "release_ledgers db (inv_ledgers r') (release_amount s) = Ok db1"
    using release_ledgers_total [of "inv_ledgers r'" "release_amount s" db]
      le_trans [OF s reservation_held [OF inv r(1)]] r' by auto
  with release_ledgers_frame [OF this] that show ?thesis by (auto simp: apply_settlement_def)
qed

lemma settlement_total: "settlement_result (Budget.settle reserved actual) = Ok (settlement_of reserved actual)"
  by (simp add: settlement_result_def Budget.settle_def split: option.split)

text \<open>An undisturbed transition whose stage succeeds and whose audit entry has room goes through.\<close>

definition quiet :: "Env \<Rightarrow> bool" where
  "quiet env \<longleftrightarrow> (\<forall>p b. \<not> env_crash env p b)"

lemma end_tx_quiet: "quiet env \<Longrightarrow> end_tx env db (Ok (Commit b v tx)) = (tx, Ok v)"
  by (simp add: quiet_def end_tx_def commit_def split: option.split)

lemma transition_total:
  assumes quiet: "quiet env" and aud: "audit_inv db" and r: "db_invocations db i = Some r" "inv_id r = i"
    and step: "lifecycle (inv_state r) step nxt" and f: "f db r = Ok (r1, db1)" "frames_stage f"
    and terminal: "is_terminal nxt \<Longrightarrow> map_option terminal_state (inv_terminal r1) = Some nxt"
    and room: "is_terminal nxt \<Longrightarrow> last_seq db + 1 < 2 ^ 64" and live: "keys_live db (inv_tenant r)"
  obtains v tx r2 where "transition env i step boundary f db = (tx, Ok v)"
    and "db_invocations tx = (db_invocations db)(i := Some r2)" and "inv_state r2 = nxt"
    and "last_seq tx = last_seq db + (if is_terminal nxt then 1 else 0)"
proof -
  let ?r = "r1\<lparr>inv_state := nxt, inv_updated_at := env_now env\<rparr>"
  have fr: "inv_id r1 = i" "inv_tenant r1 = inv_tenant r" "db_invocations db1 = db_invocations db"
    "audit_kept db db1" "same_directory db db1"
    using f r(2) by (auto simp: frames_stage_def audit_kept_def)
  have aud1: "audit_inv db1" "last_seq db1 = last_seq db"
    using aud audit_inv_kept [OF fr(4)] fr(4) by (simp_all add: audit_kept_def last_seq_def)
  obtain db2 where db2: "record_terminal env db1 ?r = Ok db2"
    and seq: "last_seq db2 = last_seq db + (if is_terminal nxt then 1 else 0)"
    and keep: "db_invocations db2 = db_invocations db1"
  proof (cases "is_terminal nxt")
    case True
    from live obtain keys where "tenant_keys db1 (inv_tenant r) = Ok keys"
      using same_directory_keys [OF fr(5)] by (auto simp: keys_live_def)
    moreover obtain t where t: "inv_terminal r1 = Some t" "terminal_state t = nxt"
      using terminal [OF True] by auto
    moreover define entry where "entry = (audit_entry_terminal (inv_tenant ?r) (inv_id ?r) (inv_capability ?r) t)
      \<lparr>ae_session := inv_session ?r, ae_grant := (case inv_grant_chain ?r of [] \<Rightarrow> None | g # _ \<Rightarrow> Some g)\<rparr>"
    ultimately obtain seq db2 where app: "append_audit env db1 entry = Ok (seq, db2)"
      using append_audit_succeeds [OF aud1(1), of entry keys env] room [OF True] aud1(2) fr(2)
      by (auto simp: audit_entry_terminal_def audit_entry_new_def)
    then have "record_terminal env db1 ?r = Ok db2"
      using True t by (simp add: record_terminal_def entry_def)
    moreover have "db_invocations db2 = db_invocations db1" using app by (rule append_audit_frame) simp
    ultimately show ?thesis using that append_audit_inv(2) [OF aud1(1) app] aud1(2) True by simp
  next
    case False
    then have "record_terminal env db1 ?r = Ok db1" by (simp add: record_terminal_def)
    with that aud1(2) False show ?thesis by simp
  qed
  have "transition_tx env i step boundary f db = Ok (Commit (Some boundary) (status_of ?r) (put_invocation db2 ?r))"
    using r(1) step f(1) db2
    by (simp add: transition_tx_def existing_invocation_def ok_or_def next_state_iff [symmetric] Let_def)
  then have "transition env i step boundary f db = (put_invocation db2 ?r, Ok (status_of ?r))"
    by (simp add: transition_def end_tx_quiet [OF quiet])
  moreover have "db_invocations (put_invocation db2 ?r) = (db_invocations db)(i := Some ?r)"
    using keep fr(1,3) by (simp add: put_invocation_def)
  moreover have "last_seq (put_invocation db2 ?r) = last_seq db2" by (simp add: last_seq_def put_invocation_def)
  ultimately show ?thesis using that [of _ _ ?r] seq by simp
qed

subsection \<open>One invocation\<close>

definition sound :: "Db \<Rightarrow> bool" where
  "sound db \<longleftrightarrow> ledger_inv db \<and> custody_inv db \<and> audit_inv db"

lemma sound_step: "store_step db db' \<Longrightarrow> sound db \<Longrightarrow> sound db'"
  unfolding sound_def using store_step_ledger_inv store_step_custody audit_extends_inv [OF store_step_audit]
  by blast

lemma reachable_sound: "store_reachable db \<Longrightarrow> sound db"
  by (simp add: sound_def reachable_ledger_inv reachable_custody_inv reachable_audit_inv)

lemma sound_open:
  assumes "sound db" and "db_invocations db i = Some r" and "\<not> is_terminal (inv_state r)"
  shows "inv_id r = i" and "\<not> charged (inv_state r)" and "resumable db i r" and "keys_live db (inv_tenant r)"
proof -
  show "resumable db i r" using assms by (simp add: sound_def custody_inv_def)
  then show "keys_live db (inv_tenant r)" by (simp add: resumable_def)
  show "\<not> charged (inv_state r)" using assms(3) by (auto simp: charged_def)
  show "inv_id r = i" using assms by (auto simp: sound_def ledger_inv_def wf_invocation_def)
qed

lemma release_total_op:
  assumes env: "quiet env" and db: "sound db" "db_invocations db i = Some r"
    and step: "lifecycle (inv_state r) (Step.Release reason) nxt" and room: "last_seq db + 1 < 2 ^ 64"
  obtains v tx r2 where "release_invocation env i reason db = (tx, Ok v)"
    and "db_invocations tx = (db_invocations db)(i := Some r2)" and "inv_state r2 = nxt"
    and "last_seq tx = last_seq db + 1"
proof -
  have nt: "\<not> is_terminal (inv_state r)" and nxt: "nxt = InvocationState.Released"
    using step terminal_final by (auto elim: lifecycleE)
  note o = sound_open [OF db nt]
  have inv: "ledger_inv db" "audit_inv db" using db(1) by (simp_all add: sound_def)
  obtain m where "stage_release reason db r = Ok ((r\<lparr>inv_terminal := Some (Terminal.Released reason)\<rparr>)
      \<lparr>inv_debited := Some cost_default\<rparr>, db\<lparr>db_ledgers := m\<rparr>)"
    using apply_settlement_total [OF inv(1) db(2) o(2), of "r\<lparr>inv_terminal := Some (Terminal.Released reason)\<rparr>"
        "\<lparr>debit = cost_default, release_amount = inv_reserved r\<rparr>"]
    by (auto simp: stage_release_def)
  note stage = this
  show ?thesis
    by (rule transition_total [OF env inv(2) db(2) o(1) step stage frames_stages(5) _ _ o(4), where boundary = Boundary.Terminal])
      (use room nxt that in \<open>auto simp: release_invocation_def\<close>)
qed

lemma unknown_total_op:
  assumes env: "quiet env" and db: "sound db" "db_invocations db i = Some r"
    and step: "lifecycle (inv_state r) Step.MarkUnknownEffect nxt" and room: "last_seq db + 1 < 2 ^ 64"
  obtains v tx r2 where "mark_unknown_effect env i db = (tx, Ok v)"
    and "db_invocations tx = (db_invocations db)(i := Some r2)" and "inv_state r2 = nxt"
    and "last_seq tx = last_seq db + 1"
proof -
  have nt: "\<not> is_terminal (inv_state r)" and nxt: "nxt = InvocationState.UnknownEffect"
    using step terminal_final by (auto elim: lifecycleE)
  note o = sound_open [OF db nt]
  have inv: "ledger_inv db" "audit_inv db" using db(1) by (simp_all add: sound_def)
  have zero: "amount_nat (release_amount (unknown_effect_settlement c)) d = 0" for c d
    by (cases d) (simp_all add: unknown_effect_settlement_def)
  obtain m where "stage_unknown db r = Ok ((r\<lparr>inv_terminal := Some Terminal.UnknownEffect\<rparr>)
      \<lparr>inv_debited := Some (debit (unknown_effect_settlement (inv_reserved r)))\<rparr>, db\<lparr>db_ledgers := m\<rparr>)"
    using apply_settlement_total [OF inv(1) db(2) o(2), of "r\<lparr>inv_terminal := Some Terminal.UnknownEffect\<rparr>"
        "unknown_effect_settlement (inv_reserved r)"] zero
    by (auto simp: stage_unknown_def)
  note stage = this
  show ?thesis
    by (rule transition_total [OF env inv(2) db(2) o(1) step stage frames_stages(6) _ _ o(4), where boundary = Boundary.Terminal])
      (use room nxt that in \<open>auto simp: mark_unknown_effect_def\<close>)
qed

lemma settle_total_op:
  assumes env: "quiet env" and db: "sound db" "db_invocations db i = Some r"
    and pub: "inv_state r = Published" and room: "last_seq db + 1 < 2 ^ 64"
  obtains v tx r2 where "settle_invocation env i SettleSuccess db = (tx, Ok v)"
    and "db_invocations tx = (db_invocations db)(i := Some r2)" and "inv_state r2 = InvocationState.Settled"
    and "last_seq tx = last_seq db + 1"
proof -
  have nt: "\<not> is_terminal (inv_state r)" using pub by simp
  have step: "lifecycle (inv_state r) Step.Settle InvocationState.Settled" using pub by (simp add: settle_published)
  note o = sound_open [OF db nt]
  have inv: "ledger_inv db" "audit_inv db" using db(1) by (simp_all add: sound_def)
  obtain actual where act: "inv_actual r = Some actual" using o(3) pub by (auto simp: resumable_def)
  obtain m where "stage_settle SettleSuccess db r =
      Ok ((r\<lparr>inv_actual := Some actual, inv_terminal := Some (Terminal.Settled None)\<rparr>)
      \<lparr>inv_debited := Some (debit (settlement_of (inv_reserved r) actual))\<rparr>, db\<lparr>db_ledgers := m\<rparr>)"
    using apply_settlement_total [OF inv(1) db(2) o(2),
        of "r\<lparr>inv_actual := Some actual, inv_terminal := Some (Terminal.Settled None)\<rparr>"
          "settlement_of (inv_reserved r) actual"] act pub
    by (auto simp: stage_settle_def settle_consumption_def settlement_total ok_or_def)
  note stage = this
  show ?thesis
    by (rule transition_total [OF env inv(2) db(2) o(1) step stage frames_stages(4) _ _ o(4), where boundary = Boundary.Terminal])
      (use room that in \<open>auto simp: settle_invocation_def\<close>)
qed

lemma publish_total_op:
  assumes env: "quiet env" and db: "sound db" "db_invocations db i = Some r"
    and tc: "inv_state r = TransferComplete"
  obtains v tx r2 where "publish env i db = (tx, Ok v)"
    and "db_invocations tx = (db_invocations db)(i := Some r2)" and "inv_state r2 = Published"
    and "last_seq tx = last_seq db"
proof -
  have nt: "\<not> is_terminal (inv_state r)" using tc by simp
  have step: "lifecycle (inv_state r) Step.Publish Published" using tc by (simp add: lifecycle.publish)
  note o = sound_open [OF db nt]
  have inv: "custody_inv db" "audit_inv db" using db(1) by (simp_all add: sound_def)
  from o(3) tc obtain sealed keys where s: "db_pending db (inv_tenant r, i) = Some sealed"
    "tenant_keys db (inv_tenant r) = Ok keys" "sealed_key sealed \<in> set (meta_openers keys)"
    "art_artifact (sealed_value sealed) = artifact_ref i"
    by (auto simp: resumable_def opens_for_def)
  have loc: "db_locators db (artifact_ref i) = None"
    by (rule early_unlocated [OF inv(1) db(2)]) (simp add: tc early_def)
  have own: "tenant_keys (db\<lparr>db_artifacts := a, db_pending := p, db_locators := l\<rparr>) t = tenant_keys db t"
    for a p l t by (rule tenant_keys_cong) simp_all
  have "\<exists>db1. stage_publish env db r = Ok (r, db1)"
  proof (cases "inv_session r")
    case None
    with s loc o(1) show ?thesis by (simp add: stage_publish_def ok_or_def open_sealed_def Let_def)
  next
    case (Some sid)
    with o(3) obtain sr ks where "db_sessions db sid = Some sr" "tenant_keys db (sr_owner sr) = Ok ks"
      by (auto simp: resumable_def keys_live_def)
    with s loc o(1) Some show ?thesis
      by (simp add: stage_publish_def ok_or_def open_sealed_def Let_def own)
  qed
  then obtain db1 where "stage_publish env db r = Ok (r, db1)" ..
  note stage = this
  show ?thesis
    by (rule transition_total [OF env inv(2) db(2) o(1) step stage frames_stages(3) _ _ o(4), where boundary = Boundary.Publish])
      (use that in \<open>auto simp: publish_def\<close>)
qed

lemma transfer_total_op:
  assumes env: "quiet env" and db: "sound db" "db_invocations db i = Some r"
    and disp: "inv_state r = Dispatched" and len: "length (tf_envelope transfer) \<le> MAX_PLAINTEXT_LEN"
  obtains v tx r2 where "complete_transfer env i transfer db = (tx, Ok v)"
    and "db_invocations tx = (db_invocations db)(i := Some r2)" and "inv_state r2 = TransferComplete"
proof -
  have nt: "\<not> is_terminal (inv_state r)" using disp by simp
  have step: "lifecycle (inv_state r) Step.CompleteTransfer TransferComplete" using disp by (simp add: lifecycle.transfer)
  note o = sound_open [OF db nt]
  have aud: "audit_inv db" using db(1) by (simp add: sound_def)
  obtain keys where "tenant_keys db (inv_tenant r) = Ok keys" using o(4) by (auto simp: keys_live_def)
  with len have "\<exists>r1 db1. stage_transfer env transfer db r = Ok (r1, db1)"
    by (cases "db_blobs db (inv_tenant r, env_blob_address env (inv_tenant r) (tf_envelope transfer))")
      (simp_all add: stage_transfer_def ensure_def Let_def)
  then obtain r1 db1 where stage: "stage_transfer env transfer db r = Ok (r1, db1)" by blast
  show ?thesis
    by (rule transition_total [OF env aud db(2) o(1) step stage frames_stages(2) _ _ o(4),
          where boundary = Boundary.CompleteTransfer])
      (use that in \<open>auto simp: complete_transfer_def\<close>)
qed

lemma dispatch_total_op:
  assumes env: "quiet env" and db: "sound db" "db_invocations db i = Some r"
    and int: "inv_state r = IntentPersisted"
  obtains v tx r2 where "dispatch env i db = (tx, Ok v)"
    and "db_invocations tx = (db_invocations db)(i := Some r2)" and "inv_state r2 = Dispatched"
proof -
  have nt: "\<not> is_terminal (inv_state r)" using int by simp
  have step: "lifecycle (inv_state r) Step.Dispatch Dispatched" using int by (simp add: lifecycle.dispatch)
  note o = sound_open [OF db nt]
  have aud: "audit_inv db" using db(1) by (simp add: sound_def)
  show ?thesis
    by (rule transition_total [OF env aud db(2) o(1) step refl frames_stages(1) _ _ o(4),
          where boundary = Boundary.Dispatch])
      (use that in \<open>auto simp: dispatch_def\<close>)
qed

lemma publish_effect:
  assumes sound: "sound db" and "publish env i db = (db', Ok st)"
  shows "db_locators db (artifact_ref i) = None \<and>
    (\<exists>r sealed. db_invocations db i = Some r \<and> inv_state r = TransferComplete \<and>
       db_pending db (inv_tenant r, i) = Some sealed \<and> db_pending db' (inv_tenant r, i) = None \<and>
       db_locators db' = (db_locators db)(artifact_ref i \<mapsto>
         \<lparr>loc_artifact = artifact_ref i, loc_owner = inv_tenant r, loc_session = inv_session r\<rparr>) \<and>
       map_option sealed_value (db_artifacts db' (inv_tenant r, artifact_ref i)) =
         Some ((sealed_value sealed)\<lparr>art_published_at := Some (env_now env)\<rparr>) \<and>
       (\<forall>t a. a \<noteq> artifact_ref i \<longrightarrow> db_artifacts db' (t, a) = db_artifacts db (t, a)))"
proof -
  have "transition_tx env i Step.Publish Boundary.Publish (stage_publish env) db \<noteq> Ok (Abandon st)"
    by (auto simp: transition_tx_def rbind_Ok_iff Let_def)
  with end_tx_Ok [OF assms(2) [unfolded publish_def transition_def]] obtain b where
    "transition_tx env i Step.Publish Boundary.Publish (stage_publish env) db = Ok (Commit b st db')"
    by auto
  then obtain r nxt r1 db1 stubs parts where
    r: "db_invocations db i = Some r" "lifecycle (inv_state r) Step.Publish nxt" "stage_publish env db r = Ok (r1, db1)"
    and tx: "db' = put_invocation (db1\<lparr>db_audit_stub := stubs, db_audit := parts\<rparr>)
        (r1\<lparr>inv_state := nxt, inv_updated_at := env_now env\<rparr>)"
    by (rule transition_Commit)
  have tc: "inv_state r = TransferComplete" using r(2) by (auto elim: lifecycleE)
  then have nt: "\<not> is_terminal (inv_state r)" by simp
  note o = sound_open [OF sound r(1) nt]
  from r(3) obtain keys :: Keyring and sealed where s: "db_pending db (inv_tenant r, inv_id r) = Some sealed"
    "db_pending db1 = (db_pending db)((inv_tenant r, inv_id r) := None)"
    "db_artifacts db1 = (db_artifacts db)((inv_tenant r, art_artifact (sealed_value sealed)) :=
      Some \<lparr>sealed_key = kr_active keys,
        sealed_value = (sealed_value sealed)\<lparr>art_published_at := Some (env_now env)\<rparr>\<rparr>)"
    "db_locators db (art_artifact (sealed_value sealed)) = None"
    "db_locators db1 = (db_locators db)(art_artifact (sealed_value sealed) :=
      Some \<lparr>loc_artifact = art_artifact (sealed_value sealed), loc_owner = inv_tenant r,
        loc_session = inv_session r\<rparr>)"
    by (rule stage_publish_effect)
  have "art_artifact (sealed_value sealed) = artifact_ref i"
    using o(1,3) tc s(1) by (simp add: resumable_def)
  with r(1) tc s o(1) show ?thesis
    by (intro conjI exI [of _ r] exI [of _ sealed]) (simp_all add: tx put_invocation_def)
qed

lemma recover_one_total:
  assumes env: "quiet env" and db: "sound db" "db_invocations db i = Some r"
    and act: "recovery_action (inv_state r) = Some action" and room: "last_seq db + 1 < 2 ^ 64"
  obtains tx report' r2 where "recover_one env i action report db = (tx, Ok report')" and "store_step\<^sup>*\<^sup>* db tx"
    and "db_invocations tx = (db_invocations db)(i := Some r2)" and "is_terminal (inv_state r2)"
    and "last_seq tx = last_seq db + 1"
proof -
  from act consider "inv_state r = IntentPersisted" "action = ReleaseAbandoned"
    | "inv_state r = Dispatched" "action = RecoveryAction.MarkUnknownEffect"
    | "inv_state r = TransferComplete" "action = RollForwardPublish"
    | "inv_state r = Published" "action = RollForwardSettle" by (cases "inv_state r") auto
  then show ?thesis
  proof cases
    case 1
    have "lifecycle (inv_state r) (Step.Release Abandoned) InvocationState.Released"
      unfolding 1 by (rule release_intent) simp
    from release_total_op [OF env db this room] obtain v tx r2 where
      o: "release_invocation env i Abandoned db = (tx, Ok v)"
      "db_invocations tx = (db_invocations db)(i := Some r2)" "inv_state r2 = InvocationState.Released"
      "last_seq tx = last_seq db + 1" .
    have "store_step db tx" using release_step [of db env i Abandoned] o(1) by simp
    with o 1(2) show ?thesis by (intro that [of tx _ r2]) (simp_all add: recover_one_def r_into_rtranclp)
  next
    case 2
    have "lifecycle (inv_state r) Step.MarkUnknownEffect InvocationState.UnknownEffect"
      unfolding 2 by (rule unknown_effect)
    from unknown_total_op [OF env db this room] obtain v tx r2 where
      o: "mark_unknown_effect env i db = (tx, Ok v)"
      "db_invocations tx = (db_invocations db)(i := Some r2)" "inv_state r2 = InvocationState.UnknownEffect"
      "last_seq tx = last_seq db + 1" .
    have "store_step db tx" using unknown_step [of db env i] o(1) by simp
    with o 2(2) show ?thesis by (intro that [of tx _ r2]) (simp_all add: recover_one_def r_into_rtranclp)
  next
    case 3
    from publish_total_op [OF env db 3(1)] obtain v1 db1 r1 where
      p: "publish env i db = (db1, Ok v1)" "db_invocations db1 = (db_invocations db)(i := Some r1)"
      "inv_state r1 = Published" "last_seq db1 = last_seq db" .
    have s1: "store_step db db1" using publish_step [of db env i] p(1) by simp
    have "db_invocations db1 i = Some r1" "last_seq db1 + 1 < 2 ^ 64" using p(2,4) room by simp_all
    from settle_total_op [OF env sound_step [OF s1 db(1)] this(1) p(3) this(2)] obtain v tx r2 where
      o: "settle_invocation env i SettleSuccess db1 = (tx, Ok v)"
      "db_invocations tx = (db_invocations db1)(i := Some r2)" "inv_state r2 = InvocationState.Settled"
      "last_seq tx = last_seq db1 + 1" .
    have "store_step db1 tx" using settle_step [of db1 env i SettleSuccess] o(1) by simp
    with s1 have "store_step\<^sup>*\<^sup>* db tx" by (meson rtranclp.rtrancl_into_rtrancl r_into_rtranclp)
    with o p 3(2) show ?thesis by (intro that [of tx _ r2]) (simp_all add: recover_one_def)
  next
    case 4
    from settle_total_op [OF env db 4(1) room] obtain v tx r2 where
      o: "settle_invocation env i SettleSuccess db = (tx, Ok v)"
      "db_invocations tx = (db_invocations db)(i := Some r2)" "inv_state r2 = InvocationState.Settled"
      "last_seq tx = last_seq db + 1" .
    have "store_step db tx" using settle_step [of db env i SettleSuccess] o(1) by simp
    with o 4(2) show ?thesis by (intro that [of tx _ r2]) (simp_all add: recover_one_def r_into_rtranclp)
  qed
qed

subsection \<open>The whole run\<close>

lemma sound_steps: "store_step\<^sup>*\<^sup>* db db' \<Longrightarrow> sound db \<Longrightarrow> sound db'"
  by (induction rule: rtranclp_induct) (auto intro: sound_step)

lemma recover_all_total:
  assumes "quiet env" and "sound db" and "distinct (map fst todo)"
    and "\<And>i action. (i, action) \<in> set todo \<Longrightarrow>
      \<exists>r. db_invocations db i = Some r \<and> recovery_action (inv_state r) = Some action"
    and "last_seq db + length todo < 2 ^ 64"
  shows "\<exists>tx report'. recover_all env todo report db = (tx, Ok report') \<and> store_step\<^sup>*\<^sup>* db tx \<and>
    last_seq tx = last_seq db + length todo \<and>
    (\<forall>i. if i \<in> fst ` set todo then \<exists>r. db_invocations tx i = Some r \<and> is_terminal (inv_state r)
         else db_invocations tx i = db_invocations db i)"
  using assms
proof (induction todo arbitrary: db report)
  case (Cons t todo)
  obtain i action where t: "t = (i, action)" by (cases t)
  from Cons.prems(4) [of i action] t obtain r where
    r: "db_invocations db i = Some r" "recovery_action (inv_state r) = Some action" by auto
  have "last_seq db + 1 < 2 ^ 64" using Cons.prems(5) by simp
  from recover_one_total [OF Cons.prems(1,2) r this, of report] obtain db1 report1 r2 where
    one: "recover_one env i action report db = (db1, Ok report1)" "store_step\<^sup>*\<^sup>* db db1"
    "db_invocations db1 = (db_invocations db)(i := Some r2)" "is_terminal (inv_state r2)"
    "last_seq db1 = last_seq db + 1" .
  have i: "i \<notin> fst ` set todo" "distinct (map fst todo)" using Cons.prems(3) t by auto
  have todo: "\<exists>r. db_invocations db1 j = Some r \<and> recovery_action (inv_state r) = Some a"
    if "(j, a) \<in> set todo" for j a
  proof -
    from that i(1) have "j \<noteq> i" by force
    with that Cons.prems(4) [of j a] one(3) show ?thesis by simp
  qed
  from Cons.IH [OF Cons.prems(1) sound_steps [OF one(2) Cons.prems(2)] i(2) todo, of report1] Cons.prems(5) one(5)
  obtain tx report' where rest: "recover_all env todo report1 db1 = (tx, Ok report')" "store_step\<^sup>*\<^sup>* db1 tx"
    "last_seq tx = last_seq db1 + length todo"
    "\<And>j. if j \<in> fst ` set todo then \<exists>r. db_invocations tx j = Some r \<and> is_terminal (inv_state r)
       else db_invocations tx j = db_invocations db1 j" by auto
  have "if j \<in> fst ` set (t # todo) then \<exists>r. db_invocations tx j = Some r \<and> is_terminal (inv_state r)
       else db_invocations tx j = db_invocations db j" for j
    using rest(4) [of j] i(1) one(3,4) t by (cases "j = i") (auto split: if_splits)
  then show ?case
    using rest(1-3) one(1,2,5) t by (intro exI [of _ tx] exI [of _ report']) (simp add: rtranclp_trans [OF one(2) rest(2)])
qed simp

lemma open_invocations_iff:
  assumes "sound db"
  shows "(i, action) \<in> set (open_invocations scan db) \<longleftrightarrow>
    i \<in> set scan \<and> (\<exists>r. db_invocations db i = Some r \<and> recovery_action (inv_state r) = Some action)"
proof -
  have "inv_id r = j" if "db_invocations db j = Some r" for j r
    using assms that by (auto simp: sound_def ledger_inv_def wf_invocation_def)
  then show ?thesis by (force simp: open_invocations_def map_filter_def split: option.splits)
qed

lemma open_invocations_distinct:
  assumes "sound db" and "distinct scan"
  shows "distinct (map fst (open_invocations scan db))"
  using assms(2)
proof (induction scan)
  case (Cons j scan)
  have id: "inv_id r = j" if "db_invocations db j = Some r" for r
    using assms(1) that by (auto simp: sound_def ledger_inv_def wf_invocation_def)
  have "j \<notin> fst ` set (open_invocations scan db)"
    using Cons.prems open_invocations_iff [OF assms(1), of j _ scan] by auto
  with Cons id show ?case
    by (auto simp: open_invocations_def List.map_filter_simps split: option.splits)
qed (simp add: open_invocations_def List.map_filter_simps)

lemma recovery_action_None:
  "wf_invocation i r \<Longrightarrow> recovery_action (inv_state r) = None \<longleftrightarrow> is_terminal (inv_state r)"
  by (cases "inv_state r") (auto simp: wf_invocation_def)

lemma length_open_invocations: "length (open_invocations scan db) \<le> length scan"
  unfolding open_invocations_def by (induction scan) (auto simp: List.map_filter_simps split: option.splits)

lemma recovered_closed:
  assumes sound: "sound db" and scan: "set scan = dom (db_invocations db)"
    and each: "\<And>i. if i \<in> fst ` set (open_invocations scan db)
      then \<exists>r. db_invocations db' i = Some r \<and> is_terminal (inv_state r)
      else db_invocations db' i = db_invocations db i"
    and q: "db_invocations db' i = Some q"
  shows "is_terminal (inv_state q)"
proof (cases "i \<in> fst ` set (open_invocations scan db)")
  case True
  with each [of i] q show ?thesis by simp
next
  case False
  with each [of i] q have old: "db_invocations db i = Some q" by simp
  then have "wf_invocation i q" using sound by (simp add: sound_def ledger_inv_def)
  moreover have "recovery_action (inv_state q) = None"
  proof (rule ccontr)
    assume "recovery_action (inv_state q) \<noteq> None"
    then obtain a where "recovery_action (inv_state q) = Some a" by blast
    with old scan have "(i, a) \<in> set (open_invocations scan db)" by (auto simp: open_invocations_iff [OF sound])
    with False show False by (force simp: image_iff)
  qed
  ultimately show ?thesis by (simp add: recovery_action_None)
qed

lemma recovered_dom:
  assumes "\<And>i. if i \<in> fst ` set (open_invocations scan db)
      then \<exists>r. db_invocations db' i = Some r \<and> is_terminal (inv_state r)
      else db_invocations db' i = db_invocations db i"
    and "\<And>i a. (i, a) \<in> set (open_invocations scan db) \<Longrightarrow> \<exists>r. db_invocations db i = Some r"
  shows "dom (db_invocations db') = dom (db_invocations db)"
proof -
  have "db_invocations db' i \<noteq> None \<longleftrightarrow> db_invocations db i \<noteq> None" for i
    using assms(1) [of i] assms(2) [of i] by (auto split: if_splits)
  then show ?thesis by (simp add: dom_def)
qed

lemma closed_not_open:
  assumes "\<And>i r. db_invocations db i = Some r \<Longrightarrow> is_terminal (inv_state r)"
  shows "open_invocations scan db = []"
proof -
  have "recovery_action state = None" if "is_terminal state" for state
    using that by (cases state) auto
  with assms show ?thesis
    by (induction scan) (auto simp: open_invocations_def List.map_filter_simps split: option.splits)
qed

end
