(* ===== verification/Permanence.thy ===== *)
theory Permanence
  imports Recovery
begin

text \<open>
  What no later operation takes back: revocations, grants, tombstones, published locators, and the
  records of closed invocations.  \<open>permanent\<close> relates two databases where all of these survive; every
  step of the store satisfies it.
\<close>

section \<open>Surviving facts\<close>

definition permanent :: "Db \<Rightarrow> Db \<Rightarrow> bool" where
  "permanent db db' \<longleftrightarrow>
     db_revocations db \<subseteq>\<^sub>m db_revocations db' \<and> db_grants db \<subseteq>\<^sub>m db_grants db' \<and>
     db_tombstones db \<subseteq>\<^sub>m db_tombstones db' \<and> db_locators db \<subseteq>\<^sub>m db_locators db' \<and>
     (\<forall>t. db_tombstones db t \<noteq> None \<longrightarrow> db_tenants db t = None \<longrightarrow> db_tenants db' t = None) \<and>
     (\<forall>i r. db_invocations db i = Some r \<longrightarrow> is_terminal (inv_state r) \<longrightarrow> db_invocations db' i = Some r)"

lemma permanent_refl: "permanent db db"
  by (simp add: permanent_def)

lemma permanent_trans: "permanent a b \<Longrightarrow> permanent b c \<Longrightarrow> permanent a c"
  unfolding permanent_def by (elim conjE) (intro conjI; (erule (1) map_le_trans | (metis map_le_def domIff)))

lemma map_le_fresh: "m k = None \<Longrightarrow> m \<subseteq>\<^sub>m m(k \<mapsto> v)"
  by (auto simp: map_le_def)

lemma append_audit_permanent: "append_audit env db entry = Ok (seq, tx) \<Longrightarrow> permanent db tx"
  by (erule append_audit_frame) (simp add: permanent_def)

lemma append_audit_permanent2:
  "append_audit env tx entry = Ok (seq, tx') \<Longrightarrow> permanent db tx \<Longrightarrow> permanent db tx'"
  by (erule append_audit_frame) (simp add: permanent_def)

lemma directory_permanent:
  "register_tenant_tx env reg db = Ok (Commit b u tx) \<Longrightarrow> permanent db tx"
  "install_root_grant_tx root db = Ok (Commit b u tx) \<Longrightarrow> permanent db tx"
  "issue_grant_tx env issue db = Ok (Commit b v tx) \<Longrightarrow> permanent db tx"
  "revoke_grant_tx env revoke db = Ok (Commit b w tx) \<Longrightarrow> permanent db tx"
  "open_session_tx env new parent db = Ok (Commit b y tx) \<Longrightarrow> permanent db tx"
  "claim_tx env claim db = Ok (Commit b x tx) \<Longrightarrow> permanent db tx"
  "shred_tenant_tx env sessions scan tenant db = Ok (Commit b u tx) \<Longrightarrow> permanent db tx"
proof -
  have put: "permanent db tx" if "put_new_grant db r = Ok (staged, tx)" for r staged tx
    using that unfolding put_new_grant_def case_option_eq_iff result_iffs
    by (auto simp: permanent_def map_le_fresh)
  have decide: "permanent db tx" if "decide_issue env issue db = Ok (Commit b v tx)"
    using that by (rule decide_issue_Commit)
      (auto dest!: audit_issue_Commit put intro: append_audit_permanent append_audit_permanent2)
  show "register_tenant_tx env reg db = Ok (Commit b u tx) \<Longrightarrow> permanent db tx"
    unfolding register_tenant_tx_def case_option_eq_iff result_iffs
    by (auto simp: permanent_def split: if_splits)
  show "install_root_grant_tx root db = Ok (Commit b u tx) \<Longrightarrow> permanent db tx"
    unfolding install_root_grant_tx_def by (auto simp: rbind_Ok_iff split: if_splits dest: put)
  show "issue_grant_tx env issue db = Ok (Commit b v tx) \<Longrightarrow> permanent db tx"
    unfolding issue_grant_tx_def Let_def case_option_eq_iff if_eq_iff ensure_Ok_iff
    by (auto intro: decide)
  show "revoke_grant_tx env revoke db = Ok (Commit b w tx) \<Longrightarrow> permanent db tx"
    unfolding revoke_grant_tx_def Let_def case_option_eq_iff if_eq_iff
    by (auto simp: rbind_Ok_iff permanent_def map_le_fresh elim!: append_audit_frame)
  show "open_session_tx env new parent db = Ok (Commit b y tx) \<Longrightarrow> permanent db tx"
    unfolding open_session_tx_def Let_def rbind_Ok_iff case_option_eq_iff if_eq_iff ensure_Ok_iff
    by (auto simp: permanent_def elim!: append_audit_frame)
  show "claim_tx env claim db = Ok (Commit b x tx) \<Longrightarrow> permanent db tx"
    unfolding claim_tx_def Let_def rbind_Ok_iff case_option_eq_iff by (auto simp: permanent_def)
  show "shred_tenant_tx env sessions scan tenant db = Ok (Commit b u tx) \<Longrightarrow> permanent db tx"
    unfolding shred_tenant_tx_def Let_def rbind_Ok_iff if_eq_iff ensure_Ok_iff
    by (auto simp: permanent_def map_le_fresh)
qed

section \<open>The lifecycle\<close>

definition keeps_locators :: "(Db \<Rightarrow> InvocationRecord \<Rightarrow> (InvocationRecord \<times> Db, StoreError) result) \<Rightarrow> bool" where
  "keeps_locators f \<longleftrightarrow> (\<forall>db r r1 db1. f db r = Ok (r1, db1) \<longrightarrow> db_locators db \<subseteq>\<^sub>m db_locators db1)"

lemma keeps_locators_stages:
  "keeps_locators (\<lambda>db r. Ok (r, db))"
  "keeps_locators (stage_transfer env transfer)"
  "keeps_locators (stage_publish env)"
  "keeps_locators (stage_settle outcome)"
  "keeps_locators (stage_release reason)"
  "keeps_locators stage_unknown"
  unfolding keeps_locators_def stage_settle_def stage_release_def stage_unknown_def
  by (auto simp: rbind_Ok_iff map_le_fresh dest: stage_transfer_frame(1)
      elim!: apply_settlement_frame stage_publish_effect)

lemma transition_permanent:
  assumes led: "ledger_inv db" and frame: "frames_stage f" and loc: "keeps_locators f"
  shows "permanent db (fst (transition env i step boundary f db))"
  unfolding transition_def
proof (rule end_tx_inv [where P = "permanent db", OF permanent_refl])
  fix b v tx
  assume "transition_tx env i step boundary f db = Ok (Commit b v tx)"
  then obtain r nxt r1 db1 stubs parts where
    r: "db_invocations db i = Some r" "lifecycle (inv_state r) step nxt" "f db r = Ok (r1, db1)"
    and tx: "tx = put_invocation (db1\<lparr>db_audit_stub := stubs, db_audit := parts\<rparr>)
        (r1\<lparr>inv_state := nxt, inv_updated_at := env_now env\<rparr>)"
    by (rule transition_Commit)
  have id: "inv_id r1 = i"
    using led r frame by (auto simp: ledger_inv_def wf_invocation_def frames_stage_def)
  have "\<not> is_terminal (inv_state r)" using terminal_final r(2) by blast
  with id r(1) frame r(3) loc show "permanent db tx"
    by (auto simp: permanent_def tx put_invocation_def frames_stage_def same_directory_def keeps_locators_def)
qed

lemma begin_permanent: "begin_tx env intent db = Ok (Commit b v tx) \<Longrightarrow> permanent db tx"
proof (erule begin_Commit)
  fix keys chain reservation
  assume fresh: "db_invocations db (int_invocation intent) = None"
    and "persist env db intent keys chain reservation = Ok (Commit b v tx)"
  from this(2) show "permanent db tx"
    by (rule persist_Commit) (use fresh in \<open>auto simp: permanent_def put_invocation_def intent_record_def\<close>)
qed (rule append_audit_permanent)

lemma store_step_permanent:
  assumes "store_step db db'" and led: "ledger_inv db"
  shows "permanent db db'"
proof -
  note tx = end_tx_inv [where P = "permanent db", OF permanent_refl]
  note tr = transition_permanent [OF led]
  from assms(1) show ?thesis
  proof cases
    case (audit_step env entry)
    then show ?thesis unfolding record_audit_def Let_def
      by (simp only:) (rule tx, auto intro: append_audit_permanent simp: rbind_Ok_iff)
  next
    case (register_step env reg)
    then show ?thesis unfolding register_tenant_def by (simp only:) (rule tx, rule directory_permanent(1))
  next
    case (root_step env root)
    then show ?thesis unfolding install_root_grant_def by (simp only:) (rule tx, rule directory_permanent(2))
  next
    case (shred_step sessions scan env tenant)
    then show ?thesis unfolding shred_tenant_def by (simp only:) (rule tx, rule directory_permanent(7))
  qed (simp_all add: dispatch_def complete_transfer_def publish_def settle_invocation_def
      release_invocation_def mark_unknown_effect_def tr frames_stages keeps_locators_stages
      begin_invocation_def tx [OF begin_permanent] issue_grant_def tx [OF directory_permanent(3)]
      revoke_grant_def tx [OF directory_permanent(4)] open_session_def tx [OF directory_permanent(5)]
      claim_key_def tx [OF directory_permanent(6)])
qed

lemma steps_permanent:
  assumes "store_step\<^sup>*\<^sup>* db db'" and "ledger_inv db"
  shows "permanent db db'"
proof -
  from assms have "ledger_inv db' \<and> permanent db db'"
  proof (induction rule: rtranclp_induct)
    case (step y z)
    then show ?case
      using store_step_permanent [OF step(2)] permanent_trans store_step_ledger_inv by blast
  qed (simp add: permanent_refl)
  then show ?thesis ..
qed

section \<open>Tombstones and revocations\<close>

definition tombstone_inv :: "Db \<Rightarrow> bool" where
  "tombstone_inv db \<longleftrightarrow> (\<forall>t. db_tombstones db t \<noteq> None \<longrightarrow> db_tenants db t = None)"

lemma directory_tombstones: "directory_step db db' \<Longrightarrow> tombstone_inv db \<Longrightarrow> tombstone_inv db'"
  unfolding directory_step_def tombstone_inv_def by metis

lemma begin_directory: "begin_tx env intent db = Ok (Commit b v tx) \<Longrightarrow>
   db_tenants tx = db_tenants db \<and> db_tombstones tx = db_tombstones db"
  by (erule begin_Commit) (auto elim!: append_audit_frame persist_Commit simp: put_invocation_def)

lemma transition_directory:
  assumes "frames_stage f" and "transition_tx env i step boundary f db = Ok (Commit b v tx)"
  shows "db_tenants tx = db_tenants db \<and> db_tombstones tx = db_tombstones db"
  using assms(2) by (rule transition_Commit)
    (use assms(1) in \<open>auto simp: frames_stage_def same_directory_def put_invocation_def\<close>)

lemma store_step_tombstones:
  assumes "store_step db db'" and inv: "tombstone_inv db"
  shows "tombstone_inv db'"
proof -
  have same: "tombstone_inv tx" if "db_tenants tx = db_tenants db \<and> db_tombstones tx = db_tombstones db" for tx
    using that inv by (simp add: tombstone_inv_def)
  note tx = end_tx_inv [where P = tombstone_inv, OF inv]
  have tr: "tombstone_inv (fst (transition env i step boundary f db))" if "frames_stage f"
    for env i step boundary f
    unfolding transition_def by (rule tx) (rule same [OF transition_directory [OF that]])
  from assms(1) show ?thesis
    by cases (simp_all add: dispatch_def complete_transfer_def publish_def settle_invocation_def
      release_invocation_def mark_unknown_effect_def tr frames_stages begin_invocation_def
      tx [OF same [OF begin_directory]] directory_tombstones [OF directory_ops(1) inv]
      directory_tombstones [OF directory_ops(2) inv] directory_tombstones [OF directory_ops(3) inv]
      directory_tombstones [OF directory_ops(4) inv] directory_tombstones [OF directory_ops(5) inv]
      directory_tombstones [OF directory_ops(6) inv] directory_tombstones [OF directory_ops(7) inv]
      directory_tombstones [OF directory_ops(8) inv])
qed

lemma reachable_tombstone_inv: "store_reachable db \<Longrightarrow> tombstone_inv db"
  by (erule reachable_invariant) (simp add: tombstone_inv_def empty_db_def, rule store_step_tombstones)

lemma shredded_keys:
  "tombstone_inv db \<Longrightarrow> db_tombstones db t \<noteq> None \<Longrightarrow> tenant_keys db t = Err (TenantShredded t)"
  by (auto simp: tombstone_inv_def tenant_keys_def key_ids_def absent_tenant_def)

lemma shredded_register:
  assumes "tombstone_inv db" and "db_tombstones db (reg_id reg) \<noteq> None"
  shows "register_tenant env reg db = (db, Err (TenantShredded (reg_id reg)))"
  using assms by (auto simp: tombstone_inv_def register_tenant_def register_tenant_tx_def end_tx_def ensure_def)

lemma revoked_not_allowed:
  assumes "db_revocations db g \<noteq> None" and "authorize (store_view db) request now = Ok (Allowed ids plan)"
  shows "g \<notin> set ids"
proof
  assume "g \<in> set ids"
  obtain chain session where c: "grants_call (store_view db) request now chain session" "ids = map g_id chain"
    using assms(2) by (rule authorize_contract)
  with \<open>g \<in> set ids\<close> obtain link where "link \<in> set chain" "g_id link = g" by auto
  with c(1) have "usable_at (store_view db) now link" by (simp add: grants_call_def)
  with \<open>g_id link = g\<close> assms(1) show False by (auto simp: usable_at_def store_view_def)
qed

section \<open>Replay\<close>

lemma persisted_entry:
  assumes "begin_invocation env intent db = (db', Ok (Persisted st))"
  obtains keys r where "tenant_keys db' (az_tenant (int_authz intent)) = Ok keys"
    and "db_idem db' (az_tenant (int_authz intent), az_capability (int_authz intent),
        int_idempotency_key intent) = Some \<lparr>sealed_key = kr_active keys, sealed_value =
          \<lparr>idem_invocation = int_invocation intent, idem_request_binding = request_binding env intent\<rparr>\<rparr>"
    and "db_invocations db' (int_invocation intent) = Some r" and "st = status_of r"
proof -
  from assms have "begin_tx env intent db = Ok (Abandon (Persisted st)) \<or>
      (\<exists>b. begin_tx env intent db = Ok (Commit b (Persisted st) db'))"
    unfolding begin_invocation_def by (blast dest: end_tx_Ok)
  moreover have "begin_tx env intent db \<noteq> Ok (Abandon (Persisted st))"
    unfolding begin_tx_def Let_def result_iffs case_option_eq_iff case_decision_eq_iff if_eq_iff
    by (auto simp: replay_def refuse_def persist_def Let_def rbind_Ok_iff split: if_splits)
  ultimately obtain b where "begin_tx env intent db = Ok (Commit b (Persisted st) db')" by blast
  then show ?thesis
  proof (cases rule: begin_Commit)
    case (persisted keys chain reservation)
    from persisted(6) obtain m idem where
      tx: "db' = (put_invocation (db\<lparr>db_ledgers := m\<rparr>) (intent_record env intent chain reservation))\<lparr>db_idem := idem\<rparr>"
      and v: "Persisted st = Persisted (status_of (intent_record env intent chain reservation))"
      and idem: "idem = (db_idem db)((az_tenant (int_authz intent), az_capability (int_authz intent),
        int_idempotency_key intent) := Some \<lparr>sealed_key = kr_active keys, sealed_value =
          \<lparr>idem_invocation = int_invocation intent, idem_request_binding = request_binding env intent\<rparr>\<rparr>)"
      by (rule persist_Commit)
    have "tenant_keys db' t = tenant_keys db t" for t
      by (rule tenant_keys_cong) (simp_all add: tx put_invocation_def)
    with persisted(1) v idem show ?thesis
      by (intro that) (simp_all add: tx put_invocation_def intent_record_def)
  qed simp
qed

lemma begin_replays:
  assumes "tenant_keys db (az_tenant (int_authz intent)) = Ok keys"
    and "db_idem db (az_tenant (int_authz intent), az_capability (int_authz intent),
        int_idempotency_key intent) = Some \<lparr>sealed_key = kr_active keys, sealed_value = idem\<rparr>"
    and "db_invocations db (idem_invocation idem) = Some r"
  shows "begin_invocation env intent db = (db, Ok
    (if idem_request_binding idem = request_binding env intent then Replayed (status_of r) else BeginConflict))"
  using assms
  by (simp add: begin_invocation_def begin_tx_def open_sealed_def meta_openers_def replay_def ok_or_def end_tx_def)

section \<open>The outcomes of an intent\<close>

lemma begin_Abandon:
  assumes "begin_tx env intent db = Ok (Abandon v)"
  shows "v = BeginConflict \<or> (\<exists>i r. db_invocations db i = Some r \<and> v = Replayed (status_of r))"
  using assms
  unfolding begin_tx_def Let_def result_iffs case_option_eq_iff case_decision_eq_iff if_eq_iff
  by (auto simp: replay_def refuse_def persist_def Let_def rbind_Ok_iff ok_or_Ok_iff split: if_splits)

lemma begin_boundary:
  assumes "begin_tx env intent db = Ok (Commit (Some b) v tx)"
  shows "b = Boundary.PersistIntent"
  using assms
  unfolding begin_tx_def Let_def result_iffs case_option_eq_iff case_decision_eq_iff if_eq_iff
  by (auto simp: refuse_def persist_def Let_def rbind_Ok_iff)

lemma begin_Persisted:
  assumes "begin_tx env intent db = Ok (Commit b v tx)"
  shows "(\<exists>stubs parts failure seq. v = Refused failure seq \<and> tx = db\<lparr>db_audit_stub := stubs, db_audit := parts\<rparr>) \<or>
    (\<exists>chain plan. authorize (store_view db) (int_authz intent) (env_now env) = Ok (Allowed chain plan) \<and>
       db_invocations db (int_invocation intent) = None \<and>
       db_invocations tx = (db_invocations db)(int_invocation intent \<mapsto> intent_record env intent chain plan) \<and>
       v = Persisted (status_of (intent_record env intent chain plan)) \<and>
       (\<forall>l d. amount_nat (ledger_used tx l) d = amount_nat (ledger_used db l) d +
          (if l \<in> set (rp_ledgers plan) then amount_nat (rp_cost plan) d else 0)))"
  using assms
proof (cases rule: begin_Commit)
  case (refused entry seq failure)
  from refused(1) show ?thesis by (rule append_audit_frame) (use refused(2) in blast)
next
  case (persisted keys chain reservation)
  from persisted(6) obtain m idem where m: "debit_ledgers db (debits reservation) = Ok (db\<lparr>db_ledgers := m\<rparr>)"
    and tx: "tx = (put_invocation (db\<lparr>db_ledgers := m\<rparr>) (intent_record env intent chain reservation))\<lparr>db_idem := idem\<rparr>"
    and v: "v = Persisted (status_of (intent_record env intent chain reservation))"
    by (rule persist_Commit)
  have "amount_nat (ledger_used tx l) d = amount_nat (ledger_used db l) d +
      (if l \<in> set (rp_ledgers reservation) then amount_nat (rp_cost reservation) d else 0)" for l d
    using debit_ledgers_amounts [OF m [unfolded debits_def] authorize_distinct_ledgers [OF persisted(4)], of l d]
    by (simp add: tx put_invocation_def ledger_used_def)
  moreover have "db_invocations tx =
      (db_invocations db)(int_invocation intent \<mapsto> intent_record env intent chain reservation)"
    by (simp add: tx put_invocation_def intent_record_def)
  ultimately show ?thesis using persisted(2,4) v by blast
qed

lemma terminal_transition:
  assumes "db_invocations db i = Some r" and "is_terminal (inv_state r)"
  shows "transition env i step boundary f db = (db, Err (Authz (IllegalTransition (inv_state r) step)))"
proof -
  have "next_state (inv_state r) step = Err (IllegalTransition (inv_state r) step)"
    using terminal_final [OF assms(2)] next_state_iff next_state_Err
    by (cases "next_state (inv_state r) step") fastforce+
  with assms(1) show ?thesis
    by (simp add: transition_def transition_tx_def existing_invocation_def ok_or_def end_tx_def)
qed

end
