(* ===== verification/Reads.thy ===== *)
theory Reads
  imports Permanence
begin

text \<open>
  What the store gives back: published artifacts, chunks of their verbatim envelope, pages of a
  session's artifacts, and audit records within a scope (\<^verbatim>\<open>crates/phylake/src/store/read.rs\<close> and
  the queries of \<^verbatim>\<open>audit.rs\<close>).

  Two range scans visit records in an order the model does not compute: the tenants in the order of
  their hashed keys (\<open>tenants\<close>) and a session's index entries in artifact id order (\<open>index\<close>, the
  candidate artifacts in ascending order).

  The shelf invariant says that everything published is complete and readable: its side record, its
  blob and its session index entry exist and open under the keys of a tenant that is not shredded.
  It makes the readers total, the pages exact and the round trip of an envelope verbatim.
\<close>

section \<open>Definitions\<close>

primrec artifact_value :: "ArtifactRef \<Rightarrow> u128" where
  "artifact_value (ArtifactRef v) = v"

instantiation ArtifactRef :: linorder
begin

definition less_eq_ArtifactRef :: "ArtifactRef \<Rightarrow> ArtifactRef \<Rightarrow> bool" where
  "less_eq_ArtifactRef a b \<longleftrightarrow> artifact_value a \<le> artifact_value b"

definition less_ArtifactRef :: "ArtifactRef \<Rightarrow> ArtifactRef \<Rightarrow> bool" where
  "less_ArtifactRef a b \<longleftrightarrow> artifact_value a < artifact_value b"

instance
proof
  fix a b :: ArtifactRef
  show "a \<le> b \<Longrightarrow> b \<le> a \<Longrightarrow> a = b"
    by (cases a; cases b) (simp add: less_eq_ArtifactRef_def)
qed (auto simp: less_eq_ArtifactRef_def less_ArtifactRef_def)

end

subsection \<open>Artifacts\<close>

record ArtifactInfo =
  ai_artifact :: ArtifactRef
  ai_owner :: TenantId
  ai_session :: "SessionId option"
  ai_grant_chain :: "GrantId list"
  ai_source :: SourceRef
  ai_text_view :: "string option"
  ai_truncated :: bool
  ai_output_bytes :: u64
  ai_envelope_len :: u64
  ai_revoked_after_effect :: bool
  ai_published_at :: Timestamp

definition published :: "Db \<Rightarrow> ArtifactRef \<Rightarrow> ((ArtifactRecord \<times> Keyring) option, StoreError) result" where
  "published db artifact =
     (case db_locators db artifact of
        None \<Rightarrow> Ok None
      | Some locator \<Rightarrow>
          rbind (live_tenant_keys db (loc_owner locator)) (\<lambda>live.
          (case live of
             None \<Rightarrow> Ok None
           | Some keys \<Rightarrow>
               rbind (ok_or (db_artifacts db (loc_owner locator, artifact))
                 (Inconsistent ''artifact locator has no side record'')) (\<lambda>sealed.
               rbind (open_sealed (meta_openers keys) sealed) (\<lambda>side. Ok (Some (side, keys)))))))"

definition artifact_info :: "ArtifactRecord \<Rightarrow> Timestamp \<Rightarrow> ArtifactInfo" where
  "artifact_info side published_at =
     \<lparr>ai_artifact = art_artifact side, ai_owner = art_tenant side, ai_session = art_session side,
      ai_grant_chain = art_grant_chain side, ai_source = art_source side,
      ai_text_view = art_text_view side, ai_truncated = art_truncated side,
      ai_output_bytes = art_output_bytes side, ai_envelope_len = art_blob_len side,
      ai_revoked_after_effect = art_revoked_after_effect side, ai_published_at = published_at\<rparr>"

definition artifact :: "Db \<Rightarrow> ArtifactRef \<Rightarrow> (ArtifactInfo option, StoreError) result" where
  "artifact db a =
     rbind (published db a) (\<lambda>found.
     (case found of
        None \<Rightarrow> Ok None
      | Some (side, _) \<Rightarrow>
          rbind (ok_or (art_published_at side) (Inconsistent ''published side record has no publish time''))
            (\<lambda>published_at. Ok (Some (artifact_info side published_at)))))"

definition blob_openers :: "Keyring \<Rightarrow> u32 list" where
  "blob_openers keys =
     [kr_active keys, (case kr_retiring keys of Some r \<Rightarrow> r | None \<Rightarrow> kr_active keys)]"

definition audit_openers :: "Keyring \<Rightarrow> u32 list" where
  "audit_openers keys =
     [kr_active keys, (case kr_retiring keys of Some r \<Rightarrow> r | None \<Rightarrow> kr_active keys)]"

definition read_artifact :: "Db \<Rightarrow> ArtifactRef \<Rightarrow> u64 \<Rightarrow> u32 \<Rightarrow> (ReadChunk option, StoreError) result" where
  "read_artifact db a offset len =
     rbind (published db a) (\<lambda>found.
     (case found of
        None \<Rightarrow> Ok None
      | Some (side, keys) \<Rightarrow>
          rbind (ok_or (db_blobs db (art_tenant side, art_blob_address side))
            (Inconsistent ''published artifact has no blob'')) (\<lambda>sealed.
          rbind (open_sealed (blob_openers keys) sealed) (\<lambda>envelope.
          let total = length envelope;
              start = min (unat offset) total;
              stop = min (start + unat len) total in
          Ok (Some \<lparr>chunk_offset = offset, chunk_bytes = take (stop - start) (drop start envelope),
                   chunk_total_len = len_u64 total\<rparr>)))))"

subsection \<open>Session pages\<close>

fun scan_index :: "(ArtifactRef \<Rightarrow> SessionIndexRecord Sealed option) \<Rightarrow> u32 list \<Rightarrow> nat \<Rightarrow> ArtifactRef list \<Rightarrow>
    ArtifactRef list \<Rightarrow> (QueryPage, StoreError) result" where
  "scan_index entries keys limit refs [] = Ok \<lparr>result_refs = refs, query_more = False\<rparr>"
| "scan_index entries keys limit refs (a # rest) =
     (case entries a of
        None \<Rightarrow> scan_index entries keys limit refs rest
      | Some sealed \<Rightarrow>
          if limit \<le> length refs then Ok \<lparr>result_refs = refs, query_more = True\<rparr>
          else rbind (open_sealed keys sealed) (\<lambda>entry.
            scan_index entries keys limit (refs @ [six_artifact entry]) rest))"

definition session_artifacts :: "Db \<Rightarrow> ArtifactRef list \<Rightarrow> SessionId \<Rightarrow> ArtifactRef option \<Rightarrow> u32 \<Rightarrow>
    (QueryPage option, StoreError) result" where
  "session_artifacts db index session after limit =
     (case db_sessions db session of
        None \<Rightarrow> Ok None
      | Some r \<Rightarrow>
          rbind (live_tenant_keys db (sr_owner r)) (\<lambda>live.
          (case live of
             None \<Rightarrow> Ok None
           | Some keys \<Rightarrow>
               rbind (scan_index (\<lambda>a. db_session_index db (sr_owner r, session, a)) (meta_openers keys)
                 (unat limit) [] (filter (\<lambda>a. case after of None \<Rightarrow> True | Some b \<Rightarrow> b < a) index))
               (\<lambda>page. Ok (Some page)))))"

subsection \<open>Audit queries\<close>

record AuditEvent =
  ev_record :: AuditRecord
  ev_release_reason :: "ReleaseReason option"
  ev_grant :: "GrantId option"
  ev_audit_scope :: "AuditScope option"

record AuditQueryCall =
  aqc_actor :: TenantId
  aqc_scope :: AuditScope
  aqc_session :: "SessionId option"
  aqc_after :: "AuditSeq option"
  aqc_limit :: u32

definition audit_event :: "AuditEntryRecord \<Rightarrow> AuditEvent" where
  "audit_event entry =
     \<lparr>ev_record = \<lparr>ar_seq = aer_seq entry, ar_time = aer_time entry, ar_tenant = aer_tenant entry,
        ar_session = aer_session entry, ar_invocation = aer_invocation entry,
        ar_capability = aer_capability entry, ar_state = aer_state entry, ar_outcome = aer_outcome entry\<rparr>,
      ev_release_reason = aer_release_reason entry, ev_grant = aer_grant entry,
      ev_audit_scope = aer_audit_scope entry\<rparr>"

fun scan_partition :: "u32 list \<Rightarrow> (AuditEntryRecord \<Rightarrow> bool) \<Rightarrow> nat \<Rightarrow> AuditEvent list \<Rightarrow>
    (u64 \<times> AuditEntryRecord Sealed) list \<Rightarrow> (AuditEvent list, StoreError) result" where
  "scan_partition keys keep limit events [] = Ok events"
| "scan_partition keys keep limit events ((k, sealed) # rest) =
     (if limit \<le> length events then Ok events
      else rbind (open_sealed keys sealed) (\<lambda>entry.
        scan_partition keys keep limit (if keep entry then events @ [audit_event entry] else events) rest))"

definition partition_read :: "Db \<Rightarrow> TenantId \<Rightarrow> AuditSeq option \<Rightarrow> nat \<Rightarrow> (AuditEntryRecord \<Rightarrow> bool) \<Rightarrow>
    (AuditEvent list, StoreError) result" where
  "partition_read db tenant after limit keep =
     rbind (tenant_keys db tenant) (\<lambda>keys.
     (case (case after of None \<Rightarrow> Some 0 | Some seq \<Rightarrow> checked_add (audit_seq_get seq) 1) of
        None \<Rightarrow> Ok []
      | Some start \<Rightarrow>
          scan_partition (audit_openers keys) keep limit []
            (filter (\<lambda>(k, _). start \<le> k) (db_audit db tenant))))"

definition audit_records :: "Db \<Rightarrow> TenantId \<Rightarrow> AuditSeq option \<Rightarrow> u32 \<Rightarrow> (AuditEvent list, StoreError) result" where
  "audit_records db tenant after limit = partition_read db tenant after (unat limit) (\<lambda>_. True)"

definition selected :: "Db \<Rightarrow> AuditQueryCall \<Rightarrow> AuditEntryRecord \<Rightarrow> bool" where
  "selected db query entry \<longleftrightarrow>
     (if aqc_session query \<noteq> None \<and> aer_session entry \<noteq> aqc_session query then False
      else (case aqc_scope query of
          AllScope \<Rightarrow> True
        | OwnAndOwnedSessions \<Rightarrow>
            if aer_tenant entry = aqc_actor query then True
            else (case aer_session entry of
                None \<Rightarrow> False
              | Some session \<Rightarrow>
                  map_option sr_owner (db_sessions db session) = Some (aqc_actor query))))"

definition tenant_ids :: "Db \<Rightarrow> TenantId list \<Rightarrow> TenantId list" where
  "tenant_ids db tenants =
     List.map_filter (\<lambda>t. map_option tr_id (db_tenants db t)) tenants"

definition store_audit_query :: "Db \<Rightarrow> TenantId list \<Rightarrow> AuditQueryCall \<Rightarrow> (AuditEvent list, StoreError) result" where
  "store_audit_query db tenants query =
     rbind (collect_results (\<lambda>t. partition_read db t (aqc_after query) (unat (aqc_limit query))
         (selected db query)) (tenant_ids db tenants)) (\<lambda>parts.
     Ok (take (unat (aqc_limit query))
       (sort_key (\<lambda>event. audit_seq_get (ar_seq (ev_record event))) (concat parts))))"


section \<open>The shelf invariant\<close>

text \<open>Sealed for a tenant that is shredded, or still openable.\<close>

definition kept :: "Db \<Rightarrow> TenantId \<Rightarrow> u32 \<Rightarrow> bool" where
  "kept db t key \<longleftrightarrow> db_tombstones db t \<noteq> None \<or>
     (\<exists>keys. tenant_keys db t = Ok keys \<and> key \<in> set (meta_openers keys))"

definition shelved :: "Db \<Rightarrow> TenantId \<Rightarrow> ArtifactRecord \<Rightarrow> bool" where
  "shelved db t side \<longleftrightarrow> art_tenant side = t \<and> db_blobs db (t, art_blob_address side) \<noteq> None"

definition staged :: "Db \<Rightarrow> TenantId \<Rightarrow> InvocationId \<Rightarrow> ArtifactRecord \<Rightarrow> bool" where
  "staged db t i side \<longleftrightarrow> art_artifact side = artifact_ref i \<and> shelved db t side \<and>
     (\<exists>r. db_invocations db i = Some r \<and> inv_tenant r = t \<and> inv_state r = TransferComplete \<and>
        art_session side = inv_session r)"

definition filed :: "Db \<Rightarrow> ArtifactRef \<Rightarrow> LocatorRecord \<Rightarrow> bool" where
  "filed db a loc \<longleftrightarrow>
     (\<exists>sealed. db_artifacts db (loc_owner loc, a) = Some sealed \<and> kept db (loc_owner loc) (sealed_key sealed) \<and>
        art_artifact (sealed_value sealed) = a \<and> shelved db (loc_owner loc) (sealed_value sealed) \<and>
        art_session (sealed_value sealed) = loc_session loc \<and> art_published_at (sealed_value sealed) \<noteq> None) \<and>
     (\<forall>s. loc_session loc = Some s \<longrightarrow>
        (\<exists>r. db_sessions db s = Some r \<and> db_session_index db (sr_owner r, s, a) \<noteq> None))"

definition indexed :: "Db \<Rightarrow> TenantId \<Rightarrow> SessionId \<Rightarrow> ArtifactRef \<Rightarrow> SessionIndexRecord Sealed \<Rightarrow> bool" where
  "indexed db t s a sealed \<longleftrightarrow> kept db t (sealed_key sealed) \<and> six_artifact (sealed_value sealed) = a \<and>
     (\<exists>loc. db_locators db a = Some loc \<and> loc_session loc = Some s)"

definition shelf_inv :: "Db \<Rightarrow> bool" where
  "shelf_inv db \<longleftrightarrow>
     (\<forall>t address blob. db_blobs db (t, address) = Some blob \<longrightarrow> kept db t (sealed_key blob)) \<and>
     (\<forall>t i sealed. db_pending db (t, i) = Some sealed \<longrightarrow> staged db t i (sealed_value sealed)) \<and>
     (\<forall>a loc. db_locators db a = Some loc \<longrightarrow> filed db a loc) \<and>
     (\<forall>t s a sealed. db_session_index db (t, s, a) = Some sealed \<longrightarrow> indexed db t s a sealed)"

subsection \<open>Steps that leave the shelf alone\<close>

definition same_shelf :: "Db \<Rightarrow> Db \<Rightarrow> bool" where
  "same_shelf db db' \<longleftrightarrow> db_locators db' = db_locators db \<and> db_artifacts db' = db_artifacts db \<and>
     db_blobs db' = db_blobs db \<and> db_pending db' = db_pending db \<and>
     db_session_index db' = db_session_index db"

definition keeps_shelf :: "Db \<Rightarrow> Db \<Rightarrow> bool" where
  "keeps_shelf db db' \<longleftrightarrow> same_shelf db db' \<and> db_sessions db \<subseteq>\<^sub>m db_sessions db' \<and>
     (\<forall>t k. kept db t k \<longrightarrow> kept db' t k) \<and>
     (\<forall>i r. db_invocations db i = Some r \<longrightarrow> inv_state r = TransferComplete \<longrightarrow> db_invocations db' i = Some r)"

lemma keeps_shelf_inv:
  assumes "keeps_shelf db db'" and "shelf_inv db"
  shows "shelf_inv db'"
proof -
  from assms(1) have shelf: "db_locators db' = db_locators db" "db_artifacts db' = db_artifacts db"
      "db_blobs db' = db_blobs db" "db_pending db' = db_pending db" "db_session_index db' = db_session_index db"
    and k: "\<And>t k. kept db t k \<Longrightarrow> kept db' t k"
    and s: "\<And>s r. db_sessions db s = Some r \<Longrightarrow> db_sessions db' s = Some r"
    and r: "\<And>i r. db_invocations db i = Some r \<Longrightarrow> inv_state r = TransferComplete \<Longrightarrow> db_invocations db' i = Some r"
    by (auto simp: keeps_shelf_def same_shelf_def map_le_def dom_def)
  have shelved: "shelved db t side \<Longrightarrow> shelved db' t side" for t side
    by (simp add: shelved_def shelf)
  have "staged db t i side \<Longrightarrow> staged db' t i side" for t i side
    using r shelved by (auto simp: staged_def)
  moreover have "filed db a loc \<Longrightarrow> filed db' a loc" for a loc
    unfolding filed_def shelf using k s shelved by blast
  moreover have "indexed db t s a sealed \<Longrightarrow> indexed db' t s a sealed" for t s a sealed
    using k by (auto simp: indexed_def shelf)
  ultimately show ?thesis
    using assms(2) k unfolding shelf_inv_def shelf by auto
qed

lemma kept_cong:
  "tenant_keys db' t = tenant_keys db t \<Longrightarrow> db_tombstones db' t = db_tombstones db t \<Longrightarrow> kept db' t = kept db t"
  by (simp add: kept_def fun_eq_iff)

lemma keeps_shelf_refl: "keeps_shelf db db"
  by (simp add: keeps_shelf_def same_shelf_def)

lemma append_audit_same_shelf: "append_audit env db entry = Ok (seq, tx) \<Longrightarrow> same_shelf db tx"
  by (erule append_audit_frame) (simp add: same_shelf_def)

lemma same_shelf_trans: "same_shelf a b \<Longrightarrow> same_shelf b c \<Longrightarrow> same_shelf a c"
  by (simp add: same_shelf_def)

lemma directory_same_shelf:
  "register_tenant_tx env reg db = Ok (Commit b u tx) \<Longrightarrow> same_shelf db tx"
  "install_root_grant_tx root db = Ok (Commit b u tx) \<Longrightarrow> same_shelf db tx"
  "issue_grant_tx env issue db = Ok (Commit b v tx) \<Longrightarrow> same_shelf db tx"
  "revoke_grant_tx env revoke db = Ok (Commit b w tx) \<Longrightarrow> same_shelf db tx"
  "open_session_tx env new parent db = Ok (Commit b y tx) \<Longrightarrow> same_shelf db tx"
  "claim_tx env claim db = Ok (Commit b x tx) \<Longrightarrow> same_shelf db tx"
  "shred_tenant_tx env sessions scan tenant db = Ok (Commit b u tx) \<Longrightarrow> same_shelf db tx"
proof -
  have put: "same_shelf db tx" if "put_new_grant db r = Ok (staged, tx)" for r staged tx
    using that unfolding put_new_grant_def case_option_eq_iff result_iffs by (auto simp: same_shelf_def)
  have decide: "same_shelf db tx" if "decide_issue env issue db = Ok (Commit b v tx)"
    using that by (rule decide_issue_Commit)
      (auto dest!: audit_issue_Commit put intro: append_audit_same_shelf same_shelf_trans)
  show "register_tenant_tx env reg db = Ok (Commit b u tx) \<Longrightarrow> same_shelf db tx"
    unfolding register_tenant_tx_def case_option_eq_iff result_iffs
    by (auto simp: same_shelf_def split: if_splits)
  show "install_root_grant_tx root db = Ok (Commit b u tx) \<Longrightarrow> same_shelf db tx"
    unfolding install_root_grant_tx_def by (auto simp: rbind_Ok_iff split: if_splits dest: put)
  show "issue_grant_tx env issue db = Ok (Commit b v tx) \<Longrightarrow> same_shelf db tx"
    unfolding issue_grant_tx_def Let_def case_option_eq_iff if_eq_iff ensure_Ok_iff
    by (auto intro: decide)
  show "revoke_grant_tx env revoke db = Ok (Commit b w tx) \<Longrightarrow> same_shelf db tx"
    unfolding revoke_grant_tx_def Let_def case_option_eq_iff if_eq_iff
    by (auto simp: rbind_Ok_iff same_shelf_def elim!: append_audit_frame)
  show "open_session_tx env new parent db = Ok (Commit b y tx) \<Longrightarrow> same_shelf db tx"
    unfolding open_session_tx_def Let_def rbind_Ok_iff case_option_eq_iff if_eq_iff ensure_Ok_iff
    by (auto simp: same_shelf_def elim!: append_audit_frame)
  show "claim_tx env claim db = Ok (Commit b x tx) \<Longrightarrow> same_shelf db tx"
    unfolding claim_tx_def Let_def rbind_Ok_iff case_option_eq_iff by (auto simp: same_shelf_def)
  show "shred_tenant_tx env sessions scan tenant db = Ok (Commit b u tx) \<Longrightarrow> same_shelf db tx"
    unfolding shred_tenant_tx_def Let_def rbind_Ok_iff if_eq_iff ensure_Ok_iff
    by (auto simp: same_shelf_def)
qed

text \<open>Custody keys do not get lost: outside shredding every tenant keeps its keyring.\<close>

lemma keeps_custody_shelf:
  assumes "keeps_custody db tx" and "same_shelf db tx"
  shows "keeps_shelf db tx"
proof -
  have "tenant_keys tx t = tenant_keys db t" for t
    by (rule tenant_keys_cong) (use assms(1) in \<open>simp_all add: keeps_custody_def\<close>)
  then have "kept tx t = kept db t" for t
    by (rule kept_cong) (use assms(1) in \<open>simp add: keeps_custody_def\<close>)
  with assms show ?thesis by (simp add: keeps_shelf_def keeps_custody_def)
qed

lemma register_keeps_shelf:
  assumes "register_tenant_tx env reg db = Ok (Commit b u tx)"
  shows "keeps_shelf db tx"
proof -
  obtain r where new: "db_tenants db (reg_id reg) = None" "db_tombstones db (reg_id reg) = None"
    and tx: "tx = db\<lparr>db_data_keys := insert (reg_id reg, INITIAL_DATA_KEY_ID) (db_data_keys db),
      db_tenants := (db_tenants db)(reg_id reg := Some r)\<rparr>"
    using assms unfolding register_tenant_tx_def case_option_eq_iff result_iffs by (auto simp: result_iffs)
  have "\<not> kept db (reg_id reg) k" for k
    using new by (simp add: kept_def tenant_keys_def key_ids_def)
  moreover have "kept tx t = kept db t" if "t \<noteq> reg_id reg" for t
    by (rule kept_cong, rule tenant_keys_cong) (use that in \<open>auto simp: tx\<close>)
  ultimately have "kept db t k \<Longrightarrow> kept tx t k" for t k by (cases "t = reg_id reg") auto
  then show ?thesis by (simp add: keeps_shelf_def same_shelf_def tx)
qed

lemma open_session_keeps_shelf:
  assumes "open_session_tx env new parent db = Ok (Commit b y tx)"
  shows "keeps_shelf db tx"
proof -
  obtain s r stubs parts where fresh: "db_sessions db s = None"
    and tx: "tx = db\<lparr>db_sessions := (db_sessions db)(s := Some r), db_audit_stub := stubs, db_audit := parts\<rparr>"
    using assms unfolding open_session_tx_def Let_def rbind_Ok_iff case_option_eq_iff if_eq_iff ensure_Ok_iff
    by (auto elim!: append_audit_frame)
  have "kept tx t = kept db t" for t
    by (rule kept_cong, rule tenant_keys_cong) (simp_all add: tx)
  with fresh show ?thesis by (auto simp: keeps_shelf_def same_shelf_def tx map_le_fresh)
qed

lemma shred_keeps_shelf:
  assumes "shred_tenant_tx env sessions scan t db = Ok (Commit b u tx)"
  shows "keeps_shelf db tx"
proof -
  define retired where "retired = (case db_rekey db t of
    Some rekey \<Rightarrow> if rk_done rekey then {} else {(t, rk_from_key_id rekey)} | None \<Rightarrow> {})"
  from assms obtain q :: TenantRecord where
    tx: "tx = db\<lparr>db_data_keys := db_data_keys db - {(t, tr_data_key_id q)} - retired,
      db_rekey := (db_rekey db)(t := None), db_address_keys := db_address_keys db - {t},
      db_tenants := (db_tenants db)(t := None), db_tombstones := (db_tombstones db)(t :=
        Some \<lparr>tomb_tenant = t, tomb_shredded_at = env_now env\<rparr>)\<rparr>"
    unfolding shred_tenant_tx_def Let_def rbind_Ok_iff if_eq_iff ensure_Ok_iff retired_def [symmetric]
      sum.inject TxEnd.inject by auto
  have "retired \<subseteq> {t} \<times> UNIV" by (auto simp: retired_def split: option.splits if_splits)
  then have "kept tx t' = kept db t'" if "t' \<noteq> t" for t'
    by (intro kept_cong tenant_keys_cong) (use that in \<open>auto simp: tx\<close>)
  moreover have "kept tx t k" for k by (simp add: kept_def tx)
  ultimately have "kept db t' k \<Longrightarrow> kept tx t' k" for t' k by (cases "t' = t") auto
  then show ?thesis by (simp add: keeps_shelf_def same_shelf_def tx)
qed


subsection \<open>The lifecycle\<close>

lemma begin_keeps_shelf:
  assumes "begin_tx env intent db = Ok (Commit b v tx)"
  shows "keeps_shelf db tx"
  using assms
proof (cases rule: begin_Commit)
  case (refused entry seq failure)
  then show ?thesis by (intro keeps_custody_shelf append_audit_keeps append_audit_same_shelf)
next
  case (persisted keys chain reservation)
  from persisted(6) obtain m idem where
    tx: "tx = (put_invocation (db\<lparr>db_ledgers := m\<rparr>) (intent_record env intent chain reservation))\<lparr>db_idem := idem\<rparr>"
    by (rule persist_Commit)
  have "kept tx t = kept db t" for t
    by (intro kept_cong tenant_keys_cong) (simp_all add: tx put_invocation_def)
  with persisted(2) show ?thesis
    by (auto simp: keeps_shelf_def same_shelf_def tx put_invocation_def intent_record_def)
qed

lemma quiet_transition_shelf:
  assumes led: "ledger_inv db" and frame: "frames_stage f"
    and quiet: "\<And>db r r1 db1. f db r = Ok (r1, db1) \<Longrightarrow> \<exists>m. db1 = db\<lparr>db_ledgers := m\<rparr>"
    and step: "step \<noteq> Step.Publish"
    and t: "transition_tx env i step boundary f db = Ok (Commit b v tx)"
  shows "keeps_shelf db tx"
proof -
  from t obtain r nxt r1 db1 stubs parts where
    r: "db_invocations db i = Some r" "lifecycle (inv_state r) step nxt" "f db r = Ok (r1, db1)"
    and tx: "tx = put_invocation (db1\<lparr>db_audit_stub := stubs, db_audit := parts\<rparr>)
        (r1\<lparr>inv_state := nxt, inv_updated_at := env_now env\<rparr>)"
    by (rule transition_Commit)
  from quiet [OF r(3)] obtain m where db1: "db1 = db\<lparr>db_ledgers := m\<rparr>" by blast
  have id: "inv_id r1 = i"
    using led r frame by (auto simp: ledger_inv_def wf_invocation_def frames_stage_def)
  have "inv_state r \<noteq> TransferComplete" using r(2) step by (auto elim: lifecycleE)
  moreover have "kept tx t = kept db t" for t
    by (intro kept_cong tenant_keys_cong) (simp_all add: tx put_invocation_def db1)
  ultimately show ?thesis
    using id r(1) by (auto simp: keeps_shelf_def same_shelf_def tx put_invocation_def db1)
qed

lemma quiet_stages:
  "stage_settle outcome db r = Ok (r1, db1) \<Longrightarrow> \<exists>m. db1 = db\<lparr>db_ledgers := m\<rparr>"
  "stage_release reason db r = Ok (r1, db1) \<Longrightarrow> \<exists>m. db1 = db\<lparr>db_ledgers := m\<rparr>"
  "stage_unknown db r = Ok (r1, db1) \<Longrightarrow> \<exists>m. db1 = db\<lparr>db_ledgers := m\<rparr>"
  "Ok (r, db) = (Ok (r1, db1) :: (InvocationRecord \<times> Db, StoreError) result) \<Longrightarrow> \<exists>m. db1 = db\<lparr>db_ledgers := m\<rparr>"
proof -
  assume "Ok (r, db) = (Ok (r1, db1) :: (InvocationRecord \<times> Db, StoreError) result)"
  then have "db1 = db\<lparr>db_ledgers := db_ledgers db\<rparr>" by simp
  then show "\<exists>m. db1 = db\<lparr>db_ledgers := m\<rparr>" by blast
qed (auto simp: stage_settle_def stage_release_def stage_unknown_def rbind_Ok_iff elim!: apply_settlement_frame)

text \<open>What a transfer stages.\<close>

definition transfer_side :: "Env \<Rightarrow> Transfer \<Rightarrow> InvocationRecord \<Rightarrow> ArtifactRecord" where
  "transfer_side env transfer r =
     \<lparr>art_artifact = artifact_ref (inv_id r), art_invocation = inv_id r, art_tenant = inv_tenant r,
      art_session = inv_session r, art_grant_chain = inv_grant_chain r,
      art_reservation = inv_id r, art_classification = None, art_lineage = None,
      art_provenance_digest = env_sha256 env (tf_envelope transfer),
      art_blob_address = env_blob_address env (inv_tenant r) (tf_envelope transfer),
      art_blob_len = len_u64 (length (tf_envelope transfer)),
      art_source = tf_source transfer, art_text_view = tf_text_view transfer,
      art_truncated = tf_truncated transfer, art_output_bytes = tf_output_bytes transfer,
      art_revoked_after_effect = tf_revoked_after_effect transfer, art_published_at = None\<rparr>"

lemma transfer_side_fields [simp]:
  "art_artifact (transfer_side env transfer r) = artifact_ref (inv_id r)"
  "art_tenant (transfer_side env transfer r) = inv_tenant r"
  "art_session (transfer_side env transfer r) = inv_session r"
  "art_blob_address (transfer_side env transfer r) = env_blob_address env (inv_tenant r) (tf_envelope transfer)"
  by (simp_all add: transfer_side_def)

definition blobs_after :: "Env \<Rightarrow> Transfer \<Rightarrow> InvocationRecord \<Rightarrow> Keyring \<Rightarrow> Db \<Rightarrow>
    TenantId \<times> u8 list \<Rightarrow> u8 list Sealed option" where
  "blobs_after env transfer r keys db =
     (let slot = (inv_tenant r, env_blob_address env (inv_tenant r) (tf_envelope transfer)) in
      case db_blobs db slot of
        Some _ \<Rightarrow> db_blobs db
      | None \<Rightarrow> (db_blobs db)(slot := Some \<lparr>sealed_key = kr_active keys, sealed_value = tf_envelope transfer\<rparr>))"

lemma blobs_after_le: "db_blobs db \<subseteq>\<^sub>m blobs_after env transfer r keys db"
  by (auto simp: blobs_after_def Let_def map_le_def split: option.split)

lemma blobs_after_slot:
  "blobs_after env transfer r keys db (inv_tenant r, env_blob_address env (inv_tenant r) (tf_envelope transfer)) \<noteq> None"
  by (auto simp: blobs_after_def Let_def split: option.split)

lemma blobs_after_cases:
  "blobs_after env transfer r keys db k = Some blob \<Longrightarrow> db_blobs db k = Some blob \<or>
     (k = (inv_tenant r, env_blob_address env (inv_tenant r) (tf_envelope transfer)) \<and>
      blob = \<lparr>sealed_key = kr_active keys, sealed_value = tf_envelope transfer\<rparr>)"
  by (auto simp: blobs_after_def Let_def split: option.splits if_splits)

lemma stage_transfer_effect:
  assumes "stage_transfer env transfer db r = Ok (r1, db1)"
  obtains keys where "tenant_keys db (inv_tenant r) = Ok keys"
    and "db1 = db\<lparr>db_blobs := blobs_after env transfer r keys db,
      db_pending := (db_pending db)((inv_tenant r, inv_id r) :=
        Some \<lparr>sealed_key = kr_active keys, sealed_value = transfer_side env transfer r\<rparr>)\<rparr>"
proof -
  let ?slot = "(inv_tenant r, env_blob_address env (inv_tenant r) (tf_envelope transfer))"
  from assms obtain keys db0 where keys: "tenant_keys db (inv_tenant r) = Ok keys"
    and db0: "(case db_blobs db ?slot of
         Some _ \<Rightarrow> Ok db
       | None \<Rightarrow>
           ensure (length (tf_envelope transfer) \<le> MAX_PLAINTEXT_LEN)
             (PlaintextTooLarge (length (tf_envelope transfer)) MAX_PLAINTEXT_LEN)
             (Ok (db\<lparr>db_blobs := (db_blobs db)(?slot :=
                Some \<lparr>sealed_key = kr_active keys, sealed_value = tf_envelope transfer\<rparr>)\<rparr>))) = Ok db0"
    and db1: "db1 = db0\<lparr>db_pending := (db_pending db0)((inv_tenant r, inv_id r) :=
       Some \<lparr>sealed_key = kr_active keys, sealed_value = transfer_side env transfer r\<rparr>)\<rparr>"
    unfolding stage_transfer_def Let_def rbind_Ok_iff transfer_side_def by auto
  have "db0 = db\<lparr>db_blobs := blobs_after env transfer r keys db\<rparr>"
    using db0 by (cases "db_blobs db ?slot") (simp_all add: ensure_Ok_iff blobs_after_def)
  with db1 keys show ?thesis by (intro that) simp_all
qed

lemma transfer_keys:
  assumes "stage_transfer env transfer db r = Ok (r1, db1)" shows "tenant_keys db1 t = tenant_keys db t"
  using assms by (rule stage_transfer_effect) (rule tenant_keys_cong, simp_all)

lemma transfer_shelf:
  assumes inv: "shelf_inv db" and led: "ledger_inv db"
    and t: "transition_tx env i Step.CompleteTransfer boundary (stage_transfer env transfer) db = Ok (Commit b v tx)"
  shows "shelf_inv tx"
proof -
  from t obtain r nxt r1 db1 stubs parts where
    r: "db_invocations db i = Some r" "lifecycle (inv_state r) Step.CompleteTransfer nxt"
       "stage_transfer env transfer db r = Ok (r1, db1)"
    and tx: "tx = put_invocation (db1\<lparr>db_audit_stub := stubs, db_audit := parts\<rparr>)
        (r1\<lparr>inv_state := nxt, inv_updated_at := env_now env\<rparr>)"
    by (rule transition_Commit)
  let ?t = "inv_tenant r"
  have id: "inv_id r = i" using led r(1) by (simp add: ledger_inv_def wf_invocation_def)
  have st: "inv_state r = Dispatched" "nxt = TransferComplete" using r(2) by (auto elim: lifecycleE)
  from r(3) obtain keys where keys: "tenant_keys db ?t = Ok keys"
    and db1: "db1 = db\<lparr>db_blobs := blobs_after env transfer r keys db, db_pending := (db_pending db)((?t, inv_id r) :=
      Some \<lparr>sealed_key = kr_active keys, sealed_value = transfer_side env transfer r\<rparr>)\<rparr>"
    by (rule stage_transfer_effect)
  have same: "db_locators tx = db_locators db" "db_artifacts tx = db_artifacts db" "db_sessions tx = db_sessions db"
      "db_session_index tx = db_session_index db" "db_blobs tx = blobs_after env transfer r keys db"
      "db_pending tx = (db_pending db)((?t, i) := Some \<lparr>sealed_key = kr_active keys, sealed_value = transfer_side env transfer r\<rparr>)"
    and invs: "db_invocations tx = (db_invocations db)(i := Some (r1\<lparr>inv_state := nxt, inv_updated_at := env_now env\<rparr>))"
    and r1: "inv_tenant r1 = ?t" "inv_session r1 = inv_session r"
    using stage_transfer_frame(2) [OF r(3)] by (simp_all add: tx put_invocation_def db1 id)
  have k: "kept tx t = kept db t" for t
    by (intro kept_cong tenant_keys_cong) (simp_all add: tx put_invocation_def db1)
  have grows: "shelved db t side \<Longrightarrow> shelved tx t side" for t side
    unfolding shelved_def same using blobs_after_le [of db env transfer r keys] by (metis map_le_def domIff)
  have "staged tx ?t i (transfer_side env transfer r)"
    using r1 st id blobs_after_slot [of env transfer r keys db] by (auto simp: staged_def shelved_def invs same)
  moreover have "staged tx t j side" if "staged db t j side" for t j side
    using that grows r(1) st by (auto simp: staged_def invs)
  moreover have "filed tx a loc" if "filed db a loc" for a loc
    using that grows unfolding filed_def same k by blast
  moreover have "indexed tx t s a sealed" if "indexed db t s a sealed" for t s a sealed
    using that by (simp add: indexed_def k same)
  moreover have "kept tx t (sealed_key blob)" if "db_blobs tx (t, address) = Some blob" for t address blob
    using blobs_after_cases [OF that [unfolded same]] inv keys
    by (auto simp: k shelf_inv_def kept_def meta_openers_def)
  ultimately show ?thesis
    using inv unfolding shelf_inv_def same by auto
qed

lemma stage_publish_index:
  assumes "stage_publish env db r = Ok (r1, db1)" and "db_pending db (inv_tenant r, inv_id r) = Some sealed"
  shows "db_session_index db1 = db_session_index db \<and> inv_session r = None \<or>
    (\<exists>s sess owner_keys. inv_session r = Some s \<and> db_sessions db s = Some sess \<and>
       tenant_keys db (sr_owner sess) = Ok owner_keys \<and>
       db_session_index db1 = (db_session_index db)((sr_owner sess, s, art_artifact (sealed_value sealed)) :=
         Some \<lparr>sealed_key = kr_active owner_keys, sealed_value =
           \<lparr>six_artifact = art_artifact (sealed_value sealed), six_captured_by = inv_tenant r,
            six_published_at = env_now env\<rparr>\<rparr>))"
proof -
  have keys: "tenant_keys (db\<lparr>db_artifacts := x, db_pending := y, db_locators := z\<rparr>) t = tenant_keys db t" for x y z t
    by (rule tenant_keys_cong) simp_all
  show ?thesis
    using assms unfolding stage_publish_def Let_def rbind_Ok_iff ensure_Ok_iff case_option_eq_iff
    by (auto simp: open_sealed_def keys ok_or_Ok_iff split: if_splits)
qed


lemma publish_shelf:
  assumes inv: "shelf_inv db" and led: "ledger_inv db"
    and t: "transition_tx env i Step.Publish boundary (stage_publish env) db = Ok (Commit b v tx)"
  shows "shelf_inv tx"
proof -
  from t obtain r nxt r1 db1 stubs parts where
    r: "db_invocations db i = Some r" "lifecycle (inv_state r) Step.Publish nxt"
       "stage_publish env db r = Ok (r1, db1)"
    and tx: "tx = put_invocation (db1\<lparr>db_audit_stub := stubs, db_audit := parts\<rparr>)
        (r1\<lparr>inv_state := nxt, inv_updated_at := env_now env\<rparr>)"
    by (rule transition_Commit)
  let ?t = "inv_tenant r" and ?a = "artifact_ref i"
  have id: "inv_id r = i" using led r(1) by (simp add: ledger_inv_def wf_invocation_def)
  from r(3) obtain keys sealed where keys: "tenant_keys db ?t = Ok keys"
    and pend: "db_pending db (?t, i) = Some sealed"
    and p1: "db_pending db1 = (db_pending db)((?t, i) := None)"
    and a1: "db_artifacts db1 = (db_artifacts db)((?t, art_artifact (sealed_value sealed)) :=
      Some \<lparr>sealed_key = kr_active keys,
        sealed_value = (sealed_value sealed)\<lparr>art_published_at := Some (env_now env)\<rparr>\<rparr>)"
    and l0: "db_locators db (art_artifact (sealed_value sealed)) = None"
    and l1: "db_locators db1 = (db_locators db)(art_artifact (sealed_value sealed) :=
      Some \<lparr>loc_artifact = art_artifact (sealed_value sealed), loc_owner = ?t, loc_session = inv_session r\<rparr>)"
    unfolding id [symmetric] by (rule stage_publish_effect)
  have "staged db ?t i (sealed_value sealed)" using inv pend by (simp add: shelf_inv_def)
  then have side: "art_artifact (sealed_value sealed) = ?a" "shelved db ?t (sealed_value sealed)"
    "art_session (sealed_value sealed) = inv_session r" using r(1) by (auto simp: staged_def)
  note idx = stage_publish_index [OF r(3), unfolded id, OF pend, unfolded side]
  obtain artifacts pending locators index where "db1 = db\<lparr>db_artifacts := artifacts,
      db_pending := pending, db_locators := locators, db_session_index := index\<rparr>"
    using stage_publish_frame(2) [OF r(3)] by blast
  then have same: "db_blobs tx = db_blobs db" "db_sessions tx = db_sessions db" "db_tenants tx = db_tenants db"
      "db_tombstones tx = db_tombstones db" "db_rekey tx = db_rekey db" "db_data_keys tx = db_data_keys db"
      "db_address_keys tx = db_address_keys db"
      "db_invocations tx = (db_invocations db)(i := Some (r1\<lparr>inv_state := nxt, inv_updated_at := env_now env\<rparr>))"
      "db_pending tx = db_pending db1" "db_artifacts tx = db_artifacts db1" "db_locators tx = db_locators db1"
      "db_session_index tx = db_session_index db1"
    using stage_publish_frame(1) [OF r(3)] by (simp_all add: tx put_invocation_def id)
  have k: "kept tx t = kept db t" for t
    by (intro kept_cong tenant_keys_cong) (simp_all add: same)
  have sh: "shelved tx t q = shelved db t q" for t q by (simp add: shelved_def same)
  have index_le: "db_session_index db \<subseteq>\<^sub>m db_session_index db1"
    using idx inv l0 side(1) by (fastforce simp: map_le_def shelf_inv_def indexed_def)
  have "staged tx t j q" if "staged db t j q" "(t, j) \<noteq> (?t, i)" for t j q
    using that r(1) by (auto simp: staged_def sh same)
  moreover have "filed tx ?a \<lparr>loc_artifact = ?a, loc_owner = ?t, loc_session = inv_session r\<rparr>"
    using side keys idx by (auto simp: filed_def same k sh a1 shelved_def kept_def meta_openers_def)
  moreover have "filed tx a loc" if "filed db a loc" "a \<noteq> ?a" for a loc
  proof -
    have "db_artifacts db1 (o', a) = db_artifacts db (o', a)" for o' using that(2) by (simp add: a1 side(1))
    moreover have "db_session_index db1 x \<noteq> None" if "db_session_index db x \<noteq> None" for x
      using that index_le by (metis map_le_def domIff)
    ultimately show ?thesis using that(1) unfolding filed_def same k sh by metis
  qed
  moreover have "indexed tx t s a q" if q: "db_session_index tx (t, s, a) = Some q" for t s a q
  proof (cases "db_session_index db (t, s, a) = Some q")
    case True
    then have "indexed db t s a q" using inv by (simp add: shelf_inv_def)
    with l0 side(1) show ?thesis by (auto simp: indexed_def k same l1)
  next
    case False
    with idx q obtain sess :: SessionRecord and owner_keys :: Keyring where "inv_session r = Some s" "a = ?a" "t = sr_owner sess"
      "tenant_keys db t = Ok owner_keys" "q = \<lparr>sealed_key = kr_active owner_keys, sealed_value =
         \<lparr>six_artifact = ?a, six_captured_by = ?t, six_published_at = env_now env\<rparr>\<rparr>"
      by (auto simp: same split: if_splits)
    then show ?thesis by (simp add: indexed_def k same l1 side(1) kept_def meta_openers_def)
  qed
  ultimately show ?thesis
    using inv unfolding shelf_inv_def same(1) same(9,11) k p1 l1 side(1)
    by (auto split: if_splits)
qed

lemma shelf_inv_empty: "shelf_inv empty_db"
  by (simp add: shelf_inv_def empty_db_def)

lemma store_step_shelf:
  assumes "store_step db db'" and led: "ledger_inv db" and inv: "shelf_inv db"
  shows "shelf_inv db'"
proof -
  note tx = end_tx_inv [where P = shelf_inv, OF inv]
  note keep = keeps_shelf_inv [OF _ inv]
  have dir: "shelf_inv tx" if "keeps_custody db tx" "same_shelf db tx" for tx
    using keep [OF keeps_custody_shelf [OF that]] .
  have quiet: "shelf_inv (fst (transition env i step boundary f db))"
    if "frames_stage f" "\<And>db r r1 db1. f db r = Ok (r1, db1) \<Longrightarrow> \<exists>m. db1 = db\<lparr>db_ledgers := m\<rparr>"
      "step \<noteq> Step.Publish" for env i step boundary f
    unfolding transition_def by (rule tx, rule keep, rule quiet_transition_shelf [OF led that])
  have busy: "shelf_inv (fst (transition env i Step.CompleteTransfer boundary (stage_transfer env transfer) db))"
    "shelf_inv (fst (transition env i Step.Publish boundary (stage_publish env) db))" for env i boundary transfer
    unfolding transition_def
    by (rule tx, erule transfer_shelf [OF inv led], rule tx, erule publish_shelf [OF inv led])
  from assms(1) show ?thesis
  proof cases
    case (audit_step env entry)
    then show ?thesis unfolding record_audit_def Let_def
      by (simp only:) (rule tx, auto intro: dir append_audit_keeps append_audit_same_shelf simp: rbind_Ok_iff)
  next
    case (register_step env reg)
    then show ?thesis unfolding register_tenant_def
      by (simp only:) (rule tx, rule keep, rule register_keeps_shelf)
  next
    case (root_step env root)
    then show ?thesis unfolding install_root_grant_def
      by (simp only:) (rule tx, rule dir [OF directory_keeps(1) directory_same_shelf(2)])
  next
    case (shred_step sessions scan env tenant)
    then show ?thesis unfolding shred_tenant_def
      by (simp only:) (rule tx, rule keep, rule shred_keeps_shelf)
  next
    case (dispatch_step env i)
    then show ?thesis unfolding dispatch_def
      by (simp only:) (rule quiet [OF frames_stages(1)], erule quiet_stages(4), simp)
  qed (simp_all add: begin_invocation_def tx [OF keep [OF begin_keeps_shelf]]
      complete_transfer_def publish_def busy
      settle_invocation_def quiet [OF frames_stages(4) quiet_stages(1)]
      release_invocation_def quiet [OF frames_stages(5) quiet_stages(2)]
      mark_unknown_effect_def quiet [OF frames_stages(6) quiet_stages(3)]
      issue_grant_def tx [OF dir [OF directory_keeps(2) directory_same_shelf(3)]]
      revoke_grant_def tx [OF dir [OF directory_keeps(3) directory_same_shelf(4)]]
      claim_key_def tx [OF dir [OF directory_keeps(4) directory_same_shelf(6)]]
      open_session_def tx [OF keep [OF open_session_keeps_shelf]])
qed

lemma reachable_shelf_inv: "store_reachable db \<Longrightarrow> shelf_inv db"
proof -
  assume "store_reachable db"
  then have "ledger_inv db \<and> shelf_inv db"
    by (rule reachable_invariant)
      (auto intro: ledger_inv_empty shelf_inv_empty store_step_ledger_inv store_step_shelf)
  then show ?thesis ..
qed

end
