(* ===== verification/Retrieval.thy ===== *)
theory Retrieval
  imports Reads "HOL-Library.Multiset"
begin

text \<open>
  What the readers return in a reachable store: published artifacts are readable until their owner is
  shredded, envelopes come back verbatim, pages and audit queries equal their reference definitions.
\<close>

lemma shelf_invD:
  assumes "shelf_inv db"
  shows "db_blobs db (t, address) = Some blob \<Longrightarrow> kept db t (sealed_key blob)"
    and "db_pending db (t, i) = Some pending \<Longrightarrow> staged db t i (sealed_value pending)"
    and "db_locators db a = Some loc \<Longrightarrow> filed db a loc"
    and "db_session_index db (t, s, a) = Some entry \<Longrightarrow> indexed db t s a entry"
  using assms by (simp_all add: shelf_inv_def)

section \<open>Keys survive\<close>

lemma store_step_kept:
  assumes "store_step db db'" and "kept db t k"
  shows "kept db' t k"
proof -
  note tx = end_tx_inv [where P = "\<lambda>x. kept x t k", OF assms(2)]
  have shelf: "kept tx t k" if "keeps_shelf db tx" for tx using that assms(2) by (simp add: keeps_shelf_def)
  note dir = shelf [OF keeps_custody_shelf]
  have tr: "kept (fst (transition env i step boundary f db)) t k" if frame: "frames_stage f"
    for env i step boundary f
    unfolding transition_def
  proof (rule tx)
    fix b v tx
    assume "transition_tx env i step boundary f db = Ok (Commit b v tx)"
    then obtain r r1 db1 stubs parts nxt where "f db r = Ok (r1, db1)"
      and tx: "tx = put_invocation (db1\<lparr>db_audit_stub := stubs, db_audit := parts\<rparr>)
        (r1\<lparr>inv_state := nxt, inv_updated_at := env_now env\<rparr>)"
      by (rule transition_Commit)
    then have "same_directory db db1" using frame by (auto simp: frames_stage_def)
    then have "kept tx t = kept db t"
      by (intro kept_cong tenant_keys_cong) (simp_all add: tx put_invocation_def same_directory_def)
    then show "kept tx t k" using assms(2) by simp
  qed
  from assms(1) show ?thesis
  proof cases
    case (audit_step env entry)
    then show ?thesis unfolding record_audit_def Let_def
      by (simp only:) (rule tx, auto intro: dir append_audit_keeps append_audit_same_shelf simp: rbind_Ok_iff)
  next
    case (register_step env reg)
    then show ?thesis unfolding register_tenant_def
      by (simp only:) (rule tx, rule shelf, rule register_keeps_shelf)
  next
    case (root_step env root)
    then show ?thesis unfolding install_root_grant_def
      by (simp only:) (rule tx, rule dir [OF directory_keeps(1) directory_same_shelf(2)])
  next
    case (shred_step sessions scan env tenant)
    then show ?thesis unfolding shred_tenant_def
      by (simp only:) (rule tx, rule shelf, rule shred_keeps_shelf)
  qed (simp_all add: begin_invocation_def tx [OF shelf [OF begin_keeps_shelf]] dispatch_def
      complete_transfer_def publish_def settle_invocation_def release_invocation_def mark_unknown_effect_def
      tr frames_stages
      issue_grant_def tx [OF dir [OF directory_keeps(2) directory_same_shelf(3)]]
      revoke_grant_def tx [OF dir [OF directory_keeps(3) directory_same_shelf(4)]]
      claim_key_def tx [OF dir [OF directory_keeps(4) directory_same_shelf(6)]]
      open_session_def tx [OF shelf [OF open_session_keeps_shelf]])
qed

definition audit_sealed :: "Db \<Rightarrow> bool" where
  "audit_sealed db \<longleftrightarrow> (\<forall>t k e. (k, e) \<in> set (db_audit db t) \<longrightarrow> kept db t (sealed_key e))"

lemma append_audit_sealed:
  assumes "append_audit env db entry = Ok (seq, tx)" and "(k, e) \<in> set (db_audit tx t)"
  shows "(k, e) \<in> set (db_audit db t) \<or>
    (\<exists>keys. tenant_keys tx t = Ok keys \<and> sealed_key e \<in> set (meta_openers keys))"
proof -
  have kv: "p \<in> set (kv_insert k' v kvs) \<Longrightarrow> p = (k', v) \<or> p \<in> set kvs" for p k' v
      and kvs :: "(u64 \<times> AuditEntryRecord Sealed) list"
    by (induction kvs) (auto split: if_splits)
  have keys: "tenant_keys (db\<lparr>db_audit_stub := x\<rparr>) t = tenant_keys db t"
    "tenant_keys (db\<lparr>db_audit_stub := x, db_audit := y\<rparr>) t = tenant_keys db t" for x y t
    by (rule tenant_keys_cong; simp)+
  show ?thesis
    using assms unfolding append_audit_def Let_def rbind_Ok_iff keys
    by (auto simp: keys meta_openers_def dest!: kv split: if_splits)
qed

lemma store_step_audit_sealed:
  assumes "store_step db db'" and "audit_sealed db"
  shows "audit_sealed db'"
  unfolding audit_sealed_def
proof (intro allI impI)
  fix t k e
  assume e: "(k, e) \<in> set (db_audit db' t)"
  have old: "kept db' t (sealed_key e)" if "(k, e) \<in> set (db_audit db t)"
    using that assms(2) store_step_kept [OF assms(1)] by (simp add: audit_sealed_def)
  from store_step_audit [OF assms(1)] show "kept db' t (sealed_key e)"
    unfolding audit_extends_def
  proof (elim disjE exE conjE)
    fix env entry seq db0 tx0
    assume "audit_kept db db0" and app: "append_audit env db0 entry = Ok (seq, tx0)" and out: "audit_kept tx0 db'"
      and keys: "\<forall>t. tenant_keys db' t = tenant_keys tx0 t"
    then show ?thesis
      using append_audit_sealed [OF app, of k e t] e old by (auto simp: audit_kept_def kept_def)
  qed (use e old in \<open>simp add: audit_kept_def\<close>)
qed


lemma reachable_audit_sealed: "store_reachable db \<Longrightarrow> audit_sealed db"
  by (erule reachable_invariant) (simp add: audit_sealed_def empty_db_def, rule store_step_audit_sealed)

text \<open>In a reachable store a sealed value of a tenant opens, or the tenant is shredded and has no keys.\<close>

lemma kept_cases:
  assumes "store_reachable db" and "kept db t k"
  obtains (shredded) "db_tombstones db t \<noteq> None" "live_tenant_keys db t = Ok None"
  | (live) keys where "db_tombstones db t = None" "live_tenant_keys db t = Ok (Some keys)"
      "tenant_keys db t = Ok keys" "k \<in> set (meta_openers keys)"
proof (cases "db_tombstones db t")
  case None
  with assms(2) obtain keys where "tenant_keys db t = Ok keys" "k \<in> set (meta_openers keys)"
    by (auto simp: kept_def)
  with None show ?thesis by (intro live) (simp_all add: live_tenant_keys_def)
next
  case (Some tomb)
  then have "tenant_keys db t = Err (TenantShredded t)"
    using reachable_tombstone_inv [OF assms(1)] by (intro shredded_keys) simp_all
  with Some show ?thesis by (intro shredded) (simp_all add: live_tenant_keys_def)
qed

lemma openers_same: "blob_openers keys = meta_openers keys" "audit_openers keys = meta_openers keys"
  by (simp_all add: blob_openers_def audit_openers_def meta_openers_def)

section \<open>Artifacts\<close>

lemma published_cases:
  assumes "store_reachable db"
  shows "published db a =
    (case db_locators db a of
       None \<Rightarrow> Ok None
     | Some loc \<Rightarrow> if db_tombstones db (loc_owner loc) \<noteq> None then Ok None
         else (case (db_artifacts db (loc_owner loc, a), tenant_keys db (loc_owner loc)) of
             (Some sealed, Ok keys) \<Rightarrow> Ok (Some (sealed_value sealed, keys))
           | _ \<Rightarrow> Err (Inconsistent ''unreachable'')))"
proof (cases "db_locators db a")
  case (Some loc)
  then have "filed db a loc" using reachable_shelf_inv [OF assms] by (simp add: shelf_inv_def)
  then obtain sealed where s: "db_artifacts db (loc_owner loc, a) = Some sealed"
    "kept db (loc_owner loc) (sealed_key sealed)" by (auto simp: filed_def)
  from assms s(2) show ?thesis
    by (cases rule: kept_cases) (simp_all add: published_def Some s(1) open_sealed_def)
qed (simp add: published_def)

text \<open>A published artifact of a live tenant: its side record and its envelope.\<close>

lemma readable:
  assumes "store_reachable db" and loc: "db_locators db a = Some loc" and "db_tombstones db (loc_owner loc) = None"
  obtains side keys blob where "published db a = Ok (Some (side, keys))"
    and "map_option sealed_value (db_artifacts db (loc_owner loc, a)) = Some side"
    and "art_artifact side = a" and "art_tenant side = loc_owner loc" and "art_session side = loc_session loc"
    and "art_published_at side \<noteq> None"
    and "db_blobs db (loc_owner loc, art_blob_address side) = Some blob"
    and "open_sealed (blob_openers keys) blob = Ok (sealed_value blob)"
proof -
  have inv: "shelf_inv db" using assms(1) by (rule reachable_shelf_inv)
  then have "filed db a loc" using loc by (simp add: shelf_inv_def)
  then obtain sealed blob where s: "db_artifacts db (loc_owner loc, a) = Some sealed"
    "kept db (loc_owner loc) (sealed_key sealed)" "art_artifact (sealed_value sealed) = a"
    "art_session (sealed_value sealed) = loc_session loc" "art_published_at (sealed_value sealed) \<noteq> None"
    "art_tenant (sealed_value sealed) = loc_owner loc"
    and b: "db_blobs db (loc_owner loc, art_blob_address (sealed_value sealed)) = Some blob"
    by (auto simp: filed_def shelved_def)
  from inv b have kb: "kept db (loc_owner loc) (sealed_key blob)" by (simp add: shelf_inv_def)
  from assms(1) s(2) show ?thesis
  proof (cases rule: kept_cases)
    case (live keys)
    with kb have "sealed_key blob \<in> set (meta_openers keys)" by (auto simp: kept_def)
    with live s b loc show ?thesis
      by (intro that [of "sealed_value sealed" keys blob])
        (simp_all add: published_def open_sealed_def openers_same)
  qed (use assms(3) in simp)
qed

lemma readers_total:
  assumes "store_reachable db"
  shows "(\<exists>info. artifact db a = Ok info \<and> (info \<noteq> None \<longleftrightarrow>
      (\<exists>loc. db_locators db a = Some loc \<and> db_tombstones db (loc_owner loc) = None))) \<and>
    (\<exists>chunk. read_artifact db a offset len = Ok chunk \<and> (chunk \<noteq> None \<longleftrightarrow>
      (\<exists>loc. db_locators db a = Some loc \<and> db_tombstones db (loc_owner loc) = None)))"
proof (cases "\<exists>loc. db_locators db a = Some loc \<and> db_tombstones db (loc_owner loc) = None")
  case True
  then obtain loc where loc: "db_locators db a = Some loc" "db_tombstones db (loc_owner loc) = None" by blast
  from assms loc obtain side keys blob where *: "published db a = Ok (Some (side, keys))"
    "art_tenant side = loc_owner loc" "art_published_at side \<noteq> None"
    "db_blobs db (loc_owner loc, art_blob_address side) = Some blob"
    "open_sealed (blob_openers keys) blob = Ok (sealed_value blob)"
    by (rule readable)
  with True show ?thesis by (auto simp: artifact_def read_artifact_def Let_def)
next
  case False
  then have "published db a = Ok None" by (simp add: published_cases [OF assms] split: option.split)
  with False show ?thesis by (simp add: artifact_def read_artifact_def)
qed


section \<open>Verbatim custody\<close>

lemma map_leD: "m \<subseteq>\<^sub>m m' \<Longrightarrow> m k = Some v \<Longrightarrow> m' k = Some v"
  by (metis map_le_def domI)

text \<open>
  The content of blobs and published side records never changes, and a staged record is either still
  staged or published as it was staged, whatever steps come between.
\<close>

definition contents :: "('k \<Rightarrow> 'v Sealed option) \<Rightarrow> 'k \<Rightarrow> 'v option" where
  "contents m k = map_option sealed_value (m k)"

definition custodial :: "Db \<Rightarrow> Db \<Rightarrow> bool" where
  "custodial db db' \<longleftrightarrow> contents (db_blobs db) \<subseteq>\<^sub>m contents (db_blobs db') \<and>
     contents (db_artifacts db) \<subseteq>\<^sub>m contents (db_artifacts db') \<and>
     (\<forall>t i side. contents (db_pending db) (t, i) = Some side \<longrightarrow>
        contents (db_pending db') (t, i) = Some side \<or>
        (\<exists>at. contents (db_artifacts db') (t, artifact_ref i) = Some (side\<lparr>art_published_at := Some at\<rparr>)))"

lemma custodial_refl: "custodial db db"
  by (simp add: custodial_def)

lemma custodial_trans: "custodial a b \<Longrightarrow> custodial b c \<Longrightarrow> custodial a c"
  unfolding custodial_def by (elim conjE, intro conjI; (erule (1) map_le_trans | (metis map_le_def domI)))

lemma keeps_shelf_same: "keeps_shelf db db' \<Longrightarrow> same_shelf db db'"
  by (simp add: keeps_shelf_def)

lemma same_shelf_custodial: "same_shelf db tx \<Longrightarrow> custodial db tx"
  by (simp add: same_shelf_def custodial_def)

lemma contents_le: "m \<subseteq>\<^sub>m m' \<Longrightarrow> contents m \<subseteq>\<^sub>m contents m'"
  by (auto simp: map_le_def contents_def dom_def)

text \<open>A side record comes with a locator that names its owner.\<close>

definition side_inv :: "Db \<Rightarrow> bool" where
  "side_inv db \<longleftrightarrow> (\<forall>t a. db_artifacts db (t, a) \<noteq> None \<longrightarrow> map_option loc_owner (db_locators db a) = Some t)"

lemma transfer_custodial:
  assumes inv: "shelf_inv db" and led: "ledger_inv db"
    and t: "transition_tx env i Step.CompleteTransfer boundary (stage_transfer env transfer) db = Ok (Commit b v tx)"
  shows "custodial db tx" and "side_inv db \<Longrightarrow> side_inv tx"
proof -
  from t obtain r nxt r1 db1 stubs parts where
    r: "db_invocations db i = Some r" "lifecycle (inv_state r) Step.CompleteTransfer nxt"
       "stage_transfer env transfer db r = Ok (r1, db1)"
    and tx: "tx = put_invocation (db1\<lparr>db_audit_stub := stubs, db_audit := parts\<rparr>)
        (r1\<lparr>inv_state := nxt, inv_updated_at := env_now env\<rparr>)"
    by (rule transition_Commit)
  have id: "inv_id r = i" using led r(1) by (simp add: ledger_inv_def wf_invocation_def)
  have "inv_state r = Dispatched" using r(2) by (auto elim: lifecycleE)
  then have none: "db_pending db (t', i) = None" for t'
    using inv r(1) by (cases "db_pending db (t', i)") (fastforce simp: shelf_inv_def staged_def)+
  from r(3) obtain keys :: Keyring where
    db1: "db1 = db\<lparr>db_blobs := blobs_after env transfer r keys db, db_pending := (db_pending db)((inv_tenant r, inv_id r) :=
      Some \<lparr>sealed_key = kr_active keys, sealed_value = transfer_side env transfer r\<rparr>)\<rparr>"
    by (rule stage_transfer_effect)
  show "custodial db tx"
    using contents_le [OF blobs_after_le] none
    by (auto simp: custodial_def tx put_invocation_def db1 contents_def id)
  show "side_inv db \<Longrightarrow> side_inv tx" by (simp add: side_inv_def tx put_invocation_def db1)
qed

lemma publish_custodial:
  assumes inv: "shelf_inv db" "side_inv db" and led: "ledger_inv db"
    and t: "transition_tx env i Step.Publish boundary (stage_publish env) db = Ok (Commit b v tx)"
  shows "custodial db tx" and "side_inv tx"
proof -
  from t obtain r nxt r1 db1 stubs parts where
    r: "db_invocations db i = Some r" "stage_publish env db r = Ok (r1, db1)"
    and tx: "tx = put_invocation (db1\<lparr>db_audit_stub := stubs, db_audit := parts\<rparr>)
        (r1\<lparr>inv_state := nxt, inv_updated_at := env_now env\<rparr>)"
    by (rule transition_Commit)
  let ?t = "inv_tenant r"
  have id: "inv_id r = i" using led r(1) by (simp add: ledger_inv_def wf_invocation_def)
  from r(2) obtain keys :: Keyring and sealed where pend: "db_pending db (?t, i) = Some sealed"
    and p1: "db_pending db1 = (db_pending db)((?t, i) := None)"
    and a1: "db_artifacts db1 = (db_artifacts db)((?t, art_artifact (sealed_value sealed)) :=
      Some \<lparr>sealed_key = kr_active keys,
        sealed_value = (sealed_value sealed)\<lparr>art_published_at := Some (env_now env)\<rparr>\<rparr>)"
    and l0: "db_locators db (art_artifact (sealed_value sealed)) = None"
    and l1: "db_locators db1 = (db_locators db)(art_artifact (sealed_value sealed) :=
      Some \<lparr>loc_artifact = art_artifact (sealed_value sealed), loc_owner = ?t, loc_session = inv_session r\<rparr>)"
    unfolding id [symmetric] by (rule stage_publish_effect)
  have "staged db ?t i (sealed_value sealed)" using inv pend by (simp add: shelf_inv_def)
  then have side: "art_artifact (sealed_value sealed) = artifact_ref i" by (simp add: staged_def)
  have fresh: "db_artifacts db (?t, artifact_ref i) = None"
    using inv(2) l0 unfolding side_inv_def side by fastforce
  have b1: "db_blobs db1 = db_blobs db" using stage_publish_frame(2) [OF r(2)] by auto
  have tx': "db_blobs tx = db_blobs db" "db_artifacts tx = db_artifacts db1" "db_pending tx = db_pending db1"
    by (simp_all add: tx put_invocation_def b1)
  have "db_artifacts db \<subseteq>\<^sub>m db_artifacts tx" unfolding tx' a1 side using fresh by (rule map_le_fresh)
  moreover have "contents (db_artifacts tx) (?t, artifact_ref i) =
      Some ((sealed_value sealed)\<lparr>art_published_at := Some (env_now env)\<rparr>)"
    by (simp add: tx' a1 side contents_def)
  moreover have "contents (db_pending tx) x = contents (db_pending db) x" if "x \<noteq> (?t, i)" for x
    using that by (simp add: tx' p1 contents_def)
  moreover have "contents (db_pending db) (?t, i) = Some (sealed_value sealed)"
    by (simp add: contents_def pend)
  ultimately show "custodial db tx"
    unfolding custodial_def tx'(1) by (metis contents_le map_le_refl option.inject prod.inject)
  have "db_artifacts db (t', artifact_ref i) = None" for t'
    using inv(2) l0 unfolding side_inv_def side by fastforce
  then show "side_inv tx" using inv(2) unfolding side_inv_def tx'(2) a1 side by (auto simp: tx put_invocation_def l1 side)
qed


lemma store_step_custodial:
  assumes "store_step db db'" and led: "ledger_inv db" and inv: "shelf_inv db" "side_inv db"
  shows "custodial db db' \<and> side_inv db'"
proof -
  let ?P = "\<lambda>x. custodial db x \<and> side_inv x"
  have same: "?P x" if "same_shelf db x" for x
    using that inv(2) by (simp add: same_shelf_custodial side_inv_def same_shelf_def)
  note tx = end_tx_inv [where P = ?P, OF same [OF keeps_shelf_refl [THEN keeps_shelf_same]]]
  have quiet: "?P (fst (transition env i step boundary f db))"
    if "frames_stage f" "\<And>db r r1 db1. f db r = Ok (r1, db1) \<Longrightarrow> \<exists>m. db1 = db\<lparr>db_ledgers := m\<rparr>"
      "step \<noteq> Step.Publish" for env i step boundary f
    unfolding transition_def
    by (rule tx, rule same, rule keeps_shelf_same, rule quiet_transition_shelf [OF led that])
  have busy: "?P (fst (transition env i Step.CompleteTransfer boundary (stage_transfer env transfer) db))"
    "?P (fst (transition env i Step.Publish boundary (stage_publish env) db))" for env i boundary transfer
    unfolding transition_def
    by (rule tx, rule conjI, erule transfer_custodial(1) [OF inv(1) led],
        erule transfer_custodial(2) [OF inv(1) led _ inv(2)],
        rule tx, rule conjI, erule publish_custodial(1) [OF inv led], erule publish_custodial(2) [OF inv led])
  from assms(1) show ?thesis
  proof cases
    case (audit_step env entry)
    then show ?thesis unfolding record_audit_def Let_def
      by (simp only:) (rule tx, rule same, auto intro: append_audit_same_shelf simp: rbind_Ok_iff)
  next
    case (register_step env reg)
    then show ?thesis unfolding register_tenant_def
      by (simp only:) (rule tx, rule same, rule directory_same_shelf(1))
  next
    case (root_step env root)
    then show ?thesis unfolding install_root_grant_def
      by (simp only:) (rule tx, rule same, rule directory_same_shelf(2))
  next
    case (shred_step sessions scan env tenant)
    then show ?thesis unfolding shred_tenant_def
      by (simp only:) (rule tx, rule same, rule directory_same_shelf(7))
  next
    case (dispatch_step env i)
    then show ?thesis unfolding dispatch_def
      by (simp only:) (rule quiet [OF frames_stages(1)], erule quiet_stages(4), simp)
  qed (simp_all add: begin_invocation_def tx [OF same [OF keeps_shelf_same [OF begin_keeps_shelf]]]
      complete_transfer_def publish_def busy
      settle_invocation_def quiet [OF frames_stages(4) quiet_stages(1)]
      release_invocation_def quiet [OF frames_stages(5) quiet_stages(2)]
      mark_unknown_effect_def quiet [OF frames_stages(6) quiet_stages(3)]
      issue_grant_def tx [OF same [OF directory_same_shelf(3)]]
      revoke_grant_def tx [OF same [OF directory_same_shelf(4)]]
      open_session_def tx [OF same [OF directory_same_shelf(5)]]
      claim_key_def tx [OF same [OF directory_same_shelf(6)]])
qed

lemma steps_custodial:
  assumes "store_step\<^sup>*\<^sup>* db db'" and "ledger_inv db" and "shelf_inv db" and "side_inv db"
  shows "custodial db db'"
proof -
  from assms have "ledger_inv db' \<and> shelf_inv db' \<and> side_inv db' \<and> custodial db db'"
  proof (induction rule: rtranclp_induct)
    case (step y z)
    then show ?case
      using store_step_custodial [OF step(2)] store_step_shelf [OF step(2)] store_step_ledger_inv [OF step(2)]
        custodial_trans by blast
  qed (simp add: custodial_refl)
  then show ?thesis by blast
qed

lemma reachable_side_inv: "store_reachable db \<Longrightarrow> side_inv db"
proof -
  assume "store_reachable db"
  then have "ledger_inv db \<and> shelf_inv db \<and> side_inv db"
    by (rule reachable_invariant)
      (use ledger_inv_empty shelf_inv_empty store_step_ledger_inv store_step_shelf store_step_custodial
        in \<open>auto simp: side_inv_def empty_db_def\<close>)
  then show ?thesis by blast
qed


lemma chunk_of:
  assumes "published db a = Ok (Some (side, keys))" and "art_tenant side = t"
    and "db_blobs db (t, art_blob_address side) = Some blob"
    and "open_sealed (blob_openers keys) blob = Ok (sealed_value blob)"
  shows "read_artifact db a offset len = Ok (Some \<lparr>chunk_offset = offset,
    chunk_bytes = take (unat len) (drop (unat offset) (sealed_value blob)),
    chunk_total_len = len_u64 (length (sealed_value blob))\<rparr>)"
proof -
  have "take (min (min o' n + l) n - min o' n) (drop (min o' n) xs) = take l (drop o' xs)"
    if "n = length xs" for o' n l and xs :: "u8 list"
    using that by (simp add: min_def)
  with assms show ?thesis by (simp add: read_artifact_def Let_def)
qed

lemma transferred:
  assumes "store_reachable db" and "complete_transfer env i transfer db = (db1, Ok st)"
  obtains r keys where "db_invocations db i = Some r" and "inv_id r = i" and "inv_tenant r = st_tenant st"
    and "inv_session r = st_session st"
    and "contents (db_pending db1) (st_tenant st, i) = Some (transfer_side env transfer r)"
    and "db_blobs db1 = blobs_after env transfer r keys db"
proof -
  from assms(2) have "transition_tx env i Step.CompleteTransfer Boundary.CompleteTransfer (stage_transfer env transfer) db =
      Ok (Abandon st) \<or> (\<exists>b. transition_tx env i Step.CompleteTransfer Boundary.CompleteTransfer
        (stage_transfer env transfer) db = Ok (Commit b st db1))"
    unfolding complete_transfer_def transition_def by (blast dest: end_tx_Ok)
  then obtain b where t: "transition_tx env i Step.CompleteTransfer Boundary.CompleteTransfer
      (stage_transfer env transfer) db = Ok (Commit b st db1)"
    by (auto simp: transition_tx_def rbind_Ok_iff Let_def)
  then obtain r nxt r1 dbx stubs parts where
    r: "db_invocations db i = Some r" "stage_transfer env transfer db r = Ok (r1, dbx)"
    and tx: "db1 = put_invocation (dbx\<lparr>db_audit_stub := stubs, db_audit := parts\<rparr>)
        (r1\<lparr>inv_state := nxt, inv_updated_at := env_now env\<rparr>)"
    by (rule transition_Commit)
  have id: "inv_id r = i"
    using reachable_ledger_inv [OF assms(1)] r(1) by (simp add: ledger_inv_def wf_invocation_def)
  have st: "st_tenant st = inv_tenant r" "st_session st = inv_session r"
    using t r stage_transfer_frame(2) [OF r(2)]
    by (auto simp: transition_tx_def rbind_Ok_iff Let_def existing_invocation_def ok_or_Ok_iff status_of_def)
  from r(2) obtain keys :: Keyring where
    dbx: "dbx = db\<lparr>db_blobs := blobs_after env transfer r keys db, db_pending := (db_pending db)((inv_tenant r, inv_id r) :=
      Some \<lparr>sealed_key = kr_active keys, sealed_value = transfer_side env transfer r\<rparr>)\<rparr>"
    by (rule stage_transfer_effect)
  show ?thesis
    using r(1) id st by (intro that [of r keys]) (simp_all add: tx put_invocation_def dbx contents_def)
qed

lemma published_side:
  assumes reach: "store_reachable db1" and later: "store_step\<^sup>*\<^sup>* db1 db2"
    and p: "contents (db_pending db1) (t, i) = Some side"
    and pub: "db_locators db2 (artifact_ref i) \<noteq> None" and live: "db_tombstones db2 t = None"
  obtains at keys blob where "published db2 (artifact_ref i) = Ok (Some (side\<lparr>art_published_at := Some at\<rparr>, keys))"
    and "art_tenant side = t" and "db_blobs db2 (t, art_blob_address side) = Some blob"
    and "open_sealed (blob_openers keys) blob = Ok (sealed_value blob)" and "custodial db1 db2"
proof -
  let ?a = "artifact_ref i"
  have reach2: "store_reachable db2" using reach later unfolding store_reachable_def by (rule rtranclp_trans)
  have c: "custodial db1 db2"
    by (rule steps_custodial [OF later]) (rule reach [THEN reachable_ledger_inv] reach [THEN reachable_shelf_inv]
        reach [THEN reachable_side_inv])+
  have "db_pending db2 (t, i) = None"
  proof (cases "db_pending db2 (t, i)")
    case (Some sealed)
    then have "staged db2 t i (sealed_value sealed)"
      using reachable_shelf_inv [OF reach2] by (simp add: shelf_inv_def)
    then obtain q where "db_invocations db2 i = Some q" "inv_state q = TransferComplete"
      by (auto simp: staged_def)
    then have "db_locators db2 ?a = None"
      using early_unlocated [OF reachable_custody_inv [OF reach2]] by (simp add: early_def)
    with pub show ?thesis by simp
  qed
  then have "contents (db_pending db2) (t, i) \<noteq> Some q" for q by (simp add: contents_def)
  then obtain at where art: "contents (db_artifacts db2) (t, ?a) = Some (side\<lparr>art_published_at := Some at\<rparr>)"
    using c p unfolding custodial_def by metis
  then obtain loc where loc: "db_locators db2 ?a = Some loc" "loc_owner loc = t"
    using reachable_side_inv [OF reach2] by (fastforce simp: side_inv_def contents_def)
  have "db_tombstones db2 (loc_owner loc) = None" using live loc(2) by simp
  from reach2 loc(1) this obtain q keys blob where pb: "published db2 ?a = Ok (Some (q, keys))"
    "art_tenant q = t" "db_blobs db2 (t, art_blob_address q) = Some blob"
    "open_sealed (blob_openers keys) blob = Ok (sealed_value blob)"
    and "map_option sealed_value (db_artifacts db2 (t, ?a)) = Some q"
    by (rule readable) (rule that, simp_all add: loc(2))
  with art have q: "q = side\<lparr>art_published_at := Some at\<rparr>" by (simp add: contents_def)
  from pb q c show ?thesis by (intro that [of at keys blob]) simp_all
qed

lemma verbatim_info:
  assumes "store_reachable db" and transfer: "complete_transfer env i transfer db = (db1, Ok st)"
    and later: "store_step\<^sup>*\<^sup>* db1 db2" and pub: "db_locators db2 (artifact_ref i) \<noteq> None"
    and live: "db_tombstones db2 (st_tenant st) = None"
  shows "\<exists>info. artifact db2 (artifact_ref i) = Ok (Some info) \<and> ai_artifact info = artifact_ref i \<and>
      ai_owner info = st_tenant st \<and>
      ai_session info = st_session st \<and> ai_source info = tf_source transfer \<and>
      ai_text_view info = tf_text_view transfer \<and> ai_truncated info = tf_truncated transfer \<and>
      ai_output_bytes info = tf_output_bytes transfer \<and>
      ai_revoked_after_effect info = tf_revoked_after_effect transfer"
proof -
  obtain r :: InvocationRecord and keys :: Keyring where r: "inv_id r = i" "inv_tenant r = st_tenant st" "inv_session r = st_session st"
    and p: "contents (db_pending db1) (st_tenant st, i) = Some (transfer_side env transfer r)"
    by (rule transferred [OF assms(1) transfer])
  have "store_step db db1" using transfer_step [of db env i transfer] transfer by simp
  then have "store_reachable db1" by (rule reachable_step [OF assms(1)])
  from this later p pub live obtain at keys where
    "published db2 (artifact_ref i) = Ok (Some ((transfer_side env transfer r)\<lparr>art_published_at := Some at\<rparr>, keys))"
    by (rule published_side)
  then show ?thesis using r by (simp add: artifact_def artifact_info_def transfer_side_def)
qed

lemma verbatim_chunk:
  assumes "store_reachable db" and transfer: "complete_transfer env i transfer db = (db1, Ok st)"
    and no_collision: "\<And>blob. db_blobs db (st_tenant st, env_blob_address env (st_tenant st) (tf_envelope transfer)) =
      Some blob \<Longrightarrow> sealed_value blob = tf_envelope transfer"
    and later: "store_step\<^sup>*\<^sup>* db1 db2" and pub: "db_locators db2 (artifact_ref i) \<noteq> None"
    and live: "db_tombstones db2 (st_tenant st) = None"
  shows "read_artifact db2 (artifact_ref i) offset len = Ok (Some \<lparr>chunk_offset = offset,
      chunk_bytes = take (unat len) (drop (unat offset) (tf_envelope transfer)),
      chunk_total_len = len_u64 (length (tf_envelope transfer))\<rparr>)"
proof -
  let ?t = "st_tenant st"
  let ?slot = "(?t, env_blob_address env ?t (tf_envelope transfer))"
  obtain r :: InvocationRecord and keys :: Keyring where r: "inv_id r = i" "inv_tenant r = ?t"
    and p: "contents (db_pending db1) (?t, i) = Some (transfer_side env transfer r)"
    and b: "db_blobs db1 = blobs_after env transfer r keys db"
    by (rule transferred [OF assms(1) transfer])
  have b1: "contents (db_blobs db1) ?slot = Some (tf_envelope transfer)"
    using no_collision r by (auto simp: b contents_def blobs_after_def Let_def split: option.split)
  have "store_step db db1" using transfer_step [of db env i transfer] transfer by simp
  then have "store_reachable db1" by (rule reachable_step [OF assms(1)])
  from this later p pub live obtain at keys' blob where
    pb: "published db2 (artifact_ref i) = Ok (Some ((transfer_side env transfer r)\<lparr>art_published_at := Some at\<rparr>, keys'))"
    and "db_blobs db2 (?t, art_blob_address (transfer_side env transfer r)) = Some blob"
    and op: "open_sealed (blob_openers keys') blob = Ok (sealed_value blob)" and c: "custodial db1 db2"
    by (rule published_side)
  then have blob: "db_blobs db2 ?slot = Some blob" using r by simp
  have "contents (db_blobs db2) ?slot = Some (tf_envelope transfer)"
    using map_leD [where m = "contents (db_blobs db1)", OF _ b1] c by (simp add: custodial_def)
  then have "sealed_value blob = tf_envelope transfer" using blob by (simp add: contents_def)
  with chunk_of [OF pb, of ?t blob offset len] blob op r show ?thesis by simp
qed

section \<open>Session pages\<close>

definition in_session :: "Db \<Rightarrow> SessionId \<Rightarrow> ArtifactRef \<Rightarrow> bool" where
  "in_session db s a \<longleftrightarrow> (\<exists>loc. db_locators db a = Some loc \<and> loc_session loc = Some s)"

lemma scan_index_exact:
  assumes "\<And>a sealed. entries a = Some sealed \<Longrightarrow> sealed_key sealed \<in> set keys \<and> six_artifact (sealed_value sealed) = a"
  shows "scan_index entries keys limit refs as =
    (let rest = filter (\<lambda>a. entries a \<noteq> None) as in
     Ok \<lparr>result_refs = refs @ take (limit - length refs) rest,
         query_more = (limit < length refs + length rest \<and> rest \<noteq> [])\<rparr>)"
  using assms
proof (induction as arbitrary: refs)
  case (Cons a as)
  show ?case
  proof (cases "entries a")
    case None
    with Cons.IH [OF Cons.prems] show ?thesis by (simp add: Let_def)
  next
    case (Some sealed)
    with Cons.prems have "open_sealed keys sealed = Ok (sealed_value sealed)" "six_artifact (sealed_value sealed) = a"
      by (auto simp: open_sealed_def)
    with Some Cons.IH [OF Cons.prems, of "refs @ [a]"] show ?thesis
      by (cases "limit \<le> length refs") (auto simp: Let_def take_Cons' Suc_diff_Suc)
  qed
qed simp

lemma session_page_exact:
  assumes reach: "store_reachable db" and sess: "db_sessions db s = Some r" and live: "db_tombstones db (sr_owner r) = None"
    and index: "sorted_wrt (<) index" "\<And>a. in_session db s a \<Longrightarrow> a \<in> set index"
  shows "let all = sorted_list_of_set {a. in_session db s a \<and> (case after of None \<Rightarrow> True | Some b \<Rightarrow> b < a)} in
    session_artifacts db index s after limit =
      Ok (Some \<lparr>result_refs = take (unat limit) all, query_more = (unat limit < length all)\<rparr>)"
proof -
  have inv: "shelf_inv db" using reach by (rule reachable_shelf_inv)
  have "db_tenants db (sr_owner r) \<noteq> None"
    using reachable_custody_inv [OF reach] sess live unfolding custody_inv_def by metis
  then obtain keys where keys: "tenant_keys db (sr_owner r) = Ok keys"
    using reachable_custody_inv [OF reach] by (auto simp: custody_inv_def keys_live_def)
  let ?entries = "\<lambda>a. db_session_index db (sr_owner r, s, a)"
  have open_all: "sealed_key sealed \<in> set (meta_openers keys) \<and> six_artifact (sealed_value sealed) = a"
    if "?entries a = Some sealed" for a sealed
    using shelf_invD(4) [OF inv that] live keys by (auto simp: indexed_def kept_def)
  have entry: "?entries a \<noteq> None \<longleftrightarrow> in_session db s a" for a
  proof
    assume "?entries a \<noteq> None"
    then show "in_session db s a" by (auto simp: indexed_def in_session_def dest: shelf_invD(4) [OF inv])
  next
    assume "in_session db s a"
    then obtain loc where "db_locators db a = Some loc" "loc_session loc = Some s" by (auto simp: in_session_def)
    then have "filed db a loc" "loc_session loc = Some s" using inv by (simp_all add: shelf_inv_def)
    with sess show "?entries a \<noteq> None" by (auto simp: filed_def)
  qed
  let ?P = "\<lambda>a. case after of None \<Rightarrow> True | Some b \<Rightarrow> b < a"
  have "sorted_wrt (<) (filter (in_session db s) (filter ?P index))"
    using index(1) by (intro sorted_wrt_filter)
  moreover have "set (filter (in_session db s) (filter ?P index)) = {a. in_session db s a \<and> ?P a}"
    using index(2) by auto
  ultimately have all: "sorted_list_of_set {a. in_session db s a \<and> ?P a} = filter (in_session db s) (filter ?P index)"
    by (metis sorted_list_of_set.idem_if_sorted_distinct strict_sorted_iff)
  show ?thesis
    unfolding all
    using keys by (simp add: session_artifacts_def sess live_tenant_keys_def Let_def
      scan_index_exact [of ?entries "meta_openers keys", OF open_all] entry [unfolded not_None_eq]) auto
qed


section \<open>Audit queries\<close>

text \<open>Truncating each sorted part before a merge does not change the truncated merge.\<close>

lemma take_insort: "take n (insort_key f x ys) = take n (insort_key f x (take n ys))"
proof (induction ys arbitrary: n)
  case (Cons y ys)
  then show ?case by (cases n) (auto simp: take_Cons')
qed simp

lemma take_foldr_insort: "take n (foldr (insort_key f) zs s) = take n (foldr (insort_key f) zs (take n s))"
proof (induction zs)
  case (Cons z zs)
  then show ?case by (metis foldr_Cons o_apply take_insort)
qed simp

lemma take_sort_append:
  assumes "sorted (map f xs)"
  shows "take n (sort_key f (zs @ take n xs)) = take n (sort_key f (zs @ xs))"
proof -
  have "sorted (map f (take n xs))" using assms by (simp add: take_map [symmetric] sorted_wrt_take)
  with assms have "foldr (insort_key f) xs [] = xs" "foldr (insort_key f) (take n xs) [] = take n xs"
    by (simp_all add: sort_key_def [symmetric] sort_key_id_if_sorted)
  with take_foldr_insort [of n f zs xs] show ?thesis by (simp add: sort_key_def)
qed

lemma sort_key_perm:
  assumes "mset xs = mset ys" and "inj_on f (set xs)"
  shows "sort_key f xs = sort_key f ys"
  using assms by (intro sort_key_inj_key_eq) simp_all

lemma take_sort_concat:
  assumes "\<And>xs. xs \<in> set xss \<Longrightarrow> sorted (map f xs)" and "inj_on f (set zs \<union> set (concat xss))"
  shows "take n (sort_key f (zs @ concat (map (take n) xss))) = take n (sort_key f (zs @ concat xss))"
  using assms
proof (induction xss arbitrary: zs)
  case (Cons xs xss)
  have sub: "set (take n xs) \<subseteq> set xs" by (rule set_take_subset)
  have "take n (sort_key f (zs @ concat (map (take n) (xs # xss)))) =
      take n (sort_key f ((zs @ take n xs) @ concat xss))"
    using Cons.IH [of "zs @ take n xs"] Cons.prems sub by (auto intro: inj_on_subset)
  also have "sort_key f ((zs @ take n xs) @ concat xss) = sort_key f ((zs @ concat xss) @ take n xs)"
    using Cons.prems(2) sub by (intro sort_key_perm) (auto simp: ac_simps intro: inj_on_subset)
  also have "take n \<dots> = take n (sort_key f ((zs @ concat xss) @ xs))"
    using Cons.prems(1) by (intro take_sort_append) simp
  also have "sort_key f ((zs @ concat xss) @ xs) = sort_key f (zs @ concat (xs # xss))"
    using Cons.prems(2) by (intro sort_key_perm) (auto simp: ac_simps intro: inj_on_subset)
  finally show ?case .
qed simp

lemma scan_partition_exact:
  assumes "\<And>k e. (k, e) \<in> set part \<Longrightarrow> sealed_key e \<in> set keys"
  shows "scan_partition keys keep limit events part =
    Ok (events @ take (limit - length events) (map audit_event (filter keep (map (sealed_value \<circ> snd) part))))"
  using assms
proof (induction part arbitrary: events)
  case (Cons p part)
  obtain k e where p: "p = (k, e)" by (cases p)
  have IH: "scan_partition keys keep limit events part = Ok (events @ take (limit - length events)
      (map audit_event (filter keep (map (sealed_value \<circ> snd) part))))" for events
    by (rule Cons.IH) (meson Cons.prems list.set_intros(2))
  have "open_sealed keys e = Ok (sealed_value e)" using Cons.prems [of k e] by (simp add: p open_sealed_def)
  then show ?case
    by (cases "limit \<le> length events") (auto simp: p IH take_Cons' Suc_diff_Suc comp_def)
qed simp

text \<open>The records of one tenant a query sees, and the whole answer, without scans or truncation in between.\<close>

definition visible :: "Db \<Rightarrow> AuditQueryCall \<Rightarrow> TenantId \<Rightarrow> AuditEvent list" where
  "visible db query t =
     map audit_event (filter (selected db query) (map (sealed_value \<circ> snd)
       (filter (\<lambda>(k, _). case aqc_after query of None \<Rightarrow> True | Some seq \<Rightarrow> audit_seq_get seq < k) (db_audit db t))))"

definition audit_answer :: "Db \<Rightarrow> TenantId list \<Rightarrow> AuditQueryCall \<Rightarrow> AuditEvent list" where
  "audit_answer db tenants query =
     take (unat (aqc_limit query)) (sort_key (\<lambda>event. audit_seq_get (ar_seq (ev_record event)))
       (concat (map (visible db query) tenants)))"

lemma partition_read_exact:
  assumes "store_reachable db" and "db_tenants db t \<noteq> None"
  shows "partition_read db t (aqc_after query) limit (selected db query) = Ok (take limit (visible db query t))"
proof -
  obtain keys where keys: "tenant_keys db t = Ok keys"
    using reachable_custody_inv [OF assms(1)] assms(2) by (auto simp: custody_inv_def keys_live_def)
  have none: "db_tombstones db t = None"
    using reachable_tombstone_inv [OF assms(1)] assms(2) by (auto simp: tombstone_inv_def)
  have opens: "sealed_key e \<in> set (audit_openers keys)" if "(k, e) \<in> set (db_audit db t)" for k e
  proof -
    have "kept db t (sealed_key e)" using reachable_audit_sealed [OF assms(1)] that by (simp add: audit_sealed_def)
    with none keys show ?thesis by (simp add: kept_def openers_same)
  qed
  have scan: "scan_partition (audit_openers keys) keep limit [] (filter P (db_audit db t)) =
      Ok (take limit (map audit_event (filter keep (map (sealed_value \<circ> snd) (filter P (db_audit db t))))))" for keep P
    by (subst scan_partition_exact) (auto intro: opens)
  show ?thesis
  proof (cases "aqc_after query")
    case None
    then show ?thesis using keys scan [of "selected db query" "\<lambda>_. True"]
      by (simp add: partition_read_def visible_def)
  next
    case (Some seq)
    let ?n = "audit_seq_get seq"
    show ?thesis
    proof (cases "checked_add ?n 1")
      case None
      then have "\<not> ?n < k" for k :: u64
        using u64_bound [of k] by (auto simp: checked_add_None_iff word_less_nat_alt)
      with Some None keys show ?thesis by (simp add: partition_read_def visible_def)
    next
      case (Some start)
      then have "start \<le> k \<longleftrightarrow> ?n < k" for k
        by (auto simp: checked_add_Some_iff word_less_nat_alt word_le_nat_alt)
      with Some \<open>aqc_after query = Some seq\<close> keys show ?thesis
        by (simp add: partition_read_def visible_def scan)
    qed
  qed
qed


lemma visible_seqs:
  assumes "audit_inv db"
  shows "sorted (map (\<lambda>event. audit_seq_get (ar_seq (ev_record event))) (visible db query t))"
    and "event \<in> set (visible db query t) \<Longrightarrow>
      \<exists>e. (audit_seq_get (ar_seq (ev_record event)), e) \<in> set (db_audit db t) \<and> event = audit_event (sealed_value e)"
proof -
  have seq: "aer_seq (sealed_value e) = AuditSeq k" if "(k, e) \<in> set (db_audit db t)" for k e
    using assms that unfolding audit_inv_def mirrors_def by blast
  have part: "sorted (map (\<lambda>event. audit_seq_get (ar_seq (ev_record event)))
      (map audit_event (filter keep (map (sealed_value \<circ> snd) part))))"
    if "sorted_wrt (<) (map fst part)" "set part \<subseteq> set (db_audit db t)" for part keep
    using that
  proof (induction part)
    case (Cons p part)
    have "fst p \<le> audit_seq_get (aer_seq (sealed_value (snd q)))" if "q \<in> set part" for q
    proof -
      have "aer_seq (sealed_value (snd q)) = AuditSeq (fst q)"
        using Cons.prems(2) that by (intro seq) auto
      moreover have "fst p < fst q" using Cons.prems(1) that by simp
      ultimately show ?thesis by simp
    qed
    moreover have "audit_seq_get (aer_seq (sealed_value (snd p))) = fst p"
      using Cons.prems seq [of "fst p" "snd p"] by auto
    ultimately show ?case using Cons by (auto simp: audit_event_def)
  qed simp
  have "sorted_wrt (<) (map fst (filter P (db_audit db t)))" for P
  proof -
    have "sorted_wrt (\<lambda>x y. fst x < fst y) (db_audit db t)"
      using assms by (simp add: audit_inv_def sorted_wrt_map)
    then have "sorted_wrt (\<lambda>x y. fst x < fst y) (filter P (db_audit db t))" by (rule sorted_wrt_filter)
    then show ?thesis by (simp add: sorted_wrt_map)
  qed
  then show "sorted (map (\<lambda>event. audit_seq_get (ar_seq (ev_record event))) (visible db query t))"
    unfolding visible_def by (rule part) auto
  show "event \<in> set (visible db query t) \<Longrightarrow>
      \<exists>e. (audit_seq_get (ar_seq (ev_record event)), e) \<in> set (db_audit db t) \<and> event = audit_event (sealed_value e)"
    using seq by (fastforce simp: visible_def audit_event_def)
qed

lemma visible_inj:
  assumes "audit_inv db"
  shows "inj_on (\<lambda>event. audit_seq_get (ar_seq (ev_record event))) (set (concat (map (visible db query) ts)))"
proof (rule inj_onI)
  fix x y
  assume x: "x \<in> set (concat (map (visible db query) ts))" and y: "y \<in> set (concat (map (visible db query) ts))"
    and eq: "audit_seq_get (ar_seq (ev_record x)) = audit_seq_get (ar_seq (ev_record y))"
  let ?k = "audit_seq_get (ar_seq (ev_record y))"
  from x eq obtain t e where e: "(?k, e) \<in> set (db_audit db t)" "x = audit_event (sealed_value e)"
    using visible_seqs(2) [OF assms, of x] by auto metis
  from y obtain u f where f: "(?k, f) \<in> set (db_audit db u)" "y = audit_event (sealed_value f)"
    using visible_seqs(2) [OF assms, of y] by auto metis
  obtain stub where "(?k, stub) \<in> set (db_audit_stub db)" using assms e(1) unfolding audit_inv_def by blast
  from audit_entry_of [OF assms this] e(1) f(1) have "t = u" by blast
  moreover have "distinct (map fst (db_audit db t))"
    using assms by (auto simp: audit_inv_def strict_sorted_iff)
  ultimately have "e = f" using e(1) f(1) by (metis eq_key_imp_eq_value)
  with e f show "x = y" by simp
qed

text \<open>Tenant records are stored under their own id.\<close>

definition tenants_from :: "Db \<Rightarrow> Db \<Rightarrow> bool" where
  "tenants_from db db' \<longleftrightarrow> (\<forall>t r. db_tenants db' t = Some r \<longrightarrow> db_tenants db t = Some r \<or> tr_id r = t)"

lemma store_step_tenants:
  assumes "store_step db db'"
  shows "tenants_from db db'"
proof -
  have same: "tenants_from db x" if "db_tenants x = db_tenants db" for x using that by (simp add: tenants_from_def)
  note tx = end_tx_inv [where P = "tenants_from db", OF same [OF refl]]
  have keep: "tenants_from db x" if "keeps_custody db x" for x using that by (simp add: same keeps_custody_def)
  have tr: "tenants_from db (fst (transition env i step boundary f db))" if "frames_stage f" for env i step boundary f
    unfolding transition_def by (rule tx) (use transition_directory [OF that] in \<open>blast intro: same\<close>)
  from assms show ?thesis
  proof cases
    case (audit_step env entry)
    then show ?thesis unfolding record_audit_def Let_def
      by (simp only:) (rule tx, rule keep, auto intro: append_audit_keeps simp: rbind_Ok_iff)
  next
    case (register_step env reg)
    then show ?thesis unfolding register_tenant_def
      by (simp only:) (rule tx, auto simp: tenants_from_def register_tenant_tx_def case_option_eq_iff result_iffs)
  next
    case (root_step env root)
    then show ?thesis unfolding install_root_grant_def
      by (simp only:) (rule tx, rule keep [OF directory_keeps(1)])
  next
    case (shred_step sessions scan env tenant)
    then show ?thesis unfolding shred_tenant_def
      by (simp only:) (rule tx, auto simp: tenants_from_def shred_tenant_tx_def Let_def result_iffs split: if_splits)
  next
    case (session_step env new parent)
    then show ?thesis unfolding open_session_def
      by (simp only:) (rule tx, auto simp: tenants_from_def open_session_tx_def Let_def rbind_Ok_iff case_option_eq_iff
          if_eq_iff ensure_Ok_iff elim!: append_audit_frame)
  qed (simp_all add: dispatch_def complete_transfer_def publish_def settle_invocation_def
      release_invocation_def mark_unknown_effect_def tr frames_stages begin_invocation_def
      tx [OF same [OF begin_directory [THEN conjunct1]]]
      issue_grant_def tx [OF keep [OF directory_keeps(2)]] revoke_grant_def tx [OF keep [OF directory_keeps(3)]]
      claim_key_def tx [OF keep [OF directory_keeps(4)]])
qed

lemma reachable_tenant_id: "store_reachable db \<Longrightarrow> db_tenants db t = Some r \<Longrightarrow> tr_id r = t"
proof -
  assume "store_reachable db"
  then have "\<forall>t r. db_tenants db t = Some r \<longrightarrow> tr_id r = t"
    by (rule reachable_invariant) (simp add: empty_db_def, meson store_step_tenants tenants_from_def)
  then show "db_tenants db t = Some r \<Longrightarrow> tr_id r = t" by blast
qed

lemma audit_query_exact:
  assumes "store_reachable db" and "\<And>t. t \<in> set tenants \<Longrightarrow> db_tenants db t \<noteq> None"
  shows "store_audit_query db tenants query = Ok (audit_answer db tenants query)"
proof -
  have inv: "audit_inv db" using assms(1) by (rule reachable_audit_inv)
  have ids: "tenant_ids db tenants = tenants"
    using assms(2) reachable_tenant_id [OF assms(1)] by (induction tenants) (fastforce simp: tenant_ids_def map_filter_def)+
  have "collect_results (\<lambda>t. partition_read db t (aqc_after query) (unat (aqc_limit query)) (selected db query)) tenants =
      Ok (map (\<lambda>t. take (unat (aqc_limit query)) (visible db query t)) tenants)"
    using partition_read_exact [OF assms(1)] assms(2) by (induction tenants) auto
  then show ?thesis
    using take_sort_concat [of "map (visible db query) tenants" "\<lambda>event. audit_seq_get (ar_seq (ev_record event))" "[]"
        "unat (aqc_limit query)"] visible_inj [OF inv, of query tenants] visible_seqs(1) [OF inv]
    by (auto simp: store_audit_query_def ids audit_answer_def comp_def)
qed

end
