(* ===== verification/Orchestrator.thy ===== *)
theory Orchestrator
  imports Retrieval
begin

text \<open>
  The invocation orchestrator (\<^verbatim>\<open>crates/dioptron/src/orchestrator/mod.rs\<close>, \<^verbatim>\<open>limits.rs\<close>,
  \<^verbatim>\<open>capture.rs\<close>, and the data of \<^verbatim>\<open>producer.rs\<close>): the facts of a call, the checks every handler
  shares, the limits a capture declares, and the capture lifecycle around one producer call.

  Request tasks interleave at their store calls.  A handler therefore runs against a sequence of
  moments \<open>ms\<close>: at each of its store calls, clock reads and flag checks it takes the next moment, which
  carries the environment of that instant, the random bytes it may draw, whether the deadline has
  passed or the caller cancelled, and what the other tasks did since the previous moment.  A handler
  maps the shared state to the shared state afterwards and its reply.  The producer is a parameter
  that says how the call ended; joining a panicked task is not modelled.
\<close>

section \<open>Definitions\<close>

subsection \<open>Shared state, moments and tasks\<close>

datatype Error =
    StoreFault StoreError
  | ViewFault ViewError
  | AuthzFault AuthzError
  | EncodeFault WireError
  | RandomSource

record Running =
  run_chain :: "GrantId list"
  run_cancelled :: bool

record Inner =
  in_store :: Db
  in_running :: "InvocationId \<Rightarrow> Running option"

record Moment =
  m_env :: Env
  m_random :: "u8 list option"
  m_past_deadline :: bool
  m_cancelled :: bool
  m_elapsed :: u64
  m_others :: "Inner \<Rightarrow> Inner"

type_synonym 'a task = "Inner \<Rightarrow> Inner \<times> ('a, Error) result"

definition treturn :: "'a \<Rightarrow> 'a task" where
  "treturn x s = (s, Ok x)"

definition tbind :: "'a task \<Rightarrow> ('a \<Rightarrow> 'b task) \<Rightarrow> 'b task" where
  "tbind t k s = (case t s of (s1, r) \<Rightarrow> (case r of Err e \<Rightarrow> (s1, Err e) | Ok x \<Rightarrow> k x s1))"

text \<open>A store operation and a read over a fresh snapshot, each at one moment.\<close>

definition at_store :: "Moment \<Rightarrow> (Env \<Rightarrow> Db \<Rightarrow> Db \<times> ('a, StoreError) result) \<Rightarrow> 'a task" where
  "at_store m op s =
     (let s1 = m_others m s in
      case op (m_env m) (in_store s1) of (db, r) \<Rightarrow> (s1\<lparr>in_store := db\<rparr>, map_err StoreFault r))"

definition at_read :: "Moment \<Rightarrow> (Env \<Rightarrow> Db \<Rightarrow> ('a, Error) result) \<Rightarrow> 'a task" where
  "at_read m f s = (let s1 = m_others m s in (s1, f (m_env m) (in_store s1)))"

definition lift_result :: "('a, Error) result \<Rightarrow> 'a task" where
  "lift_result r s = (s, r)"

subsection \<open>Replies and calls\<close>

record Reply =
  reply_invocation :: "InvocationId option"
  reply_body :: ResponseBody

definition reply_failed :: "Failure \<Rightarrow> Reply" where
  "reply_failed failure = \<lparr>reply_invocation = None, reply_body = Failed failure\<rparr>"

definition reply_of :: "InvocationId \<Rightarrow> ResponseBody \<Rightarrow> Reply" where
  "reply_of i body = \<lparr>reply_invocation = Some i, reply_body = body\<rparr>"

definition reply_plan :: "Plan \<Rightarrow> Reply" where
  "reply_plan plan = \<lparr>reply_invocation = None, reply_body = ResponseBody.Plan plan\<rparr>"

definition internal :: "Error \<Rightarrow> Reply" where
  "internal e = reply_failed Failure.UnknownEffect"

record ConnIdentity =
  conn_tenant :: TenantId
  conn_uid :: u32
  conn_pid :: "int option"
  conn_version :: u16
  conn_max_frame :: u32

record Call =
  call_tenant :: TenantId
  call_grant :: GrantId
  call_key :: "IdempotencyKey option"
  call_digest :: "u8 list"
  call_deadline_ms :: u32
  call_max_frame :: u32

definition MAX_DEADLINE_MS :: u32 where "MAX_DEADLINE_MS = 120000"

definition FRAME_OVERHEAD :: u32 where "FRAME_OVERHEAD = 1024"

definition request_digest :: "RequestMsg Message \<Rightarrow> (u8 list \<Rightarrow> u8 list) \<Rightarrow> RequestMsg \<Rightarrow> (u8 list, Error) result" where
  "request_digest codec sha256 request =
     (let normalized = \<lparr>request_id = 0, req_grant = req_grant request, idempotency_key = idempotency_key request,
           req_mode = req_mode request, deadline_ms = 0, req_body = req_body request\<rparr> in
      rbind (map_err EncodeFault (encode codec normalized)) (\<lambda>encoded.
        Ok (sha256 (bytes_of ''dioptron-request-v1'' @ encoded))))"

definition call_new :: "RequestMsg Message \<Rightarrow> (u8 list \<Rightarrow> u8 list) \<Rightarrow> ConnIdentity \<Rightarrow> RequestMsg \<Rightarrow> (Call, Error) result" where
  "call_new codec sha256 conn request =
     rbind (request_digest codec sha256 request) (\<lambda>digest.
       Ok \<lparr>call_tenant = conn_tenant conn, call_grant = req_grant request, call_key = idempotency_key request,
           call_digest = digest, call_deadline_ms = min (deadline_ms request) MAX_DEADLINE_MS,
           call_max_frame = conn_max_frame conn\<rparr>)"

definition payload_budget :: "Call \<Rightarrow> u32" where
  "payload_budget call = saturating_sub (call_max_frame call) FRAME_OVERHEAD"

definition authz_of :: "Call \<Rightarrow> Capability \<Rightarrow> string option \<Rightarrow> SessionId option \<Rightarrow> Cost \<Rightarrow> AuthzRequest" where
  "authz_of call capability target session declared =
     \<lparr>az_tenant = call_tenant call, az_grant = call_grant call, az_capability = capability,
      az_target = target, az_session = session, az_declared = declared\<rparr>"

subsection \<open>Identifiers\<close>

definition fresh_id :: "Timestamp \<Rightarrow> u8 list \<Rightarrow> u8 list" where
  "fresh_id now random =
     (let millis = (if now < 0 then 0 else of_int now :: u64) in drop 2 (to_be_bytes 8 millis) @ random)"

definition fresh_invocation :: "Moment \<Rightarrow> (InvocationId, Error) result" where
  "fresh_invocation m =
     rbind (ok_or (m_random m) RandomSource) (\<lambda>random.
       Ok (InvocationId (id_from_bytes (fresh_id (env_now (m_env m)) random))))"

subsection \<open>Checks shared by the handlers\<close>

definition decide :: "AuthzRequest \<Rightarrow> Env \<Rightarrow> Db \<Rightarrow> (Plan, Error) result" where
  "decide authz env db = map_err StoreFault (store_plan env authz db)"

definition deny :: "Moment \<Rightarrow> Call \<Rightarrow> Capability \<Rightarrow> SessionId option \<Rightarrow> Failure \<Rightarrow> Reply task" where
  "deny m call capability session failure =
     tbind (lift_result (fresh_invocation m)) (\<lambda>invocation.
     tbind (at_store m (\<lambda>env. record_audit env
       \<lparr>an_tenant = call_tenant call, an_invocation = invocation, an_capability = capability,
        an_session = session, an_outcome = AuditRefused failure, an_grant = Some (call_grant call),
        an_audit_scope = None\<rparr>)) (\<lambda>_.
     treturn (reply_failed failure)))"

definition replay_refusal :: "Call \<Rightarrow> Capability \<Rightarrow> Env \<Rightarrow> Db \<Rightarrow> (Failure option, Error) result" where
  "replay_refusal call capability env db =
     rbind (map_err AuthzFault
       (designated_chain (store_view db) (call_tenant call) (call_grant call) capability (env_now env))) (\<lambda>decided.
     Ok (case decided of
         Ok _ \<Rightarrow> None
       | Err refusal \<Rightarrow> Some (case decision_refusal refusal of
             Some failure \<Rightarrow> failure | None \<Rightarrow> Failure.NotFoundOrDenied)))"

definition chain_refusal :: "GrantId \<Rightarrow> Env \<Rightarrow> Db \<Rightarrow> (DenyCode option, Error) result" where
  "chain_refusal grant env db =
     rbind (map_err ViewFault (view_grant (store_view db) grant)) (\<lambda>found.
     (case found of
        None \<Rightarrow> Ok (Some DenyCode.GrantRevoked)
      | Some leaf \<Rightarrow>
          rbind (map_err AuthzFault (check_chain (store_view db) leaf (env_now env))) (\<lambda>status.
          Ok (case status of Valid _ \<Rightarrow> None | Invalid code _ \<Rightarrow> Some code))))"

subsection \<open>The running set\<close>

definition register :: "InvocationId \<Rightarrow> GrantId list \<Rightarrow> Inner \<Rightarrow> Inner" where
  "register i chain s =
     s\<lparr>in_running := (in_running s)(i := Some \<lparr>run_chain = chain, run_cancelled = False\<rparr>)\<rparr>"

definition deregister :: "InvocationId \<Rightarrow> Inner \<Rightarrow> Inner" where
  "deregister i s = s\<lparr>in_running := (in_running s)(i := None)\<rparr>"

definition cancel_revoked :: "GrantId \<Rightarrow> Inner \<Rightarrow> Inner" where
  "cancel_revoked revoked s =
     s\<lparr>in_running := (\<lambda>i. map_option (\<lambda>running.
         if revoked \<in> set (run_chain running) then running\<lparr>run_cancelled := True\<rparr> else running)
       (in_running s i))\<rparr>"

subsection \<open>Capture limits\<close>

definition max_transfer_cap :: u64 where
  "max_transfer_cap = len_u64 MAX_PLAINTEXT_LEN"

definition capture_cost :: "CaptureLimits \<Rightarrow> u32 \<Rightarrow> Cost" where
  "capture_cost limits deadline =
     \<lparr>wall_time_ms = ucast deadline, fetches = 1,
      bytes_transferred = (case max_transfer_bytes limits of Some n \<Rightarrow> n | None \<Rightarrow> 0),
      output_bytes = (case max_output_bytes limits of Some n \<Rightarrow> n | None \<Rightarrow> 0),
      tokens = 0, ops_band = 0\<rparr>"

definition declared_limit :: "u64 option \<Rightarrow> u64 option \<Rightarrow> u64 \<Rightarrow> u64" where
  "declared_limit requested remaining cap =
     min (case requested of Some n \<Rightarrow> n | None \<Rightarrow> (case remaining of Some n \<Rightarrow> n | None \<Rightarrow> cap)) cap"

definition call_remaining :: "Call \<Rightarrow> SessionId \<Rightarrow> Env \<Rightarrow> Db \<Rightarrow> (Ceilings, Error) result" where
  "call_remaining call session env db =
     rbind (map_err AuthzFault (designated_chain (store_view db) (call_tenant call) (call_grant call)
       Capability.Capture (env_now env))) (\<lambda>decided.
     (case decided of
        Err _ \<Rightarrow> Ok ceilings_default
      | Ok chain \<Rightarrow> map_err AuthzFault
          (caller_remaining (store_view db) (call_tenant call) chain (Some session))))"

definition capture_limits :: "Call \<Rightarrow> SessionId \<Rightarrow> CaptureLimits \<Rightarrow> Env \<Rightarrow> Db \<Rightarrow> (CaptureLimits, Error) result" where
  "capture_limits call session requested env db =
     rbind (call_remaining call session env db) (\<lambda>remaining. Ok
       \<lparr>max_output_bytes = Some (declared_limit (max_output_bytes requested)
          (ceiling_output_bytes remaining) (ucast (payload_budget call))),
        max_transfer_bytes = Some (declared_limit (max_transfer_bytes requested)
          (ceiling_bytes_transferred remaining) max_transfer_cap)\<rparr>)"

subsection \<open>Producers\<close>

record AcquireRequest =
  acq_invocation :: InvocationId
  acq_target :: string
  acq_limits :: CaptureLimits
  acq_egress_policy :: "EgressPolicy option"

record ProducerOutput =
  po_envelope :: "u8 list"
  po_schema_id :: string
  po_producer_revision :: string
  po_fingerprint :: string
  po_text_view :: "string option"

definition po_source :: "ProducerOutput \<Rightarrow> SourceRef" where
  "po_source output = \<lparr>fingerprint = po_fingerprint output, schema_id = po_schema_id output,
     producer_revision = po_producer_revision output\<rparr>"

datatype ProducerError =
    Unavailable bool
  | Transfer TransferClass
  | Extraction ExtractionClass
  | Cancelled bool

primrec effect_started :: "ProducerError \<Rightarrow> bool" where
  "effect_started (Unavailable contacted) = contacted"
| "effect_started (ProducerError.Transfer c) = True"
| "effect_started (Extraction c) = True"
| "effect_started (ProducerError.Cancelled started) = started"

datatype Produced = Output ProducerOutput | Error ProducerError | Abandoned

definition unavailable_producer :: "AcquireRequest \<Rightarrow> Produced" where
  "unavailable_producer request = Produced.Error (Unavailable False)"


subsection \<open>Capture: small parts\<close>

fun chain_stop :: "DenyCode \<Rightarrow> ReleaseReason" where
  "chain_stop GrantExpired = Expired"
| "chain_stop _ = Revoked"

definition spent :: "u64 \<Rightarrow> u64 \<Rightarrow> Cost" where
  "spent elapsed transferred =
     \<lparr>wall_time_ms = elapsed, fetches = 1, bytes_transferred = transferred, output_bytes = 0, tokens = 0, ops_band = 0\<rparr>"

definition source_len :: "SourceRef \<Rightarrow> u64" where
  "source_len source =
     saturating_add (saturating_add (len_u64 (length (fingerprint source))) (len_u64 (length (schema_id source))))
       (len_u64 (length (producer_revision source)))"

text \<open>\<open>str::is_char_boundary\<close>: an index that is not inside an encoded character.\<close>

definition is_char_boundary :: "string \<Rightarrow> nat \<Rightarrow> bool" where
  "is_char_boundary text index \<longleftrightarrow>
     index = 0 \<or> index = length text \<or>
     (index < length text \<and> (let b = of_char (text ! index) :: nat in b < 128 \<or> 192 \<le> b))"

definition cut_text :: "string option \<Rightarrow> u64 \<Rightarrow> string option \<times> bool" where
  "cut_text text max_len =
     (case text of
        None \<Rightarrow> (None, False)
      | Some t \<Rightarrow>
          if length t \<le> unat max_len then (Some t, False)
          else (let stop = (case find (is_char_boundary t) (rev [0..<Suc (unat max_len)]) of
                    Some index \<Rightarrow> index | None \<Rightarrow> 0) in
                (Some (take stop t), True)))"

definition captured :: "InvocationStatus \<Rightarrow> Db \<Rightarrow> (CaptureOutcome option, Error) result" where
  "captured status db =
     (case st_artifact status of
        None \<Rightarrow> Ok None
      | Some a \<Rightarrow> rbind (map_err StoreFault (artifact db a)) (\<lambda>found. Ok (map_option (\<lambda>info.
          \<lparr>out_artifact_ref = ai_artifact info, out_source = ai_source info, out_text_view = ai_text_view info,
           out_truncated = ai_truncated info, out_output_bytes = ai_output_bytes info,
           out_revoked_after_effect = ai_revoked_after_effect info\<rparr>) found)))"

definition replay_reply :: "InvocationStatus \<Rightarrow> Db \<Rightarrow> (Reply, Error) result" where
  "replay_reply status db =
     rbind (case st_terminal status of
         None \<Rightarrow> Ok ResponseBody.InProgress
       | Some (Terminal.Settled None) \<Rightarrow>
           rbind (captured status db) (\<lambda>found. Ok
             (case found of Some outcome \<Rightarrow> Captured outcome | None \<Rightarrow> Failed Failure.UnknownEffect))
       | Some terminal \<Rightarrow> Ok (Failed (case reply_failure terminal of
             Some failure \<Rightarrow> failure | None \<Rightarrow> Failure.UnknownEffect))) (\<lambda>body.
     Ok (reply_of (st_id status) body))"

subsection \<open>Capture: the steps\<close>

datatype Started = StartedPersisted InvocationStatus CaptureLimits | Answered Reply

definition replay_capture :: "Moment \<Rightarrow> Moment \<Rightarrow> Call \<Rightarrow> InvocationStatus \<Rightarrow> Reply task" where
  "replay_capture m1 m2 call status =
     tbind (at_read m1 (replay_refusal call Capability.Capture)) (\<lambda>refused.
     (case refused of
        Some failure \<Rightarrow> deny m2 call Capability.Capture None failure
      | None \<Rightarrow> at_read m2 (\<lambda>_. replay_reply status)))"

definition begin_capture :: "(nat \<Rightarrow> Moment) \<Rightarrow> Call \<Rightarrow> CaptureRequest \<Rightarrow> Started task" where
  "begin_capture ms call capture =
     (case call_key call of
        None \<Rightarrow> treturn (Answered (reply_failed Failure.ProtocolError))
      | Some key \<Rightarrow>
          tbind (at_read (ms 0) (capture_limits call (cap_session capture) (cap_limits capture))) (\<lambda>limits.
          tbind (lift_result (fresh_invocation (ms 1))) (\<lambda>invocation.
          let intent = \<lparr>int_invocation = invocation,
                int_authz = authz_of call Capability.Capture (Some (cap_target capture)) (Some (cap_session capture))
                  (capture_cost limits (call_deadline_ms call)),
                int_idempotency_key = key, int_request_digest = call_digest call\<rparr> in
          tbind (at_store (ms 2) (\<lambda>env. begin_invocation env intent)) (\<lambda>begun.
          (case begun of
             Persisted status \<Rightarrow> treturn (StartedPersisted status limits)
           | Replayed status \<Rightarrow> tbind (replay_capture (ms 3) (ms 4) call status) (\<lambda>reply. treturn (Answered reply))
           | BeginConflict \<Rightarrow> treturn (Answered (reply_failed Failure.IdempotencyConflict))
           | Refused failure _ \<Rightarrow> treturn (Answered (reply_failed failure)))))))"

definition pre_dispatch :: "GrantId \<Rightarrow> bool \<Rightarrow> bool \<Rightarrow> Env \<Rightarrow> Db \<Rightarrow> (ReleaseReason option, Error) result" where
  "pre_dispatch grant cancelled past_deadline env db =
     rbind (chain_refusal grant env db) (\<lambda>refused. Ok
       (case refused of
          Some code \<Rightarrow> Some (chain_stop code)
        | None \<Rightarrow>
            if cancelled then Some ReleaseReason.Cancelled
            else if past_deadline then Some ReleaseReason.DeadlineExceeded
            else None))"

definition stop_reason :: "GrantId \<Rightarrow> bool \<Rightarrow> Env \<Rightarrow> Db \<Rightarrow> (ReleaseReason, Error) result" where
  "stop_reason grant past_deadline env db =
     rbind (chain_refusal grant env db) (\<lambda>refused. Ok
       (case refused of
          Some code \<Rightarrow> chain_stop code
        | None \<Rightarrow> if past_deadline then ReleaseReason.DeadlineExceeded else ReleaseReason.Cancelled))"

definition release_call :: "Moment \<Rightarrow> InvocationId \<Rightarrow> ReleaseReason \<Rightarrow> Reply task" where
  "release_call m i reason =
     tbind (at_store m (\<lambda>env. release_invocation env i reason)) (\<lambda>status.
       let terminal = (case st_terminal status of Some t \<Rightarrow> t | None \<Rightarrow> Terminal.Released reason) in
       treturn (reply_of i (Failed (case reply_failure terminal of
         Some failure \<Rightarrow> failure | None \<Rightarrow> Failure.Cancelled))))"

definition settle_failed :: "Moment \<Rightarrow> InvocationId \<Rightarrow> Failure \<Rightarrow> Cost \<Rightarrow> Reply task" where
  "settle_failed m i failure actual =
     tbind (at_store m (\<lambda>env. settle_invocation env i (SettleFailed failure actual))) (\<lambda>_.
       treturn (reply_of i (Failed failure)))"

definition unknown_call :: "Moment \<Rightarrow> InvocationId \<Rightarrow> Reply task" where
  "unknown_call m i =
     tbind (at_store m (\<lambda>env. mark_unknown_effect env i)) (\<lambda>_.
       treturn (reply_of i (Failed Failure.UnknownEffect)))"

definition transfer_of :: "Call \<Rightarrow> CaptureLimits \<Rightarrow> ProducerOutput \<Rightarrow> u64 \<Rightarrow> bool \<Rightarrow> Transfer" where
  "transfer_of call limits output elapsed revoked_after_effect =
     (let source = po_source output;
          frame_room = saturating_sub (ucast (payload_budget call)) (source_len source);
          output_cap = min (case max_output_bytes limits of Some n \<Rightarrow> n | None \<Rightarrow> 0) frame_room;
          (text_view, truncated) = cut_text (po_text_view output) output_cap;
          out_bytes = (case text_view of Some text \<Rightarrow> len_u64 (length text) | None \<Rightarrow> 0);
          actual = (spent elapsed (len_u64 (length (po_envelope output))))\<lparr>output_bytes := out_bytes\<rparr> in
      \<lparr>tf_envelope = po_envelope output, tf_source = source, tf_text_view = text_view, tf_truncated = truncated,
       tf_output_bytes = out_bytes, tf_actual = actual, tf_revoked_after_effect = revoked_after_effect\<rparr>)"

definition outcome_of :: "InvocationId \<Rightarrow> Transfer \<Rightarrow> CaptureOutcome" where
  "outcome_of i transfer =
     \<lparr>out_artifact_ref = artifact_ref i, out_source = tf_source transfer, out_text_view = tf_text_view transfer,
      out_truncated = tf_truncated transfer, out_output_bytes = tf_output_bytes transfer,
      out_revoked_after_effect = tf_revoked_after_effect transfer\<rparr>"

definition publish_output :: "(nat \<Rightarrow> Moment) \<Rightarrow> Call \<Rightarrow> CaptureLimits \<Rightarrow> InvocationId \<Rightarrow> ProducerOutput \<Rightarrow> u64 \<Rightarrow>
    Reply task" where
  "publish_output ms call limits i output elapsed =
     tbind (at_read (ms 8) (chain_refusal (call_grant call))) (\<lambda>refused.
     let transfer = transfer_of call limits output elapsed (refused \<noteq> None) in
     tbind (at_store (ms 9) (\<lambda>env. complete_transfer env i transfer)) (\<lambda>_.
     tbind (at_store (ms 10) (\<lambda>env. publish env i)) (\<lambda>_.
     tbind (at_store (ms 11) (\<lambda>env. settle_invocation env i SettleSuccess)) (\<lambda>_.
     treturn (reply_of i (Captured (outcome_of i transfer)))))))"

definition finish :: "(nat \<Rightarrow> Moment) \<Rightarrow> Call \<Rightarrow> CaptureLimits \<Rightarrow> InvocationId \<Rightarrow> ProducerOutput \<Rightarrow> u64 \<Rightarrow> Reply task" where
  "finish ms call limits i output elapsed =
     (if (case max_transfer_bytes limits of Some n \<Rightarrow> n | None \<Rightarrow> 0) < len_u64 (length (po_envelope output))
      then settle_failed (ms 8) i (Failure.TransferFailed TransferClass.TooLarge) (spent elapsed 0)
      else publish_output ms call limits i output elapsed)"

definition fail :: "(nat \<Rightarrow> Moment) \<Rightarrow> GrantId \<Rightarrow> InvocationId \<Rightarrow> ProducerError \<Rightarrow> u64 \<Rightarrow> Reply task" where
  "fail ms grant i e elapsed =
     (case e of
        Unavailable False \<Rightarrow> release_call (ms 8) i ReleaseReason.ProducerUnavailable
      | ProducerError.Cancelled False \<Rightarrow>
          tbind (at_read (ms 8) (stop_reason grant (m_past_deadline (ms 8)))) (\<lambda>stop.
            release_call (ms 9) i stop)
      | ProducerError.Transfer c \<Rightarrow> settle_failed (ms 8) i (Failure.TransferFailed c) (spent elapsed 0)
      | Extraction c \<Rightarrow> settle_failed (ms 8) i (Failure.ExtractionFailed c) (spent elapsed 0)
      | Unavailable True \<Rightarrow> unknown_call (ms 8) i
      | ProducerError.Cancelled True \<Rightarrow>
          settle_failed (ms 8) i
            (if m_past_deadline (ms 8) then Failure.DeadlineExceeded else Failure.Cancelled) (spent elapsed 0))"

definition run_invocation :: "(nat \<Rightarrow> Moment) \<Rightarrow> (AcquireRequest \<Rightarrow> Produced) \<Rightarrow> Call \<Rightarrow> CaptureRequest \<Rightarrow>
    CaptureLimits \<Rightarrow> InvocationId \<Rightarrow> Reply task" where
  "run_invocation ms produce call capture limits i =
     tbind (at_read (ms 5) (pre_dispatch (call_grant call) (m_cancelled (ms 5)) (m_past_deadline (ms 5)))) (\<lambda>stop.
     (case stop of
        Some reason \<Rightarrow> release_call (ms 6) i reason
      | None \<Rightarrow>
          tbind (at_store (ms 6) (\<lambda>env. dispatch env i)) (\<lambda>_.
          let request = \<lparr>acq_invocation = i, acq_target = cap_target capture, acq_limits = limits,
                acq_egress_policy = cap_egress_policy capture\<rparr>;
              elapsed = m_elapsed (ms 7) in
          (case produce request of
             Output output \<Rightarrow> finish ms call limits i output elapsed
           | Produced.Error e \<Rightarrow> fail ms (call_grant call) i e elapsed
           | Produced.Abandoned \<Rightarrow> unknown_call (ms 8) i))))"

definition after_error :: "(nat \<Rightarrow> Moment) \<Rightarrow> InvocationId \<Rightarrow> Reply task" where
  "after_error ms i =
     tbind (at_read (ms 12) (\<lambda>_ db. Ok (invocation db i))) (\<lambda>found.
     (case found of
        None \<Rightarrow> treturn (reply_failed Failure.UnknownEffect)
      | Some status \<Rightarrow>
          tbind (case st_state status of
              IntentPersisted \<Rightarrow> at_store (ms 13) (\<lambda>env. release_invocation env i ReleaseReason.Abandoned)
            | Dispatched \<Rightarrow> at_store (ms 13) (\<lambda>env. mark_unknown_effect env i)
            | _ \<Rightarrow> treturn status) (\<lambda>status.
          (case st_terminal status of
             Some _ \<Rightarrow> at_read (ms 14) (\<lambda>_. replay_reply status)
           | None \<Rightarrow> treturn (reply_of i (Failed Failure.UnknownEffect))))))"

definition settled_reply :: "Reply task \<Rightarrow> Inner \<Rightarrow> Inner \<times> Reply" where
  "settled_reply t s = (case t s of (s1, Ok reply) \<Rightarrow> (s1, reply) | (s1, Err e) \<Rightarrow> (s1, internal e))"

definition capture_call :: "(nat \<Rightarrow> Moment) \<Rightarrow> (AcquireRequest \<Rightarrow> Produced) \<Rightarrow> Call \<Rightarrow> CaptureRequest \<Rightarrow>
    Inner \<Rightarrow> Inner \<times> Reply" where
  "capture_call ms produce call capture s =
     (case begin_capture ms call capture s of
        (s1, Err e) \<Rightarrow> (s1, internal e)
      | (s1, Ok (Answered reply)) \<Rightarrow> (s1, reply)
      | (s1, Ok (StartedPersisted status limits)) \<Rightarrow>
          (let i = st_id status in
           case run_invocation ms produce call capture limits i (register i (st_grant_chain status) s1) of
             (s2, Ok reply) \<Rightarrow> (deregister i s2, reply)
           | (s2, Err e) \<Rightarrow> settled_reply (after_error ms i) (deregister i s2)))"

end
