(* ===== verification/Calls.thy ===== *)
theory Calls
  imports Orchestrator
begin

text \<open>
  The executed calls other than capture, the dry run and the request entry point
  (\<^verbatim>\<open>crates/dioptron/src/orchestrator/directory.rs\<close>, \<^verbatim>\<open>reads.rs\<close>, \<^verbatim>\<open>plan.rs\<close> and \<open>execute\<close>, \<open>handle\<close> and
  \<open>dispatch\<close> of \<^verbatim>\<open>mod.rs\<close>), over the moments of the orchestrator theory.  The scans of the store
  appear as the record \<open>Scans\<close>: candidate artifacts in id order and tenants in key order.
\<close>

section \<open>Definitions\<close>

subsection \<open>Idempotency keys\<close>

datatype Prior = Unbound | PriorReplay InvocationId

definition claim_of :: "Call \<Rightarrow> Capability \<Rightarrow> IdempotencyKey \<Rightarrow> InvocationId \<Rightarrow> IdemClaim" where
  "claim_of call capability key i =
     \<lparr>cl_tenant = call_tenant call, cl_grant = call_grant call, cl_capability = capability, cl_key = key,
      cl_request_digest = call_digest call, cl_invocation = i\<rparr>"

definition prior :: "Call \<Rightarrow> Capability \<Rightarrow> IdempotencyKey \<Rightarrow> Env \<Rightarrow> Db \<Rightarrow> ((Prior, Reply) result, Error) result" where
  "prior call capability key env db =
     rbind (map_err StoreFault (claimed env (claim_of call capability key (InvocationId 0)) db)) (\<lambda>found. Ok
       (case found of
          None \<Rightarrow> Ok Unbound
        | Some (ClaimReplay i) \<Rightarrow> Ok (PriorReplay i)
        | Some _ \<Rightarrow> Err (reply_failed Failure.IdempotencyConflict)))"

definition bind_key :: "Moment \<Rightarrow> Call \<Rightarrow> Capability \<Rightarrow> IdempotencyKey \<Rightarrow> (InvocationId, Reply) result task" where
  "bind_key m call capability key =
     tbind (lift_result (fresh_invocation m)) (\<lambda>i.
     tbind (at_store m (\<lambda>env. claim_key env (claim_of call capability key i))) (\<lambda>outcome.
     treturn (case outcome of
         ClaimFresh j \<Rightarrow> Ok j
       | ClaimReplay j \<Rightarrow> Ok j
       | ClaimConflict \<Rightarrow> Err (reply_failed Failure.IdempotencyConflict))))"

subsection \<open>Sessions\<close>

primrec session_of :: "InvocationId \<Rightarrow> SessionId" where
  "session_of (InvocationId v) = SessionId v"

primrec grant_of :: "InvocationId \<Rightarrow> GrantId" where
  "grant_of (InvocationId v) = GrantId v"

definition stored_session :: "Call \<Rightarrow> InvocationId \<Rightarrow> SessionId option \<Rightarrow> Env \<Rightarrow> Db \<Rightarrow> (Reply option, Error) result" where
  "stored_session call i parent env db =
     rbind (map_err ViewFault (view_session_owner (store_view db) (session_of i))) (\<lambda>owner. Ok
       (if owner = Some (call_tenant call)
        then Some (reply_of i (ResponseBody.SessionOpened
          \<lparr>opened_session = session_of i, opened_owner = call_tenant call, opened_parent_session = parent\<rparr>))
        else None))"

definition open_fresh :: "(nat \<Rightarrow> Moment) \<Rightarrow> Call \<Rightarrow> Capability \<Rightarrow> IdempotencyKey \<Rightarrow> SessionId option \<Rightarrow> Reply task" where
  "open_fresh ms call capability key parent =
     tbind (at_read (ms 3) (decide (authz_of call capability None parent cost_default))) (\<lambda>plan.
     (case plan_refusal plan of
        Some failure \<Rightarrow> deny (ms 4) call capability parent failure
      | None \<Rightarrow>
          tbind (bind_key (ms 4) call capability key) (\<lambda>bound.
          (case bound of
             Err reply \<Rightarrow> treturn reply
           | Ok i \<Rightarrow>
               let new = \<lparr>ns_session = session_of i, ns_owner = call_tenant call, ns_ceilings = ceilings_default,
                     ns_invocation = i\<rparr> in
               tbind (case parent of
                   None \<Rightarrow> tbind (at_store (ms 5) (\<lambda>env. create_session env new)) (\<lambda>opened. treturn (Some opened))
                 | Some p \<Rightarrow> at_store (ms 5) (\<lambda>env. fork_session env new p)) (\<lambda>opened.
               treturn (case opened of
                   None \<Rightarrow> reply_failed Failure.NotFoundOrDenied
                 | Some session \<Rightarrow> reply_of i (ResponseBody.SessionOpened session)))))))"

definition open_session_call :: "(nat \<Rightarrow> Moment) \<Rightarrow> Call \<Rightarrow> SessionId option \<Rightarrow> Reply task" where
  "open_session_call ms call parent =
     (let capability = (if parent \<noteq> None then Capability.SessionFork else Capability.SessionCreate) in
      case call_key call of
        None \<Rightarrow> treturn (reply_failed Failure.ProtocolError)
      | Some key \<Rightarrow>
          tbind (at_read (ms 0) (prior call capability key)) (\<lambda>known.
          (case known of
             Err reply \<Rightarrow> treturn reply
           | Ok (PriorReplay i) \<Rightarrow>
               tbind (at_read (ms 1) (replay_refusal call capability)) (\<lambda>refused.
               (case refused of
                  Some failure \<Rightarrow> deny (ms 2) call capability parent failure
                | None \<Rightarrow>
                    tbind (at_read (ms 2) (stored_session call i parent)) (\<lambda>stored.
                    (case stored of
                       Some reply \<Rightarrow> treturn reply
                     | None \<Rightarrow> open_fresh ms call capability key parent))))
           | Ok Unbound \<Rightarrow> open_fresh ms call capability key parent)))"

subsection \<open>Grants\<close>

definition issued_reply :: "InvocationId \<Rightarrow> GrantId \<Rightarrow> GrantId \<Rightarrow> Reply" where
  "issued_reply i grant parent_grant = reply_of i (GrantIssued grant parent_grant)"

definition revoked_reply :: "InvocationId \<Rightarrow> Revocation \<Rightarrow> Reply" where
  "revoked_reply i r = reply_of i (ResponseBody.GrantRevoked
     \<lparr>revoked_grant = rev_grant r, effect_sequence = rev_at_seq r, effect_time = rev_at_time r\<rparr>)"

definition issue_refusal_for :: "Call \<Rightarrow> GrantIssueRequest \<Rightarrow> GrantId \<Rightarrow> Env \<Rightarrow> Db \<Rightarrow> (Failure option, Error) result" where
  "issue_refusal_for call request child env db =
     rbind (map_err AuthzFault (check_issue (store_view db)
       \<lparr>ctx_issuer = call_tenant call, ctx_designated = call_grant call, ctx_child = child\<rparr> request (env_now env)))
     (\<lambda>decision. Ok (issue_refusal decision))"

definition issue_fresh :: "(nat \<Rightarrow> Moment) \<Rightarrow> Call \<Rightarrow> IdempotencyKey \<Rightarrow> GrantIssueRequest \<Rightarrow> Reply task" where
  "issue_fresh ms call key request =
     tbind (at_read (ms 3) (issue_refusal_for call request (GrantId 0))) (\<lambda>refused.
     (case refused of
        Some failure \<Rightarrow> deny (ms 4) call Capability.GrantIssue None failure
      | None \<Rightarrow>
          tbind (bind_key (ms 4) call Capability.GrantIssue key) (\<lambda>bound.
          (case bound of
             Err reply \<Rightarrow> treturn reply
           | Ok i \<Rightarrow>
               let context = \<lparr>ctx_issuer = call_tenant call, ctx_designated = call_grant call, ctx_child = grant_of i\<rparr> in
               tbind (at_store (ms 5) (\<lambda>env. issue_grant env
                 \<lparr>gi_context = context, gi_request = request, gi_invocation = i\<rparr>)) (\<lambda>outcome.
               treturn (case outcome of
                   OutcomeIssued grant parent \<Rightarrow> issued_reply i grant parent
                 | OutcomeRefused failure \<Rightarrow> reply_failed failure))))))"

definition grant_issue :: "(nat \<Rightarrow> Moment) \<Rightarrow> Call \<Rightarrow> GrantIssueRequest \<Rightarrow> Reply task" where
  "grant_issue ms call request =
     (case call_key call of
        None \<Rightarrow> treturn (reply_failed Failure.ProtocolError)
      | Some key \<Rightarrow>
          tbind (at_read (ms 0) (prior call Capability.GrantIssue key)) (\<lambda>known.
          (case known of
             Err reply \<Rightarrow> treturn reply
           | Ok (PriorReplay i) \<Rightarrow>
               tbind (at_read (ms 1) (replay_refusal call Capability.GrantIssue)) (\<lambda>refused.
               (case refused of
                  Some failure \<Rightarrow> deny (ms 2) call Capability.GrantIssue None failure
                | None \<Rightarrow>
                    tbind (at_read (ms 2) (\<lambda>_ db. map_err ViewFault (view_grant (store_view db) (grant_of i)))) (\<lambda>child.
                    if child \<noteq> None then treturn (issued_reply i (grant_of i) (call_grant call))
                    else issue_fresh ms call key request)))
           | Ok Unbound \<Rightarrow> issue_fresh ms call key request)))"

definition revoke_decision :: "Call \<Rightarrow> GrantId \<Rightarrow> Env \<Rightarrow> Db \<Rightarrow> (RevokeDecision, Error) result" where
  "revoke_decision call target env db =
     map_err AuthzFault (check_revoke (store_view db) (call_tenant call) (call_grant call) target (env_now env))"

definition revoke_fresh :: "(nat \<Rightarrow> Moment) \<Rightarrow> Call \<Rightarrow> IdempotencyKey \<Rightarrow> GrantId \<Rightarrow> Reply task" where
  "revoke_fresh ms call key target =
     tbind (at_read (ms 3) (revoke_decision call target)) (\<lambda>decision.
     (case revoke_refusal decision of
        Some failure \<Rightarrow> deny (ms 4) call Capability.GrantRevoke None failure
      | None \<Rightarrow>
          tbind (bind_key (ms 4) call Capability.GrantRevoke key) (\<lambda>bound.
          (case bound of
             Err reply \<Rightarrow> treturn reply
           | Ok i \<Rightarrow>
               tbind (case decision of
                   AlreadyRevoked r \<Rightarrow> treturn (Some r)
                 | _ \<Rightarrow> at_store (ms 5) (\<lambda>env. revoke_grant env
                     \<lparr>rv_actor = call_tenant call, rv_grant = target, rv_invocation = i\<rparr>)) (\<lambda>r.
               (case r of
                  None \<Rightarrow> treturn (reply_failed Failure.NotFoundOrDenied)
                | Some rec \<Rightarrow> (\<lambda>s. (cancel_revoked target s, Ok (revoked_reply i rec)))))))))"

definition grant_revoke :: "(nat \<Rightarrow> Moment) \<Rightarrow> Call \<Rightarrow> GrantId \<Rightarrow> Reply task" where
  "grant_revoke ms call target =
     (case call_key call of
        None \<Rightarrow> treturn (reply_failed Failure.ProtocolError)
      | Some key \<Rightarrow>
          tbind (at_read (ms 0) (prior call Capability.GrantRevoke key)) (\<lambda>known.
          (case known of
             Err reply \<Rightarrow> treturn reply
           | Ok (PriorReplay i) \<Rightarrow>
               tbind (at_read (ms 1) (replay_refusal call Capability.GrantRevoke)) (\<lambda>refused.
               (case refused of
                  Some failure \<Rightarrow> deny (ms 2) call Capability.GrantRevoke None failure
                | None \<Rightarrow>
                    tbind (at_read (ms 2) (\<lambda>_ db. map_err ViewFault (view_revocation (store_view db) target))) (\<lambda>existing.
                    (case existing of
                       Some r \<Rightarrow> treturn (revoked_reply i r)
                     | None \<Rightarrow> revoke_fresh ms call key target))))
           | Ok Unbound \<Rightarrow> revoke_fresh ms call key target)))"


subsection \<open>Reads and queries\<close>

record Scans =
  scan_index_of :: "SessionId \<Rightarrow> ArtifactRef list"
  scan_tenants :: "TenantId list"

definition QUERY_REF_BYTES :: u32 where "QUERY_REF_BYTES = 32"

definition AUDIT_RECORD_BYTES :: u32 where "AUDIT_RECORD_BYTES = 160"

definition artifact_plan :: "Moment \<Rightarrow> Moment \<Rightarrow> Call \<Rightarrow> Capability \<Rightarrow> ArtifactRef \<Rightarrow> Plan task" where
  "artifact_plan m1 m2 call capability a =
     tbind (at_read m1 (\<lambda>_ db. map_err StoreFault (artifact db a))) (\<lambda>info.
     let session = (case info of Some i \<Rightarrow> ai_session i | None \<Rightarrow> None) in
     tbind (at_read m2 (decide (authz_of call capability None session cost_default))) (\<lambda>plan.
     treturn (if session = None \<and> plan_refusal plan = Some (failure_denied SessionRequired)
              then plan\<lparr>plan_refusal := Some Failure.NotFoundOrDenied\<rparr> else plan)))"

definition read_call :: "(nat \<Rightarrow> Moment) \<Rightarrow> Call \<Rightarrow> ReadRequest \<Rightarrow> Reply task" where
  "read_call ms call request =
     tbind (artifact_plan (ms 0) (ms 1) call Capability.Read (read_artifact_ref request)) (\<lambda>plan.
     (case plan_refusal plan of
        Some failure \<Rightarrow> deny (ms 2) call Capability.Read None failure
      | None \<Rightarrow>
          tbind (at_read (ms 2) (\<lambda>_ db. map_err StoreFault (read_artifact db (read_artifact_ref request)
            (read_offset request) (min (read_len request) (payload_budget call))))) (\<lambda>chunk.
          treturn (case chunk of
              None \<Rightarrow> reply_failed Failure.NotFoundOrDenied
            | Some c \<Rightarrow> \<lparr>reply_invocation = None, reply_body = Chunk c\<rparr>))))"

fun str_contains :: "string \<Rightarrow> string \<Rightarrow> bool" where
  "str_contains [] pattern \<longleftrightarrow> pattern = []"
| "str_contains (c # text) pattern \<longleftrightarrow> take (length pattern) (c # text) = pattern \<or> str_contains text pattern"

definition text_matches :: "ArtifactRef \<Rightarrow> string \<Rightarrow> Env \<Rightarrow> Db \<Rightarrow> (bool, Error) result" where
  "text_matches a predicate env db =
     (if predicate = [] then Ok True
      else rbind (map_err StoreFault (artifact db a)) (\<lambda>info. Ok
        (case info of
           None \<Rightarrow> False
         | Some i \<Rightarrow> (case ai_text_view i of None \<Rightarrow> False | Some text \<Rightarrow> str_contains text predicate))))"

fun collect_matches :: "(nat \<Rightarrow> Moment) \<Rightarrow> nat \<Rightarrow> string \<Rightarrow> ArtifactRef list \<Rightarrow> ArtifactRef list task" where
  "collect_matches ms k predicate [] = treturn []"
| "collect_matches ms k predicate (a # as) =
     tbind (at_read (ms k) (text_matches a predicate)) (\<lambda>hit.
     tbind (collect_matches ms (Suc k) predicate as) (\<lambda>rest.
     treturn (if hit then a # rest else rest)))"

definition query_call :: "(nat \<Rightarrow> Moment) \<Rightarrow> Scans \<Rightarrow> Call \<Rightarrow> QueryRequest \<Rightarrow> Reply task" where
  "query_call ms scans call request =
     (let session = query_session_scope request in
      tbind (at_read (ms 0) (decide (authz_of call Capability.Query None session cost_default))) (\<lambda>plan.
      (case plan_refusal plan of
         Some failure \<Rightarrow> deny (ms 1) call Capability.Query session failure
       | None \<Rightarrow>
          (case session of
             None \<Rightarrow> treturn (reply_failed (failure_denied SessionRequired))
           | Some s \<Rightarrow>
              tbind (at_read (ms 1) (\<lambda>_ db. map_err StoreFault
                (session_artifacts db (scan_index_of scans s) s None (- 1)))) (\<lambda>page.
              (case page of
                 None \<Rightarrow> treturn (reply_failed Failure.NotFoundOrDenied)
               | Some p \<Rightarrow>
                  tbind (collect_matches ms 2 (query_predicate request) (result_refs p)) (\<lambda>hits.
                  let limit = unat (min (query_limit request) (payload_budget call div QUERY_REF_BYTES)) in
                  treturn \<lparr>reply_invocation = None, reply_body = ResponseBody.QueryPage
                    \<lparr>result_refs = take limit hits, query_more = (limit < length hits)\<rparr>\<rparr>)))))))"

definition audit_scope_for :: "Call \<Rightarrow> AuditScope \<Rightarrow> Env \<Rightarrow> Db \<Rightarrow> (AuditScope, Error) result" where
  "audit_scope_for call requested env db =
     rbind (map_err ViewFault (view_grant (store_view db) (call_grant call))) (\<lambda>found. Ok
       (applied_audit_scope requested
         (case found of None \<Rightarrow> OwnAndOwnedSessions | Some g \<Rightarrow> g_audit_scope g)))"

definition audit_query_call :: "(nat \<Rightarrow> Moment) \<Rightarrow> Scans \<Rightarrow> Call \<Rightarrow> AuditQueryRequest \<Rightarrow> Reply task" where
  "audit_query_call ms scans call request =
     (let session = aq_session request in
      tbind (at_read (ms 0) (decide (authz_of call Capability.AuditQuery None session cost_default))) (\<lambda>plan.
      (case plan_refusal plan of
         Some failure \<Rightarrow> deny (ms 1) call Capability.AuditQuery session failure
       | None \<Rightarrow>
          tbind (at_read (ms 1) (audit_scope_for call (aq_audit_scope request))) (\<lambda>scope.
          let limit = min (aq_limit request) (payload_budget call div AUDIT_RECORD_BYTES) in
          tbind (at_read (ms 2) (\<lambda>_ db. map_err StoreFault (store_audit_query db (scan_tenants scans)
            \<lparr>aqc_actor = call_tenant call, aqc_scope = scope, aqc_session = session, aqc_after = aq_after request,
             aqc_limit = saturating_add limit 1\<rparr>))) (\<lambda>events.
          let found = map ev_record events;
              more = unat limit < length found;
              records = take (unat limit) found in
          tbind (lift_result (fresh_invocation (ms 3))) (\<lambda>i.
          tbind (at_store (ms 3) (\<lambda>env. record_audit env
            \<lparr>an_tenant = call_tenant call, an_invocation = i, an_capability = Capability.AuditQuery,
             an_session = session, an_outcome = AuditCompleted None, an_grant = Some (call_grant call),
             an_audit_scope = Some scope\<rparr>)) (\<lambda>_.
          treturn (reply_of i (ResponseBody.AuditPage
            \<lparr>scope_applied = scope, page_records = records,
             next_after = (if more then (if records = [] then None else Some (ar_seq (last records))) else None)\<rparr>)))))))))"

definition ingest_plan :: "Moment \<Rightarrow> Call \<Rightarrow> Plan task" where
  "ingest_plan m call =
     tbind (at_read m (decide (authz_of call Capability.Ingest None None cost_default))) (\<lambda>plan.
     treturn (if plan_refusal plan = None
       then plan\<lparr>plan_refusal := Some (failure_denied NotSupported), plan_grant_chain := []\<rparr> else plan))"

definition ingest_call :: "(nat \<Rightarrow> Moment) \<Rightarrow> Call \<Rightarrow> Reply task" where
  "ingest_call ms call =
     tbind (ingest_plan (ms 0) call) (\<lambda>plan.
     deny (ms 1) call Capability.Ingest None
       (case plan_refusal plan of Some failure \<Rightarrow> failure | None \<Rightarrow> failure_denied NotSupported))"

subsection \<open>Dry run\<close>

definition with_refusal :: "Moment \<Rightarrow> Call \<Rightarrow> Capability \<Rightarrow> Failure option \<Rightarrow> Plan task" where
  "with_refusal m call capability refused =
     (case refused of
        Some refusal \<Rightarrow> treturn \<lparr>plan_capability = capability, plan_cost = cost_default, plan_grant_chain = [],
          plan_rule_chain = [], plan_refusal = Some refusal\<rparr>
      | None \<Rightarrow>
          tbind (at_read m (decide (authz_of call capability None None cost_default))) (\<lambda>plan.
          treturn (plan\<lparr>plan_refusal := None\<rparr>)))"

definition plan_body :: "(nat \<Rightarrow> Moment) \<Rightarrow> Call \<Rightarrow> RequestBody \<Rightarrow> Plan task" where
  "plan_body ms call body =
     (case body of
        RequestBody.Capture capture \<Rightarrow>
          tbind (at_read (ms 0) (capture_limits call (cap_session capture) (cap_limits capture))) (\<lambda>limits.
          at_read (ms 1) (decide (authz_of call Capability.Capture (Some (cap_target capture))
            (Some (cap_session capture)) (capture_cost limits (call_deadline_ms call)))))
      | RequestBody.SessionCreate \<Rightarrow>
          at_read (ms 0) (decide (authz_of call Capability.SessionCreate None None cost_default))
      | RequestBody.SessionFork fork \<Rightarrow>
          at_read (ms 0) (decide (authz_of call Capability.SessionFork None (Some (fork_parent_session fork)) cost_default))
      | RequestBody.Query query \<Rightarrow>
          at_read (ms 0) (decide (authz_of call Capability.Query None (query_session_scope query) cost_default))
      | RequestBody.AuditQuery query \<Rightarrow>
          at_read (ms 0) (decide (authz_of call Capability.AuditQuery None (aq_session query) cost_default))
      | RequestBody.Read request \<Rightarrow> artifact_plan (ms 0) (ms 1) call Capability.Read (read_artifact_ref request)
      | RequestBody.Ingest _ \<Rightarrow> ingest_plan (ms 0) call
      | RequestBody.GrantIssue issue \<Rightarrow>
          tbind (at_read (ms 0) (issue_refusal_for call issue (GrantId 0))) (\<lambda>refused.
          with_refusal (ms 1) call Capability.GrantIssue refused)
      | RequestBody.GrantRevoke revoke \<Rightarrow>
          tbind (at_read (ms 0) (revoke_decision call (target_grant revoke))) (\<lambda>decision.
          with_refusal (ms 1) call Capability.GrantRevoke (revoke_refusal decision)))"

definition plan_reply :: "(nat \<Rightarrow> Moment) \<Rightarrow> Call \<Rightarrow> RequestBody \<Rightarrow> Reply task" where
  "plan_reply ms call body = tbind (plan_body ms call body) (\<lambda>plan. treturn (reply_plan plan))"

subsection \<open>Execution\<close>

definition execute :: "(nat \<Rightarrow> Moment) \<Rightarrow> Scans \<Rightarrow> Call \<Rightarrow> RequestBody \<Rightarrow> Reply task" where
  "execute ms scans call body =
     (case body of
        RequestBody.SessionCreate \<Rightarrow> open_session_call ms call None
      | RequestBody.SessionFork fork \<Rightarrow> open_session_call ms call (Some (fork_parent_session fork))
      | RequestBody.GrantIssue issue \<Rightarrow> grant_issue ms call issue
      | RequestBody.GrantRevoke revoke \<Rightarrow> grant_revoke ms call (target_grant revoke)
      | RequestBody.Read request \<Rightarrow> read_call ms call request
      | RequestBody.Query query \<Rightarrow> query_call ms scans call query
      | RequestBody.AuditQuery query \<Rightarrow> audit_query_call ms scans call query
      | RequestBody.Ingest _ \<Rightarrow> ingest_call ms call
      | RequestBody.Capture _ \<Rightarrow> treturn (reply_failed Failure.ProtocolError))"

definition handle :: "RequestMsg Message \<Rightarrow> (u8 list \<Rightarrow> u8 list) \<Rightarrow> (nat \<Rightarrow> Moment) \<Rightarrow> Scans \<Rightarrow>
    (AcquireRequest \<Rightarrow> Produced) \<Rightarrow> ConnIdentity \<Rightarrow> RequestMsg \<Rightarrow> Inner \<Rightarrow> Inner \<times> Reply" where
  "handle codec sha256 ms scans produce conn request s =
     (case call_new codec sha256 conn request of
        Err e \<Rightarrow> (s, internal e)
      | Ok call \<Rightarrow>
          if req_mode request = DryRun then settled_reply (plan_reply ms call (req_body request)) s
          else (case req_body request of
              RequestBody.Capture capture \<Rightarrow> capture_call ms produce call capture s
            | other \<Rightarrow> settled_reply (execute ms scans call other) s))"

definition dispatch_request :: "RequestMsg Message \<Rightarrow> (u8 list \<Rightarrow> u8 list) \<Rightarrow> (nat \<Rightarrow> Moment) \<Rightarrow> Scans \<Rightarrow>
    (AcquireRequest \<Rightarrow> Produced) \<Rightarrow> ConnIdentity \<Rightarrow> RequestMsg \<Rightarrow> Inner \<Rightarrow> Inner \<times> ResponseMsg" where
  "dispatch_request codec sha256 ms scans produce conn request s =
     (case handle codec sha256 ms scans produce conn request s of (s1, reply) \<Rightarrow>
        (s1, \<lparr>resp_request_id = request_id request, resp_invocation = reply_invocation reply,
              resp_body = reply_body reply\<rparr>))"

end
