(* ===== verification/Handlers.thy ===== *)
theory Handlers
  imports Calls
begin

text \<open>
  What every request handler does to the shared state: it works on the store only through store
  operations, a dry run and the reads change nothing but the audit log, a revocation reaches the running
  invocations, and replies fit the frame of the connection.
\<close>

section \<open>Tasks as store steps\<close>

text \<open>Whatever a handler does to the store, it does by store operations, if the other tasks do.\<close>

definition polite :: "(nat \<Rightarrow> Moment) \<Rightarrow> bool" where
  "polite ms \<longleftrightarrow> (\<forall>k s. store_step\<^sup>*\<^sup>* (in_store s) (in_store (m_others (ms k) s)))"

definition works :: "'a task \<Rightarrow> bool" where
  "works t \<longleftrightarrow> (\<forall>s. store_step\<^sup>*\<^sup>* (in_store s) (in_store (fst (t s))))"

lemma worksD: "works t \<Longrightarrow> t s = (s', res) \<Longrightarrow> store_step\<^sup>*\<^sup>* (in_store s) (in_store s')"
  unfolding works_def by (metis fst_conv)

lemma reachable_steps: "store_reachable db \<Longrightarrow> store_step\<^sup>*\<^sup>* db db' \<Longrightarrow> store_reachable db'"
  unfolding store_reachable_def by (rule rtranclp_trans)

lemma works_tbind [intro]: "works t \<Longrightarrow> (\<And>x. works (k x)) \<Longrightarrow> works (tbind t k)"
  unfolding works_def tbind_def
  by (auto split: prod.splits sum.splits) (metis fst_conv rtranclp_trans)+

lemma tbind_cases:
  assumes "tbind t k s = (s', res)"
  obtains (err) e where "t s = (s', Err e)" and "res = Err e"
  | (ok) s1 x where "t s = (s1, Ok x)" and "k x s1 = (s', res)"
proof (cases "t s")
  case (Pair s1 q)
  with assms that show ?thesis by (cases q) (simp_all add: tbind_def)
qed

lemma works_pure [simp]: "works (treturn x)" "works (lift_result r)" "works (\<lambda>s. (cancel_revoked g s, res))"
  by (simp_all add: works_def treturn_def lift_result_def cancel_revoked_def)

lemma works_read [simp]: "polite ms \<Longrightarrow> works (at_read (ms k) f)"
  by (simp add: works_def polite_def at_read_def Let_def)

lemma works_store: "polite ms \<Longrightarrow> (\<And>env db. store_step db (fst (op env db))) \<Longrightarrow> works (at_store (ms k) op)"
  unfolding works_def polite_def at_store_def Let_def
  by (auto split: prod.splits) (metis fst_conv rtranclp.rtrancl_into_rtrancl)

lemma works_ops [simp]:
  assumes "polite ms"
  shows "works (at_store (ms k) (\<lambda>env. begin_invocation env intent))" "works (at_store (ms k) (\<lambda>env. dispatch env i))"
    "works (at_store (ms k) (\<lambda>env. complete_transfer env i transfer))" "works (at_store (ms k) (\<lambda>env. publish env i))"
    "works (at_store (ms k) (\<lambda>env. settle_invocation env i outcome))"
    "works (at_store (ms k) (\<lambda>env. release_invocation env i reason))"
    "works (at_store (ms k) (\<lambda>env. mark_unknown_effect env i))"
    "works (at_store (ms k) (\<lambda>env. issue_grant env issue))" "works (at_store (ms k) (\<lambda>env. revoke_grant env revoke))"
    "works (at_store (ms k) (\<lambda>env. claim_key env claim))" "works (at_store (ms k) (\<lambda>env. record_audit env entry))"
  by (rule works_store [OF assms], rule store_step.intros)+

lemma capture_parts_work:
  assumes "polite ms"
  shows "works (release_call (ms k) i reason)" "works (settle_failed (ms k) i failure actual)"
    "works (unknown_call (ms k) i)" "works (publish_output ms call limits i output elapsed)"
    "works (deny (ms k) call capability session failure)"
  unfolding release_call_def settle_failed_def unknown_call_def publish_output_def deny_def Let_def
  by (intro works_tbind works_ops works_read works_pure assms)+

lemma run_invocation_works: "polite ms \<Longrightarrow> works (run_invocation ms produce call capture limits i)"
  unfolding run_invocation_def finish_def fail_def Let_def
  by (auto simp: capture_parts_work split: option.split Produced.split ProducerError.split bool.split intro!: works_tbind)

lemma after_error_works: "polite ms \<Longrightarrow> works (after_error ms i)"
  unfolding after_error_def
  by (auto split: option.split InvocationState.split intro!: works_tbind)


lemma works_session_ops [simp]:
  assumes "polite ms"
  shows "works (at_store (ms k) (\<lambda>env. create_session env new))" "works (at_store (ms k) (\<lambda>env. fork_session env new p))"
proof -
  have "fst (create_session env new db) = fst (open_session env new None db)" for env db
    by (simp add: create_session_def split: prod.split)
  then have "store_step db (fst (create_session env new db))" for env db using session_step by metis
  then show "works (at_store (ms k) (\<lambda>env. create_session env new))" by (rule works_store [OF assms])
  have "store_step db (fst (fork_session env new p db))" for env db
    unfolding fork_session_def by (rule session_step)
  then show "works (at_store (ms k) (\<lambda>env. fork_session env new p))" by (rule works_store [OF assms])
qed

lemma bind_key_works: "polite ms \<Longrightarrow> works (bind_key (ms k) call capability key)"
  unfolding bind_key_def by (auto intro!: works_tbind)

lemma fresh_work:
  assumes "polite ms"
  shows "works (open_fresh ms call capability key parent)" "works (issue_fresh ms call key request)"
    "works (revoke_fresh ms call key target)"
  unfolding open_fresh_def issue_fresh_def revoke_fresh_def Let_def
  by (auto simp: assms capture_parts_work bind_key_works split: option.split sum.split RevokeDecision.split intro!: works_tbind)

lemma directory_calls_work:
  assumes "polite ms"
  shows "works (open_session_call ms call parent)" "works (grant_issue ms call request)" "works (grant_revoke ms call target)"
  unfolding open_session_call_def grant_issue_def grant_revoke_def Let_def
  by (auto simp: assms capture_parts_work fresh_work split: option.split sum.split Prior.split intro!: works_tbind)

lemma collect_matches_works: "polite ms \<Longrightarrow> works (collect_matches ms k predicate as)"
  by (induction as arbitrary: k) (auto intro!: works_tbind)

lemma reads_work:
  assumes "polite ms"
  shows "works (artifact_plan (ms a) (ms b) call capability ref)" "works (ingest_plan (ms a) call)"
    "works (read_call ms call rr)" "works (query_call ms scans call qr)" "works (audit_query_call ms scans call ar)"
    "works (ingest_call ms call)"
  unfolding artifact_plan_def ingest_plan_def read_call_def query_call_def audit_query_call_def ingest_call_def Let_def
  by (auto simp: assms capture_parts_work collect_matches_works split: option.split intro!: works_tbind)

lemma execute_works: "polite ms \<Longrightarrow> works (execute ms scans call body)"
  by (simp add: execute_def directory_calls_work reads_work split: RequestBody.split)

lemma plan_works: "polite ms \<Longrightarrow> works (plan_reply ms call body)"
  unfolding plan_reply_def plan_body_def with_refusal_def
  by (auto simp: reads_work split: RequestBody.split option.split intro!: works_tbind)

lemma begin_capture_works: "polite ms \<Longrightarrow> works (begin_capture ms call capture)"
  unfolding begin_capture_def replay_capture_def Let_def
  by (auto simp: capture_parts_work split: option.split Begin.split intro!: works_tbind)

lemma settled_reply_state: "fst (settled_reply t s) = fst (t s)"
  by (simp add: settled_reply_def split: prod.split sum.split)

lemma capture_call_works:
  assumes "polite ms"
  shows "store_step\<^sup>*\<^sup>* (in_store s) (in_store (fst (capture_call ms produce call capture s)))"
proof -
  obtain s1 res where b: "begin_capture ms call capture s = (s1, res)" by (rule prod.exhaust)
  note 1 = worksD [OF begin_capture_works [OF assms] b]
  show ?thesis
  proof (cases "\<exists>status limits. res = Ok (StartedPersisted status limits)")
    case True
    then obtain status limits where res: "res = Ok (StartedPersisted status limits)" by blast
    let ?i = "st_id status"
    obtain s2 res2 where r: "run_invocation ms produce call capture limits ?i (register ?i (st_grant_chain status) s1) = (s2, res2)"
      by (rule prod.exhaust)
    note 2 = worksD [OF run_invocation_works [OF assms] r]
    have 3: "store_step\<^sup>*\<^sup>* (in_store (deregister ?i s2)) (in_store (fst (after_error ms ?i (deregister ?i s2))))"
      using after_error_works [OF assms, of ?i] by (simp add: works_def)
    have "in_store (deregister ?i s2) = in_store s2" by (simp add: deregister_def)
    moreover have "in_store (register ?i (st_grant_chain status) s1) = in_store s1" by (simp add: register_def)
    ultimately have 4: "store_step\<^sup>*\<^sup>* (in_store s) (in_store s2)" "store_step\<^sup>*\<^sup>* (in_store s2)
        (in_store (fst (after_error ms ?i (deregister ?i s2))))"
      using 1 2 3 by (auto intro: rtranclp_trans)
    have "in_store (fst (capture_call ms produce call capture s)) = in_store s2 \<or>
        in_store (fst (capture_call ms produce call capture s)) = in_store (fst (after_error ms ?i (deregister ?i s2)))"
      using b res r by (cases res2) (simp_all add: capture_call_def settled_reply_state deregister_def Let_def)
    with 4 rtranclp_trans [OF 4] show ?thesis by metis
  next
    case False
    have "fst (capture_call ms produce call capture s) = s1"
    proof (cases res)
      case (Inr started)
      with False b show ?thesis by (cases started) (simp_all add: capture_call_def)
    qed (simp add: capture_call_def b)
    with 1 show ?thesis by simp
  qed
qed

lemma handle_works:
  assumes "polite ms"
  shows "store_step\<^sup>*\<^sup>* (in_store s) (in_store (fst (handle codec sha256 ms scans produce conn request s)))"
  unfolding handle_def
  using execute_works [OF assms] plan_works [OF assms] capture_call_works [OF assms]
  by (simp add: works_def settled_reply_state split: sum.split RequestBody.split)


section \<open>Reads and dry runs\<close>

text \<open>Moments at which no other task runs.\<close>

definition alone :: "(nat \<Rightarrow> Moment) \<Rightarrow> bool" where
  "alone ms \<longleftrightarrow> (\<forall>k s. m_others (ms k) s = s)"

definition only_audit :: "Inner \<Rightarrow> Inner \<Rightarrow> bool" where
  "only_audit s s' \<longleftrightarrow> (\<exists>stubs parts. s' = s\<lparr>in_store := (in_store s)\<lparr>db_audit_stub := stubs, db_audit := parts\<rparr>\<rparr>)"

definition still :: "'a task \<Rightarrow> bool" where
  "still t \<longleftrightarrow> (\<forall>s. fst (t s) = s)"

definition audits :: "'a task \<Rightarrow> bool" where
  "audits t \<longleftrightarrow> (\<forall>s. only_audit s (fst (t s)))"

lemma only_audit_refl: "only_audit s s"
  unfolding only_audit_def by (intro exI [of _ "db_audit_stub (in_store s)"] exI [of _ "db_audit (in_store s)"]) simp

lemma only_audit_trans: "only_audit a b \<Longrightarrow> only_audit b c \<Longrightarrow> only_audit a c"
  by (auto simp: only_audit_def) blast

lemma still_tbind [intro]: "still t \<Longrightarrow> (\<And>x. still (k x)) \<Longrightarrow> still (tbind t k)"
  unfolding still_def tbind_def by (auto split: prod.splits sum.splits) (metis fst_conv)+

lemma still_pure [simp]: "still (treturn x)" "still (lift_result r)"
  by (simp_all add: still_def treturn_def lift_result_def)

lemma still_read [simp]: "alone ms \<Longrightarrow> still (at_read (ms k) f)"
  by (simp add: still_def alone_def at_read_def Let_def)

lemma audits_tbind [intro]: "audits t \<Longrightarrow> (\<And>x. audits (k x)) \<Longrightarrow> audits (tbind t k)"
  unfolding audits_def tbind_def
  by (auto split: prod.splits sum.splits) (metis fst_conv only_audit_trans)+

lemma still_audits: "still t \<Longrightarrow> audits t"
  by (simp add: still_def audits_def only_audit_refl)

lemma record_audit_only:
  "\<exists>stubs parts. fst (record_audit env note db) = db\<lparr>db_audit_stub := stubs, db_audit := parts\<rparr>"
proof -
  have same: "\<exists>stubs parts. db = db\<lparr>db_audit_stub := stubs, db_audit := parts\<rparr>"
    by (intro exI [of _ "db_audit_stub db"] exI [of _ "db_audit db"]) simp
  show ?thesis unfolding record_audit_def Let_def
    by (rule end_tx_inv [where P = "\<lambda>x. \<exists>stubs parts. x = db\<lparr>db_audit_stub := stubs, db_audit := parts\<rparr>", OF same])
      (auto simp: rbind_Ok_iff elim!: append_audit_frame)
qed

lemma audits_record: "alone ms \<Longrightarrow> audits (at_store (ms k) (\<lambda>env. record_audit env entry))"
  unfolding audits_def
proof
  fix s :: Inner
  assume "alone ms"
  obtain stubs parts where "fst (record_audit (m_env (ms k)) entry (in_store s)) =
      (in_store s)\<lparr>db_audit_stub := stubs, db_audit := parts\<rparr>" using record_audit_only by blast
  with \<open>alone ms\<close> show "only_audit s (fst (at_store (ms k) (\<lambda>env. record_audit env entry) s))"
    by (auto simp: at_store_def alone_def Let_def only_audit_def split: prod.splits) blast
qed

lemma deny_audits: "alone ms \<Longrightarrow> audits (deny (ms k) call capability session failure)"
  unfolding deny_def by (auto simp: audits_record still_audits intro!: audits_tbind)

lemma collect_matches_still: "alone ms \<Longrightarrow> still (collect_matches ms k predicate as)"
  by (induction as arbitrary: k) (auto intro!: still_tbind)

lemma plans_still:
  assumes "alone ms"
  shows "still (artifact_plan (ms a) (ms b) call capability ref)" "still (ingest_plan (ms a) call)"
    "still (with_refusal (ms a) call capability refused)"
  unfolding artifact_plan_def ingest_plan_def with_refusal_def Let_def
  by (auto simp: assms split: option.split intro!: still_tbind)

lemma plan_reply_still: "alone ms \<Longrightarrow> still (plan_reply ms call body)"
  unfolding plan_reply_def plan_body_def
  by (auto simp: plans_still split: RequestBody.split intro!: still_tbind)

lemma reads_audit:
  assumes "alone ms"
  shows "audits (read_call ms call rr)" "audits (query_call ms scans call qr)" "audits (audit_query_call ms scans call ar)"
    "audits (ingest_call ms call)"
  unfolding read_call_def query_call_def audit_query_call_def ingest_call_def Let_def
  by (auto simp: assms deny_audits audits_record still_audits plans_still collect_matches_still
      split: option.split intro!: audits_tbind)


section \<open>Revocation\<close>

definition revoked_in :: "GrantId \<Rightarrow> Inner \<Rightarrow> bool" where
  "revoked_in target s \<longleftrightarrow> db_revocations (in_store s) target \<noteq> None"

definition stopped :: "GrantId \<Rightarrow> Inner \<Rightarrow> bool" where
  "stopped target s \<longleftrightarrow> (\<forall>i run. in_running s i = Some run \<longrightarrow> target \<in> set (run_chain run) \<longrightarrow> run_cancelled run)"

lemma revoked_in_later:
  assumes "revoked_in target s" and "store_reachable (in_store s)" and "store_step\<^sup>*\<^sup>* (in_store s) (in_store s')"
  shows "revoked_in target s'"
  using steps_permanent [OF assms(3) reachable_ledger_inv [OF assms(2)]] assms(1)
  unfolding revoked_in_def permanent_def by (metis map_le_def domIff)

lemma cancel_revoked_stops: "stopped target (cancel_revoked target s)"
  unfolding stopped_def
proof (intro allI impI)
  fix i run
  assume a: "in_running (cancel_revoked target s) i = Some run" "target \<in> set (run_chain run)"
  then obtain z :: Running where "run = (if target \<in> set (run_chain z) then z\<lparr>run_cancelled := True\<rparr> else z)"
    by (auto simp: cancel_revoked_def)
  with a(2) show "run_cancelled run" by (simp split: if_splits)
qed

lemma revoke_grant_revokes:
  assumes "revoke_grant env revoke db = (db', Ok (Some r))"
  shows "db_revocations db' (rv_grant revoke) \<noteq> None"
proof -
  from end_tx_Ok [OF assms [unfolded revoke_grant_def]] consider
      "revoke_grant_tx env revoke db = Ok (Abandon (Some r))" "db' = db"
    | b where "revoke_grant_tx env revoke db = Ok (Commit b (Some r) db')" by blast
  then show ?thesis
    by cases (auto simp: revoke_grant_tx_def Let_def rbind_Ok_iff split: if_splits option.splits)
qed

lemma check_revoke_already:
  assumes "revoke_decision call target env db = Ok (AlreadyRevoked r)"
  shows "db_revocations db target \<noteq> None"
proof -
  from assms obtain chain :: "(Grant list, Decision) result" where c:
    "(case chain of
         Err (Decision.Denied code) \<Rightarrow> Ok (RevokeDecision.Denied code)
       | Err _ \<Rightarrow> Ok RevokeDecision.NotFoundOrDenied
       | Ok _ \<Rightarrow>
           rbind (in_subtree (store_view db) (call_grant call) target) (\<lambda>inside.
             if \<not> inside then Ok RevokeDecision.NotFoundOrDenied
             else rbind (map_err View (view_revocation (store_view db) target)) (\<lambda>found. Ok
               (case found of Some r \<Rightarrow> AlreadyRevoked r | None \<Rightarrow> Revoke target)))) = Ok (AlreadyRevoked r)"
    by (auto simp: revoke_decision_def check_revoke_def rbind_Ok_iff map_err_Ok_iff)
  show ?thesis
  proof (cases chain)
    case (Inl d)
    with c show ?thesis by (cases d) simp_all
  next
    case (Inr c)
    with c show ?thesis
      by (auto simp: rbind_Ok_iff store_view_def split: if_splits option.splits)
  qed
qed

lemma revoke_fresh_revokes:
  assumes polite: "polite ms" and reach: "store_reachable (in_store s)"
    and run: "revoke_fresh ms call key target s = (s', Ok reply)" and reply: "reply_body reply = ResponseBody.GrantRevoked note"
  shows "revoked_in target s' \<and> stopped target s'"
  using run unfolding revoke_fresh_def
proof (cases rule: tbind_cases)
  case (ok s1 decision)
  have s1: "s1 = m_others (ms 3) s" "revoke_decision call target (m_env (ms 3)) (in_store s1) = Ok decision"
    using ok(1) by (auto simp: at_read_def Let_def)
  have reach1: "store_reachable (in_store s1)"
    using reachable_steps [OF reach worksD [OF works_read [OF polite] ok(1)]] .
  show ?thesis
  proof (cases "revoke_refusal decision")
    case None
    with ok(2) have "tbind (bind_key (ms 4) call Capability.GrantRevoke key) (\<lambda>bound.
          (case bound of
             Err reply \<Rightarrow> treturn reply
           | Ok i \<Rightarrow>
               tbind (case decision of
                   AlreadyRevoked r \<Rightarrow> treturn (Some r)
                 | _ \<Rightarrow> at_store (ms 5) (\<lambda>env. revoke_grant env
                     \<lparr>rv_actor = call_tenant call, rv_grant = target, rv_invocation = i\<rparr>)) (\<lambda>r.
               (case r of
                  None \<Rightarrow> treturn (reply_failed Failure.NotFoundOrDenied)
                | Some rec \<Rightarrow> (\<lambda>s. (cancel_revoked target s, Ok (revoked_reply i rec))))))) s1 = (s', Ok reply)" by simp
    then show ?thesis
    proof (cases rule: tbind_cases)
      case bind: (ok s2 bound)
      note reach2 = reachable_steps [OF reach1 worksD [OF bind_key_works [OF polite] bind(1)]]
      show ?thesis
      proof (cases bound)
        case (Inl refusal)
        with bind reply show ?thesis
          by (auto simp: bind_key_def tbind_def treturn_def reply_failed_def split: prod.splits sum.splits Claimed.splits)
      next
        case (Inr i)
        from bind(2) [unfolded Inr sum.case] show ?thesis
        proof (cases rule: tbind_cases)
          case rev: (ok s3 r)
          obtain rec where r: "r = Some rec" and s': "s' = cancel_revoked target s3"
            using rev(2) reply by (cases r) (auto simp: treturn_def reply_failed_def)
          have "revoked_in target s3"
          proof (cases "\<exists>q. decision = AlreadyRevoked q")
            case True
            then have "revoked_in target s1" using check_revoke_already s1(2) by (auto simp: revoked_in_def)
            moreover have "s3 = s2" using True rev(1) by (auto simp: treturn_def)
            ultimately show ?thesis
              using revoked_in_later [OF _ reach1 worksD [OF bind_key_works [OF polite] bind(1)]] by simp
          next
            case False
            then have "at_store (ms 5) (\<lambda>env. revoke_grant env
                \<lparr>rv_actor = call_tenant call, rv_grant = target, rv_invocation = i\<rparr>) s2 = (s3, Ok (Some rec))"
              using rev(1) None r by (cases decision) simp_all
            then obtain db where "revoke_grant (m_env (ms 5))
                \<lparr>rv_actor = call_tenant call, rv_grant = target, rv_invocation = i\<rparr> db = (in_store s3, Ok (Some rec))"
              by (auto simp: at_store_def Let_def map_err_Ok_iff split: prod.splits)
            then show ?thesis using revoke_grant_revokes unfolding revoked_in_def by fastforce
          qed
          then show ?thesis
            unfolding s' using cancel_revoked_stops by (simp add: revoked_in_def cancel_revoked_def stopped_def)
        qed simp
      qed
    qed simp
  next
    case (Some failure)
    with ok(2) reply show ?thesis by (auto simp: deny_def tbind_def treturn_def reply_failed_def split: prod.splits sum.splits)
  qed
qed simp


lemma prior_refusal:
  assumes "prior call capability key env db = Ok (Err reply)"
  shows "reply = reply_failed Failure.IdempotencyConflict"
proof -
  from assms obtain found where "(case found of None \<Rightarrow> Ok Unbound | Some (ClaimReplay i) \<Rightarrow> Ok (PriorReplay i)
      | Some _ \<Rightarrow> Err (reply_failed Failure.IdempotencyConflict)) = Err reply"
    unfolding prior_def rbind_Ok_iff by blast
  then show ?thesis by (cases found) (simp_all split: Claimed.split_asm)
qed

text \<open>A revocation that did not find its key bound stops every invocation it covers; any reported
  revocation is in the store.\<close>

lemma grant_revoke_revokes:
  assumes polite: "polite ms" and reach: "store_reachable (in_store s)"
    and run: "grant_revoke ms call target s = (s', Ok reply)" and reply: "reply_body reply = ResponseBody.GrantRevoked note"
  shows "revoked_in target s' \<and>
    (call_key call = Some key \<and> prior call Capability.GrantRevoke key (m_env (ms 0)) (in_store (m_others (ms 0) s)) = Ok (Ok Unbound) \<longrightarrow>
       stopped target s')"
proof -
  from run reply obtain k where k: "call_key call = Some k"
    by (cases "call_key call") (auto simp: grant_revoke_def treturn_def reply_failed_def)
  from run [unfolded grant_revoke_def k option.case] show ?thesis
  proof (cases rule: tbind_cases)
    case (ok s1 known)
    note reach1 = reachable_steps [OF reach worksD [OF works_read [OF polite] ok(1)]]
    have s1: "s1 = m_others (ms 0) s" "prior call Capability.GrantRevoke k (m_env (ms 0)) (in_store s1) = Ok known"
      using ok(1) by (auto simp: at_read_def Let_def)
    show ?thesis
    proof (cases "known = Ok Unbound")
      case True
      with ok(2) have "revoke_fresh ms call k target s1 = (s', Ok reply)" by simp
      from revoke_fresh_revokes [OF polite reach1 this reply] show ?thesis by simp
    next
      case False
      obtain i where known: "known = Ok (PriorReplay i)"
      proof (cases known)
        case (Inl refusal)
        have "refusal = reply_failed Failure.IdempotencyConflict"
          using s1(2) Inl prior_refusal by blast
        with ok(2) Inl reply show ?thesis by (auto simp: treturn_def reply_failed_def)
      next
        case (Inr p)
        with False that show ?thesis by (cases p) simp_all
      qed
      have "\<not> (call_key call = Some key \<and> prior call Capability.GrantRevoke key (m_env (ms 0)) (in_store (m_others (ms 0) s)) = Ok (Ok Unbound))"
        using k s1 known by auto
      moreover from ok(2) [unfolded known sum.case Prior.case] have "revoked_in target s'"
      proof (cases rule: tbind_cases)
        case ref: (ok s2 refused)
        note reach2 = reachable_steps [OF reach1 worksD [OF works_read [OF polite] ref(1)]]
        show ?thesis
        proof (cases refused)
          case (Some failure)
          with ref(2) reply show ?thesis
            by (auto simp: deny_def tbind_def treturn_def reply_failed_def split: prod.splits sum.splits)
        next
          case None
          from ref(2) [unfolded None option.case] show ?thesis
          proof (cases rule: tbind_cases)
            case ex: (ok s3 existing)
            note reach3 = reachable_steps [OF reach2 worksD [OF works_read [OF polite] ex(1)]]
            show ?thesis
            proof (cases existing)
              case None
              with ex(2) revoke_fresh_revokes [OF polite reach3 _ reply] show ?thesis by simp
            next
              case (Some r)
              with ex show ?thesis
                by (auto simp: at_read_def Let_def store_view_def treturn_def revoked_in_def map_err_Ok_iff)
            qed
          qed simp
        qed
      qed simp
      ultimately show ?thesis by blast
    qed
  qed simp
qed


section \<open>Dry runs and execution\<close>

lemma store_plan_decision:
  assumes "store_plan env authz db = Ok plan"
  obtains decision where "authorize (store_view db) authz (env_now env) = Ok decision"
    and "plan_refusal plan = decision_refusal decision"
  using assms by (auto simp: store_plan_def plan_call_def rbind_Ok_iff map_err_Ok_iff)

lemma begin_decided:
  assumes "begin_invocation env intent db = (db', Ok begun)"
    and "db_idem db (az_tenant (int_authz intent), az_capability (int_authz intent), int_idempotency_key intent) = None"
    and d: "authorize (store_view db) (int_authz intent) (env_now env) = Ok decision"
  shows "case decision_refusal decision of
      Some failure \<Rightarrow> \<exists>seq. begun = Refused failure seq
    | None \<Rightarrow> if session_owner_shredded db (az_session (int_authz intent))
        then \<exists>seq. begun = Refused Failure.NotFoundOrDenied seq else \<exists>st. begun = Persisted st"
proof -
  obtain t where t: "begin_tx env intent db = Ok t" and begun: "t = Abandon begun \<or> (\<exists>b. t = Commit b begun db')"
    using end_tx_Ok [OF assms(1) [unfolded begin_invocation_def]] by blast
  have refuse: "\<exists>seq. begun = Refused failure seq" if "refuse env db intent failure = Ok t" for failure
    using that begun by (auto simp: refuse_def Let_def rbind_Ok_iff)
  have persist: "\<exists>st. begun = Persisted st" if "persist env db intent keys chain reservation = Ok t" for keys chain reservation
    using that begun by (auto simp: persist_def Let_def rbind_Ok_iff)
  from t assms(2) d obtain keys where
    "(case decision of
        Allowed chain reservation \<Rightarrow>
          if session_owner_shredded db (az_session (int_authz intent)) then refuse env db intent Failure.NotFoundOrDenied
          else persist env db intent keys chain reservation
      | _ \<Rightarrow> refuse env db intent
          (case decision_refusal decision of Some failure \<Rightarrow> failure | None \<Rightarrow> Failure.NotFoundOrDenied)) = Ok t"
    by (auto simp: begin_tx_def Let_def rbind_Ok_iff ensure_Ok_iff)
  then show ?thesis
    using refuse persist by (cases decision) (simp_all split: if_splits)
qed

lemma capture_dry_run_agrees:
  assumes alone: "alone ms" and now: "env_now (m_env (ms 1)) = env_now (m_env (ms 2))"
    and key: "call_key call = Some key"
    and unbound: "db_idem (in_store s) (call_tenant call, Capability.Capture, key) = None"
    and plan: "plan_body ms call (RequestBody.Capture capture) s = (s0, Ok plan)"
    and start: "begin_capture ms call capture s = (s1, Ok started)"
  shows "case plan_refusal plan of
      Some failure \<Rightarrow> started = Answered (reply_failed failure)
    | None \<Rightarrow> if session_owner_shredded (in_store s) (Some (cap_session capture))
        then started = Answered (reply_failed Failure.NotFoundOrDenied)
        else \<exists>st limits. started = StartedPersisted st limits"
proof -
  have others: "m_others (ms k) = (\<lambda>s. s)" for k using alone by (auto simp: alone_def)
  from plan obtain limits where limits: "capture_limits call (cap_session capture) (cap_limits capture) (m_env (ms 0)) (in_store s) = Ok limits"
    and p: "store_plan (m_env (ms 1)) (authz_of call Capability.Capture (Some (cap_target capture)) (Some (cap_session capture))
      (capture_cost limits (call_deadline_ms call))) (in_store s) = Ok plan"
    by (auto simp: plan_body_def tbind_def at_read_def others decide_def map_err_Ok_iff split: sum.splits)
  obtain i where i: "fresh_invocation (ms 1) = Ok i"
    using start key limits by (cases "fresh_invocation (ms 1)")
      (auto simp: begin_capture_def tbind_def at_read_def others lift_result_def)
  define intent where "intent = \<lparr>int_invocation = i,
    int_authz = authz_of call Capability.Capture (Some (cap_target capture)) (Some (cap_session capture))
      (capture_cost limits (call_deadline_ms call)),
    int_idempotency_key = key, int_request_digest = call_digest call\<rparr>"
  obtain db' res where b: "begin_invocation (m_env (ms 2)) intent (in_store s) = (db', res)" by (rule prod.exhaust)
  have run: "tbind (\<lambda>_. (s\<lparr>in_store := db'\<rparr>, map_err StoreFault res)) (\<lambda>begun.
          (case begun of
             Persisted status \<Rightarrow> treturn (StartedPersisted status limits)
           | Replayed status \<Rightarrow> tbind (replay_capture (ms 3) (ms 4) call status) (\<lambda>reply. treturn (Answered reply))
           | BeginConflict \<Rightarrow> treturn (Answered (reply_failed Failure.IdempotencyConflict))
           | Refused failure _ \<Rightarrow> treturn (Answered (reply_failed failure)))) s = (s1, Ok started)"
    using start by (simp add: begin_capture_def key tbind_def at_read_def at_store_def others lift_result_def
        limits i Let_def b [unfolded intent_def] del: One_nat_def)
  then obtain begun where begun: "res = Ok begun" by (cases res) (simp_all add: tbind_def)
  from p obtain decision where d: "authorize (store_view (in_store s)) (int_authz intent) (env_now (m_env (ms 2))) = Ok decision"
    and refusal: "plan_refusal plan = decision_refusal decision"
    by (rule store_plan_decision) (rule that, simp_all add: intent_def now [symmetric] del: One_nat_def)
  have "db_idem (in_store s) (az_tenant (int_authz intent), az_capability (int_authz intent), int_idempotency_key intent) = None"
    using unbound by (simp add: intent_def authz_of_def)
  from begin_decided [OF b [unfolded begun] this d] run show ?thesis
    by (auto simp: refusal begun tbind_def treturn_def intent_def authz_of_def split: option.splits if_splits)
qed

section \<open>Sizes\<close>

lemma read_chunk_fits:
  assumes "read_call ms call request s = (s', Ok reply)" and "reply_body reply = Chunk c"
  shows "length (chunk_bytes c) \<le> unat (payload_budget call)"
proof -
  have chunk: "length (chunk_bytes c) \<le> unat len" if "read_artifact db a offset len = Ok (Some c)" for db a offset len
    using that by (auto simp: read_artifact_def rbind_Ok_iff Let_def split: option.splits)
  obtain s1 plan where p: "artifact_plan (ms 0) (ms 1) call Capability.Read (read_artifact_ref request) s = (s1, Ok plan)"
    using assms(1) by (auto simp: read_call_def tbind_def split: prod.splits sum.splits)
  show ?thesis
  proof (cases "plan_refusal plan")
    case None
    with assms p obtain db where "read_artifact db (read_artifact_ref request) (read_offset request)
        (min (read_len request) (payload_budget call)) = Ok (Some c)"
      by (auto simp: read_call_def tbind_def at_read_def treturn_def reply_failed_def Let_def map_err_Ok_iff
          split: sum.splits option.splits)
    from chunk [OF this] show ?thesis by (simp add: min_def word_le_nat_alt split: if_splits)
  next
    case (Some failure)
    with assms p show ?thesis
      by (auto simp: read_call_def deny_def tbind_def treturn_def reply_failed_def split: prod.splits sum.splits)
  qed
qed


lemma min_div_bound:
  fixes n p q :: u32
  shows "unat (min n (p div q)) * unat q \<le> unat p"
proof -
  have "unat (min n (p div q)) \<le> unat p div unat q" by (simp add: min_def word_le_nat_alt unat_div)
  then have "unat (min n (p div q)) * unat q \<le> (unat p div unat q) * unat q" by (rule mult_le_mono1)
  also have "\<dots> \<le> unat p" by (rule div_times_less_eq_dividend)
  finally show ?thesis .
qed

lemma deny_fails: "deny m call capability session failure s = (s', Ok reply) \<Longrightarrow> reply_body reply = Failed failure"
  by (auto simp: deny_def tbind_def treturn_def reply_failed_def split: prod.splits sum.splits)

lemma query_page_fits:
  assumes run: "query_call ms scans call request s = (s', Ok reply)" and page: "reply_body reply = ResponseBody.QueryPage page"
  shows "length (result_refs page) * 32 \<le> unat (payload_budget call)"
proof -
  let ?limit = "unat (min (query_limit request) (payload_budget call div QUERY_REF_BYTES))"
  from run [unfolded query_call_def Let_def] have "length (result_refs page) \<le> ?limit"
  proof (cases rule: tbind_cases)
    case (ok s1 plan)
    show ?thesis
    proof (cases "plan_refusal plan")
      case (Some failure)
      with ok(2) deny_fails page show ?thesis by fastforce
    next
      case None
      with ok(2) page show ?thesis
        by (auto simp: tbind_def treturn_def reply_failed_def split: option.splits prod.splits sum.splits)
    qed
  qed simp
  then have "length (result_refs page) * 32 \<le> ?limit * 32" by (rule mult_le_mono1)
  also have "\<dots> \<le> unat (payload_budget call)"
    using min_div_bound [of "query_limit request" "payload_budget call" QUERY_REF_BYTES] by (simp add: QUERY_REF_BYTES_def)
  finally show ?thesis .
qed

lemma audit_page_fits:
  assumes run: "audit_query_call ms scans call request s = (s', Ok reply)" and page: "reply_body reply = ResponseBody.AuditPage page"
  shows "length (page_records page) * 160 \<le> unat (payload_budget call)"
proof -
  let ?limit = "unat (min (aq_limit request) (payload_budget call div AUDIT_RECORD_BYTES))"
  from run [unfolded audit_query_call_def Let_def] have "length (page_records page) \<le> ?limit"
  proof (cases rule: tbind_cases)
    case (ok s1 plan)
    show ?thesis
    proof (cases "plan_refusal plan")
      case (Some failure)
      with ok(2) deny_fails page show ?thesis by fastforce
    next
      case None
      with ok(2) page show ?thesis
        by (auto simp: tbind_def treturn_def reply_of_def split: prod.splits sum.splits)
    qed
  qed simp
  then have "length (page_records page) * 160 \<le> ?limit * 160" by (rule mult_le_mono1)
  also have "\<dots> \<le> unat (payload_budget call)"
    using min_div_bound [of "aq_limit request" "payload_budget call" AUDIT_RECORD_BYTES] by (simp add: AUDIT_RECORD_BYTES_def)
  finally show ?thesis .
qed

section \<open>The text view\<close>

text \<open>The cut is the longest prefix within the limit that ends at a character boundary.\<close>

lemma find_rev_upt:
  assumes "P 0"
  obtains k where "find P (rev [0..<Suc n]) = Some k" and "k \<le> n" and "P k" and "\<And>j. k < j \<Longrightarrow> j \<le> n \<Longrightarrow> \<not> P j"
proof (induction n arbitrary: thesis)
  case 0
  with assms show ?case by simp
next
  case (Suc n)
  show ?case
  proof (cases "P (Suc n)")
    case True
    then show ?thesis by (intro Suc.prems [of "Suc n"]) simp_all
  next
    case False
    from Suc.IH obtain k where "find P (rev [0..<Suc n]) = Some k" "k \<le> n" "P k" "\<And>j. k < j \<Longrightarrow> j \<le> n \<Longrightarrow> \<not> P j" by blast
    with False show ?thesis by (intro Suc.prems [of k]) (auto simp: le_Suc_eq)
  qed
qed

lemma cut_text_longest:
  "\<exists>k \<le> length t. cut_text (Some t) n = (Some (take k t), unat n < length t) \<and> is_char_boundary t k \<and> k \<le> unat n \<and>
     (\<forall>j. k < j \<and> j \<le> min (unat n) (length t) \<longrightarrow> \<not> is_char_boundary t j)"
proof (cases "length t \<le> unat n")
  case True
  then show ?thesis by (intro exI [of _ "length t"]) (simp add: cut_text_def is_char_boundary_def)
next
  case False
  have "is_char_boundary t 0" by (simp add: is_char_boundary_def)
  then obtain k where "find (is_char_boundary t) (rev [0..<Suc (unat n)]) = Some k" "k \<le> unat n" "is_char_boundary t k"
    "\<And>j. k < j \<Longrightarrow> j \<le> unat n \<Longrightarrow> \<not> is_char_boundary t j" by (rule find_rev_upt [where n = "unat n"]) blast
  with False show ?thesis by (intro exI [of _ k]) (simp add: cut_text_def del: upt_Suc)
qed


lemma transfer_of_text:
  "tf_text_view (transfer_of call limits output elapsed revoked) =
     fst (cut_text (po_text_view output)
       (min (case max_output_bytes limits of Some n \<Rightarrow> n | None \<Rightarrow> 0)
         (saturating_sub (ucast (payload_budget call)) (source_len (po_source output)))))"
  "tf_truncated (transfer_of call limits output elapsed revoked) =
     snd (cut_text (po_text_view output)
       (min (case max_output_bytes limits of Some n \<Rightarrow> n | None \<Rightarrow> 0)
         (saturating_sub (ucast (payload_budget call)) (source_len (po_source output)))))"
  "tf_output_bytes (transfer_of call limits output elapsed revoked) =
     (case tf_text_view (transfer_of call limits output elapsed revoked) of Some text \<Rightarrow> len_u64 (length text) | None \<Rightarrow> 0)"
  "tf_source (transfer_of call limits output elapsed revoked) = po_source output"
  "tf_envelope (transfer_of call limits output elapsed revoked) = po_envelope output"
  by (simp_all add: transfer_of_def Let_def split: prod.split)

lemma cut_text_length:
  assumes "fst (cut_text whole n) = Some t"
  shows "length t \<le> unat n"
proof (cases whole)
  case (Some w)
  then show ?thesis using cut_text_longest [of w n] assms by auto
qed (use assms in \<open>simp add: cut_text_def\<close>)

lemma len_u64_exact: "n \<le> unat (k :: u64) \<Longrightarrow> unat (len_u64 n) = n"
  using u64_bound [of k] by (simp add: len_u64_def unat_of_nat)

lemma budget_u64: "unat (ucast (payload_budget call) :: u64) = unat (payload_budget call)"
  using unsigned_less [where ?'a = nat, of "payload_budget call"] by (simp add: unsigned_ucast_eq take_bit_nat_eq_self_iff)

lemma output_fits:
  assumes "max_output_bytes limits = Some n"
  shows "unat (tf_output_bytes (transfer_of call limits output elapsed revoked)) \<le> unat n \<and>
    unat (tf_output_bytes (transfer_of call limits output elapsed revoked)) + unat (source_len (po_source output)) \<le>
      max (unat (payload_budget call)) (unat (source_len (po_source output)))"
proof -
  let ?t = "transfer_of call limits output elapsed revoked"
  let ?room = "saturating_sub (ucast (payload_budget call)) (source_len (po_source output)) :: u64"
  have "unat (tf_output_bytes ?t) \<le> unat (min n ?room)"
  proof (cases "tf_text_view ?t")
    case (Some shown)
    then have "length shown \<le> unat (min n ?room)"
      using cut_text_length assms by (simp add: transfer_of_text(1))
    with Some show ?thesis by (simp add: transfer_of_text(3) len_u64_exact)
  qed (simp add: transfer_of_text(3))
  then show ?thesis
    by (auto simp: min_def word_le_nat_alt unat_saturating_sub budget_u64 split: if_splits)
qed

end
