(* ===== verification/Bindings.thy ===== *)
theory Bindings
  imports Directory
begin

text \<open>
  The byte strings that idempotency entries hash: both inputs are prefix codes of the fields they bind,
  so equal inputs have equal fields.
\<close>

lemma of_char_u8_inject: "(of_char c :: u8) = of_char d \<longleftrightarrow> c = d"
proof
  assume "(of_char c :: u8) = of_char d"
  then have "unat (of_nat (of_char c) :: u8) = unat (of_nat (of_char d) :: u8)"
    by (simp add: of_nat_of_char)
  then show "c = d" by (simp add: unsigned_of_nat take_bit_nat_eq_self)
qed simp

lemma bytes_of_inject: "bytes_of a = bytes_of b \<longleftrightarrow> a = b"
  unfolding bytes_of_def by (rule inj_map_eq_map) (simp add: inj_def of_char_u8_inject)

lemma length_bytes_of [simp]: "length (bytes_of s) = length s"
  by (simp add: bytes_of_def)

lemma length_prefixed_append:
  assumes "length_prefixed a @ x = length_prefixed b @ y" and "length a < 2 ^ 64" and "length b < 2 ^ 64"
  shows "a = b \<and> x = y"
proof -
  from assms have "to_le_bytes 8 (of_nat (length a) :: u64) @ a @ x = to_le_bytes 8 (of_nat (length b) :: u64) @ b @ y"
    by (simp add: length_prefixed_def)
  then have *: "to_le_bytes 8 (of_nat (length a) :: u64) = to_le_bytes 8 (of_nat (length b) :: u64)" "a @ x = b @ y"
    by (auto simp: append_eq_append_conv)
  from *(1) have "(of_nat (length a) :: u64) = of_nat (length b)" by (subst (asm) to_le_bytes_inject) simp_all
  then have "unat (of_nat (length a) :: u64) = unat (of_nat (length b) :: u64)" by (simp only:)
  then have "length a = length b" using assms(2,3) by (simp add: unsigned_of_nat take_bit_nat_eq_self)
  with *(2) show ?thesis by simp
qed

lemma capability_name_length: "length (Capability_name c) < 2 ^ 64"
  by (cases c) simp_all

lemma capability_name_inject: "Capability_name a = Capability_name b \<longleftrightarrow> a = b"
  by (cases a; cases b) simp_all

lemma grant_to_bytes_inject: "grant_to_bytes a = grant_to_bytes b \<longleftrightarrow> a = b"
  by (cases a; cases b) (simp add: id_to_bytes_def to_be_bytes_inject)

lemma session_to_bytes_inject: "session_to_bytes a = session_to_bytes b \<longleftrightarrow> a = b"
  by (cases a; cases b) (simp add: id_to_bytes_def to_be_bytes_inject)

lemma length_grant_to_bytes [simp]: "length (grant_to_bytes g) = 16"
  by (cases g) simp

lemma length_session_to_bytes [simp]: "length (session_to_bytes s) = 16"
  by (cases s) simp

lemma session_field:
  assumes "(case s of Some x \<Rightarrow> 1 # session_to_bytes x | None \<Rightarrow> [0]) @ p =
    (case t of Some x \<Rightarrow> 1 # session_to_bytes x | None \<Rightarrow> [0 :: u8]) @ q"
  shows "s = t \<and> p = q"
  using assms by (auto simp: append_eq_append_conv session_to_bytes_inject split: option.splits)

lemma target_field:
  assumes "(case s of Some x \<Rightarrow> 1 # length_prefixed (bytes_of x) | None \<Rightarrow> [0]) =
    (case t of Some x \<Rightarrow> 1 # length_prefixed (bytes_of x) | None \<Rightarrow> [0 :: u8])"
    and "case s of None \<Rightarrow> True | Some x \<Rightarrow> length x < 2 ^ 64"
    and "case t of None \<Rightarrow> True | Some x \<Rightarrow> length x < 2 ^ 64"
  shows "s = t"
proof (cases s)
  case (Some x)
  with assms(1) obtain y where y: "t = Some y" "length_prefixed (bytes_of x) = length_prefixed (bytes_of y)"
    by (auto split: option.splits)
  then show ?thesis
    using length_prefixed_append [of "bytes_of x" "[]" "bytes_of y" "[]"] assms(2,3) Some
    by (simp add: bytes_of_inject)
qed (use assms(1) in \<open>auto split: option.splits\<close>)

lemma binding_input_inject:
  assumes len: "length (int_request_digest a) = length (int_request_digest b)"
    and eq: "binding_input a = binding_input b"
    and ta: "case az_target (int_authz a) of None \<Rightarrow> True | Some t \<Rightarrow> length t < 2 ^ 64"
    and tb: "case az_target (int_authz b) of None \<Rightarrow> True | Some t \<Rightarrow> length t < 2 ^ 64"
  shows "int_request_digest a = int_request_digest b \<and> az_grant (int_authz a) = az_grant (int_authz b) \<and>
    az_capability (int_authz a) = az_capability (int_authz b) \<and>
    az_session (int_authz a) = az_session (int_authz b) \<and> az_target (int_authz a) = az_target (int_authz b)"
proof -
  let ?A = "int_authz a" and ?B = "int_authz b"
  let ?sess = "\<lambda>r. case az_session r of Some x \<Rightarrow> 1 # session_to_bytes x | None \<Rightarrow> [0 :: u8]"
  let ?targ = "\<lambda>r. case az_target r of Some x \<Rightarrow> 1 # length_prefixed (bytes_of x) | None \<Rightarrow> [0 :: u8]"
  from eq len have 1: "int_request_digest a = int_request_digest b" "az_grant ?A = az_grant ?B"
    "length_prefixed (bytes_of (Capability_name (az_capability ?A))) @ ?sess ?A @ ?targ ?A =
     length_prefixed (bytes_of (Capability_name (az_capability ?B))) @ ?sess ?B @ ?targ ?B"
    unfolding binding_input_def Let_def by (auto simp: append_eq_append_conv grant_to_bytes_inject)
  from length_prefixed_append [OF 1(3)] capability_name_length
  have 2: "az_capability ?A = az_capability ?B" "?sess ?A @ ?targ ?A = ?sess ?B @ ?targ ?B"
    by (simp_all add: bytes_of_inject capability_name_inject)
  from session_field [OF 2(2)] have 3: "az_session ?A = az_session ?B" "?targ ?A = ?targ ?B" by simp_all
  from target_field [OF 3(2) ta tb] 1 2 3 show ?thesis by simp
qed

lemma claim_input_inject:
  assumes "length (cl_request_digest a) = length (cl_request_digest b)" and "claim_input a = claim_input b"
  shows "cl_request_digest a = cl_request_digest b \<and> cl_grant a = cl_grant b \<and> cl_capability a = cl_capability b"
proof -
  from assms have 1: "cl_request_digest a = cl_request_digest b" "cl_grant a = cl_grant b"
    "length_prefixed (bytes_of (Capability_name (cl_capability a))) =
     length_prefixed (bytes_of (Capability_name (cl_capability b)))"
    unfolding claim_input_def by (auto simp: append_eq_append_conv grant_to_bytes_inject)
  from length_prefixed_append [of _ "[]" _ "[]", simplified, OF 1(3)] capability_name_length 1 show ?thesis
    by (simp add: bytes_of_inject capability_name_inject)
qed

end
