(* ===== verification/Samples.thy ===== *)
theory Samples
  imports Retrieval Bindings
begin

text \<open>
  A small store built by the operations themselves: one tenant, one root grant with a ceiling of ten
  fetches, one invocation begun with a reservation of two and dispatched.  The store properties are
  instantiated on it.
\<close>

definition sample_env :: Env where
  "sample_env = \<lparr>env_now = 10, env_crash = (\<lambda>_ _. False), env_sha256 = (\<lambda>bytes. bytes),
     env_blob_address = (\<lambda>_ bytes. bytes)\<rparr>"

definition sample_registration :: TenantRegistration where
  "sample_registration = \<lparr>reg_id = TenantId 1, reg_class = Operator, reg_verifying_key = [],
     reg_bound_uids = [], reg_parent = None, reg_ceilings = ceilings_default\<rparr>"

definition sample_root_grant :: RootGrant where
  "sample_root_grant = \<lparr>rg_id = GrantId 1, rg_holder = TenantId 1, rg_capabilities = {Capability.AuditQuery},
     rg_session_scope = SessionScope.Own, rg_target_scope = [], rg_audit_scope = AllScope,
     rg_ceilings = ceilings_default\<lparr>ceiling_fetches := Some 10\<rparr>, rg_not_before = 0, rg_expires_at = 100,
     rg_max_depth = 3\<rparr>"

definition sample_request :: AuthzRequest where
  "sample_request = \<lparr>az_tenant = TenantId 1, az_grant = GrantId 1, az_capability = Capability.AuditQuery,
     az_target = None, az_session = None, az_declared = cost_default\<lparr>fetches := 2\<rparr>\<rparr>"

definition sample_intent :: Intent where
  "sample_intent = \<lparr>int_invocation = InvocationId 5, int_authz = sample_request,
     int_idempotency_key = IdempotencyKey [7], int_request_digest = []\<rparr>"

definition sample_db1 :: Db where
  "sample_db1 = fst (register_tenant sample_env sample_registration empty_db)"

definition sample_db2 :: Db where
  "sample_db2 = fst (install_root_grant sample_env sample_root_grant sample_db1)"

definition sample_db3 :: Db where
  "sample_db3 = fst (begin_invocation sample_env sample_intent sample_db2)"

definition sample_db4 :: Db where
  "sample_db4 = fst (dispatch sample_env (InvocationId 5) sample_db3)"

lemma sample_reachable:
  "store_reachable sample_db1" "store_reachable sample_db2" "store_reachable sample_db3"
  "store_reachable sample_db4"
proof -
  show 1: "store_reachable sample_db1"
    unfolding sample_db1_def by (rule reachable_step [OF reachable_empty register_step])
  show 2: "store_reachable sample_db2"
    unfolding sample_db2_def by (rule reachable_step [OF 1 root_step])
  show 3: "store_reachable sample_db3"
    unfolding sample_db3_def by (rule reachable_step [OF 2 begin_step])
  show "store_reachable sample_db4"
    unfolding sample_db4_def by (rule reachable_step [OF 3 dispatch_step])
qed

lemma sample_db1_eq:
  "sample_db1 = empty_db\<lparr>db_data_keys := {(TenantId 1, 1)}, db_tenants := [TenantId 1 \<mapsto>
     \<lparr>tr_id = TenantId 1, tr_class = Operator, tr_verifying_key = [], tr_bound_uids = [], tr_parent = None,
      tr_ceilings = ceilings_default, tr_data_key_id = 1, tr_registered_at = 10\<rparr>]\<rparr>"
  by (simp add: sample_db1_def register_tenant_def register_tenant_tx_def sample_registration_def
      sample_env_def empty_db_def end_tx_def commit_def ensure_def INITIAL_DATA_KEY_ID_def fun_eq_iff)

lemma sample_db2_eq:
  "sample_db2 = sample_db1\<lparr>db_grants := [GrantId 1 \<mapsto>
     \<lparr>gr_id = GrantId 1, gr_issuer = TenantId 1, gr_holder = TenantId 1, gr_capabilities = [Capability.AuditQuery],
      gr_session_scope = SessionScope.Own, gr_target_patterns = [], gr_audit_scope = AllScope,
      gr_ceilings = ceilings_default\<lparr>ceiling_fetches := Some 10\<rparr>, gr_not_before = 0, gr_expires_at = 100,
      gr_parent = None, gr_depth = 0, gr_max_depth = 3\<rparr>]\<rparr>"
  by (simp add: sample_db2_def install_root_grant_def install_root_grant_tx_def root_to_grant_def
      sample_root_grant_def sample_db1_eq target_scope_parse_def put_new_grant_def grant_record_from_def
      Capability_ALL_def sample_env_def empty_db_def end_tx_def commit_def ok_or_def fun_eq_iff)

definition sample_record :: InvocationRecord where
  "sample_record = intent_record sample_env sample_intent [GrantId 1]
     \<lparr>rp_cost = cost_default\<lparr>fetches := 2\<rparr>, rp_ledgers = [LedgerGrant (GrantId 1), LedgerTenant (TenantId 1)]\<rparr>"

lemma sample_authorize:
  "authorize (store_view sample_db2) sample_request 10 = Ok (Allowed [GrantId 1]
     \<lparr>rp_cost = cost_default\<lparr>fetches := 2\<rparr>, rp_ledgers = [LedgerGrant (GrantId 1), LedgerTenant (TenantId 1)]\<rparr>)"
  by (simp add: authorize_def sample_request_def designated_chain_def store_view_def sample_db2_eq sample_db1_eq
      empty_db_def record_to_grant_def target_scope_parse_def check_chain_def load_chain.simps
      link_code_def acting_session_def target_admitted_def reserve_for_def ledger_states_def grant_ledger_def
      tenant_ledger_def ledger_used_def plan_reservation_def ledger_covers_def checked_add_def
      Dimension_ALL_def cost_default_def ceilings_default_def ensure_def)

lemma sample_quiet: "quiet sample_env"
  by (simp add: quiet_def sample_env_def)

lemma sample_keys: "tenant_keys sample_db2 (TenantId 1) = Ok \<lparr>kr_active = 1, kr_retiring = None\<rparr>"
  by (simp add: tenant_keys_def key_ids_def load_keyring_def sample_db2_eq sample_db1_eq empty_db_def
      ensure_def INITIAL_DATA_KEY_ID_def)

lemma sample_begin:
  "begin_invocation sample_env sample_intent sample_db2 = (sample_db3, Ok (Persisted (status_of sample_record)))"
  "db_invocations sample_db3 = [InvocationId 5 \<mapsto> sample_record]"
  "ledger_used sample_db3 (LedgerGrant (GrantId 1)) = cost_default\<lparr>fetches := 2\<rparr>"
  "db_grants sample_db3 = db_grants sample_db2" "db_audit_stub sample_db3 = []"
proof -
  have used: "ledger_used sample_db2 l = cost_default" for l
    by (simp add: ledger_used_def sample_db2_eq sample_db1_eq empty_db_def)
  have r: "reserve cost_default (cost_default\<lparr>fetches := 2\<rparr>) = Ok (cost_default\<lparr>fetches := 2\<rparr>)"
    by (simp add: reserve_def try_cost_from_def checked_add_def cost_default_def ok_or_def)
  obtain tx where tx: "begin_tx sample_env sample_intent sample_db2 =
      Ok (Commit (Some Boundary.PersistIntent) (Persisted (status_of sample_record)) tx)"
    "db_invocations tx = [InvocationId 5 \<mapsto> sample_record]"
    "ledger_used tx (LedgerGrant (GrantId 1)) = cost_default\<lparr>fetches := 2\<rparr>"
    "db_grants tx = db_grants sample_db2" "db_audit_stub tx = []"
    using sample_authorize sample_keys r used
    by (simp add: begin_tx_def sample_intent_def sample_env_def persist_def debits_def sample_record_def
        session_owner_shredded_def sample_request_def put_invocation_def put_ledger_def ledger_used_def
        intent_record_def sample_db2_eq sample_db1_eq empty_db_def ensure_def Let_def)
  moreover note sample_quiet
  ultimately show "begin_invocation sample_env sample_intent sample_db2 = (sample_db3, Ok (Persisted (status_of sample_record)))"
    "db_invocations sample_db3 = [InvocationId 5 \<mapsto> sample_record]"
    "ledger_used sample_db3 (LedgerGrant (GrantId 1)) = cost_default\<lparr>fetches := 2\<rparr>"
    "db_grants sample_db3 = db_grants sample_db2" "db_audit_stub sample_db3 = []"
    by (simp_all add: sample_db3_def begin_invocation_def end_tx_quiet)
qed

text \<open>The sample invocation released, as recovery releases it.\<close>

definition sample_db5 :: Db where
  "sample_db5 = fst (release_invocation sample_env (InvocationId 5) Abandoned sample_db3)"

lemma sample_released:
  obtains r where "db_invocations sample_db5 (InvocationId 5) = Some r" and "inv_state r = InvocationState.Released"
    and "store_reachable sample_db5"
proof -
  have "db_invocations sample_db3 (InvocationId 5) = Some sample_record" by (simp add: sample_begin(2))
  moreover have "lifecycle (inv_state sample_record) (Step.Release Abandoned) InvocationState.Released"
    by (simp add: sample_record_def intent_record_def release_intent)
  moreover have "last_seq sample_db3 + 1 < 2 ^ 64" by (simp add: last_seq_def sample_begin(5))
  ultimately obtain v tx r where "release_invocation sample_env (InvocationId 5) Abandoned sample_db3 = (tx, Ok v)"
    "db_invocations tx = (db_invocations sample_db3)(InvocationId 5 := Some r)" "inv_state r = InvocationState.Released"
    by (rule release_total_op [OF sample_quiet reachable_sound [OF sample_reachable(3)]])
  moreover have "store_reachable sample_db5"
    unfolding sample_db5_def by (rule reachable_step [OF sample_reachable(3) release_step])
  ultimately show ?thesis by (intro that [of r]) (simp_all add: sample_db5_def)
qed

text \<open>The root grant revoked.\<close>

definition sample_revoke :: RevokeGrant where
  "sample_revoke = \<lparr>rv_actor = TenantId 1, rv_grant = GrantId 1, rv_invocation = InvocationId 8\<rparr>"

definition sample_db6 :: Db where
  "sample_db6 = fst (revoke_grant sample_env sample_revoke sample_db2)"

lemma sample_revoked:
  obtains rrec where "db_revocations sample_db6 (GrantId 1) = Some rrec" and "rr_at_time rrec = 10"
    and "db_grants sample_db6 (GrantId 1) \<noteq> None" and "store_reachable sample_db6"
proof -
  let ?entry = "audit_entry_new (TenantId 1) (InvocationId 8) Capability.GrantRevoke InvocationState.Settled Success"
  have base: "db_audit_stub sample_db2 = []" "db_grants sample_db2 (GrantId 1) \<noteq> None"
    "db_revocations sample_db2 = (\<lambda>_. None)"
    by (simp_all add: sample_db2_eq sample_db1_eq empty_db_def)
  have room: "last_seq sample_db2 + 1 < 2 ^ 64" by (simp add: last_seq_def base(1))
  have "tenant_keys sample_db2 (ae_tenant ?entry) = Ok \<lparr>kr_active = 1, kr_retiring = None\<rparr>"
    by (simp add: audit_entry_new_def sample_keys)
  then obtain seq tx where app: "append_audit sample_env sample_db2 ?entry = Ok (seq, tx)"
    by (rule append_audit_succeeds [OF reachable_audit_inv [OF sample_reachable(2)] room])
  have grants: "db_grants tx = db_grants sample_db2" using app by (rule append_audit_frame) simp
  have db6: "sample_db6 = tx\<lparr>db_revocations := (db_revocations tx)(GrantId 1 := Some
      \<lparr>rr_grant = GrantId 1, rr_at_seq = seq, rr_at_time = env_now sample_env, rr_by = TenantId 1\<rparr>)\<rparr>"
    using app base(2,3)
    by (auto simp: sample_db6_def revoke_grant_def revoke_grant_tx_def sample_revoke_def end_tx_def commit_def Let_def)
  have reach: "store_reachable sample_db6"
    unfolding sample_db6_def by (rule reachable_step [OF sample_reachable(2) revoke_step])
  show ?thesis
    by (intro that [of "\<lparr>rr_grant = GrantId 1, rr_at_seq = seq, rr_at_time = env_now sample_env, rr_by = TenantId 1\<rparr>"])
      (use base(2) grants reach in \<open>simp_all add: db6 sample_env_def\<close>)
qed

text \<open>The tenant shredded.\<close>

definition sample_db7 :: Db where
  "sample_db7 = fst (shred_tenant sample_env [] [] (TenantId 1) sample_db2)"

lemma sample_shredded: "db_tombstones sample_db7 (TenantId 1) \<noteq> None" "store_reachable sample_db7"
proof -
  show "db_tombstones sample_db7 (TenantId 1) \<noteq> None"
    by (simp add: sample_db7_def shred_tenant_def shred_tenant_tx_def sample_db2_eq sample_db1_eq empty_db_def
        has_open_invocations_def end_tx_def commit_def ok_or_def ensure_def List.map_filter_simps)
  have "store_step sample_db2 sample_db7"
    unfolding sample_db7_def
    by (rule shred_step) (simp_all add: sample_db2_eq sample_db1_eq empty_db_def dom_def)
  with sample_reachable(2) show "store_reachable sample_db7" by (rule reachable_step)
qed

text \<open>The sample invocation with its transfer complete.\<close>

definition sample_transfer :: Transfer where
  "sample_transfer = \<lparr>tf_envelope = [1, 2, 3], tf_source = \<lparr>fingerprint = [], schema_id = [], producer_revision = []\<rparr>,
     tf_text_view = None, tf_truncated = False, tf_output_bytes = 3, tf_actual = cost_default\<lparr>fetches := 1\<rparr>,
     tf_revoked_after_effect = False\<rparr>"

definition sample_db8 :: Db where
  "sample_db8 = fst (complete_transfer sample_env (InvocationId 5) sample_transfer sample_db4)"

lemma sample_publishes:
  obtains db' st where "publish sample_env (InvocationId 5) sample_db8 = (db', Ok st)" and "store_reachable sample_db8"
proof -
  have "db_invocations sample_db3 (InvocationId 5) = Some sample_record" by (simp add: sample_begin(2))
  moreover have "inv_state sample_record = IntentPersisted" by (simp add: sample_record_def intent_record_def)
  ultimately obtain v r4 where r4: "dispatch sample_env (InvocationId 5) sample_db3 = (sample_db4, Ok v)"
    "db_invocations sample_db4 (InvocationId 5) = Some r4" "inv_state r4 = Dispatched"
    using dispatch_total_op [OF sample_quiet reachable_sound [OF sample_reachable(3)]]
    by (metis sample_db4_def fst_conv fun_upd_same)
  have "length (tf_envelope sample_transfer) \<le> MAX_PLAINTEXT_LEN"
    by (simp add: sample_transfer_def MAX_PLAINTEXT_LEN_def)
  with r4(2,3) obtain r8 where r8: "db_invocations sample_db8 (InvocationId 5) = Some r8" "inv_state r8 = TransferComplete"
    using transfer_total_op [OF sample_quiet reachable_sound [OF sample_reachable(4)]]
    by (metis sample_db8_def fst_conv fun_upd_same)
  have reach: "store_reachable sample_db8"
    unfolding sample_db8_def by (rule reachable_step [OF sample_reachable(4) transfer_step])
  from publish_total_op [OF sample_quiet reachable_sound [OF reach] r8] that reach show ?thesis by metis
qed

text \<open>A tenant between two data keys, with an idempotency entry still under the first.\<close>

definition sample_claim :: IdemClaim where
  "sample_claim = \<lparr>cl_tenant = TenantId 1, cl_grant = GrantId 1, cl_capability = Capability.SessionCreate,
     cl_key = IdempotencyKey [7], cl_request_digest = [], cl_invocation = InvocationId 5\<rparr>"

definition sample_rekeying :: Db where
  "sample_rekeying = sample_db1\<lparr>
     db_tenants := [TenantId 1 \<mapsto> (the (db_tenants sample_db1 (TenantId 1)))\<lparr>tr_data_key_id := 2\<rparr>],
     db_data_keys := {(TenantId 1, 1), (TenantId 1, 2)}, db_address_keys := {TenantId 1},
     db_rekey := [TenantId 1 \<mapsto> \<lparr>rk_tenant = TenantId 1, rk_from_key_id = 1, rk_to_key_id = 2, rk_keyspace = 0,
       rk_cursor = None, rk_visited = 0, rk_resealed = 0, rk_total = 1, rk_done = False, rk_started_at = 10,
       rk_finished_at = None\<rparr>],
     db_idem := [(TenantId 1, Capability.SessionCreate, IdempotencyKey [7]) \<mapsto>
       \<lparr>sealed_key = 1, sealed_value = \<lparr>idem_invocation = InvocationId 4, idem_request_binding = []\<rparr>\<rparr>]\<rparr>"

lemma sample_rekeying_keys:
  "tenant_keys sample_rekeying (cl_tenant sample_claim) = Ok \<lparr>kr_active = 2, kr_retiring = Some 1\<rparr>"
  "db_idem sample_rekeying (cl_tenant sample_claim, cl_capability sample_claim, cl_key sample_claim) =
     Some \<lparr>sealed_key = 1, sealed_value = \<lparr>idem_invocation = InvocationId 4, idem_request_binding = []\<rparr>\<rparr>"
  by (simp_all add: sample_rekeying_def sample_claim_def sample_db1_eq tenant_keys_def key_ids_def load_keyring_def
      ensure_def)


text \<open>The sample artifact published, and a session of the sample tenant.\<close>

definition sample_db9 :: Db where
  "sample_db9 = fst (publish sample_env (InvocationId 5) sample_db8)"

lemma sample_untouched:
  "db_tombstones sample_db9 (TenantId 1) = None" "db_blobs sample_db4 = (\<lambda>_. None)"
proof -
  have tomb: "db_tombstones (fst (transition env i step boundary f db)) = db_tombstones db" if "frames_stage f"
    for env i step boundary f db
    unfolding transition_def
    by (rule end_tx_inv [where P = "\<lambda>x. db_tombstones x = db_tombstones db"])
      (use transition_directory [OF that] in auto)
  have begin_tomb: "db_tombstones sample_db3 = db_tombstones sample_db2"
    unfolding sample_db3_def begin_invocation_def
    by (rule end_tx_inv [where P = "\<lambda>x. db_tombstones x = db_tombstones sample_db2"]) (use begin_directory in auto)
  have "db_tombstones sample_db9 = db_tombstones sample_db3"
    by (simp add: sample_db9_def publish_def tomb frames_stages sample_db8_def complete_transfer_def sample_db4_def
        dispatch_def)
  also have "\<dots> = db_tombstones sample_db2" by (rule begin_tomb)
  finally show "db_tombstones sample_db9 (TenantId 1) = None"
    by (simp add: sample_db2_eq sample_db1_eq empty_db_def)
  have "same_shelf sample_db2 sample_db3"
    unfolding sample_db3_def begin_invocation_def
    by (rule end_tx_inv [where P = "same_shelf sample_db2"])
      (auto intro: keeps_shelf_same begin_keeps_shelf keeps_shelf_refl)
  moreover have "same_shelf sample_db3 sample_db4"
    unfolding sample_db4_def dispatch_def transition_def
    by (rule end_tx_inv [where P = "same_shelf sample_db3"], rule keeps_shelf_same [OF keeps_shelf_refl],
        rule keeps_shelf_same, rule quiet_transition_shelf [OF reachable_ledger_inv [OF sample_reachable(3)] frames_stages(1)],
        erule quiet_stages(4)) auto
  ultimately have "db_blobs sample_db4 = db_blobs sample_db2" by (simp add: same_shelf_def)
  then show "db_blobs sample_db4 = (\<lambda>_. None)" by (simp add: sample_db2_eq sample_db1_eq empty_db_def)
qed

lemma transition_identity:
  assumes "ledger_inv db" and frame: "frames_stage f"
    and "db_invocations (fst (transition env i step boundary f db)) j = Some q"
  obtains p where "db_invocations db j = Some p" and "inv_tenant q = inv_tenant p"
proof -
  have "\<forall>q. db_invocations (fst (transition env i step boundary f db)) j = Some q \<longrightarrow>
      (\<exists>p. db_invocations db j = Some p \<and> inv_tenant q = inv_tenant p)"
    unfolding transition_def
  proof (rule end_tx_inv [where P = "\<lambda>x. \<forall>q. db_invocations x j = Some q \<longrightarrow>
      (\<exists>p. db_invocations db j = Some p \<and> inv_tenant q = inv_tenant p)"], simp)
    fix b v tx
    assume "transition_tx env i step boundary f db = Ok (Commit b v tx)"
    then obtain r nxt r1 db1 stubs parts where r: "db_invocations db i = Some r" "f db r = Ok (r1, db1)"
      and tx: "tx = put_invocation (db1\<lparr>db_audit_stub := stubs, db_audit := parts\<rparr>)
        (r1\<lparr>inv_state := nxt, inv_updated_at := env_now env\<rparr>)"
      by (rule transition_Commit)
    moreover have "inv_id r = i" using assms(1) r(1) by (simp add: ledger_inv_def wf_invocation_def)
    moreover have "inv_id r1 = inv_id r" "inv_tenant r1 = inv_tenant r" "db_invocations db1 = db_invocations db"
      using frame r(2) by (auto simp: frames_stage_def)
    ultimately show "\<forall>q. db_invocations tx j = Some q \<longrightarrow>
        (\<exists>p. db_invocations db j = Some p \<and> inv_tenant q = inv_tenant p)"
      by (auto simp: put_invocation_def)
  qed
  with assms(3) that show ?thesis by blast
qed

lemma sample_published:
  obtains st where "complete_transfer sample_env (InvocationId 5) sample_transfer sample_db4 = (sample_db8, Ok st)"
    and "st_tenant st = TenantId 1" and "db_locators sample_db9 (artifact_ref (InvocationId 5)) \<noteq> None"
    and "store_step sample_db8 sample_db9"
proof -
  have "db_invocations sample_db3 (InvocationId 5) = Some sample_record" by (simp add: sample_begin(2))
  moreover have "inv_state sample_record = IntentPersisted" by (simp add: sample_record_def intent_record_def)
  ultimately obtain v r4 where r4: "dispatch sample_env (InvocationId 5) sample_db3 = (sample_db4, Ok v)"
    "db_invocations sample_db4 (InvocationId 5) = Some r4" "inv_state r4 = Dispatched"
    using dispatch_total_op [OF sample_quiet reachable_sound [OF sample_reachable(3)]]
    by (metis sample_db4_def fst_conv fun_upd_same)
  have "length (tf_envelope sample_transfer) \<le> MAX_PLAINTEXT_LEN"
    by (simp add: sample_transfer_def MAX_PLAINTEXT_LEN_def)
  with r4(2,3) obtain st where t: "complete_transfer sample_env (InvocationId 5) sample_transfer sample_db4 = (sample_db8, Ok st)"
    using transfer_total_op [OF sample_quiet reachable_sound [OF sample_reachable(4)]]
    by (metis sample_db8_def fst_conv)
  obtain db' st' where p: "publish sample_env (InvocationId 5) sample_db8 = (db', Ok st')" "store_reachable sample_db8"
    by (rule sample_publishes)
  then have "db' = sample_db9" by (simp add: sample_db9_def)
  with publish_effect [OF reachable_sound [OF p(2)] p(1)]
  have "db_locators sample_db9 (artifact_ref (InvocationId 5)) \<noteq> None" by auto
  moreover have "store_step sample_db8 sample_db9" unfolding sample_db9_def by (rule publish_step)
  moreover have "st_tenant st = TenantId 1"
  proof -
    obtain r where "db_invocations sample_db4 (InvocationId 5) = Some r" "inv_tenant r = st_tenant st"
      by (rule transferred [OF sample_reachable(4) t])
    moreover have "inv_tenant r4 = TenantId 1"
      using r4(2) unfolding sample_db4_def dispatch_def
      by (rule transition_identity [OF reachable_ledger_inv [OF sample_reachable(3)] frames_stages(1)])
        (simp add: sample_begin(2) sample_record_def intent_record_def sample_intent_def sample_request_def split: if_splits)
    ultimately show ?thesis using r4(2) by simp
  qed
  ultimately show ?thesis using t that by blast
qed

definition sample_session :: NewSession where
  "sample_session = \<lparr>ns_session = SessionId 3, ns_owner = TenantId 1, ns_ceilings = ceilings_default,
     ns_invocation = InvocationId 3\<rparr>"

definition sample_db10 :: Db where
  "sample_db10 = fst (open_session sample_env sample_session None sample_db2)"


lemma sample_session_opened:
  "store_reachable sample_db10" "db_tombstones sample_db10 (TenantId 1) = None"
  "\<exists>r. db_sessions sample_db10 (SessionId 3) = Some r \<and> sr_owner r = TenantId 1"
  "db_locators sample_db10 = (\<lambda>_. None)"
proof -
  show "store_reachable sample_db10"
    unfolding sample_db10_def by (rule reachable_step [OF sample_reachable(2) session_step])
  let ?r = "\<lparr>sr_id = SessionId 3, sr_owner = TenantId 1, sr_parent = None, sr_ceilings = ceilings_default,
    sr_created_at = env_now sample_env\<rparr>"
  let ?entry = "(audit_entry_new (TenantId 1) (InvocationId 3) Capability.SessionCreate InvocationState.Settled Success)
    \<lparr>ae_session := Some (SessionId 3)\<rparr>"
  let ?db = "sample_db2\<lparr>db_sessions := (db_sessions sample_db2)(SessionId 3 := Some ?r)\<rparr>"
  have base: "db_audit_stub ?db = []" "db_sessions sample_db2 = (\<lambda>_. None)" "db_tenants sample_db2 (TenantId 1) \<noteq> None"
    "db_tombstones sample_db2 = (\<lambda>_. None)" "db_locators sample_db2 = (\<lambda>_. None)"
    by (simp_all add: sample_db2_eq sample_db1_eq empty_db_def)
  have "tenant_keys ?db t = tenant_keys sample_db2 t" for t by (rule tenant_keys_cong) simp_all
  then have keys: "tenant_keys ?db (ae_tenant ?entry) = Ok \<lparr>kr_active = 1, kr_retiring = None\<rparr>"
    by (simp add: audit_entry_new_def sample_keys)
  have "audit_inv ?db" using reachable_audit_inv [OF sample_reachable(2)] by (simp add: audit_inv_def)
  moreover have "last_seq ?db + 1 < 2 ^ 64" by (simp add: last_seq_def base(1))
  ultimately obtain seq tx where app: "append_audit sample_env ?db ?entry = Ok (seq, tx)"
    using keys by (rule append_audit_succeeds)
  have db10: "sample_db10 = tx"
    using app base(2,3)
    by (auto simp: sample_db10_def open_session_def open_session_tx_def sample_session_def end_tx_def commit_def Let_def)
  from app obtain stubs parts where tx: "tx = ?db\<lparr>db_audit_stub := stubs, db_audit := parts\<rparr>"
    by (rule append_audit_frame)
  show "db_tombstones sample_db10 (TenantId 1) = None" "db_locators sample_db10 = (\<lambda>_. None)"
    "\<exists>r. db_sessions sample_db10 (SessionId 3) = Some r \<and> sr_owner r = TenantId 1"
    by (simp_all add: db10 tx base)
qed

end
