(* ===== verification/Call_Samples.thy ===== *)
theory Call_Samples
  imports Handlers Samples
begin

text \<open>
  A store in which one tenant may capture from one origin into one session, and a call that begins such
  a capture with no other task running.  The properties of the orchestrator are instantiated on it.
\<close>

definition capture_scope :: TargetScope where
  "capture_scope = (case target_scope_parse [''https://a.org''] of Ok scope \<Rightarrow> scope | Err _ \<Rightarrow> [])"

lemma capture_scope_parse: "target_scope_parse [''https://a.org''] = Ok capture_scope"
  by code_simp

lemma capture_scope_admits:
  "(case origin_parse ''https://a.org/x'' of Err _ \<Rightarrow> False | Ok orig \<Rightarrow> target_scope_matches capture_scope orig)"
  by code_simp

definition capture_root :: RootGrant where
  "capture_root = \<lparr>rg_id = GrantId 1, rg_holder = TenantId 1, rg_capabilities = {Capability.Capture, Capability.GrantRevoke},
     rg_session_scope = SessionScope.Own, rg_target_scope = [''https://a.org''], rg_audit_scope = AllScope,
     rg_ceilings = ceilings_default, rg_not_before = 0, rg_expires_at = 100, rg_max_depth = 3\<rparr>"

definition capture_db0 :: Db where
  "capture_db0 = fst (install_root_grant sample_env capture_root sample_db1)"

definition capture_db :: Db where
  "capture_db = fst (open_session sample_env sample_session None capture_db0)"

lemma capture_db0_eq:
  "capture_db0 = sample_db1\<lparr>db_grants := [GrantId 1 \<mapsto>
     \<lparr>gr_id = GrantId 1, gr_issuer = TenantId 1, gr_holder = TenantId 1, gr_capabilities = [Capability.Capture, Capability.GrantRevoke],
      gr_session_scope = SessionScope.Own, gr_target_patterns = [''https://a.org''], gr_audit_scope = AllScope,
      gr_ceilings = ceilings_default, gr_not_before = 0, gr_expires_at = 100,
      gr_parent = None, gr_depth = 0, gr_max_depth = 3\<rparr>]\<rparr>"
  by (simp add: capture_db0_def install_root_grant_def install_root_grant_tx_def root_to_grant_def
      capture_root_def sample_db1_eq capture_scope_parse put_new_grant_def grant_record_from_def
      Capability_ALL_def sample_env_def empty_db_def end_tx_def commit_def ok_or_def fun_eq_iff)

lemma capture_reachable: "store_reachable capture_db0" "store_reachable capture_db"
proof -
  show 1: "store_reachable capture_db0"
    unfolding capture_db0_def by (rule reachable_step [OF sample_reachable(1) root_step])
  show "store_reachable capture_db"
    unfolding capture_db_def by (rule reachable_step [OF 1 session_step])
qed

definition capture_session_record :: SessionRecord where
  "capture_session_record = \<lparr>sr_id = SessionId 3, sr_owner = TenantId 1, sr_parent = None, sr_ceilings = ceilings_default,
     sr_created_at = 10\<rparr>"

lemma capture_db_eq:
  obtains stubs parts where "capture_db = capture_db0\<lparr>db_sessions := [SessionId 3 \<mapsto> capture_session_record],
    db_audit_stub := stubs, db_audit := parts\<rparr>"
proof -
  let ?entry = "(audit_entry_new (TenantId 1) (InvocationId 3) Capability.SessionCreate InvocationState.Settled Success)
    \<lparr>ae_session := Some (SessionId 3)\<rparr>"
  let ?db = "capture_db0\<lparr>db_sessions := [SessionId 3 \<mapsto> capture_session_record]\<rparr>"
  have base: "db_audit_stub ?db = []" "db_sessions capture_db0 = (\<lambda>_. None)" "db_tenants capture_db0 (TenantId 1) \<noteq> None"
    by (simp_all add: capture_db0_eq sample_db1_eq empty_db_def)
  have keys: "tenant_keys ?db (ae_tenant ?entry) = Ok \<lparr>kr_active = 1, kr_retiring = None\<rparr>"
    by (simp add: audit_entry_new_def tenant_keys_def key_ids_def load_keyring_def capture_db0_eq sample_db1_eq
        empty_db_def ensure_def INITIAL_DATA_KEY_ID_def)
  have "audit_inv ?db" using reachable_audit_inv [OF capture_reachable(1)] by (simp add: audit_inv_def)
  moreover have "last_seq ?db + 1 < 2 ^ 64" by (simp add: last_seq_def base(1))
  ultimately obtain seq tx where app: "append_audit sample_env ?db ?entry = Ok (seq, tx)"
    using keys by (rule append_audit_succeeds)
  have "capture_db = tx"
    using app base(2,3)
    by (auto simp: capture_db_def open_session_def open_session_tx_def sample_session_def end_tx_def commit_def Let_def
        capture_session_record_def sample_env_def)
  moreover from app obtain stubs parts where "tx = ?db\<lparr>db_audit_stub := stubs, db_audit := parts\<rparr>"
    by (rule append_audit_frame)
  ultimately show ?thesis by (intro that [of parts stubs]) simp
qed

lemma audit_extends_seq:
  assumes "audit_extends db tx" and "audit_inv db"
  shows "last_seq db \<le> last_seq tx \<and> last_seq tx \<le> last_seq db + 1"
  using assms(1) unfolding audit_extends_def
proof (elim disjE exE conjE)
  fix env entry seq db0 tx0
  assume "audit_kept db db0" and app: "append_audit env db0 entry = Ok (seq, tx0)" and "audit_kept tx0 tx"
  moreover have "audit_inv db0" using audit_inv_kept [OF \<open>audit_kept db db0\<close>] assms(2) by simp
  ultimately show ?thesis using append_audit_inv(2) [OF _ app] by (simp add: audit_kept_def last_seq_def)
qed (simp add: audit_kept_def last_seq_def)

lemma capture_db_seq: "last_seq capture_db + 1 < 2 ^ 64"
  using audit_extends_seq [OF store_step_audit [OF session_step] reachable_audit_inv [OF capture_reachable(1)],
      of sample_env sample_session None]
  by (simp add: capture_db_def last_seq_def capture_db0_eq sample_db1_eq empty_db_def)

definition capture_view :: Snapshot where
  "capture_view = store_view (capture_db0\<lparr>db_sessions := [SessionId 3 \<mapsto> capture_session_record]\<rparr>)"

lemma capture_db_view: "store_view capture_db = capture_view"
proof (rule capture_db_eq)
  fix stubs parts
  assume eq: "capture_db = capture_db0\<lparr>db_sessions := [SessionId 3 \<mapsto> capture_session_record],
    db_audit_stub := stubs, db_audit := parts\<rparr>"
  show ?thesis unfolding eq capture_view_def by (simp add: store_view_def ledger_used_def)
qed

definition capture_link :: Grant where
  "capture_link = \<lparr>g_id = GrantId 1, g_issuer = TenantId 1, g_holder = TenantId 1, g_capabilities = {Capability.Capture, Capability.GrantRevoke},
     g_session_scope = SessionScope.Own, g_target_scope = capture_scope, g_audit_scope = AllScope,
     g_ceilings = ceilings_default, g_not_before = 0, g_expires_at = 100, g_parent = None, g_depth = 0, g_max_depth = 3\<rparr>"

lemma capture_chain:
  "designated_chain capture_view (TenantId 1) (GrantId 1) Capability.Capture 10 = Ok (Ok [capture_link])"
  "designated_chain capture_view (TenantId 1) (GrantId 1) Capability.GrantRevoke 10 = Ok (Ok [capture_link])"
  by (simp_all add: designated_chain_def capture_view_def store_view_def capture_db0_eq sample_db1_eq empty_db_def
      record_to_grant_def capture_scope_parse check_chain_def load_chain.simps link_code_def capture_link_def ensure_def)

lemma u64_size: "unat (k :: u64) < 18446744073709551616"
  using u64_bound [of k] by simp

lemma capture_authorize:
  assumes "az_tenant request = TenantId 1" "az_grant request = GrantId 1" "az_capability request = Capability.Capture"
    "az_target request = Some ''https://a.org/x''" "az_session request = Some (SessionId 3)"
  shows "authorize capture_view request 10 = Ok (Allowed [GrantId 1] \<lparr>rp_cost = az_declared request,
    rp_ledgers = [LedgerGrant (GrantId 1), LedgerSession (SessionId 3), LedgerTenant (TenantId 1)]\<rparr>)"
proof -
  have target: "target_admitted [capture_link] Capability.Capture (Some ''https://a.org/x'')"
    using capture_scope_admits by (simp add: target_admitted_def capture_link_def split: sum.splits)
  have session: "acting_session capture_view request [capture_link] = Ok (Ok (Some (SessionId 3, TenantId 1)))"
    by (simp add: acting_session_def assms check_session_def capture_view_def store_view_def capture_session_record_def
        capture_link_def in_lineage_def)
  have "plan_reservation [\<lparr>ls_id = LedgerGrant (GrantId 1), ls_ceilings = ceilings_default, ls_used = cost_default, ls_own = True\<rparr>,
      \<lparr>ls_id = LedgerSession (SessionId 3), ls_ceilings = ceilings_default, ls_used = cost_default, ls_own = True\<rparr>,
      \<lparr>ls_id = LedgerTenant (TenantId 1), ls_ceilings = ceilings_default, ls_used = cost_default, ls_own = True\<rparr>]
      (az_declared request) = Ok (Fits \<lparr>rp_cost = az_declared request,
        rp_ledgers = [LedgerGrant (GrantId 1), LedgerSession (SessionId 3), LedgerTenant (TenantId 1)]\<rparr>)"
    by (simp add: plan_reservation_def ledger_covers_def checked_add_def Dimension_ALL_def cost_default_def
        ceilings_default_def ensure_def u64_size)
  then show ?thesis
    using target session capture_chain(1)
    by (simp add: authorize_def assms reserve_for_def ledger_states_def grant_ledger_def session_ledger_def tenant_ledger_def
        capture_view_def store_view_def capture_link_def capture_session_record_def capture_db0_eq sample_db1_eq empty_db_def
        ledger_used_def)
qed


text \<open>The call, alone on the store.\<close>

definition capture_moment :: Moment where
  "capture_moment = \<lparr>m_env = sample_env, m_random = Some [0, 0, 0, 0, 0, 0, 0, 0, 0, 5], m_past_deadline = False,
     m_cancelled = False, m_elapsed = 7, m_others = (\<lambda>s. s)\<rparr>"

definition capture_moments :: "nat \<Rightarrow> Moment" where
  "capture_moments k = capture_moment"

definition capture_sample_call :: Call where
  "capture_sample_call = \<lparr>call_tenant = TenantId 1, call_grant = GrantId 1, call_key = Some (IdempotencyKey [1]),
     call_digest = [], call_deadline_ms = 1000, call_max_frame = 65536\<rparr>"

definition capture_sample_request :: CaptureRequest where
  "capture_sample_request = \<lparr>cap_session = SessionId 3, cap_target = ''https://a.org/x'',
     cap_limits = \<lparr>max_output_bytes = None, max_transfer_bytes = None\<rparr>, cap_egress_policy = None\<rparr>"

definition capture_inner :: Inner where
  "capture_inner = \<lparr>in_store = capture_db, in_running = (\<lambda>_. None)\<rparr>"

definition capture_id :: InvocationId where
  "capture_id = (case fresh_invocation capture_moment of Ok i \<Rightarrow> i | Err _ \<Rightarrow> InvocationId 0)"

lemma capture_fresh: "fresh_invocation (capture_moments k) = Ok capture_id"
  by (simp add: capture_moments_def capture_id_def fresh_invocation_def capture_moment_def ok_or_def)

lemma capture_alone: "alone capture_moments"
  by (simp add: alone_def capture_moments_def capture_moment_def)

lemma capture_sample_limits:
  obtains limits where "capture_limits capture_sample_call (SessionId 3) \<lparr>max_output_bytes = None, max_transfer_bytes = None\<rparr>
    sample_env capture_db = Ok limits"
proof -
  have "\<exists>c. caller_remaining capture_view (TenantId 1) [capture_link] (Some (SessionId 3)) = Ok c"
    by (simp add: caller_remaining_def capture_view_def store_view_def ledger_states_def grant_ledger_def session_ledger_def
        tenant_ledger_def capture_link_def capture_session_record_def)
  then have "\<exists>c. call_remaining capture_sample_call (SessionId 3) sample_env capture_db = Ok c"
    using capture_chain(1)
    by (auto simp: call_remaining_def capture_db_view capture_sample_call_def sample_env_def)
  then show ?thesis using that by (auto simp: capture_limits_def)
qed

lemma capture_db_parts:
  "db_idem capture_db = (\<lambda>_. None)" "db_invocations capture_db = (\<lambda>_. None)" "db_tombstones capture_db = (\<lambda>_. None)"
  "db_sessions capture_db = [SessionId 3 \<mapsto> capture_session_record]"
  "tenant_keys capture_db (TenantId 1) = Ok \<lparr>kr_active = 1, kr_retiring = None\<rparr>" "ledger_used capture_db l = cost_default"
  "db_locators capture_db = (\<lambda>_. None)" "db_revocations capture_db = (\<lambda>_. None)" "db_grants capture_db (GrantId 1) \<noteq> None"
proof -
  obtain stubs parts where eq: "capture_db = capture_db0\<lparr>db_sessions := [SessionId 3 \<mapsto> capture_session_record],
    db_audit_stub := stubs, db_audit := parts\<rparr>" by (rule capture_db_eq)
  show "db_idem capture_db = (\<lambda>_. None)" "db_invocations capture_db = (\<lambda>_. None)" "db_tombstones capture_db = (\<lambda>_. None)"
    "db_sessions capture_db = [SessionId 3 \<mapsto> capture_session_record]"
    "tenant_keys capture_db (TenantId 1) = Ok \<lparr>kr_active = 1, kr_retiring = None\<rparr>" "ledger_used capture_db l = cost_default"
  "db_locators capture_db = (\<lambda>_. None)" "db_revocations capture_db = (\<lambda>_. None)" "db_grants capture_db (GrantId 1) \<noteq> None"
    unfolding eq
    by (simp_all add: capture_db0_eq sample_db1_eq empty_db_def tenant_keys_def key_ids_def load_keyring_def ensure_def
        INITIAL_DATA_KEY_ID_def ledger_used_def)
qed

lemma capture_begins:
  assumes "az_tenant (int_authz intent) = TenantId 1" "az_grant (int_authz intent) = GrantId 1"
    "az_capability (int_authz intent) = Capability.Capture"
    "az_target (int_authz intent) = Some ''https://a.org/x''" "az_session (int_authz intent) = Some (SessionId 3)"
  shows "\<exists>tx st. begin_invocation sample_env intent capture_db = (tx, Ok (Persisted st))"
proof -
  let ?cost = "az_declared (int_authz intent)"
  let ?plan = "\<lparr>rp_cost = ?cost, rp_ledgers = [LedgerGrant (GrantId 1), LedgerSession (SessionId 3), LedgerTenant (TenantId 1)]\<rparr>"
  have "\<exists>used. reserve cost_default ?cost = Ok used"
    by (simp add: reserve_def try_cost_from_def checked_add_def cost_default_def ok_or_def u64_size)
  then obtain used where used: "reserve cost_default ?cost = Ok used" ..
  have "\<exists>tx st. persist sample_env capture_db intent keys chain ?plan = Ok (Commit (Some Boundary.PersistIntent) (Persisted st) tx)"
    for keys chain
    using used capture_db_parts(6)
    by (simp add: persist_def debits_def Let_def put_ledger_def ledger_used_def)
  moreover have "authorize (store_view capture_db) (int_authz intent) 10 = Ok (Allowed [GrantId 1] ?plan)"
    using capture_authorize [OF assms] by (simp add: capture_db_view)
  ultimately have "\<exists>tx st. begin_tx sample_env intent capture_db = Ok (Commit (Some Boundary.PersistIntent) (Persisted st) tx)"
    using assms capture_db_parts
    by (simp add: begin_tx_def Let_def ensure_def session_owner_shredded_def sample_env_def capture_session_record_def)
  then show ?thesis using end_tx_quiet [OF sample_quiet] by (fastforce simp: begin_invocation_def)
qed

lemma capture_sample_starts:
  obtains s1 status limits where
    "begin_capture capture_moments capture_sample_call capture_sample_request capture_inner = (s1, Ok (StartedPersisted status limits))"
proof -
  obtain limits where limits: "capture_limits capture_sample_call (SessionId 3) \<lparr>max_output_bytes = None, max_transfer_bytes = None\<rparr>
    sample_env capture_db = Ok limits" by (rule capture_sample_limits)
  define intent where "intent = \<lparr>int_invocation = capture_id,
    int_authz = authz_of capture_sample_call Capability.Capture (Some ''https://a.org/x'') (Some (SessionId 3))
      (capture_cost limits 1000),
    int_idempotency_key = IdempotencyKey [1], int_request_digest = []\<rparr>"
  have "\<exists>tx st. begin_invocation sample_env intent capture_db = (tx, Ok (Persisted st))"
    by (rule capture_begins) (simp_all add: intent_def authz_of_def capture_sample_call_def)
  then obtain tx st where b: "begin_invocation sample_env intent capture_db = (tx, Ok (Persisted st))" by blast
  have ms: "m_env (capture_moments k) = sample_env" "m_others (capture_moments k) = (\<lambda>s. s)" for k
    by (simp_all add: capture_moments_def capture_moment_def)
  have "call_key capture_sample_call = Some (IdempotencyKey [1])" "call_deadline_ms capture_sample_call = 1000"
    "call_digest capture_sample_call = []" by (simp_all add: capture_sample_call_def)
  then have "begin_capture capture_moments capture_sample_call capture_sample_request capture_inner =
      (capture_inner\<lparr>in_store := tx\<rparr>, Ok (StartedPersisted st limits))"
    using b limits
    by (simp add: begin_capture_def tbind_def treturn_def at_read_def at_store_def lift_result_def ms capture_fresh
        capture_sample_request_def capture_inner_def intent_def Let_def)
  then show ?thesis by (rule that)
qed


lemma capture_sample_plan:
  obtains s0 plan where "plan_body capture_moments capture_sample_call (RequestBody.Capture capture_sample_request) capture_inner =
    (s0, Ok plan)"
proof -
  obtain limits where limits: "capture_limits capture_sample_call (SessionId 3) \<lparr>max_output_bytes = None, max_transfer_bytes = None\<rparr>
    sample_env capture_db = Ok limits" by (rule capture_sample_limits)
  let ?request = "authz_of capture_sample_call Capability.Capture (Some ''https://a.org/x'') (Some (SessionId 3))
    (capture_cost limits (call_deadline_ms capture_sample_call))"
  have "\<exists>plan. store_plan sample_env ?request capture_db = Ok plan"
    using capture_authorize [of ?request]
    by (simp add: store_plan_def plan_call_def capture_db_view sample_env_def authz_of_def capture_sample_call_def)
  then obtain plan where "store_plan sample_env ?request capture_db = Ok plan" ..
  with limits show ?thesis
    by (intro that) (simp add: plan_body_def tbind_def at_read_def capture_moments_def capture_moment_def capture_inner_def
        capture_sample_request_def decide_def)
qed


text \<open>The tenant of the sample revokes its own grant.\<close>

lemma revoke_sample:
  obtains db2 reply revoked where "grant_revoke capture_moments capture_sample_call (GrantId 1) (capture_inner\<lparr>in_running := rs\<rparr>) =
      (cancel_revoked (GrantId 1) \<lparr>in_store = db2, in_running = rs\<rparr>, Ok reply)"
    and "reply_body reply = ResponseBody.GrantRevoked revoked"
    and "prior capture_sample_call Capability.GrantRevoke (IdempotencyKey [1]) sample_env capture_db = Ok (Ok Unbound)"
proof -
  have ms: "m_env (capture_moments k) = sample_env" "m_others (capture_moments k) = (\<lambda>s. s)" for k
    by (simp_all add: capture_moments_def capture_moment_def)
  have call: "call_key capture_sample_call = Some (IdempotencyKey [1])" "call_tenant capture_sample_call = TenantId 1"
    "call_grant capture_sample_call = GrantId 1" by (simp_all add: capture_sample_call_def)
  have prior: "prior capture_sample_call Capability.GrantRevoke key sample_env capture_db = Ok (Ok Unbound)" for key
    by (simp add: prior_def claimed_def claim_of_def call capture_db_parts)
  have decision: "revoke_decision capture_sample_call (GrantId 1) sample_env capture_db = Ok (Revoke (GrantId 1))"
  proof -
    have "subtree_walk capture_view (GrantId 1) (Suc 255) (GrantId 1) = Ok True"
      by (subst subtree_walk.simps(2)) simp
    then have "in_subtree capture_view (GrantId 1) (GrantId 1) = Ok True" by (simp add: in_subtree_def SUBTREE_WALK_LIMIT_def)
    moreover have "view_revocation capture_view (GrantId 1) = Ok None"
      by (simp add: capture_view_def store_view_def capture_db0_eq sample_db1_eq empty_db_def)
    ultimately show ?thesis
      using capture_chain(2) by (simp add: revoke_decision_def check_revoke_def call sample_env_def capture_db_view)
  qed
  let ?claim = "claim_of capture_sample_call Capability.GrantRevoke (IdempotencyKey [1]) capture_id"
  have "\<exists>m. claim_key sample_env ?claim capture_db = (capture_db\<lparr>db_idem := m\<rparr>, Ok (ClaimFresh capture_id))"
    by (rule exI, simp add: claim_key_def claim_tx_def claim_of_def call capture_db_parts Let_def end_tx_def commit_def)
  then obtain db1 m where db1: "claim_key sample_env ?claim capture_db = (db1, Ok (ClaimFresh capture_id))"
    and m: "db1 = capture_db\<lparr>db_idem := m\<rparr>" by blast
  have reach1: "store_reachable db1"
    using reachable_step [OF capture_reachable(2) claim_step, of sample_env ?claim] db1 by simp
  let ?entry = "audit_entry_new (TenantId 1) capture_id Capability.GrantRevoke InvocationState.Settled Success"
  have "tenant_keys db1 t = tenant_keys capture_db t" for t by (rule tenant_keys_cong) (simp_all add: m)
  then have "tenant_keys db1 (ae_tenant ?entry) = Ok \<lparr>kr_active = 1, kr_retiring = None\<rparr>"
    by (simp add: audit_entry_new_def capture_db_parts)
  moreover have "last_seq db1 + 1 < 2 ^ 64" using capture_db_seq by (simp add: m last_seq_def)
  ultimately obtain seq tx where app: "append_audit sample_env db1 ?entry = Ok (seq, tx)"
    using reachable_audit_inv [OF reach1] by (metis append_audit_succeeds)
  let ?revoke = "\<lparr>rv_actor = TenantId 1, rv_grant = GrantId 1, rv_invocation = capture_id\<rparr>"
  obtain db2 r where db2: "revoke_grant sample_env ?revoke db1 = (db2, Ok (Some r))"
    using app capture_db_parts(8,9)
    by (auto simp: m revoke_grant_def revoke_grant_tx_def Let_def end_tx_def commit_def)
  have "grant_revoke capture_moments capture_sample_call (GrantId 1) (capture_inner\<lparr>in_running := rs\<rparr>) =
      (cancel_revoked (GrantId 1) \<lparr>in_store = db2, in_running = rs\<rparr>, Ok (revoked_reply capture_id r))"
    by (simp add: grant_revoke_def call prior decision revoke_fresh_def bind_key_def tbind_def at_read_def at_store_def
        treturn_def lift_result_def ms capture_fresh capture_inner_def Let_def db1 db2)
  then show ?thesis by (rule that) (simp_all add: revoked_reply_def reply_of_def prior)
qed


text \<open>A read the grant of the sample does not allow.\<close>

definition sample_read :: ReadRequest where
  "sample_read = \<lparr>read_artifact_ref = ArtifactRef 1, read_offset = 0, read_len = 10\<rparr>"

definition sample_scans :: Scans where
  "sample_scans = \<lparr>scan_index_of = (\<lambda>_. []), scan_tenants = []\<rparr>"

lemma read_sample:
  obtains s' reply where "execute capture_moments sample_scans capture_sample_call (RequestBody.Read sample_read) capture_inner =
    (s', Ok reply)"
proof -
  have ms: "m_env (capture_moments k) = sample_env" "m_others (capture_moments k) = (\<lambda>s. s)" for k
    by (simp_all add: capture_moments_def capture_moment_def)
  have call: "call_tenant capture_sample_call = TenantId 1" "call_grant capture_sample_call = GrantId 1"
    by (simp_all add: capture_sample_call_def)
  have art: "artifact capture_db a = Ok None" for a by (simp add: artifact_def published_def capture_db_parts)
  have "designated_chain capture_view (TenantId 1) (GrantId 1) Capability.Read 10 = Ok (Err (Decision.Denied CapabilityNotGranted))"
    by (simp add: designated_chain_def capture_view_def store_view_def capture_db0_eq sample_db1_eq empty_db_def
        record_to_grant_def capture_scope_parse check_chain_def load_chain.simps link_code_def ensure_def)
  then have "\<exists>plan. decide (authz_of capture_sample_call Capability.Read None None cost_default) sample_env capture_db = Ok plan \<and>
      plan_refusal plan = Some (failure_denied CapabilityNotGranted)"
    by (simp add: decide_def store_plan_def plan_call_def authorize_def authz_of_def call capture_db_view sample_env_def)
  then obtain plan where plan: "decide (authz_of capture_sample_call Capability.Read None None cost_default) sample_env capture_db = Ok plan"
    "plan_refusal plan = Some (failure_denied CapabilityNotGranted)" by blast
  let ?note = "\<lparr>an_tenant = TenantId 1, an_invocation = capture_id, an_capability = Capability.Read,
    an_session = None, an_outcome = AuditRefused (failure_denied CapabilityNotGranted), an_grant = Some (GrantId 1),
    an_audit_scope = None\<rparr>"
  have "tenant_keys capture_db (ae_tenant ((audit_entry_new (TenantId 1) capture_id Capability.Read InvocationState.Denied
      (failure_kind (failure_denied CapabilityNotGranted)))\<lparr>ae_session := None, ae_grant := Some (GrantId 1), ae_audit_scope := None\<rparr>)) =
      Ok \<lparr>kr_active = 1, kr_retiring = None\<rparr>"
    by (simp add: audit_entry_new_def capture_db_parts)
  then obtain seq tx where "append_audit sample_env capture_db ((audit_entry_new (TenantId 1) capture_id Capability.Read
      InvocationState.Denied (failure_kind (failure_denied CapabilityNotGranted)))
        \<lparr>ae_session := None, ae_grant := Some (GrantId 1), ae_audit_scope := None\<rparr>) = Ok (seq, tx)"
    by (rule append_audit_succeeds [OF reachable_audit_inv [OF capture_reachable(2)] capture_db_seq])
  then have "record_audit sample_env ?note capture_db = (tx, Ok seq)"
    by (simp add: record_audit_def end_tx_def commit_def)
  with art plan show ?thesis
    by (intro that [of "\<lparr>in_store = tx, in_running = (\<lambda>_. None)\<rparr>" "reply_failed (failure_denied CapabilityNotGranted)"])
      (simp add: execute_def read_call_def artifact_plan_def deny_def tbind_def treturn_def at_read_def at_store_def
        lift_result_def ms call capture_fresh capture_inner_def sample_read_def Let_def failure_denied_def)
qed

end
