(* ===== verification/Captures.thy ===== *)
theory Captures
  imports Call_Samples
begin

text \<open>
  A capture from its intent to its reply, with other tasks working on the same store: whatever the
  producer does, the invocation is closed when the reply leaves, and the reply is the one a replay of
  the closed invocation gives.
\<close>

section \<open>Moments\<close>

text \<open>Other tasks only run store operations and leave this invocation's record alone.\<close>

definition considerate :: "InvocationId \<Rightarrow> Moment \<Rightarrow> bool" where
  "considerate i m \<longleftrightarrow> (\<forall>s. store_step\<^sup>*\<^sup>* (in_store s) (in_store (m_others m s)) \<and>
     (db_invocations (in_store s) i \<noteq> None \<longrightarrow>
        db_invocations (in_store (m_others m s)) i = db_invocations (in_store s) i))"

definition steady :: "InvocationId \<Rightarrow> (nat \<Rightarrow> Moment) \<Rightarrow> bool" where
  "steady i ms \<longleftrightarrow> (\<forall>k. quiet (m_env (ms k)) \<and> considerate i (ms k))"

lemma steady_polite: "steady i ms \<Longrightarrow> polite ms"
  by (simp add: steady_def polite_def considerate_def)

definition holds :: "InvocationId \<Rightarrow> (InvocationRecord \<Rightarrow> bool) \<Rightarrow> Inner \<Rightarrow> bool" where
  "holds i P s \<longleftrightarrow> store_reachable (in_store s) \<and> (\<exists>r. db_invocations (in_store s) i = Some r \<and> P r)"

definition roomy :: "Inner \<Rightarrow> bool" where
  "roomy s \<longleftrightarrow> last_seq (in_store s) + 1 < 2 ^ 64"

definition closed :: "InvocationId \<Rightarrow> InvocationState \<Rightarrow> Inner \<Rightarrow> Reply \<Rightarrow> bool" where
  "closed i state s reply \<longleftrightarrow> store_reachable (in_store s) \<and> is_terminal state \<and>
     (\<exists>r. db_invocations (in_store s) i = Some r \<and> inv_state r = state \<and>
        replay_reply (status_of r) (in_store s) = Ok reply)"

lemma steadyD: "steady i ms \<Longrightarrow> quiet (m_env (ms k))" "steady i ms \<Longrightarrow> considerate i (ms k)"
  by (simp_all add: steady_def)

lemma holds_others: "considerate i m \<Longrightarrow> holds i P s \<Longrightarrow> holds i P (m_others m s)"
  unfolding holds_def considerate_def by (metis option.distinct(1) reachable_steps)

lemma last_seq_mono:
  assumes "store_step\<^sup>*\<^sup>* db db'" and "store_reachable db"
  shows "last_seq db \<le> last_seq db'"
proof -
  have "store_reachable db' \<and> last_seq db \<le> last_seq db'"
    using assms
  proof (induction rule: rtranclp_induct)
    case (step y z)
    then have "last_seq y \<le> last_seq z"
      using audit_extends_seq [OF store_step_audit] reachable_audit_inv by blast
    with step show ?case using reachable_step by (meson le_trans)
  qed simp
  then show ?thesis ..
qed

section \<open>Store steps of the capture\<close>

lemma transition_Ok:
  assumes "transition env i step boundary f db = (tx, Ok v)" and "sound db" and "frames_stage f"
  obtains r nxt r1 db1 where "db_invocations db i = Some r" and "lifecycle (inv_state r) step nxt"
    and "f db r = Ok (r1, db1)"
    and "db_invocations tx i = Some (r1\<lparr>inv_state := nxt, inv_updated_at := env_now env\<rparr>)"
    and "v = status_of (r1\<lparr>inv_state := nxt, inv_updated_at := env_now env\<rparr>)"
    and "db_tombstones tx = db_tombstones db" and "db_locators tx = db_locators db1"
proof -
  from assms(1) have "transition_tx env i step boundary f db = Ok (Abandon v) \<and> tx = db \<or>
      (\<exists>b. transition_tx env i step boundary f db = Ok (Commit b v tx))"
    unfolding transition_def by (rule end_tx_Ok)
  then obtain b where t: "transition_tx env i step boundary f db = Ok (Commit b v tx)"
    by (auto simp: transition_tx_def rbind_Ok_iff Let_def)
  then obtain r nxt r1 db1 stubs parts where r: "db_invocations db i = Some r" "lifecycle (inv_state r) step nxt"
    "f db r = Ok (r1, db1)"
    and tx: "tx = put_invocation (db1\<lparr>db_audit_stub := stubs, db_audit := parts\<rparr>)
        (r1\<lparr>inv_state := nxt, inv_updated_at := env_now env\<rparr>)"
    by (rule transition_Commit)
  have "inv_id r1 = i" "same_directory db db1"
    using assms(2,3) r by (auto simp: frames_stage_def sound_def ledger_inv_def wf_invocation_def)
  moreover have "v = status_of (r1\<lparr>inv_state := nxt, inv_updated_at := env_now env\<rparr>)"
    using t r(1,3) r(2) [unfolded next_state_iff [symmetric]]
    by (auto simp: transition_tx_def rbind_Ok_iff Let_def existing_invocation_def ok_or_Ok_iff map_err_Ok_iff)
  ultimately show ?thesis
    using r by (intro that [of r nxt r1 db1]) (simp_all add: tx put_invocation_def same_directory_def)
qed


lemma store_op:
  assumes steady: "steady i ms" and h: "holds i P s"
    and op: "\<And>env db. op env db = transition env i step boundary (f env) db"
    and frame: "\<And>env. frames_stage (f env)"
    and step: "\<And>env db. store_step db (fst (op env db))"
    and total: "\<And>env db r. quiet env \<Longrightarrow> sound db \<Longrightarrow> db_invocations db i = Some r \<Longrightarrow> P r \<Longrightarrow>
      last_seq db + 1 < 2 ^ 64 \<Longrightarrow> \<exists>tx v. op env db = (tx, Ok v)"
    and run: "at_store (ms k) op s = (s', res)" and room: "roomy s'"
  obtains r nxt r1 db db1 where "store_reachable db" and "store_step\<^sup>*\<^sup>* (in_store s) db"
    and "db_invocations db i = Some r" and "P r" and "inv_id r = i" and "lifecycle (inv_state r) step nxt"
    and "f (m_env (ms k)) db r = Ok (r1, db1)"
    and "db_invocations (in_store s') i = Some (r1\<lparr>inv_state := nxt, inv_updated_at := env_now (m_env (ms k))\<rparr>)"
    and "res = Ok (status_of (r1\<lparr>inv_state := nxt, inv_updated_at := env_now (m_env (ms k))\<rparr>))"
    and "db_tombstones (in_store s') = db_tombstones db" and "db_locators (in_store s') = db_locators db1"
    and "store_reachable (in_store s')" and "op (m_env (ms k)) db = (in_store s', Ok (status_of (r1\<lparr>inv_state := nxt,
      inv_updated_at := env_now (m_env (ms k))\<rparr>)))"
proof -
  let ?env = "m_env (ms k)" and ?db = "in_store (m_others (ms k) s)"
  have "holds i P (m_others (ms k) s)" using holds_others [OF steadyD(2) [OF steady] h] .
  then obtain r where reach: "store_reachable ?db" and r: "db_invocations ?db i = Some r" "P r"
    by (auto simp: holds_def)
  obtain tx q where o: "op ?env ?db = (tx, q)" by (cases "op ?env ?db")
  with run have s': "in_store s' = tx" "res = map_err StoreFault q" by (auto simp: at_store_def)
  have st: "store_step ?db tx" using step [of ?db ?env] o by simp
  then have reach': "store_reachable tx" by (rule reachable_step [OF reach])
  have "last_seq ?db + 1 < 2 ^ 64"
    using last_seq_mono [OF r_into_rtranclp [where r = store_step, OF st] reach] room
    by (simp add: roomy_def s')
  from total [OF steadyD(1) [OF steady] reachable_sound [OF reach] r this, of k] o obtain v where q: "q = Ok v" by auto
  have t: "transition ?env i step boundary (f ?env) ?db = (tx, Ok v)" using o q op [of ?env ?db] by simp
  have id: "inv_id r = i" using reachable_ledger_inv [OF reach] r(1) by (simp add: ledger_inv_def wf_invocation_def)
  have later: "store_step\<^sup>*\<^sup>* (in_store s) ?db" using steadyD(2) [OF steady, of k] by (simp add: considerate_def)
  from t reachable_sound [OF reach] frame show ?thesis
  proof (rule transition_Ok)
    fix r' nxt r1 db1
    assume a: "db_invocations ?db i = Some r'" "lifecycle (inv_state r') step nxt" "f ?env ?db r' = Ok (r1, db1)"
      "db_invocations tx i = Some (r1\<lparr>inv_state := nxt, inv_updated_at := env_now ?env\<rparr>)"
      "v = status_of (r1\<lparr>inv_state := nxt, inv_updated_at := env_now ?env\<rparr>)"
      "db_tombstones tx = db_tombstones ?db" "db_locators tx = db_locators db1"
    then have "r' = r" using r(1) by simp
    with a show ?thesis
      using o q s' reach' reach later r id by (intro that [of ?db r nxt r1 db1]) simp_all
  qed
qed

lemma closedI:
  assumes "store_reachable (in_store s)" and "db_invocations (in_store s) i = Some r" and "inv_state r = state"
    and "is_terminal state" and "replay_reply (status_of r) (in_store s) = Ok reply"
  shows "closed i state s reply"
  using assms by (auto simp: closed_def)

lemma release_store_closes:
  assumes "steady i ms" and h: "holds i (\<lambda>r. lifecycle (inv_state r) (Step.Release reason) InvocationState.Released) s"
    and o: "at_store (ms k) (\<lambda>env. release_invocation env i reason) s = (s', st)" and "roomy s'"
  obtains r where "st = Ok (status_of r)" and "db_invocations (in_store s') i = Some r"
    and "inv_state r = InvocationState.Released"
    and "inv_terminal r = Some (Terminal.Released reason)" and "inv_id r = i" and "store_reachable (in_store s')"
proof -
  have total: "\<exists>tx v. release_invocation env i reason db = (tx, Ok v)"
    if "quiet env" "sound db" "db_invocations db i = Some r" "lifecycle (inv_state r) (Step.Release reason) InvocationState.Released"
      "last_seq db + 1 < 2 ^ 64" for env db r
    using release_total_op [OF that] by blast
  have op: "release_invocation env i reason db =
      transition env i (Step.Release reason) Boundary.Terminal (stage_release reason) db" for env db
    by (simp add: release_invocation_def)
  show ?thesis
  proof (rule store_op [where f = "\<lambda>_. stage_release reason" and op = "\<lambda>env. release_invocation env i reason",
        OF assms(1) h op frames_stages(5) release_step total o \<open>roomy s'\<close>])
    fix r nxt db db1 and r1 :: InvocationRecord
    assume a: "inv_id r = i" "lifecycle (inv_state r) (Step.Release reason) nxt" "stage_release reason db r = Ok (r1, db1)"
      "db_invocations (in_store s') i = Some (r1\<lparr>inv_state := nxt, inv_updated_at := env_now (m_env (ms k))\<rparr>)"
      "st = Ok (status_of (r1\<lparr>inv_state := nxt, inv_updated_at := env_now (m_env (ms k))\<rparr>))"
      "store_reachable (in_store s')"
    have "nxt = InvocationState.Released" using a(2) by (auto elim: lifecycleE)
    moreover have "inv_terminal r1 = Some (Terminal.Released reason)" "inv_id r1 = i"
      using a(1,3) by (auto simp: stage_release_def elim!: apply_settlement_frame)
    ultimately show ?thesis
      using a(4-6) by (intro that [of "r1\<lparr>inv_state := nxt, inv_updated_at := env_now (m_env (ms k))\<rparr>"]) simp_all
  qed
qed

lemma release_call_closes:
  assumes "steady i ms" and h: "holds i (\<lambda>r. lifecycle (inv_state r) (Step.Release reason) InvocationState.Released) s"
    and run: "release_call (ms k) i reason s = (s', res)" and "roomy s'"
  shows "\<exists>reply. res = Ok reply \<and> closed i InvocationState.Released s' reply"
proof -
  obtain st where o: "at_store (ms k) (\<lambda>env. release_invocation env i reason) s = (s', st)"
    using run by (auto simp: release_call_def tbind_def treturn_def Let_def split: prod.splits sum.splits)
  from assms(1) h o \<open>roomy s'\<close> obtain r where r: "st = Ok (status_of r)" "db_invocations (in_store s') i = Some r"
    "inv_state r = InvocationState.Released" "inv_terminal r = Some (Terminal.Released reason)" "inv_id r = i"
    "store_reachable (in_store s')" by (rule release_store_closes)
  have "res = Ok (reply_of i (Failed (release_reply reason)))"
    using run o r by (auto simp: release_call_def tbind_def treturn_def status_of_def Let_def)
  moreover have "closed i InvocationState.Released s' (reply_of i (Failed (release_reply reason)))"
    by (rule closedI [OF r(6,2)]) (use r in \<open>simp_all add: replay_reply_def status_of_def\<close>)
  ultimately show ?thesis by blast
qed


lemma settle_failed_total:
  assumes env: "quiet env" and db: "sound db" "db_invocations db i = Some r"
    and disp: "inv_state r = Dispatched" and room: "last_seq db + 1 < 2 ^ 64" and failure: "started_failure failure"
  shows "\<exists>tx v. settle_invocation env i (SettleFailed failure actual) db = (tx, Ok v)"
proof -
  have nt: "\<not> is_terminal (inv_state r)" using disp by simp
  have step: "lifecycle (inv_state r) Step.Settle InvocationState.Settled" using disp by (simp add: lifecycle.settle_failed)
  note o = sound_open [OF db nt]
  have inv: "ledger_inv db" "audit_inv db" using db(1) by (simp_all add: sound_def)
  obtain m where stage: "stage_settle (SettleFailed failure actual) db r =
      Ok ((r\<lparr>inv_actual := Some actual, inv_terminal := Some (Terminal.Settled (Some failure))\<rparr>)
      \<lparr>inv_debited := Some (debit (settlement_of (inv_reserved r) actual))\<rparr>, db\<lparr>db_ledgers := m\<rparr>)"
    using apply_settlement_total [OF inv(1) db(2) o(2),
        of "r\<lparr>inv_actual := Some actual, inv_terminal := Some (Terminal.Settled (Some failure))\<rparr>"
          "settlement_of (inv_reserved r) actual"] disp failure
    by (auto simp: stage_settle_def settle_consumption_def settlement_total)
  show ?thesis
    by (rule transition_total [OF env inv(2) db(2) o(1) step stage frames_stages(4) _ _ o(4), where boundary = Boundary.Terminal])
      (use room in \<open>auto simp: settle_invocation_def\<close>)
qed

lemma settle_failed_closes:
  assumes "steady i ms" and h: "holds i (\<lambda>r. inv_state r = Dispatched) s" and failure: "started_failure failure"
    and run: "settle_failed (ms k) i failure actual s = (s', res)" and "roomy s'"
  shows "\<exists>reply. res = Ok reply \<and> closed i InvocationState.Settled s' reply"
proof -
  let ?o = "SettleFailed failure actual"
  obtain st where o: "at_store (ms k) (\<lambda>env. settle_invocation env i ?o) s = (s', st)"
    using run by (auto simp: settle_failed_def tbind_def treturn_def split: prod.splits sum.splits)
  have op: "settle_invocation env i ?o db = transition env i Step.Settle Boundary.Terminal (stage_settle ?o) db" for env db
    by (simp add: settle_invocation_def)
  show ?thesis
  proof (rule store_op [where f = "\<lambda>_. stage_settle ?o" and op = "\<lambda>env. settle_invocation env i ?o",
        OF assms(1) h op frames_stages(4) settle_step settle_failed_total o \<open>roomy s'\<close>])
    fix r nxt db db1 and r1 :: InvocationRecord
    assume a: "inv_id r = i" "lifecycle (inv_state r) Step.Settle nxt" "stage_settle ?o db r = Ok (r1, db1)"
      "db_invocations (in_store s') i = Some (r1\<lparr>inv_state := nxt, inv_updated_at := env_now (m_env (ms k))\<rparr>)"
      "st = Ok (status_of (r1\<lparr>inv_state := nxt, inv_updated_at := env_now (m_env (ms k))\<rparr>))"
      "store_reachable (in_store s')" "inv_state r = Dispatched"
    have nxt: "nxt = InvocationState.Settled" using a(2) by (auto elim: lifecycleE)
    have r1: "inv_terminal r1 = Some (Terminal.Settled (Some failure))" "inv_id r1 = i"
      using a(1,3,7) failure
      by (auto simp: stage_settle_def settle_consumption_def rbind_Ok_iff elim!: apply_settlement_frame)
    have "res = Ok (reply_of i (Failed failure))"
      using run o a(5) by (auto simp: settle_failed_def tbind_def treturn_def)
    moreover have "closed i InvocationState.Settled s' (reply_of i (Failed failure))"
      by (rule closedI [OF a(6,4)]) (use r1 nxt in \<open>simp_all add: replay_reply_def status_of_def\<close>)
    ultimately show ?thesis by blast
  qed (use failure in auto)
qed

lemma unknown_total:
  "quiet env \<Longrightarrow> sound db \<Longrightarrow> db_invocations db i = Some r \<Longrightarrow> inv_state r = Dispatched \<Longrightarrow>
   last_seq db + 1 < 2 ^ 64 \<Longrightarrow> \<exists>tx v. mark_unknown_effect env i db = (tx, Ok v)"
  using unknown_total_op [of env db i r InvocationState.UnknownEffect] unknown_effect by metis

lemma unknown_store_closes:
  assumes "steady i ms" and h: "holds i (\<lambda>r. inv_state r = Dispatched) s"
    and o: "at_store (ms k) (\<lambda>env. mark_unknown_effect env i) s = (s', st)" and "roomy s'"
  obtains r where "st = Ok (status_of r)" and "db_invocations (in_store s') i = Some r"
    and "inv_state r = InvocationState.UnknownEffect"
    and "inv_terminal r = Some Terminal.UnknownEffect" and "inv_id r = i" and "store_reachable (in_store s')"
proof -
  have op: "mark_unknown_effect env i db = transition env i Step.MarkUnknownEffect Boundary.Terminal stage_unknown db" for env db
    by (simp add: mark_unknown_effect_def)
  show ?thesis
  proof (rule store_op [where f = "\<lambda>_. stage_unknown" and op = "\<lambda>env. mark_unknown_effect env i",
        OF assms(1) h op frames_stages(6) unknown_step unknown_total o \<open>roomy s'\<close>])
    fix r nxt db db1 and r1 :: InvocationRecord
    assume a: "inv_id r = i" "lifecycle (inv_state r) Step.MarkUnknownEffect nxt" "stage_unknown db r = Ok (r1, db1)"
      "db_invocations (in_store s') i = Some (r1\<lparr>inv_state := nxt, inv_updated_at := env_now (m_env (ms k))\<rparr>)"
      "st = Ok (status_of (r1\<lparr>inv_state := nxt, inv_updated_at := env_now (m_env (ms k))\<rparr>))"
      "store_reachable (in_store s')"
    have "nxt = InvocationState.UnknownEffect" using a(2) by (auto elim: lifecycleE)
    moreover have "inv_terminal r1 = Some Terminal.UnknownEffect" "inv_id r1 = i"
      using a(1,3) by (auto simp: stage_unknown_def elim!: apply_settlement_frame)
    ultimately show ?thesis
      using a(4-6) by (intro that [of "r1\<lparr>inv_state := nxt, inv_updated_at := env_now (m_env (ms k))\<rparr>"]) simp_all
  qed
qed

lemma unknown_call_closes:
  assumes "steady i ms" and h: "holds i (\<lambda>r. inv_state r = Dispatched) s"
    and run: "unknown_call (ms k) i s = (s', res)" and "roomy s'"
  shows "\<exists>reply. res = Ok reply \<and> closed i InvocationState.UnknownEffect s' reply"
proof -
  obtain st where o: "at_store (ms k) (\<lambda>env. mark_unknown_effect env i) s = (s', st)"
    using run by (auto simp: unknown_call_def tbind_def treturn_def split: prod.splits sum.splits)
  from assms(1) h o \<open>roomy s'\<close> obtain r where r: "st = Ok (status_of r)" "db_invocations (in_store s') i = Some r"
    "inv_state r = InvocationState.UnknownEffect" "inv_terminal r = Some Terminal.UnknownEffect" "inv_id r = i"
    "store_reachable (in_store s')" by (rule unknown_store_closes)
  have "res = Ok (reply_of i (Failed Failure.UnknownEffect))"
    using run o r(1) by (auto simp: unknown_call_def tbind_def treturn_def)
  moreover have "closed i InvocationState.UnknownEffect s' (reply_of i (Failed Failure.UnknownEffect))"
    by (rule closedI [OF r(6,2)]) (use r in \<open>simp_all add: replay_reply_def status_of_def\<close>)
  ultimately show ?thesis by blast
qed


section \<open>Publication\<close>

text \<open>The record of a capture whose envelope is stored.\<close>

definition midway :: "TenantId \<Rightarrow> InvocationId \<Rightarrow> InvocationState \<Rightarrow> InvocationRecord \<Rightarrow> bool" where
  "midway t i state r \<longleftrightarrow> inv_state r = state \<and> inv_artifact r = Some (artifact_ref i) \<and> inv_tenant r = t"

lemma at_store_steps:
  assumes "steady i ms" and "\<And>db. store_step db (fst (op (m_env (ms k)) db))"
    and "at_store (ms k) op s = (s', res)"
  shows "store_step\<^sup>*\<^sup>* (in_store s) (in_store s')"
proof -
  have "store_step\<^sup>*\<^sup>* (in_store s) (in_store (m_others (ms k) s))"
    using steadyD(2) [OF assms(1)] by (simp add: considerate_def)
  moreover have "in_store s' = fst (op (m_env (ms k)) (in_store (m_others (ms k) s)))"
    using assms(3) by (auto simp: at_store_def Let_def split: prod.splits)
  ultimately show ?thesis using assms(2) by (metis rtranclp.rtrancl_into_rtrancl)
qed

lemma roomy_back:
  assumes "store_step\<^sup>*\<^sup>* (in_store s) (in_store s')" and "store_reachable (in_store s)" and "roomy s'"
  shows "roomy s"
  using last_seq_mono [OF assms(1,2)] assms(3) by (simp add: roomy_def)

lemma holds_reachable: "holds i P s \<Longrightarrow> store_reachable (in_store s)"
  by (simp add: holds_def)

lemma at_read_holds:
  assumes "steady i ms" and "holds i P s" and "at_read (ms k) f s = (s', res)"
  shows "holds i P s'"
  using holds_others [OF steadyD(2) [OF assms(1)] assms(2)] assms(3) by (auto simp: at_read_def Let_def)

lemma transfer_holds:
  assumes "steady i ms" and h: "holds i (\<lambda>r. inv_state r = Dispatched) s"
    and len: "length (tf_envelope transfer) \<le> MAX_PLAINTEXT_LEN"
    and run: "at_store (ms k) (\<lambda>env. complete_transfer env i transfer) s = (s', res)" and "roomy s'"
  obtains db st where "res = Ok st" and "store_reachable db"
    and "complete_transfer (m_env (ms k)) i transfer db = (in_store s', Ok st)"
    and "holds i (midway (st_tenant st) i TransferComplete) s'"
proof -
  have op: "complete_transfer env i transfer db =
      transition env i Step.CompleteTransfer Boundary.CompleteTransfer (stage_transfer env transfer) db" for env db
    by (simp add: complete_transfer_def)
  have total: "\<exists>tx v. complete_transfer env i transfer db = (tx, Ok v)"
    if "quiet env" "sound db" "db_invocations db i = Some r" "inv_state r = Dispatched" "last_seq db + 1 < 2 ^ 64" for env db r
    using transfer_total_op [OF that(1-4) len] by blast
  show ?thesis
  proof (rule store_op [where f = "\<lambda>env. stage_transfer env transfer" and op = "\<lambda>env. complete_transfer env i transfer",
        OF assms(1) h op frames_stages(2) transfer_step total run \<open>roomy s'\<close>])
    fix r nxt db db1 and r1 :: InvocationRecord
    let ?r = "r1\<lparr>inv_state := nxt, inv_updated_at := env_now (m_env (ms k))\<rparr>"
    assume a: "store_reachable db" "inv_id r = i" "lifecycle (inv_state r) Step.CompleteTransfer nxt"
      "stage_transfer (m_env (ms k)) transfer db r = Ok (r1, db1)" "db_invocations (in_store s') i = Some ?r"
      "res = Ok (status_of ?r)" "store_reachable (in_store s')"
      "complete_transfer (m_env (ms k)) i transfer db = (in_store s', Ok (status_of ?r))"
    have "nxt = TransferComplete" using a(3) by (auto elim: lifecycleE)
    moreover have "inv_artifact r1 = Some (artifact_ref i)"
      using a(2,4) by (auto simp: stage_transfer_def rbind_Ok_iff Let_def)
    ultimately have "holds i (midway (inv_tenant ?r) i TransferComplete) s'"
      using a(5,7) by (simp add: holds_def midway_def)
    with a show ?thesis by (intro that [of "status_of ?r" db]) (simp_all add: status_of_def)
  qed
qed

lemma publish_holds:
  assumes "steady i ms" and h: "holds i (midway t i TransferComplete) s"
    and run: "at_store (ms k) (\<lambda>env. publish env i) s = (s', res)" and "roomy s'"
  obtains st where "res = Ok st" and "holds i (midway t i Published) s'"
    and "db_locators (in_store s') (artifact_ref i) \<noteq> None"
proof -
  have op: "publish env i db = transition env i Step.Publish Boundary.Publish (stage_publish env) db" for env db
    by (simp add: publish_def)
  have total: "\<exists>tx v. publish env i db = (tx, Ok v)"
    if "quiet env" "sound db" "db_invocations db i = Some r" "midway t i TransferComplete r" "last_seq db + 1 < 2 ^ 64" for env db r
    using publish_total_op [OF that(1-3)] that(4) by (metis midway_def)
  show ?thesis
  proof (rule store_op [where f = stage_publish and op = "\<lambda>env. publish env i",
        OF assms(1) h op frames_stages(3) publish_step total run \<open>roomy s'\<close>])
    fix r nxt db db1 and r1 :: InvocationRecord
    let ?r = "r1\<lparr>inv_state := nxt, inv_updated_at := env_now (m_env (ms k))\<rparr>"
    assume a: "store_reachable db" "midway t i TransferComplete r" "lifecycle (inv_state r) Step.Publish nxt"
      "stage_publish (m_env (ms k)) db r = Ok (r1, db1)" "db_invocations (in_store s') i = Some ?r"
      "res = Ok (status_of ?r)" "store_reachable (in_store s')"
      "publish (m_env (ms k)) i db = (in_store s', Ok (status_of ?r))"
    have "nxt = Published" using a(3) by (auto elim: lifecycleE)
    moreover have "r1 = r" using a(4) by (auto simp: stage_publish_def rbind_Ok_iff ensure_Ok_iff Let_def split: option.splits)
    ultimately have "holds i (midway t i Published) s'" using a(2,5,7) by (simp add: holds_def midway_def)
    moreover have "db_locators (in_store s') (artifact_ref i) \<noteq> None"
      using publish_effect [OF reachable_sound [OF a(1)] a(8)] by auto
    ultimately show ?thesis using a(6) by (intro that [of "status_of ?r"]) simp_all
  qed
qed

lemma settle_closes:
  assumes "steady i ms" and h: "holds i (midway t i Published) s" and loc: "db_locators (in_store s) (artifact_ref i) \<noteq> None"
    and run: "at_store (ms k) (\<lambda>env. settle_invocation env i SettleSuccess) s = (s', res)" and "roomy s'"
  obtains r where "res = Ok (status_of r)" and "db_invocations (in_store s') i = Some r"
    and "inv_state r = InvocationState.Settled" and "inv_terminal r = Some (Terminal.Settled None)"
    and "inv_artifact r = Some (artifact_ref i)" and "inv_id r = i" and "store_reachable (in_store s')"
    and "db_tombstones (in_store s') t = None" and "db_locators (in_store s') (artifact_ref i) \<noteq> None"
proof -
  have op: "settle_invocation env i SettleSuccess db =
      transition env i Step.Settle Boundary.Terminal (stage_settle SettleSuccess) db" for env db
    by (simp add: settle_invocation_def)
  have total: "\<exists>tx v. settle_invocation env i SettleSuccess db = (tx, Ok v)"
    if "quiet env" "sound db" "db_invocations db i = Some r" "midway t i Published r" "last_seq db + 1 < 2 ^ 64" for env db r
    using settle_total_op [OF that(1-3)] that(4,5) by (metis midway_def)
  show ?thesis
  proof (rule store_op [where f = "\<lambda>_. stage_settle SettleSuccess" and op = "\<lambda>env. settle_invocation env i SettleSuccess",
        OF assms(1) h op frames_stages(4) settle_step total run \<open>roomy s'\<close>])
    fix r nxt db db1 and r1 :: InvocationRecord
    let ?r = "r1\<lparr>inv_state := nxt, inv_updated_at := env_now (m_env (ms k))\<rparr>"
    assume a: "store_reachable db" "store_step\<^sup>*\<^sup>* (in_store s) db" "db_invocations db i = Some r" "midway t i Published r"
      "inv_id r = i" "lifecycle (inv_state r) Step.Settle nxt" "stage_settle SettleSuccess db r = Ok (r1, db1)"
      "db_invocations (in_store s') i = Some ?r" "res = Ok (status_of ?r)" "store_reachable (in_store s')"
      "db_tombstones (in_store s') = db_tombstones db" "db_locators (in_store s') = db_locators db1"
    have nxt: "nxt = InvocationState.Settled" using a(6) by (auto elim: lifecycleE)
    have r1: "inv_terminal r1 = Some (Terminal.Settled None)" "inv_id r1 = i" "inv_artifact r1 = Some (artifact_ref i)"
      "db_locators db1 = db_locators db"
      using a(4,5,7) by (auto simp: stage_settle_def settle_consumption_def rbind_Ok_iff midway_def elim!: apply_settlement_frame)
    have "\<not> is_terminal (inv_state r)" using a(4) by (simp add: midway_def)
    then have "keys_live db t" using sound_open(4) [OF reachable_sound [OF a(1)] a(3)] a(4) by (simp add: midway_def)
    then have "db_tombstones db t = None"
      using shredded_keys [OF reachable_tombstone_inv [OF a(1)]] by (force simp: keys_live_def)
    moreover have "db_locators db (artifact_ref i) \<noteq> None"
      using steps_permanent [OF a(2) reachable_ledger_inv [OF holds_reachable [OF h]]] loc
      by (metis permanent_def map_leD option.exhaust option.distinct(1))
    ultimately show ?thesis using a(8-12) nxt r1 by (intro that [of ?r]) simp_all
  qed
qed


section \<open>The invocation as a whole\<close>

text \<open>
  A part of a capture has concluded when its reply is the one the closed invocation gives, or when it
  stopped at a read and the invocation is still in a state that the error path closes.
\<close>

definition concluded :: "InvocationId \<Rightarrow> InvocationState set \<Rightarrow> Inner \<Rightarrow> (Reply, Error) result \<Rightarrow> bool" where
  "concluded i states s res \<longleftrightarrow> (\<exists>reply state. res = Ok reply \<and> state \<in> states \<and> closed i state s reply) \<or>
     (\<exists>e. res = Err e \<and> holds i (\<lambda>r. inv_state r \<in> {IntentPersisted, Dispatched}) s)"

lemma holds_mono: "holds i P s \<Longrightarrow> (\<And>r. P r \<Longrightarrow> Q r) \<Longrightarrow> holds i Q s"
  by (auto simp: holds_def)

lemma concluded_stuck:
  "holds i (\<lambda>r. inv_state r = state) s \<Longrightarrow> state \<in> {IntentPersisted, Dispatched} \<Longrightarrow> concluded i states s (Err e)"
  unfolding concluded_def by (auto elim: holds_mono)

lemma concluded_closed:
  "\<exists>reply. res = Ok reply \<and> closed i state s reply \<Longrightarrow> state \<in> states \<Longrightarrow> concluded i states s res"
  by (auto simp: concluded_def)

lemma concluded_any: "concluded i states s res \<Longrightarrow> concluded i UNIV s res"
  by (auto simp: concluded_def)

lemma outcome_replays:
  assumes reach: "store_reachable db" and transfer: "complete_transfer env i transfer db = (db1, Ok st)"
    and later: "store_step\<^sup>*\<^sup>* db1 db2" and r: "inv_terminal r = Some (Terminal.Settled None)"
    "inv_artifact r = Some (artifact_ref i)" "inv_id r = i"
    and pub: "db_locators db2 (artifact_ref i) \<noteq> None" and live: "db_tombstones db2 (st_tenant st) = None"
  shows "replay_reply (status_of r) db2 = Ok (reply_of i (Captured (outcome_of i transfer)))"
proof -
  obtain info where "artifact db2 (artifact_ref i) = Ok (Some info)" "ai_artifact info = artifact_ref i"
    "ai_source info = tf_source transfer" "ai_text_view info = tf_text_view transfer"
    "ai_truncated info = tf_truncated transfer" "ai_output_bytes info = tf_output_bytes transfer"
    "ai_revoked_after_effect info = tf_revoked_after_effect transfer"
    using verbatim_info [OF reach transfer later pub live] by blast
  with r show ?thesis by (simp add: replay_reply_def captured_def status_of_def outcome_of_def)
qed

lemma publication_closes:
  assumes steady: "steady i ms" and h: "holds i (\<lambda>r. inv_state r = Dispatched) s"
    and len: "length (tf_envelope transfer) \<le> MAX_PLAINTEXT_LEN" and "roomy s'"
    and run: "tbind (at_store (ms a) (\<lambda>env. complete_transfer env i transfer)) (\<lambda>_.
       tbind (at_store (ms b) (\<lambda>env. publish env i)) (\<lambda>_.
       tbind (at_store (ms c) (\<lambda>env. settle_invocation env i SettleSuccess)) (\<lambda>_.
       treturn (reply_of i (Captured (outcome_of i transfer)))))) s = (s', res)"
  shows "\<exists>reply. res = Ok reply \<and> closed i InvocationState.Settled s' reply"
proof -
  obtain s1 q1 where t1: "at_store (ms a) (\<lambda>env. complete_transfer env i transfer) s = (s1, q1)" by fastforce
  obtain s2 q2 where t2: "at_store (ms b) (\<lambda>env. publish env i) s1 = (s2, q2)" by fastforce
  obtain s3 q3 where t3: "at_store (ms c) (\<lambda>env. settle_invocation env i SettleSuccess) s2 = (s3, q3)" by fastforce
  note step1 = at_store_steps [where op = "\<lambda>env. complete_transfer env i transfer", OF steady transfer_step t1]
  note step2 = at_store_steps [where op = "\<lambda>env. publish env i", OF steady publish_step t2]
  note step3 = at_store_steps [where op = "\<lambda>env. settle_invocation env i SettleSuccess", OF steady settle_step t3]
  have reach: "store_reachable (in_store s)" "store_reachable (in_store s1)" "store_reachable (in_store s2)"
    using holds_reachable [OF h] step1 step2 by (blast intro: reachable_steps)+
  have "s' = s3 \<or> s' = s2 \<or> s' = s1"
    using run t1 t2 t3 by (cases q1; cases q2; cases q3) (simp_all add: tbind_def treturn_def)
  then have room: "roomy s1" "roomy s2 \<or> s' = s1" "roomy s3 \<or> s' = s1 \<or> s' = s2"
    using \<open>roomy s'\<close> roomy_back [OF step2 reach(2)] roomy_back [OF step3 reach(3)] by auto
  from steady h len t1 room(1) obtain db st where st: "q1 = Ok st" "store_reachable db"
    "complete_transfer (m_env (ms a)) i transfer db = (in_store s1, Ok st)"
    and h1: "holds i (midway (st_tenant st) i TransferComplete) s1"
    by (rule transfer_holds)
  have "s' = s3 \<or> s' = s2" using run t1 t2 t3 st(1) by (cases q2; cases q3) (simp_all add: tbind_def treturn_def)
  then have "roomy s2" using \<open>roomy s'\<close> roomy_back [OF step3 reach(3)] by auto
  from steady h1 t2 this obtain st2 where st2: "q2 = Ok st2" and h2: "holds i (midway (st_tenant st) i Published) s2"
    and loc: "db_locators (in_store s2) (artifact_ref i) \<noteq> None" by (rule publish_holds)
  have s3: "s' = s3" using run t1 t2 t3 st(1) st2 by (cases q3) (simp_all add: tbind_def treturn_def)
  from steady h2 loc t3 \<open>roomy s'\<close> [unfolded s3] obtain r where r: "q3 = Ok (status_of r)"
    "db_invocations (in_store s3) i = Some r" "inv_state r = InvocationState.Settled"
    "inv_terminal r = Some (Terminal.Settled None)" "inv_artifact r = Some (artifact_ref i)" "inv_id r = i"
    "store_reachable (in_store s3)" "db_tombstones (in_store s3) (st_tenant st) = None"
    "db_locators (in_store s3) (artifact_ref i) \<noteq> None" by (rule settle_closes)
  have "store_step\<^sup>*\<^sup>* (in_store s1) (in_store s3)" using step2 step3 by (rule rtranclp_trans)
  from outcome_replays [OF st(2,3) this r(4-6,9,8)] have
    "closed i InvocationState.Settled s' (reply_of i (Captured (outcome_of i transfer)))"
    unfolding s3 by (intro closedI [OF r(7,2)]) (simp_all add: r(3))
  moreover have "res = Ok (reply_of i (Captured (outcome_of i transfer)))"
    using run t1 t2 t3 st(1) st2 r(1) by (simp add: tbind_def treturn_def)
  ultimately show ?thesis by blast
qed

lemma transfer_fits:
  assumes "max_transfer_bytes limits = Some n" and "n \<le> max_transfer_cap"
    and "\<not> n < len_u64 (length (po_envelope output))"
  shows "length (po_envelope output) \<le> MAX_PLAINTEXT_LEN"
proof -
  have "len_u64 (length (po_envelope output)) \<le> len_u64 MAX_PLAINTEXT_LEN"
    using assms(2,3) by (simp add: max_transfer_cap_def)
  then show ?thesis
    by (auto simp: len_u64_def MAX_PLAINTEXT_LEN_def word_le_nat_alt unat_of_nat
        unsigned_minus_1_eq_mask mask_eq_exp_minus_1 split: if_splits)
qed

lemma finish_concludes:
  assumes steady: "steady i ms" and h: "holds i (\<lambda>r. inv_state r = Dispatched) s" and "roomy s'"
    and cap: "max_transfer_bytes limits = Some n" "n \<le> max_transfer_cap"
    and run: "finish ms call limits i output elapsed s = (s', res)"
  shows "concluded i {InvocationState.Settled} s' res"
proof (cases "n < len_u64 (length (po_envelope output))")
  case True
  with run cap have "settle_failed (ms 8) i (Failure.TransferFailed TransferClass.TooLarge) (spent elapsed 0) s = (s', res)"
    by (simp add: finish_def)
  from settle_failed_closes [OF steady h _ this \<open>roomy s'\<close>] show ?thesis by (auto intro: concluded_closed)
next
  case False
  with run cap have "publish_output ms call limits i output elapsed s = (s', res)" by (simp add: finish_def)
  then show ?thesis unfolding publish_output_def Let_def
  proof (cases rule: tbind_cases)
    case (err e)
    then show ?thesis using concluded_stuck [OF at_read_holds [OF steady h]] by auto
  next
    case (ok s1 refused)
    have "tf_envelope (transfer_of call limits output elapsed (refused \<noteq> None)) = po_envelope output"
      by (simp add: transfer_of_def Let_def split: prod.split)
    then show ?thesis
      using publication_closes [OF steady at_read_holds [OF steady h ok(1)] _ \<open>roomy s'\<close> ok(2)]
        transfer_fits [OF cap False] by (auto intro: concluded_closed)
  qed
qed

lemma chain_stop_reason: "chain_stop code \<noteq> ReleaseReason.Abandoned \<and> chain_stop code \<noteq> ReleaseReason.ProducerUnavailable"
  by (cases code) simp_all

text \<open>How a failed producer call ends: released exactly when no effect started.\<close>

definition ends_of :: "ProducerError \<Rightarrow> InvocationState set" where
  "ends_of e = (if effect_started e then {InvocationState.Settled, InvocationState.UnknownEffect} else {InvocationState.Released})"

lemma fail_concludes:
  assumes steady: "steady i ms" and h: "holds i (\<lambda>r. inv_state r = Dispatched) s" and "roomy s'"
    and run: "fail ms grant i e elapsed s = (s', res)"
  shows "concluded i (ends_of e) s' res"
proof -
  have release: "concluded i (ends_of e) s' res"
    if "release_call (ms k) i reason s1 = (s', res)" "holds i (\<lambda>r. inv_state r = Dispatched) s1" "reason \<noteq> ReleaseReason.Abandoned"
      "\<not> effect_started e"
    for k reason s1
    by (rule concluded_closed, rule release_call_closes [OF steady _ that(1) \<open>roomy s'\<close>])
      (rule holds_mono [OF that(2)], simp_all add: release_dispatched that(3,4) ends_of_def)
  have settle: "concluded i (ends_of e) s' res"
    if "settle_failed (ms 8) i failure actual s = (s', res)" "started_failure failure" "effect_started e" for failure actual
    by (rule concluded_closed, rule settle_failed_closes [OF steady h that(2,1) \<open>roomy s'\<close>]) (simp add: that(3) ends_of_def)
  have stop: "stop \<noteq> ReleaseReason.Abandoned" if "stop_reason g d env db = Ok stop" for g d env db stop
    using that by (auto simp: stop_reason_def rbind_Ok_iff chain_stop_reason split: option.splits if_splits)
  show ?thesis
  proof (cases e)
    case (Unavailable contacted)
    with run release [OF _ h] concluded_closed [OF unknown_call_closes [OF steady h _ \<open>roomy s'\<close>]] show ?thesis
      by (cases contacted) (simp_all add: fail_def ends_of_def)
  next
    case (Cancelled started)
    show ?thesis
    proof (cases started)
      case True
      with run Cancelled settle show ?thesis by (cases "m_past_deadline (ms 8)") (simp_all add: fail_def)
    next
      case False
      with run Cancelled have "tbind (at_read (ms 8) (stop_reason grant (m_past_deadline (ms 8))))
          (\<lambda>stop. release_call (ms 9) i stop) s = (s', res)" by (simp add: fail_def)
      then show ?thesis
      proof (cases rule: tbind_cases)
        case (err e)
        then show ?thesis using concluded_stuck [OF at_read_holds [OF steady h]] by auto
      next
        case (ok s1 x)
        then show ?thesis by (intro release [OF ok(2) at_read_holds [OF steady h ok(1)]])
            (use False Cancelled in \<open>auto simp: at_read_def Let_def dest: stop\<close>)
      qed
    qed
  qed (use run settle in \<open>simp_all add: fail_def\<close>)
qed


lemma dispatch_holds:
  assumes steady: "steady i ms" and h: "holds i (\<lambda>r. inv_state r = IntentPersisted) s"
    and run: "at_store (ms k) (\<lambda>env. dispatch env i) s = (s', res)"
  obtains st where "res = Ok st" and "holds i (\<lambda>r. inv_state r = Dispatched) s'"
proof -
  let ?db = "in_store (m_others (ms k) s)"
  have "holds i (\<lambda>r. inv_state r = IntentPersisted) (m_others (ms k) s)"
    using holds_others [OF steadyD(2) [OF steady] h] .
  then obtain r where reach: "store_reachable ?db" and r: "db_invocations ?db i = Some r" "inv_state r = IntentPersisted"
    by (auto simp: holds_def)
  obtain v tx r2 where d: "dispatch (m_env (ms k)) i ?db = (tx, Ok v)"
    "db_invocations tx = (db_invocations ?db)(i := Some r2)" "inv_state r2 = Dispatched"
    by (rule dispatch_total_op [OF steadyD(1) [OF steady] reachable_sound [OF reach] r])
  have "store_reachable tx"
    using reachable_step [OF reach dispatch_step, of "m_env (ms k)" i] d(1) by simp
  with d run show ?thesis by (intro that [of v]) (auto simp: at_store_def Let_def holds_def)
qed

lemma pre_dispatch_reason:
  "pre_dispatch grant c d env db = Ok (Some reason) \<Longrightarrow> reason \<noteq> ReleaseReason.ProducerUnavailable"
  by (auto simp: pre_dispatch_def rbind_Ok_iff chain_stop_reason split: option.splits if_splits)

lemma run_invocation_concludes:
  assumes steady: "steady i ms" and h: "holds i (\<lambda>r. inv_state r = IntentPersisted) s" and "roomy s'"
    and cap: "max_transfer_bytes limits = Some n" "n \<le> max_transfer_cap"
    and run: "run_invocation ms produce call capture limits i s = (s', res)"
  shows "concluded i UNIV s' res"
  using run unfolding run_invocation_def Let_def
proof (cases rule: tbind_cases)
  case (err e)
  then show ?thesis using concluded_stuck [OF at_read_holds [OF steady h]] by auto
next
  case (ok s1 stop)
  note h1 = at_read_holds [OF steady h ok(1)]
  show ?thesis
  proof (cases stop)
    case (Some reason)
    have "reason \<noteq> ReleaseReason.ProducerUnavailable"
      using ok(1) Some by (auto simp: at_read_def Let_def dest: pre_dispatch_reason)
    then have "holds i (\<lambda>r. lifecycle (inv_state r) (Step.Release reason) InvocationState.Released) s1"
      by (intro holds_mono [OF h1]) (simp add: release_intent)
    from release_call_closes [OF steady this _ \<open>roomy s'\<close>, of 6] ok(2) Some show ?thesis
      by (auto intro: concluded_closed [where state = InvocationState.Released])
  next
    case None
    from ok(2) [unfolded None option.case] show ?thesis
    proof (cases rule: tbind_cases)
      case (err e)
      from steady h1 err(1) obtain st where "Err e = (Ok st :: (InvocationStatus, Error) result)" by (rule dispatch_holds)
      then show ?thesis by simp
    next
      case disp: (ok s2 st)
      from steady h1 disp(1) have h2: "holds i (\<lambda>r. inv_state r = Dispatched) s2" by (rule dispatch_holds)
      show ?thesis
        using disp(2) concluded_any [OF finish_concludes [OF steady h2 \<open>roomy s'\<close> cap]]
          concluded_any [OF fail_concludes [OF steady h2 \<open>roomy s'\<close>]]
          concluded_closed [OF unknown_call_closes [OF steady h2 _ \<open>roomy s'\<close>], of _ _ UNIV]
        by (simp split: Produced.splits)
    qed
  qed
qed

lemma closed_failed:
  assumes "considerate i m" and "db_invocations (in_store s) i = Some r" and "store_reachable (in_store s)"
    and "is_terminal (inv_state r)" and "inv_terminal r = Some t" and "t \<noteq> Terminal.Settled None"
    and "at_read m (\<lambda>_. replay_reply (status_of r)) s = (s', res)"
  shows "\<exists>reply state. res = Ok reply \<and> closed i state s' reply"
proof -
  have s': "s' = m_others m s" "res = replay_reply (status_of r) (in_store s')"
    using assms(7) by (auto simp: at_read_def Let_def)
  have "\<exists>reply. res = Ok reply" unfolding s' replay_reply_def
    using assms(5,6) by (auto simp: status_of_def split: Terminal.split option.split)
  moreover have "store_reachable (in_store s')" "db_invocations (in_store s') i = Some r"
    using assms(1-3) by (auto simp: considerate_def s' intro: reachable_steps)
  ultimately show ?thesis using s' assms(4) by (auto simp: closed_def)
qed

lemma after_error_closes:
  assumes steady: "steady i ms" and h: "holds i (\<lambda>r. inv_state r \<in> {IntentPersisted, Dispatched}) s" and "roomy s'"
    and run: "after_error ms i s = (s', res)"
  shows "\<exists>reply state. res = Ok reply \<and> closed i state s' reply"
proof -
  let ?s1 = "m_others (ms 12) s"
  have h1: "holds i (\<lambda>r. inv_state r \<in> {IntentPersisted, Dispatched}) ?s1"
    using holds_others [OF steadyD(2) [OF steady] h] .
  then obtain r where r: "db_invocations (in_store ?s1) i = Some r" "inv_state r \<in> {IntentPersisted, Dispatched}"
    by (auto simp: holds_def)
  define close where "close = (if inv_state r = IntentPersisted
    then at_store (ms 13) (\<lambda>env. release_invocation env i ReleaseReason.Abandoned)
    else at_store (ms 13) (\<lambda>env. mark_unknown_effect env i))"
  obtain s2 st where c: "close ?s1 = (s2, st)" by fastforce
  have run': "tbind close (\<lambda>status. (case st_terminal status of
             Some _ \<Rightarrow> at_read (ms 14) (\<lambda>_. replay_reply status)
           | None \<Rightarrow> treturn (reply_of i (Failed Failure.UnknownEffect)))) ?s1 = (s', res)"
    using run r by (auto simp: after_error_def tbind_def at_read_def Let_def invocation_def status_of_def close_def)
  then have "s' = s2 \<or> s' = m_others (ms 14) s2"
    by (auto simp: c tbind_def treturn_def at_read_def Let_def split: sum.splits option.splits)
  moreover have reach: "store_reachable (in_store s2)"
    using c holds_reachable [OF h1]
      at_store_steps [where op = "\<lambda>env. release_invocation env i ReleaseReason.Abandoned", OF steady release_step]
      at_store_steps [where op = "\<lambda>env. mark_unknown_effect env i", OF steady unknown_step]
    by (auto simp: close_def intro: reachable_steps split: if_splits)
  moreover have "store_step\<^sup>*\<^sup>* (in_store s2) (in_store (m_others (ms 14) s2))"
    using steadyD(2) [OF steady] by (simp add: considerate_def)
  ultimately have room: "roomy s2" using \<open>roomy s'\<close> roomy_back by blast
  have "\<exists>q t. st = Ok (status_of q) \<and> db_invocations (in_store s2) i = Some q \<and> is_terminal (inv_state q) \<and>
      inv_terminal q = Some t \<and> t \<noteq> Terminal.Settled None"
  proof (cases "inv_state r = IntentPersisted")
    case True
    have "holds i (\<lambda>r. lifecycle (inv_state r) (Step.Release ReleaseReason.Abandoned) InvocationState.Released) ?s1"
      using h1 r True by (simp add: holds_def release_intent)
    moreover have "at_store (ms 13) (\<lambda>env. release_invocation env i ReleaseReason.Abandoned) ?s1 = (s2, st)"
      using c True by (simp add: close_def)
    ultimately show ?thesis by (rule release_store_closes [OF steady _ _ room]) simp
  next
    case False
    have "holds i (\<lambda>r. inv_state r = Dispatched) ?s1" using h1 r False by (simp add: holds_def)
    moreover have "at_store (ms 13) (\<lambda>env. mark_unknown_effect env i) ?s1 = (s2, st)"
      using c False by (simp add: close_def)
    ultimately show ?thesis by (rule unknown_store_closes [OF steady _ _ room]) simp
  qed
  then obtain q t where q: "st = Ok (status_of q)" "db_invocations (in_store s2) i = Some q" "is_terminal (inv_state q)"
    "inv_terminal q = Some t" "t \<noteq> Terminal.Settled None" by blast
  have "at_read (ms 14) (\<lambda>_. replay_reply (status_of q)) s2 = (s', res)"
    using run' c q(1,4) by (simp add: tbind_def status_of_def)
  then show ?thesis by (rule closed_failed [OF steadyD(2) [OF steady] q(2) reach q(3-5)])
qed


section \<open>The capture\<close>

lemma declared_limit_cap: "declared_limit requested remaining cap \<le> cap"
  by (simp add: declared_limit_def)

lemma capture_limits_within:
  assumes "capture_limits call session requested env db = Ok limits"
  obtains n k where "max_transfer_bytes limits = Some n" and "n \<le> max_transfer_cap"
    and "max_output_bytes limits = Some k" and "k \<le> ucast (payload_budget call)"
  using assms that declared_limit_cap by (auto simp: capture_limits_def rbind_Ok_iff)

lemma begin_starts:
  assumes "begin_invocation env intent db = (db', Ok (Persisted st))"
  obtains r where "db_invocations db' (int_invocation intent) = Some r" and "st = status_of r"
    and "inv_state r = IntentPersisted" and "inv_id r = int_invocation intent"
proof -
  from end_tx_Ok [OF assms [unfolded begin_invocation_def]] obtain b where
    "begin_tx env intent db = Ok (Commit b (Persisted st) db')"
    using begin_Abandon by (metis Begin.distinct(1,3))
  from begin_Persisted [OF this] obtain chain plan where
    "db_invocations db' = (db_invocations db)(int_invocation intent \<mapsto> intent_record env intent chain plan)"
    "st = status_of (intent_record env intent chain plan)" by auto
  then show ?thesis by (intro that [of "intent_record env intent chain plan"]) (simp_all add: intent_record_def)
qed

lemma begin_capture_starts:
  assumes steady: "steady i ms" and reach: "store_reachable (in_store s)" and fresh: "fresh_invocation (ms 1) = Ok i"
    and run: "begin_capture ms call capture s = (s1, Ok (StartedPersisted status limits))"
  obtains n where "st_id status = i" and "holds i (\<lambda>r. inv_state r = IntentPersisted) s1"
    and "max_transfer_bytes limits = Some n" and "n \<le> max_transfer_cap"
proof -
  from run obtain key where key: "call_key call = Some key" by (cases "call_key call") (auto simp: begin_capture_def treturn_def)
  define intent where "intent limits = \<lparr>int_invocation = i,
    int_authz = authz_of call Capability.Capture (Some (cap_target capture)) (Some (cap_session capture))
      (capture_cost limits (call_deadline_ms call)),
    int_idempotency_key = key, int_request_digest = call_digest call\<rparr>" for limits
  let ?s0 = "m_others (ms 0) s"
  let ?s2 = "m_others (ms 2) ?s0"
  from run key fresh have lim: "capture_limits call (cap_session capture) (cap_limits capture) (m_env (ms 0)) (in_store ?s0) = Ok limits"
    and b: "at_store (ms 2) (\<lambda>env. begin_invocation env (intent limits)) ?s0 = (s1, Ok (Persisted status))"
    by (auto simp: begin_capture_def tbind_def at_read_def lift_result_def treturn_def Let_def intent_def
        split: prod.splits sum.splits Begin.splits)
  have db': "begin_invocation (m_env (ms 2)) (intent limits) (in_store ?s2) = (in_store s1, Ok (Persisted status))"
    using b by (auto simp: at_store_def Let_def map_err_Ok_iff split: prod.splits)
  from db' obtain r where r: "db_invocations (in_store s1) i = Some r" "status = status_of r"
    "inv_state r = IntentPersisted" "inv_id r = i"
    by (rule begin_starts) (rule that, simp_all add: intent_def)
  have "store_step\<^sup>*\<^sup>* (in_store ?s0) (in_store s1)"
    by (rule at_store_steps [where op = "\<lambda>env. begin_invocation env (intent limits)", OF steady begin_step b])
  moreover have "store_step\<^sup>*\<^sup>* (in_store s) (in_store ?s0)"
    using steadyD(2) [OF steady] by (simp add: considerate_def)
  ultimately have "store_reachable (in_store s1)" using reach by (blast intro: reachable_steps)
  then have "holds i (\<lambda>r. inv_state r = IntentPersisted) s1" using r by (simp add: holds_def)
  moreover have "st_id status = i" using r by (simp add: status_of_def)
  ultimately show ?thesis using lim that by (elim capture_limits_within) blast
qed

lemma capture_call_closes:
  assumes steady: "steady i ms" and reach: "store_reachable (in_store s)" and fresh: "fresh_invocation (ms 1) = Ok i"
    and start: "begin_capture ms call capture s = (s1, Ok (StartedPersisted status limits))"
    and run: "capture_call ms produce call capture s = (s', reply)" and room: "roomy s'"
  shows "\<exists>state. closed i state s' reply"
proof -
  obtain n where id: "st_id status = i" and h: "holds i (\<lambda>r. inv_state r = IntentPersisted) s1"
    and cap: "max_transfer_bytes limits = Some n" "n \<le> max_transfer_cap"
    by (rule begin_capture_starts [OF steady reach fresh start])
  let ?s1 = "register i (st_grant_chain status) s1"
  have h1: "holds i (\<lambda>r. inv_state r = IntentPersisted) ?s1" using h by (simp add: holds_def register_def)
  obtain s2 res where r: "run_invocation ms produce call capture limits i ?s1 = (s2, res)" by fastforce
  show ?thesis
  proof (cases res)
    case (Inr reply')
    with run start r id have s': "s' = deregister i s2" "reply = reply'" by (simp_all add: capture_call_def)
    have "roomy s2" using room by (simp add: s' roomy_def deregister_def)
    from run_invocation_concludes [OF steady h1 this cap r] Inr show ?thesis
      by (auto simp: concluded_def s' closed_def deregister_def)
  next
    case (Inl e)
    obtain res' where a: "after_error ms i (deregister i s2) = (s', res')"
      and reply: "reply = (case res' of Ok reply \<Rightarrow> reply | Err e \<Rightarrow> internal e)"
      using run start r id Inl by (auto simp: capture_call_def settled_reply_def split: prod.splits sum.splits)
    have s2: "store_step\<^sup>*\<^sup>* (in_store ?s1) (in_store s2)"
      by (rule worksD [OF run_invocation_works [OF steady_polite [OF steady]] r])
    have "store_step\<^sup>*\<^sup>* (in_store (deregister i s2)) (in_store s')"
      by (rule worksD [OF after_error_works [OF steady_polite [OF steady]] a])
    then have "roomy s2"
      using reachable_steps [OF holds_reachable [OF h1] s2] room roomy_back [of "deregister i s2" s']
      by (simp add: deregister_def roomy_def)
    from run_invocation_concludes [OF steady h1 this cap r] Inl
    have "holds i (\<lambda>r. inv_state r \<in> {IntentPersisted, Dispatched}) (deregister i s2)"
      by (auto simp: concluded_def holds_def deregister_def)
    from after_error_closes [OF steady this room a] reply show ?thesis by auto
  qed
qed


section \<open>Audit room\<close>

text \<open>With no other task running, a capture writes a bounded number of audit entries.\<close>

definition grows :: "nat \<Rightarrow> 'a task \<Rightarrow> bool" where
  "grows n t \<longleftrightarrow> (\<forall>s. store_reachable (in_store s) \<longrightarrow> store_reachable (in_store (fst (t s))) \<and>
     last_seq (in_store (fst (t s))) \<le> last_seq (in_store s) + n)"

lemma growsD:
  "grows n t \<Longrightarrow> store_reachable (in_store s) \<Longrightarrow> t s = (s', q) \<Longrightarrow>
   store_reachable (in_store s') \<and> last_seq (in_store s') \<le> last_seq (in_store s) + n"
  unfolding grows_def by (metis fst_conv)

lemma grows_tbind:
  assumes "grows a t" and "\<And>x. grows b (k x)" and "a + b \<le> n"
  shows "grows n (tbind t k)"
  unfolding grows_def
proof (intro allI impI)
  fix s :: Inner
  assume r: "store_reachable (in_store s)"
  obtain s1 q where t: "t s = (s1, q)" by (rule prod.exhaust)
  have 1: "store_reachable (in_store s1)" "last_seq (in_store s1) \<le> last_seq (in_store s) + a"
    using assms(1) r t unfolding grows_def by (metis fst_conv)+
  then have "store_reachable (in_store (fst (k x s1))) \<and> last_seq (in_store (fst (k x s1))) \<le> last_seq (in_store s) + n" for x
    using assms(2) [of x] assms(3) unfolding grows_def by fastforce
  with 1 assms(3) t show "store_reachable (in_store (fst (tbind t k s))) \<and>
      last_seq (in_store (fst (tbind t k s))) \<le> last_seq (in_store s) + n"
    by (cases q) (simp_all add: tbind_def)
qed

lemma grows_pure: "grows n (treturn x)" "grows n (lift_result r)"
  by (simp_all add: grows_def treturn_def lift_result_def)

lemma grows_read: "alone ms \<Longrightarrow> grows n (at_read (ms k) f)"
  by (simp add: grows_def alone_def at_read_def Let_def)

lemma grows_store:
  assumes "alone ms" and "\<And>env db. store_step db (fst (op env db))"
  shows "grows 1 (at_store (ms k) op)"
  unfolding grows_def
proof (intro allI impI)
  fix s :: Inner
  assume r: "store_reachable (in_store s)"
  have step: "store_step (in_store s) (in_store (fst (at_store (ms k) op s)))"
    using assms(2) [of "in_store s" "m_env (ms k)"] assms(1)
    by (cases "op (m_env (ms k)) (in_store s)") (simp add: at_store_def alone_def Let_def)
  from reachable_step [OF r step] audit_extends_seq [OF store_step_audit [OF step] reachable_audit_inv [OF r]]
  show "store_reachable (in_store (fst (at_store (ms k) op s))) \<and>
      last_seq (in_store (fst (at_store (ms k) op s))) \<le> last_seq (in_store s) + 1" by simp
qed

lemmas grows_ops = grows_store [OF _ begin_step] grows_store [OF _ dispatch_step] grows_store [OF _ transfer_step]
  grows_store [OF _ publish_step] grows_store [OF _ settle_step] grows_store [OF _ release_step]
  grows_store [OF _ unknown_step] grows_store [OF _ audit_step]


lemma capture_parts_grow:
  assumes "alone ms"
  shows "grows 1 (release_call (ms k) i reason)" "grows 1 (settle_failed (ms k) i failure actual)"
    "grows 1 (unknown_call (ms k) i)" "grows 3 (publish_output ms call limits i output elapsed)"
    "grows 1 (deny (ms k) call capability session failure)"
proof -
  note store = grows_ops [OF assms]
  show "grows 1 (release_call (ms k) i reason)" unfolding release_call_def Let_def
    by (rule grows_tbind [OF store(6) grows_pure(1) [of 0]]) simp
  show "grows 1 (settle_failed (ms k) i failure actual)" unfolding settle_failed_def
    by (rule grows_tbind [OF store(5) grows_pure(1) [of 0]]) simp
  show "grows 1 (unknown_call (ms k) i)" unfolding unknown_call_def
    by (rule grows_tbind [OF store(7) grows_pure(1) [of 0]]) simp
  show "grows 1 (deny (ms k) call capability session failure)" unfolding deny_def
    by (rule grows_tbind [OF grows_pure(2) [of 0]], rule grows_tbind [OF store(8) grows_pure(1) [of 0] le_refl]) simp
  show "grows 3 (publish_output ms call limits i output elapsed)" unfolding publish_output_def Let_def
    by (rule grows_tbind [OF grows_read [OF assms, of 0], where b = 3], rule grows_tbind [OF store(3), where b = 2],
        rule grows_tbind [OF store(4), where b = 1], rule grows_tbind [OF store(5) grows_pure(1) [of 0]]) simp_all
qed

lemma grows_mono: "grows n t \<Longrightarrow> n \<le> m \<Longrightarrow> grows m t"
  unfolding grows_def by (meson add_le_mono le_refl le_trans)

lemma run_invocation_grows:
  assumes "alone ms"
  shows "grows 4 (run_invocation ms produce call capture limits i)"
proof -
  note parts = capture_parts_grow [OF assms]
  have one: "grows 3 t" if "grows 1 t" for t :: "Reply task" using grows_mono [OF that] by simp
  have fin: "grows 3 (finish ms call limits i output elapsed)" for "output" elapsed
    unfolding finish_def using parts one by simp
  have fail: "grows 3 (fail ms grant i e elapsed)" for grant e elapsed
    unfolding fail_def
    by (intro one) (auto simp: parts simp del: One_nat_def split: ProducerError.split bool.split intro: grows_tbind [OF grows_read [OF assms, of 0] parts(1)])
  show ?thesis unfolding run_invocation_def Let_def
  proof (rule grows_tbind [OF grows_read [OF assms, of 0], where b = 4])
    fix stop
    have "grows 4 (tbind (at_store (ms 6) (\<lambda>env. dispatch env i)) (\<lambda>_. case produce
        \<lparr>acq_invocation = i, acq_target = cap_target capture, acq_limits = limits,
         acq_egress_policy = cap_egress_policy capture\<rparr> of
             Output output \<Rightarrow> finish ms call limits i output (m_elapsed (ms 7))
           | Produced.Error e \<Rightarrow> fail ms (call_grant call) i e (m_elapsed (ms 7))
           | Produced.Abandoned \<Rightarrow> unknown_call (ms 8) i))"
      by (rule grows_tbind [OF grows_ops(2) [OF assms], where b = 3])
        (simp_all add: fin fail one parts del: One_nat_def split: Produced.split)
    then show "grows 4 (case stop of
        Some reason \<Rightarrow> release_call (ms 6) i reason
      | None \<Rightarrow> tbind (at_store (ms 6) (\<lambda>env. dispatch env i)) (\<lambda>_. case produce
        \<lparr>acq_invocation = i, acq_target = cap_target capture, acq_limits = limits,
         acq_egress_policy = cap_egress_policy capture\<rparr> of
             Output output \<Rightarrow> finish ms call limits i output (m_elapsed (ms 7))
           | Produced.Error e \<Rightarrow> fail ms (call_grant call) i e (m_elapsed (ms 7))
           | Produced.Abandoned \<Rightarrow> unknown_call (ms 8) i))"
      using grows_mono [OF parts(1), of 4] by (simp split: option.split)
  qed simp
qed

lemma after_error_grows:
  assumes "alone ms"
  shows "grows 1 (after_error ms i)"
proof -
  have close: "grows 1 (case st_state status of
      IntentPersisted \<Rightarrow> at_store (ms 13) (\<lambda>env. release_invocation env i ReleaseReason.Abandoned)
    | Dispatched \<Rightarrow> at_store (ms 13) (\<lambda>env. mark_unknown_effect env i)
    | _ \<Rightarrow> treturn status)" for status
    by (simp add: grows_ops [OF assms] grows_pure del: One_nat_def split: InvocationState.split)
  have answer: "grows 0 (case st_terminal status of
      Some _ \<Rightarrow> at_read (ms 14) (\<lambda>_. replay_reply status)
    | None \<Rightarrow> treturn (reply_of i (Failed Failure.UnknownEffect)))" for status
    by (simp add: grows_read [OF assms] grows_pure split: option.split)
  show ?thesis unfolding after_error_def
    by (rule grows_tbind [OF grows_read [OF assms, of 0]], rule option.exhaust)
      (auto simp: grows_pure intro: grows_tbind [OF close answer] split: option.split)
qed


lemma begin_capture_grows:
  assumes "alone ms"
  shows "grows 2 (begin_capture ms call capture)"
proof -
  note parts = capture_parts_grow [OF assms]
  have replay: "grows 1 (replay_capture (ms a) (ms b) call status)" for a b status
    unfolding replay_capture_def
    by (rule grows_tbind [OF grows_read [OF assms, of 0], where b = 1])
      (simp_all add: parts grows_read [OF assms] del: One_nat_def split: option.split)
  have body: "grows 1 (case begun of
        Persisted status \<Rightarrow> treturn (StartedPersisted status limits)
      | Replayed status \<Rightarrow> tbind (replay_capture (ms 3) (ms 4) call status) (\<lambda>reply. treturn (Answered reply))
      | BeginConflict \<Rightarrow> treturn (Answered (reply_failed Failure.IdempotencyConflict))
      | Refused failure _ \<Rightarrow> treturn (Answered (reply_failed failure)))" for begun limits
    by (auto simp: grows_pure simp del: One_nat_def split: Begin.split intro: grows_tbind [OF replay grows_pure(1) [of 0]])
  show ?thesis
  proof (cases "call_key call")
    case (Some key)
    then show ?thesis unfolding begin_capture_def Some option.case Let_def
      by (intro grows_tbind [OF grows_read [OF assms, of 0], where b = 2] grows_tbind [OF grows_pure(2) [of 0], where b = 2]
          grows_tbind [OF grows_ops(1) [OF assms] body]) simp_all
  qed (simp add: begin_capture_def grows_pure)
qed

text \<open>The sample capture runs with room to spare.\<close>

lemma capture_sample_room:
  assumes "capture_call capture_moments produce capture_sample_call capture_sample_request capture_inner = (s', reply)"
  shows "roomy s'"
proof -
  obtain s1 status limits where
    b: "begin_capture capture_moments capture_sample_call capture_sample_request capture_inner = (s1, Ok (StartedPersisted status limits))"
    by (rule capture_sample_starts)
  let ?i = "st_id status"
  obtain s2 res where r: "run_invocation capture_moments produce capture_sample_call capture_sample_request limits ?i
      (register ?i (st_grant_chain status) s1) = (s2, res)" by (rule prod.exhaust)
  have "last_seq capture_db \<le> 1"
    using audit_extends_seq [OF store_step_audit [OF session_step] reachable_audit_inv [OF capture_reachable(1)],
        of sample_env sample_session None]
    by (simp add: capture_db_def last_seq_def capture_db0_eq sample_db1_eq empty_db_def)
  moreover have "store_reachable (in_store capture_inner)" by (simp add: capture_inner_def capture_reachable)
  ultimately have s1: "store_reachable (in_store s1)" "last_seq (in_store s1) \<le> 3"
    using growsD [OF begin_capture_grows [OF capture_alone] _ b] by (simp_all add: capture_inner_def)
  then have "store_reachable (in_store (register ?i (st_grant_chain status) s1))" by (simp add: register_def)
  from growsD [OF run_invocation_grows [OF capture_alone] this r] s1
  have s2: "store_reachable (in_store s2)" "last_seq (in_store s2) \<le> 7" by (simp_all add: register_def)
  have "last_seq (in_store (fst (after_error capture_moments ?i (deregister ?i s2)))) \<le> 8"
  proof (cases "after_error capture_moments ?i (deregister ?i s2)")
    case (Pair s3 q)
    have "store_reachable (in_store (deregister ?i s2))" using s2 by (simp add: deregister_def)
    from growsD [OF after_error_grows [OF capture_alone] this Pair] s2 Pair show ?thesis by (simp add: deregister_def)
  qed
  moreover have "in_store s' = in_store s2 \<or> in_store s' = in_store (fst (after_error capture_moments ?i (deregister ?i s2)))"
    using assms b r
    by (cases res) (auto simp: capture_call_def deregister_def settled_reply_def Let_def split: prod.splits sum.splits)
  ultimately have "last_seq (in_store s') \<le> 8" using s2(2) by auto
  then show ?thesis by (simp add: roomy_def)
qed


lemma capture_steady: "steady i capture_moments"
  by (simp add: steady_def considerate_def capture_moments_def capture_moment_def sample_quiet)

lemma sample_dispatched:
  obtains r where "db_invocations sample_db4 (InvocationId 5) = Some r" and "inv_state r = Dispatched"
proof -
  have "db_invocations sample_db3 (InvocationId 5) = Some sample_record" by (simp add: sample_begin(2))
  moreover have "inv_state sample_record = IntentPersisted" by (simp add: sample_record_def intent_record_def)
  ultimately show ?thesis
    using dispatch_total_op [OF sample_quiet reachable_sound [OF sample_reachable(3)]] that
    by (metis sample_db4_def fst_conv fun_upd_same)
qed

lemma sample_fail_room:
  assumes "fail capture_moments grant i (Unavailable False) elapsed \<lparr>in_store = sample_db4, in_running = r\<rparr> = (s', res)"
  shows "roomy s'"
proof -
  let ?s = "\<lparr>in_store = sample_db4, in_running = r\<rparr>"
  have run: "release_call (capture_moments 8) i ReleaseReason.ProducerUnavailable ?s = (s', res)"
    using assms by (simp add: fail_def)
  have "last_seq sample_db4 \<le> 1"
    using audit_extends_seq [OF store_step_audit [OF dispatch_step] reachable_audit_inv [OF sample_reachable(3)],
        of sample_env "InvocationId 5"]
    by (simp add: sample_db4_def last_seq_def sample_begin(5))
  moreover have "store_reachable (in_store ?s)" by (simp add: sample_reachable)
  ultimately show ?thesis
    using growsD [OF capture_parts_grow(1) [OF capture_alone] _ run] by (simp add: roomy_def)
qed

end
