(* ===== verification/Sealing.thy ===== *)
theory Sealing
  imports Bindings
begin

text \<open>
  Encryption at rest (\<^verbatim>\<open>crates/phylake/src/crypto\<close>, \<^verbatim>\<open>store/meta.rs\<close>): the sealed value format and
  the additional data that binds a value to its place, the key hierarchy derived from the root key and
  from a tenant's data key, wrapped tenant keys, and the plaintext \<open>meta\<close> fields that unlock a store.

  XChaCha20-Poly1305, HKDF-SHA256 and HMAC-SHA256 are libraries the sources call: the record
  \<open>Crypto\<close> holds them as functions on byte strings, and \<open>aead_correct\<close> states what the cipher
  documents.  A draw from the random source is an argument, \<open>None\<close> when the source fails.
\<close>

section \<open>Definitions\<close>

subsection \<open>Primitives (crypto/mod.rs)\<close>

definition KEY_LEN :: nat where "KEY_LEN = 32"
definition TENANT_ID_LEN :: nat where "TENANT_ID_LEN = 16"
definition NONCE_LEN :: nat where "NONCE_LEN = 24"
definition TAG_LEN :: nat where "TAG_LEN = 16"

record Crypto =
  cr_encrypt :: "u8 list \<Rightarrow> u8 list \<Rightarrow> u8 list \<Rightarrow> u8 list \<Rightarrow> u8 list option"
  cr_decrypt :: "u8 list \<Rightarrow> u8 list \<Rightarrow> u8 list \<Rightarrow> u8 list \<Rightarrow> u8 list option"
  cr_extract :: "u8 list option \<Rightarrow> u8 list \<Rightarrow> u8 list"
  cr_expand :: "u8 list \<Rightarrow> u8 list \<Rightarrow> u8 list"
  cr_hmac :: "u8 list \<Rightarrow> u8 list \<Rightarrow> u8 list"

datatype Keyspace =
    KsMeta | KsKeys | KsTenants | KsGrants | KsRevocations | KsSessions | KsInvocations | KsIdem
  | KsLedgers | KsArtifacts | KsBlobs | KsSessionIndex | KsAudit | KsAuditStub | KsRekey

fun keyspace_name :: "Keyspace \<Rightarrow> string" where
  "keyspace_name KsMeta = ''meta''"
| "keyspace_name KsKeys = ''keys''"
| "keyspace_name KsTenants = ''tenants''"
| "keyspace_name KsGrants = ''grants''"
| "keyspace_name KsRevocations = ''revocations''"
| "keyspace_name KsSessions = ''sessions''"
| "keyspace_name KsInvocations = ''invocations''"
| "keyspace_name KsIdem = ''idem''"
| "keyspace_name KsLedgers = ''ledgers''"
| "keyspace_name KsArtifacts = ''artifacts''"
| "keyspace_name KsBlobs = ''blobs''"
| "keyspace_name KsSessionIndex = ''session_index''"
| "keyspace_name KsAudit = ''audit''"
| "keyspace_name KsAuditStub = ''audit_stub''"
| "keyspace_name KsRekey = ''rekey''"

definition hmac_sha256_verify :: "Crypto \<Rightarrow> u8 list \<Rightarrow> u8 list \<Rightarrow> u8 list \<Rightarrow> bool" where
  "hmac_sha256_verify cr key msg tag \<longleftrightarrow> tag = cr_hmac cr key msg"

text \<open>\<open>random_secret_array\<close> and \<open>random_array\<close>: a draw of exactly \<open>n\<close> bytes.\<close>

definition random_array :: "nat \<Rightarrow> u8 list option \<Rightarrow> (u8 list, StoreError) result" where
  "random_array n draw =
     rbind (ok_or draw Entropy) (\<lambda>bytes.
     ensure (length bytes = n) (StoreMalformed ''entropy draw'' (length bytes)) (Ok bytes))"

text \<open>\<open>split_first_chunk\<close> of a byte slice.\<close>

definition split_first_chunk :: "nat \<Rightarrow> u8 list \<Rightarrow> (u8 list \<times> u8 list) option" where
  "split_first_chunk n bytes = (if n \<le> length bytes then Some (take n bytes, drop n bytes) else None)"

subsection \<open>Sealed values (crypto/seal.rs)\<close>

record SealingKey =
  sk_id :: u32
  sk_key :: "u8 list"

definition SEALED_RECORD_VERSION :: u16 where "SEALED_RECORD_VERSION = 1"
definition SEALED_HEADER_LEN :: nat where "SEALED_HEADER_LEN = 2 + 4 + NONCE_LEN"
definition MIN_SEALED_LEN :: nat where "MIN_SEALED_LEN = SEALED_HEADER_LEN + TAG_LEN"
definition AAD_LABEL :: "u8 list" where "AAD_LABEL = bytes_of ''dioptron/v1''"

record SealContext =
  sc_schema_version :: u32
  sc_keyspace :: Keyspace
  sc_kind :: u8
  sc_record_key :: "u8 list"

definition push_prefixed :: "u8 list \<Rightarrow> string \<Rightarrow> u8 list \<Rightarrow> (u8 list, StoreError) result" where
  "push_prefixed out component bytes =
     ensure (length bytes < 2 ^ 16) (AadComponentTooLong component (length bytes))
       (Ok (out @ to_le_bytes 2 (of_nat (length bytes) :: u16) @ bytes))"

definition aad :: "SealContext \<Rightarrow> u32 \<Rightarrow> (u8 list, StoreError) result" where
  "aad ctx key_id =
     (let head = AAD_LABEL @ to_le_bytes 4 (sc_schema_version ctx) @ [sc_kind ctx] @ to_le_bytes 4 key_id in
      rbind (push_prefixed head ''keyspace name'' (bytes_of (keyspace_name (sc_keyspace ctx)))) (\<lambda>out.
      push_prefixed out ''record key'' (sc_record_key ctx)))"

definition check_plaintext_len :: "nat \<Rightarrow> (unit, StoreError) result" where
  "check_plaintext_len len = ensure (len \<le> MAX_PLAINTEXT_LEN) (PlaintextTooLarge len MAX_PLAINTEXT_LEN) (Ok ())"

definition encrypt_with :: "Crypto \<Rightarrow> u8 list \<Rightarrow> u8 list \<Rightarrow> u8 list \<Rightarrow> u8 list \<Rightarrow> (u8 list, StoreError) result" where
  "encrypt_with cr key nonce data plain =
     ok_or (cr_encrypt cr key nonce data plain) (KeyMaterial ''xchacha20poly1305 encrypt'')"

definition seal_with :: "Crypto \<Rightarrow> SealingKey \<Rightarrow> SealContext \<Rightarrow> u8 list \<Rightarrow> u8 list option \<Rightarrow>
    (u8 list, StoreError) result" where
  "seal_with cr key ctx plain draw =
     rbind (check_plaintext_len (length plain)) (\<lambda>_.
     rbind (aad ctx (sk_id key)) (\<lambda>data.
     rbind (random_array NONCE_LEN draw) (\<lambda>nonce.
     rbind (encrypt_with cr (sk_key key) nonce data plain) (\<lambda>ct.
     Ok (to_le_bytes 2 SEALED_RECORD_VERSION @ to_le_bytes 4 (sk_id key) @ nonce @ ct)))))"

definition open_value :: "Crypto \<Rightarrow> SealingKey list \<Rightarrow> SealContext \<Rightarrow> u8 list \<Rightarrow> (u8 list, StoreError) result" where
  "open_value cr keys ctx sealed =
     (let malformed = StoreMalformed ''sealed value'' (length sealed) in
      ensure (MIN_SEALED_LEN \<le> length sealed) malformed
      (rbind (ok_or (split_first_chunk 2 sealed) malformed) (\<lambda>(version, rest1).
       rbind (ok_or (split_first_chunk 4 rest1) malformed) (\<lambda>(key_id, rest2).
       rbind (ok_or (split_first_chunk NONCE_LEN rest2) malformed) (\<lambda>(nonce, ct).
       let version = from_le_bytes version; key_id = from_le_bytes key_id in
       ensure (version = SEALED_RECORD_VERSION) (UnsupportedRecordVersion version)
       (rbind (ok_or (List.find (\<lambda>k. sk_id k = key_id) keys) (UnknownKeyId key_id)) (\<lambda>key.
        rbind (aad ctx key_id) (\<lambda>data.
        ok_or (cr_decrypt cr (sk_key key) nonce data ct) (StoreOpen (keyspace_name (sc_keyspace ctx)))))))))))"

definition sealed_key_id :: "u8 list \<Rightarrow> u32 option" where
  "sealed_key_id sealed =
     (case split_first_chunk 2 sealed of
        None \<Rightarrow> None
      | Some (version, rest) \<Rightarrow>
          (case split_first_chunk 4 rest of None \<Rightarrow> None | Some (key_id, _) \<Rightarrow> Some (from_le_bytes key_id)))"

subsection \<open>The key hierarchy (crypto/keys.rs)\<close>

definition LABEL_BLOB :: "u8 list" where "LABEL_BLOB = bytes_of ''dioptron/v1/blob''"
definition LABEL_META :: "u8 list" where "LABEL_META = bytes_of ''dioptron/v1/meta''"
definition LABEL_AUDIT :: "u8 list" where "LABEL_AUDIT = bytes_of ''dioptron/v1/audit''"
definition LABEL_INDEX :: "u8 list" where "LABEL_INDEX = bytes_of ''dioptron/v1/index''"
definition LABEL_KEK :: "u8 list" where "LABEL_KEK = bytes_of ''dioptron/v1/kek''"
definition LABEL_CHECK :: "u8 list" where "LABEL_CHECK = bytes_of ''dioptron/v1/check''"
definition LABEL_TENANT_BLOB :: "u8 list" where "LABEL_TENANT_BLOB = bytes_of ''dioptron/v1/tenant/blob''"
definition LABEL_TENANT_BLOB_ADDR :: "u8 list" where
  "LABEL_TENANT_BLOB_ADDR = bytes_of ''dioptron/v1/tenant/blob-addr''"
definition LABEL_TENANT_META :: "u8 list" where "LABEL_TENANT_META = bytes_of ''dioptron/v1/tenant/meta''"
definition LABEL_TENANT_AUDIT :: "u8 list" where "LABEL_TENANT_AUDIT = bytes_of ''dioptron/v1/tenant/audit''"
definition LABEL_TENANT_INDEX :: "u8 list" where "LABEL_TENANT_INDEX = bytes_of ''dioptron/v1/tenant/index''"

definition KEY_CHECK_MESSAGE :: "u8 list" where "KEY_CHECK_MESSAGE = bytes_of ''dioptron-key-check''"

definition keyed_hash :: "Crypto \<Rightarrow> u8 list \<Rightarrow> u8 list \<Rightarrow> u8 list" where
  "keyed_hash cr subkey msg = cr_hmac cr subkey msg"

record StoreKeys =
  sks_root_key_id :: u32
  sks_blob :: SealingKey
  sks_meta :: SealingKey
  sks_audit :: SealingKey
  sks_index :: "u8 list"
  sks_kek :: "u8 list"
  sks_check :: "u8 list"

definition salt_generate :: "u8 list option \<Rightarrow> (u8 list, StoreError) result" where
  "salt_generate draw = random_array 32 draw"

definition store_keys_derive :: "Crypto \<Rightarrow> u8 list \<Rightarrow> u32 \<Rightarrow> u8 list \<Rightarrow> StoreKeys" where
  "store_keys_derive cr root root_key_id salt =
     (let hk = cr_extract cr (Some salt) root;
          sealing = (\<lambda>info. \<lparr>sk_id = root_key_id, sk_key = cr_expand cr hk info\<rparr>) in
      \<lparr>sks_root_key_id = root_key_id, sks_blob = sealing LABEL_BLOB, sks_meta = sealing LABEL_META,
       sks_audit = sealing LABEL_AUDIT, sks_index = cr_expand cr hk LABEL_INDEX,
       sks_kek = cr_expand cr hk LABEL_KEK, sks_check = cr_expand cr hk LABEL_CHECK\<rparr>)"

definition store_key_check :: "Crypto \<Rightarrow> StoreKeys \<Rightarrow> u8 list" where
  "store_key_check cr keys = cr_hmac cr (sks_check keys) KEY_CHECK_MESSAGE"

definition store_keys_unlock :: "Crypto \<Rightarrow> u8 list \<Rightarrow> u32 \<Rightarrow> u8 list \<Rightarrow> u8 list \<Rightarrow> (StoreKeys, StoreError) result" where
  "store_keys_unlock cr root root_key_id salt stored_check =
     (let keys = store_keys_derive cr root root_key_id salt in
      ensure (hmac_sha256_verify cr (sks_check keys) KEY_CHECK_MESSAGE stored_check) StoreLocked (Ok keys))"

record TenantDataKey =
  dk_id :: u32
  dk_bytes :: "u8 list"

definition data_key_generate :: "u32 \<Rightarrow> u8 list option \<Rightarrow> (TenantDataKey, StoreError) result" where
  "data_key_generate i draw = rbind (random_array KEY_LEN draw) (\<lambda>bytes. Ok \<lparr>dk_id = i, dk_bytes = bytes\<rparr>)"

record TenantKeys =
  tk_key_id :: u32
  tk_blob :: SealingKey
  tk_blob_addr :: "u8 list"
  tk_meta :: SealingKey
  tk_audit :: SealingKey
  tk_index :: "u8 list"

definition data_key_derive :: "Crypto \<Rightarrow> TenantDataKey \<Rightarrow> TenantKeys" where
  "data_key_derive cr key =
     (let hk = cr_extract cr None (dk_bytes key);
          sealing = (\<lambda>info. \<lparr>sk_id = dk_id key, sk_key = cr_expand cr hk info\<rparr>) in
      \<lparr>tk_key_id = dk_id key, tk_blob = sealing LABEL_TENANT_BLOB,
       tk_blob_addr = cr_expand cr hk LABEL_TENANT_BLOB_ADDR, tk_meta = sealing LABEL_TENANT_META,
       tk_audit = sealing LABEL_TENANT_AUDIT, tk_index = cr_expand cr hk LABEL_TENANT_INDEX\<rparr>)"

record TenantSealingKeys =
  tsk_key_id :: u32
  tsk_blob :: SealingKey
  tsk_meta :: SealingKey
  tsk_audit :: SealingKey

record AddressKeys =
  ak_index :: "u8 list"
  ak_blob_addr :: "u8 list"

definition tenant_keys_split :: "TenantKeys \<Rightarrow> TenantSealingKeys \<times> AddressKeys" where
  "tenant_keys_split keys =
     (\<lparr>tsk_key_id = tk_key_id keys, tsk_blob = tk_blob keys, tsk_meta = tk_meta keys, tsk_audit = tk_audit keys\<rparr>,
      \<lparr>ak_index = tk_index keys, ak_blob_addr = tk_blob_addr keys\<rparr>)"

definition blob_address :: "Crypto \<Rightarrow> AddressKeys \<Rightarrow> u8 list \<Rightarrow> u8 list" where
  "blob_address cr keys plain = cr_hmac cr (ak_blob_addr keys) plain"

subsection \<open>Wrapped tenant keys (crypto/wrap.rs)\<close>

definition WRAPPED_KEY_VERSION :: u16 where "WRAPPED_KEY_VERSION = 1"
definition WRAPPED_KEY_LEN :: nat where "WRAPPED_KEY_LEN = 2 + 4 + 4 + NONCE_LEN + KEY_LEN + TAG_LEN"
definition WRAP_LABEL :: "u8 list" where "WRAP_LABEL = bytes_of ''dioptron/v1/wrap''"
definition WRAPPED_ADDRESS_VERSION :: u16 where "WRAPPED_ADDRESS_VERSION = 1"
definition WRAPPED_ADDRESS_LEN :: nat where "WRAPPED_ADDRESS_LEN = 2 + 4 + NONCE_LEN + 2 * KEY_LEN + TAG_LEN"
definition ADDRESS_WRAP_LABEL :: "u8 list" where "ADDRESS_WRAP_LABEL = bytes_of ''dioptron/v1/wrap-address''"

definition address_aad :: "u32 \<Rightarrow> u8 list \<Rightarrow> u8 list" where
  "address_aad kek_id tenant_id = ADDRESS_WRAP_LABEL @ to_le_bytes 4 kek_id @ tenant_id"

definition wrap_aad :: "u32 \<Rightarrow> u32 \<Rightarrow> u8 list \<Rightarrow> u8 list" where
  "wrap_aad kek_id data_key_id tenant_id =
     WRAP_LABEL @ to_le_bytes 4 kek_id @ to_le_bytes 4 data_key_id @ tenant_id"

definition wrap_tenant_key :: "Crypto \<Rightarrow> StoreKeys \<Rightarrow> u8 list \<Rightarrow> TenantDataKey \<Rightarrow> u8 list option \<Rightarrow>
    (u8 list, StoreError) result" where
  "wrap_tenant_key cr keys tenant_id key draw =
     (let kek_id = sks_root_key_id keys in
      rbind (random_array NONCE_LEN draw) (\<lambda>nonce.
      let data = wrap_aad kek_id (dk_id key) tenant_id in
      rbind (encrypt_with cr (sks_kek keys) nonce data (dk_bytes key)) (\<lambda>ct.
      Ok (to_le_bytes 2 WRAPPED_KEY_VERSION @ to_le_bytes 4 kek_id @ to_le_bytes 4 (dk_id key) @ nonce @ ct))))"

definition unwrap_tenant_key :: "Crypto \<Rightarrow> StoreKeys \<Rightarrow> u8 list \<Rightarrow> u8 list \<Rightarrow> (TenantDataKey, StoreError) result" where
  "unwrap_tenant_key cr keys tenant_id wrapped =
     (let malformed = StoreMalformed ''wrapped tenant key'' (length wrapped) in
      ensure (length wrapped = WRAPPED_KEY_LEN) malformed
      (rbind (ok_or (split_first_chunk 2 wrapped) malformed) (\<lambda>(version, rest1).
       rbind (ok_or (split_first_chunk 4 rest1) malformed) (\<lambda>(kek_id, rest2).
       rbind (ok_or (split_first_chunk 4 rest2) malformed) (\<lambda>(data_key_id, rest3).
       rbind (ok_or (split_first_chunk NONCE_LEN rest3) malformed) (\<lambda>(nonce, ct).
       let version = from_le_bytes version; kek_id = from_le_bytes kek_id; data_key_id = from_le_bytes data_key_id in
       ensure (version = WRAPPED_KEY_VERSION) (UnsupportedRecordVersion version)
       (ensure (kek_id = sks_root_key_id keys) (UnknownKeyId kek_id)
       (rbind (ok_or (cr_decrypt cr (sks_kek keys) nonce (wrap_aad kek_id data_key_id tenant_id) ct)
          TenantKeyUnwrap) (\<lambda>plain.
        ensure (length plain = KEY_LEN) (StoreMalformed ''unwrapped tenant key'' (length plain))
        (Ok \<lparr>dk_id = data_key_id, dk_bytes = plain\<rparr>))))))))))"

definition wrap_address_keys :: "Crypto \<Rightarrow> StoreKeys \<Rightarrow> u8 list \<Rightarrow> AddressKeys \<Rightarrow> u8 list option \<Rightarrow>
    (u8 list, StoreError) result" where
  "wrap_address_keys cr keys tenant_id address draw =
     (let kek_id = sks_root_key_id keys in
      rbind (random_array NONCE_LEN draw) (\<lambda>nonce.
      let plain = ak_index address @ ak_blob_addr address in
      rbind (encrypt_with cr (sks_kek keys) nonce (address_aad kek_id tenant_id) plain) (\<lambda>ct.
      Ok (to_le_bytes 2 WRAPPED_ADDRESS_VERSION @ to_le_bytes 4 kek_id @ nonce @ ct))))"

definition unwrap_address_keys :: "Crypto \<Rightarrow> StoreKeys \<Rightarrow> u8 list \<Rightarrow> u8 list \<Rightarrow> (AddressKeys, StoreError) result" where
  "unwrap_address_keys cr keys tenant_id wrapped =
     (let malformed = StoreMalformed ''wrapped addressing subkeys'' (length wrapped) in
      ensure (length wrapped = WRAPPED_ADDRESS_LEN) malformed
      (rbind (ok_or (split_first_chunk 2 wrapped) malformed) (\<lambda>(version, rest1).
       rbind (ok_or (split_first_chunk 4 rest1) malformed) (\<lambda>(kek_id, rest2).
       rbind (ok_or (split_first_chunk NONCE_LEN rest2) malformed) (\<lambda>(nonce, ct).
       let version = from_le_bytes version; kek_id = from_le_bytes kek_id in
       ensure (version = WRAPPED_ADDRESS_VERSION) (UnsupportedRecordVersion version)
       (ensure (kek_id = sks_root_key_id keys) (UnknownKeyId kek_id)
       (rbind (ok_or (cr_decrypt cr (sks_kek keys) nonce (address_aad kek_id tenant_id) ct)
          TenantKeyUnwrap) (\<lambda>plain.
        let short = StoreMalformed ''unwrapped addressing subkeys'' (length plain) in
        rbind (ok_or (split_first_chunk KEY_LEN plain) short) (\<lambda>(index, blob_addr).
        ensure (length blob_addr = KEY_LEN) short
        (Ok \<lparr>ak_index = index, ak_blob_addr = blob_addr\<rparr>))))))))))"

subsection \<open>Store metadata (store/meta.rs)\<close>

definition SCHEMA_VERSION :: u32 where "SCHEMA_VERSION = 1"
definition FORMAT :: "u8 list" where "FORMAT = bytes_of ''dioptron-custody/fjall3''"

record Meta =
  meta_root_key_id :: u32
  meta_salt :: "u8 list"
  meta_check :: "u8 list"

definition meta_write :: "(string \<Rightarrow> u8 list option) \<Rightarrow> Meta \<Rightarrow> string \<Rightarrow> u8 list option" where
  "meta_write kv meta = kv(
     ''schema_version'' \<mapsto> to_le_bytes 4 SCHEMA_VERSION,
     ''format'' \<mapsto> FORMAT,
     ''active_root_key_id'' \<mapsto> to_le_bytes 4 (meta_root_key_id meta),
     ''kdf_salt'' \<mapsto> meta_salt meta,
     ''key_check'' \<mapsto> meta_check meta)"

definition field_bytes :: "(string \<Rightarrow> u8 list option) \<Rightarrow> string \<Rightarrow> (u8 list, StoreError) result" where
  "field_bytes kv name = ok_or (kv name) (StoreMissing name)"

definition fixed :: "(string \<Rightarrow> u8 list option) \<Rightarrow> nat \<Rightarrow> string \<Rightarrow> (u8 list, StoreError) result" where
  "fixed kv n name =
     rbind (field_bytes kv name) (\<lambda>bytes. ensure (length bytes = n) (MetaMalformed name) (Ok bytes))"

definition meta_read :: "(string \<Rightarrow> u8 list option) \<Rightarrow> (Meta, StoreError) result" where
  "meta_read kv =
     rbind (field_bytes kv ''format'') (\<lambda>format.
     ensure (format = FORMAT) (MetaMalformed ''format'')
     (rbind (fixed kv 4 ''schema_version'') (\<lambda>version.
      let found = from_le_bytes version; supported = SCHEMA_VERSION in
      ensure (found \<le> supported) (SchemaTooNew found supported)
      (ensure (found = supported) (MigrationRequired found supported)
      (rbind (fixed kv 4 ''active_root_key_id'') (\<lambda>root_key_id.
       rbind (fixed kv 32 ''kdf_salt'') (\<lambda>salt.
       rbind (fixed kv 32 ''key_check'') (\<lambda>check.
       Ok \<lparr>meta_root_key_id = from_le_bytes root_key_id, meta_salt = salt, meta_check = check\<rparr>))))))))"

section \<open>What the cipher documents\<close>

text \<open>
  Decryption inverts encryption under the same key, nonce and additional data, and a ciphertext is the
  plaintext's length and a tag.
\<close>

definition aead_correct :: "Crypto \<Rightarrow> bool" where
  "aead_correct cr \<longleftrightarrow>
     (\<forall>key nonce data plain ct. cr_encrypt cr key nonce data plain = Some ct \<longrightarrow>
        cr_decrypt cr key nonce data ct = Some plain \<and> length ct = length plain + TAG_LEN)"

text \<open>
  A forgery for a ciphertext: it decrypts under a key or with additional data other than those it was
  produced with.
\<close>

definition forged :: "Crypto \<Rightarrow> u8 list \<times> u8 list \<Rightarrow> u8 list \<Rightarrow> u8 list \<Rightarrow> bool" where
  "forged cr origin nonce ct \<longleftrightarrow>
     (\<exists>key data. (key, data) \<noteq> origin \<and> cr_decrypt cr key nonce data ct \<noteq> None)"

lemma aead_correctD:
  assumes "aead_correct cr" and "cr_encrypt cr key nonce data plain = Some ct"
  shows "cr_decrypt cr key nonce data ct = Some plain" and "length ct = length plain + TAG_LEN"
  using assms by (simp_all add: aead_correct_def)

lemma honest_origin:
  assumes "\<not> forged cr (key, data) nonce ct" and "cr_decrypt cr key' nonce data' ct = Some plain"
  shows "key' = key" and "data' = data"
  using assms unfolding forged_def by (metis option.distinct(1) prod.inject)+

lemma random_array_Ok_iff: "random_array n draw = Ok bytes \<longleftrightarrow> draw = Some bytes \<and> length bytes = n"
  by (auto simp: random_array_def rbind_Ok_iff ensure_Ok_iff ok_or_Ok_iff)

lemma split_first_chunk_append: "length a = n \<Longrightarrow> split_first_chunk n (a @ b) = Some (a, b)"
  by (simp add: split_first_chunk_def)

lemma split_first_chunk_Some_iff:
  "split_first_chunk n bytes = Some (a, b) \<longleftrightarrow> length a = n \<and> bytes = a @ b"
  by (auto simp: split_first_chunk_def append_eq_conv_conj)

section \<open>Additional data names one place\<close>

lemma keyspace_name_inject: "keyspace_name a = keyspace_name b \<longleftrightarrow> a = b"
  by (cases a; cases b) simp_all

lemma keyspace_name_short: "length (keyspace_name k) < 2 ^ 16"
  by (cases k) simp_all

text \<open>A component behind a two-byte length is a prefix code.\<close>

lemma prefixed_append:
  assumes "to_le_bytes 2 (of_nat (length a) :: u16) @ a @ x = to_le_bytes 2 (of_nat (length b) :: u16) @ b @ y"
    and "length a < 2 ^ 16" and "length b < 2 ^ 16"
  shows "a = b \<and> x = y"
proof -
  from assms(1) have *: "to_le_bytes 2 (of_nat (length a) :: u16) = to_le_bytes 2 (of_nat (length b) :: u16)"
    "a @ x = b @ y" by (auto simp: append_eq_append_conv)
  from *(1) have "(of_nat (length a) :: u16) = of_nat (length b)" by (subst (asm) to_le_bytes_inject) simp_all
  then have "unat (of_nat (length a) :: u16) = unat (of_nat (length b) :: u16)" by (simp only:)
  then have "length a = length b" using assms(2,3) by (simp add: unsigned_of_nat take_bit_nat_eq_self)
  with *(2) show ?thesis by simp
qed

lemma aad_Ok_iff:
  "aad ctx i = Ok data \<longleftrightarrow> length (sc_record_key ctx) < 2 ^ 16 \<and>
   data = AAD_LABEL @ to_le_bytes 4 (sc_schema_version ctx) @ [sc_kind ctx] @ to_le_bytes 4 i @
     (to_le_bytes 2 (of_nat (length (bytes_of (keyspace_name (sc_keyspace ctx)))) :: u16) @
      bytes_of (keyspace_name (sc_keyspace ctx)) @
      to_le_bytes 2 (of_nat (length (sc_record_key ctx)) :: u16) @ sc_record_key ctx @ [])"
  using keyspace_name_short [of "sc_keyspace ctx"]
  by (auto simp: aad_def push_prefixed_def Let_def ensure_Ok_iff)

lemma aad_inject:
  assumes "aad ctx i = Ok data" and "aad ctx' j = Ok data"
  shows "ctx = ctx' \<and> i = j"
proof -
  let ?tail = "\<lambda>c. to_le_bytes 2 (of_nat (length (bytes_of (keyspace_name (sc_keyspace c)))) :: u16) @
      bytes_of (keyspace_name (sc_keyspace c)) @
      to_le_bytes 2 (of_nat (length (sc_record_key c)) :: u16) @ sc_record_key c @ []"
  from assms [unfolded aad_Ok_iff] have short: "length (sc_record_key ctx) < 2 ^ 16" "length (sc_record_key ctx') < 2 ^ 16"
    and eq: "to_le_bytes 4 (sc_schema_version ctx) @ [sc_kind ctx] @ to_le_bytes 4 i @ ?tail ctx =
      to_le_bytes 4 (sc_schema_version ctx') @ [sc_kind ctx'] @ to_le_bytes 4 j @ ?tail ctx'"
    by simp_all
  from eq have "to_le_bytes 4 (sc_schema_version ctx) = to_le_bytes 4 (sc_schema_version ctx')"
    "sc_kind ctx = sc_kind ctx'" "to_le_bytes 4 i = to_le_bytes 4 j" and tail: "?tail ctx = ?tail ctx'"
    by (auto simp: append_eq_append_conv)
  then have head: "sc_schema_version ctx = sc_schema_version ctx'" "sc_kind ctx = sc_kind ctx'" "i = j"
    by (simp_all add: to_le_bytes_inject)
  from prefixed_append [OF tail] have ks: "bytes_of (keyspace_name (sc_keyspace ctx)) = bytes_of (keyspace_name (sc_keyspace ctx'))"
    and "to_le_bytes 2 (of_nat (length (sc_record_key ctx)) :: u16) @ sc_record_key ctx @ [] =
      to_le_bytes 2 (of_nat (length (sc_record_key ctx')) :: u16) @ sc_record_key ctx' @ []"
    using keyspace_name_short by simp_all
  with prefixed_append [OF this(2) short] have "sc_record_key ctx = sc_record_key ctx'" by blast
  with head ks show ?thesis by (cases ctx; cases ctx') (simp add: bytes_of_inject keyspace_name_inject)
qed

section \<open>Sealed values\<close>

lemma seal_with_Ok_iff:
  "seal_with cr key ctx plain draw = Ok sealed \<longleftrightarrow>
   length plain \<le> MAX_PLAINTEXT_LEN \<and>
   (\<exists>data nonce ct. aad ctx (sk_id key) = Ok data \<and> draw = Some nonce \<and> length nonce = NONCE_LEN \<and>
      cr_encrypt cr (sk_key key) nonce data plain = Some ct \<and>
      sealed = to_le_bytes 2 SEALED_RECORD_VERSION @ to_le_bytes 4 (sk_id key) @ nonce @ ct)"
  by (auto simp: seal_with_def check_plaintext_len_def encrypt_with_def rbind_Ok_iff ensure_Ok_iff ok_or_Ok_iff
      random_array_Ok_iff)

lemma sealed_key_id_seal:
  "seal_with cr key ctx plain draw = Ok sealed \<Longrightarrow> sealed_key_id sealed = Some (sk_id key)"
  by (auto simp: seal_with_Ok_iff sealed_key_id_def split_first_chunk_append from_le_to_le_bytes)

lemma open_value_layout:
  assumes "length nonce = NONCE_LEN" and "TAG_LEN \<le> length ct"
  shows "open_value cr keys ctx (to_le_bytes 2 SEALED_RECORD_VERSION @ to_le_bytes 4 i @ nonce @ ct) =
    rbind (ok_or (List.find (\<lambda>k. sk_id k = i) keys) (UnknownKeyId i)) (\<lambda>key.
    rbind (aad ctx i) (\<lambda>data.
    ok_or (cr_decrypt cr (sk_key key) nonce data ct) (StoreOpen (keyspace_name (sc_keyspace ctx)))))"
  using assms
  by (simp add: open_value_def Let_def split_first_chunk_append from_le_to_le_bytes MIN_SEALED_LEN_def
      SEALED_HEADER_LEN_def)

section \<open>Wrapped keys\<close>

lemma wrap_tenant_key_Ok_iff:
  "wrap_tenant_key cr keys t key draw = Ok wrapped \<longleftrightarrow>
   (\<exists>nonce ct. draw = Some nonce \<and> length nonce = NONCE_LEN \<and>
      cr_encrypt cr (sks_kek keys) nonce (wrap_aad (sks_root_key_id keys) (dk_id key) t) (dk_bytes key) = Some ct \<and>
      wrapped = to_le_bytes 2 WRAPPED_KEY_VERSION @ to_le_bytes 4 (sks_root_key_id keys) @
        to_le_bytes 4 (dk_id key) @ nonce @ ct)"
  by (auto simp: wrap_tenant_key_def encrypt_with_def Let_def rbind_Ok_iff ok_or_Ok_iff random_array_Ok_iff)

lemma unwrap_layout:
  assumes "length nonce = NONCE_LEN" and "length ct = KEY_LEN + TAG_LEN"
  shows "unwrap_tenant_key cr keys t (to_le_bytes 2 WRAPPED_KEY_VERSION @ to_le_bytes 4 kek @
      to_le_bytes 4 i @ nonce @ ct) =
    ensure (kek = sks_root_key_id keys) (UnknownKeyId kek)
    (rbind (ok_or (cr_decrypt cr (sks_kek keys) nonce (wrap_aad kek i t) ct) TenantKeyUnwrap) (\<lambda>plain.
     ensure (length plain = KEY_LEN) (StoreMalformed ''unwrapped tenant key'' (length plain))
     (Ok \<lparr>dk_id = i, dk_bytes = plain\<rparr>)))"
  using assms
  by (simp add: unwrap_tenant_key_def Let_def split_first_chunk_append from_le_to_le_bytes WRAPPED_KEY_LEN_def)

lemma wrap_aad_inject:
  "length t = length t' \<Longrightarrow> wrap_aad a b t = wrap_aad a' b' t' \<longleftrightarrow> a = a' \<and> b = b' \<and> t = t'"
  by (auto simp: wrap_aad_def append_eq_append_conv to_le_bytes_inject)

lemma wrap_address_keys_Ok_iff:
  "wrap_address_keys cr keys t address draw = Ok wrapped \<longleftrightarrow>
   (\<exists>nonce ct. draw = Some nonce \<and> length nonce = NONCE_LEN \<and>
      cr_encrypt cr (sks_kek keys) nonce (address_aad (sks_root_key_id keys) t)
        (ak_index address @ ak_blob_addr address) = Some ct \<and>
      wrapped = to_le_bytes 2 WRAPPED_ADDRESS_VERSION @ to_le_bytes 4 (sks_root_key_id keys) @ nonce @ ct)"
  by (auto simp: wrap_address_keys_def encrypt_with_def Let_def rbind_Ok_iff ok_or_Ok_iff random_array_Ok_iff)

lemma unwrap_address_roundtrip:
  assumes "aead_correct cr" and "wrap_address_keys cr keys t address draw = Ok wrapped"
    and "length (ak_index address) = KEY_LEN" and "length (ak_blob_addr address) = KEY_LEN"
  shows "unwrap_address_keys cr keys t wrapped = Ok address"
proof -
  from assms(2) obtain nonce ct where n: "length nonce = NONCE_LEN"
    and ct: "cr_encrypt cr (sks_kek keys) nonce (address_aad (sks_root_key_id keys) t)
        (ak_index address @ ak_blob_addr address) = Some ct"
    and w: "wrapped = to_le_bytes 2 WRAPPED_ADDRESS_VERSION @ to_le_bytes 4 (sks_root_key_id keys) @ nonce @ ct"
    by (auto simp: wrap_address_keys_Ok_iff)
  from aead_correctD [OF assms(1) ct] n assms(3,4) show ?thesis
    by (simp add: unwrap_address_keys_def Let_def w split_first_chunk_append from_le_to_le_bytes
        WRAPPED_ADDRESS_LEN_def)
qed

section \<open>Unlocking a store\<close>

lemma meta_roundtrip:
  assumes "length (meta_salt meta) = 32" and "length (meta_check meta) = 32"
  shows "meta_read (meta_write kv meta) = Ok meta"
  using assms
  by (simp add: meta_read_def meta_write_def field_bytes_def fixed_def Let_def from_le_to_le_bytes)

lemma unlock_exact:
  "store_keys_unlock cr root i salt check =
     (if check = store_key_check cr (store_keys_derive cr root i salt)
      then Ok (store_keys_derive cr root i salt) else Err StoreLocked)"
  by (simp add: store_keys_unlock_def store_key_check_def hmac_sha256_verify_def Let_def ensure_def)


section \<open>Properties\<close>

text \<open>A cipher that only pads, for the concrete instances below.\<close>

definition pad_crypto :: Crypto where
  "pad_crypto = \<lparr>cr_encrypt = (\<lambda>key nonce data plain. Some (plain @ replicate 16 0)),
     cr_decrypt = (\<lambda>key nonce data ct. Some (take (length ct - 16) ct)),
     cr_extract = (\<lambda>salt ikm. ikm), cr_expand = (\<lambda>prk info. info), cr_hmac = (\<lambda>key msg. msg)\<rparr>"

lemma pad_correct: "aead_correct pad_crypto"
  by (simp add: aead_correct_def pad_crypto_def TAG_LEN_def)

text \<open>C33. A sealed value opens where it was sealed and nowhere else: with the sealing key among the presented keys it
  opens at its own context to the plaintext, its header names the key, and any opening that succeeds, under
  any keys and at any schema version, keyspace, record kind or record key, returns that plaintext at that
  context or decrypts a forgery of the cipher.\<close>
theorem sealed_value_bound:
  assumes "aead_correct cr" and "seal_with cr key ctx plain draw = Ok sealed"
  shows "sealed_key_id sealed = Some (sk_id key) \<and>
    (\<forall>keys. List.find (\<lambda>k. sk_id k = sk_id key) keys = Some key \<longrightarrow> open_value cr keys ctx sealed = Ok plain) \<and>
    (\<exists>data nonce ct. aad ctx (sk_id key) = Ok data \<and>
       sealed = to_le_bytes 2 SEALED_RECORD_VERSION @ to_le_bytes 4 (sk_id key) @ nonce @ ct \<and>
       (\<forall>keys ctx' opened. open_value cr keys ctx' sealed = Ok opened \<longrightarrow>
          ctx' = ctx \<and> opened = plain \<or> forged cr (sk_key key, data) nonce ct))"
proof -
  from assms(2) obtain data nonce ct where data: "aad ctx (sk_id key) = Ok data" and n: "length nonce = NONCE_LEN"
    and ct: "cr_encrypt cr (sk_key key) nonce data plain = Some ct"
    and sealed: "sealed = to_le_bytes 2 SEALED_RECORD_VERSION @ to_le_bytes 4 (sk_id key) @ nonce @ ct"
    by (auto simp: seal_with_Ok_iff)
  note dec = aead_correctD [OF assms(1) ct]
  have layout: "open_value cr keys ctx' sealed = rbind (ok_or (List.find (\<lambda>k. sk_id k = sk_id key) keys) (UnknownKeyId (sk_id key))) (\<lambda>key'.
    rbind (aad ctx' (sk_id key)) (\<lambda>data.
    ok_or (cr_decrypt cr (sk_key key') nonce data ct) (StoreOpen (keyspace_name (sc_keyspace ctx')))))" for keys ctx'
    unfolding sealed using n dec(2) by (intro open_value_layout) simp_all
  have "ctx' = ctx \<and> opened = plain \<or> forged cr (sk_key key, data) nonce ct"
    if opened: "open_value cr keys ctx' sealed = Ok opened" for keys ctx' opened
  proof (rule disjCI)
    assume honest: "\<not> forged cr (sk_key key, data) nonce ct"
    from opened obtain key' :: SealingKey and data' where d: "aad ctx' (sk_id key) = Ok data'"
      "cr_decrypt cr (sk_key key') nonce data' ct = Some opened" unfolding layout rbind_Ok_iff ok_or_Ok_iff by blast
    note same = honest_origin [OF honest d(2)]
    with d dec(1) aad_inject [OF data, of ctx' "sk_id key"] show "ctx' = ctx \<and> opened = plain" by auto
  qed
  moreover have "open_value cr keys ctx sealed = Ok plain" if "List.find (\<lambda>k. sk_id k = sk_id key) keys = Some key" for keys
    using that data dec(1) by (simp add: layout)
  ultimately show ?thesis using data sealed sealed_key_id_seal [OF assms(2)] by blast
qed

theorem sealed_value_bound_witness:
  "\<exists>sealed. seal_with pad_crypto \<lparr>sk_id = 3, sk_key = []\<rparr> \<lparr>sc_schema_version = 1, sc_keyspace = KsBlobs, sc_kind = 12,
      sc_record_key = [5]\<rparr> [1, 2] (Some (replicate 24 0)) = Ok sealed \<and> sealed_key_id sealed = Some 3"
proof -
  let ?key = "\<lparr>sk_id = 3, sk_key = []\<rparr>"
  let ?ctx = "\<lparr>sc_schema_version = 1, sc_keyspace = KsBlobs, sc_kind = 12, sc_record_key = [5]\<rparr>"
  obtain data where data: "aad ?ctx 3 = Ok data" by (simp add: aad_Ok_iff)
  have "\<exists>sealed. seal_with pad_crypto ?key ?ctx [1, 2] (Some (replicate 24 0)) = Ok sealed"
    using data by (simp add: seal_with_Ok_iff pad_crypto_def NONCE_LEN_def MAX_PLAINTEXT_LEN_def)
  then obtain sealed where sealed: "seal_with pad_crypto ?key ?ctx [1, 2] (Some (replicate 24 0)) = Ok sealed" by blast
  from sealed_value_bound [OF pad_correct sealed] sealed show ?thesis by simp
qed

text \<open>A wrapped tenant key unwraps for its tenant under its store keys and for no other: it gives the key back, and
  an unwrapping that succeeds for another tenant, or under another root key or root key id, decrypts a
  forgery of the cipher.\<close>
theorem wrapped_key_bound:
  assumes "aead_correct cr" and "wrap_tenant_key cr keys (tenant_to_bytes t) key draw = Ok wrapped"
    and "length (dk_bytes key) = KEY_LEN"
  shows "unwrap_tenant_key cr keys (tenant_to_bytes t) wrapped = Ok key \<and>
    (\<exists>nonce ct. wrapped = to_le_bytes 2 WRAPPED_KEY_VERSION @ to_le_bytes 4 (sks_root_key_id keys) @
         to_le_bytes 4 (dk_id key) @ nonce @ ct \<and>
       (\<forall>keys' t' key'. unwrap_tenant_key cr keys' (tenant_to_bytes t') wrapped = Ok key' \<longrightarrow>
         (t' = t \<and> sks_kek keys' = sks_kek keys \<and> sks_root_key_id keys' = sks_root_key_id keys \<and> key' = key) \<or>
         forged cr (sks_kek keys, wrap_aad (sks_root_key_id keys) (dk_id key) (tenant_to_bytes t)) nonce ct))"
proof -
  let ?data = "wrap_aad (sks_root_key_id keys) (dk_id key) (tenant_to_bytes t)"
  from assms(2) obtain nonce ct where n: "length nonce = NONCE_LEN"
    and ct: "cr_encrypt cr (sks_kek keys) nonce ?data (dk_bytes key) = Some ct"
    and w: "wrapped = to_le_bytes 2 WRAPPED_KEY_VERSION @ to_le_bytes 4 (sks_root_key_id keys) @
        to_le_bytes 4 (dk_id key) @ nonce @ ct" by (auto simp: wrap_tenant_key_Ok_iff)
  note dec = aead_correctD [OF assms(1) ct]
  note layout = unwrap_layout [OF n, of ct cr, unfolded dec(2) assms(3), OF refl]
  have "t' = t \<and> sks_kek keys' = sks_kek keys \<and> sks_root_key_id keys' = sks_root_key_id keys \<and> key' = key"
    if "unwrap_tenant_key cr keys' (tenant_to_bytes t') wrapped = Ok key'"
      and honest: "\<not> forged cr (sks_kek keys, ?data) nonce ct" for keys' t' key'
  proof -
    let ?data' = "wrap_aad (sks_root_key_id keys) (dk_id key) (tenant_to_bytes t')"
    from that(1) obtain plain where p: "sks_root_key_id keys = sks_root_key_id keys'"
      "cr_decrypt cr (sks_kek keys') nonce ?data' ct = Some plain" "key' = \<lparr>dk_id = dk_id key, dk_bytes = plain\<rparr>"
      unfolding w layout by (auto simp: ensure_Ok_iff rbind_Ok_iff ok_or_Ok_iff)
    note same = honest_origin [OF honest p(2)]
    from same(2) have "tenant_to_bytes t' = tenant_to_bytes t" by (simp add: wrap_aad_def)
    then have "t' = t" by (cases t; cases t') (simp add: id_to_bytes_def to_be_bytes_inject)
    with same p dec(1) show ?thesis by simp
  qed
  moreover have "unwrap_tenant_key cr keys (tenant_to_bytes t) wrapped = Ok key"
    using dec(1) assms(3) by (simp add: w layout)
  ultimately show ?thesis using w by blast
qed

theorem wrapped_key_bound_witness:
  "\<exists>wrapped. unwrap_tenant_key pad_crypto (store_keys_derive pad_crypto [] 1 []) (tenant_to_bytes (TenantId 1)) wrapped =
    Ok \<lparr>dk_id = 2, dk_bytes = replicate 32 7\<rparr>"
proof -
  let ?keys = "store_keys_derive pad_crypto [] 1 []" and ?key = "\<lparr>dk_id = 2, dk_bytes = replicate 32 (7 :: u8)\<rparr>"
  obtain wrapped where w: "wrap_tenant_key pad_crypto ?keys (tenant_to_bytes (TenantId 1)) ?key (Some (replicate 24 0)) = Ok wrapped"
    by (simp add: wrap_tenant_key_Ok_iff) (simp add: pad_crypto_def NONCE_LEN_def)
  have "length (dk_bytes ?key) = KEY_LEN" by (simp add: KEY_LEN_def)
  with wrapped_key_bound [OF pad_correct w] show ?thesis by blast
qed

end
