(* ===== verification/Record_Keys.thy ===== *)
theory Record_Keys
  imports Sealing
begin

text \<open>
  Physical record keys (\<^verbatim>\<open>crates/phylake/src/store/record_key.rs\<close>): the byte string each record key
  hashes, for the records under the store's index subkey and for those under a tenant's.  The hashed
  input determines the record, so two records collide only where HMAC-SHA256 does.
\<close>

section \<open>Definitions\<close>

primrec artifact_to_bytes :: "ArtifactRef \<Rightarrow> u8 list" where
  "artifact_to_bytes (ArtifactRef v) = id_to_bytes v"

primrec invocation_to_bytes :: "InvocationId \<Rightarrow> u8 list" where
  "invocation_to_bytes (InvocationId v) = id_to_bytes v"

definition part_bytes :: "u8 list \<Rightarrow> u8 list" where
  "part_bytes part = to_le_bytes 4 (if length part < 2 ^ 32 then of_nat (length part) else - 1 :: u32) @ part"

definition keyed_input :: "string \<Rightarrow> u8 list list \<Rightarrow> u8 list" where
  "keyed_input domain parts =
     bytes_of ''dioptron/v1/key/'' @ bytes_of domain @ concat (map part_bytes parts)"

definition keyed :: "Crypto \<Rightarrow> u8 list \<Rightarrow> string \<Rightarrow> u8 list list \<Rightarrow> u8 list" where
  "keyed cr subkey domain parts = keyed_hash cr subkey (keyed_input domain parts)"

text \<open>The records keyed under the store index subkey, with the domain and parts of each key.\<close>

datatype StoreRecordKey =
    TenantKey TenantId
  | DataKeyKey TenantId u32
  | AddressKeysKey TenantId
  | RekeyKey TenantId
  | TombstoneKey TenantId
  | GrantKey GrantId
  | RevocationKey GrantId
  | SessionKey SessionId
  | InvocationKey InvocationId
  | LedgerKey LedgerId
  | LocatorKey ArtifactRef

fun store_domain :: "StoreRecordKey \<Rightarrow> string" where
  "store_domain (TenantKey t) = ''tenant''"
| "store_domain (DataKeyKey t k) = ''data-key''"
| "store_domain (AddressKeysKey t) = ''address-keys''"
| "store_domain (RekeyKey t) = ''rekey''"
| "store_domain (TombstoneKey t) = ''tombstone''"
| "store_domain (GrantKey g) = ''grant''"
| "store_domain (RevocationKey g) = ''revocation''"
| "store_domain (SessionKey s) = ''session''"
| "store_domain (InvocationKey i) = ''invocation''"
| "store_domain (LedgerKey (LedgerGrant g)) = ''ledger/grant''"
| "store_domain (LedgerKey (LedgerSession s)) = ''ledger/session''"
| "store_domain (LedgerKey (LedgerTenant t)) = ''ledger/tenant''"
| "store_domain (LocatorKey a) = ''locator''"

fun store_parts :: "StoreRecordKey \<Rightarrow> u8 list list" where
  "store_parts (TenantKey t) = [tenant_to_bytes t]"
| "store_parts (DataKeyKey t k) = [tenant_to_bytes t, to_le_bytes 4 k]"
| "store_parts (AddressKeysKey t) = [tenant_to_bytes t]"
| "store_parts (RekeyKey t) = [tenant_to_bytes t]"
| "store_parts (TombstoneKey t) = [tenant_to_bytes t]"
| "store_parts (GrantKey g) = [grant_to_bytes g]"
| "store_parts (RevocationKey g) = [grant_to_bytes g]"
| "store_parts (SessionKey s) = [session_to_bytes s]"
| "store_parts (InvocationKey i) = [invocation_to_bytes i]"
| "store_parts (LedgerKey (LedgerGrant g)) = [grant_to_bytes g]"
| "store_parts (LedgerKey (LedgerSession s)) = [session_to_bytes s]"
| "store_parts (LedgerKey (LedgerTenant t)) = [tenant_to_bytes t]"
| "store_parts (LocatorKey a) = [artifact_to_bytes a]"

definition store_key :: "Crypto \<Rightarrow> u8 list \<Rightarrow> StoreRecordKey \<Rightarrow> u8 list" where
  "store_key cr index k = keyed cr index (store_domain k) (store_parts k)"

text \<open>The records keyed under a tenant's index subkey; the last two are prefixes.\<close>

datatype TenantRecordKey =
    IdemKey TenantId Capability IdempotencyKey
  | ArtifactKey TenantId ArtifactRef
  | PendingKey TenantId InvocationId
  | BlobKey TenantId "u8 list"
  | SessionIndexPrefix TenantId SessionId
  | AuditPrefix TenantId

fun tenant_domain :: "TenantRecordKey \<Rightarrow> string" where
  "tenant_domain (IdemKey t c key) = ''idem''"
| "tenant_domain (ArtifactKey t a) = ''artifact''"
| "tenant_domain (PendingKey t i) = ''pending''"
| "tenant_domain (BlobKey t address) = ''blob''"
| "tenant_domain (SessionIndexPrefix t s) = ''session-index''"
| "tenant_domain (AuditPrefix t) = ''audit''"

fun tenant_parts :: "TenantRecordKey \<Rightarrow> u8 list list" where
  "tenant_parts (IdemKey t c key) = [tenant_to_bytes t, bytes_of (Capability_name c), key_bytes key]"
| "tenant_parts (ArtifactKey t a) = [tenant_to_bytes t, artifact_to_bytes a]"
| "tenant_parts (PendingKey t i) = [tenant_to_bytes t, invocation_to_bytes i]"
| "tenant_parts (BlobKey t address) = [tenant_to_bytes t, address]"
| "tenant_parts (SessionIndexPrefix t s) = [tenant_to_bytes t, session_to_bytes s]"
| "tenant_parts (AuditPrefix t) = [tenant_to_bytes t]"

definition tenant_key :: "Crypto \<Rightarrow> u8 list \<Rightarrow> TenantRecordKey \<Rightarrow> u8 list" where
  "tenant_key cr index k = keyed cr index (tenant_domain k) (tenant_parts k)"

definition join_key :: "u8 list \<Rightarrow> u8 list \<Rightarrow> u8 list" where
  "join_key prefix suffix = prefix @ suffix"

section \<open>The hashed input names one record\<close>

lemma part_bytes_append:
  assumes "part_bytes a @ x = part_bytes b @ y" and "length a < 2 ^ 32" and "length b < 2 ^ 32"
  shows "a = b \<and> x = y"
proof -
  from assms have "to_le_bytes 4 (of_nat (length a) :: u32) @ a @ x = to_le_bytes 4 (of_nat (length b) :: u32) @ b @ y"
    by (simp add: part_bytes_def)
  then have *: "to_le_bytes 4 (of_nat (length a) :: u32) = to_le_bytes 4 (of_nat (length b) :: u32)" "a @ x = b @ y"
    by (auto simp: append_eq_append_conv)
  from *(1) have "(of_nat (length a) :: u32) = of_nat (length b)" by (subst (asm) to_le_bytes_inject) simp_all
  then have "unat (of_nat (length a) :: u32) = unat (of_nat (length b) :: u32)" by (simp only:)
  then have "length a = length b" using assms(2,3) by (simp add: unsigned_of_nat take_bit_nat_eq_self)
  with *(2) show ?thesis by simp
qed

lemma part_bytes_not_Nil: "part_bytes a \<noteq> []"
proof
  assume "part_bytes a = []"
  then have "length (part_bytes a) = 0" by simp
  then show False by (simp add: part_bytes_def)
qed

lemma parts_inject:
  "concat (map part_bytes ps) = concat (map part_bytes qs) \<Longrightarrow>
   (\<And>p. p \<in> set ps \<Longrightarrow> length p < 2 ^ 32) \<Longrightarrow> (\<And>q. q \<in> set qs \<Longrightarrow> length q < 2 ^ 32) \<Longrightarrow> ps = qs"
proof (induction ps arbitrary: qs)
  case Nil
  then show ?case by (cases qs) (simp_all add: part_bytes_not_Nil)
next
  case (Cons p ps)
  then obtain q qs' where qs: "qs = q # qs'" by (cases qs) (simp_all add: part_bytes_not_Nil)
  with Cons.prems part_bytes_append [of p "concat (map part_bytes ps)" q "concat (map part_bytes qs')"]
  have "p = q" "concat (map part_bytes ps) = concat (map part_bytes qs')" by simp_all
  with Cons qs show ?case by simp
qed

text \<open>
  No domain contains the byte 16, and every key's first part is a 16-byte identifier, so the domain ends
  where that byte first appears.
\<close>

lemma sixteen_bytes: "length part = 16 \<Longrightarrow> part_bytes part = [16, 0, 0, 0] @ part"
proof -
  assume len: "length part = 16"
  have "to_le_bytes 4 (16 :: u32) = [16, 0, 0, 0]" by code_simp
  with len show ?thesis by (simp add: part_bytes_def)
qed

lemma takeWhile_separator: "z \<notin> set xs \<Longrightarrow> takeWhile (\<lambda>b. b \<noteq> z) (xs @ z # ys) = xs"
  by (induction xs) auto

lemma domain_inject:
  assumes "bytes_of d @ (16 :: u8) # x = bytes_of e @ 16 # y"
    and "(16 :: u8) \<notin> set (bytes_of d)" and "(16 :: u8) \<notin> set (bytes_of e)"
  shows "d = e \<and> x = y"
proof -
  from assms have "bytes_of d = bytes_of e" by (metis takeWhile_separator)
  with assms(1) show ?thesis by (simp add: bytes_of_inject)
qed

lemma keyed_input_inject:
  assumes eq: "keyed_input d (p # ps) = keyed_input e (q # qs)"
    and "(16 :: u8) \<notin> set (bytes_of d)" and "(16 :: u8) \<notin> set (bytes_of e)"
    and "length p = 16" and "length q = 16"
    and short: "\<And>x. x \<in> set ps \<Longrightarrow> length x < 2 ^ 32" "\<And>x. x \<in> set qs \<Longrightarrow> length x < 2 ^ 32"
  shows "d = e \<and> p # ps = q # qs"
proof -
  let ?rest = "\<lambda>p ps. [0, 0, 0] @ p @ concat (map part_bytes ps)"
  from eq assms(4,5) have "bytes_of d @ (16 :: u8) # ?rest p ps = bytes_of e @ 16 # ?rest q qs"
    by (simp add: keyed_input_def sixteen_bytes)
  with domain_inject [OF this assms(2,3)] assms(4,5) have "d = e" "p = q"
    "concat (map part_bytes ps) = concat (map part_bytes qs)" by (simp_all add: append_eq_append_conv)
  with parts_inject [of ps qs] short show ?thesis by simp
qed

lemma length_id_bytes [simp]:
  "length (tenant_to_bytes t) = 16" "length (artifact_to_bytes a) = 16" "length (invocation_to_bytes i) = 16"
  by (cases t, simp, cases a, simp, cases i, simp)

lemma id_bytes_inject [simp]:
  "tenant_to_bytes t = tenant_to_bytes t' \<longleftrightarrow> t = t'"
  "artifact_to_bytes a = artifact_to_bytes a' \<longleftrightarrow> a = a'"
  "invocation_to_bytes i = invocation_to_bytes i' \<longleftrightarrow> i = i'"
proof -
  show "tenant_to_bytes t = tenant_to_bytes t' \<longleftrightarrow> t = t'"
    by (cases t; cases t') (simp add: id_to_bytes_def to_be_bytes_inject)
  show "artifact_to_bytes a = artifact_to_bytes a' \<longleftrightarrow> a = a'"
    by (cases a; cases a') (simp add: id_to_bytes_def to_be_bytes_inject)
  show "invocation_to_bytes i = invocation_to_bytes i' \<longleftrightarrow> i = i'"
    by (cases i; cases i') (simp add: id_to_bytes_def to_be_bytes_inject)
qed

lemma store_domain_plain: "(16 :: u8) \<notin> set (bytes_of (store_domain k))"
proof -
  have "CHR 0x10 \<notin> set (store_domain k)" by (cases k rule: store_domain.cases) simp_all
  moreover have "(of_char (CHR 0x10) :: u8) = 16" by simp
  ultimately show ?thesis unfolding bytes_of_def by (metis (no_types, lifting) imageE list.set_map of_char_u8_inject)
qed

lemma tenant_domain_plain: "(16 :: u8) \<notin> set (bytes_of (tenant_domain k))"
proof -
  have "CHR 0x10 \<notin> set (tenant_domain k)" by (cases k) simp_all
  moreover have "(of_char (CHR 0x10) :: u8) = 16" by simp
  ultimately show ?thesis unfolding bytes_of_def by (metis (no_types, lifting) imageE list.set_map of_char_u8_inject)
qed

lemma store_parts_shape:
  obtains p ps where "store_parts k = p # ps" "length p = 16" "\<And>x. x \<in> set ps \<Longrightarrow> length x < 2 ^ 32"
  by (cases k rule: store_parts.cases) (auto intro: that)

lemma store_domain_parts_inject:
  "store_domain k = store_domain k' \<Longrightarrow> store_parts k = store_parts k' \<Longrightarrow> k = k'"
  by (cases k rule: store_parts.cases; cases k' rule: store_parts.cases)
    (simp_all add: grant_to_bytes_inject session_to_bytes_inject to_le_bytes_inject)

lemma store_input_inject:
  assumes "keyed_input (store_domain k) (store_parts k) = keyed_input (store_domain k') (store_parts k')"
  shows "k = k'"
proof -
  obtain p ps q qs where p: "store_parts k = p # ps" "length p = 16" "\<And>x. x \<in> set ps \<Longrightarrow> length x < 2 ^ 32"
    and q: "store_parts k' = q # qs" "length q = 16" "\<And>x. x \<in> set qs \<Longrightarrow> length x < 2 ^ 32"
    by (meson store_parts_shape)
  have "store_domain k = store_domain k' \<and> p # ps = q # qs"
    by (rule keyed_input_inject [OF assms [unfolded p(1) q(1)] store_domain_plain store_domain_plain])
      (use p q in auto)
  then show ?thesis using store_domain_parts_inject p(1) q(1) by metis
qed

text \<open>Idempotency keys are at most 64 bytes and blob addresses 32, so every length prefix is exact.\<close>

fun key_bounded :: "TenantRecordKey \<Rightarrow> bool" where
  "key_bounded (IdemKey t c key) \<longleftrightarrow> length (key_bytes key) \<le> KEY_MAX_LEN"
| "key_bounded (BlobKey t address) \<longleftrightarrow> length address = 32"
| "key_bounded _ \<longleftrightarrow> True"

lemma tenant_parts_shape:
  assumes "key_bounded k"
  obtains p ps where "tenant_parts k = p # ps" "length p = 16" "\<And>x. x \<in> set ps \<Longrightarrow> length x < 2 ^ 32"
proof (cases k)
  case (IdemKey t c key)
  with assms show ?thesis
    by (cases c) (auto intro!: that simp: KEY_MAX_LEN_def)
qed (use assms in \<open>auto intro: that\<close>)

lemma tenant_domain_parts_inject:
  "tenant_domain k = tenant_domain k' \<Longrightarrow> tenant_parts k = tenant_parts k' \<Longrightarrow> k = k'"
proof (cases k; cases k')
  fix t c key t' c' key'
  assume "k = IdemKey t c key" "k' = IdemKey t' c' key'" "tenant_parts k = tenant_parts k'"
  then show "k = k'" by (cases key; cases key') (simp add: bytes_of_inject capability_name_inject)
qed (simp_all add: session_to_bytes_inject)

lemma tenant_input_inject:
  assumes "keyed_input (tenant_domain k) (tenant_parts k) = keyed_input (tenant_domain k') (tenant_parts k')"
    and "key_bounded k" and "key_bounded k'"
  shows "k = k'"
proof -
  obtain p ps q qs where p: "tenant_parts k = p # ps" "length p = 16" "\<And>x. x \<in> set ps \<Longrightarrow> length x < 2 ^ 32"
    and q: "tenant_parts k' = q # qs" "length q = 16" "\<And>x. x \<in> set qs \<Longrightarrow> length x < 2 ^ 32"
    using tenant_parts_shape assms(2,3) by metis
  have "tenant_domain k = tenant_domain k' \<and> p # ps = q # qs"
    by (rule keyed_input_inject [OF assms(1) [unfolded p(1) q(1)] tenant_domain_plain tenant_domain_plain])
      (use p q in auto)
  then show ?thesis using tenant_domain_parts_inject p(1) q(1) by metis
qed


section \<open>Property\<close>

text \<open>Two records share a physical key only where HMAC-SHA256 collides: distinct records under one index subkey, the
  store's or a tenant's, with idempotency keys and blob addresses of their bounded lengths, hash distinct
  byte strings.\<close>
theorem record_keys_distinct:
  assumes "a \<noteq> b" and "k \<noteq> k'" and "key_bounded k" and "key_bounded k'"
  shows "(store_key cr index a = store_key cr index b \<longrightarrow>
      (\<exists>x y. x \<noteq> y \<and> cr_hmac cr index x = cr_hmac cr index y)) \<and>
    (tenant_key cr index k = tenant_key cr index k' \<longrightarrow>
      (\<exists>x y. x \<noteq> y \<and> cr_hmac cr index x = cr_hmac cr index y))"
  using assms store_input_inject [of a b] tenant_input_inject [of k k']
  unfolding store_key_def tenant_key_def keyed_def keyed_hash_def by blast

theorem record_keys_distinct_witness:
  "store_key pad_crypto [] (SessionKey (SessionId 1)) \<noteq> store_key pad_crypto [] (InvocationKey (InvocationId 1)) \<and>
   tenant_key pad_crypto [] (ArtifactKey (TenantId 1) (ArtifactRef 2)) \<noteq>
     tenant_key pad_crypto [] (PendingKey (TenantId 1) (InvocationId 2))"
  using record_keys_distinct [of "SessionKey (SessionId 1)" "InvocationKey (InvocationId 1)"
      "ArtifactKey (TenantId 1) (ArtifactRef 2)" "PendingKey (TenantId 1) (InvocationId 2)" pad_crypto "[]"]
  by (auto simp: pad_crypto_def)

end
