(* ===== verification/Rekey.thy ===== *)
theory Rekey
  imports Retrieval Record_Keys "HOL-Library.List_Lexorder"
begin

text \<open>
  Tenant data-key rotation (\<^verbatim>\<open>crates/phylake/src/store/rekey.rs\<close>): the begin, batch and retire
  transactions, the status they report and the loop that runs a rotation to its end.

  The walk visits physical record keys in byte order.  What a keyspace iterates is the argument
  \<open>scan\<close>, the database library's part; \<open>phys\<close> gives the physical key of a record, \<open>record_key\<close> below
  for the store's own.  A record whose header names the retiring key opens on trial exactly when it
  belongs to the tenant, has the tried kind and is sealed with the step's subkey; resealing writes the
  same plaintext, which was within the sealing bound, under the active key.
\<close>

section \<open>Definitions\<close>

subsection \<open>Records of the walked keyspaces\<close>

datatype WalkKey =
    WIdem TenantId Capability IdempotencyKey
  | WArtifact TenantId ArtifactRef
  | WPending TenantId InvocationId
  | WLocator ArtifactRef
  | WBlob TenantId "u8 list"
  | WSessionIndex TenantId SessionId ArtifactRef
  | WAudit TenantId u64

fun walk_keyspace :: "WalkKey \<Rightarrow> Keyspace" where
  "walk_keyspace (WIdem t c key) = KsIdem"
| "walk_keyspace (WArtifact t a) = KsArtifacts"
| "walk_keyspace (WPending t i) = KsArtifacts"
| "walk_keyspace (WLocator a) = KsArtifacts"
| "walk_keyspace (WBlob t address) = KsBlobs"
| "walk_keyspace (WSessionIndex t s a) = KsSessionIndex"
| "walk_keyspace (WAudit t seq) = KsAudit"

fun record_kind :: "WalkKey \<Rightarrow> u8" where
  "record_kind (WIdem t c key) = 7"
| "record_kind (WArtifact t a) = 9"
| "record_kind (WPending t i) = 10"
| "record_kind (WLocator a) = 11"
| "record_kind (WBlob t address) = 12"
| "record_kind (WSessionIndex t s a) = 13"
| "record_kind (WAudit t seq) = 14"

text \<open>The tenant whose keys seal the record; a locator is sealed under the store's.\<close>

fun owner :: "WalkKey \<Rightarrow> TenantId option" where
  "owner (WIdem t c key) = Some t"
| "owner (WArtifact t a) = Some t"
| "owner (WPending t i) = Some t"
| "owner (WLocator a) = None"
| "owner (WBlob t address) = Some t"
| "owner (WSessionIndex t s a) = Some t"
| "owner (WAudit t seq) = Some t"

datatype Sealer = MetaSealer | BlobSealer | AuditSealer

fun record_sealer :: "WalkKey \<Rightarrow> Sealer" where
  "record_sealer (WBlob t address) = BlobSealer"
| "record_sealer (WAudit t seq) = AuditSealer"
| "record_sealer _ = MetaSealer"

fun record_key :: "Crypto \<Rightarrow> u8 list \<Rightarrow> (TenantId \<Rightarrow> u8 list) \<Rightarrow> WalkKey \<Rightarrow> u8 list" where
  "record_key cr store index (WIdem t c key) = tenant_key cr (index t) (IdemKey t c key)"
| "record_key cr store index (WArtifact t a) = tenant_key cr (index t) (ArtifactKey t a)"
| "record_key cr store index (WPending t i) = tenant_key cr (index t) (PendingKey t i)"
| "record_key cr store index (WLocator a) = store_key cr store (LocatorKey a)"
| "record_key cr store index (WBlob t address) = tenant_key cr (index t) (BlobKey t address)"
| "record_key cr store index (WSessionIndex t s a) =
     join_key (tenant_key cr (index t) (SessionIndexPrefix t s)) (artifact_to_bytes a)"
| "record_key cr store index (WAudit t seq) = join_key (tenant_key cr (index t) (AuditPrefix t)) (to_be_bytes 8 seq)"

text \<open>The key id in the header of a tenant-sealed record, and whether a record is there at all.\<close>

fun header :: "Db \<Rightarrow> WalkKey \<Rightarrow> u32 option" where
  "header db (WIdem t c key) = map_option sealed_key (db_idem db (t, c, key))"
| "header db (WArtifact t a) = map_option sealed_key (db_artifacts db (t, a))"
| "header db (WPending t i) = map_option sealed_key (db_pending db (t, i))"
| "header db (WLocator a) = None"
| "header db (WBlob t address) = map_option sealed_key (db_blobs db (t, address))"
| "header db (WSessionIndex t s a) = map_option sealed_key (db_session_index db (t, s, a))"
| "header db (WAudit t seq) = map_option sealed_key (map_of (db_audit db t) seq)"

fun present :: "Db \<Rightarrow> WalkKey \<Rightarrow> bool" where
  "present db (WLocator a) \<longleftrightarrow> db_locators db a \<noteq> None"
| "present db k \<longleftrightarrow> header db k \<noteq> None"

definition seal_under :: "u32 \<Rightarrow> 'a Sealed \<Rightarrow> 'a Sealed" where
  "seal_under key sealed = sealed\<lparr>sealed_key := key\<rparr>"

definition reseal_entry :: "u32 \<Rightarrow> ('k \<Rightarrow> 'a Sealed option) \<Rightarrow> 'k \<Rightarrow> 'k \<Rightarrow> 'a Sealed option" where
  "reseal_entry key m k = m(k := map_option (seal_under key) (m k))"

fun reseal_at :: "u32 \<Rightarrow> WalkKey \<Rightarrow> Db \<Rightarrow> Db" where
  "reseal_at key (WIdem t c ik) db = db\<lparr>db_idem := reseal_entry key (db_idem db) (t, c, ik)\<rparr>"
| "reseal_at key (WArtifact t a) db = db\<lparr>db_artifacts := reseal_entry key (db_artifacts db) (t, a)\<rparr>"
| "reseal_at key (WPending t i) db = db\<lparr>db_pending := reseal_entry key (db_pending db) (t, i)\<rparr>"
| "reseal_at key (WLocator a) db = db"
| "reseal_at key (WBlob t address) db = db\<lparr>db_blobs := reseal_entry key (db_blobs db) (t, address)\<rparr>"
| "reseal_at key (WSessionIndex t s a) db =
     db\<lparr>db_session_index := reseal_entry key (db_session_index db) (t, s, a)\<rparr>"
| "reseal_at key (WAudit t seq) db = db\<lparr>db_audit := (db_audit db)(t :=
     map (\<lambda>(k, e). (k, if k = seq then seal_under key e else e)) (db_audit db t))\<rparr>"

subsection \<open>The walk\<close>

record WalkStep =
  ws_keyspace :: Keyspace
  ws_slots :: "u8 list"
  ws_sealer :: Sealer

definition WALK :: "WalkStep list" where
  "WALK = [
     \<lparr>ws_keyspace = KsIdem, ws_slots = [7], ws_sealer = MetaSealer\<rparr>,
     \<lparr>ws_keyspace = KsArtifacts, ws_slots = [9, 10], ws_sealer = MetaSealer\<rparr>,
     \<lparr>ws_keyspace = KsBlobs, ws_slots = [12], ws_sealer = BlobSealer\<rparr>,
     \<lparr>ws_keyspace = KsSessionIndex, ws_slots = [13], ws_sealer = MetaSealer\<rparr>,
     \<lparr>ws_keyspace = KsAudit, ws_slots = [14], ws_sealer = AuditSealer\<rparr>]"

definition walk_get :: "u8 \<Rightarrow> WalkStep option" where
  "walk_get n = (if unat n < length WALK then Some (WALK ! unat n) else None)"

definition walk_entries :: "(WalkKey \<Rightarrow> u8 list) \<Rightarrow> WalkKey list \<Rightarrow> u8 list option \<Rightarrow> nat \<Rightarrow> WalkKey list" where
  "walk_entries phys keys cursor batch =
     take batch (filter (\<lambda>k. case cursor of None \<Rightarrow> True | Some c \<Rightarrow> c < phys k) keys)"

definition walk_total :: "(Db \<Rightarrow> Keyspace \<Rightarrow> WalkKey list) \<Rightarrow> Db \<Rightarrow> u64" where
  "walk_total scan db =
     fold (\<lambda>step total. saturating_add total (len_u64 (length (scan db (ws_keyspace step))))) WALK 0"

definition opens_as :: "WalkStep \<Rightarrow> TenantId \<Rightarrow> WalkKey \<Rightarrow> u8 \<Rightarrow> bool" where
  "opens_as step tenant k slot \<longleftrightarrow>
     owner k = Some tenant \<and> record_kind k = slot \<and> record_sealer k = ws_sealer step"

definition reseal :: "WalkStep \<Rightarrow> TenantId \<Rightarrow> u32 \<Rightarrow> u32 \<Rightarrow> WalkKey \<Rightarrow> Db \<Rightarrow> Db option" where
  "reseal step tenant retiring active k db =
     (if header db k \<noteq> Some retiring then None
      else if list_ex (opens_as step tenant k) (ws_slots step) then Some (reseal_at active k db)
      else None)"

fun reseal_entries :: "WalkStep \<Rightarrow> TenantId \<Rightarrow> u32 \<Rightarrow> u32 \<Rightarrow> WalkKey list \<Rightarrow> Db \<Rightarrow> u64 \<Rightarrow> Db \<times> u64" where
  "reseal_entries step tenant retiring active [] db resealed = (db, resealed)"
| "reseal_entries step tenant retiring active (k # ks) db resealed =
     (case reseal step tenant retiring active k db of
        Some db' \<Rightarrow> reseal_entries step tenant retiring active ks db' (saturating_add resealed 1)
      | None \<Rightarrow> reseal_entries step tenant retiring active ks db resealed)"

subsection \<open>Status\<close>

record RekeyStatus =
  rs_tenant :: TenantId
  rs_from_key_id :: u32
  rs_to_key_id :: u32
  rs_keyspace :: "Keyspace option"
  rs_visited :: u64
  rs_resealed :: u64
  rs_total :: u64
  rs_done :: bool

definition rekey_status_from :: "RekeyRecord \<Rightarrow> RekeyStatus" where
  "rekey_status_from r =
     \<lparr>rs_tenant = rk_tenant r, rs_from_key_id = rk_from_key_id r, rs_to_key_id = rk_to_key_id r,
      rs_keyspace = map_option ws_keyspace (walk_get (rk_keyspace r)), rs_visited = rk_visited r,
      rs_resealed = rk_resealed r, rs_total = rk_total r, rs_done = rk_done r\<rparr>"

definition rekey_status :: "Db \<Rightarrow> TenantId \<Rightarrow> RekeyStatus option" where
  "rekey_status db tenant = map_option rekey_status_from (db_rekey db tenant)"

text \<open>\<open>tenants\<close> lists the tenants with a rekey record in the order of its record keys.\<close>

definition rekeys_in_progress :: "Db \<Rightarrow> TenantId list \<Rightarrow> RekeyStatus list" where
  "rekeys_in_progress db tenants =
     List.map_filter (\<lambda>t. case db_rekey db t of
         Some r \<Rightarrow> if rk_done r then None else Some (rekey_status_from r)
       | None \<Rightarrow> None) tenants"

subsection \<open>Transactions\<close>

definition put_rekey :: "Db \<Rightarrow> RekeyRecord \<Rightarrow> Db" where
  "put_rekey db r = db\<lparr>db_rekey := (db_rekey db)(rk_tenant r \<mapsto> r)\<rparr>"

definition stage_new_key :: "Db \<Rightarrow> TenantId \<Rightarrow> u32 \<Rightarrow> Db" where
  "stage_new_key db tenant to =
     (let first_rotation = tenant \<notin> db_address_keys db;
          db1 = db\<lparr>db_data_keys := insert (tenant, to) (db_data_keys db)\<rparr> in
      if first_rotation then db1\<lparr>db_address_keys := insert tenant (db_address_keys db1)\<rparr> else db1)"

definition begin_rekey_tx :: "Env \<Rightarrow> (Db \<Rightarrow> Keyspace \<Rightarrow> WalkKey list) \<Rightarrow> TenantId \<Rightarrow> Db \<Rightarrow>
    (RekeyStatus TxEnd, StoreError) result" where
  "begin_rekey_tx env scan tenant db =
     (case db_tenants db tenant of
        None \<Rightarrow> Err (absent_tenant db tenant)
      | Some r \<Rightarrow>
          ensure (case db_rekey db tenant of Some existing \<Rightarrow> rk_done existing | None \<Rightarrow> True)
            (RekeyInProgress tenant)
          (rbind (tenant_keys db tenant) (\<lambda>current.
           let retiring = kr_active current in
           rbind (ok_or (checked_add retiring 1) (Inconsistent ''tenant data key ids are exhausted'')) (\<lambda>to.
           let db1 = stage_new_key db tenant to;
               db2 = db1\<lparr>db_tenants := (db_tenants db1)(tenant \<mapsto> r\<lparr>tr_data_key_id := to\<rparr>)\<rparr>;
               rekey = \<lparr>rk_tenant = tenant, rk_from_key_id = retiring, rk_to_key_id = to, rk_keyspace = 0,
                 rk_cursor = None, rk_visited = 0, rk_resealed = 0, rk_total = walk_total scan db2,
                 rk_done = False, rk_started_at = env_now env, rk_finished_at = None\<rparr> in
           Ok (Commit (Some RekeyBegin) (rekey_status_from rekey) (put_rekey db2 rekey))))))"

definition begin_rekey :: "Env \<Rightarrow> (Db \<Rightarrow> Keyspace \<Rightarrow> WalkKey list) \<Rightarrow> TenantId \<Rightarrow> Db \<Rightarrow>
    Db \<times> (RekeyStatus, StoreError) result" where
  "begin_rekey env scan tenant db = end_tx env db (begin_rekey_tx env scan tenant db)"

definition retire :: "Env \<Rightarrow> Db \<Rightarrow> RekeyRecord \<Rightarrow> (RekeyStatus TxEnd, StoreError) result" where
  "retire env db r =
     (let db1 = db\<lparr>db_data_keys := db_data_keys db - {(rk_tenant r, rk_from_key_id r)}\<rparr>;
          r1 = r\<lparr>rk_done := True, rk_cursor := None, rk_finished_at := Some (env_now env)\<rparr> in
      Ok (Commit (Some RekeyRetire) (rekey_status_from r1) (put_rekey db1 r1)))"

definition rekey_batch_tx :: "Env \<Rightarrow> (WalkKey \<Rightarrow> u8 list) \<Rightarrow> (Db \<Rightarrow> Keyspace \<Rightarrow> WalkKey list) \<Rightarrow> TenantId \<Rightarrow> nat \<Rightarrow>
    Db \<Rightarrow> (RekeyStatus TxEnd, StoreError) result" where
  "rekey_batch_tx env phys scan tenant batch db =
     rbind (ok_or (case db_rekey db tenant of
         Some r \<Rightarrow> if \<not> rk_done r then Some r else None | None \<Rightarrow> None) (RekeyNotInProgress tenant)) (\<lambda>r.
     case walk_get (rk_keyspace r) of
       None \<Rightarrow> retire env db r
     | Some step \<Rightarrow>
         rbind (tenant_keys db tenant) (\<lambda>keys.
         rbind (ok_or (kr_retiring keys) (Inconsistent ''rotation in progress without a retiring key'')) (\<lambda>retiring.
         let entries = walk_entries phys (scan db (ws_keyspace step)) (rk_cursor r) batch;
             (db1, resealed) = reseal_entries step tenant retiring (kr_active keys) entries db (rk_resealed r);
             r1 = r\<lparr>rk_resealed := resealed, rk_visited := saturating_add (rk_visited r) (len_u64 (length entries))\<rparr>;
             r2 = (if length entries < batch
               then r1\<lparr>rk_keyspace := saturating_add (rk_keyspace r1) 1, rk_cursor := None\<rparr>
               else r1\<lparr>rk_cursor := (if entries = [] then None else Some (phys (last entries)))\<rparr>) in
         Ok (Commit (Some RekeyBatch) (rekey_status_from r2) (put_rekey db1 r2)))))"

definition rekey_batch :: "Env \<Rightarrow> (WalkKey \<Rightarrow> u8 list) \<Rightarrow> (Db \<Rightarrow> Keyspace \<Rightarrow> WalkKey list) \<Rightarrow> TenantId \<Rightarrow> nat \<Rightarrow>
    Db \<Rightarrow> Db \<times> (RekeyStatus, StoreError) result" where
  "rekey_batch env phys scan tenant batch db = end_tx env db (rekey_batch_tx env phys scan tenant batch db)"

subsection \<open>Running a rotation\<close>

text \<open>\<open>env n\<close> is the environment of the \<open>n\<close>th transaction.\<close>

partial_function (option) rekey_loop :: "(nat \<Rightarrow> Env) \<Rightarrow> (WalkKey \<Rightarrow> u8 list) \<Rightarrow> (Db \<Rightarrow> Keyspace \<Rightarrow> WalkKey list) \<Rightarrow>
    TenantId \<Rightarrow> nat \<Rightarrow> nat \<Rightarrow> Db \<Rightarrow> RekeyStatus \<Rightarrow> (Db \<times> (RekeyStatus, StoreError) result) option" where
  "rekey_loop env phys scan tenant batch n db status =
     (if rs_done status then Some (db, Ok status)
      else (case rekey_batch (env n) phys scan tenant batch db of
          (db', Ok status') \<Rightarrow> rekey_loop env phys scan tenant batch (Suc n) db' status'
        | (db', Err e) \<Rightarrow> Some (db', Err e)))"

definition rekey_tenant :: "(nat \<Rightarrow> Env) \<Rightarrow> (WalkKey \<Rightarrow> u8 list) \<Rightarrow> (Db \<Rightarrow> Keyspace \<Rightarrow> WalkKey list) \<Rightarrow>
    TenantId \<Rightarrow> nat \<Rightarrow> Db \<Rightarrow> (Db \<times> (RekeyStatus, StoreError) result) option" where
  "rekey_tenant env phys scan tenant batch db =
     (case (case rekey_status db tenant of
          Some status \<Rightarrow> if \<not> rs_done status then (db, Ok status) else begin_rekey (env 0) scan tenant db
        | None \<Rightarrow> begin_rekey (env 0) scan tenant db) of
        (db', Ok status) \<Rightarrow> rekey_loop env phys scan tenant batch 1 db' status
      | (db', Err e) \<Rightarrow> Some (db', Err e))"

section \<open>Crash atomicity\<close>

interpretation begin_rekeying: transactional "\<lambda>env. begin_rekey env scan tenant" "\<lambda>env. begin_rekey_tx env scan tenant"
  for scan tenant
  by unfold_locales (simp_all add: begin_rekey_def begin_rekey_tx_def Let_def split: option.split)

interpretation rekeying: transactional "\<lambda>env. rekey_batch env phys scan tenant batch"
    "\<lambda>env. rekey_batch_tx env phys scan tenant batch"
  for phys scan tenant batch
  by unfold_locales (simp_all add: rekey_batch_def rekey_batch_tx_def retire_def Let_def cong: option.case_cong)

end
