(* ===== verification/Rotation.thy ===== *)
theory Rotation
  imports Rekey
begin

text \<open>
  What a tenant key rotation promises, whatever other operations and crashes come between its
  transactions: every record of a live tenant stays sealed under a key its keyring holds, the walk
  leaves behind only records under the new key, so retiring the old key orphans none, and nothing a
  reader sees changes.
\<close>

section \<open>Every operation seals under the active key\<close>

definition fresh_under :: "Db \<Rightarrow> WalkKey \<Rightarrow> u32 \<Rightarrow> bool" where
  "fresh_under db k key \<longleftrightarrow> (\<exists>t keys. owner k = Some t \<and> tenant_keys db t = Ok keys \<and> key = kr_active keys)"

definition seals :: "Db \<Rightarrow> Db \<Rightarrow> bool" where
  "seals db db' \<longleftrightarrow> (\<forall>k key. header db' k = Some key \<longrightarrow> header db k = Some key \<or> fresh_under db' k key)"

lemma seals_refl: "seals db db"
  by (simp add: seals_def)

lemma map_of_kv_insert: "map_of (kv_insert k v kvs) = (map_of kvs)(k \<mapsto> v)"
  by (induction kvs) (auto simp: fun_eq_iff)

lemma append_audit_header:
  assumes "append_audit env db entry = Ok (seq, tx)" and "header tx (WAudit t k) = Some key"
  shows "header db (WAudit t k) = Some key \<or> fresh_under tx (WAudit t k) key"
proof -
  have keys: "tenant_keys (db\<lparr>db_audit_stub := x\<rparr>) t = tenant_keys db t"
    "tenant_keys (db\<lparr>db_audit_stub := x, db_audit := y\<rparr>) t = tenant_keys db t" for x y t
    by (rule tenant_keys_cong; simp)+
  show ?thesis
    using assms unfolding append_audit_def Let_def rbind_Ok_iff keys
    by (auto simp: keys fresh_under_def map_of_kv_insert split: if_splits)
qed

lemma audit_header:
  assumes "audit_extends db db'" and "header db' (WAudit t k) = Some key"
  shows "header db (WAudit t k) = Some key \<or> fresh_under db' (WAudit t k) key"
  using assms(1) unfolding audit_extends_def
proof (elim disjE exE conjE)
  fix env entry seq db0 tx0
  assume "audit_kept db db0" and app: "append_audit env db0 entry = Ok (seq, tx0)" and "audit_kept tx0 db'"
    and "\<forall>t. tenant_keys db' t = tenant_keys tx0 t"
  with append_audit_header [OF app, of t k key] assms(2) show ?thesis
    by (simp add: audit_kept_def fresh_under_def)
qed (use assms(2) in \<open>simp add: audit_kept_def\<close>)

lemma sealsI:
  assumes "audit_extends db db'"
    and "\<And>k key. (\<And>t s. k \<noteq> WAudit t s) \<Longrightarrow> header db' k = Some key \<Longrightarrow> header db k = Some key \<or> fresh_under db' k key"
  shows "seals db db'"
  unfolding seals_def
proof (intro allI impI)
  fix k key
  assume "header db' k = Some key"
  then show "header db k = Some key \<or> fresh_under db' k key"
    using audit_header [OF assms(1)] assms(2) by (cases k) blast+
qed

lemma same_header:
  assumes "same_shelf db db'" and "db_idem db' = db_idem db" and "\<And>t s. k \<noteq> WAudit t s"
  shows "header db' k = header db k"
  using assms by (cases k) (simp_all add: same_shelf_def, blast)

lemma sealsI_same: "audit_extends db db' \<Longrightarrow> same_shelf db db' \<Longrightarrow> db_idem db' = db_idem db \<Longrightarrow> seals db db'"
  by (rule sealsI) (simp_all add: same_header)

lemma append_audit_idem: "append_audit env db entry = Ok (seq, tx) \<Longrightarrow> db_idem tx = db_idem db"
  by (erule append_audit_frame) simp

lemma directory_idem:
  "register_tenant_tx env reg db = Ok (Commit b u tx) \<Longrightarrow> db_idem tx = db_idem db"
  "install_root_grant_tx root db = Ok (Commit b u tx) \<Longrightarrow> db_idem tx = db_idem db"
  "issue_grant_tx env issue db = Ok (Commit b v tx) \<Longrightarrow> db_idem tx = db_idem db"
  "revoke_grant_tx env revoke db = Ok (Commit b w tx) \<Longrightarrow> db_idem tx = db_idem db"
  "open_session_tx env new parent db = Ok (Commit b y tx) \<Longrightarrow> db_idem tx = db_idem db"
  "shred_tenant_tx env sessions scan tenant db = Ok (Commit b u tx) \<Longrightarrow> db_idem tx = db_idem db"
proof -
  have put: "db_idem tx = db_idem db" if "put_new_grant db r = Ok (staged, tx)" for r staged tx
    using that unfolding put_new_grant_def case_option_eq_iff result_iffs by auto
  have decide: "db_idem tx = db_idem db" if "decide_issue env issue db = Ok (Commit b v tx)"
    using that by (rule decide_issue_Commit) (auto dest!: audit_issue_Commit put append_audit_idem)
  show "register_tenant_tx env reg db = Ok (Commit b u tx) \<Longrightarrow> db_idem tx = db_idem db"
    unfolding register_tenant_tx_def case_option_eq_iff result_iffs by (auto split: if_splits)
  show "install_root_grant_tx root db = Ok (Commit b u tx) \<Longrightarrow> db_idem tx = db_idem db"
    unfolding install_root_grant_tx_def by (auto simp: rbind_Ok_iff split: if_splits dest: put)
  show "issue_grant_tx env issue db = Ok (Commit b v tx) \<Longrightarrow> db_idem tx = db_idem db"
    unfolding issue_grant_tx_def Let_def case_option_eq_iff if_eq_iff ensure_Ok_iff by (auto intro: decide)
  show "revoke_grant_tx env revoke db = Ok (Commit b w tx) \<Longrightarrow> db_idem tx = db_idem db"
    unfolding revoke_grant_tx_def Let_def case_option_eq_iff if_eq_iff
    by (auto simp: rbind_Ok_iff dest: append_audit_idem)
  show "open_session_tx env new parent db = Ok (Commit b y tx) \<Longrightarrow> db_idem tx = db_idem db"
    unfolding open_session_tx_def Let_def rbind_Ok_iff case_option_eq_iff if_eq_iff ensure_Ok_iff
    by (auto dest: append_audit_idem)
  show "shred_tenant_tx env sessions scan tenant db = Ok (Commit b u tx) \<Longrightarrow> db_idem tx = db_idem db"
    unfolding shred_tenant_tx_def Let_def rbind_Ok_iff if_eq_iff ensure_Ok_iff by auto
qed

lemma claim_seals: "claim_tx env claim db = Ok (Commit b x tx) \<Longrightarrow> seals db tx"
proof (rule sealsI)
  assume c: "claim_tx env claim db = Ok (Commit b x tx)"
  then show "audit_extends db tx" by (rule directory_audit(6))
  have keys: "tenant_keys (db\<lparr>db_idem := m\<rparr>) t = tenant_keys db t" for m t
    by (rule tenant_keys_cong) simp_all
  fix k key
  assume k: "\<And>t s. k \<noteq> WAudit t s" and "header tx k = Some key"
  with c show "header db k = Some key \<or> fresh_under tx k key"
    unfolding claim_tx_def Let_def rbind_Ok_iff case_option_eq_iff
    by (cases k) (auto simp: fresh_under_def keys split: if_splits)
qed

lemma begin_seals: "begin_tx env intent db = Ok (Commit b v tx) \<Longrightarrow> seals db tx"
proof (erule begin_Commit)
  fix entry seq failure
  assume "append_audit env db entry = Ok (seq, tx)"
  then show "seals db tx"
    by (intro sealsI_same) (auto intro: audit_keptI(2) append_audit_same_shelf append_audit_idem)
next
  fix keys :: Keyring and chain reservation
  assume tk: "tenant_keys db (az_tenant (int_authz intent)) = Ok keys"
    and "persist env db intent keys chain reservation = Ok (Commit b v tx)"
  from this(2) show "seals db tx"
  proof (rule persist_Commit)
    fix m idem
    assume tx: "tx = (put_invocation (db\<lparr>db_ledgers := m\<rparr>) (intent_record env intent chain reservation))\<lparr>db_idem := idem\<rparr>"
      and idem: "idem = (db_idem db)((az_tenant (int_authz intent), az_capability (int_authz intent),
        int_idempotency_key intent) := Some \<lparr>sealed_key = kr_active keys, sealed_value =
          \<lparr>idem_invocation = int_invocation intent, idem_request_binding = request_binding env intent\<rparr>\<rparr>)"
    have keys: "tenant_keys tx t = tenant_keys db t" for t
      by (rule tenant_keys_cong) (simp_all add: tx put_invocation_def)
    have fresh: "fresh_under tx = fresh_under db" by (simp add: fresh_under_def keys fun_eq_iff)
    show "seals db tx"
    proof (rule sealsI)
      show "audit_extends db tx" by (rule audit_keptI(1)) (simp add: tx put_invocation_def audit_kept_def)
      fix k key
      assume "\<And>t s. k \<noteq> WAudit t s" and "header tx k = Some key"
      then show "header db k = Some key \<or> fresh_under tx k key"
        unfolding fresh using tk
        by (cases k) (auto simp: fresh_under_def tx put_invocation_def idem split: if_splits)
    qed
  qed
qed


text \<open>Transitions: what a stage writes, then the terminal audit entry.\<close>

definition seals_stage :: "(Db \<Rightarrow> InvocationRecord \<Rightarrow> (InvocationRecord \<times> Db, StoreError) result) \<Rightarrow> bool" where
  "seals_stage f \<longleftrightarrow> (\<forall>db r r1 db1 k key. f db r = Ok (r1, db1) \<longrightarrow> header db1 k = Some key \<longrightarrow>
     header db k = Some key \<or> fresh_under db k key)"

lemma quiet_seals_stage:
  "(\<And>db r r1 db1. f db r = Ok (r1, db1) \<Longrightarrow> \<exists>m. db1 = db\<lparr>db_ledgers := m\<rparr>) \<Longrightarrow> seals_stage f"
proof -
  assume quiet: "\<And>db r r1 db1. f db r = Ok (r1, db1) \<Longrightarrow> \<exists>m. db1 = db\<lparr>db_ledgers := m\<rparr>"
  have "header (db\<lparr>db_ledgers := m\<rparr>) k = header db k" for db m k by (cases k) simp_all
  with quiet show ?thesis unfolding seals_stage_def by metis
qed

lemma transfer_seals_stage: "seals_stage (stage_transfer env transfer)"
  unfolding seals_stage_def
proof (intro allI impI)
  fix db r r1 db1 k key
  assume "stage_transfer env transfer db r = Ok (r1, db1)" and h: "header db1 k = Some key"
  from this(1) obtain keys where keys: "tenant_keys db (inv_tenant r) = Ok keys"
    and db1: "db1 = db\<lparr>db_blobs := blobs_after env transfer r keys db,
      db_pending := (db_pending db)((inv_tenant r, inv_id r) :=
        Some \<lparr>sealed_key = kr_active keys, sealed_value = transfer_side env transfer r\<rparr>)\<rparr>"
    by (rule stage_transfer_effect)
  from h keys show "header db k = Some key \<or> fresh_under db k key"
    by (cases k) (auto simp: db1 fresh_under_def split: if_splits dest!: blobs_after_cases)
qed

lemma publish_seals_stage: "seals_stage (stage_publish env)"
  unfolding seals_stage_def
proof (intro allI impI)
  fix db r r1 db1 k key
  assume p: "stage_publish env db r = Ok (r1, db1)" and h: "header db1 k = Some key"
  from p obtain keys sealed where keys: "tenant_keys db (inv_tenant r) = Ok keys"
    and pend: "db_pending db (inv_tenant r, inv_id r) = Some sealed"
    and p1: "db_pending db1 = (db_pending db)((inv_tenant r, inv_id r) := None)"
    and a1: "db_artifacts db1 = (db_artifacts db)((inv_tenant r, art_artifact (sealed_value sealed)) :=
      Some \<lparr>sealed_key = kr_active keys,
        sealed_value = (sealed_value sealed)\<lparr>art_published_at := Some (env_now env)\<rparr>\<rparr>)"
    by (rule stage_publish_effect)
  have rest: "db_idem db1 = db_idem db" "db_blobs db1 = db_blobs db" "db_audit db1 = db_audit db"
    using stage_publish_frame(2) [OF p] by auto
  note idx = stage_publish_index [OF p pend]
  from h show "header db k = Some key \<or> fresh_under db k key"
  proof (cases k)
    case (WSessionIndex t s a)
    with h idx show ?thesis by (auto simp: fresh_under_def split: if_splits)
  qed (use keys in \<open>auto simp: p1 a1 fresh_under_def rest split: if_splits\<close>)
qed

lemma transition_seals:
  assumes "frames_stage f" and "seals_stage f"
    and t: "transition_tx env i step boundary f db = Ok (Commit b v tx)"
  shows "seals db tx"
proof (rule sealsI)
  show "audit_extends db tx" by (rule transition_audit [OF assms(1) t])
  fix k key
  assume k: "\<And>t s. k \<noteq> WAudit t s" and h: "header tx k = Some key"
  from t obtain r nxt r1 db1 stubs parts where f: "f db r = Ok (r1, db1)"
    and tx: "tx = put_invocation (db1\<lparr>db_audit_stub := stubs, db_audit := parts\<rparr>)
        (r1\<lparr>inv_state := nxt, inv_updated_at := env_now env\<rparr>)"
    by (rule transition_Commit)
  have "same_directory db tx" using assms(1) f by (auto simp: frames_stage_def same_directory_def tx put_invocation_def)
  then have keys: "tenant_keys tx t = tenant_keys db t" for t by (rule same_directory_keys)
  have "header db1 k = Some key" using h k by (cases k) (simp_all add: tx put_invocation_def, blast)
  with assms(2) f keys show "header db k = Some key \<or> fresh_under tx k key"
    by (simp add: seals_stage_def fresh_under_def)
qed

lemma store_step_seals:
  assumes "store_step db db'"
  shows "seals db db'"
proof -
  note tx = end_tx_inv [where P = "seals db", OF seals_refl]
  have tr: "seals db (fst (transition env i step boundary f db))" if "frames_stage f" "seals_stage f"
    for env i step boundary f
    unfolding transition_def by (rule tx) (rule transition_seals [OF that])
  have stages: "seals_stage (\<lambda>db r. Ok (r, db))" "seals_stage (stage_settle outcome)"
    "seals_stage (stage_release reason)" "seals_stage stage_unknown" for outcome reason
    by (rule quiet_seals_stage, erule quiet_stages)+
  from assms show ?thesis
  proof cases
    case (audit_step env entry)
    then show ?thesis unfolding record_audit_def Let_def
      by (simp only:) (rule tx, auto simp: rbind_Ok_iff intro!: sealsI_same
          intro: audit_keptI(2) append_audit_same_shelf append_audit_idem)
  next
    case (register_step env reg)
    then show ?thesis unfolding register_tenant_def
      by (simp only:) (rule tx, rule sealsI_same [OF directory_audit(1) directory_same_shelf(1) directory_idem(1)])
  next
    case (root_step env root)
    then show ?thesis unfolding install_root_grant_def
      by (simp only:) (rule tx, rule sealsI_same [OF directory_audit(2) directory_same_shelf(2) directory_idem(2)])
  next
    case (shred_step sessions scan env tenant)
    then show ?thesis unfolding shred_tenant_def
      by (simp only:) (rule tx, rule sealsI_same [OF directory_audit(7) directory_same_shelf(7) directory_idem(6)])
  qed (simp_all add: begin_invocation_def tx [OF begin_seals] claim_key_def tx [OF claim_seals]
      dispatch_def complete_transfer_def publish_def settle_invocation_def release_invocation_def
      mark_unknown_effect_def tr frames_stages stages transfer_seals_stage publish_seals_stage
      issue_grant_def tx [OF sealsI_same [OF directory_audit(3) directory_same_shelf(3) directory_idem(3)]]
      revoke_grant_def tx [OF sealsI_same [OF directory_audit(4) directory_same_shelf(4) directory_idem(4)]]
      open_session_def tx [OF sealsI_same [OF directory_audit(5) directory_same_shelf(5) directory_idem(5)]])
qed


section \<open>What the directory of a tenant does in one step\<close>

definition same_tenant :: "Db \<Rightarrow> Db \<Rightarrow> TenantId \<Rightarrow> bool" where
  "same_tenant db db' t \<longleftrightarrow> db_tenants db' t = db_tenants db t \<and> db_rekey db' t = db_rekey db t \<and>
     db_tombstones db' t = db_tombstones db t \<and> (\<forall>k. (t, k) \<in> db_data_keys db' \<longleftrightarrow> (t, k) \<in> db_data_keys db)"

definition registers :: "Db \<Rightarrow> Db \<Rightarrow> TenantId \<Rightarrow> bool" where
  "registers db db' t \<longleftrightarrow> db_tenants db t = None \<and> db_tombstones db t = None \<and>
     (\<exists>r. db_tenants db' t = Some r \<and> tr_data_key_id r = INITIAL_DATA_KEY_ID) \<and>
     db_rekey db' t = db_rekey db t \<and>
     (\<forall>k. (t, k) \<in> db_data_keys db' \<longleftrightarrow> (t, k) \<in> db_data_keys db \<or> k = INITIAL_DATA_KEY_ID)"

definition shreds :: "Db \<Rightarrow> Db \<Rightarrow> TenantId \<Rightarrow> bool" where
  "shreds db db' t \<longleftrightarrow> db_tenants db' t = None \<and> db_tombstones db' t \<noteq> None \<and> db_rekey db' t = None \<and>
     (\<exists>r. db_tenants db t = Some r \<and>
       (\<forall>k. (t, k) \<in> db_data_keys db' \<longleftrightarrow> (t, k) \<in> db_data_keys db \<and> k \<noteq> tr_data_key_id r \<and>
          (\<forall>rk. db_rekey db t = Some rk \<longrightarrow> \<not> rk_done rk \<longrightarrow> k \<noteq> rk_from_key_id rk)))"

definition tenant_moves :: "Db \<Rightarrow> Db \<Rightarrow> bool" where
  "tenant_moves db db' \<longleftrightarrow> (\<forall>t. same_tenant db db' t \<or> registers db db' t \<or> shreds db db' t)"

lemma keeps_custody_moves: "keeps_custody db db' \<Longrightarrow> tenant_moves db db'"
  by (simp add: keeps_custody_def tenant_moves_def same_tenant_def)

lemma same_directory_moves: "same_directory db db' \<Longrightarrow> tenant_moves db db'"
  by (simp add: same_directory_def tenant_moves_def same_tenant_def)

lemma tenant_moves_refl: "tenant_moves db db"
  by (simp add: tenant_moves_def same_tenant_def)

lemma directory_moves:
  "register_tenant_tx env reg db = Ok (Commit b u tx) \<Longrightarrow> tenant_moves db tx"
  "open_session_tx env new parent db = Ok (Commit b y tx) \<Longrightarrow> tenant_moves db tx"
  "shred_tenant_tx env sessions scan tenant db = Ok (Commit b u tx) \<Longrightarrow> tenant_moves db tx"
proof -
  show "register_tenant_tx env reg db = Ok (Commit b u tx) \<Longrightarrow> tenant_moves db tx"
    unfolding register_tenant_tx_def case_option_eq_iff result_iffs
    by (auto simp: tenant_moves_def same_tenant_def registers_def split: if_splits)
  show "open_session_tx env new parent db = Ok (Commit b y tx) \<Longrightarrow> tenant_moves db tx"
    unfolding open_session_tx_def Let_def rbind_Ok_iff case_option_eq_iff if_eq_iff ensure_Ok_iff
    by (auto simp: tenant_moves_def same_tenant_def elim!: append_audit_frame)
  show "shred_tenant_tx env sessions scan tenant db = Ok (Commit b u tx) \<Longrightarrow> tenant_moves db tx"
    unfolding shred_tenant_tx_def Let_def rbind_Ok_iff if_eq_iff ensure_Ok_iff
    by (auto simp: tenant_moves_def same_tenant_def shreds_def ok_or_Ok_iff split: option.splits if_splits)
qed

lemma begin_moves: "begin_tx env intent db = Ok (Commit b v tx) \<Longrightarrow> tenant_moves db tx"
  by (erule begin_Commit)
    (auto elim!: append_audit_frame persist_Commit simp: put_invocation_def tenant_moves_def same_tenant_def)

lemma transition_moves:
  assumes "frames_stage f" and "transition_tx env i step boundary f db = Ok (Commit b v tx)"
  shows "tenant_moves db tx"
  using assms(2) by (rule transition_Commit, intro same_directory_moves)
    (use assms(1) in \<open>auto simp: frames_stage_def same_directory_def put_invocation_def\<close>)

lemma store_step_moves:
  assumes "store_step db db'"
  shows "tenant_moves db db'"
proof -
  note tx = end_tx_inv [where P = "tenant_moves db", OF tenant_moves_refl]
  have keep: "tenant_moves db x" if "keeps_custody db x" for x using that by (rule keeps_custody_moves)
  have tr: "tenant_moves db (fst (transition env i step boundary f db))" if "frames_stage f" for env i step boundary f
    unfolding transition_def by (rule tx) (rule transition_moves [OF that])
  from assms show ?thesis
  proof cases
    case (audit_step env entry)
    then show ?thesis unfolding record_audit_def Let_def
      by (simp only:) (rule tx, rule keep, auto intro: append_audit_keeps simp: rbind_Ok_iff)
  next
    case (register_step env reg)
    then show ?thesis unfolding register_tenant_def by (simp only:) (rule tx, rule directory_moves(1))
  next
    case (root_step env root)
    then show ?thesis unfolding install_root_grant_def
      by (simp only:) (rule tx, rule keep [OF directory_keeps(1)])
  next
    case (shred_step sessions scan env tenant)
    then show ?thesis unfolding shred_tenant_def by (simp only:) (rule tx, rule directory_moves(3))
  qed (simp_all add: dispatch_def complete_transfer_def publish_def settle_invocation_def
      release_invocation_def mark_unknown_effect_def tr frames_stages begin_invocation_def
      tx [OF begin_moves] open_session_def tx [OF directory_moves(2)]
      issue_grant_def tx [OF keep [OF directory_keeps(2)]] revoke_grant_def tx [OF keep [OF directory_keeps(3)]]
      claim_key_def tx [OF keep [OF directory_keeps(4)]])
qed

section \<open>The rotation invariant\<close>

fun walk_position :: "Keyspace \<Rightarrow> nat" where
  "walk_position KsIdem = 0"
| "walk_position KsArtifacts = 1"
| "walk_position KsBlobs = 2"
| "walk_position KsSessionIndex = 3"
| "walk_position _ = 4"

text \<open>The part of the walk a rekey record has behind it.\<close>

definition passed :: "(WalkKey \<Rightarrow> u8 list) \<Rightarrow> RekeyRecord \<Rightarrow> WalkKey \<Rightarrow> bool" where
  "passed phys rk k \<longleftrightarrow> walk_position (walk_keyspace k) < unat (rk_keyspace rk) \<or>
     (walk_position (walk_keyspace k) = unat (rk_keyspace rk) \<and> (\<exists>c. rk_cursor rk = Some c \<and> phys k \<le> c))"

definition retiring_key :: "Db \<Rightarrow> TenantId \<Rightarrow> u32 \<Rightarrow> bool" where
  "retiring_key db t key \<longleftrightarrow> (\<exists>rk. db_rekey db t = Some rk \<and> \<not> rk_done rk \<and> key = rk_from_key_id rk)"

definition sealed_for :: "(WalkKey \<Rightarrow> u8 list) \<Rightarrow> Db \<Rightarrow> TenantId \<Rightarrow> WalkKey \<Rightarrow> u32 \<Rightarrow> bool" where
  "sealed_for phys db t k key \<longleftrightarrow>
     (case db_tenants db t of
        None \<Rightarrow> db_tombstones db t \<noteq> None
      | Some r \<Rightarrow> key = tr_data_key_id r \<or>
          (\<exists>rk. db_rekey db t = Some rk \<and> \<not> rk_done rk \<and> key = rk_from_key_id rk \<and> \<not> passed phys rk k))"

definition rekey_ok :: "TenantId \<Rightarrow> TenantRecord \<Rightarrow> RekeyRecord \<Rightarrow> bool" where
  "rekey_ok t r rk \<longleftrightarrow> rk_tenant rk = t \<and> rk_to_key_id rk = tr_data_key_id r \<and>
     unat (rk_to_key_id rk) = unat (rk_from_key_id rk) + 1 \<and> unat (rk_keyspace rk) \<le> length WALK"

definition seal_inv :: "(WalkKey \<Rightarrow> u8 list) \<Rightarrow> Db \<Rightarrow> bool" where
  "seal_inv phys db \<longleftrightarrow>
     (\<forall>t r rk. db_tenants db t = Some r \<longrightarrow> db_rekey db t = Some rk \<longrightarrow> rekey_ok t r rk) \<and>
     (\<forall>t. db_tenants db t = None \<longrightarrow> db_rekey db t = None) \<and>
     (\<forall>t k. (t, k) \<in> db_data_keys db \<longleftrightarrow>
        (\<exists>r. db_tenants db t = Some r \<and> (k = tr_data_key_id r \<or> retiring_key db t k))) \<and>
     (\<forall>t k key. owner k = Some t \<longrightarrow> header db k = Some key \<longrightarrow> sealed_for phys db t k key)"

lemma seal_invD:
  assumes "seal_inv phys db"
  shows "db_tenants db t = Some r \<Longrightarrow> db_rekey db t = Some rk \<Longrightarrow> rekey_ok t r rk"
    and "db_tenants db t = None \<Longrightarrow> db_rekey db t = None"
    and "(t, k) \<in> db_data_keys db \<longleftrightarrow> (\<exists>r. db_tenants db t = Some r \<and> (k = tr_data_key_id r \<or> retiring_key db t k))"
    and "owner w = Some t \<Longrightarrow> header db w = Some key \<Longrightarrow> sealed_for phys db t w key"
  using assms unfolding seal_inv_def by blast+

lemma seal_inv_empty: "seal_inv phys empty_db"
proof -
  have "header empty_db k = None" for k by (cases k) (simp_all add: empty_db_def)
  then show ?thesis by (simp add: seal_inv_def) (simp add: empty_db_def)
qed

lemma fresh_sealed_for: "fresh_under db k key \<Longrightarrow> owner k = Some t \<Longrightarrow> sealed_for phys db t k key"
  by (auto simp: fresh_under_def sealed_for_def tenant_keys_def key_ids_def load_keyring_def ensure_Ok_iff
      split: option.splits)

lemma store_step_seal_inv:
  assumes step: "store_step db db'" and inv: "seal_inv phys db"
  shows "seal_inv phys db'"
proof -
  note D = seal_invD [OF inv]
  have move: "same_tenant db db' t \<or> registers db db' t \<or> shreds db db' t" for t
    using store_step_moves [OF step] by (simp add: tenant_moves_def)
  have "rekey_ok t r rk" if "db_tenants db' t = Some r" "db_rekey db' t = Some rk" for t r rk
    using move [of t] that D(1,2) [of t] by (auto simp: same_tenant_def registers_def shreds_def)
  moreover have "db_rekey db' t = None" if "db_tenants db' t = None" for t
    using move [of t] that D(2) [of t] by (auto simp: same_tenant_def registers_def shreds_def)
  moreover have "(t, k) \<in> db_data_keys db' \<longleftrightarrow>
      (\<exists>r. db_tenants db' t = Some r \<and> (k = tr_data_key_id r \<or> retiring_key db' t k))" for t k
    using move [of t]
  proof (elim disjE)
    assume "same_tenant db db' t"
    with D(3) [of t k] show ?thesis by (simp add: same_tenant_def retiring_key_def)
  next
    assume new: "registers db db' t"
    then obtain r where none: "db_tenants db t = None" "db_rekey db' t = db_rekey db t"
      and r: "db_tenants db' t = Some r" "tr_data_key_id r = INITIAL_DATA_KEY_ID"
      and keys: "(t, k) \<in> db_data_keys db' \<longleftrightarrow> (t, k) \<in> db_data_keys db \<or> k = INITIAL_DATA_KEY_ID"
      unfolding registers_def by blast
    have "(t, k) \<notin> db_data_keys db" by (subst D(3)) (simp add: none(1))
    moreover have "\<not> retiring_key db' t k" by (simp add: retiring_key_def none(2) D(2) [OF none(1)])
    ultimately show ?thesis by (simp add: keys r)
  next
    assume gone: "shreds db db' t"
    then obtain r where r: "db_tenants db t = Some r" "db_tenants db' t = None"
      and keys: "(t, k) \<in> db_data_keys db' \<longleftrightarrow> (t, k) \<in> db_data_keys db \<and> k \<noteq> tr_data_key_id r \<and>
          (\<forall>rk. db_rekey db t = Some rk \<longrightarrow> \<not> rk_done rk \<longrightarrow> k \<noteq> rk_from_key_id rk)"
      unfolding shreds_def by blast
    have "(t, k) \<notin> db_data_keys db'" unfolding keys D(3) using r(1) by (auto simp: retiring_key_def)
    with r(2) show ?thesis by simp
  qed
  moreover have "sealed_for phys db' t k key" if k: "owner k = Some t" "header db' k = Some key" for t k key
  proof (cases "fresh_under db' k key")
    case True
    with k(1) show ?thesis by (rule fresh_sealed_for [rotated -1])
  next
    case False
    with store_step_seals [OF step] k have "sealed_for phys db t k key" using D(4) unfolding seals_def by blast
    with move [of t] show ?thesis
      by (auto simp: sealed_for_def same_tenant_def registers_def shreds_def split: option.splits)
  qed
  ultimately show ?thesis unfolding seal_inv_def by blast
qed


section \<open>Resealing changes no content\<close>

definition audit_contents :: "Db \<Rightarrow> TenantId \<Rightarrow> (u64 \<times> AuditEntryRecord) list" where
  "audit_contents db t = map (map_prod id sealed_value) (db_audit db t)"

definition same_contents :: "Db \<Rightarrow> Db \<Rightarrow> bool" where
  "same_contents db db' \<longleftrightarrow>
     contents (db_idem db') = contents (db_idem db) \<and> contents (db_artifacts db') = contents (db_artifacts db) \<and>
     contents (db_pending db') = contents (db_pending db) \<and> contents (db_blobs db') = contents (db_blobs db) \<and>
     contents (db_session_index db') = contents (db_session_index db) \<and>
     audit_contents db' = audit_contents db \<and> db_audit_stub db' = db_audit_stub db \<and>
     db_locators db' = db_locators db \<and> db_invocations db' = db_invocations db \<and>
     db_ledgers db' = db_ledgers db \<and> db_grants db' = db_grants db \<and> db_revocations db' = db_revocations db \<and>
     db_sessions db' = db_sessions db \<and> db_tombstones db' = db_tombstones db"

definition same_keyring :: "Db \<Rightarrow> Db \<Rightarrow> bool" where
  "same_keyring db db' \<longleftrightarrow> db_tenants db' = db_tenants db \<and> db_data_keys db' = db_data_keys db \<and>
     db_address_keys db' = db_address_keys db \<and> db_rekey db' = db_rekey db"

lemma same_contents_refl: "same_contents db db"
  by (simp add: same_contents_def)

lemma same_contents_trans: "same_contents a b \<Longrightarrow> same_contents b c \<Longrightarrow> same_contents a c"
  by (simp add: same_contents_def)

lemma contents_reseal: "contents (reseal_entry key m k) = contents m"
  by (auto simp: contents_def reseal_entry_def seal_under_def fun_eq_iff map_option_case split: option.split)

lemma map_of_reseal:
  "map_of (map (\<lambda>(k, e). (k, if k = s then f e else e)) kvs) x =
     (if x = s then map_option f (map_of kvs x) else map_of kvs x)"
  by (induction kvs) auto

lemma reseal_at_same: "same_contents db (reseal_at key k db)" "same_keyring db (reseal_at key k db)"
proof -
  have "map (map_prod id sealed_value) (map (\<lambda>(k, e). (k, if k = s then seal_under key e else e)) kvs) =
      map (map_prod id sealed_value) kvs" for s and kvs :: "(u64 \<times> AuditEntryRecord Sealed) list"
    by (induction kvs) (auto simp: seal_under_def)
  then show "same_contents db (reseal_at key k db)"
    by (cases k) (simp_all add: same_contents_def contents_reseal audit_contents_def fun_eq_iff)
  show "same_keyring db (reseal_at key k db)" by (cases k) (simp_all add: same_keyring_def)
qed

lemma header_reseal_at:
  "header (reseal_at key k db) k' = (if k' = k then map_option (\<lambda>_. key) (header db k) else header db k')"
  by (cases k; cases k')
    (auto simp: reseal_entry_def seal_under_def map_of_reseal option.map_comp comp_def)

lemma reseal_entries_spec:
  assumes "active \<noteq> retiring"
  shows "same_contents db (fst (reseal_entries step t retiring active ks db n)) \<and>
    same_keyring db (fst (reseal_entries step t retiring active ks db n)) \<and>
    (\<forall>k. header (fst (reseal_entries step t retiring active ks db n)) k =
      (if k \<in> set ks \<and> header db k = Some retiring \<and> list_ex (opens_as step t k) (ws_slots step)
       then Some active else header db k))"
proof (induction ks arbitrary: db n)
  case Nil
  show ?case by (simp add: same_contents_refl same_keyring_def)
next
  case (Cons w ks)
  show ?case
  proof (cases "header db w = Some retiring \<and> list_ex (opens_as step t w) (ws_slots step)")
    case True
    then have r: "reseal step t retiring active w db = Some (reseal_at active w db)" by (simp add: reseal_def)
    from Cons [of "reseal_at active w db" "saturating_add n 1"] reseal_at_same [of db active w] True assms
    show ?thesis
      by (simp add: r header_reseal_at same_keyring_def) (blast intro: same_contents_trans)
  next
    case False
    then have "reseal step t retiring active w db = None" by (auto simp: reseal_def)
    with Cons [of db n] False show ?thesis by auto
  qed
qed

text \<open>Every step of the walk opens all the records its keyspace holds for a tenant.\<close>

lemma length_WALK: "length WALK = 5"
  by (simp add: WALK_def)

lemma walk_get_Some:
  assumes "walk_get n = Some step"
  shows "unat n < 5" and "walk_position (ws_keyspace step) = unat n" and "step \<in> set WALK"
proof -
  from assms have n: "unat n < 5" "step = WALK ! unat n" by (auto simp: walk_get_def length_WALK split: if_splits)
  then show "unat n < 5" "step \<in> set WALK" by (simp_all add: length_WALK)
  from n(1) have "unat n = 0 \<or> unat n = 1 \<or> unat n = 2 \<or> unat n = 3 \<or> unat n = 4" by linarith
  with n(2) show "walk_position (ws_keyspace step) = unat n" by (auto simp: WALK_def)
qed

lemma walk_opens:
  assumes "step \<in> set WALK" and "walk_keyspace k = ws_keyspace step" and "owner k = Some t"
  shows "list_ex (opens_as step t k) (ws_slots step)"
  using assms by (cases k) (auto simp: WALK_def opens_as_def)

lemma opens_owner: "list_ex (opens_as step t k) slots \<Longrightarrow> owner k = Some t"
  by (auto simp: list_ex_iff opens_as_def)

lemma walk_position_inject: "walk_position (walk_keyspace k) = walk_position (walk_keyspace k') \<longleftrightarrow> walk_keyspace k = walk_keyspace k'"
  by (cases k; cases k') simp_all

lemma walk_position_bound: "walk_position (walk_keyspace k) < 5"
  by (cases k) simp_all

lemma walk_step_position:
  "step \<in> set WALK \<Longrightarrow> walk_position (walk_keyspace k) = walk_position (ws_keyspace step) \<longleftrightarrow>
     walk_keyspace k = ws_keyspace step"
  by (cases k) (auto simp: WALK_def)

section \<open>The entries of one batch\<close>

text \<open>What iterating the keyspaces yields: their records, each once, in the order of their physical keys.\<close>

definition scanned :: "(WalkKey \<Rightarrow> u8 list) \<Rightarrow> (Db \<Rightarrow> Keyspace \<Rightarrow> WalkKey list) \<Rightarrow> Db \<Rightarrow> bool" where
  "scanned phys scan db \<longleftrightarrow> (\<forall>step \<in> set WALK.
     sorted_wrt (<) (map phys (scan db (ws_keyspace step))) \<and>
     set (scan db (ws_keyspace step)) = {k. present db k \<and> walk_keyspace k = ws_keyspace step})"

lemma header_present: "header db k \<noteq> None \<Longrightarrow> present db k"
  by (cases k) simp_all

lemma walk_entries_behind:
  assumes sorted: "sorted_wrt (<) (map phys keys)" and k: "k \<in> set keys"
    and ahead: "\<And>c. cursor = Some c \<Longrightarrow> c < phys k"
    and behind: "length (walk_entries phys keys cursor batch) < batch \<or>
      (walk_entries phys keys cursor batch \<noteq> [] \<and> phys k \<le> phys (last (walk_entries phys keys cursor batch)))"
  shows "k \<in> set (walk_entries phys keys cursor batch)"
proof -
  let ?f = "filter (\<lambda>k. case cursor of None \<Rightarrow> True | Some c \<Rightarrow> c < phys k) keys"
  have f: "k \<in> set ?f" using k ahead by (auto split: option.split)
  have e: "walk_entries phys keys cursor batch = take batch ?f" by (simp add: walk_entries_def)
  show ?thesis
  proof (cases "length ?f \<le> batch")
    case True
    with f show ?thesis by (simp add: e)
  next
    case False
    with behind have last: "take batch ?f \<noteq> []" "phys k \<le> phys (last (take batch ?f))" by (auto simp: e)
    have "sorted_wrt (\<lambda>a b. phys a < phys b) ?f" using sorted by (simp add: sorted_wrt_map sorted_wrt_filter)
    then have "sorted_wrt (\<lambda>a b. phys a < phys b) (take batch ?f @ drop batch ?f)" by simp
    then have "phys (last (take batch ?f)) < phys k" if "k \<in> set (drop batch ?f)"
      using that last(1) unfolding sorted_wrt_append by (meson last_in_set)
    with last(2) have "k \<notin> set (drop batch ?f)" by fastforce
    then show ?thesis using f by (metis UnE append_take_drop_id e set_append)
  qed
qed


section \<open>The transactions of a rotation\<close>

lemma tenant_keys_Ok_iff:
  "tenant_keys db t = Ok keys \<longleftrightarrow>
   (\<exists>r. db_tenants db t = Some r \<and> kr_active keys = tr_data_key_id r \<and> (t, tr_data_key_id r) \<in> db_data_keys db \<and>
      (t \<in> db_address_keys db \<or> tr_data_key_id r = INITIAL_DATA_KEY_ID) \<and>
      (\<forall>k. kr_retiring keys = Some k \<longleftrightarrow> retiring_key db t k) \<and>
      (\<forall>k. retiring_key db t k \<longrightarrow> (t, k) \<in> db_data_keys db))"
proof -
  define ret where "ret = (case db_rekey db t of
    Some rekey \<Rightarrow> if rk_done rekey then None else Some (rk_from_key_id rekey) | None \<Rightarrow> None)"
  have ret: "retiring_key db t k \<longleftrightarrow> ret = Some k" for k
    by (auto simp: retiring_key_def ret_def split: option.split)
  have eq: "(\<forall>k. x = Some k \<longleftrightarrow> ret = Some k) \<longleftrightarrow> x = ret" for x by (cases x; cases ret) auto
  have "tenant_keys db t = Ok keys \<longleftrightarrow> (\<exists>r. db_tenants db t = Some r \<and>
      (t, tr_data_key_id r) \<in> db_data_keys db \<and> (t \<in> db_address_keys db \<or> tr_data_key_id r = INITIAL_DATA_KEY_ID) \<and>
      (\<forall>k. ret = Some k \<longrightarrow> (t, k) \<in> db_data_keys db) \<and> keys = \<lparr>kr_active = tr_data_key_id r, kr_retiring = ret\<rparr>)"
    by (cases ret) (auto simp: tenant_keys_def key_ids_def load_keyring_def ensure_Ok_iff ret_def split: option.split)
  then show ?thesis unfolding ret eq by (cases keys) auto
qed

text \<open>A rotation's transaction rewrites seals of one tenant and its key directory.\<close>

definition rotates :: "TenantId \<Rightarrow> Db \<Rightarrow> Db \<Rightarrow> bool" where
  "rotates t db db' \<longleftrightarrow> same_contents db db' \<and>
     (\<forall>t'. t' \<noteq> t \<longrightarrow> db_tenants db' t' = db_tenants db t' \<and> db_rekey db' t' = db_rekey db t' \<and>
        (\<forall>k. (t', k) \<in> db_data_keys db' \<longleftrightarrow> (t', k) \<in> db_data_keys db) \<and>
        (t' \<in> db_address_keys db' \<longleftrightarrow> t' \<in> db_address_keys db)) \<and>
     (\<exists>r key. db_tenants db t = Some r \<and> db_tenants db' t = Some (r\<lparr>tr_data_key_id := key\<rparr>)) \<and>
     (t \<in> db_address_keys db' \<or> (t \<notin> db_address_keys db \<and> db_tenants db' t = db_tenants db t)) \<and>
     (\<forall>k. owner k \<noteq> Some t \<longrightarrow> header db' k = header db k)"

lemma header_cong:
  "db_idem db' = db_idem db \<Longrightarrow> db_artifacts db' = db_artifacts db \<Longrightarrow> db_pending db' = db_pending db \<Longrightarrow>
   db_blobs db' = db_blobs db \<Longrightarrow> db_session_index db' = db_session_index db \<Longrightarrow> db_audit db' = db_audit db \<Longrightarrow>
   header db' k = header db k"
  by (cases k) simp_all

lemma begin_Commit_rekey:
  assumes "begin_rekey_tx env scan t db = Ok (Commit b v tx)"
  obtains r current rk where "db_tenants db t = Some r"
    and "\<And>old. db_rekey db t = Some old \<Longrightarrow> rk_done old" and "tenant_keys db t = Ok current"
    and "unat (rk_to_key_id rk) = unat (rk_from_key_id rk) + 1" and "rk_from_key_id rk = kr_active current"
    and "rk_tenant rk = t" and "rk_keyspace rk = 0" and "rk_cursor rk = None" and "\<not> rk_done rk"
    and "v = rekey_status_from rk"
    and "db_tenants tx = (db_tenants db)(t \<mapsto> r\<lparr>tr_data_key_id := rk_to_key_id rk\<rparr>)"
    and "db_rekey tx = (db_rekey db)(t \<mapsto> rk)" and "db_data_keys tx = insert (t, rk_to_key_id rk) (db_data_keys db)"
    and "db_address_keys tx = insert t (db_address_keys db)"
    and "same_contents db tx" and "\<And>k. header tx k = header db k" and "b = Some RekeyBegin"
proof -
  from assms obtain r current to where r: "db_tenants db t = Some r"
    and ok: "case db_rekey db t of Some existing \<Rightarrow> rk_done existing | None \<Rightarrow> True"
    and cur: "tenant_keys db t = Ok current" and to: "checked_add (kr_active current) 1 = Some to"
    and out: "\<exists>total. Ok (Commit b v tx) = (let db2 = (stage_new_key db t to)\<lparr>db_tenants := (db_tenants (stage_new_key db t to))(t \<mapsto> r\<lparr>tr_data_key_id := to\<rparr>)\<rparr>;
        rk = \<lparr>rk_tenant = t, rk_from_key_id = kr_active current, rk_to_key_id = to, rk_keyspace = 0,
          rk_cursor = None, rk_visited = 0, rk_resealed = 0, rk_total = total,
          rk_done = False, rk_started_at = env_now env, rk_finished_at = None\<rparr> in
        (Ok (Commit (Some RekeyBegin) (rekey_status_from rk) (put_rekey db2 rk)) :: (RekeyStatus TxEnd, StoreError) result))"
    unfolding begin_rekey_tx_def Let_def case_option_eq_iff ensure_Ok_iff rbind_Ok_iff ok_or_Ok_iff by auto
  then obtain total where out: "b = Some RekeyBegin"
    "v = rekey_status_from \<lparr>rk_tenant = t, rk_from_key_id = kr_active current, rk_to_key_id = to, rk_keyspace = 0,
          rk_cursor = None, rk_visited = 0, rk_resealed = 0, rk_total = total,
          rk_done = False, rk_started_at = env_now env, rk_finished_at = None\<rparr>"
    "tx = put_rekey ((stage_new_key db t to)\<lparr>db_tenants := (db_tenants (stage_new_key db t to))(t \<mapsto> r\<lparr>tr_data_key_id := to\<rparr>)\<rparr>)
      \<lparr>rk_tenant = t, rk_from_key_id = kr_active current, rk_to_key_id = to, rk_keyspace = 0,
          rk_cursor = None, rk_visited = 0, rk_resealed = 0, rk_total = total,
          rk_done = False, rk_started_at = env_now env, rk_finished_at = None\<rparr>"
    by (auto simp: Let_def)
  have old: "rk_done old" if "db_rekey db t = Some old" for old using ok that by simp
  have u: "unat to = unat (kr_active current) + 1" using to by (simp add: checked_add_Some_iff)
  show ?thesis
    by (rule that [OF r old cur, of "\<lparr>rk_tenant = t, rk_from_key_id = kr_active current, rk_to_key_id = to, rk_keyspace = 0,
          rk_cursor = None, rk_visited = 0, rk_resealed = 0, rk_total = total,
          rk_done = False, rk_started_at = env_now env, rk_finished_at = None\<rparr>"])
      (auto simp: out u put_rekey_def stage_new_key_def Let_def same_contents_def audit_contents_def
        intro: header_cong)
qed

lemma batch_Commit:
  assumes "rekey_batch_tx env phys scan t batch db = Ok (Commit b v tx)"
  obtains (retired) r where "db_rekey db t = Some r" "\<not> rk_done r" "walk_get (rk_keyspace r) = None"
      "tx = put_rekey (db\<lparr>db_data_keys := db_data_keys db - {(rk_tenant r, rk_from_key_id r)}\<rparr>)
        (r\<lparr>rk_done := True, rk_cursor := None, rk_finished_at := Some (env_now env)\<rparr>)"
      "v = rekey_status_from (r\<lparr>rk_done := True, rk_cursor := None, rk_finished_at := Some (env_now env)\<rparr>)"
    | (walked) r step keys retiring entries r2 where "db_rekey db t = Some r" "\<not> rk_done r"
      "walk_get (rk_keyspace r) = Some step" "tenant_keys db t = Ok keys" "kr_retiring keys = Some retiring"
      "entries = walk_entries phys (scan db (ws_keyspace step)) (rk_cursor r) batch"
      "tx = put_rekey (fst (reseal_entries step t retiring (kr_active keys) entries db (rk_resealed r))) r2"
      "v = rekey_status_from r2" "rk_tenant r2 = rk_tenant r" "rk_from_key_id r2 = rk_from_key_id r"
      "rk_to_key_id r2 = rk_to_key_id r" "\<not> rk_done r2"
      "rk_keyspace r2 = (if length entries < batch then saturating_add (rk_keyspace r) 1 else rk_keyspace r)"
      "rk_cursor r2 = (if length entries < batch \<or> entries = [] then None else Some (phys (last entries)))"
proof -
  from assms obtain r where r: "db_rekey db t = Some r" "\<not> rk_done r"
    and rest: "(case walk_get (rk_keyspace r) of
       None \<Rightarrow> retire env db r
     | Some step \<Rightarrow>
         rbind (tenant_keys db t) (\<lambda>keys.
         rbind (ok_or (kr_retiring keys) (Inconsistent ''rotation in progress without a retiring key'')) (\<lambda>retiring.
         let entries = walk_entries phys (scan db (ws_keyspace step)) (rk_cursor r) batch;
             (db1, resealed) = reseal_entries step t retiring (kr_active keys) entries db (rk_resealed r);
             r1 = r\<lparr>rk_resealed := resealed, rk_visited := saturating_add (rk_visited r) (len_u64 (length entries))\<rparr>;
             r2 = (if length entries < batch
               then r1\<lparr>rk_keyspace := saturating_add (rk_keyspace r1) 1, rk_cursor := None\<rparr>
               else r1\<lparr>rk_cursor := (if entries = [] then None else Some (phys (last entries)))\<rparr>) in
         Ok (Commit (Some RekeyBatch) (rekey_status_from r2) (put_rekey db1 r2))))) = Ok (Commit b v tx)"
    unfolding rekey_batch_tx_def rbind_Ok_iff ok_or_Ok_iff case_option_eq_iff if_eq_iff by auto
  show ?thesis
  proof (cases "walk_get (rk_keyspace r)")
    case None
    with rest r show ?thesis by (intro retired [OF r]) (simp_all add: retire_def Let_def)
  next
    case (Some step)
    with rest obtain keys retiring where keys: "tenant_keys db t = Ok keys" "kr_retiring keys = Some retiring"
      and out: "(let entries = walk_entries phys (scan db (ws_keyspace step)) (rk_cursor r) batch;
             (db1, resealed) = reseal_entries step t retiring (kr_active keys) entries db (rk_resealed r);
             r1 = r\<lparr>rk_resealed := resealed, rk_visited := saturating_add (rk_visited r) (len_u64 (length entries))\<rparr>;
             r2 = (if length entries < batch
               then r1\<lparr>rk_keyspace := saturating_add (rk_keyspace r1) 1, rk_cursor := None\<rparr>
               else r1\<lparr>rk_cursor := (if entries = [] then None else Some (phys (last entries)))\<rparr>) in
         (Ok (Commit (Some RekeyBatch) (rekey_status_from r2) (put_rekey db1 r2)) :: (RekeyStatus TxEnd, StoreError) result))
           = Ok (Commit b v tx)"
      by (auto simp: rbind_Ok_iff ok_or_Ok_iff)
    let ?entries = "walk_entries phys (scan db (ws_keyspace step)) (rk_cursor r) batch"
    obtain db1 resealed where re: "reseal_entries step t retiring (kr_active keys) ?entries db (rk_resealed r) = (db1, resealed)"
      by (cases "reseal_entries step t retiring (kr_active keys) ?entries db (rk_resealed r)")
    let ?r1 = "r\<lparr>rk_resealed := resealed, rk_visited := saturating_add (rk_visited r) (len_u64 (length ?entries))\<rparr>"
    let ?r2 = "if length ?entries < batch
               then ?r1\<lparr>rk_keyspace := saturating_add (rk_keyspace ?r1) 1, rk_cursor := None\<rparr>
               else ?r1\<lparr>rk_cursor := (if ?entries = [] then None else Some (phys (last ?entries)))\<rparr>"
    from out re have "tx = put_rekey db1 ?r2" "v = rekey_status_from ?r2" by (auto simp: Let_def)
    with r(2) re show ?thesis
      by (intro walked [OF r Some keys, of ?entries ?r2]) auto
  qed
qed


subsection \<open>They keep the rotation invariant\<close>

lemma rotates_seal_inv:
  assumes rot: "rotates t db tx" and inv: "seal_inv phys db" and r: "db_tenants tx t = Some r"
    and rk: "\<And>rk. db_rekey tx t = Some rk \<Longrightarrow> rekey_ok t r rk"
    and data: "\<And>k. (t, k) \<in> db_data_keys tx \<longleftrightarrow> k = tr_data_key_id r \<or> retiring_key tx t k"
    and seal: "\<And>k key. owner k = Some t \<Longrightarrow> header tx k = Some key \<Longrightarrow> sealed_for phys tx t k key"
  shows "seal_inv phys tx"
proof -
  note D = seal_invD [OF inv]
  have same: "db_tenants tx t' = db_tenants db t'" "db_rekey tx t' = db_rekey db t'"
      "(t', k) \<in> db_data_keys tx \<longleftrightarrow> (t', k) \<in> db_data_keys db" "db_tombstones tx t' = db_tombstones db t'"
    if "t' \<noteq> t" for t' k using rot that by (simp_all add: rotates_def same_contents_def)
  have "rekey_ok t' r' rk'" if "db_tenants tx t' = Some r'" "db_rekey tx t' = Some rk'" for t' r' rk'
    using that rk r same(1,2) [of t'] D(1) by (cases "t' = t") auto
  moreover have "db_rekey tx t' = None" if "db_tenants tx t' = None" for t'
    using that r same(1,2) [of t'] D(2) by (cases "t' = t") auto
  moreover have "(t', k) \<in> db_data_keys tx \<longleftrightarrow>
      (\<exists>r. db_tenants tx t' = Some r \<and> (k = tr_data_key_id r \<or> retiring_key tx t' k))" for t' k
  proof (cases "t' = t")
    case False
    then show ?thesis unfolding same(3) [OF False] D(3) by (simp add: same retiring_key_def)
  qed (simp add: data r)
  moreover have "sealed_for phys tx t' k key" if k: "owner k = Some t'" "header tx k = Some key" for t' k key
  proof (cases "t' = t")
    case False
    with k rot have "header db k = Some key" by (simp add: rotates_def)
    with D(4) k(1) have "sealed_for phys db t' k key" by blast
    then show ?thesis unfolding sealed_for_def same [OF False] .
  qed (use seal k in blast)
  ultimately show ?thesis unfolding seal_inv_def by blast
qed

lemma begin_rotates: "begin_rekey_tx env scan t db = Ok (Commit b v tx) \<Longrightarrow> rotates t db tx"
  by (erule begin_Commit_rekey) (auto simp: rotates_def)

lemma begin_seal_inv:
  assumes inv: "seal_inv phys db" and c: "begin_rekey_tx env scan t db = Ok (Commit b v tx)"
  shows "seal_inv phys tx"
proof -
  note D = seal_invD [OF inv]
  from c obtain r current rk where r: "db_tenants db t = Some r" and old: "\<And>o'. db_rekey db t = Some o' \<Longrightarrow> rk_done o'"
    and cur: "tenant_keys db t = Ok current" and u: "unat (rk_to_key_id rk) = unat (rk_from_key_id rk) + 1"
    and frm: "rk_from_key_id rk = kr_active current" and rk: "rk_tenant rk = t" "rk_keyspace rk = 0" "rk_cursor rk = None"
    "\<not> rk_done rk" and tx: "db_tenants tx = (db_tenants db)(t \<mapsto> r\<lparr>tr_data_key_id := rk_to_key_id rk\<rparr>)"
    "db_rekey tx = (db_rekey db)(t \<mapsto> rk)" "db_data_keys tx = insert (t, rk_to_key_id rk) (db_data_keys db)"
    and h: "\<And>k. header tx k = header db k"
    by (rule begin_Commit_rekey) blast
  have act: "rk_from_key_id rk = tr_data_key_id r" using cur r frm by (auto simp: tenant_keys_Ok_iff)
  have none: "\<not> retiring_key db t k" for k using old by (auto simp: retiring_key_def)
  show ?thesis
  proof (rule rotates_seal_inv [OF begin_rotates [OF c] inv, of "r\<lparr>tr_data_key_id := rk_to_key_id rk\<rparr>"])
    show "rekey_ok t (r\<lparr>tr_data_key_id := rk_to_key_id rk\<rparr>) rk'" if "db_rekey tx t = Some rk'" for rk'
      using that rk u by (simp add: tx rekey_ok_def)
    show "(t, k) \<in> db_data_keys tx \<longleftrightarrow> k = tr_data_key_id (r\<lparr>tr_data_key_id := rk_to_key_id rk\<rparr>) \<or> retiring_key tx t k" for k
      using none act rk(4) by (auto simp: tx D(3) r retiring_key_def)
    show "sealed_for phys tx t k key" if "owner k = Some t" "header tx k = Some key" for k key
    proof -
      have "sealed_for phys db t k key" using D(4) that h by simp
      then have "key = tr_data_key_id r" using old r by (auto simp: sealed_for_def)
      then show ?thesis using act rk by (simp add: sealed_for_def tx passed_def)
    qed
  qed (simp add: tx)
qed

lemma retired_seal_inv:
  assumes inv: "seal_inv phys db" and r: "db_rekey db t = Some rk" "\<not> rk_done rk" "walk_get (rk_keyspace rk) = None"
    and tx: "tx = put_rekey (db\<lparr>db_data_keys := db_data_keys db - {(rk_tenant rk, rk_from_key_id rk)}\<rparr>)
        (rk\<lparr>rk_done := True, rk_cursor := None, rk_finished_at := Some at\<rparr>)"
  shows "rotates t db tx" and "seal_inv phys tx"
proof -
  note D = seal_invD [OF inv]
  obtain q where q: "db_tenants db t = Some q" using D(2) [of t] r(1) by (cases "db_tenants db t") auto
  with D(1) r have ok: "rekey_ok t q rk" by blast
  then have ids: "rk_tenant rk = t" "tr_data_key_id q \<noteq> rk_from_key_id rk" by (auto simp: rekey_ok_def)
  have five: "5 \<le> unat (rk_keyspace rk)" using r(3) by (simp add: walk_get_def length_WALK split: if_splits)
  have h: "header tx k = header db k" for k by (rule header_cong) (simp_all add: tx put_rekey_def)
  have "\<exists>key. q = q\<lparr>tr_data_key_id := key\<rparr>" by (rule exI [of _ "tr_data_key_id q"]) simp
  then show rot: "rotates t db tx"
    using ids q h by (auto simp: rotates_def tx put_rekey_def same_contents_def audit_contents_def)
  show "seal_inv phys tx"
  proof (rule rotates_seal_inv [OF rot inv, of q])
    show "rekey_ok t q rk'" if "db_rekey tx t = Some rk'" for rk'
      using that ok ids by (auto simp: tx put_rekey_def rekey_ok_def)
    show "(t, k) \<in> db_data_keys tx \<longleftrightarrow> k = tr_data_key_id q \<or> retiring_key tx t k" for k
      using ids r q by (auto simp: tx put_rekey_def D(3) retiring_key_def)
    show "sealed_for phys tx t k key" if "owner k = Some t" "header tx k = Some key" for k key
    proof -
      have "sealed_for phys db t k key" using D(4) that h by simp
      moreover have "passed phys rk k" using five walk_position_bound [of k] by (simp add: passed_def)
      ultimately have "key = tr_data_key_id q" using r q by (auto simp: sealed_for_def)
      then show ?thesis using q by (simp add: sealed_for_def tx put_rekey_def)
    qed
  qed (use q in \<open>simp add: tx put_rekey_def\<close>)
qed

text \<open>Behind the new cursor the walk has left only records under the active key.\<close>

lemma walked_behind:
  assumes scan: "scanned phys scan db" and step: "walk_get (rk_keyspace rk) = Some step" and batch: "0 < batch"
    and entries: "entries = walk_entries phys (scan db (ws_keyspace step)) (rk_cursor rk) batch"
    and r2: "rk_keyspace r2 = (if length entries < batch then saturating_add (rk_keyspace rk) 1 else rk_keyspace rk)"
      "rk_cursor r2 = (if length entries < batch \<or> entries = [] then None else Some (phys (last entries)))"
    and k: "header db k \<noteq> None" "\<not> passed phys rk k" "passed phys r2 k"
  shows "k \<in> set entries \<and> walk_keyspace k = ws_keyspace step"
proof -
  let ?pos = "walk_position (walk_keyspace k)"
  note w = walk_get_Some [OF step]
  have u: "unat (saturating_add (rk_keyspace rk) 1) = unat (rk_keyspace rk) + 1"
    using w(1) by (simp add: saturating_add_def unat_word_ariths)
  have pos: "?pos = unat (rk_keyspace rk)"
  proof (cases "length entries < batch")
    case True
    then have "?pos < unat (rk_keyspace rk) + 1" using k(3) by (auto simp: passed_def r2 u)
    with k(2) show ?thesis by (auto simp: passed_def)
  qed (use k(2,3) in \<open>auto simp: passed_def r2\<close>)
  then have ks: "walk_keyspace k = ws_keyspace step" using walk_step_position [OF w(3)] w(2) by simp
  have sc: "sorted_wrt (<) (map phys (scan db (ws_keyspace step)))" "k \<in> set (scan db (ws_keyspace step))"
    using scan w(3) ks header_present [OF k(1)] by (auto simp: scanned_def)
  have ahead: "c < phys k" if "rk_cursor rk = Some c" for c using k(2) pos that by (auto simp: passed_def)
  have "length entries < batch \<or> (entries \<noteq> [] \<and> phys k \<le> phys (last entries))"
    using k(3) pos batch by (auto simp: passed_def r2 split: if_splits)
  then have "k \<in> set entries" unfolding entries by (intro walk_entries_behind [OF sc]) (auto intro: ahead)
  with ks show ?thesis by blast
qed


lemma walked_seal_inv:
  assumes inv: "seal_inv phys db" and scan: "scanned phys scan db" and batch: "0 < batch"
    and rk: "db_rekey db t = Some rk" "\<not> rk_done rk" and step: "walk_get (rk_keyspace rk) = Some step"
    and keys: "tenant_keys db t = Ok keys" "kr_retiring keys = Some retiring"
    and entries: "entries = walk_entries phys (scan db (ws_keyspace step)) (rk_cursor rk) batch"
    and tx: "tx = put_rekey (fst (reseal_entries step t retiring (kr_active keys) entries db n)) r2"
    and r2: "rk_tenant r2 = rk_tenant rk" "rk_from_key_id r2 = rk_from_key_id rk" "rk_to_key_id r2 = rk_to_key_id rk" "\<not> rk_done r2"
      "rk_keyspace r2 = (if length entries < batch then saturating_add (rk_keyspace rk) 1 else rk_keyspace rk)"
      "rk_cursor r2 = (if length entries < batch \<or> entries = [] then None else Some (phys (last entries)))"
  shows "rotates t db tx" and "seal_inv phys tx"
proof -
  note D = seal_invD [OF inv]
  from keys obtain q where q: "db_tenants db t = Some q" "kr_active keys = tr_data_key_id q" "retiring_key db t retiring"
    by (auto simp: tenant_keys_Ok_iff)
  have ret: "retiring = rk_from_key_id rk" using q(3) rk by (auto simp: retiring_key_def)
  have ok: "rekey_ok t q rk" using D(1) q(1) rk(1) by blast
  then have ids: "rk_tenant rk = t" "tr_data_key_id q \<noteq> retiring" by (auto simp: rekey_ok_def ret)
  let ?db1 = "fst (reseal_entries step t retiring (kr_active keys) entries db n)"
  note spec = reseal_entries_spec [of "kr_active keys" retiring db step t entries n]
  have sc: "same_contents db ?db1" "same_keyring db ?db1" using spec ids q(2) by auto
  have h1: "header ?db1 k = (if k \<in> set entries \<and> header db k = Some retiring \<and>
      list_ex (opens_as step t k) (ws_slots step) then Some (tr_data_key_id q) else header db k)" for k
    using spec ids q(2) by simp
  have h: "header tx k = header ?db1 k" for k by (rule header_cong) (simp_all add: tx put_rekey_def)
  have id: "\<exists>key. q = q\<lparr>tr_data_key_id := key\<rparr>" by (rule exI [of _ "tr_data_key_id q"]) simp
  have dir: "db_tenants tx = db_tenants db" "db_data_keys tx = db_data_keys db" "db_address_keys tx = db_address_keys db"
      "db_rekey tx = (db_rekey db)(t \<mapsto> r2)" "db_tombstones tx = db_tombstones db"
    using sc by (auto simp: tx put_rekey_def same_keyring_def same_contents_def r2(1) ids(1))
  have "same_contents ?db1 tx" by (simp add: tx put_rekey_def same_contents_def audit_contents_def fun_eq_iff)
  with sc(1) have "same_contents db tx" by (rule same_contents_trans)
  then show rot: "rotates t db tx"
    using q(1) id opens_owner by (fastforce simp: rotates_def dir h h1)
  have u: "unat (saturating_add (rk_keyspace rk) 1) = unat (rk_keyspace rk) + 1"
    using walk_get_Some(1) [OF step] by (simp add: saturating_add_def unat_word_ariths)
  show "seal_inv phys tx"
  proof (rule rotates_seal_inv [OF rot inv, of q])
    have "rekey_ok t q r2" using ok walk_get_Some(1) [OF step] by (auto simp: rekey_ok_def r2 u length_WALK)
    then show "rekey_ok t q rk'" if "db_rekey tx t = Some rk'" for rk' using that by (simp add: dir)
    show "(t, k) \<in> db_data_keys tx \<longleftrightarrow> k = tr_data_key_id q \<or> retiring_key tx t k" for k
      using q(1) rk r2(2,4) by (simp add: dir D(3) retiring_key_def)
    show "sealed_for phys tx t k key" if k: "owner k = Some t" "header tx k = Some key" for k key
    proof (cases "key = tr_data_key_id q")
      case False
      with k(2) h h1 have old: "header db k = Some key"
        and out: "\<not> (k \<in> set entries \<and> header db k = Some retiring \<and> list_ex (opens_as step t k) (ws_slots step))"
        by (auto split: if_splits)
      with D(4) k(1) False q(1) rk have key: "key = rk_from_key_id rk" "\<not> passed phys rk k"
        by (fastforce simp: sealed_for_def)+
      have "\<not> passed phys r2 k"
      proof
        assume "passed phys r2 k"
        with walked_behind [OF scan step batch entries r2(5,6) _ key(2)] old
        have "k \<in> set entries" "walk_keyspace k = ws_keyspace step" by simp_all
        with walk_opens [OF walk_get_Some(3) [OF step] this(2) k(1)] out old key(1) ret show False by simp
      qed
      with key(1) q(1) r2(2,4) show ?thesis by (simp add: sealed_for_def dir)
    qed (simp add: sealed_for_def dir q(1))
  qed (simp add: dir q(1))
qed

section \<open>Rotations among the other operations\<close>

text \<open>
  One step of a store whose tenants may be rotating: any operation of the store, or any transaction of
  any tenant's rotation, under any environment.
\<close>

inductive custody_step :: "(WalkKey \<Rightarrow> u8 list) \<Rightarrow> Db \<Rightarrow> Db \<Rightarrow> bool" for phys where
  operation: "store_step db db' \<Longrightarrow> custody_step phys db db'"
| begin_rotation: "custody_step phys db (fst (begin_rekey env scan t db))"
| rotation_batch: "scanned phys scan db \<Longrightarrow> 0 < batch \<Longrightarrow>
    custody_step phys db (fst (rekey_batch env phys scan t batch db))"

definition custody_reachable :: "(WalkKey \<Rightarrow> u8 list) \<Rightarrow> Db \<Rightarrow> bool" where
  "custody_reachable phys db \<longleftrightarrow> (custody_step phys)\<^sup>*\<^sup>* empty_db db"

lemma rotation_steps:
  assumes "seal_inv phys db"
  shows "begin_rekey_tx env scan t db = Ok (Commit b v tx) \<Longrightarrow> rotates t db tx \<and> seal_inv phys tx"
    and "scanned phys scan db \<Longrightarrow> 0 < batch \<Longrightarrow>
      rekey_batch_tx env phys scan t batch db = Ok (Commit b v tx) \<Longrightarrow> rotates t db tx \<and> seal_inv phys tx"
proof -
  show "begin_rekey_tx env scan t db = Ok (Commit b v tx) \<Longrightarrow> rotates t db tx \<and> seal_inv phys tx"
    using begin_rotates begin_seal_inv assms by blast
  assume scan: "scanned phys scan db" "0 < batch"
  assume "rekey_batch_tx env phys scan t batch db = Ok (Commit b v tx)"
  then show "rotates t db tx \<and> seal_inv phys tx"
  proof (cases rule: batch_Commit)
    case (retired r)
    then show ?thesis using retired_seal_inv [OF assms retired(1-4)] by blast
  next
    case (walked r step keys retiring entries r2)
    then show ?thesis
      using walked_seal_inv [OF assms scan walked(1-7) walked(9-14)] by blast
  qed
qed

lemma rotation_outcomes:
  assumes "seal_inv phys db"
  shows "fst (begin_rekey env scan t db) = db \<or>
      (rotates t db (fst (begin_rekey env scan t db)) \<and> seal_inv phys (fst (begin_rekey env scan t db)))"
    and "scanned phys scan db \<Longrightarrow> 0 < batch \<Longrightarrow> fst (rekey_batch env phys scan t batch db) = db \<or>
      (rotates t db (fst (rekey_batch env phys scan t batch db)) \<and> seal_inv phys (fst (rekey_batch env phys scan t batch db)))"
proof -
  let ?P = "\<lambda>x. x = db \<or> (rotates t db x \<and> seal_inv phys x)"
  show "?P (fst (begin_rekey env scan t db))" unfolding begin_rekey_def
  proof (rule end_tx_inv [where P = ?P])
    fix b v tx
    assume "begin_rekey_tx env scan t db = Ok (Commit b v tx)"
    then show "?P tx" using rotation_steps(1) [OF assms] by blast
  qed simp
  assume scan: "scanned phys scan db" "0 < batch"
  show "?P (fst (rekey_batch env phys scan t batch db))" unfolding rekey_batch_def
  proof (rule end_tx_inv [where P = ?P])
    fix b v tx
    assume "rekey_batch_tx env phys scan t batch db = Ok (Commit b v tx)"
    then show "?P tx" using rotation_steps(2) [OF assms scan] by blast
  qed simp
qed

lemma custody_step_cases:
  assumes "custody_step phys db db'" and "seal_inv phys db"
  obtains (operation) "store_step db db'" | (idle) "db' = db"
    | (rotation) t where "rotates t db db'" "seal_inv phys db'"
  using assms(1)
proof cases
  case (begin_rotation env scan t)
  with rotation_outcomes(1) [OF assms(2), of env scan t] that show ?thesis by blast
next
  case (rotation_batch scan batch env t)
  with rotation_outcomes(2) [OF assms(2) rotation_batch(2,3), of env t] that show ?thesis by blast
qed (rule that(1))

section \<open>Rotations keep every invariant of the store\<close>

lemma sealed_opens:
  assumes inv: "seal_inv phys db" and keys: "tenant_keys db t = Ok keys"
    and k: "owner k = Some t" "header db k = Some key"
  shows "key \<in> set (meta_openers keys)"
proof -
  from keys obtain r where r: "db_tenants db t = Some r" "kr_active keys = tr_data_key_id r"
    "\<forall>k. kr_retiring keys = Some k \<longleftrightarrow> retiring_key db t k" by (auto simp: tenant_keys_Ok_iff)
  from seal_invD(4) [OF inv k] r have "key = kr_active keys \<or> kr_retiring keys = Some key"
    by (auto simp: sealed_for_def retiring_key_def)
  then show ?thesis by (auto simp: meta_openers_def)
qed

lemma sealed_kept:
  assumes inv: "seal_inv phys db" and live: "custody_inv db" and k: "owner k = Some t" "header db k = Some key"
  shows "kept db t key"
proof (cases "db_tenants db t")
  case None
  with seal_invD(4) [OF inv k] show ?thesis by (simp add: sealed_for_def kept_def)
next
  case (Some r)
  with live obtain keys where "tenant_keys db t = Ok keys" by (auto simp: custody_inv_def keys_live_def)
  with sealed_opens [OF inv this k] show ?thesis by (auto simp: kept_def)
qed

lemma rotates_live:
  assumes rot: "rotates t db db'" and inv: "seal_inv phys db'" and live: "keys_live db t'"
  shows "keys_live db' t'"
proof (cases "t' = t")
  case False
  have "tenant_keys db' t' = tenant_keys db t'"
    by (rule tenant_keys_cong) (use rot False in \<open>simp_all add: rotates_def same_contents_def\<close>)
  with live show ?thesis by (simp add: keys_live_def)
next
  case True
  from rot obtain r where r: "db_tenants db' t = Some r" by (auto simp: rotates_def)
  let ?ret = "case db_rekey db' t of Some rk \<Rightarrow> if rk_done rk then None else Some (rk_from_key_id rk) | None \<Rightarrow> None"
  have ret: "?ret = Some k \<longleftrightarrow> retiring_key db' t k" for k by (auto simp: retiring_key_def split: option.split)
  have "t \<in> db_address_keys db' \<or> (t \<notin> db_address_keys db \<and> db_tenants db' t = db_tenants db t)"
    using rot unfolding rotates_def by blast
  then have "t \<in> db_address_keys db' \<or> tr_data_key_id r = INITIAL_DATA_KEY_ID"
    using live r True by (auto simp: keys_live_def tenant_keys_Ok_iff)
  then have "tenant_keys db' t = Ok \<lparr>kr_active = tr_data_key_id r, kr_retiring = ?ret\<rparr>"
    using r ret seal_invD(3) [OF inv] by (simp add: tenant_keys_Ok_iff)
  then show ?thesis by (auto simp: True keys_live_def)
qed

lemma rotates_tenants:
  assumes "rotates t db db'"
  shows "db_tenants db' t' = None \<longleftrightarrow> db_tenants db t' = None"
  using assms by (cases "t' = t") (auto simp: rotates_def)

lemma contents_Some_iff: "contents m k = Some v \<longleftrightarrow> (\<exists>s. m k = Some s \<and> sealed_value s = v)"
  by (auto simp: contents_def)

lemma same_contentsD:
  assumes "contents m' = contents m" and "m' k = Some s'"
  obtains s where "m k = Some s" and "sealed_value s = sealed_value s'"
proof -
  from assms have "contents m k = Some (sealed_value s')" by (metis contents_Some_iff)
  then show ?thesis using that by (auto simp: contents_Some_iff)
qed

lemma same_contents_None: "contents m' = contents m \<Longrightarrow> m' k = None \<longleftrightarrow> m k = None"
  by (metis contents_def map_option_is_None)

lemma rotates_custody:
  assumes rot: "rotates t db db'" and inv: "seal_inv phys db'" and cust: "custody_inv db"
  shows "custody_inv db'"
proof -
  have c: "same_contents db db'" using rot by (simp add: rotates_def)
  note live = rotates_live [OF rot inv] and dom = rotates_tenants [OF rot]
  have "resumable db' i r" if "resumable db i r" for i r
  proof -
    have "\<exists>sealed. db_pending db' (inv_tenant r, i) = Some sealed \<and> opens_for db' (inv_tenant r) sealed \<and>
        art_artifact (sealed_value sealed) = artifact_ref i" if "inv_state r = TransferComplete"
    proof -
      from \<open>resumable db i r\<close> that obtain s where s: "db_pending db (inv_tenant r, i) = Some s"
        "art_artifact (sealed_value s) = artifact_ref i" "keys_live db (inv_tenant r)" by (auto simp: resumable_def)
      from c have "contents (db_pending db) = contents (db_pending db')" by (simp add: same_contents_def)
      then obtain s' where s': "db_pending db' (inv_tenant r, i) = Some s'" "sealed_value s' = sealed_value s"
        using s(1) by (rule same_contentsD)
      from live [OF s(3)] obtain keys where keys: "tenant_keys db' (inv_tenant r) = Ok keys" by (auto simp: keys_live_def)
      with sealed_opens [OF inv keys, of "WPending (inv_tenant r) i"] s s' show ?thesis by (simp add: opens_for_def)
    qed
    with that live c show ?thesis by (auto simp: resumable_def same_contents_def)
  qed
  then show ?thesis
    using cust c live seal_invD(2) [OF inv] dom unfolding custody_inv_def same_contents_def by auto
qed

lemma rotates_ceiling:
  assumes rot: "rotates t db db'" and inv: "ceiling_inv db"
  shows "ceiling_inv db'"
proof -
  have c: "same_contents db db'" using rot by (simp add: rotates_def)
  have "db_tenants db' t' = None \<longleftrightarrow> db_tenants db t' = None" for t' by (rule rotates_tenants [OF rot])
  then have "ledger_known db' = ledger_known db"
    using c by (simp add: ledger_known_def same_contents_def fun_eq_iff split: LedgerId.split)
  moreover have "(case db_tenants db' t' of Some r \<Rightarrow> tr_ceilings r | None \<Rightarrow> ceilings_default) =
      (case db_tenants db t' of Some r \<Rightarrow> tr_ceilings r | None \<Rightarrow> ceilings_default)" for t'
    using rot by (cases "t' = t") (auto simp: rotates_def)
  then have "ledger_limits db' = ledger_limits db"
    using c by (simp add: ledger_limits_def same_contents_def fun_eq_iff split: LedgerId.split)
  moreover have "ledger_used db' = ledger_used db" using c by (simp add: ledger_used_def same_contents_def fun_eq_iff)
  moreover have "ledger_inv db'" using ledger_inv_cong [of db' db] inv c by (simp add: ceiling_inv_def same_contents_def)
  ultimately show ?thesis using inv c by (simp add: ceiling_inv_def same_contents_def)
qed

lemma audit_contents_mem:
  assumes "audit_contents db' = audit_contents db" and "(k, e) \<in> set (db_audit db' t)"
  obtains e' where "(k, e') \<in> set (db_audit db t)" and "sealed_value e' = sealed_value e"
proof -
  have "(k, sealed_value e) \<in> set (audit_contents db' t)"
    using assms(2) unfolding audit_contents_def by (force simp: map_prod_def)
  then have "(k, sealed_value e) \<in> set (audit_contents db t)" by (simp add: assms(1))
  then show ?thesis using that unfolding audit_contents_def by auto
qed

lemma audit_contents_keys:
  assumes "audit_contents db' = audit_contents db"
  shows "map fst (db_audit db' t) = map fst (db_audit db t)"
proof -
  have "map fst (audit_contents x t) = map fst (db_audit x t)" for x by (simp add: audit_contents_def comp_def)
  then show ?thesis using assms by metis
qed

lemma same_contents_audit: "same_contents db db' \<Longrightarrow> audit_inv db \<Longrightarrow> audit_inv db'"
proof -
  assume "same_contents db db'" and inv: "audit_inv db"
  then have c: "audit_contents db' = audit_contents db" and stub: "db_audit_stub db' = db_audit_stub db"
    by (simp_all add: same_contents_def)
  note keys = audit_contents_keys [OF c]
  have "fst ` set (db_audit db' t) = fst ` set (db_audit db t)" for t using keys [of t] by (metis list.set_map)
  moreover have "\<exists>stub. (k, stub) \<in> set (db_audit_stub db) \<and> mirrors t k stub (sealed_value e)"
    if "(k, e) \<in> set (db_audit db' t)" for t k e
    using audit_contents_mem [OF c that] inv unfolding audit_inv_def by metis
  ultimately show ?thesis using inv unfolding audit_inv_def stub keys by simp
qed


lemma rotates_shelf:
  assumes rot: "rotates t db db'" and seal: "seal_inv phys db'" and cust: "custody_inv db'" and inv: "shelf_inv db"
  shows "shelf_inv db'"
proof -
  have c: "same_contents db db'" using rot by (simp add: rotates_def)
  then have cs: "contents (db_blobs db') = contents (db_blobs db)" "contents (db_artifacts db') = contents (db_artifacts db)"
      "contents (db_pending db') = contents (db_pending db)" "contents (db_session_index db') = contents (db_session_index db)"
    and rest: "db_locators db' = db_locators db" "db_invocations db' = db_invocations db" "db_sessions db' = db_sessions db"
    by (simp_all add: same_contents_def)
  note kept = sealed_kept [OF seal cust]
  have shelved: "shelved db' t side = shelved db t side" for t side
    by (simp add: shelved_def same_contents_None [OF cs(1)])
  have staged: "staged db' t i side = staged db t i side" for t i side by (simp add: staged_def shelved rest)
  have "kept db' t (sealed_key blob)" if "db_blobs db' (t, address) = Some blob" for t address blob
    using kept [of "WBlob t address"] that by simp
  moreover have "staged db' t i (sealed_value s)" if s: "db_pending db' (t, i) = Some s" for t i s
    using same_contentsD [OF cs(3) s] inv by (metis shelf_inv_def staged)
  moreover have "filed db' a loc" if a: "db_locators db' a = Some loc" for a loc
  proof -
    have "filed db a loc" using inv a by (simp add: shelf_inv_def rest)
    then obtain s where s: "db_artifacts db (loc_owner loc, a) = Some s" "art_artifact (sealed_value s) = a"
      "shelved db (loc_owner loc) (sealed_value s)" "art_session (sealed_value s) = loc_session loc"
      "art_published_at (sealed_value s) \<noteq> None"
      and idx: "\<And>x. loc_session loc = Some x \<Longrightarrow> \<exists>r. db_sessions db x = Some r \<and> db_session_index db (sr_owner r, x, a) \<noteq> None"
      by (auto simp: filed_def)
    from same_contentsD [OF cs(2) [symmetric] s(1)] obtain s' where s': "db_artifacts db' (loc_owner loc, a) = Some s'"
      "sealed_value s' = sealed_value s" by metis
    with kept [of "WArtifact (loc_owner loc) a"] s idx show ?thesis
      by (auto simp: filed_def shelved rest same_contents_None [OF cs(4)])
  qed
  moreover have "indexed db' t x a s" if s: "db_session_index db' (t, x, a) = Some s" for t x a s
  proof -
    from same_contentsD [OF cs(4) s] obtain o' where "db_session_index db (t, x, a) = Some o'"
      "sealed_value o' = sealed_value s" by metis
    with inv have "indexed db t x a o'" "sealed_value o' = sealed_value s" by (simp_all add: shelf_inv_def)
    with kept [of "WSessionIndex t x a"] s show ?thesis by (simp add: indexed_def rest)
  qed
  ultimately show ?thesis unfolding shelf_inv_def by blast
qed

lemma seal_inv_audit:
  assumes seal: "seal_inv phys db" and cust: "custody_inv db" and audit: "audit_inv db"
  shows "audit_sealed db"
  unfolding audit_sealed_def
proof (intro allI impI)
  fix t k e
  assume e: "(k, e) \<in> set (db_audit db t)"
  have "sorted_wrt (<) (map fst (db_audit db t))" using audit by (simp add: audit_inv_def)
  then have "distinct (map fst (db_audit db t))" by (simp add: strict_sorted_iff)
  with e have "map_of (db_audit db t) k = Some e" by (simp add: map_of_eq_Some_iff)
  with sealed_kept [OF seal cust, of "WAudit t k"] show "kept db t (sealed_key e)" by simp
qed

text \<open>Everything that holds in a store, with or without rotations in progress.\<close>

definition custody_sound :: "(WalkKey \<Rightarrow> u8 list) \<Rightarrow> Db \<Rightarrow> bool" where
  "custody_sound phys db \<longleftrightarrow> sound db \<and> ceiling_inv db \<and> tombstone_inv db \<and> shelf_inv db \<and> side_inv db \<and>
     seal_inv phys db"

lemma custody_sound_empty: "custody_sound phys empty_db"
  using reachable_sound [OF reachable_empty] reachable_ceiling_inv [OF reachable_empty]
    reachable_tombstone_inv [OF reachable_empty] shelf_inv_empty seal_inv_empty
  by (simp add: custody_sound_def side_inv_def) (simp add: empty_db_def)

lemma store_step_custody_sound:
  assumes "store_step db db'" and "custody_sound phys db"
  shows "custody_sound phys db'"
  using assms sound_step store_step_ceiling_inv store_step_tombstones store_step_shelf store_step_custodial
    store_step_seal_inv unfolding custody_sound_def sound_def by blast

lemma rotates_custody_sound:
  assumes rot: "rotates t db db'" and seal: "seal_inv phys db'" and inv: "custody_sound phys db"
  shows "custody_sound phys db'"
proof -
  have c: "same_contents db db'" using rot by (simp add: rotates_def)
  have cust: "custody_inv db'" using rotates_custody [OF rot seal] inv by (simp add: custody_sound_def sound_def)
  have "ledger_inv db'" using ledger_inv_cong [of db' db] inv c by (simp add: custody_sound_def sound_def same_contents_def)
  moreover have "audit_inv db'" using same_contents_audit [OF c] inv by (simp add: custody_sound_def sound_def)
  moreover have "ceiling_inv db'" using rotates_ceiling [OF rot] inv by (simp add: custody_sound_def)
  moreover have "tombstone_inv db'"
    using inv c rotates_tenants [OF rot] by (simp add: custody_sound_def tombstone_inv_def same_contents_def)
  moreover have "shelf_inv db'" using rotates_shelf [OF rot seal cust] inv by (simp add: custody_sound_def)
  moreover have "side_inv db'"
  proof -
    have a: "contents (db_artifacts db') = contents (db_artifacts db)" and loc: "db_locators db' = db_locators db"
      using c by (simp_all add: same_contents_def)
    show ?thesis using inv by (simp add: custody_sound_def side_inv_def loc same_contents_None [OF a])
  qed
  ultimately show ?thesis using cust seal by (simp add: custody_sound_def sound_def)
qed

lemma custody_step_sound:
  assumes "custody_step phys db db'" and "custody_sound phys db"
  shows "custody_sound phys db'"
proof -
  have "seal_inv phys db" using assms(2) by (simp add: custody_sound_def)
  with assms(1) show ?thesis
    by (cases rule: custody_step_cases)
      (use assms(2) store_step_custody_sound rotates_custody_sound in blast)+
qed

lemma custody_reachable_sound: "custody_reachable phys db \<Longrightarrow> custody_sound phys db"
  unfolding custody_reachable_def
  by (induction rule: rtranclp_induct) (auto intro: custody_sound_empty custody_step_sound)

lemma custody_reachable_step: "custody_reachable phys db \<Longrightarrow> custody_step phys db db' \<Longrightarrow> custody_reachable phys db'"
  by (simp add: custody_reachable_def rtranclp.rtrancl_into_rtrancl)

lemma custody_reachable_operations:
  assumes "custody_reachable phys db" and "store_step\<^sup>*\<^sup>* db db'"
  shows "custody_reachable phys db'"
  using assms(2,1) by (induction rule: rtranclp_induct) (auto intro: custody_step.operation custody_reachable_step)

lemma store_reachable_custody: "store_reachable db \<Longrightarrow> custody_reachable phys db"
  unfolding store_reachable_def custody_reachable_def
  by (induction rule: rtranclp_induct) (auto intro: custody_step.operation rtranclp.rtrancl_into_rtrancl)

end
