(* ===== verification/Rotation_Run.thy ===== *)
theory Rotation_Run
  imports Rotation
begin

text \<open>
  What a rotation means to its callers: readers get the same answers before, during and after it, and
  running it to the end terminates with every record of the tenant under the new key and the old key
  gone.
\<close>

section \<open>Readers\<close>

text \<open>A tenant's keyring, as readers get it: present, shredded, or missing.\<close>

lemma sound_keys:
  assumes "custody_sound phys db"
  shows "db_tenants db t \<noteq> None \<Longrightarrow> \<exists>keys. tenant_keys db t = Ok keys"
    and "db_tenants db t = None \<Longrightarrow> tenant_keys db t = Err (absent_tenant db t)"
proof -
  show "db_tenants db t \<noteq> None \<Longrightarrow> \<exists>keys. tenant_keys db t = Ok keys"
    using assms by (auto simp: custody_sound_def sound_def custody_inv_def keys_live_def)
  show "db_tenants db t = None \<Longrightarrow> tenant_keys db t = Err (absent_tenant db t)"
    by (simp add: tenant_keys_def key_ids_def)
qed

lemma sound_opens:
  assumes "custody_sound phys db" and "tenant_keys db t = Ok keys" and "owner k = Some t" and "header db k = Some key"
  shows "key \<in> set (meta_openers keys)"
  using assms sealed_opens by (auto simp: custody_sound_def)

definition published_side :: "Db \<Rightarrow> ArtifactRef \<Rightarrow> LocatorRecord \<Rightarrow> ArtifactRecord" where
  "published_side db a loc = the (contents (db_artifacts db) (loc_owner loc, a))"

lemma published_sound:
  assumes inv: "custody_sound phys db" and loc: "db_locators db a = Some loc" and live: "tenant_keys db (loc_owner loc) = Ok keys"
  shows "published db a = Ok (Some (published_side db a loc, keys))"
    and "art_tenant (published_side db a loc) = loc_owner loc"
    and "\<exists>blob. db_blobs db (loc_owner loc, art_blob_address (published_side db a loc)) = Some blob \<and>
      open_sealed (blob_openers keys) blob = Ok (sealed_value blob)"
proof -
  have "filed db a loc" using inv loc by (simp add: custody_sound_def shelf_inv_def)
  then obtain s blob where s: "db_artifacts db (loc_owner loc, a) = Some s"
    and sh: "art_tenant (sealed_value s) = loc_owner loc"
      "db_blobs db (loc_owner loc, art_blob_address (sealed_value s)) = Some blob"
    by (auto simp: filed_def shelved_def)
  have side: "published_side db a loc = sealed_value s" by (simp add: published_side_def contents_def s)
  show "published db a = Ok (Some (published_side db a loc, keys))"
    using sound_opens [OF inv live, of "WArtifact (loc_owner loc) a"] s live
    by (simp add: published_def loc live_tenant_keys_def side open_sealed_def)
  show "art_tenant (published_side db a loc) = loc_owner loc" by (simp add: side sh)
  show "\<exists>blob. db_blobs db (loc_owner loc, art_blob_address (published_side db a loc)) = Some blob \<and>
      open_sealed (blob_openers keys) blob = Ok (sealed_value blob)"
    using sound_opens [OF inv live, of "WBlob (loc_owner loc) (art_blob_address (sealed_value s))"] sh
    by (simp add: side openers_same open_sealed_def)
qed

lemma published_dead:
  assumes "custody_sound phys db" and "db_locators db a = Some loc" and "db_tenants db (loc_owner loc) = None"
  shows "published db a = (case absent_tenant db (loc_owner loc) of TenantShredded _ \<Rightarrow> Ok None | e \<Rightarrow> Err e)"
  using sound_keys(2) [OF assms(1,3)] assms(2)
  by (simp add: published_def live_tenant_keys_def absent_tenant_def split: option.split)

text \<open>The two databases on either side of a rotation's transaction.\<close>

definition rotation :: "(WalkKey \<Rightarrow> u8 list) \<Rightarrow> TenantId \<Rightarrow> Db \<Rightarrow> Db \<Rightarrow> bool" where
  "rotation phys t db db' \<longleftrightarrow> custody_sound phys db \<and> custody_sound phys db' \<and> rotates t db db'"

lemma rotationD:
  assumes "rotation phys t db db'"
  shows "custody_sound phys db" and "custody_sound phys db'" and "rotates t db db'" and "same_contents db db'"
    and "absent_tenant db' t' = absent_tenant db t'" and "db_tenants db' t' = None \<longleftrightarrow> db_tenants db t' = None"
proof -
  show "custody_sound phys db" "custody_sound phys db'" and rot: "rotates t db db'"
    using assms by (simp_all add: rotation_def)
  then show same: "same_contents db db'" by (simp add: rotates_def)
  then show "absent_tenant db' t' = absent_tenant db t'" by (simp add: absent_tenant_def same_contents_def)
  show "db_tenants db' t' = None \<longleftrightarrow> db_tenants db t' = None" by (rule rotates_tenants [OF rot])
qed

lemma artifact_same:
  assumes rot: "rotation phys t db db'"
  shows "artifact db' a = artifact db a \<and> read_artifact db' a offset len = read_artifact db a offset len"
proof -
  note R = rotationD [OF rot]
  have loc: "db_locators db' a = db_locators db a" using R(4) by (simp add: same_contents_def)
  consider (none) "db_locators db a = None"
    | (dead) l where "db_locators db a = Some l" "db_tenants db (loc_owner l) = None"
    | (live) l where "db_locators db a = Some l" "db_tenants db (loc_owner l) \<noteq> None"
    by (cases "db_locators db a") auto
  then show ?thesis
  proof cases
    case none
    then show ?thesis by (simp add: artifact_def read_artifact_def published_def loc)
  next
    case (dead l)
    then have "published db' a = published db a"
      using published_dead [OF R(2), of a l] published_dead [OF R(1), of a l] R(6) by (simp add: loc R(5))
    moreover have "published db a = Ok None \<or> (\<exists>e. published db a = Err e)"
      using published_dead [OF R(1) dead] by (simp add: absent_tenant_def split: option.splits)
    ultimately show ?thesis by (auto simp: artifact_def read_artifact_def)
  next
    case (live l)
    then have live': "db_locators db' a = Some l" "db_tenants db' (loc_owner l) \<noteq> None" by (simp_all add: loc R(6))
    obtain keys keys' where keys: "tenant_keys db (loc_owner l) = Ok keys" "tenant_keys db' (loc_owner l) = Ok keys'"
      using sound_keys(1) [OF R(1) live(2)] sound_keys(1) [OF R(2) live'(2)] by blast
    note p = published_sound [OF R(1) live(1) keys(1)] and p' = published_sound [OF R(2) live'(1) keys(2)]
    have side: "published_side db' a l = published_side db a l"
      using R(4) by (simp add: published_side_def same_contents_def)
    from p(3) p'(3) obtain blob blob' where b: "db_blobs db (loc_owner l, art_blob_address (published_side db a l)) = Some blob"
        "open_sealed (blob_openers keys) blob = Ok (sealed_value blob)"
      and b': "db_blobs db' (loc_owner l, art_blob_address (published_side db a l)) = Some blob'"
        "open_sealed (blob_openers keys') blob' = Ok (sealed_value blob')" by (auto simp: side)
    have "contents (db_blobs db') = contents (db_blobs db)" using R(4) by (simp add: same_contents_def)
    from fun_cong [OF this, of "(loc_owner l, art_blob_address (published_side db a l))"] b b'
    have "sealed_value blob' = sealed_value blob" by (simp add: contents_def)
    then show ?thesis using p p' b b' by (simp add: artifact_def read_artifact_def side)
  qed
qed

lemma session_same:
  assumes rot: "rotation phys t db db'"
  shows "session_artifacts db' index s bound limit = session_artifacts db index s bound limit"
proof (cases "db_sessions db s")
  case None
  with rotationD(4) [OF rot] show ?thesis by (simp add: session_artifacts_def same_contents_def)
next
  case (Some r)
  have s': "db_sessions db' s = Some r" using Some rotationD(4) [OF rot] by (simp add: same_contents_def)
  show ?thesis
  proof (cases "db_tenants db (sr_owner r)")
    case None
    with sound_keys(2) [OF rotationD(1) [OF rot]] sound_keys(2) [OF rotationD(2) [OF rot]] rotationD(6) [OF rot] show ?thesis
      by (simp add: session_artifacts_def Some s' live_tenant_keys_def rotationD(5) [OF rot])
        (simp add: absent_tenant_def split: option.split)
  next
    case (Some q)
    then have "db_tenants db (sr_owner r) \<noteq> None" "db_tenants db' (sr_owner r) \<noteq> None"
      using rotationD(6) [OF rot] by simp_all
    then obtain keys keys' where keys: "tenant_keys db (sr_owner r) = Ok keys" "tenant_keys db' (sr_owner r) = Ok keys'"
      using sound_keys(1) [OF rotationD(1) [OF rot]] sound_keys(1) [OF rotationD(2) [OF rot]] by blast
    have opens: "sealed_key sealed \<in> set (meta_openers k) \<and> six_artifact (sealed_value sealed) = a"
      if "custody_sound phys x" "tenant_keys x (sr_owner r) = Ok k" "db_session_index x (sr_owner r, s, a) = Some sealed"
      for x k a sealed
      using sound_opens [OF that(1,2), of "WSessionIndex (sr_owner r) s a"] that(1,3)
      by (auto simp: custody_sound_def shelf_inv_def indexed_def)
    have "contents (db_session_index db') = contents (db_session_index db)" using rotationD(4) [OF rot] by (simp add: same_contents_def)
    note none = same_contents_None [OF this]
    show ?thesis
      by (simp add: session_artifacts_def \<open>db_sessions db s = Some r\<close> s' live_tenant_keys_def keys Let_def
          scan_index_exact [of "\<lambda>a. db_session_index db (sr_owner r, s, a)", OF opens [OF rotationD(1) [OF rot] keys(1)]]
          scan_index_exact [of "\<lambda>a. db_session_index db' (sr_owner r, s, a)", OF opens [OF rotationD(2) [OF rot] keys(2)]]
          none)
  qed
qed

lemma partition_same:
  assumes rot: "rotation phys t db db'"
  shows "partition_read db' t' bound limit keep = partition_read db t' bound limit keep"
proof (cases "db_tenants db t'")
  case None
  with sound_keys(2) [OF rotationD(1) [OF rot]] sound_keys(2) [OF rotationD(2) [OF rot]] rotationD(6) [OF rot] show ?thesis
    by (simp add: partition_read_def rotationD(5) [OF rot])
next
  case (Some q)
  then have "db_tenants db t' \<noteq> None" "db_tenants db' t' \<noteq> None" using rotationD(6) [OF rot] by simp_all
  then obtain keys keys' where keys: "tenant_keys db t' = Ok keys" "tenant_keys db' t' = Ok keys'"
    using sound_keys(1) [OF rotationD(1) [OF rot]] sound_keys(1) [OF rotationD(2) [OF rot]] by blast
  have opens: "sealed_key e \<in> set (audit_openers k)"
    if inv: "custody_sound phys x" and k: "tenant_keys x t' = Ok k" and e: "(n, e) \<in> set (db_audit x t')" for x k n e
  proof -
    have "kept x t' (sealed_key e)"
      using seal_inv_audit inv e unfolding custody_sound_def sound_def audit_sealed_def by blast
    moreover have "db_tombstones x t' = None"
      using inv k by (auto simp: custody_sound_def tombstone_inv_def tenant_keys_Ok_iff)
    ultimately show ?thesis using k by (simp add: kept_def openers_same)
  qed
  have vals: "map (sealed_value \<circ> snd) (filter (\<lambda>(k, _). P k) (db_audit db' t')) =
      map (sealed_value \<circ> snd) (filter (\<lambda>(k, _). P k) (db_audit db t'))" for P
  proof -
    have "map (sealed_value \<circ> snd) (filter (\<lambda>(k, _). P k) (db_audit x t')) =
        map snd (filter (\<lambda>(k, _). P k) (audit_contents x t'))" for x
      by (simp add: audit_contents_def filter_map comp_def case_prod_unfold)
    moreover have "audit_contents db' = audit_contents db" using rotationD(4) [OF rot] by (simp add: same_contents_def)
    ultimately show ?thesis by metis
  qed
  have scan: "scan_partition (audit_openers keys') keep limit [] (filter (\<lambda>(k, _). start \<le> k) (db_audit db' t')) =
      scan_partition (audit_openers keys) keep limit [] (filter (\<lambda>(k, _). start \<le> k) (db_audit db t'))" for start
    by (subst (1 2) scan_partition_exact)
      (auto simp: vals intro: opens [OF rotationD(1) [OF rot] keys(1)] opens [OF rotationD(2) [OF rot] keys(2)])
  then show ?thesis by (simp add: partition_read_def keys split: option.split)
qed

lemma rotation_view_same:
  assumes "rotates t db db'"
  shows "store_view db' = store_view db"
proof -
  have same: "db_grants db' = db_grants db" "db_revocations db' = db_revocations db" "db_sessions db' = db_sessions db"
    "db_ledgers db' = db_ledgers db" using assms by (simp_all add: rotates_def same_contents_def)
  obtain r key where r: "db_tenants db t = Some r" "db_tenants db' t = Some (r\<lparr>tr_data_key_id := key\<rparr>)"
    using assms by (auto simp: rotates_def)
  have other: "db_tenants db' u = db_tenants db u" if "u \<noteq> t" for u using assms that by (simp add: rotates_def)
  have "map_option tr_parent (db_tenants db' u) = map_option tr_parent (db_tenants db u)"
    "map_option tr_ceilings (db_tenants db' u) = map_option tr_ceilings (db_tenants db u)" for u
    using r other by (cases "u = t"; simp)+
  then have "(case db_tenants db' u of Some r \<Rightarrow> tr_parent r | None \<Rightarrow> None) = (case db_tenants db u of Some r \<Rightarrow> tr_parent r | None \<Rightarrow> None)"
    "(case db_tenants db' u of Some r \<Rightarrow> tr_ceilings r | None \<Rightarrow> ceilings_default) =
     (case db_tenants db u of Some r \<Rightarrow> tr_ceilings r | None \<Rightarrow> ceilings_default)" for u
    using r other by (cases "u = t"; simp)+
  then show ?thesis by (simp add: store_view_def same ledger_used_def)
qed

lemma begin_bound_same:
  assumes rot: "rotation phys t db db'"
    and bound: "db_idem db (az_tenant (int_authz intent), az_capability (int_authz intent), int_idempotency_key intent) \<noteq> None"
  shows "snd (begin_invocation env intent db') = snd (begin_invocation env intent db)"
proof -
  note R = rotationD [OF rot]
  let ?t = "az_tenant (int_authz intent)"
  let ?k = "WIdem ?t (az_capability (int_authz intent)) (int_idempotency_key intent)"
  let ?slot = "(?t, az_capability (int_authz intent), int_idempotency_key intent)"
  have idem: "contents (db_idem db') = contents (db_idem db)" using R(4) by (simp add: same_contents_def)
  have inv: "db_invocations db' = db_invocations db" using R(4) by (simp add: same_contents_def)
  from bound obtain sealed where s: "db_idem db ?slot = Some sealed" by blast
  with fun_cong [OF idem, of ?slot] obtain sealed' where s': "db_idem db' ?slot = Some sealed'"
    "sealed_value sealed' = sealed_value sealed" by (auto simp: contents_def)
  show ?thesis
  proof (cases "db_tenants db ?t = None")
    case True
    with sound_keys(2) [OF R(1)] sound_keys(2) [OF R(2)] R(5,6) show ?thesis
      by (simp add: begin_invocation_def begin_tx_def end_tx_def)
  next
    case False
    with R(6) have "db_tenants db' ?t \<noteq> None" by simp
    with False obtain keys keys' where keys: "tenant_keys db ?t = Ok keys" "tenant_keys db' ?t = Ok keys'"
      using sound_keys(1) [OF R(1)] sound_keys(1) [OF R(2)] by blast
    have "sealed_key sealed \<in> set (meta_openers keys)" "sealed_key sealed' \<in> set (meta_openers keys')"
      using sound_opens [OF R(1) keys(1), of ?k] sound_opens [OF R(2) keys(2), of ?k] s s' by simp_all
    with keys s s' show ?thesis
      by (simp add: begin_invocation_def begin_tx_def end_tx_def open_sealed_def replay_def inv)
        (auto simp: rbind_Ok_iff split: sum.split TxEnd.split)
  qed
qed

lemma audit_query_same:
  assumes rot: "rotation phys t db db'"
  shows "store_audit_query db' tenants query = store_audit_query db tenants query"
proof -
  note R = rotationD [OF rot]
  obtain r key where r: "db_tenants db t = Some r" "db_tenants db' t = Some (r\<lparr>tr_data_key_id := key\<rparr>)"
    using R(3) by (auto simp: rotates_def)
  have "db_tenants db' u = db_tenants db u" if "u \<noteq> t" for u using R(3) that by (simp add: rotates_def)
  with r have "map_option tr_id (db_tenants db' u) = map_option tr_id (db_tenants db u)" for u by (cases "u = t") simp_all
  then have "tenant_ids db' tenants = tenant_ids db tenants" by (simp add: tenant_ids_def)
  moreover have "selected db' query = selected db query"
  proof -
    have "db_sessions db' = db_sessions db" using R(4) by (simp add: same_contents_def)
    then show ?thesis by (intro ext) (simp only: selected_def)
  qed
  ultimately show ?thesis by (simp add: store_audit_query_def partition_same [OF rot])
qed

section \<open>Running a rotation to its end\<close>

lemma same_contents_present:
  assumes "same_contents db db'"
  shows "present db' k \<longleftrightarrow> present db k"
proof -
  have none: "db_idem db' a = None \<longleftrightarrow> db_idem db a = None" "db_artifacts db' b = None \<longleftrightarrow> db_artifacts db b = None"
      "db_pending db' c = None \<longleftrightarrow> db_pending db c = None" "db_blobs db' d = None \<longleftrightarrow> db_blobs db d = None"
      "db_session_index db' e = None \<longleftrightarrow> db_session_index db e = None" for a b c d e
    by (rule same_contents_None, use assms in \<open>simp add: same_contents_def\<close>)+
  have "audit_contents db' = audit_contents db" using assms by (simp add: same_contents_def)
  from audit_contents_keys [OF this] have "fst ` set (db_audit db' t) = fst ` set (db_audit db t)" for t
    by (metis list.set_map)
  then have audit: "map_of (db_audit db' t) s = None \<longleftrightarrow> map_of (db_audit db t) s = None" for t s
    by (simp add: map_of_eq_None_iff)
  have "db_locators db' = db_locators db" using assms by (simp add: same_contents_def)
  with none audit show ?thesis by (cases k) (simp_all del: not_None_eq)
qed

text \<open>The library iterates every database with these records in the order of their keys.\<close>

definition scans_alike :: "(WalkKey \<Rightarrow> u8 list) \<Rightarrow> (Db \<Rightarrow> Keyspace \<Rightarrow> WalkKey list) \<Rightarrow> Db \<Rightarrow> bool" where
  "scans_alike phys scan db \<longleftrightarrow> (\<forall>db'. (\<forall>k. present db' k \<longleftrightarrow> present db k) \<longrightarrow> scanned phys scan db')"

lemma scans_alike_same: "same_contents db db' \<Longrightarrow> scans_alike phys scan db \<Longrightarrow> scans_alike phys scan db'"
  by (simp add: scans_alike_def same_contents_present)

lemma scans_alike_scanned: "scans_alike phys scan db \<Longrightarrow> scanned phys scan db"
  by (simp add: scans_alike_def)

text \<open>What is left of the walk: keyspaces, then records of the current one behind the cursor.\<close>

definition ahead :: "(WalkKey \<Rightarrow> u8 list) \<Rightarrow> Db \<Rightarrow> RekeyRecord \<Rightarrow> WalkKey set" where
  "ahead phys db rk = {k. present db k \<and> walk_position (walk_keyspace k) = unat (rk_keyspace rk) \<and>
     (\<forall>c. rk_cursor rk = Some c \<longrightarrow> c < phys k)}"

definition walk_measure :: "(WalkKey \<Rightarrow> u8 list) \<Rightarrow> Db \<Rightarrow> RekeyRecord \<Rightarrow> nat \<times> nat" where
  "walk_measure phys db rk = (5 - unat (rk_keyspace rk), card (ahead phys db rk))"

lemma ahead_cong: "same_contents db db' \<Longrightarrow> ahead phys db' rk = ahead phys db rk"
  by (simp add: ahead_def same_contents_present)

lemma finite_ahead:
  assumes "scanned phys scan db"
  shows "finite (ahead phys db rk)"
proof (cases "walk_get (rk_keyspace rk)")
  case None
  then have "unat (rk_keyspace rk) \<ge> 5" by (simp add: walk_get_def length_WALK split: if_splits)
  then have "walk_position (walk_keyspace k) \<noteq> unat (rk_keyspace rk)" for k using walk_position_bound [of k] by simp
  then have "ahead phys db rk = {}" by (simp add: ahead_def)
  then show ?thesis by simp
next
  case (Some step)
  note w = walk_get_Some [OF this]
  have "ahead phys db rk \<subseteq> set (scan db (ws_keyspace step))"
    using assms w walk_step_position [OF w(3)] by (auto simp: ahead_def scanned_def)
  then show ?thesis by (rule finite_subset) simp
qed

lemma walked_measure:
  assumes scan: "scanned phys scan db" and step: "walk_get (rk_keyspace rk) = Some step" and batch: "0 < batch"
    and entries: "entries = walk_entries phys (scan db (ws_keyspace step)) (rk_cursor rk) batch"
    and r2: "rk_keyspace r2 = (if length entries < batch then saturating_add (rk_keyspace rk) 1 else rk_keyspace rk)"
      "rk_cursor r2 = (if length entries < batch \<or> entries = [] then None else Some (phys (last entries)))"
  shows "(walk_measure phys db r2, walk_measure phys db rk) \<in> less_than <*lex*> less_than"
proof (cases "length entries < batch")
  case True
  have "unat (saturating_add (rk_keyspace rk) 1) = unat (rk_keyspace rk) + 1" "unat (rk_keyspace rk) < 5"
    using walk_get_Some(1) [OF step] by (simp_all add: saturating_add_def unat_word_ariths)
  then have "5 - unat (rk_keyspace r2) < 5 - unat (rk_keyspace rk)" using True by (simp add: r2(1))
  then show ?thesis by (simp add: walk_measure_def)
next
  case False
  then have ne: "entries \<noteq> []" using batch by auto
  note w = walk_get_Some [OF step]
  have "last entries \<in> set entries" using ne by simp
  then have l: "last entries \<in> set (scan db (ws_keyspace step))" "\<And>c. rk_cursor rk = Some c \<Longrightarrow> c < phys (last entries)"
    by (auto simp: entries walk_entries_def dest: in_set_takeD split: option.splits)
  have "last entries \<in> ahead phys db rk"
    using l scan w walk_step_position [OF w(3)] by (auto simp: ahead_def scanned_def)
  moreover have "ahead phys db r2 \<subseteq> ahead phys db rk"
    using False ne l(2) by (auto simp: ahead_def r2 intro: less_trans)
  moreover have "last entries \<notin> ahead phys db r2" using False ne by (simp add: ahead_def r2)
  ultimately have "card (ahead phys db r2) < card (ahead phys db rk)"
    using finite_ahead [OF scan] by (intro psubset_card_mono) auto
  with False show ?thesis by (simp add: walk_measure_def r2)
qed

lemma batch_progress:
  assumes inv: "custody_sound phys db" and scan: "scanned phys scan db" and batch: "0 < batch" and env: "quiet env"
    and rk: "db_rekey db t = Some rk" "\<not> rk_done rk"
  obtains db' rk' where "rekey_batch env phys scan t batch db = (db', Ok (rekey_status_from rk'))"
    and "db_rekey db' t = Some rk'" and "custody_sound phys db'" and "rotates t db db'"
    and "rk_done rk' \<or> (walk_measure phys db' rk', walk_measure phys db rk) \<in> less_than <*lex*> less_than"
proof -
  have seal: "seal_inv phys db" using inv by (simp add: custody_sound_def)
  note D = seal_invD [OF seal]
  obtain q where q: "db_tenants db t = Some q" using D(2) [of t] rk(1) by (cases "db_tenants db t") auto
  then obtain keys where keys: "tenant_keys db t = Ok keys" using sound_keys(1) [OF inv, of t] by blast
  then have ret: "kr_retiring keys = Some (rk_from_key_id rk)"
    using rk by (auto simp: tenant_keys_Ok_iff retiring_key_def)
  have id: "rk_tenant rk = t" using D(1) [OF q rk(1)] by (simp add: rekey_ok_def)
  have "\<exists>b v tx. rekey_batch_tx env phys scan t batch db = Ok (Commit b v tx)"
    using rk keys ret by (simp add: rekey_batch_tx_def retire_def Let_def split: option.split prod.split)
  then obtain b v tx where c: "rekey_batch_tx env phys scan t batch db = Ok (Commit b v tx)" by blast
  have run: "rekey_batch env phys scan t batch db = (tx, Ok v)"
    by (simp add: rekey_batch_def c end_tx_quiet [OF env])
  from rotation_steps(2) [OF seal scan batch c] have rot: "rotates t db tx" "seal_inv phys tx" by simp_all
  have snd': "custody_sound phys tx" by (rule rotates_custody_sound [OF rot inv])
  from c show ?thesis
  proof (cases rule: batch_Commit)
    case (retired r)
    with rk id show ?thesis
      by (intro that [OF _ _ snd' rot(1), of "r\<lparr>rk_done := True, rk_cursor := None, rk_finished_at := Some (env_now env)\<rparr>"])
        (simp_all add: run put_rekey_def)
  next
    case (walked r step keys' retiring entries r2)
    have r: "r = rk" using walked(1) rk by simp
    have "ahead phys tx r2 = ahead phys db r2" using rot(1) by (intro ahead_cong) (simp add: rotates_def)
    then have "walk_measure phys tx r2 = walk_measure phys db r2" by (simp add: walk_measure_def)
    with walked_measure [OF scan walked(3) [unfolded r] batch walked(6) [unfolded r] walked(13,14) [unfolded r]]
      walked(7-9) r id show ?thesis
      by (intro that [OF _ _ snd' rot(1), of r2]) (simp_all add: run put_rekey_def)
  qed
qed


text \<open>A finished rotation: one key, every record under it.\<close>

definition rotated_to :: "Db \<Rightarrow> TenantId \<Rightarrow> RekeyStatus \<Rightarrow> bool" where
  "rotated_to db t status \<longleftrightarrow> rs_done status \<and>
     (\<forall>k key. owner k = Some t \<longrightarrow> header db k = Some key \<longrightarrow> key = rs_to_key_id status) \<and>
     (t, rs_from_key_id status) \<notin> db_data_keys db \<and>
     tenant_keys db t = Ok \<lparr>kr_active = rs_to_key_id status, kr_retiring = None\<rparr>"

lemma done_rotated:
  assumes inv: "custody_sound phys db" and rk: "db_rekey db t = Some rk" "rk_done rk"
  shows "rotated_to db t (rekey_status_from rk)"
proof -
  have seal: "seal_inv phys db" using inv by (simp add: custody_sound_def)
  note D = seal_invD [OF seal]
  obtain q where q: "db_tenants db t = Some q" using D(2) [of t] rk(1) by (cases "db_tenants db t") auto
  have ids: "rk_to_key_id rk = tr_data_key_id q" "rk_from_key_id rk \<noteq> tr_data_key_id q"
    using D(1) [OF q rk(1)] by (auto simp: rekey_ok_def)
  have ret: "\<not> retiring_key db t k" for k using rk by (auto simp: retiring_key_def)
  obtain keys where keys: "tenant_keys db t = Ok keys" using sound_keys(1) [OF inv, of t] q by auto
  then have "kr_active keys = tr_data_key_id q" "kr_retiring keys = None"
    using q ret by (auto simp: tenant_keys_Ok_iff)
  then have "keys = \<lparr>kr_active = tr_data_key_id q, kr_retiring = None\<rparr>" by (cases keys) simp
  moreover have "key = tr_data_key_id q" if "owner k = Some t" "header db k = Some key" for k key
    using D(4) [OF that] q rk by (auto simp: sealed_for_def)
  moreover have "(t, rk_from_key_id rk) \<notin> db_data_keys db" unfolding D(3) using q ids ret by simp
  ultimately show ?thesis using keys ids rk(2) by (simp add: rotated_to_def rekey_status_from_def)
qed

lemma loop_completes:
  assumes env: "\<And>n. quiet (env n)" and batch: "0 < batch"
    and "custody_sound phys db" and "scans_alike phys scan db" and "db_rekey db t = Some rk"
  shows "\<exists>db' status. rekey_loop env phys scan t batch n db (rekey_status_from rk) = Some (db', Ok status) \<and>
      rotated_to db' t status \<and> same_contents db db'"
proof -
  have wf: "wf (less_than <*lex*> less_than)" by (simp add: wf_lex_prod)
  from assms(3-5) show ?thesis
  proof (induction "walk_measure phys db rk" arbitrary: db rk n rule: wf_induct_rule [OF wf])
  case (1 db rk n)
  note IH = 1(1) and sound = 1(2) and alike = 1(3) and rk = 1(4)
  show ?case
  proof (cases "rk_done rk")
    case True
    then have "rekey_loop env phys scan t batch n db (rekey_status_from rk) = Some (db, Ok (rekey_status_from rk))"
      by (subst rekey_loop.simps) (simp add: rekey_status_from_def)
    with done_rotated [OF sound rk True] same_contents_refl show ?thesis by blast
  next
    case False
    obtain db' rk' where run: "rekey_batch (env n) phys scan t batch db = (db', Ok (rekey_status_from rk'))"
      and rk': "db_rekey db' t = Some rk'" and inv: "custody_sound phys db'" and rot: "rotates t db db'"
      and less: "rk_done rk' \<or> (walk_measure phys db' rk', walk_measure phys db rk) \<in> less_than <*lex*> less_than"
      by (rule batch_progress [OF sound scans_alike_scanned [OF alike] batch env rk False])
    have same: "same_contents db db'" using rot by (simp add: rotates_def)
    note scan = scans_alike_same [OF same alike]
    have loop: "rekey_loop env phys scan t batch n db (rekey_status_from rk) =
        rekey_loop env phys scan t batch (Suc n) db' (rekey_status_from rk')"
      using False by (subst rekey_loop.simps) (simp add: run rekey_status_from_def)
    show ?thesis
    proof (cases "rk_done rk'")
      case True
      then have "rekey_loop env phys scan t batch (Suc n) db' (rekey_status_from rk') = Some (db', Ok (rekey_status_from rk'))"
        by (subst rekey_loop.simps) (simp add: rekey_status_from_def)
      with done_rotated [OF inv rk' True] same loop show ?thesis by auto
    next
      case False
      with less obtain db2 status where "rekey_loop env phys scan t batch (Suc n) db' (rekey_status_from rk') = Some (db2, Ok status)"
        "rotated_to db2 t status" "same_contents db' db2" using IH [OF _ inv scan rk'] by blast
      with loop same_contents_trans [OF same] show ?thesis by auto
    qed
  qed
  qed
qed

lemma begin_progress:
  assumes inv: "custody_sound phys db" and env: "quiet env" and r: "db_tenants db t = Some r"
    and idle: "\<And>old. db_rekey db t = Some old \<Longrightarrow> rk_done old" and room: "unat (tr_data_key_id r) + 1 < 2 ^ 32"
  obtains db' rk where "begin_rekey env scan t db = (db', Ok (rekey_status_from rk))" and "db_rekey db' t = Some rk"
    and "custody_sound phys db'" and "same_contents db db'"
proof -
  have seal: "seal_inv phys db" using inv by (simp add: custody_sound_def)
  obtain keys where keys: "tenant_keys db t = Ok keys" using sound_keys(1) [OF inv, of t] r by auto
  then have act: "kr_active keys = tr_data_key_id r" using r by (auto simp: tenant_keys_Ok_iff)
  have "case db_rekey db t of Some existing \<Rightarrow> rk_done existing | None \<Rightarrow> True" using idle by (simp split: option.split)
  moreover have "checked_add (kr_active keys) 1 \<noteq> None" using room by (simp add: act checked_add_None_iff)
  ultimately obtain b v tx where c: "begin_rekey_tx env scan t db = Ok (Commit b v tx)"
    using r keys by (auto simp: begin_rekey_tx_def Let_def)
  have run: "begin_rekey env scan t db = (tx, Ok v)" by (simp add: begin_rekey_def c end_tx_quiet [OF env])
  have "rotates t db tx" "seal_inv phys tx" using rotation_steps(1) [OF seal c] by simp_all
  then have snd': "custody_sound phys tx" by (rule rotates_custody_sound [OF _ _ inv])
  from c show ?thesis
  proof (cases rule: begin_Commit_rekey)
    case (1 r' current rk)
    then show ?thesis using that [of tx rk] run snd' by simp
  qed
qed

lemma rekey_completes:
  assumes inv: "custody_sound phys db" and env: "\<And>n. quiet (env n)" and batch: "0 < batch"
    and scan: "scans_alike phys scan db" and r: "db_tenants db t = Some r"
    and room: "unat (tr_data_key_id r) + 1 < 2 ^ 32"
  shows "\<exists>db' status. rekey_tenant env phys scan t batch db = Some (db', Ok status) \<and>
    rotated_to db' t status \<and> same_contents db db'"
proof (cases "\<exists>rk. db_rekey db t = Some rk \<and> \<not> rk_done rk")
  case True
  then obtain rk where rk: "db_rekey db t = Some rk" "\<not> rk_done rk" by blast
  then have "rekey_tenant env phys scan t batch db = rekey_loop env phys scan t batch 1 db (rekey_status_from rk)"
    by (simp add: rekey_tenant_def rekey_status_def rekey_status_from_def)
  with loop_completes [of env, OF env batch inv scan rk(1)] show ?thesis by simp
next
  case False
  then have idle: "\<And>old. db_rekey db t = Some old \<Longrightarrow> rk_done old" by blast
  obtain db' rk where b: "begin_rekey (env 0) scan t db = (db', Ok (rekey_status_from rk))" "db_rekey db' t = Some rk"
    "custody_sound phys db'" "same_contents db db'"
    by (rule begin_progress [OF inv env r idle room])
  have "(case rekey_status db t of
       Some status \<Rightarrow> if \<not> rs_done status then (db, Ok status) else begin_rekey (env 0) scan t db
     | None \<Rightarrow> begin_rekey (env 0) scan t db) = begin_rekey (env 0) scan t db"
    using idle by (cases "db_rekey db t") (simp_all add: rekey_status_def rekey_status_from_def)
  then have "rekey_tenant env phys scan t batch db = rekey_loop env phys scan t batch 1 db' (rekey_status_from rk)"
    by (simp only: rekey_tenant_def b(1)) simp
  moreover obtain db2 status where "rekey_loop env phys scan t batch 1 db' (rekey_status_from rk) = Some (db2, Ok status)"
    "rotated_to db2 t status" "same_contents db' db2"
    using loop_completes [of env, OF env batch b(3) scans_alike_same [OF b(4) scan] b(2)] by blast
  ultimately show ?thesis using same_contents_trans [OF b(4)] by auto
qed

end
