(* ===== verification/Rotations.thy ===== *)
theory Rotations
  imports Rotation_Run Samples
begin

text \<open>
  The properties of key rotation, on the sample store: one tenant with one idempotency entry, rotated
  one record at a time.
\<close>

section \<open>The sample store under rotation\<close>

definition sample_walk :: WalkKey where
  "sample_walk = WIdem (TenantId 1) Capability.AuditQuery (IdempotencyKey [7])"

definition sample_scan :: "Db \<Rightarrow> Keyspace \<Rightarrow> WalkKey list" where
  "sample_scan db ks = (if ks = KsIdem then [sample_walk] else [])"

lemma sample_headers:
  "header sample_db3 k = (if k = sample_walk then Some 1 else None)" "db_locators sample_db3 = (\<lambda>_. None)"
  "db_tenants sample_db3 = db_tenants sample_db2" "db_rekey sample_db3 = (\<lambda>_. None)"
proof -
  have "begin_tx sample_env sample_intent sample_db2 = Ok (Abandon (Persisted (status_of sample_record))) \<or>
      (\<exists>b. begin_tx sample_env sample_intent sample_db2 = Ok (Commit b (Persisted (status_of sample_record)) sample_db3))"
    using sample_begin(1) unfolding begin_invocation_def by (blast dest: end_tx_Ok)
  then obtain b where c: "begin_tx sample_env sample_intent sample_db2 =
      Ok (Commit b (Persisted (status_of sample_record)) sample_db3)"
    using begin_Abandon by fastforce
  have "header sample_db3 k = (if k = sample_walk then Some 1 else None) \<and> db_locators sample_db3 = (\<lambda>_. None) \<and>
      db_tenants sample_db3 = db_tenants sample_db2 \<and> db_rekey sample_db3 = (\<lambda>_. None)"
    using c
  proof (cases rule: begin_Commit)
    case (persisted keys chain reservation)
    have keys: "kr_active keys = 1" using persisted(1) sample_keys by (auto simp: sample_intent_def sample_request_def)
    from persisted(6) obtain m idem where
      tx: "sample_db3 = (put_invocation (sample_db2\<lparr>db_ledgers := m\<rparr>) (intent_record sample_env sample_intent chain reservation))\<lparr>db_idem := idem\<rparr>"
      and idem: "idem = (db_idem sample_db2)((az_tenant (int_authz sample_intent), az_capability (int_authz sample_intent),
        int_idempotency_key sample_intent) := Some \<lparr>sealed_key = kr_active keys, sealed_value =
          \<lparr>idem_invocation = int_invocation sample_intent, idem_request_binding = request_binding sample_env sample_intent\<rparr>\<rparr>)"
      by (rule persist_Commit)
    show ?thesis
      by (cases k) (simp_all add: tx idem keys put_invocation_def sample_walk_def sample_intent_def sample_request_def
          sample_db2_eq sample_db1_eq empty_db_def)
  qed simp
  then show "header sample_db3 k = (if k = sample_walk then Some 1 else None)" "db_locators sample_db3 = (\<lambda>_. None)"
    "db_tenants sample_db3 = db_tenants sample_db2" "db_rekey sample_db3 = (\<lambda>_. None)"
    by blast+
qed

lemma sample_present: "present sample_db3 k \<longleftrightarrow> k = sample_walk"
proof (cases k)
  case (WLocator a)
  then show ?thesis by (simp add: sample_headers(2) sample_walk_def)
qed (simp_all add: sample_headers(1) [unfolded sample_walk_def] sample_walk_def del: header.simps)

lemma sample_scans: "scans_alike (\<lambda>_. []) sample_scan sample_db3"
  unfolding scans_alike_def scanned_def
proof (intro allI impI ballI)
  fix db' step
  assume same: "\<forall>k. present db' k = present sample_db3 k"
  have p: "present db' k \<longleftrightarrow> k = sample_walk" for k using spec [OF same, of k] sample_present [of k] by (rule trans)
  have "walk_keyspace sample_walk = KsIdem" by (simp add: sample_walk_def)
  then have "{k. present db' k \<and> walk_keyspace k = ks} = (if ks = KsIdem then {sample_walk} else {})" for ks
    unfolding p by auto
  then show "sorted_wrt (<) (map (\<lambda>_. []) (sample_scan db' (ws_keyspace step))) \<and>
      set (sample_scan db' (ws_keyspace step)) = {k. present db' k \<and> walk_keyspace k = ws_keyspace step}"
    by (simp add: sample_scan_def)
qed

lemma sample_tenant:
  obtains r where "db_tenants sample_db3 (TenantId 1) = Some r" and "tr_data_key_id r = 1"
  using sample_headers(3) by (simp add: sample_db2_eq sample_db1_eq)

section \<open>Properties\<close>

text \<open>C22. A rotation orphans nothing: whatever operations, rotations of other tenants and crashes come between its
  transactions, every record sealed for a live tenant opens under the keyring the tenant's readers load,
  and once no rotation is in progress every one of them is under the active key.\<close>
theorem rotation_orphans_nothing:
  assumes "custody_reachable phys db" and "db_tenants db t \<noteq> None" and "owner k = Some t" and "header db k = Some key"
  shows "\<exists>keys. tenant_keys db t = Ok keys \<and> key \<in> set (meta_openers keys) \<and>
    (kr_retiring keys = None \<longrightarrow> key = kr_active keys)"
proof -
  have inv: "custody_sound phys db" using assms(1) by (rule custody_reachable_sound)
  obtain keys where keys: "tenant_keys db t = Ok keys" using sound_keys(1) [OF inv assms(2)] by blast
  have "key \<in> set (meta_openers keys)" by (rule sound_opens [OF inv keys assms(3,4)])
  with keys show ?thesis by (auto simp: meta_openers_def)
qed

text \<open>The sample tenant in the middle of its rotation: the new key is active, the entry still under the old one.\<close>

definition sample_rotating :: Db where
  "sample_rotating = fst (begin_rekey sample_env sample_scan (TenantId 1) sample_db3)"

lemma sample_rotating_reachable: "custody_reachable (\<lambda>_. []) sample_rotating"
  unfolding sample_rotating_def
  by (rule custody_reachable_step [OF store_reachable_custody [OF sample_reachable(3)] begin_rotation])

lemma sample_rotating_effect:
  "db_tenants sample_rotating (TenantId 1) \<noteq> None" "header sample_rotating sample_walk = Some 1"
  "retiring_key sample_rotating (TenantId 1) 1"
proof -
  obtain r where r: "db_tenants sample_db3 (TenantId 1) = Some r" "tr_data_key_id r = 1" by (rule sample_tenant)
  have inv: "custody_sound (\<lambda>_. []) sample_db3"
    by (rule custody_reachable_sound [OF store_reachable_custody [OF sample_reachable(3)]])
  obtain db' rk where "begin_rekey sample_env sample_scan (TenantId 1) sample_db3 = (db', Ok (rekey_status_from rk))"
    by (rule begin_progress [OF inv sample_quiet r(1)]) (simp_all add: sample_headers(4) r(2))
  then have "begin_rekey_tx sample_env sample_scan (TenantId 1) sample_db3 = Ok (Abandon (rekey_status_from rk)) \<or>
      (\<exists>b. begin_rekey_tx sample_env sample_scan (TenantId 1) sample_db3 = Ok (Commit b (rekey_status_from rk) sample_rotating))"
    unfolding begin_rekey_def sample_rotating_def by (auto dest!: end_tx_Ok)
  then obtain b where "begin_rekey_tx sample_env sample_scan (TenantId 1) sample_db3 = Ok (Commit b (rekey_status_from rk) sample_rotating)"
    by (auto simp: begin_rekey_tx_def Let_def case_option_eq_iff ensure_Ok_iff rbind_Ok_iff)
  then show "db_tenants sample_rotating (TenantId 1) \<noteq> None" "header sample_rotating sample_walk = Some 1"
    "retiring_key sample_rotating (TenantId 1) 1"
    by (cases rule: begin_Commit_rekey;
        use r in \<open>auto simp: sample_headers(1) retiring_key_def tenant_keys_Ok_iff simp del: header.simps\<close>)+
qed

theorem rotation_orphans_nothing_witness:
  "\<exists>keys. tenant_keys sample_rotating (TenantId 1) = Ok keys \<and> 1 \<in> set (meta_openers keys) \<and> kr_retiring keys = Some 1"
proof -
  obtain keys where keys: "tenant_keys sample_rotating (TenantId 1) = Ok keys" "1 \<in> set (meta_openers keys)"
    using rotation_orphans_nothing [OF sample_rotating_reachable sample_rotating_effect(1) _ sample_rotating_effect(2)]
    by (auto simp: sample_walk_def)
  moreover from keys(1) sample_rotating_effect(3) have "kr_retiring keys = Some 1" by (auto simp: tenant_keys_Ok_iff)
  ultimately show ?thesis by blast
qed

text \<open>C23. A rotation changes no answer of these readers, for any tenant and under any crash: reading an artifact's
  description or its bytes, paging a session, reading a tenant's audit records, the audit query over
  tenants, an invocation's status, the plan of a call, and presenting an intent whose key is bound, which
  replays or conflicts as before.  The exception is the claim on a bound key (see the claim that fails in
  the middle of a rotation), which is not in this list.\<close>
theorem rotation_is_invisible:
  assumes "custody_reachable phys db" and "scanned phys scan db" and "0 < batch"
    and "db' = fst (begin_rekey env scan t db) \<or> db' = fst (rekey_batch env phys scan t batch db)"
  shows "artifact db' a = artifact db a \<and> read_artifact db' a offset len = read_artifact db a offset len \<and>
    session_artifacts db' index s bound limit = session_artifacts db index s bound limit \<and>
    audit_records db' u bound' limit = audit_records db u bound' limit \<and>
    store_audit_query db' tenants query = store_audit_query db tenants query \<and>
    invocation db' i = invocation db i \<and> store_plan env' request db' = store_plan env' request db \<and>
    (db_idem db (az_tenant (int_authz intent), az_capability (int_authz intent), int_idempotency_key intent) \<noteq> None \<longrightarrow>
       snd (begin_invocation env' intent db') = snd (begin_invocation env' intent db))"
proof -
  have inv: "custody_sound phys db" using assms(1) by (rule custody_reachable_sound)
  then have seal: "seal_inv phys db" by (simp add: custody_sound_def)
  have "db' = db \<or> (rotates t db db' \<and> seal_inv phys db')"
    using assms(4) rotation_outcomes(1) [OF seal, of env scan t] rotation_outcomes(2) [OF seal assms(2,3), of env t]
    by blast
  then show ?thesis
  proof
    assume rot: "rotates t db db' \<and> seal_inv phys db'"
    then have r: "rotation phys t db db'" using inv rotates_custody_sound by (auto simp: rotation_def)
    have "invocation db' i = invocation db i" using rotationD(4) [OF r] by (simp add: invocation_def same_contents_def)
    moreover have "store_plan env' request db' = store_plan env' request db"
      using rotation_view_same [of t db db'] rot by (simp add: store_plan_def)
    ultimately show ?thesis
      using artifact_same [OF r] session_same [OF r] partition_same [OF r] audit_query_same [OF r] begin_bound_same [OF r]
      by (simp add: audit_records_def)
  qed simp
qed

theorem rotation_is_invisible_witness:
  "artifact sample_rotating (ArtifactRef 9) = artifact sample_db3 (ArtifactRef 9) \<and>
   audit_records sample_rotating (TenantId 1) None 10 = audit_records sample_db3 (TenantId 1) None 10 \<and>
   snd (begin_invocation sample_env sample_intent sample_rotating) = snd (begin_invocation sample_env sample_intent sample_db3)"
proof -
  have "header sample_db3 sample_walk \<noteq> None" by (simp add: sample_headers(1) del: header.simps)
  then have "db_idem sample_db3 (az_tenant (int_authz sample_intent), az_capability (int_authz sample_intent),
      int_idempotency_key sample_intent) \<noteq> None"
    by (auto simp: sample_walk_def sample_intent_def sample_request_def)
  then show ?thesis
    using rotation_is_invisible [OF store_reachable_custody [OF sample_reachable(3)] scans_alike_scanned [OF sample_scans]
        zero_less_one disjI1 [OF sample_rotating_def], of "ArtifactRef 9" 0 0 "[]" "SessionId 0" None 10 "TenantId 1" None]
    by blast
qed

text \<open>C24. A rotation ends: run in batches of any size without a crash, resumed or fresh, it returns, every record
  sealed for the tenant is then under the new key, the old data key is gone, the keyring has the new key
  alone, and no stored content has changed.\<close>
theorem rotation_completes:
  assumes "custody_reachable phys db" and "\<And>n. quiet (env n)" and "0 < batch" and "scans_alike phys scan db"
    and "db_tenants db t = Some r" and "unat (tr_data_key_id r) + 1 < 2 ^ 32"
  shows "\<exists>db' status. rekey_tenant env phys scan t batch db = Some (db', Ok status) \<and> rs_done status \<and>
    (\<forall>k key. owner k = Some t \<longrightarrow> header db' k = Some key \<longrightarrow> key = rs_to_key_id status) \<and>
    (t, rs_from_key_id status) \<notin> db_data_keys db' \<and>
    tenant_keys db' t = Ok \<lparr>kr_active = rs_to_key_id status, kr_retiring = None\<rparr> \<and> same_contents db db'"
  using rekey_completes [of phys db env, OF custody_reachable_sound [OF assms(1)] assms(2-6)]
  unfolding rotated_to_def by blast

theorem rotation_completes_witness:
  "\<exists>db' status. rekey_tenant (\<lambda>_. sample_env) (\<lambda>_. []) sample_scan (TenantId 1) 1 sample_db3 = Some (db', Ok status) \<and>
    header db' sample_walk = Some (rs_to_key_id status)"
proof -
  obtain r where r: "db_tenants sample_db3 (TenantId 1) = Some r" "tr_data_key_id r = 1" by (rule sample_tenant)
  have room: "unat (tr_data_key_id r) + 1 < 2 ^ 32" by (simp add: r(2))
  obtain db' status where run: "rekey_tenant (\<lambda>_. sample_env) (\<lambda>_. []) sample_scan (TenantId 1) 1 sample_db3 = Some (db', Ok status)"
    and new: "\<And>k key. owner k = Some (TenantId 1) \<Longrightarrow> header db' k = Some key \<Longrightarrow> key = rs_to_key_id status"
    and same: "same_contents sample_db3 db'"
    using rotation_completes [where env = "\<lambda>_. sample_env" and batch = 1,
      OF store_reachable_custody [OF sample_reachable(3)] sample_quiet _ sample_scans r(1) room] by auto
  have "present db' sample_walk" using same_contents_present [OF same] sample_present by blast
  then obtain key where "header db' sample_walk = Some key" by (auto simp: sample_walk_def)
  with run new [of sample_walk key] show ?thesis by (auto simp: sample_walk_def)
qed

end
