(* ===== verification/Vault.thy ===== *)
theory Vault
  imports Record_Keys
begin

text \<open>
  The store as bytes (\<^verbatim>\<open>crates/phylake/src/store/mod.rs\<close>) and the rotation of its root key
  (\<^verbatim>\<open>store/root_rotation.rs\<close>).  A keyspace is its entries in key order.  The rkyv decoders of the
  records are parameters, as are the draws from the random source and the order in which a hash set of
  ledgers is visited; a failing database is not modelled.
\<close>

section \<open>Definitions\<close>

subsection \<open>Keyspaces\<close>

type_synonym entries = "(u8 list \<times> u8 list) list"
type_synonym Phys = "Keyspace \<Rightarrow> entries"

fun bytes_less :: "u8 list \<Rightarrow> u8 list \<Rightarrow> bool" where
  "bytes_less _ [] \<longleftrightarrow> False"
| "bytes_less [] (_ # _) \<longleftrightarrow> True"
| "bytes_less (a # as) (b # bs) \<longleftrightarrow> a < b \<or> a = b \<and> bytes_less as bs"

fun entry_put :: "u8 list \<Rightarrow> u8 list \<Rightarrow> entries \<Rightarrow> entries" where
  "entry_put k v [] = [(k, v)]"
| "entry_put k v ((k', v') # rest) =
     (if k = k' then (k, v) # rest
      else if bytes_less k k' then (k, v) # (k', v') # rest
      else (k', v') # entry_put k v rest)"

definition entry_remove :: "u8 list \<Rightarrow> entries \<Rightarrow> entries" where
  "entry_remove k = filter (\<lambda>(k', _). k' \<noteq> k)"

definition tx_insert :: "Keyspace \<Rightarrow> u8 list \<Rightarrow> u8 list \<Rightarrow> Phys \<Rightarrow> Phys" where
  "tx_insert ks k v ph = ph(ks := entry_put k v (ph ks))"

definition tx_remove :: "Keyspace \<Rightarrow> u8 list \<Rightarrow> Phys \<Rightarrow> Phys" where
  "tx_remove ks k ph = ph(ks := entry_remove k (ph ks))"

subsection \<open>Slots\<close>

record Slot =
  sl_keyspace :: Keyspace
  sl_kind :: u8

definition SLOT_TENANT :: Slot where "SLOT_TENANT = \<lparr>sl_keyspace = KsTenants, sl_kind = 1\<rparr>"
definition SLOT_GRANT :: Slot where "SLOT_GRANT = \<lparr>sl_keyspace = KsGrants, sl_kind = 3\<rparr>"
definition SLOT_REVOCATION :: Slot where "SLOT_REVOCATION = \<lparr>sl_keyspace = KsRevocations, sl_kind = 4\<rparr>"
definition SLOT_SESSION :: Slot where "SLOT_SESSION = \<lparr>sl_keyspace = KsSessions, sl_kind = 5\<rparr>"
definition SLOT_INVOCATION :: Slot where "SLOT_INVOCATION = \<lparr>sl_keyspace = KsInvocations, sl_kind = 6\<rparr>"
definition SLOT_LEDGER :: Slot where "SLOT_LEDGER = \<lparr>sl_keyspace = KsLedgers, sl_kind = 8\<rparr>"
definition SLOT_LOCATOR :: Slot where "SLOT_LOCATOR = \<lparr>sl_keyspace = KsArtifacts, sl_kind = 11\<rparr>"
definition SLOT_AUDIT_STUB :: Slot where "SLOT_AUDIT_STUB = \<lparr>sl_keyspace = KsAuditStub, sl_kind = 15\<rparr>"
definition SLOT_REKEY :: Slot where "SLOT_REKEY = \<lparr>sl_keyspace = KsRekey, sl_kind = 16\<rparr>"
definition SLOT_TOMBSTONE :: Slot where "SLOT_TOMBSTONE = \<lparr>sl_keyspace = KsTenants, sl_kind = 17\<rparr>"

lemmas slot_defs = SLOT_TENANT_def SLOT_GRANT_def SLOT_REVOCATION_def SLOT_SESSION_def SLOT_INVOCATION_def SLOT_LEDGER_def
  SLOT_LOCATOR_def SLOT_AUDIT_STUB_def SLOT_REKEY_def SLOT_TOMBSTONE_def

definition seal_context :: "Slot \<Rightarrow> u8 list \<Rightarrow> SealContext" where
  "seal_context slot record_key =
     \<lparr>sc_schema_version = SCHEMA_VERSION, sc_keyspace = sl_keyspace slot, sc_kind = sl_kind slot, sc_record_key = record_key\<rparr>"

definition seal_bytes :: "Crypto \<Rightarrow> SealingKey \<Rightarrow> Slot \<Rightarrow> u8 list \<Rightarrow> u8 list \<Rightarrow> u8 list option \<Rightarrow>
    (u8 list, StoreError) result" where
  "seal_bytes cr key slot record_key plain draw = seal_with cr key (seal_context slot record_key) plain draw"

definition open_bytes :: "Crypto \<Rightarrow> SealingKey list \<Rightarrow> Slot \<Rightarrow> u8 list \<Rightarrow> u8 list \<Rightarrow> (u8 list, StoreError) result" where
  "open_bytes cr keys slot record_key sealed = open_value cr keys (seal_context slot record_key) sealed"

definition decode_record :: "(u8 list \<Rightarrow> 'r option) \<Rightarrow> Slot \<Rightarrow> u8 list \<Rightarrow> ('r, StoreError) result" where
  "decode_record dec slot plain = ok_or (dec plain) (StoreDecode (keyspace_name (sl_keyspace slot)))"

definition get_record :: "Crypto \<Rightarrow> (u8 list \<Rightarrow> 'r option) \<Rightarrow> SealingKey list \<Rightarrow> Slot \<Rightarrow> u8 list \<Rightarrow> Phys \<Rightarrow>
    ('r option, StoreError) result" where
  "get_record cr dec keys slot record_key ph =
     (case map_of (ph (sl_keyspace slot)) record_key of
        None \<Rightarrow> Ok None
      | Some sealed \<Rightarrow>
          rbind (open_bytes cr keys slot record_key sealed) (\<lambda>plain.
          rbind (decode_record dec slot plain) (\<lambda>r. Ok (Some r))))"

definition get_global :: "Crypto \<Rightarrow> (u8 list \<Rightarrow> 'r option) \<Rightarrow> StoreKeys \<Rightarrow> Slot \<Rightarrow> u8 list \<Rightarrow> Phys \<Rightarrow>
    ('r option, StoreError) result" where
  "get_global cr dec keys slot = get_record cr dec [sks_meta keys] slot"

subsection \<open>Creating and opening\<close>

definition INITIAL_ROOT_KEY_ID :: u32 where "INITIAL_ROOT_KEY_ID = 1"

definition meta_fields :: "Phys \<Rightarrow> string \<Rightarrow> u8 list option" where
  "meta_fields ph name = map_of (ph KsMeta) (bytes_of name)"

definition write_meta :: "Meta \<Rightarrow> Phys \<Rightarrow> Phys" where
  "write_meta meta ph =
     tx_insert KsMeta (bytes_of ''key_check'') (meta_check meta)
     (tx_insert KsMeta (bytes_of ''kdf_salt'') (meta_salt meta)
     (tx_insert KsMeta (bytes_of ''active_root_key_id'') (to_le_bytes 4 (meta_root_key_id meta))
     (tx_insert KsMeta (bytes_of ''format'') FORMAT
     (tx_insert KsMeta (bytes_of ''schema_version'') (to_le_bytes 4 SCHEMA_VERSION) ph))))"

record Vault =
  va_phys :: Phys
  va_keys :: StoreKeys

definition vault_create :: "Crypto \<Rightarrow> u8 list \<Rightarrow> u8 list option \<Rightarrow> (Vault, StoreError) result" where
  "vault_create cr root draw =
     rbind (salt_generate draw) (\<lambda>salt.
     let keys = store_keys_derive cr root INITIAL_ROOT_KEY_ID salt; check = store_key_check cr keys in
     Ok \<lparr>va_phys = write_meta \<lparr>meta_root_key_id = INITIAL_ROOT_KEY_ID, meta_salt = salt, meta_check = check\<rparr> (\<lambda>_. []),
         va_keys = keys\<rparr>)"

definition open_unlocked :: "Crypto \<Rightarrow> u8 list \<Rightarrow> Phys \<Rightarrow> (StoreKeys, StoreError) result" where
  "open_unlocked cr root ph =
     rbind (meta_read (meta_fields ph)) (\<lambda>stored.
     store_keys_unlock cr root (meta_root_key_id stored) (meta_salt stored) (meta_check stored))"

definition vault_open :: "Crypto \<Rightarrow> u8 list \<Rightarrow> Phys \<Rightarrow> (Vault, StoreError) result" where
  "vault_open cr root ph = rbind (open_unlocked cr root ph) (\<lambda>keys. Ok \<lparr>va_phys = ph, va_keys = keys\<rparr>)"

subsection \<open>Staging\<close>

record Moves =
  mv_removes :: "(Keyspace \<times> u8 list) list"
  mv_inserts :: "(Keyspace \<times> u8 list \<times> u8 list) list"

definition moves_default :: Moves where "moves_default = \<lparr>mv_removes = [], mv_inserts = []\<rparr>"

definition apply_moves :: "Moves \<Rightarrow> Phys \<Rightarrow> Phys" where
  "apply_moves moves ph =
     fold (\<lambda>(ks, k, v). tx_insert ks k v) (mv_inserts moves) (fold (\<lambda>(ks, k). tx_remove ks k) (mv_removes moves) ph)"

text \<open>Staging threads the moves and the draws that are left.\<close>

type_synonym draws = "u8 list option list"
type_synonym 'a staging = "Moves \<times> draws \<Rightarrow> ('a \<times> Moves \<times> draws, StoreError) result"

definition sbind :: "'a staging \<Rightarrow> ('a \<Rightarrow> 'b staging) \<Rightarrow> 'b staging" where
  "sbind m k s = rbind (m s) (\<lambda>(x, s'). k x s')"

definition slift :: "('a, StoreError) result \<Rightarrow> 'a staging" where
  "slift r s = rbind r (\<lambda>x. Ok (x, s))"

definition next_draw :: "(u8 list option) staging" where
  "next_draw s = (case snd s of [] \<Rightarrow> Ok (None, fst s, []) | d # ds \<Rightarrow> Ok (d, fst s, ds))"

definition push :: "Keyspace \<Rightarrow> u8 list \<Rightarrow> u8 list \<Rightarrow> u8 list \<Rightarrow> unit staging" where
  "push ks old new sealed s =
     Ok ((), \<lparr>mv_removes = mv_removes (fst s) @ [(ks, old)], mv_inserts = mv_inserts (fst s) @ [(ks, new, sealed)]\<rparr>, snd s)"

definition try_open :: "Crypto \<Rightarrow> StoreKeys \<Rightarrow> Slot \<Rightarrow> u8 list \<Rightarrow> u8 list \<Rightarrow> (u8 list option, StoreError) result" where
  "try_open cr keys slot key sealed =
     (case open_bytes cr [sks_meta keys] slot key sealed of
        Ok plain \<Rightarrow> Ok (Some plain)
      | Err (StoreOpen _) \<Rightarrow> Ok None
      | Err (UnknownKeyId _) \<Rightarrow> Ok None
      | Err e \<Rightarrow> Err e)"

definition stage_move :: "Crypto \<Rightarrow> StoreKeys \<Rightarrow> Slot \<Rightarrow> u8 list \<Rightarrow> u8 list \<Rightarrow> u8 list \<Rightarrow> unit staging" where
  "stage_move cr nxt slot old new plain =
     sbind next_draw (\<lambda>draw.
     sbind (slift (seal_bytes cr (sks_meta nxt) slot new plain draw)) (\<lambda>sealed.
     push (sl_keyspace slot) old new sealed))"

subsection \<open>The moves of a rotation\<close>

record RecordCodec =
  cd_tenant :: "u8 list \<Rightarrow> TenantRecord option"
  cd_tombstone :: "u8 list \<Rightarrow> TombstoneRecord option"
  cd_grant :: "u8 list \<Rightarrow> GrantRecord option"
  cd_revocation :: "u8 list \<Rightarrow> RevocationRecord option"
  cd_session :: "u8 list \<Rightarrow> SessionRecord option"
  cd_invocation :: "u8 list \<Rightarrow> InvocationRecord option"
  cd_stub :: "u8 list \<Rightarrow> AuditStubRecord option"
  cd_rekey :: "u8 list \<Rightarrow> RekeyRecord option"
  cd_locator :: "u8 list \<Rightarrow> LocatorRecord option"

record Owners =
  ow_tenants :: "TenantRecord list"
  ow_shredded :: "TenantId list"
  ow_rekeys :: "RekeyRecord list"
  ow_ledgers :: "LedgerId list"

fun move_all :: "Crypto \<Rightarrow> StoreKeys \<Rightarrow> StoreKeys \<Rightarrow> Slot \<Rightarrow> (u8 list \<Rightarrow> 'r option) \<Rightarrow> ('r \<Rightarrow> u8 list \<Rightarrow> u8 list) \<Rightarrow>
    entries \<Rightarrow> 'r list staging" where
  "move_all cr keys nxt slot dec new_key [] = slift (Ok [])"
| "move_all cr keys nxt slot dec new_key ((key, sealed) # rest) =
     sbind (slift (rbind (try_open cr keys slot key sealed) (\<lambda>opened.
       ok_or opened (Inconsistent ''a store-sealed record does not open under the root key'')))) (\<lambda>plain.
     sbind (slift (decode_record dec slot plain)) (\<lambda>r.
     sbind (stage_move cr nxt slot key (new_key r (sks_index nxt)) plain) (\<lambda>_.
     sbind (move_all cr keys nxt slot dec new_key rest) (\<lambda>rs. slift (Ok (r # rs))))))"

fun move_tenants :: "Crypto \<Rightarrow> RecordCodec \<Rightarrow> StoreKeys \<Rightarrow> StoreKeys \<Rightarrow> entries \<Rightarrow> Owners \<Rightarrow> Owners staging" where
  "move_tenants cr codec keys nxt [] owners = slift (Ok owners)"
| "move_tenants cr codec keys nxt ((key, sealed) # rest) owners =
     sbind (slift (try_open cr keys SLOT_TENANT key sealed)) (\<lambda>opened.
     (case opened of
        Some plain \<Rightarrow>
          sbind (slift (decode_record (cd_tenant codec) SLOT_TENANT plain)) (\<lambda>r.
          sbind (stage_move cr nxt SLOT_TENANT key (store_key cr (sks_index nxt) (TenantKey (tr_id r))) plain) (\<lambda>_.
          move_tenants cr codec keys nxt rest
            (owners\<lparr>ow_ledgers := LedgerTenant (tr_id r) # ow_ledgers owners, ow_tenants := ow_tenants owners @ [r]\<rparr>)))
      | None \<Rightarrow>
          sbind (slift (rbind (try_open cr keys SLOT_TOMBSTONE key sealed) (\<lambda>opened.
            ok_or opened (Inconsistent ''a tenants record opens as no known kind'')))) (\<lambda>plain.
          sbind (slift (decode_record (cd_tombstone codec) SLOT_TOMBSTONE plain)) (\<lambda>r.
          sbind (stage_move cr nxt SLOT_TOMBSTONE key (store_key cr (sks_index nxt) (TombstoneKey (tomb_tenant r))) plain) (\<lambda>_.
          move_tenants cr codec keys nxt rest
            (owners\<lparr>ow_ledgers := LedgerTenant (tomb_tenant r) # ow_ledgers owners,
               ow_shredded := ow_shredded owners @ [tomb_tenant r]\<rparr>))))))"

fun move_locators :: "Crypto \<Rightarrow> RecordCodec \<Rightarrow> StoreKeys \<Rightarrow> StoreKeys \<Rightarrow> entries \<Rightarrow> unit staging" where
  "move_locators cr codec keys nxt [] = slift (Ok ())"
| "move_locators cr codec keys nxt ((key, sealed) # rest) =
     sbind (slift (try_open cr keys SLOT_LOCATOR key sealed)) (\<lambda>opened.
     (case opened of
        Some plain \<Rightarrow>
          sbind (slift (decode_record (cd_locator codec) SLOT_LOCATOR plain)) (\<lambda>r.
          sbind (stage_move cr nxt SLOT_LOCATOR key (store_key cr (sks_index nxt) (LocatorKey (loc_artifact r))) plain) (\<lambda>_.
          move_locators cr codec keys nxt rest))
      | None \<Rightarrow> move_locators cr codec keys nxt rest))"

fun move_ledgers :: "Crypto \<Rightarrow> StoreKeys \<Rightarrow> StoreKeys \<Rightarrow> LedgerId list \<Rightarrow> entries \<Rightarrow> unit staging" where
  "move_ledgers cr keys nxt [] ledgers =
     slift (ensure (ledgers = []) (Inconsistent ''a ledger has no grant, session, or tenant'') (Ok ()))"
| "move_ledgers cr keys nxt (ledger # rest) ledgers =
     (let old = store_key cr (sks_index keys) (LedgerKey ledger) in
      (case map_of ledgers old of
         None \<Rightarrow> move_ledgers cr keys nxt rest ledgers
       | Some sealed \<Rightarrow>
           sbind (slift (rbind (try_open cr keys SLOT_LEDGER old sealed) (\<lambda>opened.
             ok_or opened (Inconsistent ''a ledger does not open under the root key'')))) (\<lambda>plain.
           sbind (stage_move cr nxt SLOT_LEDGER old (store_key cr (sks_index nxt) (LedgerKey ledger)) plain) (\<lambda>_.
           move_ledgers cr keys nxt rest (entry_remove old ledgers)))))"

fun move_data_keys :: "Crypto \<Rightarrow> StoreKeys \<Rightarrow> StoreKeys \<Rightarrow> TenantId \<Rightarrow> u32 list \<Rightarrow> entries \<Rightarrow> entries staging" where
  "move_data_keys cr keys nxt t [] wrapped = slift (Ok wrapped)"
| "move_data_keys cr keys nxt t (key_id # rest) wrapped =
     (let old = store_key cr (sks_index keys) (DataKeyKey t key_id) in
      sbind (slift (ok_or (map_of wrapped old) (Inconsistent ''tenant data key is missing''))) (\<lambda>sealed.
      sbind (slift (unwrap_tenant_key cr keys (tenant_to_bytes t) sealed)) (\<lambda>data_key.
      sbind next_draw (\<lambda>draw.
      sbind (slift (wrap_tenant_key cr nxt (tenant_to_bytes t) data_key draw)) (\<lambda>rewrapped.
      sbind (push KsKeys old (store_key cr (sks_index nxt) (DataKeyKey t key_id)) rewrapped) (\<lambda>_.
      move_data_keys cr keys nxt t rest (entry_remove old wrapped)))))))"

definition move_address_keys :: "Crypto \<Rightarrow> StoreKeys \<Rightarrow> StoreKeys \<Rightarrow> TenantId \<Rightarrow> entries \<Rightarrow> entries staging" where
  "move_address_keys cr keys nxt t wrapped =
     (let old = store_key cr (sks_index keys) (AddressKeysKey t) in
      (case map_of wrapped old of
         None \<Rightarrow> slift (Ok wrapped)
       | Some sealed \<Rightarrow>
           sbind (slift (unwrap_address_keys cr keys (tenant_to_bytes t) sealed)) (\<lambda>address.
           sbind next_draw (\<lambda>draw.
           sbind (slift (wrap_address_keys cr nxt (tenant_to_bytes t) address draw)) (\<lambda>rewrapped.
           sbind (push KsKeys old (store_key cr (sks_index nxt) (AddressKeysKey t)) rewrapped) (\<lambda>_.
           slift (Ok (entry_remove old wrapped))))))))"

definition tenant_key_ids :: "RekeyRecord list \<Rightarrow> TenantRecord \<Rightarrow> u32 list" where
  "tenant_key_ids rekeys r =
     tr_data_key_id r # map rk_from_key_id (filter (\<lambda>rekey. rk_tenant rekey = tr_id r \<and> \<not> rk_done rekey) rekeys)"

fun move_wrapped_keys :: "Crypto \<Rightarrow> StoreKeys \<Rightarrow> StoreKeys \<Rightarrow> RekeyRecord list \<Rightarrow> TenantRecord list \<Rightarrow> entries \<Rightarrow> unit staging" where
  "move_wrapped_keys cr keys nxt rekeys [] wrapped =
     slift (ensure (wrapped = []) (Inconsistent ''a wrapped key names no live tenant'') (Ok ()))"
| "move_wrapped_keys cr keys nxt rekeys (r # rest) wrapped =
     sbind (move_data_keys cr keys nxt (tr_id r) (tenant_key_ids rekeys r) wrapped) (\<lambda>wrapped1.
     sbind (move_address_keys cr keys nxt (tr_id r) wrapped1) (\<lambda>wrapped2.
     move_wrapped_keys cr keys nxt rekeys rest wrapped2))"

text \<open>\<open>visit\<close> lists a set of ledgers in the order the hash set gives them.\<close>

definition stage_root_moves :: "Crypto \<Rightarrow> RecordCodec \<Rightarrow> (LedgerId set \<Rightarrow> LedgerId list) \<Rightarrow> StoreKeys \<Rightarrow> StoreKeys \<Rightarrow> Phys \<Rightarrow>
    unit staging" where
  "stage_root_moves cr codec visit keys nxt ph =
     sbind (move_tenants cr codec keys nxt (ph KsTenants) \<lparr>ow_tenants = [], ow_shredded = [], ow_rekeys = [], ow_ledgers = []\<rparr>) (\<lambda>owners.
     sbind (move_all cr keys nxt SLOT_GRANT (cd_grant codec) (\<lambda>r i. store_key cr i (GrantKey (gr_id r))) (ph KsGrants)) (\<lambda>grants.
     sbind (move_all cr keys nxt SLOT_REVOCATION (cd_revocation codec) (\<lambda>r i. store_key cr i (RevocationKey (rr_grant r)))
       (ph KsRevocations)) (\<lambda>_.
     sbind (move_all cr keys nxt SLOT_SESSION (cd_session codec) (\<lambda>r i. store_key cr i (SessionKey (sr_id r)))
       (ph KsSessions)) (\<lambda>sessions.
     sbind (move_all cr keys nxt SLOT_INVOCATION (cd_invocation codec) (\<lambda>r i. store_key cr i (InvocationKey (inv_id r)))
       (ph KsInvocations)) (\<lambda>_.
     sbind (move_all cr keys nxt SLOT_AUDIT_STUB (cd_stub codec) (\<lambda>r i. to_be_bytes 8 (audit_seq_get (stub_seq r)))
       (ph KsAuditStub)) (\<lambda>_.
     sbind (move_all cr keys nxt SLOT_REKEY (cd_rekey codec) (\<lambda>r i. store_key cr i (RekeyKey (rk_tenant r)))
       (ph KsRekey)) (\<lambda>rekeys.
     let owners = owners\<lparr>ow_rekeys := rekeys,
       ow_ledgers := map (\<lambda>r. LedgerSession (sr_id r)) sessions @ map (\<lambda>r. LedgerGrant (gr_id r)) grants @ ow_ledgers owners\<rparr> in
     sbind (move_locators cr codec keys nxt (ph KsArtifacts)) (\<lambda>_.
     sbind (move_ledgers cr keys nxt (visit (set (ow_ledgers owners))) (ph KsLedgers)) (\<lambda>_.
     move_wrapped_keys cr keys nxt (ow_rekeys owners) (ow_tenants owners) (ph KsKeys))))))))))"

subsection \<open>The rotation\<close>

definition rotate_tx :: "Crypto \<Rightarrow> RecordCodec \<Rightarrow> (LedgerId set \<Rightarrow> LedgerId list) \<Rightarrow> u8 list \<Rightarrow> u8 list \<Rightarrow> draws \<Rightarrow> Vault \<Rightarrow>
    (StoreKeys \<times> Phys, StoreError) result" where
  "rotate_tx cr codec visit current nxt draws v =
     (let ph = va_phys v in
      rbind (meta_read (meta_fields ph)) (\<lambda>stored.
      rbind (store_keys_unlock cr current (meta_root_key_id stored) (meta_salt stored) (meta_check stored)) (\<lambda>_.
      rbind (ok_or (checked_add (meta_root_key_id stored) 1) (Inconsistent ''root key ids are exhausted'')) (\<lambda>next_id.
      rbind (next_draw (moves_default, draws)) (\<lambda>(draw, s).
      rbind (salt_generate draw) (\<lambda>salt.
      let next_keys = store_keys_derive cr nxt next_id salt; check = store_key_check cr next_keys in
      rbind (stage_root_moves cr codec visit (va_keys v) next_keys ph s) (\<lambda>(_, moves, _).
      Ok (next_keys, write_meta \<lparr>meta_root_key_id = next_id, meta_salt = salt, meta_check = check\<rparr> (apply_moves moves ph)))))))))"

definition rotate_root :: "Crypto \<Rightarrow> RecordCodec \<Rightarrow> (LedgerId set \<Rightarrow> LedgerId list) \<Rightarrow> Env \<Rightarrow> u8 list \<Rightarrow> u8 list \<Rightarrow> draws \<Rightarrow> Vault \<Rightarrow>
    Vault \<times> (u32, StoreError) result" where
  "rotate_root cr codec visit env current nxt draws v =
     (case rotate_tx cr codec visit current nxt draws v of
        Err e \<Rightarrow> (v, Err e)
      | Ok (next_keys, ph) \<Rightarrow>
          if env_crash env BeforeCommit RootRotation then (v, Err (InjectedCrash RootRotation BeforeCommit))
          else if env_crash env AfterCommit RootRotation
          then (v\<lparr>va_phys := ph\<rparr>, Err (InjectedCrash RootRotation AfterCommit))
          else (\<lparr>va_phys = ph, va_keys = next_keys\<rparr>, Ok (sks_root_key_id next_keys)))"

end
