(* ===== verification/Root_Rotation.thy ===== *)
theory Root_Rotation
  imports Vault
begin

text \<open>
  What the rotation of the root key keeps: every record and wrapped key of the store reads the same
  under the new keys, whatever a crash leaves opens under one of the two root keys, and what tenants
  sealed is not touched.
\<close>

section \<open>Places\<close>

text \<open>What the store keeps under its own keys: a record at a hashed key, or an audit stub at its sequence number.\<close>

datatype Place = Keyed StoreRecordKey | StubAt AuditSeq

fun place_slot :: "Place \<Rightarrow> Slot" where
  "place_slot (Keyed (TenantKey t)) = SLOT_TENANT"
| "place_slot (Keyed (DataKeyKey t i)) = \<lparr>sl_keyspace = KsKeys, sl_kind = 0\<rparr>"
| "place_slot (Keyed (AddressKeysKey t)) = \<lparr>sl_keyspace = KsKeys, sl_kind = 0\<rparr>"
| "place_slot (Keyed (RekeyKey t)) = SLOT_REKEY"
| "place_slot (Keyed (TombstoneKey t)) = SLOT_TOMBSTONE"
| "place_slot (Keyed (GrantKey g)) = SLOT_GRANT"
| "place_slot (Keyed (RevocationKey g)) = SLOT_REVOCATION"
| "place_slot (Keyed (SessionKey s)) = SLOT_SESSION"
| "place_slot (Keyed (InvocationKey i)) = SLOT_INVOCATION"
| "place_slot (Keyed (LedgerKey l)) = SLOT_LEDGER"
| "place_slot (Keyed (LocatorKey a)) = SLOT_LOCATOR"
| "place_slot (StubAt seq) = SLOT_AUDIT_STUB"

abbreviation place_keyspace :: "Place \<Rightarrow> Keyspace" where
  "place_keyspace p \<equiv> sl_keyspace (place_slot p)"

primrec place_key :: "Crypto \<Rightarrow> u8 list \<Rightarrow> Place \<Rightarrow> u8 list" where
  "place_key cr index (Keyed k) = store_key cr index k"
| "place_key cr index (StubAt seq) = to_be_bytes 8 (audit_seq_get seq)"

datatype Content = Plain "u8 list" | DataKey TenantDataKey | Address AddressKeys

fun succeeded :: "('a, StoreError) result \<Rightarrow> 'a option" where
  "succeeded (Ok x) = Some x"
| "succeeded (Err _) = None"

lemma succeeded_Some_iff [simp]: "succeeded r = Some x \<longleftrightarrow> r = Ok x"
  by (cases r) auto

definition wraps :: "Place \<Rightarrow> bool" where
  "wraps p \<longleftrightarrow> (case p of Keyed (DataKeyKey t i) \<Rightarrow> True | Keyed (AddressKeysKey t) \<Rightarrow> True | _ \<Rightarrow> False)"

definition place_content :: "Crypto \<Rightarrow> StoreKeys \<Rightarrow> Place \<Rightarrow> u8 list \<Rightarrow> Content option" where
  "place_content cr keys p b =
     (case p of
        Keyed (DataKeyKey t i) \<Rightarrow> map_option DataKey (succeeded (unwrap_tenant_key cr keys (tenant_to_bytes t) b))
      | Keyed (AddressKeysKey t) \<Rightarrow> map_option Address (succeeded (unwrap_address_keys cr keys (tenant_to_bytes t) b))
      | _ \<Rightarrow> map_option Plain (succeeded
          (open_bytes cr [sks_meta keys] (place_slot p) (place_key cr (sks_index keys) p) b)))"

definition read_place :: "Crypto \<Rightarrow> StoreKeys \<Rightarrow> Phys \<Rightarrow> Place \<Rightarrow> Content option" where
  "read_place cr keys ph p =
     Option.bind (map_of (ph (place_keyspace p)) (place_key cr (sks_index keys) p)) (place_content cr keys p)"

text \<open>Whether a record names the place; a ledger names none.\<close>

fun names :: "RecordCodec \<Rightarrow> Place \<Rightarrow> u8 list \<Rightarrow> bool" where
  "names codec (Keyed (TenantKey t)) plain \<longleftrightarrow> map_option tr_id (cd_tenant codec plain) = Some t"
| "names codec (Keyed (TombstoneKey t)) plain \<longleftrightarrow> map_option tomb_tenant (cd_tombstone codec plain) = Some t"
| "names codec (Keyed (RekeyKey t)) plain \<longleftrightarrow> map_option rk_tenant (cd_rekey codec plain) = Some t"
| "names codec (Keyed (GrantKey g)) plain \<longleftrightarrow> map_option gr_id (cd_grant codec plain) = Some g"
| "names codec (Keyed (RevocationKey g)) plain \<longleftrightarrow> map_option rr_grant (cd_revocation codec plain) = Some g"
| "names codec (Keyed (SessionKey s)) plain \<longleftrightarrow> map_option sr_id (cd_session codec plain) = Some s"
| "names codec (Keyed (InvocationKey i)) plain \<longleftrightarrow> map_option inv_id (cd_invocation codec plain) = Some i"
| "names codec (Keyed (LocatorKey a)) plain \<longleftrightarrow> map_option loc_artifact (cd_locator codec plain) = Some a"
| "names codec (StubAt seq) plain \<longleftrightarrow> map_option stub_seq (cd_stub codec plain) = Some seq"
| "names codec _ plain \<longleftrightarrow> False"

text \<open>A physical store as its operations leave it: a keyspace has one entry for a key, and a record lies at the key of the
  identifier it names.\<close>

definition addressed :: "Crypto \<Rightarrow> RecordCodec \<Rightarrow> StoreKeys \<Rightarrow> Phys \<Rightarrow> bool" where
  "addressed cr codec keys ph \<longleftrightarrow>
     (\<forall>ks. distinct (map fst (ph ks))) \<and>
     (\<forall>p key b plain. (key, b) \<in> set (ph (place_keyspace p)) \<and>
        open_bytes cr [sks_meta keys] (place_slot p) key b = Ok plain \<and> names codec p plain \<longrightarrow>
        key = place_key cr (sks_index keys) p)"

text \<open>The places whose keys are in the store, and that the keyed hash tells them apart, before and after; no new key of
  theirs is in the store.\<close>

definition present :: "Crypto \<Rightarrow> StoreKeys \<Rightarrow> Phys \<Rightarrow> Place set" where
  "present cr keys ph = {p. place_key cr (sks_index keys) p \<in> fst ` set (ph (place_keyspace p))}"

definition no_collision :: "Crypto \<Rightarrow> StoreKeys \<Rightarrow> StoreKeys \<Rightarrow> Phys \<Rightarrow> bool" where
  "no_collision cr keys nxt ph \<longleftrightarrow>
     inj_on (\<lambda>p. (place_keyspace p, place_key cr (sks_index keys) p)) (present cr keys ph) \<and>
     inj_on (\<lambda>p. (place_keyspace p, place_key cr (sks_index nxt) p)) (present cr keys ph) \<and>
     (\<forall>k. Keyed k \<in> present cr keys ph \<longrightarrow>
        store_key cr (sks_index nxt) k \<notin> fst ` set (ph (place_keyspace (Keyed k))))"

section \<open>Keyspaces\<close>

lemma map_of_entry_put: "map_of (entry_put k v xs) = (map_of xs)(k \<mapsto> v)"
  by (induction k v xs rule: entry_put.induct) (auto simp: fun_eq_iff)

lemma map_of_entry_remove: "map_of (entry_remove k xs) = (map_of xs)(k := None)"
  by (induction xs) (auto simp: entry_remove_def fun_eq_iff)

lemma entry_remove_keys: "fst ` set xs \<subseteq> insert k (fst ` set (entry_remove k xs))"
  by (force simp: entry_remove_def)

lemma inserted_lookup:
  "(\<exists>v. (ks, k, v) \<in> set ins \<and> map_of (fold (\<lambda>(ks, k, v). tx_insert ks k v) ins ph ks) k = Some v) \<or>
   (\<forall>v. (ks, k, v) \<notin> set ins) \<and> map_of (fold (\<lambda>(ks, k, v). tx_insert ks k v) ins ph ks) k = map_of (ph ks) k"
proof (induction ins arbitrary: ph)
  case (Cons i ins)
  obtain ks' k' v' where i: "i = (ks', k', v')" by (cases i)
  from Cons.IH [of "tx_insert ks' k' v' ph"] show ?case
    by (auto simp: i tx_insert_def map_of_entry_put split: if_splits)
qed simp

lemma removed_lookup:
  "map_of (fold (\<lambda>(ks, k). tx_remove ks k) rem ph ks) k = (if (ks, k) \<in> set rem then None else map_of (ph ks) k)"
  by (induction rem arbitrary: ph) (auto simp: tx_remove_def map_of_entry_remove split: if_splits)

lemma inserted_other: "ks \<notin> fst ` set ins \<Longrightarrow> fold (\<lambda>(ks, k, v). tx_insert ks k v) ins ph ks = ph ks"
  by (induction ins arbitrary: ph) (auto simp: tx_insert_def)

lemma removed_other: "ks \<notin> fst ` set rem \<Longrightarrow> fold (\<lambda>(ks, k). tx_remove ks k) rem ph ks = ph ks"
  by (induction rem arbitrary: ph) (auto simp: tx_remove_def)

lemma write_meta_other: "ks \<noteq> KsMeta \<Longrightarrow> write_meta meta ph ks = ph ks"
  by (simp add: write_meta_def tx_insert_def)

lemma meta_fields_write: "meta_fields (write_meta meta ph) = meta_write (meta_fields ph) meta"
  by (simp add: fun_eq_iff meta_fields_def write_meta_def meta_write_def tx_insert_def map_of_entry_put bytes_of_inject)

section \<open>Sealing and wrapping anew\<close>

lemma seal_open:
  assumes "aead_correct cr" and "seal_with cr key ctx plain draw = Ok sealed"
  shows "open_value cr [key] ctx sealed = Ok plain"
proof -
  from assms(2) obtain data nonce ct where data: "aad ctx (sk_id key) = Ok data" and n: "length nonce = NONCE_LEN"
    and ct: "cr_encrypt cr (sk_key key) nonce data plain = Some ct"
    and sealed: "sealed = to_le_bytes 2 SEALED_RECORD_VERSION @ to_le_bytes 4 (sk_id key) @ nonce @ ct"
    by (auto simp: seal_with_Ok_iff)
  from aead_correctD [OF assms(1) ct] data n show ?thesis by (simp add: sealed open_value_layout)
qed

lemma unwrap_length: "unwrap_tenant_key cr keys t wrapped = Ok key \<Longrightarrow> length (dk_bytes key) = KEY_LEN"
  by (auto simp: unwrap_tenant_key_def Let_def rbind_Ok_iff ensure_Ok_iff ok_or_Ok_iff)

lemma rewrap_unwrap:
  assumes "aead_correct cr" and "wrap_tenant_key cr keys t key draw = Ok wrapped" and "length (dk_bytes key) = KEY_LEN"
  shows "unwrap_tenant_key cr keys t wrapped = Ok key"
proof -
  from assms(2) obtain nonce ct where n: "length nonce = NONCE_LEN"
    and ct: "cr_encrypt cr (sks_kek keys) nonce (wrap_aad (sks_root_key_id keys) (dk_id key) t) (dk_bytes key) = Some ct"
    and w: "wrapped = to_le_bytes 2 WRAPPED_KEY_VERSION @ to_le_bytes 4 (sks_root_key_id keys) @
        to_le_bytes 4 (dk_id key) @ nonce @ ct" by (auto simp: wrap_tenant_key_Ok_iff)
  from aead_correctD [OF assms(1) ct] assms(3) n show ?thesis by (simp add: w unwrap_layout)
qed

lemma unwrap_address_lengths:
  assumes "unwrap_address_keys cr keys t wrapped = Ok address"
  shows "length (ak_index address) = KEY_LEN" and "length (ak_blob_addr address) = KEY_LEN"
  using assms by (auto simp: unwrap_address_keys_def Let_def rbind_Ok_iff ensure_Ok_iff ok_or_Ok_iff split_first_chunk_Some_iff)

section \<open>Staging\<close>

type_synonym item = "Keyspace \<times> u8 list \<times> u8 list \<times> u8 list"

definition moves_of :: "item list \<Rightarrow> Moves" where
  "moves_of items = \<lparr>mv_removes = map (\<lambda>(ks, old, new, v). (ks, old)) items,
     mv_inserts = map (\<lambda>(ks, old, new, v). (ks, new, v)) items\<rparr>"

text \<open>A staging step only adds moves, and the moves it adds satisfy \<open>Q\<close>.\<close>

definition stages :: "'a staging \<Rightarrow> ('a \<Rightarrow> item list \<Rightarrow> bool) \<Rightarrow> bool" where
  "stages m Q \<longleftrightarrow> (\<forall>items ds x s. m (moves_of items, ds) = Ok (x, s) \<longrightarrow>
     (\<exists>new ds'. s = (moves_of (items @ new), ds') \<and> Q x new))"

lemma stagesD:
  assumes "stages m Q" and "m (moves_of items, ds) = Ok (x, s)"
  obtains new ds' where "s = (moves_of (items @ new), ds')" and "Q x new"
  using assms unfolding stages_def by blast

lemma stages_bind:
  assumes m: "stages m Q" and k: "\<And>x n. Q x n \<Longrightarrow> stages (k x) (\<lambda>y n'. R y (n @ n'))"
  shows "stages (sbind m k) R"
  unfolding stages_def
proof (intro allI impI)
  fix items ds y s
  assume "sbind m k (moves_of items, ds) = Ok (y, s)"
  then obtain x s1 where run: "m (moves_of items, ds) = Ok (x, s1)" "k x s1 = Ok (y, s)"
    by (auto simp: sbind_def rbind_Ok_iff)
  from stagesD [OF m run(1)] obtain n ds1 where s1: "s1 = (moves_of (items @ n), ds1)" "Q x n" .
  from stagesD [OF k [OF s1(2)] run(2) [unfolded s1(1)]] obtain n' ds2 where
    "s = (moves_of ((items @ n) @ n'), ds2)" "R y (n @ n')" .
  then show "\<exists>new ds'. s = (moves_of (items @ new), ds') \<and> R y new" by auto
qed

lemma stages_weaken: "stages m Q \<Longrightarrow> (\<And>x n. Q x n \<Longrightarrow> R x n) \<Longrightarrow> stages m R"
  unfolding stages_def by blast

lemma stages_lift: "(\<And>x. r = Ok x \<Longrightarrow> Q x []) \<Longrightarrow> stages (slift r) Q"
  by (auto simp: stages_def slift_def rbind_Ok_iff intro: exI [of _ "[]"])

lemma stages_draw: "(\<And>d. Q d []) \<Longrightarrow> stages next_draw Q"
  by (auto simp: stages_def next_draw_def intro: exI [of _ "[]"] split: list.splits)

lemma stages_push: "Q () [(ks, old, new, v)] \<Longrightarrow> stages (push ks old new v) Q"
  by (auto simp: stages_def push_def moves_of_def intro!: exI [of _ "[(ks, old, new, v)]"])

lemma stages_lift_bind: "(\<And>x. r = Ok x \<Longrightarrow> stages (k x) R) \<Longrightarrow> stages (sbind (slift r) k) R"
  by (rule stages_bind [where Q = "\<lambda>x n. n = [] \<and> r = Ok x"]) (auto intro: stages_lift)

lemma stages_draw_bind: "(\<And>d. stages (k d) R) \<Longrightarrow> stages (sbind next_draw k) R"
  by (rule stages_bind [where Q = "\<lambda>x n. n = []"]) (auto intro: stages_draw)

lemma stage_move_stages:
  assumes "aead_correct cr"
  shows "stages (stage_move cr nxt slot old new plain)
    (\<lambda>_ n. \<exists>v. n = [(sl_keyspace slot, old, new, v)] \<and> open_bytes cr [sks_meta nxt] slot new v = Ok plain)"
  unfolding stage_move_def
proof (intro stages_draw_bind stages_lift_bind stages_push)
  fix draw sealed
  assume "seal_bytes cr (sks_meta nxt) slot new plain draw = Ok sealed"
  then have "open_bytes cr [sks_meta nxt] slot new sealed = Ok plain"
    using seal_open [OF assms] by (simp add: open_bytes_def seal_bytes_def)
  then show "\<exists>v. [(sl_keyspace slot, old, new, sealed)] = [(sl_keyspace slot, old, new, v)] \<and>
      open_bytes cr [sks_meta nxt] slot new v = Ok plain" by blast
qed

lemma try_open_iff: "try_open cr keys slot key sealed = Ok (Some plain) \<longleftrightarrow> open_bytes cr [sks_meta keys] slot key sealed = Ok plain"
  by (auto simp: try_open_def split: sum.splits StoreError.splits)

lemma try_open_None: "try_open cr keys slot key sealed = Ok None \<Longrightarrow> open_bytes cr [sks_meta keys] slot key sealed \<noteq> Ok plain"
  by (auto simp: try_open_def)

section \<open>What a move carries\<close>

text \<open>A move takes what is at a place from its old key to its new one.\<close>

definition carried :: "Crypto \<Rightarrow> StoreKeys \<Rightarrow> StoreKeys \<Rightarrow> Phys \<Rightarrow> item \<Rightarrow> bool" where
  "carried cr keys nxt ph it \<longleftrightarrow>
     (case it of (ks, old, new, v) \<Rightarrow> \<exists>p b c. ks = place_keyspace p \<and> old = place_key cr (sks_index keys) p \<and>
        new = place_key cr (sks_index nxt) p \<and> map_of (ph ks) old = Some b \<and>
        place_content cr keys p b = Some c \<and> place_content cr nxt p v = Some c)"

text \<open>Moves account for some keys: each carries a place, and each of the keys is moved.\<close>

definition accounts :: "Crypto \<Rightarrow> StoreKeys \<Rightarrow> StoreKeys \<Rightarrow> Phys \<Rightarrow> (Keyspace \<times> u8 list) set \<Rightarrow> item list \<Rightarrow> bool" where
  "accounts cr keys nxt ph cov n \<longleftrightarrow>
     (\<forall>it \<in> set n. carried cr keys nxt ph it) \<and> cov \<subseteq> (\<lambda>(ks, old, new, v). (ks, old)) ` set n"

lemma accounts_Nil: "accounts cr keys nxt ph {} []"
  by (simp add: accounts_def)

lemma accounts_append:
  "accounts cr keys nxt ph A m \<Longrightarrow> accounts cr keys nxt ph B n \<Longrightarrow> accounts cr keys nxt ph (A \<union> B) (m @ n)"
  by (simp add: accounts_def) blast

lemma accounts_one:
  "carried cr keys nxt ph (ks, old, new, v) \<Longrightarrow> accounts cr keys nxt ph {(ks, old)} [(ks, old, new, v)]"
  by (simp add: accounts_def)

lemma accounts_subset: "accounts cr keys nxt ph A n \<Longrightarrow> B \<subseteq> A \<Longrightarrow> accounts cr keys nxt ph B n"
  by (auto simp: accounts_def)

lemma accounts_bind:
  assumes "stages m (\<lambda>_. accounts cr keys nxt ph A)" and "\<And>x. stages (k x) (\<lambda>_. accounts cr keys nxt ph B)"
  shows "stages (sbind m k) (\<lambda>_. accounts cr keys nxt ph (A \<union> B))"
proof (rule stages_bind [OF assms(1)])
  fix x n assume "accounts cr keys nxt ph A n"
  then show "stages (k x) (\<lambda>_ n'. accounts cr keys nxt ph (A \<union> B) (n @ n'))"
    by (intro stages_weaken [OF assms(2)] accounts_append)
qed

lemma accounts_then:
  assumes "stages m (\<lambda>_. accounts cr keys nxt ph A)" and "\<And>x. stages (k x) (\<lambda>_. accounts cr keys nxt ph B)"
    and "C \<subseteq> A \<union> B"
  shows "stages (sbind m k) (\<lambda>_. accounts cr keys nxt ph C)"
  by (rule stages_weaken [OF accounts_bind [OF assms(1,2)]]) (rule accounts_subset [OF _ assms(3)])

lemma addressed_lookup:
  "addressed cr codec keys ph \<Longrightarrow> (key, b) \<in> set (ph ks) \<Longrightarrow> map_of (ph ks) key = Some b"
  by (simp add: addressed_def)

lemma content_record:
  "names codec p plain \<Longrightarrow> place_content cr keys p b =
     map_option Plain (succeeded (open_bytes cr [sks_meta keys] (place_slot p) (place_key cr (sks_index keys) p) b))"
  by (cases "(codec, p, plain)" rule: names.cases) (simp_all add: place_content_def)

lemma carried_record:
  assumes "addressed cr codec keys ph" and "(key, b) \<in> set (ph (place_keyspace p))"
    and "open_bytes cr [sks_meta keys] (place_slot p) key b = Ok plain" and "names codec p plain"
    and "open_bytes cr [sks_meta nxt] (place_slot p) (place_key cr (sks_index nxt) p) v = Ok plain"
  shows "carried cr keys nxt ph (place_keyspace p, key, place_key cr (sks_index nxt) p, v)"
proof -
  have key: "key = place_key cr (sks_index keys) p" using assms(1-4) unfolding addressed_def by blast
  have "map_of (ph (place_keyspace p)) key = Some b" using assms(1,2) by (rule addressed_lookup)
  moreover have "place_content cr keys p b = Some (Plain plain)" "place_content cr nxt p v = Some (Plain plain)"
    using assms(3,5) key by (simp_all add: content_record [OF assms(4)])
  ultimately show ?thesis unfolding carried_def using key by auto
qed

lemma record_move:
  assumes "aead_correct cr" and "addressed cr codec keys ph" and "(key, b) \<in> set (ph (place_keyspace p))"
    and "open_bytes cr [sks_meta keys] (place_slot p) key b = Ok plain" and "names codec p plain"
    and "slot = place_slot p" and "new = place_key cr (sks_index nxt) p"
  shows "stages (stage_move cr nxt slot key new plain) (\<lambda>_. accounts cr keys nxt ph {(sl_keyspace slot, key)})"
  by (rule stages_weaken [OF stage_move_stages [OF assms(1)]])
    (auto simp: assms(6,7) intro!: accounts_one carried_record [OF assms(2-5)])

section \<open>Every key is moved\<close>

lemma move_all_accounts:
  assumes "aead_correct cr" and "addressed cr codec keys ph" and "set es \<subseteq> set (ph (sl_keyspace slot))"
    and slot: "\<And>r. place_slot (pl r) = slot" and new: "\<And>r i. new_key r i = place_key cr i (pl r)"
    and named: "\<And>plain r. dec plain = Some r \<Longrightarrow> names codec (pl r) plain"
  shows "stages (move_all cr keys nxt slot dec new_key es) (\<lambda>_. accounts cr keys nxt ph (Pair (sl_keyspace slot) ` fst ` set es))"
  using assms(3)
proof (induction es)
  case Nil
  then show ?case by (auto intro: stages_lift accounts_Nil)
next
  case (Cons e es)
  obtain key b where e: "e = (key, b)" by force
  have rest: "stages (move_all cr keys nxt slot dec new_key es) (\<lambda>_. accounts cr keys nxt ph (Pair (sl_keyspace slot) ` fst ` set es))"
    using Cons by simp
  have here: "(key, b) \<in> set (ph (sl_keyspace slot))" using Cons.prems e by simp
  have last: "stages (sbind (move_all cr keys nxt slot dec new_key es) (\<lambda>rs. slift (Ok (r # rs))))
      (\<lambda>_. accounts cr keys nxt ph (Pair (sl_keyspace slot) ` fst ` set es))" for r
    by (rule accounts_then [OF rest, where B = "{}"]) (auto intro: stages_lift accounts_Nil)
  have move: "stages (stage_move cr nxt slot key (new_key r (sks_index nxt)) plain) (\<lambda>_. accounts cr keys nxt ph {(sl_keyspace slot, key)})"
    if "open_bytes cr [sks_meta keys] slot key b = Ok plain" "dec plain = Some r" for plain r
    by (rule record_move [OF assms(1,2) _ _ named [OF that(2)] slot [symmetric] new, where b = b])
      (simp_all only: slot here that(1))
  show ?case
    unfolding e move_all.simps
  proof (intro stages_lift_bind)
    fix plain r
    assume "rbind (try_open cr keys slot key b) (\<lambda>opened.
        ok_or opened (Inconsistent ''a store-sealed record does not open under the root key'')) = Ok plain"
      and "decode_record dec slot plain = Ok r"
    then have "open_bytes cr [sks_meta keys] slot key b = Ok plain" "dec plain = Some r"
      by (auto simp: rbind_Ok_iff ok_or_Ok_iff try_open_iff decode_record_def)
    from move [OF this] last show "stages (sbind (stage_move cr nxt slot key (new_key r (sks_index nxt)) plain) (\<lambda>_.
        sbind (move_all cr keys nxt slot dec new_key es) (\<lambda>rs. slift (Ok (r # rs)))))
        (\<lambda>_. accounts cr keys nxt ph (Pair (sl_keyspace slot) ` fst ` set ((key, b) # es)))"
      by (rule accounts_then) auto
  qed
qed

lemma move_tenants_accounts:
  assumes "aead_correct cr" and "addressed cr codec keys ph" and "set es \<subseteq> set (ph KsTenants)"
  shows "stages (move_tenants cr codec keys nxt es owners) (\<lambda>_. accounts cr keys nxt ph (Pair KsTenants ` fst ` set es))"
  using assms(3)
proof (induction es arbitrary: owners)
  case Nil
  then show ?case by (auto intro: stages_lift accounts_Nil)
next
  case (Cons e es)
  obtain key b where e: "e = (key, b)" by force
  have rest: "stages (move_tenants cr codec keys nxt es owners) (\<lambda>_. accounts cr keys nxt ph (Pair KsTenants ` fst ` set es))" for owners
    using Cons by simp
  have here: "(key, b) \<in> set (ph KsTenants)" using Cons.prems e by simp
  have tenant: "stages (stage_move cr nxt SLOT_TENANT key (store_key cr (sks_index nxt) (TenantKey (tr_id r))) plain)
      (\<lambda>_. accounts cr keys nxt ph {(KsTenants, key)})"
    if "open_bytes cr [sks_meta keys] SLOT_TENANT key b = Ok plain" "cd_tenant codec plain = Some r" for plain r
    using record_move [OF assms(1,2), of key b "Keyed (TenantKey (tr_id r))" plain SLOT_TENANT
        "store_key cr (sks_index nxt) (TenantKey (tr_id r))"] here that by (simp add: slot_defs)
  have tombstone: "stages (stage_move cr nxt SLOT_TOMBSTONE key (store_key cr (sks_index nxt) (TombstoneKey (tomb_tenant r))) plain)
      (\<lambda>_. accounts cr keys nxt ph {(KsTenants, key)})"
    if "open_bytes cr [sks_meta keys] SLOT_TOMBSTONE key b = Ok plain" "cd_tombstone codec plain = Some r" for plain r
    using record_move [OF assms(1,2), of key b "Keyed (TombstoneKey (tomb_tenant r))" plain SLOT_TOMBSTONE
        "store_key cr (sks_index nxt) (TombstoneKey (tomb_tenant r))"] here that by (simp add: slot_defs)
  show ?case
    unfolding e move_tenants.simps
    by (rule stages_lift_bind, split option.split)
      (intro conjI impI allI stages_lift_bind accounts_then [OF tenant rest] accounts_then [OF tombstone rest];
        auto simp: rbind_Ok_iff ok_or_Ok_iff try_open_iff decode_record_def)
qed

definition locator_keys :: "Crypto \<Rightarrow> StoreKeys \<Rightarrow> entries \<Rightarrow> u8 list set" where
  "locator_keys cr keys es = {key. \<exists>b plain. (key, b) \<in> set es \<and> open_bytes cr [sks_meta keys] SLOT_LOCATOR key b = Ok plain}"

lemma move_locators_accounts:
  assumes "aead_correct cr" and "addressed cr codec keys ph" and "set es \<subseteq> set (ph KsArtifacts)"
  shows "stages (move_locators cr codec keys nxt es) (\<lambda>_. accounts cr keys nxt ph (Pair KsArtifacts ` locator_keys cr keys es))"
  using assms(3)
proof (induction es)
  case Nil
  then show ?case by (auto simp: locator_keys_def intro: stages_lift accounts_Nil)
next
  case (Cons e es)
  obtain key b where e: "e = (key, b)" by force
  have rest: "stages (move_locators cr codec keys nxt es) (\<lambda>_. accounts cr keys nxt ph (Pair KsArtifacts ` locator_keys cr keys es))"
    using Cons by simp
  have here: "(key, b) \<in> set (ph KsArtifacts)" using Cons.prems e by simp
  have locator: "stages (stage_move cr nxt SLOT_LOCATOR key (store_key cr (sks_index nxt) (LocatorKey (loc_artifact r))) plain)
      (\<lambda>_. accounts cr keys nxt ph {(KsArtifacts, key)})"
    if "open_bytes cr [sks_meta keys] SLOT_LOCATOR key b = Ok plain" "cd_locator codec plain = Some r" for plain r
    using record_move [OF assms(1,2), of key b "Keyed (LocatorKey (loc_artifact r))" plain SLOT_LOCATOR
        "store_key cr (sks_index nxt) (LocatorKey (loc_artifact r))"] here that by (simp add: slot_defs)
  have none: "locator_keys cr keys ((key, b) # es) = locator_keys cr keys es"
    if "try_open cr keys SLOT_LOCATOR key b = Ok None" using try_open_None [OF that] by (auto simp: locator_keys_def)
  have some: "locator_keys cr keys ((key, b) # es) \<subseteq> insert key (locator_keys cr keys es)" by (auto simp: locator_keys_def)
  show ?case
    unfolding e move_locators.simps
    by (rule stages_lift_bind, split option.split)
      (intro conjI impI allI stages_lift_bind accounts_then [OF locator rest];
        auto simp: rbind_Ok_iff ok_or_Ok_iff try_open_iff decode_record_def none rest dest: subsetD [OF some])
qed

lemma map_le_Some: "m \<subseteq>\<^sub>m m' \<Longrightarrow> m k = Some v \<Longrightarrow> m' k = Some v"
  unfolding map_le_def by (metis domI)

lemma move_ledgers_accounts:
  assumes "aead_correct cr" and "map_of es \<subseteq>\<^sub>m map_of (ph KsLedgers)"
  shows "stages (move_ledgers cr keys nxt ls es) (\<lambda>_. accounts cr keys nxt ph (Pair KsLedgers ` fst ` set es))"
  using assms(2)
proof (induction ls arbitrary: es)
  case Nil
  then show ?case by (auto simp: ensure_Ok_iff intro!: stages_lift accounts_Nil)
next
  case (Cons l ls)
  let ?old = "store_key cr (sks_index keys) (LedgerKey l)" and ?new = "store_key cr (sks_index nxt) (LedgerKey l)"
  show ?case
  proof (cases "map_of es ?old")
    case None
    with Cons show ?thesis by simp
  next
    case (Some b)
    have lookup: "map_of (ph KsLedgers) ?old = Some b" using map_le_Some [OF Cons.prems Some] .
    have rest: "stages (move_ledgers cr keys nxt ls (entry_remove ?old es))
        (\<lambda>_. accounts cr keys nxt ph (Pair KsLedgers ` fst ` set (entry_remove ?old es)))"
      using Cons.prems by (intro Cons.IH) (auto simp: map_le_def map_of_entry_remove)
    have move: "stages (stage_move cr nxt SLOT_LEDGER ?old ?new plain) (\<lambda>_. accounts cr keys nxt ph {(KsLedgers, ?old)})"
      if opened: "open_bytes cr [sks_meta keys] SLOT_LEDGER ?old b = Ok plain" for plain
    proof (rule stages_weaken [OF stage_move_stages [OF assms(1)]], elim exE conjE)
      fix n v assume n: "n = [(sl_keyspace SLOT_LEDGER, ?old, ?new, v)]" "open_bytes cr [sks_meta nxt] SLOT_LEDGER ?new v = Ok plain"
      have "carried cr keys nxt ph (KsLedgers, ?old, ?new, v)"
        unfolding carried_def using lookup opened n(2)
        by (auto simp: place_content_def SLOT_LEDGER_def [symmetric] intro!: exI [of _ "Keyed (LedgerKey l)"]) (simp_all add: slot_defs)
      then show "accounts cr keys nxt ph {(KsLedgers, ?old)} n" using accounts_one n(1) by (simp add: slot_defs)
    qed
    show ?thesis
      unfolding move_ledgers.simps Let_def Some option.case
    proof (rule stages_lift_bind)
      fix plain
      assume "rbind (try_open cr keys SLOT_LEDGER ?old b) (\<lambda>opened.
          ok_or opened (Inconsistent ''a ledger does not open under the root key'')) = Ok plain"
      then have "open_bytes cr [sks_meta keys] SLOT_LEDGER ?old b = Ok plain"
        by (auto simp: rbind_Ok_iff ok_or_Ok_iff try_open_iff)
      from move [OF this] rest show "stages (sbind (stage_move cr nxt SLOT_LEDGER ?old ?new plain) (\<lambda>_.
          move_ledgers cr keys nxt ls (entry_remove ?old es))) (\<lambda>_. accounts cr keys nxt ph (Pair KsLedgers ` fst ` set es))"
        by (rule accounts_then) (use entry_remove_keys [of es ?old] in blast)
    qed
  qed
qed

text \<open>The wrapped keys that are left are the entries not moved yet.\<close>

definition leaves :: "Crypto \<Rightarrow> StoreKeys \<Rightarrow> StoreKeys \<Rightarrow> Phys \<Rightarrow> entries \<Rightarrow> entries \<Rightarrow> item list \<Rightarrow> bool" where
  "leaves cr keys nxt ph es es' n \<longleftrightarrow> map_of es' \<subseteq>\<^sub>m map_of es \<and>
     accounts cr keys nxt ph (Pair KsKeys ` (fst ` set es - fst ` set es')) n"

lemma leaves_refl: "leaves cr keys nxt ph es es []"
  by (simp add: leaves_def accounts_Nil)

lemma leaves_trans: "leaves cr keys nxt ph es es1 m \<Longrightarrow> leaves cr keys nxt ph es1 es2 n \<Longrightarrow> leaves cr keys nxt ph es es2 (m @ n)"
  unfolding leaves_def
  by (auto intro: map_le_trans intro!: accounts_subset [OF accounts_append])

lemma leaves_remove:
  assumes "carried cr keys nxt ph (KsKeys, old, new, v)"
  shows "leaves cr keys nxt ph es (entry_remove old es) [(KsKeys, old, new, v)]"
  unfolding leaves_def
  using entry_remove_keys [of es old]
  by (auto simp: map_le_def map_of_entry_remove intro!: accounts_subset [OF accounts_one [OF assms]])

lemma stages_leaves:
  assumes "stages m (leaves cr keys nxt ph es)"
    and "\<And>es'. map_of es' \<subseteq>\<^sub>m map_of es \<Longrightarrow> stages (k es') (leaves cr keys nxt ph es')"
  shows "stages (sbind m k) (leaves cr keys nxt ph es)"
proof (rule stages_bind [OF assms(1)])
  fix es' n assume l: "leaves cr keys nxt ph es es' n"
  then have "map_of es' \<subseteq>\<^sub>m map_of es" by (simp add: leaves_def)
  with l show "stages (k es') (\<lambda>y n'. leaves cr keys nxt ph es y (n @ n'))"
    by (intro stages_weaken [OF assms(2)] leaves_trans)
qed

lemma move_data_keys_leaves:
  assumes "aead_correct cr" and "map_of es \<subseteq>\<^sub>m map_of (ph KsKeys)"
  shows "stages (move_data_keys cr keys nxt t is es) (leaves cr keys nxt ph es)"
  using assms(2)
proof (induction "is" arbitrary: es)
  case Nil
  then show ?case by (auto intro: stages_lift leaves_refl)
next
  case (Cons i "is")
  let ?old = "store_key cr (sks_index keys) (DataKeyKey t i)" and ?new = "store_key cr (sks_index nxt) (DataKeyKey t i)"
  show ?case
    unfolding move_data_keys.simps Let_def
  proof (intro stages_lift_bind stages_draw_bind)
    fix b data_key draw rewrapped
    assume run: "ok_or (map_of es ?old) (Inconsistent ''tenant data key is missing'') = Ok b"
      "unwrap_tenant_key cr keys (tenant_to_bytes t) b = Ok data_key"
      "wrap_tenant_key cr nxt (tenant_to_bytes t) data_key draw = Ok rewrapped"
    have "map_of (ph KsKeys) ?old = Some b" using run(1) map_le_Some [OF Cons.prems] by (auto simp: ok_or_Ok_iff)
    moreover have "unwrap_tenant_key cr nxt (tenant_to_bytes t) rewrapped = Ok data_key"
      by (rule rewrap_unwrap [OF assms(1) run(3) unwrap_length [OF run(2)]])
    ultimately have "carried cr keys nxt ph (KsKeys, ?old, ?new, rewrapped)"
      unfolding carried_def using run(2)
      by (auto simp: place_content_def intro!: exI [of _ "Keyed (DataKeyKey t i)"])
    note one = leaves_remove [OF this, of es]
    have rest: "stages (move_data_keys cr keys nxt t is (entry_remove ?old es)) (leaves cr keys nxt ph (entry_remove ?old es))"
      using Cons.prems by (intro Cons.IH) (auto simp: map_le_def map_of_entry_remove)
    show "stages (sbind (push KsKeys ?old ?new rewrapped) (\<lambda>_. move_data_keys cr keys nxt t is (entry_remove ?old es)))
        (leaves cr keys nxt ph es)"
    proof (rule stages_bind [where Q = "\<lambda>_ n. n = [(KsKeys, ?old, ?new, rewrapped)]"])
      fix n assume n: "n = [(KsKeys, ?old, ?new, rewrapped)]"
      show "stages (move_data_keys cr keys nxt t is (entry_remove ?old es)) (\<lambda>y n'. leaves cr keys nxt ph es y (n @ n'))"
        unfolding n by (rule stages_weaken [OF rest]) (rule leaves_trans [OF one])
    qed (simp add: stages_push)
  qed
qed

lemma move_address_keys_leaves:
  assumes "aead_correct cr" and "map_of es \<subseteq>\<^sub>m map_of (ph KsKeys)"
  shows "stages (move_address_keys cr keys nxt t es) (leaves cr keys nxt ph es)"
proof (cases "map_of es (store_key cr (sks_index keys) (AddressKeysKey t))")
  case None
  then show ?thesis by (auto simp: move_address_keys_def intro: stages_lift leaves_refl)
next
  case (Some b)
  let ?old = "store_key cr (sks_index keys) (AddressKeysKey t)" and ?new = "store_key cr (sks_index nxt) (AddressKeysKey t)"
  have lookup: "map_of (ph KsKeys) ?old = Some b" using map_le_Some [OF assms(2) Some] .
  show ?thesis
    unfolding move_address_keys_def Let_def Some option.case
  proof (intro stages_lift_bind stages_draw_bind)
    fix address draw rewrapped
    assume run: "unwrap_address_keys cr keys (tenant_to_bytes t) b = Ok address"
      "wrap_address_keys cr nxt (tenant_to_bytes t) address draw = Ok rewrapped"
    have "unwrap_address_keys cr nxt (tenant_to_bytes t) rewrapped = Ok address"
      by (rule unwrap_address_roundtrip [OF assms(1) run(2) unwrap_address_lengths [OF run(1)]])
    with lookup run(1) have "carried cr keys nxt ph (KsKeys, ?old, ?new, rewrapped)"
      unfolding carried_def by (auto simp: place_content_def intro!: exI [of _ "Keyed (AddressKeysKey t)"])
    from leaves_remove [OF this] show "stages (sbind (push KsKeys ?old ?new rewrapped) (\<lambda>_. slift (Ok (entry_remove ?old es))))
        (leaves cr keys nxt ph es)"
      by (intro stages_bind [where Q = "\<lambda>_ n. n = [(KsKeys, ?old, ?new, rewrapped)]"] stages_push stages_lift) auto
  qed
qed

lemma move_wrapped_keys_accounts:
  assumes "aead_correct cr" and "map_of es \<subseteq>\<^sub>m map_of (ph KsKeys)"
  shows "stages (move_wrapped_keys cr keys nxt rekeys ts es) (\<lambda>_. accounts cr keys nxt ph (Pair KsKeys ` fst ` set es))"
  using assms(2)
proof (induction ts arbitrary: es)
  case Nil
  then show ?case by (auto simp: ensure_Ok_iff intro!: stages_lift accounts_Nil)
next
  case (Cons r ts)
  show ?case
    unfolding move_wrapped_keys.simps
  proof (rule stages_bind [OF move_data_keys_leaves [OF assms(1), where es = es and ph = ph]])
    show "map_of es \<subseteq>\<^sub>m map_of (ph KsKeys)" by (rule Cons.prems)
    fix es1 n1 assume 1: "leaves cr keys nxt ph es es1 n1"
    then have sub1: "map_of es1 \<subseteq>\<^sub>m map_of (ph KsKeys)" using Cons.prems by (auto simp: leaves_def intro: map_le_trans)
    show "stages (sbind (move_address_keys cr keys nxt (tr_id r) es1) (move_wrapped_keys cr keys nxt rekeys ts))
        (\<lambda>y n'. accounts cr keys nxt ph (Pair KsKeys ` fst ` set es) (n1 @ n'))"
    proof (rule stages_bind [OF move_address_keys_leaves [OF assms(1), where es = es1 and ph = ph]])
      show "map_of es1 \<subseteq>\<^sub>m map_of (ph KsKeys)" by (rule sub1)
      fix es2 n2 assume "leaves cr keys nxt ph es1 es2 n2"
      from leaves_trans [OF 1 this] have 2: "leaves cr keys nxt ph es es2 (n1 @ n2)" .
      then have "map_of es2 \<subseteq>\<^sub>m map_of (ph KsKeys)" using Cons.prems by (auto simp: leaves_def intro: map_le_trans)
      from Cons.IH [OF this] show "stages (move_wrapped_keys cr keys nxt rekeys ts es2)
          (\<lambda>y n'. accounts cr keys nxt ph (Pair KsKeys ` fst ` set es) (n1 @ n2 @ n'))"
      proof (rule stages_weaken)
        fix n' assume "accounts cr keys nxt ph (Pair KsKeys ` fst ` set es2) n'"
        with 2 have "accounts cr keys nxt ph (Pair KsKeys ` (fst ` set es - fst ` set es2) \<union> Pair KsKeys ` fst ` set es2) ((n1 @ n2) @ n')"
          unfolding leaves_def by (blast intro: accounts_append)
        then show "accounts cr keys nxt ph (Pair KsKeys ` fst ` set es) (n1 @ n2 @ n')"
          by (simp, elim accounts_subset) auto
      qed
    qed
  qed
qed

text \<open>The keys a rotation moves: all of the keyspaces the store keeps under its own keys, and the artifact locators.\<close>

definition moved_keyspaces :: "Keyspace set" where
  "moved_keyspaces = {KsTenants, KsGrants, KsRevocations, KsSessions, KsInvocations, KsAuditStub, KsRekey, KsLedgers, KsKeys}"

definition moved_keys :: "Crypto \<Rightarrow> StoreKeys \<Rightarrow> Phys \<Rightarrow> (Keyspace \<times> u8 list) set" where
  "moved_keys cr keys ph =
     {(ks, key). ks \<in> moved_keyspaces \<and> key \<in> fst ` set (ph ks)} \<union> Pair KsArtifacts ` locator_keys cr keys (ph KsArtifacts)"

lemma stage_root_moves_accounts:
  assumes cr: "aead_correct cr" and ph: "addressed cr codec keys ph"
  shows "stages (stage_root_moves cr codec visit keys nxt ph) (\<lambda>_. accounts cr keys nxt ph (moved_keys cr keys ph))"
proof -
  let ?acc = "accounts cr keys nxt ph" and ?all = "\<lambda>ks. Pair ks ` fst ` set (ph ks)"
  have grants: "stages (move_all cr keys nxt SLOT_GRANT (cd_grant codec) (\<lambda>r i. store_key cr i (GrantKey (gr_id r))) (ph KsGrants))
      (\<lambda>_. ?acc (?all KsGrants))"
    using move_all_accounts [OF cr ph, of "ph KsGrants" SLOT_GRANT "\<lambda>r. Keyed (GrantKey (gr_id r))" "\<lambda>r i. store_key cr i (GrantKey (gr_id r))" "cd_grant codec" nxt] by (simp add: slot_defs)
  have revocations: "stages (move_all cr keys nxt SLOT_REVOCATION (cd_revocation codec) (\<lambda>r i. store_key cr i (RevocationKey (rr_grant r)))
      (ph KsRevocations)) (\<lambda>_. ?acc (?all KsRevocations))"
    using move_all_accounts [OF cr ph, of "ph KsRevocations" SLOT_REVOCATION "\<lambda>r. Keyed (RevocationKey (rr_grant r))" "\<lambda>r i. store_key cr i (RevocationKey (rr_grant r))" "cd_revocation codec" nxt] by (simp add: slot_defs)
  have sessions: "stages (move_all cr keys nxt SLOT_SESSION (cd_session codec) (\<lambda>r i. store_key cr i (SessionKey (sr_id r))) (ph KsSessions))
      (\<lambda>_. ?acc (?all KsSessions))"
    using move_all_accounts [OF cr ph, of "ph KsSessions" SLOT_SESSION "\<lambda>r. Keyed (SessionKey (sr_id r))" "\<lambda>r i. store_key cr i (SessionKey (sr_id r))" "cd_session codec" nxt] by (simp add: slot_defs)
  have invocations: "stages (move_all cr keys nxt SLOT_INVOCATION (cd_invocation codec) (\<lambda>r i. store_key cr i (InvocationKey (inv_id r)))
      (ph KsInvocations)) (\<lambda>_. ?acc (?all KsInvocations))"
    using move_all_accounts [OF cr ph, of "ph KsInvocations" SLOT_INVOCATION "\<lambda>r. Keyed (InvocationKey (inv_id r))" "\<lambda>r i. store_key cr i (InvocationKey (inv_id r))" "cd_invocation codec" nxt] by (simp add: slot_defs)
  have stubs: "stages (move_all cr keys nxt SLOT_AUDIT_STUB (cd_stub codec) (\<lambda>r i. to_be_bytes 8 (audit_seq_get (stub_seq r)))
      (ph KsAuditStub)) (\<lambda>_. ?acc (?all KsAuditStub))"
    using move_all_accounts [OF cr ph, of "ph KsAuditStub" SLOT_AUDIT_STUB "\<lambda>r. StubAt (stub_seq r)" "\<lambda>r i. to_be_bytes 8 (audit_seq_get (stub_seq r))" "cd_stub codec" nxt] by (simp add: slot_defs)
  have rekeys: "stages (move_all cr keys nxt SLOT_REKEY (cd_rekey codec) (\<lambda>r i. store_key cr i (RekeyKey (rk_tenant r))) (ph KsRekey))
      (\<lambda>_. ?acc (?all KsRekey))"
    using move_all_accounts [OF cr ph, of "ph KsRekey" SLOT_REKEY "\<lambda>r. Keyed (RekeyKey (rk_tenant r))" "\<lambda>r i. store_key cr i (RekeyKey (rk_tenant r))" "cd_rekey codec" nxt] by (simp add: slot_defs)
  have tenants: "stages (move_tenants cr codec keys nxt (ph KsTenants) owners) (\<lambda>_. ?acc (?all KsTenants))" for owners
    by (rule move_tenants_accounts [OF cr ph]) simp
  have locators: "stages (move_locators cr codec keys nxt (ph KsArtifacts)) (\<lambda>_. ?acc (Pair KsArtifacts ` locator_keys cr keys (ph KsArtifacts)))"
    by (rule move_locators_accounts [OF cr ph]) simp
  have ledgers: "stages (move_ledgers cr keys nxt ls (ph KsLedgers)) (\<lambda>_. ?acc (?all KsLedgers))" for ls
    by (rule move_ledgers_accounts [OF cr]) simp
  have wrapped: "stages (move_wrapped_keys cr keys nxt rks ts (ph KsKeys)) (\<lambda>_. ?acc (?all KsKeys))" for rks ts
    by (rule move_wrapped_keys_accounts [OF cr]) simp
  note part = accounts_bind [OF tenants] accounts_bind [OF grants] accounts_bind [OF revocations] accounts_bind [OF sessions]
    accounts_bind [OF invocations] accounts_bind [OF stubs] accounts_bind [OF rekeys] accounts_bind [OF locators]
    accounts_bind [OF ledgers]
  have "stages (stage_root_moves cr codec visit keys nxt ph) (\<lambda>_. ?acc (?all KsTenants \<union> (?all KsGrants \<union> (?all KsRevocations \<union>
      (?all KsSessions \<union> (?all KsInvocations \<union> (?all KsAuditStub \<union> (?all KsRekey \<union>
      (Pair KsArtifacts ` locator_keys cr keys (ph KsArtifacts) \<union> (?all KsLedgers \<union> ?all KsKeys))))))))))"
    unfolding stage_root_moves_def Let_def by (intro part wrapped)
  then show ?thesis
    by (rule stages_weaken) (erule accounts_subset, auto simp: moved_keys_def moved_keyspaces_def)
qed

section \<open>After the moves\<close>

lemma apply_lookup:
  "(\<exists>old v. (ks, old, k, v) \<in> set items \<and> map_of (apply_moves (moves_of items) ph ks) k = Some v) \<or>
   (\<forall>old v. (ks, old, k, v) \<notin> set items) \<and>
     map_of (apply_moves (moves_of items) ph ks) k =
       (if \<exists>new v. (ks, k, new, v) \<in> set items then None else map_of (ph ks) k)"
proof -
  let ?removed = "fold (\<lambda>(ks, k). tx_remove ks k) (mv_removes (moves_of items)) ph"
  have ins: "(ks, k, v) \<in> set (mv_inserts (moves_of items)) \<longleftrightarrow> (\<exists>old. (ks, old, k, v) \<in> set items)" for v
    by (force simp: moves_of_def)
  have rem: "(ks, k) \<in> set (mv_removes (moves_of items)) \<longleftrightarrow> (\<exists>new v. (ks, k, new, v) \<in> set items)"
    by (force simp: moves_of_def)
  from inserted_lookup [of ks k "mv_inserts (moves_of items)" ?removed]
  show ?thesis unfolding apply_moves_def ins removed_lookup rem by blast
qed

lemma apply_other:
  assumes "\<And>it. it \<in> set items \<Longrightarrow> fst it \<noteq> ks"
  shows "apply_moves (moves_of items) ph ks = ph ks"
proof -
  have "ks \<notin> fst ` set (mv_inserts (moves_of items))" "ks \<notin> fst ` set (mv_removes (moves_of items))"
    using assms by (force simp: moves_of_def)+
  then show ?thesis by (simp add: apply_moves_def inserted_other removed_other)
qed

lemma place_keyspaces: "place_keyspace p \<in> moved_keyspaces \<or> (\<exists>a. p = Keyed (LocatorKey a))"
  by (cases p rule: place_slot.cases) (simp_all add: slot_defs moved_keyspaces_def)

lemma read_moved:
  assumes "read_place cr keys ph p = Some c"
  shows "(place_keyspace p, place_key cr (sks_index keys) p) \<in> moved_keys cr keys ph"
proof -
  from assms obtain b where b: "map_of (ph (place_keyspace p)) (place_key cr (sks_index keys) p) = Some b"
    "place_content cr keys p b = Some c" by (auto simp: read_place_def bind_eq_Some_conv)
  then have "(place_key cr (sks_index keys) p, b) \<in> set (ph (place_keyspace p))" by (auto dest: map_of_SomeD)
  moreover have "\<exists>plain. open_bytes cr [sks_meta keys] SLOT_LOCATOR (place_key cr (sks_index keys) p) b = Ok plain"
    if "p = Keyed (LocatorKey a)" for a using b(2) that by (auto simp: place_content_def)
  ultimately show ?thesis
    using place_keyspaces [of p] by (force simp: moved_keys_def locator_keys_def slot_defs image_iff)
qed

lemma carriedE:
  assumes "carried cr keys nxt ph (ks, old, new, v)"
  obtains p b c where "ks = place_keyspace p" "old = place_key cr (sks_index keys) p" "new = place_key cr (sks_index nxt) p"
    "map_of (ph ks) old = Some b" "place_content cr keys p b = Some c" "place_content cr nxt p v = Some c"
    "p \<in> present cr keys ph"
proof -
  from assms obtain p b c where p: "ks = place_keyspace p" "old = place_key cr (sks_index keys) p"
    "new = place_key cr (sks_index nxt) p" "map_of (ph ks) old = Some b" "place_content cr keys p b = Some c"
    "place_content cr nxt p v = Some c" unfolding carried_def by auto
  from map_of_SomeD [OF p(4)] have "p \<in> present cr keys ph" unfolding present_def using p(1,2) by force
  with p show thesis by (rule that)
qed

text \<open>What was at a place is at its new key.\<close>

lemma moved_reads:
  assumes acc: "accounts cr keys nxt ph (moved_keys cr keys ph) items" and distinct: "no_collision cr keys nxt ph"
    and read: "read_place cr keys ph p = Some c"
  shows "read_place cr nxt (apply_moves (moves_of items) ph) p = Some c"
proof -
  let ?ks = "place_keyspace p" and ?old = "place_key cr (sks_index keys) p" and ?new = "place_key cr (sks_index nxt) p"
  from read obtain b where b: "map_of (ph ?ks) ?old = Some b" "place_content cr keys p b = Some c"
    by (auto simp: read_place_def bind_eq_Some_conv)
  from map_of_SomeD [OF b(1)] have here: "p \<in> present cr keys ph" unfolding present_def by force
  have same_old: "q = p" if "q \<in> present cr keys ph" "place_keyspace q = ?ks" "place_key cr (sks_index keys) q = ?old" for q
    using distinct that here unfolding no_collision_def inj_on_def by auto
  have same_new: "q = p" if "q \<in> present cr keys ph" "place_keyspace q = ?ks" "place_key cr (sks_index nxt) q = ?new" for q
    using distinct that here unfolding no_collision_def inj_on_def by auto
  have carried: "carried cr keys nxt ph it" if "it \<in> set items" for it using acc that by (simp add: accounts_def)
  obtain new v where item: "(?ks, ?old, new, v) \<in> set items"
    using acc read_moved [OF read] by (force simp: accounts_def)
  have "new = ?new" using carried [OF item] by (rule carriedE) (metis same_old)
  with item apply_lookup [of ?ks ?new items ph] obtain old' v' where
    it: "(?ks, old', ?new, v') \<in> set items" "map_of (apply_moves (moves_of items) ph ?ks) ?new = Some v'" by blast
  from carried [OF it(1)] have "place_content cr nxt p v' = Some c"
  proof (rule carriedE)
    fix q b' c' assume q: "?ks = place_keyspace q" "old' = place_key cr (sks_index keys) q" "?new = place_key cr (sks_index nxt) q"
      "map_of (ph ?ks) old' = Some b'" "place_content cr keys q b' = Some c'" "place_content cr nxt q v' = Some c'"
      "q \<in> present cr keys ph"
    have "q = p" using same_new q by simp
    with q b show ?thesis by simp
  qed
  with it(2) show ?thesis by (simp add: read_place_def)
qed

text \<open>A record in \<open>artifacts\<close> that is not a locator of the store stays where it is.\<close>

lemma unmoved_stays:
  assumes acc: "accounts cr keys nxt ph (moved_keys cr keys ph) items" and distinct: "no_collision cr keys nxt ph"
    and b: "map_of (ph KsArtifacts) key = Some b" "\<And>plain. open_bytes cr [sks_meta keys] SLOT_LOCATOR key b \<noteq> Ok plain"
  shows "map_of (apply_moves (moves_of items) ph KsArtifacts) key = Some b"
proof -
  have carried: "carried cr keys nxt ph it" if "it \<in> set items" for it using acc that by (simp add: accounts_def)
  have locator: "\<exists>a. p = Keyed (LocatorKey a)" if "KsArtifacts = place_keyspace p" for p
    using place_keyspaces [of p] that by (auto simp: moved_keyspaces_def)
  have no_old: "(KsArtifacts, key, new, v) \<notin> set items" for new v
  proof
    assume "(KsArtifacts, key, new, v) \<in> set items"
    from carried [OF this] show False
    proof (rule carriedE)
      fix p b' c assume p: "KsArtifacts = place_keyspace p" "key = place_key cr (sks_index keys) p"
        "map_of (ph KsArtifacts) key = Some b'" "place_content cr keys p b' = Some c"
      obtain a where "p = Keyed (LocatorKey a)" using locator [OF p(1)] by blast
      with p b show False by (auto simp: place_content_def)
    qed
  qed
  have no_new: "(KsArtifacts, old, key, v) \<notin> set items" for old v
  proof
    assume "(KsArtifacts, old, key, v) \<in> set items"
    from carried [OF this] show False
    proof (rule carriedE)
      fix p b' c assume p: "KsArtifacts = place_keyspace p" "key = place_key cr (sks_index nxt) p" "p \<in> present cr keys ph"
      obtain a where a: "p = Keyed (LocatorKey a)" using locator [OF p(1)] by blast
      have "\<forall>k. Keyed k \<in> present cr keys ph \<longrightarrow> store_key cr (sks_index nxt) k \<notin> fst ` set (ph (place_keyspace (Keyed k)))"
        using distinct unfolding no_collision_def by blast
      from this [rule_format, of "LocatorKey a"] p a have "key \<notin> fst ` set (ph KsArtifacts)" by (simp add: slot_defs)
      with map_of_SomeD [OF b(1)] show False by force
    qed
  qed
  from apply_lookup [of KsArtifacts key items ph] no_old no_new b(1) show ?thesis by auto
qed

lemma rotate_tx_Ok:
  assumes "aead_correct cr" and "addressed cr codec (va_keys v) (va_phys v)"
    and "rotate_tx cr codec visit current nxt draws v = Ok (keys', ph')"
  obtains meta items where "ph' = write_meta meta (apply_moves (moves_of items) (va_phys v))"
    and "accounts cr (va_keys v) keys' (va_phys v) (moved_keys cr (va_keys v) (va_phys v)) items"
    and "keys' = store_keys_derive cr nxt (meta_root_key_id meta) (meta_salt meta)"
    and "length (meta_salt meta) = 32" and "meta_check meta = store_key_check cr keys'"
proof -
  from assms(3) obtain next_id salt ds moves ds' where salt: "length salt = 32"
    and keys': "keys' = store_keys_derive cr nxt next_id salt"
    and run: "stage_root_moves cr codec visit (va_keys v) keys' (va_phys v) (moves_of [], ds) = Ok ((), moves, ds')"
    and ph': "ph' = write_meta \<lparr>meta_root_key_id = next_id, meta_salt = salt, meta_check = store_key_check cr keys'\<rparr>
        (apply_moves moves (va_phys v))"
    by (auto simp: rotate_tx_def Let_def rbind_Ok_iff salt_generate_def random_array_Ok_iff next_draw_def moves_default_def
        moves_of_def split: list.splits)
  from stagesD [OF stage_root_moves_accounts [OF assms(1,2)] run] obtain items where "moves = moves_of items"
    "accounts cr (va_keys v) keys' (va_phys v) (moved_keys cr (va_keys v) (va_phys v)) items" by (metis append_Nil prod.inject)
  with salt keys' ph' show thesis
    by (intro that [of "\<lparr>meta_root_key_id = next_id, meta_salt = salt, meta_check = store_key_check cr keys'\<rparr>" items]) simp_all
qed

section \<open>Property\<close>

text \<open>C25. A rotation of the root key loses nothing and never locks the store: it either leaves the vault as it was, or
  the database opens under the new root key, also when the process dies right after the commit.
  In that case, unless the keyed hash collides on a key in use, every record of the store, every
  wrapped tenant key and every wrapped pair of addressing keys reads under the new keys what it read
  under the old ones; and every record sealed under a tenant's keys is where it was, byte for byte.\<close>

theorem root_rotation_loses_nothing:
  assumes cr: "aead_correct cr" "\<And>k m. length (cr_hmac cr k m) = 32"
    and v: "addressed cr codec (va_keys v) (va_phys v)"
    and run: "rotate_root cr codec visit env current nxt draws v = (v', r)"
  shows "(\<exists>e. r = Err e) \<and> v' = v \<or>
    (\<exists>keys'. open_unlocked cr nxt (va_phys v') = Ok keys' \<and>
      (r = Ok (sks_root_key_id keys') \<and> va_keys v' = keys' \<or> r = Err (InjectedCrash RootRotation AfterCommit)) \<and>
      (\<forall>ks \<in> {KsIdem, KsBlobs, KsSessionIndex, KsAudit}. va_phys v' ks = va_phys v ks) \<and>
      (no_collision cr (va_keys v) keys' (va_phys v) \<longrightarrow>
        (\<forall>p c. read_place cr (va_keys v) (va_phys v) p = Some c \<longrightarrow> read_place cr keys' (va_phys v') p = Some c) \<and>
        (\<forall>key b. map_of (va_phys v KsArtifacts) key = Some b \<and>
          (\<forall>plain. open_bytes cr [sks_meta (va_keys v)] SLOT_LOCATOR key b \<noteq> Ok plain) \<longrightarrow>
          map_of (va_phys v' KsArtifacts) key = Some b)))"
proof (cases "rotate_tx cr codec visit current nxt draws v")
  case (Inl e)
  with run show ?thesis by (auto simp: rotate_root_def)
next
  case (Inr res)
  obtain keys' ph' where tx: "rotate_tx cr codec visit current nxt draws v = Ok (keys', ph')" using Inr by (cases res) auto
  show ?thesis
  proof (cases "env_crash env BeforeCommit RootRotation")
    case True
    with run tx show ?thesis by (auto simp: rotate_root_def)
  next
    case False
    with run tx have v': "va_phys v' = ph'"
      "r = Ok (sks_root_key_id keys') \<and> va_keys v' = keys' \<or> r = Err (InjectedCrash RootRotation AfterCommit)"
      by (auto simp: rotate_root_def split: if_splits)
    from rotate_tx_Ok [OF cr(1) v tx] obtain meta items where ph': "ph' = write_meta meta (apply_moves (moves_of items) (va_phys v))"
      and acc: "accounts cr (va_keys v) keys' (va_phys v) (moved_keys cr (va_keys v) (va_phys v)) items"
      and keys': "keys' = store_keys_derive cr nxt (meta_root_key_id meta) (meta_salt meta)"
      and meta: "length (meta_salt meta) = 32" "meta_check meta = store_key_check cr keys'" .
    have "length (meta_check meta) = 32" using meta(2) cr(2) by (simp add: store_key_check_def)
    with meta keys' have opens: "open_unlocked cr nxt ph' = Ok keys'"
      by (simp add: open_unlocked_def ph' meta_fields_write meta_roundtrip unlock_exact)
    have there: "fst it \<in> insert KsArtifacts moved_keyspaces" if "it \<in> set items" for it
    proof -
      obtain ks old new w where it: "it = (ks, old, new, w)" by (cases it)
      have "carried cr (va_keys v) keys' (va_phys v) (ks, old, new, w)" using acc that it by (simp add: accounts_def)
      then obtain p where "ks = place_keyspace p" by (rule carriedE)
      with place_keyspaces [of p] show ?thesis by (auto simp: it slot_defs)
    qed
    have other: "ph' ks = va_phys v ks" if "ks \<in> {KsIdem, KsBlobs, KsSessionIndex, KsAudit}" for ks
    proof -
      have "fst it \<noteq> ks" if "it \<in> set items" for it
        using there [OF that] \<open>ks \<in> {KsIdem, KsBlobs, KsSessionIndex, KsAudit}\<close> by (auto simp: moved_keyspaces_def)
      then have "apply_moves (moves_of items) (va_phys v) ks = va_phys v ks" by (rule apply_other)
      with that show ?thesis by (auto simp: ph' write_meta_other)
    qed
    have not_meta: "place_keyspace p \<noteq> KsMeta" for p
      using place_keyspaces [of p] by (auto simp: moved_keyspaces_def slot_defs)
    have reads: "read_place cr keys' ph' p = Some c"
      if "no_collision cr (va_keys v) keys' (va_phys v)" "read_place cr (va_keys v) (va_phys v) p = Some c" for p c
      using moved_reads [OF acc that] by (simp add: read_place_def ph' write_meta_other not_meta)
    have stays: "map_of (ph' KsArtifacts) key = Some b"
      if "no_collision cr (va_keys v) keys' (va_phys v)" "map_of (va_phys v KsArtifacts) key = Some b"
        "\<And>plain. open_bytes cr [sks_meta (va_keys v)] SLOT_LOCATOR key b \<noteq> Ok plain" for key b
      using unmoved_stays [OF acc that] by (simp add: ph' write_meta_other)
    show ?thesis using v' opens other reads stays by (intro disjI2 exI [of _ keys']) auto
  qed
qed

text \<open>A vault with one session, under a cipher that pads and a hash that keeps the first byte of its key.\<close>

definition root_crypto :: Crypto where
  "root_crypto = pad_crypto\<lparr>cr_expand := (\<lambda>prk info. prk), cr_hmac := (\<lambda>key msg. take 32 (take 1 key @ rev msg @ replicate 32 0))\<rparr>"

definition first_keys :: StoreKeys where
  "first_keys = store_keys_derive root_crypto [1] 1 (replicate 32 7)"

definition session_at :: Place where "session_at = Keyed (SessionKey (SessionId 5))"

definition session_sealed :: "u8 list" where
  "session_sealed = projr (seal_bytes root_crypto (sks_meta first_keys) SLOT_SESSION
     (place_key root_crypto (sks_index first_keys) session_at) [42] (Some (replicate 24 0)))"

definition session_vault :: Vault where
  "session_vault = \<lparr>va_phys = (write_meta \<lparr>meta_root_key_id = 1, meta_salt = replicate 32 7, meta_check = store_key_check root_crypto first_keys\<rparr>
       (\<lambda>_. []))(KsSessions := [(place_key root_crypto (sks_index first_keys) session_at, session_sealed)]),
     va_keys = first_keys\<rparr>"

definition session_codec :: RecordCodec where
  "session_codec = \<lparr>cd_tenant = (\<lambda>_. None), cd_tombstone = (\<lambda>_. None), cd_grant = (\<lambda>_. None), cd_revocation = (\<lambda>_. None),
     cd_session = (\<lambda>_. Some \<lparr>sr_id = SessionId 5, sr_owner = TenantId 1, sr_parent = None, sr_ceilings = ceilings_default,
       sr_created_at = 0\<rparr>),
     cd_invocation = (\<lambda>_. None), cd_stub = (\<lambda>_. None), cd_rekey = (\<lambda>_. None), cd_locator = (\<lambda>_. None)\<rparr>"

lemma root_crypto_correct: "aead_correct root_crypto" "length (cr_hmac root_crypto k m) = 32"
  using pad_correct by (simp_all add: root_crypto_def aead_correct_def pad_crypto_def TAG_LEN_def)

lemma session_seals:
  assumes "length key < 2 ^ 16"
  shows "\<exists>sealed. seal_bytes root_crypto k SLOT_SESSION key [42] (Some (replicate 24 0)) = Ok sealed"
proof -
  obtain data where "aad (seal_context SLOT_SESSION key) (sk_id k) = Ok data"
    using assms by (auto simp: aad_Ok_iff seal_context_def)
  then show ?thesis
    by (simp add: seal_bytes_def seal_with_Ok_iff root_crypto_def pad_crypto_def NONCE_LEN_def MAX_PLAINTEXT_LEN_def)
qed

lemma root_key_length: "length (store_key root_crypto index k) = 32"
  by (simp add: store_key_def keyed_def keyed_hash_def root_crypto_correct(2))

lemma session_opens: "open_bytes root_crypto [sks_meta first_keys] SLOT_SESSION
    (store_key root_crypto (sks_index first_keys) (SessionKey (SessionId 5))) session_sealed = Ok [42]"
proof -
  let ?key = "store_key root_crypto (sks_index first_keys) (SessionKey (SessionId 5))"
  obtain sealed where "seal_bytes root_crypto (sks_meta first_keys) SLOT_SESSION ?key [42] (Some (replicate 24 0)) = Ok sealed"
    using session_seals [of ?key "sks_meta first_keys"] by (auto simp: root_key_length)
  moreover from this have "session_sealed = sealed" by (simp add: session_sealed_def session_at_def)
  ultimately show ?thesis using seal_open [OF root_crypto_correct(1)] by (simp add: open_bytes_def seal_bytes_def)
qed

lemma session_place: "place_keyspace p = KsSessions \<Longrightarrow> \<exists>s. p = Keyed (SessionKey s)"
  by (cases p rule: place_slot.cases) (simp_all add: slot_defs)

lemma vault_entries:
  "ks \<noteq> KsMeta \<Longrightarrow> va_phys session_vault ks =
     (if ks = KsSessions then [(store_key root_crypto (sks_index first_keys) (SessionKey (SessionId 5)), session_sealed)] else [])"
  by (simp add: session_vault_def write_meta_other session_at_def)

lemma place_not_meta: "place_keyspace p \<noteq> KsMeta"
  using place_keyspaces [of p] by (auto simp: moved_keyspaces_def slot_defs)

lemma root_key_inject:
  "store_key root_crypto [x] (SessionKey s) = store_key root_crypto [x] (SessionKey s') \<longleftrightarrow> s = s'"
proof
  assume eq: "store_key root_crypto [x] (SessionKey s) = store_key root_crypto [x] (SessionKey s')"
  have key: "\<exists>tail. store_key root_crypto [x] (SessionKey s) = x # rev (session_to_bytes s) @ tail" for s
  proof -
    have "store_key root_crypto [x] (SessionKey s) = take 32 (x # rev (session_to_bytes s) @ rev (bytes_of ''dioptron/v1/key/'' @ bytes_of ''session'' @
        to_le_bytes 4 (16 :: u32)) @ replicate 32 0)"
      by (simp add: store_key_def keyed_def keyed_hash_def keyed_input_def part_bytes_def root_crypto_def length_session_to_bytes)
    then show ?thesis by (simp add: length_session_to_bytes take_Cons')
  qed
  from eq key [of s] key [of s'] have "rev (session_to_bytes s) = rev (session_to_bytes s')"
    by (auto simp: append_eq_append_conv length_session_to_bytes)
  then show "s = s'" by (simp add: session_to_bytes_inject)
qed simp

lemma vault_present: "present root_crypto first_keys (va_phys session_vault) = {session_at}"
proof -
  have index: "sks_index first_keys = [1]" by (simp add: first_keys_def store_keys_derive_def Let_def root_crypto_def pad_crypto_def)
  have "p \<in> present root_crypto first_keys (va_phys session_vault) \<longleftrightarrow> p = session_at" for p
    using session_place [of p] place_not_meta [of p]
    by (auto simp: present_def vault_entries session_at_def index root_key_inject slot_defs split: if_splits)
  then show ?thesis by blast
qed

lemma vault_addressed: "addressed root_crypto session_codec first_keys (va_phys session_vault)"
proof -
  have "distinct (map fst (va_phys session_vault ks))" for ks
    by (cases "ks = KsMeta") (simp_all add: vault_entries, simp add: session_vault_def write_meta_def tx_insert_def bytes_of_def)
  moreover have "key = place_key root_crypto (sks_index first_keys) p"
    if "(key, b) \<in> set (va_phys session_vault (place_keyspace p))" "names session_codec p plain" for p key b plain
    using that session_place [of p] place_not_meta [of p]
    by (auto simp: vault_entries session_codec_def split: if_splits)
  ultimately show ?thesis unfolding addressed_def by blast
qed

lemma vault_rotates:
  "\<exists>v'. rotate_root root_crypto session_codec (\<lambda>_. [LedgerSession (SessionId 5)]) calm [1] [2]
     [Some (replicate 32 8), Some (replicate 24 0)] session_vault = (v', Ok 2) \<and> sks_index (va_keys v') = [2]"
  if "\<And>phase b. \<not> env_crash calm phase b"
proof -
  let ?next = "store_keys_derive root_crypto [2] 2 (replicate 32 8)"
  have meta: "meta_read (meta_fields (va_phys session_vault)) =
      Ok \<lparr>meta_root_key_id = 1, meta_salt = replicate 32 7, meta_check = store_key_check root_crypto first_keys\<rparr>"
  proof -
    have "meta_fields (va_phys session_vault) = meta_write (meta_fields (\<lambda>_. []))
        \<lparr>meta_root_key_id = 1, meta_salt = replicate 32 7, meta_check = store_key_check root_crypto first_keys\<rparr>"
      unfolding meta_fields_write [symmetric] by (simp add: meta_fields_def fun_eq_iff session_vault_def)
    then show ?thesis by (simp add: meta_roundtrip store_key_check_def root_crypto_correct(2))
  qed
  obtain sealed where sealed: "seal_bytes root_crypto (sks_meta ?next) SLOT_SESSION
      (store_key root_crypto (sks_index ?next) (SessionKey (SessionId 5))) [42] (Some (replicate 24 0)) = Ok sealed"
    using session_seals [of "store_key root_crypto (sks_index ?next) (SessionKey (SessionId 5))" "sks_meta ?next"]
    by (auto simp: root_key_length)
  have opened: "try_open root_crypto first_keys SLOT_SESSION
      (store_key root_crypto (sks_index first_keys) (SessionKey (SessionId 5))) session_sealed = Ok (Some [42])"
    using session_opens by (simp add: try_open_iff)
  have keys: "va_keys session_vault = first_keys" by (simp add: session_vault_def)
  have staged: "\<exists>moves ds. stage_root_moves root_crypto session_codec (\<lambda>_. [LedgerSession (SessionId 5)]) first_keys ?next
      (va_phys session_vault) (moves_default, [Some (replicate 24 0)]) = Ok ((), moves, ds)"
    using sealed opened
    by (simp add: stage_root_moves_def Let_def sbind_def slift_def vault_entries stage_move_def next_draw_def push_def
        decode_record_def session_codec_def ok_or_def ensure_def)
  have unlock: "store_keys_unlock root_crypto [1] 1 (replicate 32 7) (store_key_check root_crypto first_keys) = Ok first_keys"
    by (simp add: unlock_exact first_keys_def)
  have "checked_add (1 :: u32) 1 = Some 2" by (simp add: arith_defs)
  with staged meta unlock keys that show ?thesis
    by (auto simp: rotate_root_def rotate_tx_def Let_def next_draw_def salt_generate_def random_array_def ok_or_def ensure_def
        store_keys_derive_def root_crypto_def pad_crypto_def)
qed

lemma vault_reads: "read_place root_crypto first_keys (va_phys session_vault) session_at = Some (Plain [42])"
  using session_opens by (simp add: read_place_def place_content_def session_at_def vault_entries slot_defs)

lemma vault_no_collision:
  assumes "sks_index nxt = [2]"
  shows "no_collision root_crypto first_keys nxt (va_phys session_vault)"
proof -
  have index: "sks_index first_keys = [1]" by (simp add: first_keys_def store_keys_derive_def Let_def root_crypto_def pad_crypto_def)
  have "hd (store_key root_crypto [x] k) = x" for x k
    by (simp add: store_key_def keyed_def keyed_hash_def root_crypto_def)
  from this [of 1 "SessionKey (SessionId 5)"] this [of 2 "SessionKey (SessionId 5)"]
  have "store_key root_crypto [2] (SessionKey (SessionId 5)) \<noteq> store_key root_crypto (sks_index first_keys) (SessionKey (SessionId 5))"
    unfolding index by auto
  with assms show ?thesis
    by (auto simp: no_collision_def vault_present session_at_def vault_entries slot_defs)
qed

definition calm_env :: Env where
  "calm_env = \<lparr>env_now = 0, env_crash = (\<lambda>_ _. False), env_sha256 = (\<lambda>b. b), env_blob_address = (\<lambda>_ b. b)\<rparr>"

theorem root_rotation_loses_nothing_witness:
  "\<exists>v'. rotate_root root_crypto session_codec (\<lambda>_. [LedgerSession (SessionId 5)]) calm_env [1] [2]
     [Some (replicate 32 8), Some (replicate 24 0)] session_vault = (v', Ok 2) \<and>
     open_unlocked root_crypto [2] (va_phys v') = Ok (va_keys v') \<and>
     read_place root_crypto (va_keys v') (va_phys v') session_at = Some (Plain [42])"
proof -
  have keys: "va_keys session_vault = first_keys" by (simp add: session_vault_def)
  obtain v' where v': "rotate_root root_crypto session_codec (\<lambda>_. [LedgerSession (SessionId 5)]) calm_env [1] [2]
     [Some (replicate 32 8), Some (replicate 24 0)] session_vault = (v', Ok 2)" "sks_index (va_keys v') = [2]"
    using vault_rotates [of calm_env] by (auto simp: calm_env_def)
  note result = root_rotation_loses_nothing [OF root_crypto_correct vault_addressed [folded keys] v'(1), unfolded keys]
  then have opens: "open_unlocked root_crypto [2] (va_phys v') = Ok (va_keys v')"
    and reads: "no_collision root_crypto first_keys (va_keys v') (va_phys session_vault) \<Longrightarrow>
      read_place root_crypto (va_keys v') (va_phys v') session_at = Some (Plain [42])"
    using vault_reads by auto
  with v' vault_no_collision [OF v'(2)] show ?thesis by blast
qed

end
