(* ===== verification/Transport.thy ===== *)
theory Transport
  imports Wire
begin

text \<open>
  Frames over a socket: the bounded, timed frame input and output of the server
  (\<^verbatim>\<open>crates/dioptron/src/server/frame.rs\<close>) and the client's independent codec
  (\<^verbatim>\<open>crates/xenos/src/frame.rs\<close>).

  A link is one end of a connection: its clock, what will arrive and when, what was sent, and how the
  following write calls will go.  A read call waits for the first arrival and takes what is there by then; an
  operation that a timer bounds gives up at that instant.  Instants and durations count
  nanoseconds; \<open>ln_last\<close> is the last instant the platform's clock can represent.
\<close>

section \<open>Definitions\<close>

subsection \<open>Links\<close>

datatype Incoming = Byte u8 | Eof | Reset | Interrupted | Failing

datatype Accept = Takes nat | WriteInterrupted | WriteFailing

record Link =
  ln_now :: nat
  ln_last :: nat
  ln_in :: "(nat \<times> Incoming) list"
  ln_out :: "u8 list"
  ln_writes :: "(nat \<times> Accept) list"

datatype ReadOutcome = Got "u8 list" | AtEof | WasReset | WasInterrupted | ReadError | ReadTimedOut | Silent

datatype WriteOutcome = Wrote nat | WasWriteInterrupted | WriteError | WriteTimedOut

fun ready :: "nat \<Rightarrow> nat \<Rightarrow> (nat \<times> Incoming) list \<Rightarrow> u8 list \<times> (nat \<times> Incoming) list" where
  "ready at (Suc n) ((t, Byte b) # rest) =
     (if t \<le> at then (let (bs, rest') = ready at n rest in (b # bs, rest')) else ([], (t, Byte b) # rest))"
| "ready at n input = ([], input)"

text \<open>One read call for at most \<open>n\<close> bytes, given up at \<open>until\<close>; \<open>Silent\<close> never returns.\<close>

definition sys_read :: "Link \<Rightarrow> nat option \<Rightarrow> nat \<Rightarrow> Link \<times> ReadOutcome" where
  "sys_read ln until n =
     (case ln_in ln of
        [] \<Rightarrow> (case until of None \<Rightarrow> (ln, Silent) | Some u \<Rightarrow> (ln\<lparr>ln_now := max (ln_now ln) u\<rparr>, ReadTimedOut))
      | (t, x) # rest \<Rightarrow>
          let at = max (ln_now ln) t;
              late = (case until of None \<Rightarrow> False | Some u \<Rightarrow> max (ln_now ln) u < at) in
          if late then (ln\<lparr>ln_now := max (ln_now ln) (the until)\<rparr>, ReadTimedOut)
          else (case x of
              Byte b \<Rightarrow> (let (bs, rest') = ready at n (ln_in ln) in (ln\<lparr>ln_now := at, ln_in := rest'\<rparr>, Got bs))
            | Eof \<Rightarrow> (ln\<lparr>ln_now := at\<rparr>, AtEof)
            | Reset \<Rightarrow> (ln\<lparr>ln_now := at\<rparr>, WasReset)
            | Interrupted \<Rightarrow> (ln\<lparr>ln_now := at, ln_in := rest\<rparr>, WasInterrupted)
            | Failing \<Rightarrow> (ln\<lparr>ln_now := at\<rparr>, ReadError)))"

text \<open>One write call; with nothing scripted the peer takes everything at once.\<close>

definition sys_write :: "Link \<Rightarrow> nat \<Rightarrow> u8 list \<Rightarrow> Link \<times> WriteOutcome" where
  "sys_write ln until bytes =
     (case ln_writes ln of
        [] \<Rightarrow> (ln\<lparr>ln_out := ln_out ln @ bytes\<rparr>, Wrote (length bytes))
      | (d, a) # rest \<Rightarrow>
          let at = ln_now ln + d in
          if max (ln_now ln) until < at then (ln\<lparr>ln_now := max (ln_now ln) until\<rparr>, WriteTimedOut)
          else (let ln' = ln\<lparr>ln_now := at, ln_writes := rest\<rparr> in
            (case a of
               Takes k \<Rightarrow> (ln'\<lparr>ln_out := ln_out ln @ take k bytes\<rparr>, Wrote (min k (length bytes)))
             | WriteInterrupted \<Rightarrow> (ln', WasWriteInterrupted)
             | WriteFailing \<Rightarrow> (ln', WriteError))))"

text \<open>\<open>after\<close> of the server and \<open>deadline_after\<close> of the client: an instant the clock cannot represent is now.\<close>

definition instant_after :: "Link \<Rightarrow> nat \<Rightarrow> nat" where
  "instant_after ln d = (if ln_now ln + d \<le> ln_last ln then ln_now ln + d else ln_now ln)"

definition millis :: "nat \<Rightarrow> nat" where "millis n = n * 1000000"

datatype IoError = UnexpectedEof | ConnectionReset | InterruptedIo | OtherIo | TimedOutIo | WriteZero

subsection \<open>Operations on a link\<close>

text \<open>
  An operation under an enclosing timer yields \<open>None\<close> when it has not finished at that instant.
  \<open>lbind\<close> is the early return of a fallible operation.
\<close>

type_synonym ('a, 'e) io = "Link \<Rightarrow> Link \<times> ('a, 'e) result option"

definition lreturn :: "('a, 'e) result \<Rightarrow> ('a, 'e) io" where
  "lreturn r ln = (ln, Some r)"

definition lbind :: "('a, 'e) io \<Rightarrow> ('a \<Rightarrow> ('b, 'e) io) \<Rightarrow> ('b, 'e) io" where
  "lbind m k ln =
     (case m ln of
        (ln', None) \<Rightarrow> (ln', None)
      | (ln', Some (Err e)) \<Rightarrow> (ln', Some (Err e))
      | (ln', Some (Ok x)) \<Rightarrow> k x ln')"

definition lmap_err :: "('e \<Rightarrow> 'f) \<Rightarrow> ('a, 'e) io \<Rightarrow> ('a, 'f) io" where
  "lmap_err f m ln = (case m ln of (ln', r) \<Rightarrow> (ln', map_option (map_err f) r))"

subsection \<open>The server's frames\<close>

record Frame =
  fr_header :: FrameHeader
  fr_body :: "u8 list"

datatype ReadFail = Closed | Io IoError | Timeout | Header WireError

definition timer_bound :: "nat option \<Rightarrow> nat \<Rightarrow> nat" where
  "timer_bound outer deadline = (case outer of None \<Rightarrow> deadline | Some limit \<Rightarrow> min limit deadline)"

definition timer_fired :: "nat option \<Rightarrow> nat \<Rightarrow> 'e \<Rightarrow> ('a, 'e) result option" where
  "timer_fired outer deadline e =
     (case outer of None \<Rightarrow> Some (Err e) | Some limit \<Rightarrow> if limit < deadline then None else Some (Err e))"

text \<open>\<open>read_exact\<close> under a deadline; a silent peer runs into it.\<close>

function read_exact :: "nat option \<Rightarrow> nat \<Rightarrow> nat \<Rightarrow> (u8 list, ReadFail) io" where
  "read_exact outer deadline n ln =
     (if n = 0 then (ln, Some (Ok []))
      else (case sys_read ln (Some (timer_bound outer deadline)) n of
          (ln', Got bs) \<Rightarrow>
            (case read_exact outer deadline (n - length bs) ln' of
               (ln'', Some (Ok tail)) \<Rightarrow> (ln'', Some (Ok (bs @ tail)))
             | (ln'', r) \<Rightarrow> (ln'', r))
        | (ln', AtEof) \<Rightarrow> (ln', Some (Err (Io UnexpectedEof)))
        | (ln', WasReset) \<Rightarrow> (ln', Some (Err (Io ConnectionReset)))
        | (ln', WasInterrupted) \<Rightarrow> (ln', Some (Err (Io InterruptedIo)))
        | (ln', ReadError) \<Rightarrow> (ln', Some (Err (Io OtherIo)))
        | (ln', _) \<Rightarrow> (ln', timer_fired outer deadline Timeout)))"
  by pat_completeness auto

lemma ready_eq: "ready at n input = (bs, rest) \<Longrightarrow>
    length bs \<le> n \<and> (\<exists>ts. length ts = length bs \<and> input = zip ts (map Byte bs) @ rest)"
proof (induction at n input arbitrary: bs rest rule: ready.induct)
  case (1 at n t b input)
  show ?case
  proof (cases "t \<le> at")
    case True
    with 1(2) obtain bs' where rec: "ready at n input = (bs', rest)" and bs: "bs = b # bs'"
      by (auto split: prod.splits)
    obtain ts where "length ts = length bs'" "input = zip ts (map Byte bs') @ rest" "length bs' \<le> n"
      using 1(1) [OF True rec] by blast
    then show ?thesis using bs by (intro conjI exI [of _ "t # ts"]) simp_all
  qed (use 1(2) in auto)
qed auto

lemma sys_read_Got:
  assumes "sys_read ln until n = (ln', Got bs)"
  shows "length bs \<le> n" and "length (ln_in ln) = length bs + length (ln_in ln')" and "0 < n \<Longrightarrow> bs \<noteq> []"
    and "ln_out ln' = ln_out ln" and "ln_writes ln' = ln_writes ln" and "ln_last ln' = ln_last ln"
    and "\<exists>ts. length ts = length bs \<and> ln_in ln = zip ts (map Byte bs) @ ln_in ln'"
proof -
  obtain t b rest where inp: "ln_in ln = (t, Byte b) # rest"
    and rd: "ready (max (ln_now ln) t) n (ln_in ln) = (bs, ln_in ln')"
    and ln': "ln' = ln\<lparr>ln_now := max (ln_now ln) t, ln_in := ln_in ln'\<rparr>"
    using assms by (auto simp: sys_read_def Let_def split: list.splits option.splits Incoming.splits if_splits prod.splits)
  show "length bs \<le> n" and "length (ln_in ln) = length bs + length (ln_in ln')"
    and "\<exists>ts. length ts = length bs \<and> ln_in ln = zip ts (map Byte bs) @ ln_in ln'"
    using ready_eq [OF rd] by auto
  show "ln_out ln' = ln_out ln" "ln_writes ln' = ln_writes ln" "ln_last ln' = ln_last ln" by (subst ln', simp)+
  show "bs \<noteq> []" if "0 < n" using that rd inp by (cases n) (auto split: prod.splits)
qed

lemma sys_read_less: "(ln', Got bs) = sys_read ln until n \<Longrightarrow> 0 < n \<Longrightarrow> length (ln_in ln') < length (ln_in ln)"
  using sys_read_Got(2,3) [of ln until n ln' bs] by simp

termination read_exact
  by (relation "measure (\<lambda>(outer, deadline, n, ln). length (ln_in ln))") (auto dest!: sys_read_less)

declare read_exact.simps [simp del]

definition read_first :: "nat option \<Rightarrow> (u8 list, ReadFail) io" where
  "read_first outer ln =
     (case sys_read ln outer 1 of
        (ln', Got bs) \<Rightarrow> (ln', Some (Ok bs))
      | (ln', AtEof) \<Rightarrow> (ln', Some (Err Closed))
      | (ln', WasReset) \<Rightarrow> (ln', Some (Err (Io ConnectionReset)))
      | (ln', WasInterrupted) \<Rightarrow> (ln', Some (Err (Io InterruptedIo)))
      | (ln', ReadError) \<Rightarrow> (ln', Some (Err (Io OtherIo)))
      | (ln', _) \<Rightarrow> (ln', None))"

definition read_frame :: "nat option \<Rightarrow> u32 \<Rightarrow> nat \<Rightarrow> (Frame, ReadFail) io" where
  "read_frame outer cap frame_timeout =
     lbind (read_first outer) (\<lambda>first ln.
       let deadline = instant_after ln frame_timeout in
       lbind (read_exact outer deadline (HEADER_LEN - 1)) (\<lambda>rest.
       lbind (lreturn (map_err Header (header_decode (first @ rest) cap))) (\<lambda>header.
       lbind (read_exact outer deadline (unat (h_len header))) (\<lambda>body.
       lreturn (Ok \<lparr>fr_header = header, fr_body = body\<rparr>)))) ln)"

text \<open>\<open>write_all\<close> under a deadline, then a flush, which a socket has nothing to do for.\<close>

function write_exact :: "nat option \<Rightarrow> nat \<Rightarrow> u8 list \<Rightarrow> (unit, IoError) io" where
  "write_exact outer deadline bytes ln =
     (if bytes = [] then (ln, Some (Ok ()))
      else (case sys_write ln (timer_bound outer deadline) bytes of
          (ln', Wrote n) \<Rightarrow>
            if n = 0 then (ln', Some (Err WriteZero)) else write_exact outer deadline (drop n bytes) ln'
        | (ln', WasWriteInterrupted) \<Rightarrow> (ln', Some (Err InterruptedIo))
        | (ln', WriteError) \<Rightarrow> (ln', Some (Err OtherIo))
        | (ln', WriteTimedOut) \<Rightarrow> (ln', timer_fired outer deadline TimedOutIo)))"
  by pat_completeness auto
termination
  by (relation "measure (\<lambda>(outer, deadline, bytes, ln). length bytes)") auto

declare write_exact.simps [simp del]

definition write_frame :: "nat option \<Rightarrow> u8 list \<Rightarrow> nat \<Rightarrow> (unit, IoError) io" where
  "write_frame outer bytes write_timeout ln = write_exact outer (instant_after ln write_timeout) bytes ln"

definition fault_frame :: "Failure Message \<Rightarrow> Failure \<Rightarrow> u8 list option" where
  "fault_frame codec failure =
     (case encode_frame codec failure PRE_AUTH_MAX_BODY of Ok bytes \<Rightarrow> Some bytes | Err _ \<Rightarrow> None)"

subsection \<open>The client's frames\<close>

datatype XenosError =
    XConnect
  | XIo IoError
  | XTimeout
  | XClosed
  | XTruncated nat nat
  | XNotClosed
  | XBadMagic "u8 list"
  | XUnknownFrameKind u8
  | XUnknownFlags u8
  | XNonzeroReserved u16
  | XFrameTooLarge u64 u32
  | XContract WireError
  | XUnexpectedFrame FrameKind FrameKind
  | XIncompatible u16 u16
  | XVersionOutOfRange u16 u16 u16
  | XAuthFailed
  | XFault Failure
  | XRandom
  | XUnexpectedResponse u64 u64
  | XBroken

definition header_bytes :: "u8 \<Rightarrow> u8 \<Rightarrow> u16 \<Rightarrow> u32 \<Rightarrow> u8 list" where
  "header_bytes kind flags reserved len =
     [MAGIC ! 0, MAGIC ! 1, MAGIC ! 2, MAGIC ! 3, kind, flags] @ to_le_bytes 2 reserved @ to_le_bytes 4 len"

definition parse_header :: "u8 list \<Rightarrow> u32 \<Rightarrow> (FrameKind \<times> u32, XenosError) result" where
  "parse_header bytes cap =
     (let found = [bytes ! 0, bytes ! 1, bytes ! 2, bytes ! 3]; kind_byte = bytes ! 4; flags = bytes ! 5 in
      ensure (found = MAGIC) (XBadMagic found)
      (rbind (ok_or (kind_from_u8 kind_byte) (XUnknownFrameKind kind_byte)) (\<lambda>kind.
       ensure (flags AND NOT FLAGS_KNOWN = 0) (XUnknownFlags flags)
       (let reserved = from_le_bytes [bytes ! 6, bytes ! 7] in
        ensure (reserved = 0) (XNonzeroReserved reserved)
        (let len = from_le_bytes [bytes ! 8, bytes ! 9, bytes ! 10, bytes ! 11];
             cap' = min cap HARD_MAX_BODY in
         ensure (len \<le> cap') (XFrameTooLarge (ucast len) cap') (Ok (kind, len)))))))"

definition frame_bytes :: "'m Message \<Rightarrow> 'm \<Rightarrow> u32 \<Rightarrow> (u8 list, XenosError) result" where
  "frame_bytes T message cap =
     rbind (map_err XContract (encode T message)) (\<lambda>body.
       let cap' = min cap HARD_MAX_BODY in
       rbind (ok_or (if length body < 2 ^ 32 \<and> of_nat (length body) \<le> cap' then Some (of_nat (length body)) else None)
           (XFrameTooLarge (len_u64 (length body)) cap')) (\<lambda>len.
         Ok (header_bytes (kind_to_u8 (msg_kind T)) 0 0 len @ body)))"

record XFrame =
  xf_kind :: FrameKind
  xf_body :: "u8 list"

definition xframe_decode :: "Failure Message \<Rightarrow> 'm Message \<Rightarrow> XFrame \<Rightarrow> u32 \<Rightarrow> ('m, XenosError) result" where
  "xframe_decode faults T frame cap =
     (if xf_kind frame = Fault \<and> msg_kind T \<noteq> Fault
      then rbind (map_err XContract (decode faults (xf_body frame) cap)) (\<lambda>failure.
        ensure (failure \<noteq> Failure.AuthFailed) XAuthFailed (Err (XFault failure)))
      else ensure (xf_kind frame = msg_kind T) (XUnexpectedFrame (msg_kind T) (xf_kind frame))
        (map_err XContract (decode T (xf_body frame) cap)))"

datatype Short = ShortEof nat | ShortFailed XenosError

text \<open>Every read re-arms the socket's timeout to the time left; an interrupted call is made again.\<close>

function fill :: "nat \<Rightarrow> nat \<Rightarrow> nat \<Rightarrow> Link \<Rightarrow> Link \<times> (u8 list, Short) result" where
  "fill deadline received n ln =
     (if n = 0 then (ln, Ok [])
      else if deadline \<le> ln_now ln then (ln, Err (ShortFailed XTimeout))
      else (case sys_read ln (Some deadline) n of
          (ln', Got bs) \<Rightarrow>
            (case fill deadline (received + length bs) (n - length bs) ln' of
               (ln'', Ok tail) \<Rightarrow> (ln'', Ok (bs @ tail))
             | (ln'', Err e) \<Rightarrow> (ln'', Err e))
        | (ln', WasInterrupted) \<Rightarrow> fill deadline received n ln'
        | (ln', AtEof) \<Rightarrow> (ln', Err (ShortEof received))
        | (ln', WasReset) \<Rightarrow> (ln', Err (ShortEof received))
        | (ln', ReadError) \<Rightarrow> (ln', Err (ShortFailed (XIo OtherIo)))
        | (ln', _) \<Rightarrow> (ln', Err (ShortFailed XTimeout))))"
  by pat_completeness auto

lemma sys_read_interrupted:
  "(ln', WasInterrupted) = sys_read ln until n \<Longrightarrow> length (ln_in ln') < length (ln_in ln)"
  by (auto simp: sys_read_def Let_def split: list.splits option.splits Incoming.splits if_splits prod.splits)

termination fill
  by (relation "measure (\<lambda>(deadline, received, n, ln). length (ln_in ln))")
    (auto dest!: sys_read_less sys_read_interrupted)

declare fill.simps [simp del]

definition client_read_frame :: "u32 \<Rightarrow> nat \<Rightarrow> Link \<Rightarrow> Link \<times> (XFrame, XenosError) result" where
  "client_read_frame cap deadline ln =
     (case fill deadline 0 HEADER_LEN ln of
        (ln1, Err (ShortEof received)) \<Rightarrow>
          (ln1, Err (if received = 0 then XClosed else XTruncated HEADER_LEN received))
      | (ln1, Err (ShortFailed e)) \<Rightarrow> (ln1, Err e)
      | (ln1, Ok header) \<Rightarrow>
          (case parse_header header cap of
             Err e \<Rightarrow> (ln1, Err e)
           | Ok (kind, len) \<Rightarrow>
               (case fill deadline 0 (unat len) ln1 of
                  (ln2, Err (ShortEof received)) \<Rightarrow> (ln2, Err (XTruncated (unat len) received))
                | (ln2, Err (ShortFailed e)) \<Rightarrow> (ln2, Err e)
                | (ln2, Ok body) \<Rightarrow> (ln2, Ok \<lparr>xf_kind = kind, xf_body = body\<rparr>))))"

definition WRITE_SLICE :: nat where "WRITE_SLICE = 16 * 1024"

function write_all :: "nat \<Rightarrow> u8 list \<Rightarrow> Link \<Rightarrow> Link \<times> (unit, XenosError) result" where
  "write_all deadline bytes ln =
     (if bytes = [] then (ln, Ok ())
      else if deadline \<le> ln_now ln then (ln, Err XTimeout)
      else (case sys_write ln deadline (take WRITE_SLICE bytes) of
          (ln', Wrote n) \<Rightarrow>
            if n = 0 then (ln', Err (XIo WriteZero)) else write_all deadline (drop n bytes) ln'
        | (ln', WasWriteInterrupted) \<Rightarrow> write_all deadline bytes ln'
        | (ln', WriteTimedOut) \<Rightarrow> (ln', Err XTimeout)
        | (ln', WriteError) \<Rightarrow> (ln', Err (XIo OtherIo))))"
  by pat_completeness auto

lemma sys_write_interrupted:
  "(ln', WasWriteInterrupted) = sys_write ln until bytes \<Longrightarrow> length (ln_writes ln') < length (ln_writes ln)"
  by (auto simp: sys_write_def Let_def split: list.splits Accept.splits if_splits)

termination write_all
  by (relation "(\<lambda>(deadline, bytes, ln). length bytes) <*mlex*> measure (\<lambda>(deadline, bytes, ln). length (ln_writes ln))")
    (auto simp: wf_mlex intro: mlex_less mlex_leq dest!: sys_write_interrupted)

declare write_all.simps [simp del]

definition await_close :: "nat \<Rightarrow> Link \<Rightarrow> Link \<times> (unit, XenosError) result" where
  "await_close deadline ln =
     (case fill deadline 0 1 ln of
        (ln', Err (ShortEof _)) \<Rightarrow> (ln', Ok ())
      | (ln', Ok _) \<Rightarrow> (ln', Err XNotClosed)
      | (ln', Err (ShortFailed e)) \<Rightarrow> (ln', Err e))"

section \<open>Lemmas\<close>

subsection \<open>Bytes that arrive in time\<close>

text \<open>\<open>arriving ts bs\<close> is what arrives when byte \<open>bs ! i\<close> comes at \<open>ts ! i\<close>.\<close>

definition arriving :: "nat list \<Rightarrow> u8 list \<Rightarrow> (nat \<times> Incoming) list" where
  "arriving ts bs = zip ts (map Byte bs)"

lemma arriving_simps [simp]:
  "arriving ts [] = []"
  "arriving [] bs = []"
  "arriving (t # ts) (b # bs) = (t, Byte b) # arriving ts bs"
  by (simp_all add: arriving_def)

lemma arriving_append:
  "length ts = length bs \<Longrightarrow> arriving (ts @ ts') (bs @ bs') = arriving ts bs @ arriving ts' bs'"
  by (simp add: arriving_def)

lemma arriving_split:
  assumes "length ts = length (bs @ bs')"
  shows "arriving ts (bs @ bs') = arriving (take (length bs) ts) bs @ arriving (drop (length bs) ts) bs'"
  using arriving_append [of "take (length bs) ts" bs "drop (length bs) ts" bs'] assms by simp

lemma ready_arriving:
  assumes "length ts = length bs" and "n \<le> length bs"
  shows "\<exists>k \<le> n. ready at n (arriving ts bs @ rest) = (take k bs, arriving (drop k ts) (drop k bs) @ rest) \<and>
    (0 < n \<longrightarrow> hd ts \<le> at \<longrightarrow> 0 < k)"
  using assms
proof (induction n arbitrary: ts bs)
  case (Suc n)
  then obtain t ts' b bs' where [simp]: "ts = t # ts'" "bs = b # bs'"
    by (cases ts; cases bs) auto
  show ?case
  proof (cases "t \<le> at")
    case True
    obtain k where "k \<le> n" "ready at n (arriving ts' bs' @ rest) = (take k bs', arriving (drop k ts') (drop k bs') @ rest)"
      using Suc.IH [of ts' bs'] Suc.prems by auto
    with True show ?thesis by (intro exI [of _ "Suc k"]) simp
  qed (auto intro: exI [of _ 0])
qed simp

lemma sys_read_arriving:
  assumes inp: "ln_in ln = arriving ts bs @ rest" and len: "length ts = length bs" "0 < n" "n \<le> length bs"
    and time: "ln_now ln \<le> u" "\<forall>t \<in> set ts. t \<le> u"
  shows "\<exists>k at. 0 < k \<and> k \<le> n \<and> ln_now ln \<le> at \<and> at \<le> u \<and> (at = ln_now ln \<or> at \<in> set ts) \<and>
    sys_read ln (Some u) n =
      (ln\<lparr>ln_now := at, ln_in := arriving (drop k ts) (drop k bs) @ rest\<rparr>, Got (take k bs))"
proof -
  obtain t ts' b bs' where [simp]: "ts = t # ts'" "bs = b # bs'"
    using len by (cases ts; cases bs) auto
  let ?at = "max (ln_now ln) t"
  obtain k where k: "k \<le> n" "0 < k"
    "ready ?at n (arriving ts bs @ rest) = (take k bs, arriving (drop k ts) (drop k bs) @ rest)"
    using ready_arriving [OF len(1) len(3), of ?at rest] len(2) by auto
  have "sys_read ln (Some u) n =
      (ln\<lparr>ln_now := ?at, ln_in := arriving (drop k ts) (drop k bs) @ rest\<rparr>, Got (take k bs))"
    using inp time k(3) by (simp add: sys_read_def Let_def not_less)
  moreover have "?at \<le> u" "ln_now ln \<le> ?at" "?at = ln_now ln \<or> ?at \<in> set ts" using time by (auto simp: max_def)
  ultimately show ?thesis using k by blast
qed

lemma read_exact_arriving:
  assumes "ln_in ln = arriving ts bs @ rest" and "length ts = length bs" and "n = length bs"
    and "ln_now ln \<le> limit" and "\<forall>t \<in> set ts. t \<le> limit" and limit: "limit \<le> timer_bound outer deadline"
  shows "\<exists>at. ln_now ln \<le> at \<and> at \<le> limit \<and>
    read_exact outer deadline n ln = (ln\<lparr>ln_now := at, ln_in := rest\<rparr>, Some (Ok bs))"
  using assms(1-5)
proof (induction n arbitrary: ln ts bs rule: less_induct)
  case (less n)
  show ?case
  proof (cases "n = 0")
    case True
    then show ?thesis
      using less.prems by (intro exI [of _ "ln_now ln"]) (simp add: read_exact.simps)
  next
    case False
    have time: "ln_now ln \<le> timer_bound outer deadline" "\<forall>t \<in> set ts. t \<le> timer_bound outer deadline"
      using less.prems(4,5) limit by auto
    obtain k at where k: "0 < k" "k \<le> n" "ln_now ln \<le> at" "at = ln_now ln \<or> at \<in> set ts"
      "sys_read ln (Some (timer_bound outer deadline)) n =
        (ln\<lparr>ln_now := at, ln_in := arriving (drop k ts) (drop k bs) @ rest\<rparr>, Got (take k bs))"
      using sys_read_arriving [OF less.prems(1,2) _ _ time, of n] less.prems(3) False by (metis gr0I order_refl)
    have at: "at \<le> limit" using k(4) less.prems(4,5) by auto
    let ?ln = "ln\<lparr>ln_now := at, ln_in := arriving (drop k ts) (drop k bs) @ rest\<rparr>"
    have late: "\<forall>t \<in> set (drop k ts). t \<le> limit" using less.prems(5) in_set_dropD by metis
    have shorter: "n - k < n" using k(1,2) False by simp
    obtain at' where "at \<le> at'" "at' \<le> limit"
      "read_exact outer deadline (n - k) ?ln = (?ln\<lparr>ln_now := at', ln_in := rest\<rparr>, Some (Ok (drop k bs)))"
      using less.IH [OF shorter, of ?ln "drop k ts" "drop k bs"] less.prems(2,3) k at late by auto
    with k False less.prems(3) show ?thesis
      by (intro exI [of _ at'] conjI, simp, simp, subst read_exact.simps) (simp add: min_absorb2)
  qed
qed

lemma fill_arriving:
  assumes "ln_in ln = arriving ts bs @ rest" and "length ts = length bs" and "n = length bs"
    and "ln_now ln < deadline" and "\<forall>t \<in> set ts. t < deadline"
  shows "\<exists>at. ln_now ln \<le> at \<and> at < deadline \<and>
    fill deadline received n ln = (ln\<lparr>ln_now := at, ln_in := rest\<rparr>, Ok bs)"
  using assms
proof (induction n arbitrary: ln ts bs received rule: less_induct)
  case (less n)
  show ?case
  proof (cases "n = 0")
    case True
    then show ?thesis
      using less.prems by (intro exI [of _ "ln_now ln"]) (simp add: fill.simps)
  next
    case False
    obtain k at where k: "0 < k" "k \<le> n" "ln_now ln \<le> at" "at = ln_now ln \<or> at \<in> set ts"
      "sys_read ln (Some deadline) n =
        (ln\<lparr>ln_now := at, ln_in := arriving (drop k ts) (drop k bs) @ rest\<rparr>, Got (take k bs))"
      using sys_read_arriving [OF less.prems(1,2), of n deadline] less.prems(3-5) False
      by (metis gr0I less_imp_le order_refl)
    have at: "at < deadline" using k(4) less.prems(4,5) by auto
    let ?ln = "ln\<lparr>ln_now := at, ln_in := arriving (drop k ts) (drop k bs) @ rest\<rparr>"
    have late: "\<forall>t \<in> set (drop k ts). t < deadline" using less.prems(5) in_set_dropD by metis
    have shorter: "n - k < n" using k(1,2) False by simp
    obtain at' where "at \<le> at'" "at' < deadline"
      "fill deadline (received + k) (n - k) ?ln = (?ln\<lparr>ln_now := at', ln_in := rest\<rparr>, Ok (drop k bs))"
      using less.IH [OF shorter, of ?ln "drop k ts" "drop k bs" "received + k"] less.prems(2,3) k at late by auto
    with k False less.prems(3,4) show ?thesis
      by (intro exI [of _ at'] conjI, simp, simp, subst fill.simps) (simp add: min_absorb2)
  qed
qed

lemma lbind_simps [simp]:
  "m ln = (ln', None) \<Longrightarrow> lbind m k ln = (ln', None)"
  "m ln = (ln', Some (Err e)) \<Longrightarrow> lbind m k ln = (ln', Some (Err e))"
  "m ln = (ln', Some (Ok x)) \<Longrightarrow> lbind m k ln = k x ln'"
  by (simp_all add: lbind_def)

lemma lbind_Ok_iff: "lbind m k ln = (ln', Some (Ok y)) \<longleftrightarrow>
    (\<exists>ln1 x. m ln = (ln1, Some (Ok x)) \<and> k x ln1 = (ln', Some (Ok y)))"
  by (auto simp: lbind_def split: prod.splits option.splits sum.splits)

lemma lreturn_iff [simp]: "lreturn r ln = (ln', r') \<longleftrightarrow> ln' = ln \<and> r' = Some r"
  by (auto simp: lreturn_def)

lemma lmap_err_Ok_iff [simp]: "lmap_err f m ln = (ln', Some (Ok y)) \<longleftrightarrow> m ln = (ln', Some (Ok y))"
proof -
  obtain l r where m: "m ln = (l, r)" by force
  show ?thesis
  proof (cases r)
    case (Some v)
    then show ?thesis using m by (cases v) (auto simp: lmap_err_def map_err_def)
  qed (use m in \<open>simp add: lmap_err_def\<close>)
qed

subsection \<open>Whole frames\<close>

text \<open>A frame's bytes that are all in before the timers fire are read as that frame, whatever follows.\<close>

lemma read_frame_arriving:
  assumes inp: "ln_in ln = arriving ts (header_encode h @ body) @ rest" and len: "length ts = HEADER_LEN + length body"
    and h: "h_flags h = FLAGS_NONE" "unat (h_len h) = length body" "h_len h \<le> clamp_cap cap"
    and time: "ln_now ln \<le> limit" "\<forall>t \<in> set ts. t \<le> limit" "limit \<le> ln_now ln + frame_timeout"
      "case outer of None \<Rightarrow> True | Some u \<Rightarrow> limit \<le> u" "limit + frame_timeout \<le> ln_last ln"
  shows "\<exists>at. ln_now ln \<le> at \<and> at \<le> limit \<and>
    read_frame outer cap frame_timeout ln =
      (ln\<lparr>ln_now := at, ln_in := rest\<rparr>, Some (Ok \<lparr>fr_header = h, fr_body = body\<rparr>))"
proof -
  obtain b hs where hb: "header_encode h = b # hs" "length hs = HEADER_LEN - 1"
    using length_header_encode [of h] by (cases "header_encode h") (auto simp: HEADER_LEN_def)
  obtain t ts' where "ts = t # ts'" "length ts' = length hs + length body"
    using len hb(2) by (cases ts) (auto simp: HEADER_LEN_def)
  moreover define ts1 ts2 where "ts1 = take (length hs) ts'" and "ts2 = drop (length hs) ts'"
  ultimately have ts: "ts = t # ts1 @ ts2" "length ts1 = length hs" "length ts2 = length body" by auto
  have inp': "ln_in ln = (t, Byte b) # arriving ts1 hs @ arriving ts2 body @ rest"
    using inp ts by (simp add: hb(1) arriving_append)
  define at0 where "at0 = max (ln_now ln) t"
  have at0: "ln_now ln \<le> at0" "at0 \<le> limit" using time ts by (auto simp: at0_def)
  let ?ln1 = "ln\<lparr>ln_now := at0, ln_in := arriving ts1 hs @ arriving ts2 body @ rest\<rparr>"
  have first: "read_first outer ln = (?ln1, Some (Ok [b]))"
    using inp' time at0(2) by (auto simp: read_first_def sys_read_def Let_def at0_def split: option.splits)
  define deadline where "deadline = instant_after ?ln1 frame_timeout"
  have dl: "deadline = at0 + frame_timeout" using at0 time by (simp add: deadline_def instant_after_def)
  have lim: "limit \<le> timer_bound outer deadline" using time at0 dl by (auto simp: timer_bound_def split: option.splits)
  obtain at1 where at1: "at0 \<le> at1" "at1 \<le> limit"
    "read_exact outer deadline (HEADER_LEN - 1) ?ln1 =
      (?ln1\<lparr>ln_now := at1, ln_in := arriving ts2 body @ rest\<rparr>, Some (Ok hs))"
    using read_exact_arriving [of ?ln1 ts1 hs "arriving ts2 body @ rest" "HEADER_LEN - 1" limit, OF _ _ _ _ _ lim]
      ts hb(2) at0 time(2) by auto
  let ?ln2 = "?ln1\<lparr>ln_now := at1, ln_in := arriving ts2 body @ rest\<rparr>"
  obtain at2 where at2: "at1 \<le> at2" "at2 \<le> limit"
    "read_exact outer deadline (unat (h_len h)) ?ln2 = (?ln2\<lparr>ln_now := at2, ln_in := rest\<rparr>, Some (Ok body))"
    using read_exact_arriving [of ?ln2 ts2 body rest "unat (h_len h)" limit, OF _ _ _ _ _ lim]
      ts h(2) at1 time(2) by auto
  have "header_decode ([b] @ hs) cap = Ok h" using header_decode_encode [OF h(1), of cap] h(3) hb(1) by simp
  then have "read_frame outer cap frame_timeout ln =
      (ln\<lparr>ln_now := at2, ln_in := rest\<rparr>, Some (Ok \<lparr>fr_header = h, fr_body = body\<rparr>))"
    using first at1(3) at2(3) deadline_def by (simp add: read_frame_def lreturn_def map_err_def lbind_def)
  then show ?thesis using at0 at1 at2 by (intro exI [of _ at2]) simp
qed

lemma write_frame_free:
  assumes "ln_writes ln = []"
  shows "write_frame outer bytes timeout ln = (ln\<lparr>ln_out := ln_out ln @ bytes\<rparr>, Some (Ok ()))"
  using assms by (cases "bytes = []") (simp_all add: write_frame_def write_exact.simps sys_write_def)

lemma write_all_free:
  assumes "ln_writes ln = []" and "ln_now ln < deadline"
  shows "write_all deadline bytes ln = (ln\<lparr>ln_out := ln_out ln @ bytes\<rparr>, Ok ())"
  using assms
proof (induction bytes arbitrary: ln rule: length_induct)
  case (1 bytes)
  show ?case
  proof (cases "bytes = []")
    case False
    let ?ln = "ln\<lparr>ln_out := ln_out ln @ take WRITE_SLICE bytes\<rparr>"
    let ?n = "min (length bytes) WRITE_SLICE"
    have n: "0 < ?n" using False by (simp add: WRITE_SLICE_def)
    then have "length (drop ?n bytes) < length bytes" by simp
    then have "write_all deadline (drop ?n bytes) ?ln = (?ln\<lparr>ln_out := ln_out ?ln @ drop ?n bytes\<rparr>, Ok ())"
      using 1 by auto
    moreover have "take WRITE_SLICE bytes @ drop ?n bytes = bytes" by (simp add: min_def)
    ultimately show ?thesis using False n 1(2,3) by (subst write_all.simps) (simp add: sys_write_def)
  qed (simp add: write_all.simps)
qed

subsection \<open>The two codecs\<close>

text \<open>What the client's error is where the contract's decoder has its own.\<close>

fun client_view :: "WireError \<Rightarrow> XenosError" where
  "client_view (BadMagic m) = XBadMagic m"
| "client_view (UnknownFrameKind k) = XUnknownFrameKind k"
| "client_view (UnknownFlags f) = XUnknownFlags f"
| "client_view (NonzeroReserved r) = XNonzeroReserved r"
| "client_view (FrameTooLarge len cap) = XFrameTooLarge len cap"
| "client_view e = XContract e"

lemma clamp_min: "clamp_cap cap = min cap HARD_MAX_BODY"
  by (auto simp: clamp_cap_def min_def)

lemma parse_header_eq:
  assumes "length bytes = HEADER_LEN"
  shows "parse_header bytes cap = map_err client_view (map_sum id (\<lambda>h. (h_kind h, h_len h)) (header_decode bytes cap))"
proof -
  have "take 4 bytes = [bytes ! 0, bytes ! 1, bytes ! 2, bytes ! 3]"
    using assms by (auto simp: HEADER_LEN_def list_eq_iff_nth_eq less_Suc_eq_0_disj numeral_eq_Suc)
  then show ?thesis
    by (auto simp: parse_header_def header_decode_def Let_def ensure_def rbind_def ok_or_def map_err_def clamp_min
        split: option.splits)
qed

lemma header_bytes_eq: "header_bytes (kind_to_u8 k) 0 0 len = header_encode (header_new k len)"
  by (simp add: header_bytes_def header_encode_def header_new_def MAGIC_def FLAGS_NONE_def numeral_eq_Suc)

lemma frame_bytes_eq:
  "frame_bytes T m cap = map_err (\<lambda>e. case e of FrameTooLarge len c \<Rightarrow>
       (if encode T m = Err e then XContract e else XFrameTooLarge len c) | _ \<Rightarrow> XContract e) (encode_frame T m cap)"
  by (auto simp: frame_bytes_def encode_frame_def Let_def rbind_def ok_or_def map_err_def clamp_min header_bytes_eq
      split: sum.splits WireError.splits)

lemma client_read_frame_arriving:
  assumes inp: "ln_in ln = arriving ts (header_encode h @ body) @ rest" and len: "length ts = HEADER_LEN + length body"
    and h: "h_flags h = FLAGS_NONE" "unat (h_len h) = length body" "h_len h \<le> clamp_cap cap"
    and time: "ln_now ln < deadline" "\<forall>t \<in> set ts. t < deadline"
  shows "\<exists>at. ln_now ln \<le> at \<and> at < deadline \<and> client_read_frame cap deadline ln =
      (ln\<lparr>ln_now := at, ln_in := rest\<rparr>, Ok \<lparr>xf_kind = h_kind h, xf_body = body\<rparr>)"
proof -
  define ts1 ts2 where "ts1 = take HEADER_LEN ts" and "ts2 = drop HEADER_LEN ts"
  then have ts: "ts = ts1 @ ts2" "length ts1 = HEADER_LEN" "length ts2 = length body" using len by auto
  have "ln_in ln = arriving ts1 (header_encode h) @ arriving ts2 body @ rest"
    using inp ts by (simp add: arriving_append)
  then obtain at1 where at1: "ln_now ln \<le> at1" "at1 < deadline"
    "fill deadline 0 HEADER_LEN ln = (ln\<lparr>ln_now := at1, ln_in := arriving ts2 body @ rest\<rparr>, Ok (header_encode h))"
    using fill_arriving [of ln ts1 "header_encode h" "arriving ts2 body @ rest" HEADER_LEN deadline 0] ts time by auto
  let ?ln = "ln\<lparr>ln_now := at1, ln_in := arriving ts2 body @ rest\<rparr>"
  obtain at2 where at2: "at1 \<le> at2" "at2 < deadline"
    "fill deadline 0 (unat (h_len h)) ?ln = (?ln\<lparr>ln_now := at2, ln_in := rest\<rparr>, Ok body)"
    using fill_arriving [of ?ln ts2 body rest "unat (h_len h)" deadline 0] ts at1 h(2) time by auto
  have "parse_header (header_encode h) cap = Ok (h_kind h, h_len h)"
    using header_decode_encode [OF h(1), of cap] h(3) by (simp add: parse_header_eq map_err_def)
  with at1 at2 show ?thesis by (intro exI [of _ at2]) (simp add: client_read_frame_def)
qed

text \<open>The frame an encoder produced, with what the receivers need to know of its header.\<close>

lemma encode_frame_header:
  assumes "encode_frame T m cap = Ok frame"
  obtains body where "frame = header_encode (header_new (msg_kind T) (of_nat (length body))) @ body"
    and "unat (of_nat (length body) :: u32) = length body" and "(of_nat (length body) :: u32) \<le> clamp_cap cap"
    and "to_bytes T m = Some body" and "msg_check T m = Ok ()" and "length body \<le> unat (clamp_cap cap)"
proof -
  from assms obtain body where b: "msg_check T m = Ok ()" "to_bytes T m = Some body"
    "length body \<le> unat (clamp_cap cap)"
    "frame = header_encode (header_new (msg_kind T) (of_nat (length body))) @ body"
    by (auto simp: encode_frame_Ok_iff)
  then have u: "unat (of_nat (length body) :: u32) = length body" by (intro le_unat_uoi)
  with b show thesis by (intro that [of body]) (simp_all add: word_le_nat_alt)
qed

lemma read_encoded:
  assumes serializer: "\<And>body. to_bytes T m = Some body \<Longrightarrow> from_bytes T body = Some m"
    and enc: "encode_frame T m cap = Ok frame"
    and inp: "ln_in ln = arriving ts frame @ rest" "length ts = length frame"
    and time: "ln_now ln \<le> limit" "\<forall>t \<in> set ts. t \<le> limit" "limit \<le> ln_now ln + frame_timeout"
      "case outer of None \<Rightarrow> True | Some u \<Rightarrow> limit \<le> u" "limit + frame_timeout \<le> ln_last ln"
  shows "\<exists>at fr. ln_now ln \<le> at \<and> at \<le> limit \<and>
    read_frame outer cap frame_timeout ln = (ln\<lparr>ln_now := at, ln_in := rest\<rparr>, Some (Ok fr)) \<and>
    h_kind (fr_header fr) = msg_kind T \<and> decode_frame T (fr_header fr) (fr_body fr) cap = Ok m"
proof -
  from enc obtain body where f: "frame = header_encode (header_new (msg_kind T) (of_nat (length body))) @ body"
    "unat (of_nat (length body) :: u32) = length body" "(of_nat (length body) :: u32) \<le> clamp_cap cap"
    "to_bytes T m = Some body" "msg_check T m = Ok ()" "length body \<le> unat (clamp_cap cap)"
    by (rule encode_frame_header)
  let ?h = "header_new (msg_kind T) (of_nat (length body))"
  obtain at where "ln_now ln \<le> at" "at \<le> limit" "read_frame outer cap frame_timeout ln =
      (ln\<lparr>ln_now := at, ln_in := rest\<rparr>, Some (Ok \<lparr>fr_header = ?h, fr_body = body\<rparr>))"
    using read_frame_arriving [of ln ts ?h body rest cap limit frame_timeout outer] inp f time
    by (auto simp: header_new_def)
  moreover have "decode_frame T ?h body cap = Ok m"
    using f serializer [OF f(4)] by (simp add: decode_frame_Ok_iff decode_Ok_iff header_new_def)
  ultimately show ?thesis by (intro exI [of _ at] exI) (auto simp: header_new_def)
qed

lemma client_read_encoded:
  assumes serializer: "\<And>body. to_bytes T m = Some body \<Longrightarrow> from_bytes T body = Some m"
    and enc: "encode_frame T m cap = Ok frame"
    and inp: "ln_in ln = arriving ts frame @ rest" "length ts = length frame"
    and time: "ln_now ln < deadline" "\<forall>t \<in> set ts. t < deadline"
  shows "\<exists>at fr. ln_now ln \<le> at \<and> at < deadline \<and>
    client_read_frame cap deadline ln = (ln\<lparr>ln_now := at, ln_in := rest\<rparr>, Ok fr) \<and>
    xframe_decode faults T fr cap = Ok m"
proof -
  from enc obtain body where f: "frame = header_encode (header_new (msg_kind T) (of_nat (length body))) @ body"
    "unat (of_nat (length body) :: u32) = length body" "(of_nat (length body) :: u32) \<le> clamp_cap cap"
    "to_bytes T m = Some body" "msg_check T m = Ok ()" "length body \<le> unat (clamp_cap cap)"
    by (rule encode_frame_header)
  let ?h = "header_new (msg_kind T) (of_nat (length body))"
  obtain at where "ln_now ln \<le> at" "at < deadline" "client_read_frame cap deadline ln =
      (ln\<lparr>ln_now := at, ln_in := rest\<rparr>, Ok \<lparr>xf_kind = msg_kind T, xf_body = body\<rparr>)"
    using client_read_frame_arriving [of ln ts ?h body rest cap deadline] inp f time
    by (auto simp: header_new_def)
  moreover have "decode T body cap = Ok m" using f serializer [OF f(4)] by (simp add: decode_Ok_iff)
  ultimately show ?thesis
    by (intro exI [of _ at] exI) (auto simp: xframe_decode_def map_err_def ensure_def)
qed

lemma frame_bytes_Ok_iff: "frame_bytes T m cap = Ok frame \<longleftrightarrow> encode_frame T m cap = Ok frame"
  by (auto simp: frame_bytes_eq map_err_def split: sum.splits)

section \<open>Properties\<close>

text \<open>The client's frame codec, written again from the contract, is the contract crate's: on every
  header of twelve bytes it accepts and refuses the same ones, for the same reason and with the same
  bound, and the frames it builds are the frames the contract's encoder builds.\<close>

theorem client_codec_agrees:
  assumes "length bytes = HEADER_LEN"
  shows "parse_header bytes cap =
      (case header_decode bytes cap of Ok h \<Rightarrow> Ok (h_kind h, h_len h) | Err e \<Rightarrow> Err (client_view e)) \<and>
    (frame_bytes T m cap = Ok frame \<longleftrightarrow> encode_frame T m cap = Ok frame)"
  using parse_header_eq [OF assms, of cap] by (simp add: frame_bytes_Ok_iff map_err_def split: sum.splits)

theorem client_codec_agrees_witness:
  "parse_header [0x44, 0x50, 0x54, 0x31, 8, 0, 0, 0, 3, 0, 0, 0] 4096 = Ok (Fault, 3) \<and>
   parse_header [0x44, 0x50, 0x54, 0x31, 8, 1, 0, 0, 3, 0, 0, 0] 4096 = Err (XUnknownFlags 1)"
proof -
  let ?a = "[0x44, 0x50, 0x54, 0x31, 8, 0, 0, 0, 3, 0, 0, 0] :: u8 list"
  let ?b = "[0x44, 0x50, 0x54, 0x31, 8, 1, 0, 0, 3, 0, 0, 0] :: u8 list"
  have "header_decode ?a 4096 = Ok (header_new Fault 3)" "header_decode ?b 4096 = Err (UnknownFlags 1)"
    by code_simp+
  then show ?thesis
    using client_codec_agrees [of ?a 4096 byte_message 0 "[]"] client_codec_agrees [of ?b 4096 byte_message 0 "[]"] by (simp add: HEADER_LEN_def header_new_def)
qed

text \<open>A message survives the wire in both directions: the bytes of an encoded frame, arriving byte by byte
  at any times before the reader's timers fire and followed by anything, are read as one frame that
  decodes to the message, and what follows is left for the next read.  The server reads them under
  its frame timeout and an enclosing timer, the client under its deadline.\<close>

theorem frames_survive_transport:
  assumes serializer: "\<And>body. to_bytes T m = Some body \<Longrightarrow> from_bytes T body = Some m"
    and sent: "frame_bytes T m cap = Ok frame"
    and "ln_in server = arriving ts frame @ rest" and "length ts = length frame"
    and "ln_now server \<le> limit" and "\<forall>t \<in> set ts. t \<le> limit" and "limit \<le> ln_now server + frame_timeout"
    and "case outer of None \<Rightarrow> True | Some u \<Rightarrow> limit \<le> u" and "limit + frame_timeout \<le> ln_last server"
    and "ln_in client = arriving ts' frame @ rest'" and "length ts' = length frame"
    and "ln_now client < deadline" and "\<forall>t \<in> set ts'. t < deadline"
  shows "(\<exists>at fr. read_frame outer cap frame_timeout server =
        (server\<lparr>ln_now := at, ln_in := rest\<rparr>, Some (Ok fr)) \<and>
        decode_frame T (fr_header fr) (fr_body fr) cap = Ok m) \<and>
    (\<exists>at fr. client_read_frame cap deadline client = (client\<lparr>ln_now := at, ln_in := rest'\<rparr>, Ok fr) \<and>
        xframe_decode faults T fr cap = Ok m)"
proof -
  have enc: "encode_frame T m cap = Ok frame" using sent by (simp add: frame_bytes_Ok_iff)
  show ?thesis
    using read_encoded [OF serializer enc assms(3-9)] client_read_encoded [OF serializer enc assms(10-13), of faults]
    by blast
qed

definition sample_link :: "(nat \<times> Incoming) list \<Rightarrow> Link" where
  "sample_link input = \<lparr>ln_now = 100, ln_last = 2 ^ 63, ln_in = input, ln_out = [], ln_writes = []\<rparr>"

theorem frames_survive_transport_witness:
  "let frame = [0x44, 0x50, 0x54, 0x31, 6, 0, 0, 0, 1, 0, 0, 0, 42];
       input = arriving [101, 102, 103, 104, 105, 106, 107, 108, 109, 110, 111, 112, 113] frame in
   (\<exists>at fr. read_frame None 4096 50 (sample_link (input @ [(120, Eof)])) =
        (sample_link [(120, Eof)]\<lparr>ln_now := at\<rparr>, Some (Ok fr)) \<and>
        decode_frame byte_message (fr_header fr) (fr_body fr) 4096 = Ok 42) \<and>
    (\<forall>faults. \<exists>at fr. client_read_frame 4096 200 (sample_link input) = (sample_link []\<lparr>ln_now := at\<rparr>, Ok fr) \<and>
        xframe_decode faults byte_message fr 4096 = Ok 42)"
proof -
  let ?frame = "[0x44, 0x50, 0x54, 0x31, 6, 0, 0, 0, 1, 0, 0, 0, 42] :: u8 list"
  let ?ts = "[101, 102, 103, 104, 105, 106, 107, 108, 109, 110, 111, 112, 113] :: nat list"
  have sent: "frame_bytes byte_message 42 4096 = Ok ?frame"
    by (simp add: frame_bytes_Ok_iff encode_frame_Ok_iff byte_message_def clamp_cap_def HARD_MAX_BODY_def
        header_encode_def header_new_def MAGIC_def FLAGS_NONE_def to_le_bytes_4)
  show ?thesis
    using frames_survive_transport [OF _ sent, of "sample_link (arriving ?ts ?frame @ [(120, Eof)])" ?ts "[(120, Eof)]"
        120 50 None "sample_link (arriving ?ts ?frame)" ?ts "[]" 200]
    by (simp add: sample_link_def byte_message_def)
qed

end
