(* ===== verification/Handshake.thy ===== *)
theory Handshake
  imports Transport Orchestrator
begin

text \<open>
  Admitting a connection: the server's limits and close reasons (\<^verbatim>\<open>crates/dioptron/src/server/mod.rs\<close>), the
  handshake (\<^verbatim>\<open>server/handshake.rs\<close>) over the tenants of the store (\<^verbatim>\<open>tenants.rs\<close> and
  \<^verbatim>\<open>phylake/src/store/view.rs\<close>), the first half of a connection's run (\<^verbatim>\<open>server/connection.rs\<close>), and the
  client's half of the handshake (\<^verbatim>\<open>crates/xenos/src/client.rs\<close>).

  The archive serializer and Ed25519 are code outside this repository: \<open>Archive\<close> holds the encoding and
  decoding of each message, \<open>verify\<close> says whether a public key accepts a signature over some bytes, and
  \<open>sign\<close> is the client's signing key.  A random draw that fails is \<open>None\<close>.
\<close>

section \<open>Definitions\<close>

subsection \<open>Limits\<close>

definition HANDSHAKE_TIMEOUT_MS :: u32 where "HANDSHAKE_TIMEOUT_MS = 5000"
definition MAX_DURATION :: nat where "MAX_DURATION = millis (24 * 60 * 60 * 1000)"
definition FRAMES_PER_CONNECTION :: u64 where "FRAMES_PER_CONNECTION = 7"
definition DEFAULT_MEMORY_BUDGET :: u64 where "DEFAULT_MEMORY_BUDGET = 256 * 1024 * 1024"

record Limits =
  li_max_connections :: nat
  li_max_in_flight :: nat
  li_handshake_timeout :: nat
  li_frame_timeout :: nat
  li_idle_timeout :: nat
  li_max_deadline :: nat
  li_dispatch_grace :: nat
  li_shutdown_grace :: nat
  li_max_frame :: u32

definition limits_default :: Limits where
  "limits_default =
     \<lparr>li_max_connections = 16, li_max_in_flight = 9,
      li_handshake_timeout = millis (unat HANDSHAKE_TIMEOUT_MS), li_frame_timeout = millis 10000,
      li_idle_timeout = millis (5 * 60 * 1000), li_max_deadline = millis (2 * 60 * 1000),
      li_dispatch_grace = millis 2000, li_shutdown_grace = millis 5000, li_max_frame = DEFAULT_MAX_BODY\<rparr>"

text \<open>\<open>max_permits\<close> is the semaphore's own bound.\<close>

definition clamped :: "nat \<Rightarrow> Limits \<Rightarrow> Limits" where
  "clamped max_permits l =
     \<lparr>li_max_connections = min (max (li_max_connections l) 1) max_permits,
      li_max_in_flight = max (li_max_in_flight l) 1,
      li_handshake_timeout = min (li_handshake_timeout l) (millis (unat HANDSHAKE_TIMEOUT_MS)),
      li_frame_timeout = min (li_frame_timeout l) MAX_DURATION,
      li_idle_timeout = min (li_idle_timeout l) MAX_DURATION,
      li_max_deadline = min (li_max_deadline l) MAX_DURATION,
      li_dispatch_grace = min (li_dispatch_grace l) MAX_DURATION,
      li_shutdown_grace = min (li_shutdown_grace l) MAX_DURATION,
      li_max_frame = min (max (li_max_frame l) PRE_AUTH_MAX_BODY) HARD_MAX_BODY\<rparr>"

definition saturating_mul :: "u64 \<Rightarrow> u64 \<Rightarrow> u64" where
  "saturating_mul a b = (if unat a * unat b < 2 ^ 64 then a * b else - 1)"

definition worst_case_bytes :: "nat \<Rightarrow> Limits \<Rightarrow> u64" where
  "worst_case_bytes max_permits l =
     (let limits = clamped max_permits l in
      saturating_mul
        (saturating_mul (len_u64 (li_max_connections limits))
          (saturating_add (len_u64 (li_max_in_flight limits)) FRAMES_PER_CONNECTION))
        (ucast (li_max_frame limits)))"

subsection \<open>Why a connection ends\<close>

datatype Close =
    ClosePeerClosed
  | CloseIo IoError
  | CloseIdle
  | CloseShutdown
  | CloseIncompatible
  | CloseInternal string
  | CloseFault Failure string

fun close_fault :: "Close \<Rightarrow> Failure option" where
  "close_fault (CloseFault failure _) = Some failure"
| "close_fault _ = None"

fun into_close :: "ReadFail \<Rightarrow> Close" where
  "into_close Closed = ClosePeerClosed"
| "into_close (Io e) = CloseIo e"
| "into_close Timeout = CloseFault Failure.ProtocolError ''partial frame timed out''"
| "into_close (Header _) = CloseFault Failure.ProtocolError ''invalid frame header''"

subsection \<open>Messages\<close>

record Archive =
  ar_client_hello :: "(ClientHelloMsg \<Rightarrow> u8 list option) \<times> (u8 list \<Rightarrow> ClientHelloMsg option)"
  ar_server_hello :: "(ServerHelloMsg \<Rightarrow> u8 list option) \<times> (u8 list \<Rightarrow> ServerHelloMsg option)"
  ar_auth :: "(u8 list \<Rightarrow> u8 list option) \<times> (u8 list \<Rightarrow> u8 list option)"
  ar_admitted :: "(unit \<Rightarrow> u8 list option) \<times> (u8 list \<Rightarrow> unit option)"
  ar_request :: "(RequestMsg \<Rightarrow> u8 list option) \<times> (u8 list \<Rightarrow> RequestMsg option)"
  ar_cancel :: "(u64 \<Rightarrow> u8 list option) \<times> (u8 list \<Rightarrow> u64 option)"
  ar_response :: "(ResponseMsg \<Rightarrow> u8 list option) \<times> (u8 list \<Rightarrow> ResponseMsg option)"
  ar_fault :: "(Failure \<Rightarrow> u8 list option) \<times> (u8 list \<Rightarrow> Failure option)"

definition message :: "FrameKind \<Rightarrow> ('m \<Rightarrow> (unit, WireError) result) \<Rightarrow>
    ('m \<Rightarrow> u8 list option) \<times> (u8 list \<Rightarrow> 'm option) \<Rightarrow> 'm Message" where
  "message kind check s = \<lparr>msg_kind = kind, msg_check = check, to_bytes = fst s, from_bytes = snd s\<rparr>"

definition SIGNATURE_LEN :: nat where "SIGNATURE_LEN = 64"

definition client_hello_message :: "Archive \<Rightarrow> ClientHelloMsg Message" where
  "client_hello_message ar = message ClientHello client_hello_check (ar_client_hello ar)"

definition server_hello_message :: "Archive \<Rightarrow> ServerHelloMsg Message" where
  "server_hello_message ar = message ServerHello server_hello_check (ar_server_hello ar)"

definition auth_message :: "Archive \<Rightarrow> u8 list Message" where
  "auth_message ar = message Auth (\<lambda>_. Ok ()) (ar_auth ar)"

definition admitted_message :: "Archive \<Rightarrow> unit Message" where
  "admitted_message ar = message Admitted (\<lambda>_. Ok ()) (ar_admitted ar)"

definition request_message :: "Archive \<Rightarrow> RequestMsg Message" where
  "request_message ar = message Request request_check (ar_request ar)"

definition cancel_message :: "Archive \<Rightarrow> u64 Message" where
  "cancel_message ar = message Cancel (\<lambda>_. Ok ()) (ar_cancel ar)"

definition response_message :: "Archive \<Rightarrow> ResponseMsg Message" where
  "response_message ar = message Response response_check (ar_response ar)"

definition fault_message :: "Archive \<Rightarrow> Failure Message" where
  "fault_message ar = message Fault fault_check (ar_fault ar)"

subsection \<open>Tenants\<close>

record TenantEntry =
  te_id :: TenantId
  te_class :: TenantClass
  te_verifying_key :: "u8 list"
  te_bound_uids :: "u32 list"
  te_parent :: "TenantId option"

definition tenant_entry_from :: "TenantRecord \<Rightarrow> TenantEntry" where
  "tenant_entry_from r =
     \<lparr>te_id = tr_id r, te_class = tr_class r, te_verifying_key = tr_verifying_key r,
      te_bound_uids = tr_bound_uids r, te_parent = tr_parent r\<rparr>"

definition store_tenant :: "Db \<Rightarrow> TenantId \<Rightarrow> TenantEntry option" where
  "store_tenant db t = map_option tenant_entry_from (db_tenants db t)"

record TenantAuth =
  ta_verifying_key :: "u8 list"
  ta_bound_uids :: "u32 list"

definition tenant_lookup :: "Db \<Rightarrow> TenantId \<Rightarrow> TenantAuth option" where
  "tenant_lookup db t =
     map_option (\<lambda>e. \<lparr>ta_verifying_key = te_verifying_key e, ta_bound_uids = te_bound_uids e\<rparr>) (store_tenant db t)"

subsection \<open>The server's handshake\<close>

definition SERVER_VERSION_MIN :: u16 where "SERVER_VERSION_MIN = WIRE_VERSION"
definition SERVER_VERSION_MAX :: u16 where "SERVER_VERSION_MAX = WIRE_VERSION"

record Admission =
  ad_tenant :: TenantId
  ad_version :: u16

text \<open>The verifier and the dummy key that stands in for an unknown tenant's.\<close>

record Authenticator =
  au_verify :: "u8 list \<Rightarrow> u8 list \<Rightarrow> u8 list \<Rightarrow> bool"
  au_dummy_key :: "u8 list"

definition authenticate :: "Authenticator \<Rightarrow> (TenantId \<Rightarrow> TenantAuth option) \<Rightarrow> TenantId \<Rightarrow> u32 \<Rightarrow> u8 list \<Rightarrow> u8 list \<Rightarrow>
    bool" where
  "authenticate au directory tenant uid transcript signature =
     (let entry = directory tenant;
          known = (entry \<noteq> None);
          (key, bound_uids) = (case entry of
              Some r \<Rightarrow> (ta_verifying_key r, ta_bound_uids r)
            | None \<Rightarrow> (au_dummy_key au, []));
          key_ok = au_verify au key transcript signature;
          uid_ok = (uid \<in> set bound_uids) in
      known \<and> key_ok \<and> uid_ok)"

definition hs_read :: "nat \<Rightarrow> Limits \<Rightarrow> (Frame, Close) io" where
  "hs_read outer limits = lmap_err into_close (read_frame (Some outer) PRE_AUTH_MAX_BODY (li_frame_timeout limits))"

definition expect_frame :: "'m Message \<Rightarrow> Frame \<Rightarrow> ('m, Close) result" where
  "expect_frame T frame =
     (if h_kind (fr_header frame) = Request \<or> h_kind (fr_header frame) = Cancel
      then Err (CloseFault Failure.AuthFailed ''request before authentication'')
      else map_err (\<lambda>_. CloseFault Failure.ProtocolError ''invalid handshake frame'')
        (decode_frame T (fr_header frame) (fr_body frame) PRE_AUTH_MAX_BODY))"

definition hs_send :: "nat \<Rightarrow> Limits \<Rightarrow> (u8 list, WireError) result \<Rightarrow> (unit, Close) io" where
  "hs_send outer limits encoded =
     lbind (lreturn (map_err (\<lambda>_. CloseInternal ''handshake frame did not encode'') encoded)) (\<lambda>bytes.
       lmap_err CloseIo (write_frame (Some outer) bytes (li_frame_timeout limits)))"

definition fresh_nonce :: "Nonce option \<Rightarrow> (Nonce, Close) result" where
  "fresh_nonce draw = ok_or draw (CloseInternal ''random source failed'')"

definition handshake :: "Archive \<Rightarrow> Authenticator \<Rightarrow> (TenantId \<Rightarrow> TenantAuth option) \<Rightarrow> u32 \<Rightarrow> Limits \<Rightarrow> nat \<Rightarrow>
    Nonce option \<Rightarrow> (Admission, Close) io" where
  "handshake ar au directory uid limits outer draw =
     lbind (hs_read outer limits) (\<lambda>frame1.
     lbind (lreturn (expect_frame (client_hello_message ar) frame1)) (\<lambda>hello.
     lbind (lreturn (fresh_nonce draw)) (\<lambda>snonce.
     let choice = negotiate_version (version_min hello) (version_max hello) SERVER_VERSION_MIN SERVER_VERSION_MAX in
     lbind (hs_send outer limits (encode_frame (server_hello_message ar)
         \<lparr>hello_version = choice, server_nonce = snonce, max_frame = li_max_frame limits\<rparr> PRE_AUTH_MAX_BODY)) (\<lambda>_.
     (case choice of
        Incompatible \<Rightarrow> lreturn (Err CloseIncompatible)
      | Chosen version \<Rightarrow>
          lbind (hs_read outer limits) (\<lambda>frame2.
          lbind (lreturn (expect_frame (auth_message ar) frame2)) (\<lambda>signature.
          let transcript = auth_transcript version (hello_tenant hello) (client_nonce hello) snonce in
          if \<not> authenticate au directory (hello_tenant hello) uid transcript signature
          then lreturn (Err (CloseFault Failure.AuthFailed ''authentication failed''))
          else lbind (hs_send outer limits (encode_frame (admitted_message ar) () PRE_AUTH_MAX_BODY)) (\<lambda>_.
            lreturn (Ok \<lparr>ad_tenant = hello_tenant hello, ad_version = version\<rparr>)))))))))"

subsection \<open>From accepted to admitted\<close>

definition identity :: "Admission \<Rightarrow> u32 \<Rightarrow> int option \<Rightarrow> u32 \<Rightarrow> ConnIdentity" where
  "identity admission uid pid frame_bound =
     \<lparr>conn_tenant = ad_tenant admission, conn_uid = uid, conn_pid = pid, conn_version = ad_version admission,
      conn_max_frame = frame_bound\<rparr>"

definition close_handshake :: "Archive \<Rightarrow> Close \<Rightarrow> nat \<Rightarrow> Link \<Rightarrow> Link" where
  "close_handshake ar close write_timeout ln =
     (case Option.bind (close_fault close) (fault_frame (fault_message ar)) of
        Some bytes \<Rightarrow> fst (write_frame None bytes write_timeout ln)
      | None \<Rightarrow> ln)"

text \<open>\<open>stop\<close> is the instant the server signals shutdown, if it does; the connection then ends without a word.\<close>

definition admit :: "Archive \<Rightarrow> Authenticator \<Rightarrow> (TenantId \<Rightarrow> TenantAuth option) \<Rightarrow> u32 \<Rightarrow> int option \<Rightarrow> Limits \<Rightarrow>
    nat option \<Rightarrow> Nonce option \<Rightarrow> Link \<Rightarrow> Link \<times> (ConnIdentity, Close) result" where
  "admit ar au directory uid pid limits stop draw ln =
     (let deadline = ln_now ln + li_handshake_timeout limits;
          stopped = (case stop of Some s \<Rightarrow> s < deadline | None \<Rightarrow> False);
          outer = (if stopped then the stop else deadline) in
      (case handshake ar au directory uid limits outer draw ln of
         (ln1, Some (Ok admission)) \<Rightarrow> (ln1, Ok (identity admission uid pid (li_max_frame limits)))
       | (ln1, Some (Err close)) \<Rightarrow> (close_handshake ar close (li_frame_timeout limits) ln1, Err close)
       | (ln1, None) \<Rightarrow>
           if stopped then (ln1, Err CloseShutdown)
           else (let close = CloseFault Failure.ProtocolError ''handshake timed out'' in
             (close_handshake ar close (li_frame_timeout limits) ln1, Err close))))"

subsection \<open>The client's handshake\<close>

record Timeouts =
  to_handshake :: nat
  to_frame :: nat

definition timeouts_default :: Timeouts where
  "timeouts_default = \<lparr>to_handshake = millis (unat HANDSHAKE_TIMEOUT_MS), to_frame = millis (60 * 1000)\<rparr>"

record Client =
  cl_link :: Link
  cl_version :: u16
  cl_max_frame :: u32
  cl_timeouts :: Timeouts
  cl_broken :: bool

type_synonym 'a call = "Link \<Rightarrow> Link \<times> ('a, XenosError) result"

definition cbind :: "'a call \<Rightarrow> ('a \<Rightarrow> 'b call) \<Rightarrow> 'b call" where
  "cbind m k ln = (case m ln of (ln', Err e) \<Rightarrow> (ln', Err e) | (ln', Ok x) \<Rightarrow> k x ln')"

definition creturn :: "('a, XenosError) result \<Rightarrow> 'a call" where
  "creturn r ln = (ln, r)"

definition send_message_by :: "'m Message \<Rightarrow> 'm \<Rightarrow> u32 \<Rightarrow> nat \<Rightarrow> unit call" where
  "send_message_by T m cap deadline = cbind (creturn (frame_bytes T m cap)) (write_all deadline)"

definition read_message_by :: "Failure Message \<Rightarrow> 'm Message \<Rightarrow> u32 \<Rightarrow> nat \<Rightarrow> 'm call" where
  "read_message_by faults T cap deadline =
     cbind (client_read_frame cap deadline) (\<lambda>frame. creturn (xframe_decode faults T frame cap))"

definition client_handshake :: "Archive \<Rightarrow> (u8 list \<Rightarrow> u8 list) \<Rightarrow> TenantId \<Rightarrow> u16 \<times> u16 \<Rightarrow> Timeouts \<Rightarrow> Nonce option \<Rightarrow>
    Link \<Rightarrow> Link \<times> (Client, XenosError) result" where
  "client_handshake ar sign tenant versions timeouts draw ln =
     (let deadline = instant_after ln (to_handshake timeouts); vmin = fst versions; vmax = snd versions in
      cbind (creturn (ok_or draw XRandom)) (\<lambda>cnonce.
      cbind (send_message_by (client_hello_message ar)
          \<lparr>version_min = vmin, version_max = vmax, hello_tenant = tenant, client_nonce = cnonce\<rparr>
          PRE_AUTH_MAX_BODY deadline) (\<lambda>_.
      cbind (read_message_by (fault_message ar) (server_hello_message ar) PRE_AUTH_MAX_BODY deadline) (\<lambda>reply.
      (case hello_version reply of
         Incompatible \<Rightarrow> creturn (Err (XIncompatible vmin vmax))
       | Chosen version \<Rightarrow>
           cbind (creturn (ensure (vmin \<le> version \<and> version \<le> vmax) (XVersionOutOfRange version vmin vmax) (Ok ()))) (\<lambda>_.
           let transcript = auth_transcript version tenant cnonce (server_nonce reply) in
           cbind (send_message_by (auth_message ar) (sign transcript) PRE_AUTH_MAX_BODY deadline) (\<lambda>_.
           cbind (read_message_by (fault_message ar) (admitted_message ar) PRE_AUTH_MAX_BODY deadline) (\<lambda>_.
           (\<lambda>ln'. (ln', Ok \<lparr>cl_link = ln', cl_version = version, cl_max_frame = max_frame reply,
              cl_timeouts = timeouts, cl_broken = False\<rparr>))))))))) ln)"

section \<open>Lemmas\<close>

subsection \<open>Admission\<close>

lemma authenticate_iff: "authenticate au directory tenant uid transcript signature \<longleftrightarrow>
    (\<exists>r. directory tenant = Some r \<and> au_verify au (ta_verifying_key r) transcript signature \<and> uid \<in> set (ta_bound_uids r))"
  by (auto simp: authenticate_def Let_def split: option.splits)

lemma negotiated_version:
  "negotiate_version vmin vmax SERVER_VERSION_MIN SERVER_VERSION_MAX = Chosen v \<longleftrightarrow>
    v = WIRE_VERSION \<and> vmin \<le> WIRE_VERSION \<and> WIRE_VERSION \<le> vmax"
  by (auto simp: negotiate_version_def SERVER_VERSION_MIN_def SERVER_VERSION_MAX_def Let_def)

text \<open>The instant by which the handshake of a connection has to be over.\<close>

definition handshake_end :: "Limits \<Rightarrow> nat option \<Rightarrow> Link \<Rightarrow> nat" where
  "handshake_end limits stop ln =
     (case stop of Some s \<Rightarrow> min s (ln_now ln + li_handshake_timeout limits)
      | None \<Rightarrow> ln_now ln + li_handshake_timeout limits)"

text \<open>What a peer claims on the wire: its two frames are a hello that names the tenant and an authentication that
  carries the signature, and the transcript is the one of this connection. It mentions no directory, key or
  user id.\<close>

definition presents :: "Archive \<Rightarrow> Limits \<Rightarrow> nat \<Rightarrow> Nonce option \<Rightarrow> Link \<Rightarrow> TenantId \<Rightarrow> u8 list \<Rightarrow> u8 list \<Rightarrow> bool" where
  "presents ar limits outer draw ln tenant transcript signature \<longleftrightarrow>
     (\<exists>ln1 ln2 ln3 frame1 frame2 hello snonce version.
        hs_read outer limits ln = (ln1, Some (Ok frame1)) \<and> expect_frame (client_hello_message ar) frame1 = Ok hello \<and>
        draw = Some snonce \<and>
        negotiate_version (version_min hello) (version_max hello) SERVER_VERSION_MIN SERVER_VERSION_MAX = Chosen version \<and>
        hs_send outer limits (encode_frame (server_hello_message ar)
          \<lparr>hello_version = Chosen version, server_nonce = snonce, max_frame = li_max_frame limits\<rparr> PRE_AUTH_MAX_BODY) ln1 =
            (ln2, Some (Ok ())) \<and>
        hs_read outer limits ln2 = (ln3, Some (Ok frame2)) \<and> expect_frame (auth_message ar) frame2 = Ok signature \<and>
        tenant = hello_tenant hello \<and> transcript = auth_transcript version (hello_tenant hello) (client_nonce hello) snonce)"

lemma handshake_Ok:
  assumes "handshake ar au directory uid limits outer draw ln = (ln', Some (Ok admission))"
  shows "\<exists>cnonce snonce signature. draw = Some snonce \<and> ad_version admission = WIRE_VERSION \<and>
    presents ar limits outer draw ln (ad_tenant admission)
      (auth_transcript (ad_version admission) (ad_tenant admission) cnonce snonce) signature \<and>
    authenticate au directory (ad_tenant admission) uid
      (auth_transcript (ad_version admission) (ad_tenant admission) cnonce snonce) signature"
proof -
  let ?choice = "\<lambda>hello. negotiate_version (version_min hello) (version_max hello) SERVER_VERSION_MIN SERVER_VERSION_MAX"
  obtain hello :: ClientHelloMsg and snonce ln1 ln2 frame1 where
    pre: "hs_read outer limits ln = (ln1, Some (Ok frame1))" "expect_frame (client_hello_message ar) frame1 = Ok hello"
      "draw = Some snonce"
    and sent: "hs_send outer limits (encode_frame (server_hello_message ar)
      \<lparr>hello_version = ?choice hello, server_nonce = snonce, max_frame = li_max_frame limits\<rparr> PRE_AUTH_MAX_BODY) ln1 =
      (ln2, Some (Ok ()))"
    and rest: "(case ?choice hello of
        Incompatible \<Rightarrow> lreturn (Err CloseIncompatible)
      | Chosen version \<Rightarrow>
          lbind (hs_read outer limits) (\<lambda>frame2.
          lbind (lreturn (expect_frame (auth_message ar) frame2)) (\<lambda>signature.
          if \<not> authenticate au directory (hello_tenant hello) uid
              (auth_transcript version (hello_tenant hello) (client_nonce hello) snonce) signature
          then lreturn (Err (CloseFault Failure.AuthFailed ''authentication failed''))
          else lbind (hs_send outer limits (encode_frame (admitted_message ar) () PRE_AUTH_MAX_BODY)) (\<lambda>_.
            lreturn (Ok \<lparr>ad_tenant = hello_tenant hello, ad_version = version\<rparr>))))) ln2 = (ln', Some (Ok admission))"
    using assms unfolding handshake_def lbind_Ok_iff Let_def fresh_nonce_def
    by (auto simp: ok_or_def lreturn_def split: option.split_asm)
  then obtain version where v: "?choice hello = Chosen version" by (cases "?choice hello") (simp_all add: lreturn_def)
  with rest obtain signature frame2 ln3 where auth: "authenticate au directory (hello_tenant hello) uid
      (auth_transcript version (hello_tenant hello) (client_nonce hello) snonce) signature"
    and read: "hs_read outer limits ln2 = (ln3, Some (Ok frame2))" "expect_frame (auth_message ar) frame2 = Ok signature"
    and admission: "admission = \<lparr>ad_tenant = hello_tenant hello, ad_version = version\<rparr>"
    by (auto simp: lbind_Ok_iff lreturn_def split: if_split_asm)
  from v have "version = WIRE_VERSION" by (simp only: negotiated_version)
  moreover have "presents ar limits outer draw ln (hello_tenant hello)
      (auth_transcript version (hello_tenant hello) (client_nonce hello) snonce) signature"
    unfolding presents_def using pre sent read v by (intro exI conjI) (auto intro: refl)
  ultimately show ?thesis using pre(3) auth admission by auto
qed

lemma admit_outer:
  "(if case stop of Some s \<Rightarrow> s < ln_now ln + li_handshake_timeout limits | None \<Rightarrow> False then the stop
    else ln_now ln + li_handshake_timeout limits) = handshake_end limits stop ln"
  by (auto simp: handshake_end_def min_def split: option.splits)

lemma admit_Ok_iff:
  "admit ar au directory uid pid limits stop draw ln = (ln', Ok conn) \<longleftrightarrow>
    (\<exists>admission. conn = identity admission uid pid (li_max_frame limits) \<and>
      handshake ar au directory uid limits (handshake_end limits stop ln) draw ln = (ln', Some (Ok admission)))"
  by (auto simp: admit_def Let_def admit_outer split: prod.splits option.splits sum.splits if_splits)

subsection \<open>Refusals\<close>

lemma lbind_cong:
  "(\<And>ln1 x. m ln = (ln1, Some (Ok x)) \<Longrightarrow> k x ln1 = k' x ln1) \<Longrightarrow> lbind m k ln = lbind m k' ln"
  by (auto simp: lbind_def split: prod.splits option.splits sum.splits)

text \<open>What a run does depends on the directory, the keys and the user id only through the verdict on what was
  presented.\<close>

lemma handshake_unverified:
  assumes "\<And>tenant tr sig. presents ar limits outer draw ln tenant tr sig \<Longrightarrow> \<not> authenticate au directory tenant uid tr sig"
    and "\<And>tenant tr sig. presents ar limits outer draw ln tenant tr sig \<Longrightarrow> \<not> authenticate au' directory' tenant uid' tr sig"
  shows "handshake ar au directory uid limits outer draw ln = handshake ar au' directory' uid' limits outer draw ln"
  unfolding handshake_def Let_def
proof (intro lbind_cong, goal_cases)
  case (1 ln1 frame1 ln1' hello ln1'' snonce ln2 u)
  then have pre: "expect_frame (client_hello_message ar) frame1 = Ok hello" "draw = Some snonce" "ln1' = ln1" "ln1'' = ln1"
    by (auto simp: lreturn_def fresh_nonce_def ok_or_Ok_iff)
  show ?case
  proof (cases "negotiate_version (version_min hello) (version_max hello) SERVER_VERSION_MIN SERVER_VERSION_MAX")
    case (Chosen version)
    show ?thesis
      unfolding Chosen VersionChoice.case
    proof (intro lbind_cong, goal_cases)
      case (1 ln3 frame2 ln3' signature)
      then have "presents ar limits outer draw ln (hello_tenant hello)
        (auth_transcript version (hello_tenant hello) (client_nonce hello) snonce) signature"
        unfolding presents_def using \<open>hs_read outer limits ln = (ln1, Some (Ok frame1))\<close> pre Chosen
          \<open>hs_send outer limits _ _ = _\<close>
        by (intro exI [of _ ln1] exI [of _ ln2] exI [of _ ln3] exI [of _ frame1] exI [of _ frame2] exI [of _ hello]
            exI [of _ snonce] exI [of _ version]) (auto simp: lreturn_def)
      with assms show ?case by simp
    qed
  qed simp
qed

lemma admit_same_run:
  assumes "handshake ar au directory uid limits (handshake_end limits stop ln) draw ln =
      handshake ar au' directory' uid' limits (handshake_end limits stop ln) draw ln"
    and "\<And>ln1 admission. handshake ar au directory uid limits (handshake_end limits stop ln) draw ln \<noteq> (ln1, Some (Ok admission))"
  shows "admit ar au directory uid pid limits stop draw ln = admit ar au' directory' uid' pid' limits stop draw ln"
  using assms by (auto simp: admit_def Let_def admit_outer split: prod.split option.split sum.split)

lemma unverified_not_admitted:
  assumes "\<And>tenant tr sig. presents ar limits outer draw ln tenant tr sig \<Longrightarrow> \<not> authenticate au directory tenant uid tr sig"
  shows "handshake ar au directory uid limits outer draw ln \<noteq> (ln', Some (Ok admission))"
  using handshake_Ok [of ar au directory uid limits outer draw ln ln' admission] assms by blast

subsection \<open>Bounds before admission\<close>

fun is_byte :: "nat \<times> Incoming \<Rightarrow> bool" where
  "is_byte (t, Byte b) \<longleftrightarrow> True"
| "is_byte _ \<longleftrightarrow> False"

definition waiting :: "Link \<Rightarrow> nat" where
  "waiting ln = length (filter is_byte (ln_in ln))"

text \<open>An operation confined to \<open>outer\<close> and \<open>k\<close> ends by that instant and takes at most \<open>k\<close> bytes of input.\<close>

definition confined :: "nat \<Rightarrow> nat \<Rightarrow> ('a, 'e) io \<Rightarrow> bool" where
  "confined outer k m \<longleftrightarrow> (\<forall>ln ln' r. m ln = (ln', r) \<longrightarrow> ln_now ln \<le> outer \<longrightarrow>
     ln_now ln \<le> ln_now ln' \<and> ln_now ln' \<le> outer \<and> waiting ln \<le> waiting ln' + k)"

lemma confinedD:
  assumes "confined outer k m" and "m ln = (ln', r)" and "ln_now ln \<le> outer"
  shows "ln_now ln \<le> ln_now ln'" "ln_now ln' \<le> outer" "waiting ln \<le> waiting ln' + k"
  using assms by (auto simp: confined_def)

lemma waiting_arriving:
  "length ts = length bs \<Longrightarrow>
    length (filter is_byte (zip ts (map Byte bs))) = length bs"
  by (induction ts bs rule: list_induct2) simp_all

lemma sys_read_confined:
  assumes "sys_read ln (Some u) n = (ln', r)"
  shows "ln_now ln \<le> ln_now ln' \<and> ln_now ln' \<le> max (ln_now ln) u \<and>
    waiting ln \<le> waiting ln' + (case r of Got bs \<Rightarrow> length bs | _ \<Rightarrow> 0)"
proof (cases "\<exists>bs. r = Got bs")
  case True
  then obtain bs where r: "r = Got bs" by blast
  obtain ts where "length ts = length bs" "ln_in ln = zip ts (map Byte bs) @ ln_in ln'"
    using sys_read_Got(7) [of ln "Some u" n ln' bs] assms r by blast
  then have "waiting ln = length bs + waiting ln'"
    by (simp add: waiting_def waiting_arriving)
  moreover have "ln_now ln \<le> ln_now ln' \<and> ln_now ln' \<le> max (ln_now ln) u"
    using assms r by (auto simp: sys_read_def Let_def split: list.splits Incoming.splits if_splits prod.splits)
  ultimately show ?thesis by (simp add: r)
qed (use assms in \<open>auto simp: sys_read_def waiting_def Let_def split: list.splits Incoming.splits if_splits prod.splits\<close>)

lemma sys_write_confined:
  assumes "sys_write ln u bytes = (ln', r)"
  shows "ln_now ln \<le> ln_now ln' \<and> ln_now ln' \<le> max (ln_now ln) u \<and> waiting ln' = waiting ln"
  using assms by (auto simp: sys_write_def waiting_def Let_def split: list.splits Accept.splits if_splits)

lemma bound_le: "timer_bound (Some outer) deadline \<le> outer"
  by (simp add: timer_bound_def)

lemma read_exact_confined: "confined outer n (read_exact (Some outer) deadline n)"
  unfolding confined_def
proof (intro allI impI)
  fix ln ln' r
  assume "read_exact (Some outer) deadline n ln = (ln', r)" "ln_now ln \<le> outer"
  then show "ln_now ln \<le> ln_now ln' \<and> ln_now ln' \<le> outer \<and> waiting ln \<le> waiting ln' + n"
  proof (induction n arbitrary: ln ln' r rule: less_induct)
    case (less n)
    show ?case
    proof (cases "n = 0")
      case False
      obtain ln1 o1 where rd: "sys_read ln (Some (timer_bound (Some outer) deadline)) n = (ln1, o1)" by force
      have c: "ln_now ln \<le> ln_now ln1" "ln_now ln1 \<le> outer" "waiting ln \<le> waiting ln1 + (case o1 of Got bs \<Rightarrow> length bs | _ \<Rightarrow> 0)"
        using sys_read_confined [OF rd] bound_le [of outer deadline] less.prems(2) by auto
      show ?thesis
      proof (cases "\<exists>bs. o1 = Got bs")
        case True
        then obtain bs where o1: "o1 = Got bs" by blast
        have bs: "0 < length bs" "length bs \<le> n" using sys_read_Got(1,3) rd o1 False by blast+
        obtain ln2 r2 where rec: "read_exact (Some outer) deadline (n - length bs) ln1 = (ln2, r2)" by force
        have "n - length bs < n" using bs False by simp
        from less.IH [OF this rec c(2)] have "ln_now ln1 \<le> ln_now ln2 \<and> ln_now ln2 \<le> outer \<and>
            waiting ln1 \<le> waiting ln2 + (n - length bs)" .
        moreover have "ln' = ln2"
          using less.prems(1) False rd o1 rec
          by (subst (asm) read_exact.simps) (auto split: option.splits sum.splits)
        ultimately show ?thesis using c bs o1 by auto
      next
        case no: False
        then have "ln' = ln1"
          using less.prems(1) False rd by (subst (asm) read_exact.simps) (auto split: ReadOutcome.splits)
        then show ?thesis using c no by (auto split: ReadOutcome.splits)
      qed
    qed (use less.prems in \<open>simp add: read_exact.simps\<close>)
  qed
qed

lemma write_exact_confined: "confined outer 0 (write_exact (Some outer) deadline bytes)"
  unfolding confined_def
proof (intro allI impI)
  fix ln ln' r
  assume "write_exact (Some outer) deadline bytes ln = (ln', r)" "ln_now ln \<le> outer"
  then show "ln_now ln \<le> ln_now ln' \<and> ln_now ln' \<le> outer \<and> waiting ln \<le> waiting ln' + 0"
  proof (induction bytes arbitrary: ln ln' r rule: length_induct)
    case (1 bytes)
    show ?case
    proof (cases "bytes = []")
      case False
      obtain ln1 o1 where wr: "sys_write ln (timer_bound (Some outer) deadline) bytes = (ln1, o1)" by force
      have c: "ln_now ln \<le> ln_now ln1" "ln_now ln1 \<le> outer" "waiting ln = waiting ln1"
        using sys_write_confined [OF wr] bound_le [of outer deadline] 1(3) by auto
      show ?thesis
      proof (cases "\<exists>n > 0. o1 = Wrote n")
        case True
        then obtain n where n: "0 < n" "o1 = Wrote n" by blast
        then have "write_exact (Some outer) deadline (drop n bytes) ln1 = (ln', r)"
          using 1(2) False wr by (subst (asm) write_exact.simps) simp
        moreover have "length (drop n bytes) < length bytes" using n False by simp
        ultimately show ?thesis using 1(1) [rule_format, of "drop n bytes" ln1 ln' r] c by auto
      next
        case no: False
        then have "ln' = ln1"
          using 1(2) False wr by (subst (asm) write_exact.simps, cases o1) (auto split: if_splits)
        then show ?thesis using c by simp
      qed
    qed (use 1 in \<open>simp add: write_exact.simps\<close>)
  qed
qed

lemma confined_lbind:
  assumes "confined outer j m" and "\<And>ln ln' x. m ln = (ln', Some (Ok x)) \<Longrightarrow> confined outer k (f x)"
  shows "confined outer (j + k) (lbind m f)"
  unfolding confined_def
proof (intro allI impI)
  fix ln ln' r
  assume run: "lbind m f ln = (ln', r)" and now: "ln_now ln \<le> outer"
  obtain ln1 r1 where m: "m ln = (ln1, r1)" by force
  note c = confinedD [OF assms(1) m now]
  show "ln_now ln \<le> ln_now ln' \<and> ln_now ln' \<le> outer \<and> waiting ln \<le> waiting ln' + (j + k)"
  proof (cases "\<exists>x. r1 = Some (Ok x)")
    case True
    then obtain x where x: "r1 = Some (Ok x)" by blast
    then have "f x ln1 = (ln', r)" using run m by simp
    from confinedD [OF assms(2) [OF m [unfolded x]] this c(2)] c show ?thesis by linarith
  next
    case False
    then have "ln' = ln1" using run m by (auto simp: lbind_def split: option.splits sum.splits)
    then show ?thesis using c by simp
  qed
qed

lemma confined_simple:
  "confined outer 0 (lreturn r)" "confined outer k m \<Longrightarrow> confined outer k (lmap_err f m)"
  "confined outer 0 (write_frame (Some outer) bytes timeout)" "confined outer 1 (read_first (Some outer))"
proof -
  show "confined outer 0 (lreturn r)" by (auto simp: confined_def)
  show "confined outer k m \<Longrightarrow> confined outer k (lmap_err f m)"
    by (auto simp: confined_def lmap_err_def split: prod.splits)
  show "confined outer 0 (write_frame (Some outer) bytes timeout)"
    using write_exact_confined [of outer] by (auto simp: confined_def write_frame_def)
  show "confined outer 1 (read_first (Some outer))"
    unfolding confined_def
  proof (intro allI impI)
    fix ln ln' r
    assume run: "read_first (Some outer) ln = (ln', r)" and now: "ln_now ln \<le> outer"
    obtain ln1 o1 where rd: "sys_read ln (Some outer) 1 = (ln1, o1)" by force
    have "ln' = ln1" using run rd by (auto simp: read_first_def split: ReadOutcome.splits)
    moreover have "(case o1 of Got bs \<Rightarrow> length bs | _ \<Rightarrow> 0) \<le> 1"
      using sys_read_Got(1) [of ln "Some outer" 1] rd by (auto split: ReadOutcome.splits)
    ultimately show "ln_now ln \<le> ln_now ln' \<and> ln_now ln' \<le> outer \<and> waiting ln \<le> waiting ln' + 1"
      using sys_read_confined [OF rd] now by auto
  qed
qed

lemma confined_mono: "confined outer j m \<Longrightarrow> j \<le> k \<Longrightarrow> confined outer k m"
  by (fastforce simp: confined_def)

lemma confined_first: "confined outer k m \<Longrightarrow> (\<And>x. confined outer 0 (f x)) \<Longrightarrow> confined outer k (lbind m f)"
  using confined_lbind [of outer k m 0 f] by simp

lemma confined_then: "confined outer 0 m \<Longrightarrow> (\<And>x. confined outer k (f x)) \<Longrightarrow> confined outer k (lbind m f)"
  using confined_lbind [of outer 0 m k f] by simp

lemma read_frame_confined:
  "confined outer (HEADER_LEN + unat (clamp_cap cap)) (read_frame (Some outer) cap frame_timeout)"
proof -
  let ?rest = "\<lambda>deadline first. lbind (read_exact (Some outer) deadline (HEADER_LEN - 1)) (\<lambda>rest.
       lbind (lreturn (map_err Header (header_decode (first @ rest) cap))) (\<lambda>header.
       lbind (read_exact (Some outer) deadline (unat (h_len header))) (\<lambda>body.
       lreturn (Ok \<lparr>fr_header = header, fr_body = body\<rparr>))))"
  have body: "confined outer (unat (clamp_cap cap)) (lbind (read_exact (Some outer) deadline (unat (h_len header))) (\<lambda>body.
       lreturn (Ok \<lparr>fr_header = header, fr_body = body\<rparr>)))"
    if "header_decode bytes cap = Ok header" for deadline header bytes
  proof -
    have "h_len header \<le> clamp_cap cap"
      using that by (auto simp: header_decode_def Let_def result_iffs)
    then have "unat (h_len header) \<le> unat (clamp_cap cap)" by (simp add: word_le_nat_alt)
    moreover have "confined outer (unat (h_len header)) (lbind (read_exact (Some outer) deadline (unat (h_len header)))
        (\<lambda>body. lreturn (Ok \<lparr>fr_header = header, fr_body = body\<rparr>)))"
      by (intro confined_first read_exact_confined confined_simple(1))
    ultimately show ?thesis by (rule confined_mono [rotated])
  qed
  have tail: "confined outer (HEADER_LEN - 1 + (0 + unat (clamp_cap cap))) (?rest deadline first)" for deadline first
    by (intro confined_lbind read_exact_confined confined_simple(1))
      (auto simp: map_err_def split: sum.splits intro!: body)
  then have "confined outer (HEADER_LEN - 1 + unat (clamp_cap cap)) (\<lambda>ln. ?rest (instant_after ln frame_timeout) first ln)" for first
    by (auto simp: confined_def)
  from confined_lbind [OF confined_simple(4) this]
  show ?thesis by (simp add: read_frame_def Let_def HEADER_LEN_def)
qed

lemma hs_confined:
  "confined outer (HEADER_LEN + unat PRE_AUTH_MAX_BODY) (hs_read outer limits)"
  "confined outer 0 (hs_send outer limits encoded)"
proof -
  have "clamp_cap PRE_AUTH_MAX_BODY = PRE_AUTH_MAX_BODY" by (simp add: clamp_cap_def PRE_AUTH_MAX_BODY_def HARD_MAX_BODY_def)
  with read_frame_confined [of outer PRE_AUTH_MAX_BODY "li_frame_timeout limits"]
  show "confined outer (HEADER_LEN + unat PRE_AUTH_MAX_BODY) (hs_read outer limits)"
    by (simp add: hs_read_def confined_simple(2))
  have "confined outer (0 + 0) (hs_send outer limits encoded)"
    unfolding hs_send_def by (intro confined_lbind confined_simple)
  then show "confined outer 0 (hs_send outer limits encoded)" by simp
qed

lemma handshake_confined:
  "confined outer (2 * (HEADER_LEN + unat PRE_AUTH_MAX_BODY)) (handshake ar au directory uid limits outer draw)"
proof -
  let ?k = "HEADER_LEN + unat PRE_AUTH_MAX_BODY"
  have zero: "confined outer ?k (lreturn r)" for r :: "(Admission, Close) result"
    by (rule confined_mono [OF confined_simple(1)]) simp
  have "confined outer (?k + ?k) (handshake ar au directory uid limits outer draw)"
    unfolding handshake_def Let_def
    by (rule confined_lbind [OF hs_confined(1)])
      (auto split: VersionChoice.split intro!: zero confined_then [OF confined_simple(1)] confined_then [OF hs_confined(2)]
        confined_first [OF hs_confined(1)] confined_simple(1))
  then show ?thesis by (simp only: mult_2)
qed

subsection \<open>An honest exchange\<close>

text \<open>What the handshake needs of the serializer: decoding inverts encoding, and a handshake message encodes
  within the bound that holds before admission.\<close>

definition faithful :: "('m \<Rightarrow> u8 list option) \<times> (u8 list \<Rightarrow> 'm option) \<Rightarrow> bool" where
  "faithful s \<longleftrightarrow> (\<forall>m b. fst s m = Some b \<longrightarrow> snd s b = Some m)"

definition compact :: "('m \<Rightarrow> bool) \<Rightarrow> ('m \<Rightarrow> u8 list option) \<times> (u8 list \<Rightarrow> 'm option) \<Rightarrow> bool" where
  "compact valid s \<longleftrightarrow> (\<forall>m. valid m \<longrightarrow> (\<exists>b. fst s m = Some b \<and> length b \<le> unat PRE_AUTH_MAX_BODY))"

definition handshake_codec :: "Archive \<Rightarrow> bool" where
  "handshake_codec ar \<longleftrightarrow>
     faithful (ar_client_hello ar) \<and> compact (\<lambda>_. True) (ar_client_hello ar) \<and>
     faithful (ar_server_hello ar) \<and> compact (\<lambda>_. True) (ar_server_hello ar) \<and>
     faithful (ar_auth ar) \<and> compact (\<lambda>m. length m = SIGNATURE_LEN) (ar_auth ar) \<and>
     faithful (ar_admitted ar) \<and> compact (\<lambda>_. True) (ar_admitted ar)"

lemmas message_defs = client_hello_message_def server_hello_message_def auth_message_def admitted_message_def
  request_message_def cancel_message_def response_message_def fault_message_def message_def

lemma clamp_pre_auth [simp]: "clamp_cap PRE_AUTH_MAX_BODY = PRE_AUTH_MAX_BODY"
  by (simp add: clamp_cap_def PRE_AUTH_MAX_BODY_def HARD_MAX_BODY_def)

lemma compact_encodes:
  assumes "compact valid s" and "valid m" and "check m = Ok ()"
  shows "\<exists>frame. encode_frame (message k check s) m PRE_AUTH_MAX_BODY = Ok frame"
  using assms by (auto simp: compact_def message_def encode_frame_Ok_iff)

lemma faithful_message: "faithful s \<Longrightarrow> to_bytes (message k check s) m = Some body \<Longrightarrow>
    from_bytes (message k check s) body = Some m"
  by (simp add: faithful_def message_def)

lemma hs_read_encoded:
  assumes s: "faithful s" and k: "k \<noteq> Request" "k \<noteq> Cancel"
    and enc: "encode_frame (message k check s) m PRE_AUTH_MAX_BODY = Ok frame"
    and inp: "ln_in ln = arriving ts frame @ rest" "length ts = length frame"
    and time: "ln_now ln \<le> limit" "\<forall>t \<in> set ts. t \<le> limit" "limit \<le> ln_now ln + li_frame_timeout limits" "limit \<le> outer"
      "limit + li_frame_timeout limits \<le> ln_last ln"
  shows "\<exists>at fr. ln_now ln \<le> at \<and> at \<le> limit \<and>
    hs_read outer limits ln = (ln\<lparr>ln_now := at, ln_in := rest\<rparr>, Some (Ok fr)) \<and>
    expect_frame (message k check s) fr = Ok m"
proof -
  have outer: "case Some outer of None \<Rightarrow> True | Some u \<Rightarrow> limit \<le> u" using time(4) by simp
  obtain at fr where r: "ln_now ln \<le> at" "at \<le> limit"
    "read_frame (Some outer) PRE_AUTH_MAX_BODY (li_frame_timeout limits) ln =
      (ln\<lparr>ln_now := at, ln_in := rest\<rparr>, Some (Ok fr))" "h_kind (fr_header fr) = msg_kind (message k check s)"
    "decode_frame (message k check s) (fr_header fr) (fr_body fr) PRE_AUTH_MAX_BODY = Ok m"
    using read_encoded [OF faithful_message [OF s] enc inp time(1,2,3) outer time(5)] by blast
  then have "expect_frame (message k check s) fr = Ok m"
    using k by (simp add: expect_frame_def map_err_def) (simp add: message_def)
  with r show ?thesis by (intro exI [of _ at] exI [of _ fr]) (simp add: hs_read_def)
qed

lemma hs_send_free:
  assumes "ln_writes ln = []"
  shows "hs_send outer limits (Ok bytes) ln = (ln\<lparr>ln_out := ln_out ln @ bytes\<rparr>, Some (Ok ()))"
  using write_frame_free [OF assms, of "Some outer" bytes "li_frame_timeout limits"]
  by (simp add: hs_send_def lbind_def lreturn_def map_err_def lmap_err_def)

text \<open>The four frames of an honest exchange.\<close>

definition exchange :: "Archive \<Rightarrow> (u8 list \<Rightarrow> u8 list) \<Rightarrow> TenantId \<Rightarrow> u16 \<times> u16 \<Rightarrow> u32 \<Rightarrow> Nonce \<Rightarrow> Nonce \<Rightarrow>
    (u8 list \<times> u8 list) \<times> (u8 list \<times> u8 list) \<Rightarrow> bool" where
  "exchange ar sign tenant versions frame_bound cnonce snonce frames \<longleftrightarrow>
     (case frames of ((c1, c2), (s1, s2)) \<Rightarrow>
        encode_frame (client_hello_message ar) \<lparr>version_min = fst versions, version_max = snd versions,
          hello_tenant = tenant, client_nonce = cnonce\<rparr> PRE_AUTH_MAX_BODY = Ok c1 \<and>
        encode_frame (server_hello_message ar) \<lparr>hello_version = Chosen WIRE_VERSION, server_nonce = snonce,
          max_frame = frame_bound\<rparr> PRE_AUTH_MAX_BODY = Ok s1 \<and>
        encode_frame (auth_message ar) (sign (auth_transcript WIRE_VERSION tenant cnonce snonce)) PRE_AUTH_MAX_BODY = Ok c2 \<and>
        encode_frame (admitted_message ar) () PRE_AUTH_MAX_BODY = Ok s2)"

lemma exchange_exists:
  assumes "handshake_codec ar" and "fst versions \<le> snd versions" and "\<And>tr. length (sign tr) = SIGNATURE_LEN"
    and "PRE_AUTH_MAX_BODY \<le> frame_bound" and "frame_bound \<le> HARD_MAX_BODY"
  shows "\<exists>frames. exchange ar sign tenant versions frame_bound cnonce snonce frames"
proof -
  let ?hello = "\<lparr>version_min = fst versions, version_max = snd versions, hello_tenant = tenant, client_nonce = cnonce\<rparr>"
  let ?reply = "\<lparr>hello_version = Chosen WIRE_VERSION, server_nonce = snonce, max_frame = frame_bound\<rparr>"
  have "client_hello_check ?hello = Ok ()" "server_hello_check ?reply = Ok ()"
    using assms(2,4,5) by (simp_all add: client_hello_check_def server_hello_check_def ensure_def)
  then show ?thesis
    using assms(1,3) compact_encodes [of "\<lambda>_. True" "ar_client_hello ar" ?hello client_hello_check ClientHello]
      compact_encodes [of "\<lambda>_. True" "ar_server_hello ar" ?reply server_hello_check ServerHello]
      compact_encodes [of "\<lambda>m. length m = SIGNATURE_LEN" "ar_auth ar" "sign (auth_transcript WIRE_VERSION tenant cnonce snonce)" "\<lambda>_. Ok ()" Auth]
      compact_encodes [of "\<lambda>_. True" "ar_admitted ar" "()" "\<lambda>_. Ok ()" Admitted]
    by (auto simp: exchange_def handshake_codec_def client_hello_message_def server_hello_message_def
        auth_message_def admitted_message_def)
qed

lemma handshake_decides:
  assumes codec: "handshake_codec ar" and ex: "exchange ar sign tenant versions (li_max_frame limits) cnonce snonce ((c1, c2), (s1, s2))"
    and versions: "fst versions \<le> WIRE_VERSION" "WIRE_VERSION \<le> snd versions"
    and inp: "ln_in ln = arriving ts (c1 @ c2) @ rest" "length ts = length (c1 @ c2)" "ln_writes ln = []"
    and time: "ln_now ln \<le> limit" "\<forall>t \<in> set ts. t \<le> limit" "limit \<le> ln_now ln + li_frame_timeout limits" "limit \<le> outer"
      "limit + li_frame_timeout limits \<le> ln_last ln"
  shows "\<exists>at. handshake ar au directory uid limits outer (Some snonce) ln =
    (if authenticate au directory tenant uid (auth_transcript WIRE_VERSION tenant cnonce snonce)
       (sign (auth_transcript WIRE_VERSION tenant cnonce snonce))
     then (ln\<lparr>ln_now := at, ln_in := rest, ln_out := ln_out ln @ s1 @ s2\<rparr>,
       Some (Ok \<lparr>ad_tenant = tenant, ad_version = WIRE_VERSION\<rparr>))
     else (ln\<lparr>ln_now := at, ln_in := rest, ln_out := ln_out ln @ s1\<rparr>,
       Some (Err (CloseFault Failure.AuthFailed ''authentication failed''))))"
proof -
  let ?hello = "\<lparr>version_min = fst versions, version_max = snd versions, hello_tenant = tenant, client_nonce = cnonce\<rparr>"
  define ts1 ts2 where "ts1 = take (length c1) ts" and "ts2 = drop (length c1) ts"
  have ts: "ts = ts1 @ ts2" "length ts1 = length c1" "length ts2 = length c2"
    using inp(2) by (simp_all add: ts1_def ts2_def)
  have in1: "ln_in ln = arriving ts1 c1 @ arriving ts2 c2 @ rest" using inp(1) ts by (simp add: arriving_append)
  obtain at1 fr1 where r1: "ln_now ln \<le> at1" "at1 \<le> limit"
    "hs_read outer limits ln = (ln\<lparr>ln_now := at1, ln_in := arriving ts2 c2 @ rest\<rparr>, Some (Ok fr1))"
    "expect_frame (client_hello_message ar) fr1 = Ok ?hello"
    using hs_read_encoded [of "ar_client_hello ar" ClientHello client_hello_check ?hello c1 ln ts1
        "arriving ts2 c2 @ rest" limit limits outer] codec ex in1 ts time
    by (auto simp: handshake_codec_def exchange_def client_hello_message_def)
  have choice: "negotiate_version (fst versions) (snd versions) SERVER_VERSION_MIN SERVER_VERSION_MAX = Chosen WIRE_VERSION"
    using versions by (simp add: negotiated_version)
  let ?ln1 = "ln\<lparr>ln_now := at1, ln_in := arriving ts2 c2 @ rest, ln_out := ln_out ln @ s1\<rparr>"
  obtain at2 fr2 where r2: "at1 \<le> at2" "at2 \<le> limit"
    "hs_read outer limits ?ln1 = (?ln1\<lparr>ln_now := at2, ln_in := rest\<rparr>, Some (Ok fr2))"
    "expect_frame (auth_message ar) fr2 = Ok (sign (auth_transcript WIRE_VERSION tenant cnonce snonce))"
    using hs_read_encoded [of "ar_auth ar" Auth "\<lambda>_. Ok ()" "sign (auth_transcript WIRE_VERSION tenant cnonce snonce)"
        c2 ?ln1 ts2 rest limit limits outer] codec ex r1 ts time
    by (auto simp: handshake_codec_def exchange_def auth_message_def)
  show ?thesis
    using r1(3,4) r2(3,4) ex inp(3) hs_send_free [of ?ln1] hs_send_free
    by (intro exI [of _ at2])
      (simp add: handshake_def exchange_def lbind_def lreturn_def fresh_nonce_def ok_or_def choice Let_def)
qed

lemma send_message_free:
  assumes "encode_frame T m cap = Ok frame" and "ln_writes ln = []" and "ln_now ln < deadline"
  shows "send_message_by T m cap deadline ln = (ln\<lparr>ln_out := ln_out ln @ frame\<rparr>, Ok ())"
  using assms write_all_free [of ln deadline frame] frame_bytes_Ok_iff [of T m cap frame]
  by (simp add: send_message_by_def cbind_def creturn_def)

lemma read_message_encoded:
  assumes "faithful s" and "encode_frame (message k check s) m cap = Ok frame"
    and "ln_in ln = arriving ts frame @ rest" "length ts = length frame"
    and "ln_now ln < deadline" "\<forall>t \<in> set ts. t < deadline"
  shows "\<exists>at. ln_now ln \<le> at \<and> at < deadline \<and>
    read_message_by faults (message k check s) cap deadline ln = (ln\<lparr>ln_now := at, ln_in := rest\<rparr>, Ok m)"
  using client_read_encoded [OF faithful_message [OF assms(1)] assms(2-6), of faults]
  by (auto simp: read_message_by_def cbind_def creturn_def)

lemma client_handshake_accepts:
  assumes codec: "handshake_codec ar" and ex: "exchange ar sign tenant versions frame_bound cnonce snonce ((c1, c2), (s1, s2))"
    and versions: "fst versions \<le> WIRE_VERSION" "WIRE_VERSION \<le> snd versions"
    and inp: "ln_in ln = arriving ts (s1 @ s2) @ rest" "length ts = length (s1 @ s2)" "ln_writes ln = []"
    and time: "0 < to_handshake timeouts" "ln_now ln + to_handshake timeouts \<le> ln_last ln"
      "\<forall>t \<in> set ts. t < ln_now ln + to_handshake timeouts"
  shows "\<exists>at. client_handshake ar sign tenant versions timeouts (Some cnonce) ln =
    (let ln' = ln\<lparr>ln_now := at, ln_in := rest, ln_out := ln_out ln @ c1 @ c2\<rparr> in
     (ln', Ok \<lparr>cl_link = ln', cl_version = WIRE_VERSION, cl_max_frame = frame_bound, cl_timeouts = timeouts, cl_broken = False\<rparr>))"
proof -
  let ?hello = "\<lparr>version_min = fst versions, version_max = snd versions, hello_tenant = tenant, client_nonce = cnonce\<rparr>"
  let ?reply = "\<lparr>hello_version = Chosen WIRE_VERSION, server_nonce = snonce, max_frame = frame_bound\<rparr>"
  define deadline where "deadline = instant_after ln (to_handshake timeouts)"
  have dl: "deadline = ln_now ln + to_handshake timeouts" using time(2) by (simp add: deadline_def instant_after_def)
  define ts1 ts2 where "ts1 = take (length s1) ts" and "ts2 = drop (length s1) ts"
  have ts: "ts = ts1 @ ts2" "length ts1 = length s1" "length ts2 = length s2"
    using inp(2) by (simp_all add: ts1_def ts2_def)
  have in1: "ln_in ln = arriving ts1 s1 @ arriving ts2 s2 @ rest" using inp(1) ts by (simp add: arriving_append)
  let ?ln1 = "ln\<lparr>ln_out := ln_out ln @ c1\<rparr>"
  have w1: "send_message_by (client_hello_message ar) ?hello PRE_AUTH_MAX_BODY deadline ln = (?ln1, Ok ())"
    using ex inp(3) time(1) dl by (intro send_message_free) (simp_all add: exchange_def)
  obtain at1 where r1: "ln_now ln \<le> at1" "at1 < deadline"
    "read_message_by (fault_message ar) (server_hello_message ar) PRE_AUTH_MAX_BODY deadline ?ln1 =
      (?ln1\<lparr>ln_now := at1, ln_in := arriving ts2 s2 @ rest\<rparr>, Ok ?reply)"
    using read_message_encoded [of "ar_server_hello ar" ServerHello server_hello_check ?reply PRE_AUTH_MAX_BODY s1 ?ln1 ts1
        "arriving ts2 s2 @ rest" deadline "fault_message ar"] codec ex in1 ts time dl
    by (auto simp: handshake_codec_def exchange_def server_hello_message_def)
  let ?ln2 = "?ln1\<lparr>ln_now := at1, ln_in := arriving ts2 s2 @ rest\<rparr>"
  let ?ln3 = "?ln2\<lparr>ln_out := ln_out ?ln2 @ c2\<rparr>"
  have w2: "send_message_by (auth_message ar) (sign (auth_transcript WIRE_VERSION tenant cnonce snonce)) PRE_AUTH_MAX_BODY
      deadline ?ln2 = (?ln3, Ok ())"
    using ex inp(3) r1(2) by (intro send_message_free) (simp_all add: exchange_def)
  obtain at2 where r2: "at1 \<le> at2" "at2 < deadline"
    "read_message_by (fault_message ar) (admitted_message ar) PRE_AUTH_MAX_BODY deadline ?ln3 =
      (?ln3\<lparr>ln_now := at2, ln_in := rest\<rparr>, Ok ())"
    using read_message_encoded [of "ar_admitted ar" Admitted "\<lambda>_. Ok ()" "()" PRE_AUTH_MAX_BODY s2 ?ln3 ts2
        rest deadline "fault_message ar"] codec ex in1 ts time dl r1
    by (auto simp: handshake_codec_def exchange_def admitted_message_def)
  show ?thesis
    using w1 r1(3) w2 r2(3) versions
    by (intro exI [of _ at2])
      (simp add: client_handshake_def Let_def deadline_def [symmetric] cbind_def creturn_def ok_or_def ensure_def)
qed

subsection \<open>The whole admission in bounds\<close>

lemma write_exact_alone: "write_exact None deadline bytes ln = write_exact (Some deadline) deadline bytes ln"
proof (induction bytes arbitrary: ln rule: length_induct)
  case (1 bytes)
  show ?case
  proof (cases "bytes = []")
    case False
    obtain ln1 o1 where wr: "sys_write ln deadline bytes = (ln1, o1)" by force
    show ?thesis
    proof (cases o1)
      case (Wrote n)
      show ?thesis
      proof (cases "n = 0")
        case n: False
        then have "length (drop n bytes) < length bytes" using False by simp
        then show ?thesis
          using 1 [rule_format, of "drop n bytes" ln1] False wr Wrote n
          by (subst (1 2) write_exact.simps) (simp add: timer_bound_def)
      qed (use False wr Wrote in \<open>subst (1 2) write_exact.simps, simp add: timer_bound_def\<close>)
    qed (use False wr in \<open>subst (1 2) write_exact.simps, simp add: timer_bound_def timer_fired_def\<close>)+
  qed (simp add: write_exact.simps)
qed

lemma close_handshake_bounds:
  "ln_now (close_handshake ar close timeout ln) \<le> ln_now ln + timeout"
  "waiting ln \<le> waiting (close_handshake ar close timeout ln)"
proof -
  let ?d = "instant_after ln timeout"
  have d: "ln_now ln \<le> ?d" "?d \<le> ln_now ln + timeout" by (simp_all add: instant_after_def)
  have "ln_now (close_handshake ar close timeout ln) \<le> ln_now ln + timeout \<and>
      waiting ln \<le> waiting (close_handshake ar close timeout ln)"
  proof (cases "Option.bind (close_fault close) (fault_frame (fault_message ar))")
    case (Some bytes)
    obtain ln' r where w: "write_exact (Some ?d) ?d bytes ln = (ln', r)" by force
    then have "close_handshake ar close timeout ln = ln'"
      using Some by (simp add: close_handshake_def write_frame_def write_exact_alone)
    with confinedD [OF write_exact_confined w d(1)] d(2) show ?thesis by simp
  qed (simp add: close_handshake_def)
  then show "ln_now (close_handshake ar close timeout ln) \<le> ln_now ln + timeout"
    "waiting ln \<le> waiting (close_handshake ar close timeout ln)" by simp_all
qed

end
