(* ===== verification/Connection.thy ===== *)
theory Connection
  imports Handshake "HOL-Library.Multiset"
begin

text \<open>
  An admitted connection (\<^verbatim>\<open>crates/dioptron/src/server/connection.rs\<close>, \<^verbatim>\<open>cancel.rs\<close>) and the server's accept
  loop (\<^verbatim>\<open>server/mod.rs\<close>).  A connection is a state machine: it takes decoded frames from its reader, starts a
  task for each request, writes the response of each finished task, and ends with a reason.  The arms
  of the loop's select are its steps; which one runs next and what a dispatcher answers is up to the
  environment.  Dispatch number \<open>n\<close> of a connection has task id \<open>n\<close> and cancellation channel \<open>n\<close>.
\<close>

section \<open>Definitions\<close>

datatype Inbound = InboundRequest RequestMsg | InboundCancel u64

subsection \<open>Reading\<close>

text \<open>One turn of the reader: the frame, decoded, or why the connection ends; \<open>None\<close> while nothing arrives.\<close>

definition read_inbound :: "Archive \<Rightarrow> u32 \<Rightarrow> nat \<Rightarrow> (Inbound, Close) io" where
  "read_inbound ar cap frame_timeout =
     lbind (lmap_err into_close (read_frame None cap frame_timeout)) (\<lambda>frame.
       lreturn (case h_kind (fr_header frame) of
           Request \<Rightarrow>
             map_err (\<lambda>_. CloseFault Failure.ProtocolError ''invalid request'')
               (map_sum id InboundRequest (decode_frame (request_message ar) (fr_header frame) (fr_body frame) cap))
         | Cancel \<Rightarrow>
             map_err (\<lambda>_. CloseFault Failure.ProtocolError ''invalid cancel'')
               (map_sum id InboundCancel (decode_frame (cancel_message ar) (fr_header frame) (fr_body frame) cap))
         | _ \<Rightarrow> Err (CloseFault Failure.ProtocolError ''frame kind not valid after admission'')))"

text \<open>A frame takes at least its first byte.\<close>

lemma sys_read_shorter: "sys_read ln until n = (ln', r) \<Longrightarrow> length (ln_in ln') \<le> length (ln_in ln)"
  using sys_read_Got(2) [of ln until n ln']
  by (cases r) (auto simp: sys_read_def Let_def split: list.splits option.splits Incoming.splits if_splits prod.splits)

lemma read_exact_shorter: "read_exact outer deadline n ln = (ln', r) \<Longrightarrow> length (ln_in ln') \<le> length (ln_in ln)"
proof (induction outer deadline n ln arbitrary: ln' r rule: read_exact.induct)
  case (1 outer deadline n ln)
  show ?case
  proof (cases "n = 0")
    case False
    obtain ln1 o1 where rd: "sys_read ln (Some (timer_bound outer deadline)) n = (ln1, o1)" by force
    note le = sys_read_shorter [OF rd]
    show ?thesis
    proof (cases "\<exists>bs. o1 = Got bs")
      case True
      then obtain bs where o1: "o1 = Got bs" by blast
      obtain ln2 r2 where rec: "read_exact outer deadline (n - length bs) ln1 = (ln2, r2)" by force
      have "length (ln_in ln2) \<le> length (ln_in ln1)" using 1(1) [OF False rd [symmetric] o1 rec] .
      moreover have "ln' = ln2"
        using 1(2) False rd o1 rec by (subst (asm) read_exact.simps) (auto split: option.splits sum.splits)
      ultimately show ?thesis using le by simp
    next
      case no: False
      then have "ln' = ln1"
        using 1(2) False rd by (subst (asm) read_exact.simps) (auto split: ReadOutcome.splits)
      then show ?thesis using le by simp
    qed
  qed (use 1(2) in \<open>simp add: read_exact.simps\<close>)
qed

lemma read_frame_shorter:
  assumes "read_frame outer cap frame_timeout ln = (ln', Some (Ok frame))"
  shows "length (ln_in ln') < length (ln_in ln)"
proof -
  obtain ln1 first ln2 rest and header :: FrameHeader and ln3 body where run: "read_first outer ln = (ln1, Some (Ok first))"
    "read_exact outer (instant_after ln1 frame_timeout) (HEADER_LEN - 1) ln1 = (ln2, Some (Ok rest))"
    "read_exact outer (instant_after ln1 frame_timeout) (unat (h_len header)) ln2 = (ln3, Some (Ok body))" "ln' = ln3"
    using assms by (auto simp: read_frame_def lbind_Ok_iff Let_def)
  have "length (ln_in ln1) < length (ln_in ln)"
    using run(1) sys_read_less [of ln1 _ ln outer 1] by (auto simp: read_first_def split: prod.splits ReadOutcome.splits)
  with read_exact_shorter [OF run(2)] read_exact_shorter [OF run(3)] run(4) show ?thesis by simp
qed

lemma read_inbound_shorter:
  "(ln', Some (Ok item)) = read_inbound ar cap frame_timeout ln \<Longrightarrow> length (ln_in ln') < length (ln_in ln)"
  by (auto simp: read_inbound_def lbind_Ok_iff dest!: sym [of "(ln', Some (Ok item))"] read_frame_shorter)

text \<open>The items the reader forwards until it stops: it ends after the first failure.\<close>

function read_loop :: "Archive \<Rightarrow> u32 \<Rightarrow> nat \<Rightarrow> Link \<Rightarrow> (Inbound, Close) result list" where
  "read_loop ar cap frame_timeout ln =
     (case read_inbound ar cap frame_timeout ln of
        (ln', None) \<Rightarrow> []
      | (ln', Some (Err close)) \<Rightarrow> [Err close]
      | (ln', Some (Ok item)) \<Rightarrow> Ok item # read_loop ar cap frame_timeout ln')"
  by pat_completeness auto
termination
  by (relation "measure (\<lambda>(ar, cap, frame_timeout, ln). length (ln_in ln))") (auto dest: read_inbound_shorter)

declare read_loop.simps [simp del]

subsection \<open>State\<close>

record Task =
  tk_conn :: ConnIdentity
  tk_request :: RequestMsg
  tk_deadline :: nat
  tk_backstop :: nat

record Admitted =
  cn_identity :: ConnIdentity
  cn_in_flight :: "(u64 \<times> nat) list"
  cn_task_ids :: "(nat \<times> u64) list"
  cn_tasks :: "(nat \<times> Task) list"
  cn_fired :: "nat list"
  cn_last_activity :: nat
  cn_next :: nat

definition admitted_new :: "ConnIdentity \<Rightarrow> nat \<Rightarrow> Admitted" where
  "admitted_new conn now =
     \<lparr>cn_identity = conn, cn_in_flight = [], cn_task_ids = [], cn_tasks = [], cn_fired = [],
      cn_last_activity = now, cn_next = 0\<rparr>"

text \<open>A signal is cancelled when its handle fired or is gone.\<close>

definition is_cancelled :: "Admitted \<Rightarrow> nat \<Rightarrow> bool" where
  "is_cancelled c n \<longleftrightarrow> n \<in> set (cn_fired c) \<or> n \<notin> snd ` set (cn_in_flight c)"

definition cancel_handle :: "nat \<Rightarrow> Admitted \<Rightarrow> Admitted" where
  "cancel_handle n c = c\<lparr>cn_fired := n # cn_fired c\<rparr>"

subsection \<open>Requests\<close>

definition checked_instant :: "nat \<Rightarrow> nat \<Rightarrow> nat \<Rightarrow> nat option" where
  "checked_instant end_at at d = (if at + d \<le> end_at then Some (at + d) else None)"

definition start :: "Limits \<Rightarrow> Link \<Rightarrow> RequestMsg \<Rightarrow> Admitted \<Rightarrow> (Admitted, Close) result" where
  "start limits ln request c =
     (let rid = request_id request in
      if map_of (cn_in_flight c) rid \<noteq> None
      then Err (CloseFault Failure.ProtocolError ''duplicate in-flight request id'')
      else if li_max_in_flight limits \<le> length (cn_in_flight c)
      then Err (CloseFault Failure.ProtocolError ''in-flight request bound exceeded'')
      else
        (let requested = millis (unat (deadline_ms request));
             deadline = instant_after ln (min requested (li_max_deadline limits));
             backstop = (case checked_instant (ln_last ln) deadline (li_dispatch_grace limits) of
               Some b \<Rightarrow> b | None \<Rightarrow> deadline);
             n = cn_next c in
         Ok (c\<lparr>cn_tasks := (n, \<lparr>tk_conn = cn_identity c, tk_request = request, tk_deadline = deadline,
                 tk_backstop = backstop\<rparr>) # cn_tasks c,
               cn_task_ids := (n, rid) # cn_task_ids c,
               cn_in_flight := (rid, n) # cn_in_flight c,
               cn_next := Suc n\<rparr>)))"

definition accept_inbound :: "Limits \<Rightarrow> Link \<Rightarrow> Inbound \<Rightarrow> Admitted \<Rightarrow> (Admitted, Close) result" where
  "accept_inbound limits ln inbound c =
     (case inbound of
        InboundRequest request \<Rightarrow> start limits ln request c
      | InboundCancel rid \<Rightarrow>
          Ok (case map_of (cn_in_flight c) rid of Some n \<Rightarrow> cancel_handle n c | None \<Rightarrow> c))"

subsection \<open>Responses\<close>

definition failed_response :: "u64 \<Rightarrow> Failure \<Rightarrow> ResponseMsg" where
  "failed_response rid failure = \<lparr>resp_request_id = rid, resp_invocation = None, resp_body = Failed failure\<rparr>"

definition tag :: "ResponseMsg \<Rightarrow> u64 \<Rightarrow> ResponseMsg" where
  "tag response rid = (if resp_request_id response \<noteq> rid then response\<lparr>resp_request_id := rid\<rparr> else response)"

text \<open>What a task returns: the dispatcher's answer if it comes by the backstop.\<close>

definition task_response :: "Task \<Rightarrow> (nat \<times> ResponseMsg) option \<Rightarrow> ResponseMsg" where
  "task_response tk answer =
     (let rid = request_id (tk_request tk) in
      (case answer of
         Some (at, response) \<Rightarrow>
           if at \<le> tk_backstop tk then tag response rid else failed_response rid Failure.DeadlineExceeded
       | None \<Rightarrow> failed_response rid Failure.DeadlineExceeded))"

text \<open>A joined task returned a response or panicked.\<close>

datatype Joined = Returned nat ResponseMsg | Panicked nat

fun joined_task :: "Joined \<Rightarrow> nat" where
  "joined_task (Returned n _) = n"
| "joined_task (Panicked n) = n"

definition remove_key :: "'k \<Rightarrow> ('k \<times> 'v) list \<Rightarrow> ('k \<times> 'v) list" where
  "remove_key k xs = filter (\<lambda>(k', _). k' \<noteq> k) xs"

definition retire_task :: "Joined \<Rightarrow> Admitted \<Rightarrow> Admitted \<times> ResponseMsg option" where
  "retire_task joined c =
     (let n = joined_task joined; c1 = c\<lparr>cn_tasks := remove_key n (cn_tasks c)\<rparr> in
      (case map_of (cn_task_ids c) n of
         None \<Rightarrow> (c1, None)
       | Some rid \<Rightarrow>
           (c1\<lparr>cn_task_ids := remove_key n (cn_task_ids c), cn_in_flight := remove_key rid (cn_in_flight c)\<rparr>,
            Some (case joined of
                Returned _ response \<Rightarrow> response
              | Panicked _ \<Rightarrow> failed_response rid Failure.UnknownEffect))))"

definition complete :: "Archive \<Rightarrow> Limits \<Rightarrow> Joined \<Rightarrow> Admitted \<Rightarrow> Link \<Rightarrow> Admitted \<times> Link \<times> (unit, Close) result" where
  "complete ar limits joined c ln =
     (case retire_task joined c of
        (c1, None) \<Rightarrow> (c1, ln, Ok ())
      | (c1, Some response) \<Rightarrow>
          (case encode_frame (response_message ar) response (conn_max_frame (cn_identity c1)) of
             Err _ \<Rightarrow> (c1, ln, Err (CloseFault Failure.ProtocolError ''response does not fit the negotiated frame bound''))
           | Ok bytes \<Rightarrow>
               (case write_frame None bytes (li_frame_timeout limits) ln of
                  (ln1, Some (Err e)) \<Rightarrow> (c1, ln1, Err (CloseIo e))
                | (ln1, _) \<Rightarrow> (c1\<lparr>cn_last_activity := ln_now ln1\<rparr>, ln1, Ok ()))))"

subsection \<open>The loop\<close>

datatype Arm = Stopped | JoinedTask Joined | Received "(Inbound, Close) result" | ReaderGone | IdleFired

definition idle_at :: "Limits \<Rightarrow> Link \<Rightarrow> Admitted \<Rightarrow> nat option" where
  "idle_at limits ln c =
     (if cn_in_flight c = [] then checked_instant (ln_last ln) (cn_last_activity c) (li_idle_timeout limits) else None)"

text \<open>Whether an arm of the select can be taken.\<close>

definition enabled :: "Limits \<Rightarrow> Link \<Rightarrow> Admitted \<Rightarrow> Arm \<Rightarrow> bool" where
  "enabled limits ln c arm =
     (case arm of
        JoinedTask joined \<Rightarrow> map_of (cn_tasks c) (joined_task joined) \<noteq> None
      | IdleFired \<Rightarrow> (case idle_at limits ln c of Some at \<Rightarrow> at \<le> ln_now ln | None \<Rightarrow> False)
      | _ \<Rightarrow> True)"

definition turn :: "Archive \<Rightarrow> Limits \<Rightarrow> Arm \<Rightarrow> Admitted \<Rightarrow> Link \<Rightarrow> Admitted \<times> Link \<times> (unit, Close) result" where
  "turn ar limits arm c ln =
     (case arm of
        Stopped \<Rightarrow> (c, ln, Err CloseShutdown)
      | JoinedTask joined \<Rightarrow> complete ar limits joined c ln
      | Received (Ok inbound) \<Rightarrow>
          (let c1 = c\<lparr>cn_last_activity := ln_now ln\<rparr> in
           (case accept_inbound limits ln inbound c1 of Ok c2 \<Rightarrow> (c2, ln, Ok ()) | Err close \<Rightarrow> (c1, ln, Err close)))
      | Received (Err close) \<Rightarrow> (c, ln, Err close)
      | ReaderGone \<Rightarrow> (c, ln, Err ClosePeerClosed)
      | IdleFired \<Rightarrow> (c, ln, Err CloseIdle))"

subsection \<open>Closing\<close>

text \<open>The tasks that finish by the grace, with the instants they do; on shutdown their responses still go out.
  Only tasks of the connection are joined.\<close>

fun drain :: "Archive \<Rightarrow> Limits \<Rightarrow> bool \<Rightarrow> nat \<Rightarrow> (nat \<times> Joined) list \<Rightarrow> Admitted \<Rightarrow> Link \<Rightarrow> Admitted \<times> Link" where
  "drain ar limits deliver grace [] c ln = (c, ln)"
| "drain ar limits deliver grace ((at, joined) # rest) c ln =
     (if cn_tasks c = [] \<or> grace < max (ln_now ln) at then (c, ln)
      else if map_of (cn_tasks c) (joined_task joined) = None then drain ar limits deliver grace rest c ln
      else (let ln1 = ln\<lparr>ln_now := max (ln_now ln) at\<rparr> in
        if deliver
        then (case complete ar limits joined c ln1 of
            (c2, ln2, Err _) \<Rightarrow> (c2, ln2)
          | (c2, ln2, Ok _) \<Rightarrow> drain ar limits deliver grace rest c2 ln2)
        else drain ar limits deliver grace rest (c\<lparr>cn_tasks := remove_key (joined_task joined) (cn_tasks c)\<rparr>) ln1))"

text \<open>The tasks that are left are aborted and the handles dropped with the connection.\<close>

definition finish :: "Archive \<Rightarrow> Limits \<Rightarrow> Close \<Rightarrow> (nat \<times> Joined) list \<Rightarrow> Admitted \<Rightarrow> Link \<Rightarrow> Admitted \<times> Link" where
  "finish ar limits close joins c ln =
     (let c1 = fold (\<lambda>(rid, n). cancel_handle n) (cn_in_flight c) c;
          deliver = (close = CloseShutdown);
          ln1 = (if deliver then ln else close_handshake ar close (li_frame_timeout limits) ln);
          grace = instant_after ln1 (li_dispatch_grace limits);
          (c2, ln2) = drain ar limits deliver grace joins c1 ln1 in
      (c2\<lparr>cn_tasks := [], cn_in_flight := [], cn_task_ids := []\<rparr>, ln2))"

subsection \<open>Accepting connections\<close>

record Serving =
  sv_permits :: nat
  sv_connections :: "nat list"
  sv_next :: nat

definition serving_new :: "Limits \<Rightarrow> Serving" where
  "serving_new limits = \<lparr>sv_permits = li_max_connections limits, sv_connections = [], sv_next = 0\<rparr>"

text \<open>An accepted stream takes a permit and becomes a connection, or is closed at once.\<close>

definition accept_stream :: "Serving \<Rightarrow> Serving \<times> nat option" where
  "accept_stream s =
     (if sv_permits s = 0 then (s, None)
      else (s\<lparr>sv_permits := sv_permits s - 1, sv_connections := sv_next s # sv_connections s, sv_next := Suc (sv_next s)\<rparr>,
        Some (sv_next s)))"

definition connection_finished :: "nat \<Rightarrow> Serving \<Rightarrow> Serving" where
  "connection_finished k s =
     (if k \<in> set (sv_connections s)
      then s\<lparr>sv_permits := Suc (sv_permits s), sv_connections := removeAll k (sv_connections s)\<rparr> else s)"

section \<open>Steps and invariants\<close>

text \<open>What a joined task returns is what its dispatcher's answer makes of it.\<close>

definition possible :: "Limits \<Rightarrow> Link \<Rightarrow> Admitted \<Rightarrow> Arm \<Rightarrow> bool" where
  "possible limits ln c arm \<longleftrightarrow> enabled limits ln c arm \<and>
     (\<forall>n r. arm = JoinedTask (Returned n r) \<longrightarrow>
        (\<exists>tk answer. map_of (cn_tasks c) n = Some tk \<and> r = task_response tk answer))"

definition answers :: "Arm \<Rightarrow> Admitted \<Rightarrow> ResponseMsg list" where
  "answers arm c = (case arm of
     JoinedTask joined \<Rightarrow> (case snd (retire_task joined c) of Some r \<Rightarrow> [r] | None \<Rightarrow> []) | _ \<Rightarrow> [])"

text \<open>
  \<open>conn_reach ar limits conn ln0 arms resps c ln\<close>: since it was admitted at \<open>ln0\<close> the connection took \<open>arms\<close>, none of
  which ended it, and sent \<open>resps\<close>.  Between two turns time passes and the peer acts.
\<close>

inductive conn_reach :: "Archive \<Rightarrow> Limits \<Rightarrow> ConnIdentity \<Rightarrow> Link \<Rightarrow> Arm list \<Rightarrow> ResponseMsg list \<Rightarrow> Admitted \<Rightarrow> Link \<Rightarrow> bool"
  for ar limits conn ln0 where
  conn_opened: "conn_reach ar limits conn ln0 [] [] (admitted_new conn (ln_now ln0)) ln0"
| conn_passing: "conn_reach ar limits conn ln0 arms resps c ln \<Longrightarrow> ln_now ln \<le> t \<Longrightarrow>
    conn_reach ar limits conn ln0 arms resps c (ln\<lparr>ln_now := t, ln_in := input, ln_writes := writes\<rparr>)"
| conn_turn: "conn_reach ar limits conn ln0 arms resps c ln \<Longrightarrow> possible limits ln c arm \<Longrightarrow>
    turn ar limits arm c ln = (c', ln', Ok ()) \<Longrightarrow>
    conn_reach ar limits conn ln0 (arms @ [arm]) (resps @ answers arm c) c' ln'"

fun requested :: "Arm list \<Rightarrow> u64 list" where
  "requested [] = []"
| "requested (Received (Ok (InboundRequest r)) # arms) = request_id r # requested arms"
| "requested (_ # arms) = requested arms"

lemma requested_append [simp]: "requested (xs @ ys) = requested xs @ requested ys"
  by (induction xs rule: requested.induct) simp_all

definition conn_inv :: "Limits \<Rightarrow> ConnIdentity \<Rightarrow> Admitted \<Rightarrow> bool" where
  "conn_inv limits conn c \<longleftrightarrow>
     cn_identity c = conn \<and>
     cn_in_flight c = map (\<lambda>(n, tk). (request_id (tk_request tk), n)) (cn_tasks c) \<and>
     cn_task_ids c = map (\<lambda>(n, tk). (n, request_id (tk_request tk))) (cn_tasks c) \<and>
     distinct (map fst (cn_tasks c)) \<and> distinct (map (\<lambda>(n, tk). request_id (tk_request tk)) (cn_tasks c)) \<and>
     (\<forall>(n, tk) \<in> set (cn_tasks c). n < cn_next c \<and> tk_conn tk = conn) \<and>
     length (cn_tasks c) \<le> li_max_in_flight limits"

lemma remove_key_map:
  assumes "distinct (map f xs)" and "x \<in> set xs" and "f x = k" and "\<And>y. y \<in> set xs \<Longrightarrow> fst (g y) = f y"
  shows "remove_key k (map g xs) = map g (remove1 x xs)"
  using assms
proof (induction xs)
  case (Cons a xs)
  show ?case
  proof (cases "a = x")
    case True
    have "y \<in> set xs \<Longrightarrow> fst (g y) \<noteq> k" for y using Cons.prems True by (auto simp: image_iff)
    then have "filter (\<lambda>(k', _). k' \<noteq> k) (map g xs) = map g xs" by (auto simp: filter_id_conv case_prod_beta)
    then show ?thesis using True Cons.prems(3,4) by (simp add: remove_key_def case_prod_beta)
  next
    case False
    then have x: "x \<in> set xs" using Cons.prems(2) by simp
    have "f a \<noteq> f x" using Cons.prems(1) x by auto
    with False Cons x show ?thesis by (simp add: remove_key_def case_prod_beta)
  qed
qed simp

lemma remove_key_remove1:
  assumes "distinct (map fst xs)" and "(k, v) \<in> set xs"
  shows "remove_key k xs = remove1 (k, v) xs"
  using remove_key_map [of fst xs "(k, v)" k id] assms by simp

text \<open>A joined task is retired: it and its request leave every table, and its response names the request.\<close>

lemma retire_inv:
  assumes inv: "conn_inv limits conn c" and tk: "map_of (cn_tasks c) (joined_task joined) = Some tk"
    and ret: "retire_task joined c = (c', r)"
  shows "conn_inv limits conn c'"
    and "\<exists>resp. r = Some resp \<and>
      (case joined of Returned _ response \<Rightarrow> resp = response | Panicked _ \<Rightarrow> resp_request_id resp = request_id (tk_request tk))"
    and "mset (map fst (cn_in_flight c)) = add_mset (request_id (tk_request tk)) (mset (map fst (cn_in_flight c')))"
    and "cn_tasks c' = remove1 (joined_task joined, tk) (cn_tasks c)"
proof -
  let ?n = "joined_task joined" and ?rid = "request_id (tk_request tk)"
  have in_tasks: "(?n, tk) \<in> set (cn_tasks c)" using tk by (rule map_of_SomeD)
  have d: "distinct (map fst (cn_tasks c))" "distinct (map (\<lambda>(n, tk). request_id (tk_request tk)) (cn_tasks c))"
    and tables: "cn_in_flight c = map (\<lambda>(n, tk). (request_id (tk_request tk), n)) (cn_tasks c)"
      "cn_task_ids c = map (\<lambda>(n, tk). (n, request_id (tk_request tk))) (cn_tasks c)"
    using inv by (simp_all add: conn_inv_def)
  have ids: "map_of (cn_task_ids c) ?n = Some ?rid"
    using in_tasks d(1) tables(2) by (intro map_of_is_SomeI) (simp_all add: comp_def case_prod_beta, force)
  have rm: "remove_key ?n (cn_tasks c) = remove1 (?n, tk) (cn_tasks c)"
    "remove_key ?n (cn_task_ids c) = map (\<lambda>(n, tk). (n, request_id (tk_request tk))) (remove1 (?n, tk) (cn_tasks c))"
    "remove_key ?rid (cn_in_flight c) = map (\<lambda>(n, tk). (request_id (tk_request tk), n)) (remove1 (?n, tk) (cn_tasks c))"
    using remove_key_remove1 [OF d(1) in_tasks] remove_key_map [OF d(1) in_tasks, of ?n "\<lambda>(n, tk). (n, request_id (tk_request tk))"]
      remove_key_map [OF d(2) in_tasks, of ?rid "\<lambda>(n, tk). (request_id (tk_request tk), n)"]
    by (auto simp: tables)
  have c': "c' = c\<lparr>cn_tasks := remove1 (?n, tk) (cn_tasks c),
      cn_task_ids := map (\<lambda>(n, tk). (n, request_id (tk_request tk))) (remove1 (?n, tk) (cn_tasks c)),
      cn_in_flight := map (\<lambda>(n, tk). (request_id (tk_request tk), n)) (remove1 (?n, tk) (cn_tasks c))\<rparr>"
    and r: "r = Some (case joined of Returned _ response \<Rightarrow> response | Panicked _ \<Rightarrow> failed_response ?rid Failure.UnknownEffect)"
    using ret ids rm by (auto simp: retire_task_def Let_def)
  show "cn_tasks c' = remove1 (?n, tk) (cn_tasks c)" by (simp add: c')
  show "\<exists>resp. r = Some resp \<and>
      (case joined of Returned _ response \<Rightarrow> resp = response | Panicked _ \<Rightarrow> resp_request_id resp = ?rid)"
    using r by (auto simp: failed_response_def split: Joined.splits)
  have len: "length (remove1 (?n, tk) (cn_tasks c)) \<le> length (cn_tasks c)" by (simp add: length_remove1)
  show "conn_inv limits conn c'"
    using inv len by (auto simp: conn_inv_def c' distinct_map distinct_remove1 dest: notin_set_remove1 intro: inj_on_subset set_remove1_subset)
  let ?f = "\<lambda>p. request_id (tk_request (snd p))"
  have "mset (cn_tasks c) = add_mset (?n, tk) (mset (remove1 (?n, tk) (cn_tasks c)))" using in_tasks by simp
  from arg_cong [OF this, of "image_mset ?f"]
  have "image_mset ?f (mset (cn_tasks c)) = add_mset ?rid (image_mset ?f (mset (remove1 (?n, tk) (cn_tasks c))))"
    by (simp only: image_mset_add_mset snd_conv)
  then show "mset (map fst (cn_in_flight c)) = add_mset ?rid (mset (map fst (cn_in_flight c')))"
    by (simp add: tables c' comp_def case_prod_beta del: mset_remove1)
qed

lemma start_inv:
  assumes inv: "conn_inv limits conn c" and ok: "start limits ln request c = Ok c'"
  shows "conn_inv limits conn c'"
    and "cn_in_flight c' = (request_id request, cn_next c) # cn_in_flight c"
    and "\<exists>tk. cn_tasks c' = (cn_next c, tk) # cn_tasks c \<and> tk_request tk = request \<and> tk_conn tk = conn \<and>
      tk_deadline tk \<le> ln_now ln + li_max_deadline limits \<and>
      tk_backstop tk \<le> ln_now ln + li_max_deadline limits + li_dispatch_grace limits"
proof -
  obtain tk where c': "c' = c\<lparr>cn_tasks := (cn_next c, tk) # cn_tasks c,
      cn_task_ids := (cn_next c, request_id request) # cn_task_ids c,
      cn_in_flight := (request_id request, cn_next c) # cn_in_flight c, cn_next := Suc (cn_next c)\<rparr>"
    and tk: "tk_request tk = request" "tk_conn tk = cn_identity c"
      "tk_deadline tk \<le> ln_now ln + li_max_deadline limits"
      "tk_backstop tk \<le> ln_now ln + li_max_deadline limits + li_dispatch_grace limits"
    and new: "map_of (cn_in_flight c) (request_id request) = None" "length (cn_in_flight c) < li_max_in_flight limits"
    using ok by (auto simp: start_def Let_def instant_after_def checked_instant_def split: if_splits)
  show "cn_in_flight c' = (request_id request, cn_next c) # cn_in_flight c" by (simp add: c')
  have "request_id request \<notin> fst ` set (cn_in_flight c)" using new(1) by (simp add: map_of_eq_None_iff)
  then show "conn_inv limits conn c'"
    using inv new(2) tk by (auto simp: conn_inv_def c' case_prod_beta image_iff less_Suc_eq)
  show "\<exists>tk. cn_tasks c' = (cn_next c, tk) # cn_tasks c \<and> tk_request tk = request \<and> tk_conn tk = conn \<and>
      tk_deadline tk \<le> ln_now ln + li_max_deadline limits \<and>
      tk_backstop tk \<le> ln_now ln + li_max_deadline limits + li_dispatch_grace limits"
    using tk inv by (auto simp: c' conn_inv_def)
qed

lemma conn_inv_other:
  "conn_inv limits conn (c\<lparr>cn_last_activity := t\<rparr>) \<longleftrightarrow> conn_inv limits conn c"
  "conn_inv limits conn (cancel_handle n c) \<longleftrightarrow> conn_inv limits conn c"
  by (simp_all add: conn_inv_def cancel_handle_def)

lemma write_exact_out:
  "write_exact outer deadline bytes ln = (ln', Some (Ok ())) \<Longrightarrow> ln_out ln' = ln_out ln @ bytes"
proof (induction outer deadline bytes ln arbitrary: ln' rule: write_exact.induct)
  case (1 outer deadline bytes ln)
  show ?case
  proof (cases "bytes = []")
    case False
    obtain ln1 o1 where wr: "sys_write ln (timer_bound outer deadline) bytes = (ln1, o1)" by force
    obtain n where n: "o1 = Wrote n" "n \<noteq> 0" "write_exact outer deadline (drop n bytes) ln1 = (ln', Some (Ok ()))"
      using 1(2) False wr
      by (subst (asm) write_exact.simps, cases o1) (auto simp: timer_fired_def split: if_splits option.splits)
    have "ln_out ln1 = ln_out ln @ take n bytes"
      using wr n(1) by (auto simp: sys_write_def Let_def min_def split: list.splits Accept.splits if_splits)
    with 1(1) [OF False wr [symmetric] n(1,2,3)] show ?thesis by simp
  qed (use 1(2) in \<open>simp add: write_exact.simps\<close>)
qed

lemma write_frame_alone: "\<exists>r. snd (write_frame None bytes timeout ln) = Some r"
proof -
  have "\<exists>r. snd (write_exact None deadline bytes ln) = Some r" for deadline
  proof (induction bytes arbitrary: ln rule: length_induct)
    case (1 bytes)
    obtain ln1 o1 where wr: "sys_write ln (timer_bound None deadline) bytes = (ln1, o1)" by force
    have "\<exists>r. snd (write_exact None deadline (drop n bytes) ln1) = Some r" if "n \<noteq> 0" "bytes \<noteq> []" for n
      using 1 [rule_format, of "drop n bytes" ln1] that by simp
    with wr show ?case
      by (subst write_exact.simps, cases o1) (auto simp: timer_fired_def)
  qed
  then show ?thesis by (simp add: write_frame_def)
qed

lemma task_response_id [simp]: "resp_request_id (task_response tk answer) = request_id (tk_request tk)"
  by (auto simp: task_response_def tag_def failed_response_def Let_def split: option.splits prod.splits)

lemma complete_effect:
  assumes inv: "conn_inv limits conn c" and may: "possible limits ln c (JoinedTask joined)"
    and ok: "complete ar limits joined c ln = (c', ln', Ok ())"
  shows "\<exists>resp frame. conn_inv limits conn c' \<and> answers (JoinedTask joined) c = [resp] \<and>
    encode_frame (response_message ar) resp (conn_max_frame conn) = Ok frame \<and> ln_out ln' = ln_out ln @ frame \<and>
    mset (map fst (cn_in_flight c)) = add_mset (resp_request_id resp) (mset (map fst (cn_in_flight c')))"
proof -
  obtain tk where tk: "map_of (cn_tasks c) (joined_task joined) = Some tk"
    using may by (auto simp: possible_def enabled_def)
  obtain c1 r where ret: "retire_task joined c = (c1, r)" by force
  note retired = retire_inv [OF inv tk ret]
  obtain resp where resp: "r = Some resp" "resp_request_id resp = request_id (tk_request tk)"
    using retired(2) may tk by (cases joined) (auto simp: possible_def)
  have identity: "cn_identity c1 = conn" using retired(1) by (simp add: conn_inv_def)
  obtain frame where frame: "encode_frame (response_message ar) resp (conn_max_frame conn) = Ok frame"
    using ok ret resp(1) identity by (auto simp: complete_def split: sum.splits)
  obtain ln1 w where wr: "write_frame None frame (li_frame_timeout limits) ln = (ln1, Some w)"
    using write_frame_alone [of frame "li_frame_timeout limits" ln] by (metis prod.collapse)
  have w: "w = Ok ()" "c' = c1\<lparr>cn_last_activity := ln_now ln1\<rparr>" "ln' = ln1"
    using ok ret resp(1) identity frame wr by (auto simp: complete_def split: sum.splits)
  have "ln_out ln1 = ln_out ln @ frame" using wr w(1) by (auto simp: write_frame_def dest: write_exact_out)
  then show ?thesis
    using retired(1,3) resp frame w ret by (auto simp: conn_inv_other answers_def)
qed

lemma conn_reach_inv:
  assumes "conn_reach ar limits conn ln0 arms resps c ln"
  shows "conn_inv limits conn c \<and>
    mset (requested arms) = mset (map resp_request_id resps) + mset (map fst (cn_in_flight c)) \<and>
    (\<exists>frames. ln_out ln = ln_out ln0 @ concat frames \<and>
      list_all2 (\<lambda>r f. encode_frame (response_message ar) r (conn_max_frame conn) = Ok f) resps frames)"
  using assms
proof induction
  case conn_opened
  show ?case by (simp add: conn_inv_def admitted_new_def)
next
  case (conn_turn arms resps c ln arm c' ln')
  then have inv: "conn_inv limits conn c" by simp
  obtain frames where frames: "ln_out ln = ln_out ln0 @ concat frames"
      "list_all2 (\<lambda>r f. encode_frame (response_message ar) r (conn_max_frame conn) = Ok f) resps frames"
    using conn_turn.IH by blast
  show ?case
  proof (cases arm)
    case (JoinedTask joined)
    then have finished: "complete ar limits joined c ln = (c', ln', Ok ())" using conn_turn.hyps(3) by (simp add: turn_def)
    obtain resp frame where r: "conn_inv limits conn c'" "answers arm c = [resp]"
      "encode_frame (response_message ar) resp (conn_max_frame conn) = Ok frame" "ln_out ln' = ln_out ln @ frame"
      "mset (map fst (cn_in_flight c)) = add_mset (resp_request_id resp) (mset (map fst (cn_in_flight c')))"
      using complete_effect [OF inv _ finished] conn_turn.hyps(2) JoinedTask by auto
    then show ?thesis
      using conn_turn.IH frames JoinedTask
      by (intro conjI exI [of _ "frames @ [frame]"]) (simp_all add: list_all2_appendI)
  next
    case (Received item)
    obtain inbound where item: "item = Ok inbound" using conn_turn.hyps(3) Received by (cases item) (auto simp: turn_def)
    let ?c = "c\<lparr>cn_last_activity := ln_now ln\<rparr>"
    have acc: "accept_inbound limits ln inbound ?c = Ok c'" "ln' = ln"
      using conn_turn.hyps(3) Received item by (auto simp: turn_def Let_def split: sum.splits)
    show ?thesis
    proof (cases inbound)
      case (InboundRequest request)
      have "start limits ln request ?c = Ok c'" using acc(1) InboundRequest by (simp add: accept_inbound_def)
      from start_inv(1,2) [OF _ this] inv have "conn_inv limits conn c'"
        "cn_in_flight c' = (request_id request, cn_next c) # cn_in_flight c" by (auto simp: conn_inv_other)
      then show ?thesis using conn_turn.IH frames acc(2) Received item InboundRequest by (auto simp: answers_def)
    next
      case (InboundCancel rid)
      then have "c' = (case map_of (cn_in_flight ?c) rid of Some n \<Rightarrow> cancel_handle n ?c | None \<Rightarrow> ?c)"
        using acc(1) by (simp add: accept_inbound_def)
      then have "conn_inv limits conn c'" "cn_in_flight c' = cn_in_flight c"
        using inv by (auto simp: conn_inv_def cancel_handle_def split: option.splits)
      then show ?thesis using conn_turn.IH frames acc(2) Received item InboundCancel by (auto simp: answers_def)
    qed
  qed (use conn_turn.hyps(3) in \<open>simp_all add: turn_def\<close>)
qed simp

subsection \<open>Cancellation\<close>

lemma in_flight_handle:
  assumes "conn_inv limits conn c" and "map_of (cn_in_flight c) rid = Some n"
  shows "(rid, m) \<in> set (cn_in_flight c) \<longleftrightarrow> m = n" and "(rid', n) \<in> set (cn_in_flight c) \<longleftrightarrow> rid' = rid"
proof -
  have d: "distinct (map fst (cn_in_flight c))" "distinct (map snd (cn_in_flight c))"
    using assms(1) by (simp_all add: conn_inv_def comp_def case_prod_unfold)
  have "(rid, n) \<in> set (cn_in_flight c)" using assms(2) by (rule map_of_SomeD)
  with d show "(rid, m) \<in> set (cn_in_flight c) \<longleftrightarrow> m = n" "(rid', n) \<in> set (cn_in_flight c) \<longleftrightarrow> rid' = rid"
    by (auto simp: distinct_map inj_on_def) fastforce+
qed

lemma fold_cancel: "fold (\<lambda>(rid, n). cancel_handle n) xs c = c\<lparr>cn_fired := rev (map snd xs) @ cn_fired c\<rparr>"
  by (induction xs arbitrary: c) (auto simp: cancel_handle_def)

lemma remove_key_subset: "set (remove_key k xs) \<subseteq> set xs"
  by (auto simp: remove_key_def)

lemma drain_quiet: "drain ar limits False grace joins c ln = (c', ln') \<Longrightarrow> ln_out ln' = ln_out ln"
  by (induction ar limits False grace joins c ln rule: drain.induct) (auto simp: Let_def split: if_splits)

lemma sys_write_out: "\<exists>sent left. bytes = sent @ left \<and> ln_out (fst (sys_write ln until bytes)) = ln_out ln @ sent \<and>
    (\<forall>n. snd (sys_write ln until bytes) = Wrote n \<longrightarrow> left = drop n bytes)"
proof -
  have none: "\<exists>sent left. bytes = sent @ left \<and> ln_out (fst (sys_write ln until bytes)) = ln_out ln @ sent \<and>
      (\<forall>n. snd (sys_write ln until bytes) = Wrote n \<longrightarrow> left = drop n bytes)"
    if "ln_out (fst (sys_write ln until bytes)) = ln_out ln @ take k bytes" "\<And>n. snd (sys_write ln until bytes) = Wrote n \<Longrightarrow> n = min k (length bytes)"
    for k
    using that by (intro exI [of _ "take k bytes"] exI [of _ "drop k bytes"]) (auto simp: min_def)
  show ?thesis
  proof (cases "ln_writes ln")
    case Nil
    then show ?thesis by (intro none [of "length bytes"]) (simp_all add: sys_write_def)
  next
    case (Cons w ws)
    obtain d a where w: "w = (d, a)" by force
    have "\<exists>k. ln_out (fst (sys_write ln until bytes)) = ln_out ln @ take k bytes \<and>
        (\<forall>n. snd (sys_write ln until bytes) = Wrote n \<longrightarrow> n = min k (length bytes))"
      using Cons w by (cases a) (auto simp: sys_write_def Let_def intro: exI [of _ 0])
    then show ?thesis using none by blast
  qed
qed

lemma write_exact_prefix:
  "\<exists>sent left. bytes = sent @ left \<and> ln_out (fst (write_exact outer deadline bytes ln)) = ln_out ln @ sent"
proof (induction bytes arbitrary: ln rule: length_induct)
  case (1 bytes)
  obtain ln1 o1 where wr: "sys_write ln (timer_bound outer deadline) bytes = (ln1, o1)" by force
  obtain sent left where out: "bytes = sent @ left" "ln_out ln1 = ln_out ln @ sent" "\<And>n. o1 = Wrote n \<Longrightarrow> left = drop n bytes"
    using sys_write_out [of bytes ln "timer_bound outer deadline"] wr by auto
  show ?case
  proof (cases "bytes \<noteq> [] \<and> (\<exists>n. o1 = Wrote n \<and> n \<noteq> 0)")
    case True
    then obtain n where n: "bytes \<noteq> []" "o1 = Wrote n" "n \<noteq> 0" by blast
    obtain s2 l2 where rec: "drop n bytes = s2 @ l2" "ln_out (fst (write_exact outer deadline (drop n bytes) ln1)) = ln_out ln1 @ s2"
      using 1 [rule_format, of "drop n bytes" ln1] n by auto
    have step: "write_exact outer deadline bytes ln = write_exact outer deadline (drop n bytes) ln1"
      unfolding write_exact.simps [of outer deadline bytes ln] wr by (simp add: n)
    have "bytes = (sent @ s2) @ l2" using out(1) out(3) [OF n(2)] rec(1) by simp
    moreover have "ln_out (fst (write_exact outer deadline bytes ln)) = ln_out ln @ sent @ s2"
      unfolding step rec(2) out(2) by simp
    ultimately show ?thesis by blast
  next
    case False
    then have "fst (write_exact outer deadline bytes ln) = (if bytes = [] then ln else ln1)"
      unfolding write_exact.simps [of outer deadline bytes ln] wr by (cases o1) auto
    then show ?thesis using out by (cases "bytes = []") auto
  qed
qed

definition fault_bytes :: "Archive \<Rightarrow> Close \<Rightarrow> u8 list" where
  "fault_bytes ar close = (case Option.bind (close_fault close) (fault_frame (fault_message ar)) of Some bytes \<Rightarrow> bytes | None \<Rightarrow> [])"

lemma close_handshake_out:
  "\<exists>sent left. fault_bytes ar close = sent @ left \<and> ln_out (close_handshake ar close timeout ln) = ln_out ln @ sent"
  using write_exact_prefix [of _ None "instant_after ln timeout" ln]
  by (auto simp: fault_bytes_def close_handshake_def write_frame_def split: option.split)

lemma retire_fired: "cn_fired (fst (retire_task joined c)) = cn_fired c"
  by (simp add: retire_task_def Let_def split: option.splits)

lemma complete_fired: "cn_fired (fst (complete ar limits joined c ln)) = cn_fired c"
  using retire_fired [of joined c] by (auto simp: complete_def split: prod.splits option.splits sum.splits)

lemma drain_fired: "cn_fired (fst (drain ar limits deliver grace joins c ln)) = cn_fired c"
proof (induction ar limits deliver grace joins c ln rule: drain.induct)
  case (2 ar limits deliver grace at joined rest c ln)
  let ?ln = "ln\<lparr>ln_now := max (ln_now ln) at\<rparr>"
  obtain c2 ln2 r where run: "complete ar limits joined c ?ln = (c2, ln2, r)" by (metis prod_cases3)
  then have "cn_fired c2 = cn_fired c" using complete_fired [of ar limits joined c ?ln] by simp
  with 2 run show ?case by (cases r) (auto simp: Let_def)
qed simp

subsection \<open>Accepting\<close>

inductive serve_reach :: "Limits \<Rightarrow> Serving \<Rightarrow> bool" for limits where
  serve_opened: "serve_reach limits (serving_new limits)"
| serve_accepted: "serve_reach limits s \<Longrightarrow> serve_reach limits (fst (accept_stream s))"
| serve_finished: "serve_reach limits s \<Longrightarrow> serve_reach limits (connection_finished k s)"

lemma serve_reach_inv:
  assumes "serve_reach limits s"
  shows "sv_permits s + length (sv_connections s) = li_max_connections limits \<and> distinct (sv_connections s) \<and>
    (\<forall>k \<in> set (sv_connections s). k < sv_next s)"
  using assms
proof induction
  case (serve_finished s k)
  have "k \<in> set (sv_connections s) \<Longrightarrow> Suc (length (sv_connections s) - Suc 0) = length (sv_connections s)"
    by (cases "sv_connections s") auto
  with serve_finished show ?case
    by (auto simp: connection_finished_def distinct_remove1_removeAll [symmetric] length_remove1 dest: notin_set_remove1)
qed (auto simp: serving_new_def accept_stream_def)

text \<open>A saturating count covers an amount when it is at least that or has saturated.\<close>

definition covers :: "nat \<Rightarrow> u64 \<Rightarrow> bool" where
  "covers n w \<longleftrightarrow> n \<le> unat w \<or> w = - 1"

lemma unat_minus_1_u64: "unat (- 1 :: u64) = 2 ^ 64 - 1"
  by (simp add: unsigned_minus_1_eq_mask mask_eq_exp_minus_1)

lemma saturating_mul_max: "b \<noteq> 0 \<Longrightarrow> saturating_mul (- 1) b = - 1" "a \<noteq> 0 \<Longrightarrow> saturating_mul a (- 1) = - 1"
proof -
  have one: "w = 1" if "w \<noteq> 0" "unat w * (2 ^ 64 - 1) < 2 ^ 64" for w :: u64
  proof -
    have "unat w < 2" using that(2) by (cases "unat w"; cases "unat w - 1") auto
    moreover have "unat w \<noteq> 0" using that(1) by (simp add: unat_eq_zero)
    ultimately show ?thesis by (simp add: word_unat_eq_iff)
  qed
  show "saturating_mul (- 1) b = - 1" if "b \<noteq> 0"
    using one [OF that] by (auto simp: saturating_mul_def unat_minus_1_u64 mult.commute)
  show "saturating_mul a (- 1) = - 1" if "a \<noteq> 0"
    using one [OF that] by (auto simp: saturating_mul_def unat_minus_1_u64)
qed

lemma covers_mul:
  assumes "covers m a" and "covers n b" and "a \<noteq> 0" and "b \<noteq> 0"
  shows "covers (m * n) (saturating_mul a b)"
proof (cases "a = - 1 \<or> b = - 1")
  case False
  then have "m * n \<le> unat a * unat b" using assms(1,2) by (auto simp: covers_def intro: mult_le_mono)
  moreover have "unat (a * b) = unat a * unat b" if "unat a * unat b < 2 ^ 64"
    using that by (simp add: unat_word_ariths)
  ultimately show ?thesis by (auto simp: covers_def saturating_mul_def)
qed (use assms(3,4) saturating_mul_max in \<open>auto simp: covers_def\<close>)

lemma covers_len: "covers n (len_u64 n)"
  by (auto simp: covers_def len_u64_def unat_of_nat)

lemma covers_add:
  assumes "covers m a" and "covers n b"
  shows "covers (m + n) (saturating_add a b)"
proof (cases "unat a + unat b < 2 ^ 64")
  case True
  have top: "unat w = 2 ^ 64 - 1" if "w = - 1" for w :: u64 using that by (simp add: unat_minus_1_u64)
  have "saturating_add a b = - 1" if "a = - 1 \<or> b = - 1"
  proof -
    have "a = 0 \<and> b = - 1 \<or> a = - 1 \<and> b = 0"
      using that top [of a] top [of b] True by (auto simp: word_unat_eq_iff [of _ 0])
    then show ?thesis using True by (auto simp: saturating_add_def)
  qed
  moreover have "unat (saturating_add a b) = unat a + unat b"
    using True by (simp add: saturating_add_def unat_add_no_overflow)
  ultimately show ?thesis using assms by (auto simp: covers_def)
qed (simp add: saturating_add_def covers_def)

lemma covers_mono: "covers n w \<Longrightarrow> m \<le> n \<Longrightarrow> covers m w"
  by (auto simp: covers_def)

lemma saturating_nonzero: "a \<noteq> 0 \<Longrightarrow> b \<noteq> 0 \<Longrightarrow> saturating_mul a b \<noteq> 0" "b \<noteq> 0 \<Longrightarrow> saturating_add a b \<noteq> (0 :: u64)"
proof -
  show "saturating_mul a b \<noteq> 0" if "a \<noteq> 0" "b \<noteq> 0"
  proof (cases "unat a * unat b < 2 ^ 64")
    case True
    then have "unat (a * b) = unat a * unat b" by (simp add: unat_word_ariths)
    with that True show ?thesis by (auto simp: saturating_mul_def word_unat_eq_iff)
  qed (simp add: saturating_mul_def)
  show "saturating_add a b \<noteq> 0" if "b \<noteq> 0"
    using that unat_add_no_overflow [of a b] by (auto simp: saturating_add_def word_unat_eq_iff)
qed

text \<open>The worst case covers every connection with every request it may have in flight.\<close>

lemma worst_case_covers:
  assumes "1 \<le> max_permits"
  shows "covers (li_max_connections (clamped max_permits l) *
      (li_max_in_flight (clamped max_permits l) + unat FRAMES_PER_CONNECTION) * unat (li_max_frame (clamped max_permits l)))
    (worst_case_bytes max_permits l)"
proof -
  let ?l = "clamped max_permits l"
  have len: "len_u64 n \<noteq> 0" if "1 \<le> n" for n
    using that by (auto simp: len_u64_def word_unat_eq_iff unat_of_nat unat_minus_1_u64)
  have conns: "len_u64 (li_max_connections ?l) \<noteq> 0" using assms by (intro len) (simp add: clamped_def)
  have frames: "saturating_add (len_u64 (li_max_in_flight ?l)) FRAMES_PER_CONNECTION \<noteq> 0"
    by (rule saturating_nonzero) (simp add: FRAMES_PER_CONNECTION_def)
  have "unat (li_max_frame ?l) \<noteq> 0"
    by (auto simp: clamped_def PRE_AUTH_MAX_BODY_def HARD_MAX_BODY_def min_def max_def word_le_nat_alt)
  moreover have cap: "unat (ucast (li_max_frame ?l) :: u64) = unat (li_max_frame ?l)"
    using unsigned_less [of "li_max_frame ?l", where 'a = nat] by (simp add: unsigned_ucast_eq take_bit_nat_eq_self)
  ultimately have frame: "(ucast (li_max_frame ?l) :: u64) \<noteq> 0" by (metis unat_0)
  have seven: "covers (unat FRAMES_PER_CONNECTION) FRAMES_PER_CONNECTION" by (simp add: covers_def)
  have "covers (unat (li_max_frame ?l)) (ucast (li_max_frame ?l) :: u64)" using cap by (simp add: covers_def)
  from covers_mul [OF covers_mul [OF covers_len covers_add [OF covers_len seven] conns frames] this
      saturating_nonzero(1) [OF conns frames] frame]
  show ?thesis by (simp add: worst_case_bytes_def Let_def)
qed

lemma worst_case_default: "16 \<le> max_permits \<Longrightarrow> worst_case_bytes max_permits limits_default = DEFAULT_MEMORY_BUDGET"
  by (simp add: worst_case_bytes_def clamped_def limits_default_def DEFAULT_MEMORY_BUDGET_def len_u64_def saturating_mul_def
      saturating_add_def FRAMES_PER_CONNECTION_def DEFAULT_MAX_BODY_def PRE_AUTH_MAX_BODY_def HARD_MAX_BODY_def Let_def)

end
