(* ===== verification/Admissions.thy ===== *)
theory Admissions
  imports Handshake Samples
begin

text \<open>
  What the handshake guarantees, with a sample exchange: an archive that serializes the handshake messages field by
  field, a signature scheme that can be evaluated, and a store with one tenant.
\<close>

section \<open>A sample exchange\<close>

definition sample_archive :: Archive where
  "sample_archive =
     \<lparr>ar_client_hello =
        ((\<lambda>m. Some (to_le_bytes 2 (version_min m) @ to_le_bytes 2 (version_max m) @
            tenant_to_bytes (hello_tenant m) @ nonce_bytes (client_nonce m))),
         (\<lambda>b. if length b = 36 then Some \<lparr>version_min = from_le_bytes (take 2 b),
            version_max = from_le_bytes (take 2 (drop 2 b)),
            hello_tenant = TenantId (id_from_bytes (take 16 (drop 4 b))),
            client_nonce = Nonce (from_be_bytes (drop 20 b))\<rparr> else None)),
      ar_server_hello =
        ((\<lambda>m. Some ((case hello_version m of Chosen v \<Rightarrow> 1 # to_le_bytes 2 v | Incompatible \<Rightarrow> [0, 0, 0]) @
            nonce_bytes (server_nonce m) @ to_le_bytes 4 (max_frame m))),
         (\<lambda>b. if length b = 23 then Some
            \<lparr>hello_version = (if hd b = 1 then Chosen (from_le_bytes (take 2 (drop 1 b))) else Incompatible),
             server_nonce = Nonce (from_be_bytes (take 16 (drop 3 b))), max_frame = from_le_bytes (drop 19 b)\<rparr> else None)),
      ar_auth = ((\<lambda>m. if length m = SIGNATURE_LEN then Some m else None),
         (\<lambda>b. if length b = SIGNATURE_LEN then Some b else None)),
      ar_admitted = ((\<lambda>_. Some []), (\<lambda>b. if b = [] then Some () else None)),
      ar_request = ((\<lambda>_. None), (\<lambda>_. None)),
      ar_cancel = ((\<lambda>m. Some (to_le_bytes 8 m)), (\<lambda>b. if length b = 8 then Some (from_le_bytes b) else None)),
      ar_response = ((\<lambda>_. None), (\<lambda>_. None)),
      ar_fault = ((\<lambda>f. if f = Failure.ProtocolError then Some [0] else if f = Failure.AuthFailed then Some [1] else None),
         (\<lambda>b. if b = [0] then Some Failure.ProtocolError else if b = [1] then Some Failure.AuthFailed else None))\<rparr>"

definition sample_sign :: "u8 list \<Rightarrow> u8 list" where
  "sample_sign transcript = take 64 (drop 2 transcript @ replicate 64 0)"

definition sample_authenticator :: Authenticator where
  "sample_authenticator =
     \<lparr>au_verify = (\<lambda>key transcript signature. key = [9] \<and> signature = sample_sign transcript), au_dummy_key = [8]\<rparr>"

definition sample_hosted :: Db where
  "sample_hosted = fst (register_tenant sample_env
     (sample_registration\<lparr>reg_verifying_key := [9], reg_bound_uids := [1000]\<rparr>) empty_db)"

lemma sample_hosted_tenant:
  "tenant_lookup sample_hosted t =
    (if t = TenantId 1 then Some \<lparr>ta_verifying_key = [9], ta_bound_uids = [1000]\<rparr> else None)"
  by (simp add: sample_hosted_def register_tenant_def register_tenant_tx_def sample_registration_def sample_env_def
      empty_db_def end_tx_def commit_def ensure_def tenant_lookup_def store_tenant_def tenant_entry_from_def)

lemma sample_codec: "handshake_codec sample_archive"
proof -
  have "from_be_bytes (nonce_bytes n) = v \<longleftrightarrow> n = Nonce v" for n and v :: u128
    by (cases n) (auto simp: from_be_to_be_bytes)
  moreover have "TenantId (id_from_bytes (tenant_to_bytes t)) = t" for t
    by (cases t) (simp add: id_bytes_roundtrip)
  moreover have "Nonce (from_be_bytes (nonce_bytes n)) = n" for n
    by (cases n) (simp add: from_be_to_be_bytes)
  ultimately show ?thesis
    by (auto simp: handshake_codec_def faithful_def compact_def sample_archive_def SIGNATURE_LEN_def PRE_AUTH_MAX_BODY_def
        from_le_to_le_bytes split: VersionChoice.splits if_splits)
qed

definition sample_conn_link :: "u8 list \<Rightarrow> Link" where
  "sample_conn_link bytes = sample_link (arriving (replicate (length bytes) 200) bytes)"

text \<open>The exchange of a client that offers versions 1 to 3, run by the server for any directory and peer.\<close>

definition sample_decided :: "u8 list \<Rightarrow> bool" where
  "sample_decided c \<longleftrightarrow> (\<forall>au directory uid. \<exists>ln'.
     admit sample_archive au directory uid None limits_default None (Some (Nonce 6)) (sample_conn_link c) =
     (ln', if authenticate au directory (TenantId 1) uid (auth_transcript WIRE_VERSION (TenantId 1) (Nonce 5) (Nonce 6))
        (sample_sign (auth_transcript WIRE_VERSION (TenantId 1) (Nonce 5) (Nonce 6)))
       then Ok (identity \<lparr>ad_tenant = TenantId 1, ad_version = WIRE_VERSION\<rparr> uid None (li_max_frame limits_default))
       else Err (CloseFault Failure.AuthFailed ''authentication failed'')))"

lemma sample_decidedD: "sample_decided c \<Longrightarrow> \<exists>ln'.
     admit sample_archive au directory uid None limits_default None (Some (Nonce 6)) (sample_conn_link c) =
     (ln', if authenticate au directory (TenantId 1) uid (auth_transcript WIRE_VERSION (TenantId 1) (Nonce 5) (Nonce 6))
        (sample_sign (auth_transcript WIRE_VERSION (TenantId 1) (Nonce 5) (Nonce 6)))
       then Ok (identity \<lparr>ad_tenant = TenantId 1, ad_version = WIRE_VERSION\<rparr> uid None (li_max_frame limits_default))
       else Err (CloseFault Failure.AuthFailed ''authentication failed''))"
  unfolding sample_decided_def by blast

lemma sample_run: "\<exists>c. sample_decided c"
proof -
  have sig: "\<And>tr. length (sample_sign tr) = SIGNATURE_LEN"
    by (simp add: sample_sign_def SIGNATURE_LEN_def)
  have max: "PRE_AUTH_MAX_BODY \<le> li_max_frame limits_default" "li_max_frame limits_default \<le> HARD_MAX_BODY"
    by (simp_all add: limits_default_def DEFAULT_MAX_BODY_def PRE_AUTH_MAX_BODY_def HARD_MAX_BODY_def)
  obtain c1 c2 s1 s2 where ex: "exchange sample_archive sample_sign (TenantId 1) (1, 3) (li_max_frame limits_default)
      (Nonce 5) (Nonce 6) ((c1, c2), (s1, s2))"
    using exchange_exists [OF sample_codec _ _ max, where versions = "(1, 3)" and tenant = "TenantId 1" and
        sign = sample_sign and cnonce = "Nonce 5" and snonce = "Nonce 6"] sig by auto
  have now: "ln_now (sample_conn_link c) = 100" "ln_writes (sample_conn_link c) = []" "ln_last (sample_conn_link c) = 2 ^ 63"
    "ln_in (sample_conn_link c) = arriving (replicate (length c) 200) c @ []" for c
    by (simp_all add: sample_conn_link_def sample_link_def)
  have times: "li_handshake_timeout limits_default = 5000000000" "li_frame_timeout limits_default = 10000000000"
    by (simp_all add: limits_default_def millis_def HANDSHAKE_TIMEOUT_MS_def)
  have "sample_decided (c1 @ c2)"
    unfolding sample_decided_def
  proof (intro allI)
    fix au directory uid
    show "\<exists>ln'. admit sample_archive au directory uid None limits_default None (Some (Nonce 6)) (sample_conn_link (c1 @ c2)) =
     (ln', if authenticate au directory (TenantId 1) uid (auth_transcript WIRE_VERSION (TenantId 1) (Nonce 5) (Nonce 6))
        (sample_sign (auth_transcript WIRE_VERSION (TenantId 1) (Nonce 5) (Nonce 6)))
       then Ok (identity \<lparr>ad_tenant = TenantId 1, ad_version = WIRE_VERSION\<rparr> uid None (li_max_frame limits_default))
       else Err (CloseFault Failure.AuthFailed ''authentication failed''))"
      using handshake_decides [OF sample_codec ex _ _ now(4) _ now(2), where limit = 200 and outer = 5000000100 and
          au = au and directory = directory and uid = uid]
      by (auto simp: now times admit_def Let_def WIRE_VERSION_def)
  qed
  then show ?thesis by blast
qed

section \<open>Properties\<close>

text \<open>C10. Admission is authentic: a connection is admitted as a tenant only if the store has that tenant, the peer's
  user id is bound to it, and its registered key verified the signature the peer's second frame carries
  over the transcript with the tenant and client nonce its first frame names and the nonce this server
  drew for this connection; a transcript with any other server nonce is another
  byte string, so a signature recorded from an earlier connection proves nothing here.\<close>

theorem admission_is_authentic:
  assumes "admit ar au (tenant_lookup db) uid pid limits stop draw ln = (ln', Ok conn)"
  shows "\<exists>r cnonce snonce signature. db_tenants db (conn_tenant conn) = Some r \<and>
    conn_uid conn = uid \<and> uid \<in> set (tr_bound_uids r) \<and> draw = Some snonce \<and> conn_version conn = WIRE_VERSION \<and>
    presents ar limits (handshake_end limits stop ln) draw ln (conn_tenant conn)
      (auth_transcript (conn_version conn) (conn_tenant conn) cnonce snonce) signature \<and>
    au_verify au (tr_verifying_key r) (auth_transcript (conn_version conn) (conn_tenant conn) cnonce snonce) signature \<and>
    (\<forall>version tenant cn sn. sn \<noteq> snonce \<longrightarrow>
       auth_transcript version tenant cn sn \<noteq> auth_transcript (conn_version conn) (conn_tenant conn) cnonce snonce)"
proof -
  let ?outer = "handshake_end limits stop ln"
  obtain admission where conn: "conn = identity admission uid pid (li_max_frame limits)"
    and run: "handshake ar au (tenant_lookup db) uid limits ?outer draw ln = (ln', Some (Ok admission))"
    using assms by (auto simp: admit_Ok_iff)
  obtain cnonce snonce signature where ok: "draw = Some snonce" "ad_version admission = WIRE_VERSION"
    "presents ar limits ?outer draw ln (ad_tenant admission)
      (auth_transcript (ad_version admission) (ad_tenant admission) cnonce snonce) signature"
    "authenticate au (tenant_lookup db) (ad_tenant admission) uid
      (auth_transcript (ad_version admission) (ad_tenant admission) cnonce snonce) signature"
    using handshake_Ok [OF run] by blast
  have "auth_transcript version tenant cn sn \<noteq> auth_transcript v t cnonce snonce" if "sn \<noteq> snonce" for version tenant cn sn v t
    using that by (simp add: auth_transcript_eq nonce_bytes_inject)
  moreover obtain r where "db_tenants db (ad_tenant admission) = Some r" "uid \<in> set (tr_bound_uids r)"
    "au_verify au (tr_verifying_key r) (auth_transcript WIRE_VERSION (ad_tenant admission) cnonce snonce) signature"
    using ok by (auto simp: authenticate_iff tenant_lookup_def store_tenant_def tenant_entry_from_def)
  ultimately show ?thesis
    using ok conn by (intro exI [of _ r] exI [of _ cnonce] exI [of _ snonce] exI [of _ signature]) (simp add: identity_def)
qed

theorem admission_is_authentic_witness:
  "\<exists>c ln' conn r. admit sample_archive sample_authenticator (tenant_lookup sample_hosted) 1000 None limits_default None
      (Some (Nonce 6)) (sample_conn_link c) = (ln', Ok conn) \<and>
    db_tenants sample_hosted (conn_tenant conn) = Some r \<and> 1000 \<in> set (tr_bound_uids r)"
proof -
  obtain c where run: "sample_decided c" using sample_run by blast
  have "authenticate sample_authenticator (tenant_lookup sample_hosted) (TenantId 1) 1000 tr (sample_sign tr)" for tr
    by (simp add: authenticate_iff sample_hosted_tenant sample_authenticator_def)
  then obtain ln' conn where ok: "admit sample_archive sample_authenticator (tenant_lookup sample_hosted) 1000 None limits_default
      None (Some (Nonce 6)) (sample_conn_link c) = (ln', Ok conn)"
    using sample_decidedD [OF run, of sample_authenticator "tenant_lookup sample_hosted" 1000] by auto
  with admission_is_authentic [OF ok] show ?thesis by blast
qed

text \<open>C11. Refusals do not tell why: what a peer presents is its hello and its authentication frame. When two
  servers' directories, keys and the peer's user ids each fail to authenticate it (the tenant is unknown, the
  user id is not bound, the signature does not verify, or there is nothing to verify), both runs on the same
  link end with the same close, the same bytes sent and the same input read, and neither admits. The
  statement is about what is sent, in the model's time in which computing takes none; it makes no claim
  about how long a verification takes.\<close>

theorem refusals_indistinguishable:
  assumes "\<And>tenant tr sig. presents ar limits (handshake_end limits stop ln) draw ln tenant tr sig \<Longrightarrow>
      \<not> authenticate au directory tenant uid tr sig"
    and "\<And>tenant tr sig. presents ar limits (handshake_end limits stop ln) draw ln tenant tr sig \<Longrightarrow>
      \<not> authenticate au' directory' tenant uid' tr sig"
  shows "admit ar au directory uid pid limits stop draw ln = admit ar au' directory' uid' pid' limits stop draw ln \<and>
    (\<exists>close. snd (admit ar au directory uid pid limits stop draw ln) = Err close)"
proof
  show "admit ar au directory uid pid limits stop draw ln = admit ar au' directory' uid' pid' limits stop draw ln"
    by (rule admit_same_run [OF handshake_unverified [OF assms] unverified_not_admitted [OF assms(1)]])
  show "\<exists>close. snd (admit ar au directory uid pid limits stop draw ln) = Err close"
  proof (rule ccontr)
    assume "\<nexists>close. snd (admit ar au directory uid pid limits stop draw ln) = Err close"
    then obtain ln' conn where "admit ar au directory uid pid limits stop draw ln = (ln', Ok conn)"
      by (metis obj_sumE prod.collapse)
    with unverified_not_admitted [OF assms(1)] show False by (auto simp: admit_Ok_iff)
  qed
qed

theorem refusals_indistinguishable_witness:
  "\<exists>c ln'.
    admit sample_archive sample_authenticator (\<lambda>_. None) 1000 None limits_default None (Some (Nonce 6)) (sample_conn_link c) =
      (ln', Err (CloseFault Failure.AuthFailed ''authentication failed'')) \<and>
    admit sample_archive sample_authenticator (tenant_lookup sample_hosted) 77 None limits_default None (Some (Nonce 6))
      (sample_conn_link c) = (ln', Err (CloseFault Failure.AuthFailed ''authentication failed''))"
proof -
  obtain c where run: "sample_decided c" using sample_run by blast
  have no: "\<not> authenticate sample_authenticator (\<lambda>_. None) t 1000 tr sig"
    "\<not> authenticate sample_authenticator (tenant_lookup sample_hosted) t 77 tr sig" for t tr sig
    by (simp_all add: authenticate_iff sample_hosted_tenant)
  obtain ln1 where "admit sample_archive sample_authenticator (\<lambda>_. None) 1000 None limits_default None (Some (Nonce 6))
      (sample_conn_link c) = (ln1, Err (CloseFault Failure.AuthFailed ''authentication failed''))"
    using sample_decidedD [OF run, of sample_authenticator "\<lambda>_. None" 1000] no(1) by auto
  moreover from refusals_indistinguishable [OF no] have
    "admit sample_archive sample_authenticator (\<lambda>_. None) 1000 None limits_default None (Some (Nonce 6)) (sample_conn_link c) =
     admit sample_archive sample_authenticator (tenant_lookup sample_hosted) 77 None limits_default None (Some (Nonce 6))
      (sample_conn_link c)" by blast
  ultimately show ?thesis by metis
qed

text \<open>C17. Nothing a peer sends before admission holds the server for long or makes it read much: the connection is
  admitted or closed within the handshake timeout and one frame timeout, and at most two frames of
  the pre-authentication bound are read.\<close>

theorem preadmission_bounded:
  assumes "admit ar au directory uid pid limits stop draw ln = (ln', r)"
    and "case stop of Some s \<Rightarrow> ln_now ln \<le> s | None \<Rightarrow> True"
  shows "ln_now ln' \<le> ln_now ln + li_handshake_timeout limits + li_frame_timeout limits \<and>
    waiting ln \<le> waiting ln' + 2 * (HEADER_LEN + unat PRE_AUTH_MAX_BODY)"
proof -
  define deadline where "deadline = ln_now ln + li_handshake_timeout limits"
  define outer where "outer = (if case stop of Some s \<Rightarrow> s < deadline | None \<Rightarrow> False then the stop else deadline)"
  obtain ln1 r1 where run: "handshake ar au directory uid limits outer draw ln = (ln1, r1)" by force
  have outer: "ln_now ln \<le> outer" "outer \<le> deadline"
    using assms(2) by (auto simp: outer_def deadline_def split: option.splits)
  note c = confinedD [OF handshake_confined run outer(1)]
  have "ln' = ln1 \<or> (\<exists>close. ln' = close_handshake ar close (li_frame_timeout limits) ln1)"
    using assms(1) run by (auto simp: admit_def Let_def outer_def deadline_def split: option.splits sum.splits if_splits)
  then show ?thesis
  proof
    assume "\<exists>close. ln' = close_handshake ar close (li_frame_timeout limits) ln1"
    then obtain close where "ln' = close_handshake ar close (li_frame_timeout limits) ln1" ..
    with close_handshake_bounds [where ar = ar and close = close and timeout = "li_frame_timeout limits" and ln = ln1] c outer(2)
    show ?thesis by (simp add: deadline_def)
  qed (use c outer(2) in \<open>simp add: deadline_def\<close>)
qed

theorem preadmission_bounded_witness:
  "ln_now (fst (admit sample_archive sample_authenticator (\<lambda>_. None) 1000 None limits_default None None (sample_link []))) \<le>
    100 + 5000000000 + 10000000000"
proof -
  obtain ln' r where run: "admit sample_archive sample_authenticator (\<lambda>_. None) 1000 None limits_default None None
      (sample_link []) = (ln', r)" by force
  then show ?thesis
    using preadmission_bounded [OF run] by (simp add: sample_link_def limits_default_def millis_def HANDSHAKE_TIMEOUT_MS_def)
qed

text \<open>C12. Honest parties agree: a client whose key the store has registered and whose user id is bound, offering a
  range of versions that contains the server's, and the server exchange four frames; the server that
  receives the client's two in time sends its two and admits the client's tenant, and the client that
  receives those sends its two and holds a connection with the same version and frame bound.  The
  serializer inverts and fits the handshake's messages, and the key verifies what the client signs.\<close>

theorem handshake_agreement:
  assumes codec: "handshake_codec ar"
    and bounds: "PRE_AUTH_MAX_BODY \<le> li_max_frame limits" "li_max_frame limits \<le> HARD_MAX_BODY"
    and versions: "fst versions \<le> WIRE_VERSION" "WIRE_VERSION \<le> snd versions"
    and known: "directory tenant = Some r" "uid \<in> set (ta_bound_uids r)"
    and signature: "\<And>tr. length (sign tr) = SIGNATURE_LEN" "\<And>tr. au_verify au (ta_verifying_key r) tr (sign tr)"
  shows "\<exists>c1 c2 s1 s2.
    (\<forall>server ts rest limit. ln_in server = arriving ts (c1 @ c2) @ rest \<and> length ts = length (c1 @ c2) \<and>
       ln_writes server = [] \<and> ln_now server \<le> limit \<and> (\<forall>t \<in> set ts. t \<le> limit) \<and>
       limit \<le> ln_now server + min (li_frame_timeout limits) (li_handshake_timeout limits) \<and>
       limit + li_frame_timeout limits \<le> ln_last server \<longrightarrow>
       (\<exists>at. admit ar au directory uid pid limits None (Some snonce) server =
         (server\<lparr>ln_now := at, ln_in := rest, ln_out := ln_out server @ s1 @ s2\<rparr>,
          Ok \<lparr>conn_tenant = tenant, conn_uid = uid, conn_pid = pid, conn_version = WIRE_VERSION,
              conn_max_frame = li_max_frame limits\<rparr>))) \<and>
    (\<forall>client ts rest timeouts. ln_in client = arriving ts (s1 @ s2) @ rest \<and> length ts = length (s1 @ s2) \<and>
       ln_writes client = [] \<and> 0 < to_handshake timeouts \<and> ln_now client + to_handshake timeouts \<le> ln_last client \<and>
       (\<forall>t \<in> set ts. t < ln_now client + to_handshake timeouts) \<longrightarrow>
       (\<exists>at. client_handshake ar sign tenant versions timeouts (Some cnonce) client =
         (let client' = client\<lparr>ln_now := at, ln_in := rest, ln_out := ln_out client @ c1 @ c2\<rparr> in
          (client', Ok \<lparr>cl_link = client', cl_version = WIRE_VERSION, cl_max_frame = li_max_frame limits,
             cl_timeouts = timeouts, cl_broken = False\<rparr>))))"
proof -
  obtain c1 c2 s1 s2 where ex: "exchange ar sign tenant versions (li_max_frame limits) cnonce snonce ((c1, c2), (s1, s2))"
    using exchange_exists [OF codec _ _ bounds, where versions = versions and sign = sign and tenant = tenant]
      signature(1) versions by (metis order_trans surj_pair)
  have auth: "authenticate au directory tenant uid tr (sign tr)" for tr
    using known signature(2) by (simp add: authenticate_iff)
  have server: "\<exists>at. admit ar au directory uid pid limits None (Some snonce) server =
      (server\<lparr>ln_now := at, ln_in := rest, ln_out := ln_out server @ s1 @ s2\<rparr>,
       Ok \<lparr>conn_tenant = tenant, conn_uid = uid, conn_pid = pid, conn_version = WIRE_VERSION,
           conn_max_frame = li_max_frame limits\<rparr>)"
    if "ln_in server = arriving ts (c1 @ c2) @ rest" "length ts = length (c1 @ c2)" "ln_writes server = []"
      "ln_now server \<le> limit" "\<forall>t \<in> set ts. t \<le> limit"
      "limit \<le> ln_now server + min (li_frame_timeout limits) (li_handshake_timeout limits)"
      "limit + li_frame_timeout limits \<le> ln_last server" for server ts rest limit
  proof -
    have "limit \<le> ln_now server + li_frame_timeout limits" "limit \<le> ln_now server + li_handshake_timeout limits"
      using that(6) by auto
    from handshake_decides [OF codec ex versions that(1,2,3,4,5) this that(7), of au directory uid] auth
    show ?thesis by (auto simp: admit_def identity_def)
  qed
  show ?thesis
    using server client_handshake_accepts [OF codec ex versions]
    by (intro exI [of _ c1] exI [of _ c2] exI [of _ s1] exI [of _ s2] conjI allI impI) auto
qed

theorem handshake_agreement_witness:
  "\<exists>c1 c2 s1 s2.
    (\<forall>server ts rest limit. ln_in server = arriving ts (c1 @ c2) @ rest \<and> length ts = length (c1 @ c2) \<and>
       ln_writes server = [] \<and> ln_now server \<le> limit \<and> (\<forall>t \<in> set ts. t \<le> limit) \<and>
       limit \<le> ln_now server + min (li_frame_timeout limits_default) (li_handshake_timeout limits_default) \<and>
       limit + li_frame_timeout limits_default \<le> ln_last server \<longrightarrow>
       (\<exists>at. admit sample_archive sample_authenticator (tenant_lookup sample_hosted) 1000 None limits_default None (Some (Nonce 6)) server =
         (server\<lparr>ln_now := at, ln_in := rest, ln_out := ln_out server @ s1 @ s2\<rparr>,
          Ok \<lparr>conn_tenant = TenantId 1, conn_uid = 1000, conn_pid = None, conn_version = 1, conn_max_frame = 1048576\<rparr>)))"
proof -
  have "\<And>tr. length (sample_sign tr) = SIGNATURE_LEN" by (simp add: sample_sign_def SIGNATURE_LEN_def)
  moreover have "\<And>tr. au_verify sample_authenticator [9] tr (sample_sign tr)" by (simp add: sample_authenticator_def)
  ultimately show ?thesis
    using handshake_agreement [OF sample_codec, where limits = limits_default and versions = "(1, 1)" and tenant = "TenantId 1" and
        directory = "tenant_lookup sample_hosted" and uid = 1000 and sign = sample_sign and au = sample_authenticator and
        pid = None and snonce = "Nonce 6" and r = "\<lparr>ta_verifying_key = [9], ta_bound_uids = [1000]\<rparr>"]
    by (simp add: sample_hosted_tenant limits_default_def DEFAULT_MAX_BODY_def PRE_AUTH_MAX_BODY_def HARD_MAX_BODY_def
        WIRE_VERSION_def) blast
qed

end
