(* ===== verification/Connections.thy ===== *)
theory Connections
  imports Connection Admissions
begin

text \<open>What an admitted connection and the server around it guarantee, with a sample connection.\<close>

section \<open>A sample connection\<close>

definition sample_responder :: Archive where
  "sample_responder = sample_archive\<lparr>ar_response := ((\<lambda>r. Some (to_le_bytes 8 (resp_request_id r))), (\<lambda>_. None))\<rparr>"

definition sample_peer :: ConnIdentity where
  "sample_peer = \<lparr>conn_tenant = TenantId 1, conn_uid = 1000, conn_pid = None, conn_version = 1, conn_max_frame = 1048576\<rparr>"

definition sample_ping :: "u64 \<Rightarrow> RequestMsg" where
  "sample_ping rid = \<lparr>request_id = rid, req_grant = GrantId 1, idempotency_key = None, req_mode = DryRun,
     deadline_ms = 1000, req_body = RequestBody.Query \<lparr>query_session_scope = None, query_predicate = [], query_limit = 1\<rparr>\<rparr>"

definition sample_arms :: "Arm list" where
  "sample_arms = [Received (Ok (InboundRequest (sample_ping 7))), Received (Ok (InboundRequest (sample_ping 8))),
     JoinedTask (Panicked 0)]"

definition sample_task :: "u64 \<Rightarrow> Task" where
  "sample_task rid = \<lparr>tk_conn = sample_peer, tk_request = sample_ping rid, tk_deadline = 1000000100,
     tk_backstop = 3000000100\<rparr>"

definition sample_busy :: "(u64 \<times> nat) list \<Rightarrow> nat \<Rightarrow> Admitted" where
  "sample_busy rids m = \<lparr>cn_identity = sample_peer, cn_in_flight = rids, cn_task_ids = map (\<lambda>(rid, n). (n, rid)) rids,
     cn_tasks = map (\<lambda>(rid, n). (n, sample_task rid)) rids, cn_fired = [], cn_last_activity = 100, cn_next = m\<rparr>"

lemma sample_turns:
  "turn sample_responder limits_default (Received (Ok (InboundRequest (sample_ping 7)))) (sample_busy [] 0) (sample_link []) =
    (sample_busy [(7, 0)] 1, sample_link [], Ok ())"
  "turn sample_responder limits_default (Received (Ok (InboundRequest (sample_ping 8)))) (sample_busy [(7, 0)] 1) (sample_link []) =
    (sample_busy [(8, 1), (7, 0)] 2, sample_link [], Ok ())"
  by (simp_all add: turn_def accept_inbound_def start_def sample_busy_def sample_link_def sample_ping_def sample_task_def
      limits_default_def Let_def instant_after_def checked_instant_def millis_def)

lemma sample_answer:
  "\<exists>ln. turn sample_responder limits_default (JoinedTask (Panicked 0)) (sample_busy [(8, 1), (7, 0)] 2) (sample_link []) =
    (sample_busy [(8, 1)] 2, ln, Ok ()) \<and> answers (JoinedTask (Panicked 0)) (sample_busy [(8, 1), (7, 0)] 2) =
      [failed_response 7 Failure.UnknownEffect]"
proof -
  have enc: "encode_frame (response_message sample_responder) (failed_response 7 Failure.UnknownEffect) 1048576 =
      Ok (header_encode (header_new Response 8) @ to_le_bytes 8 (7 :: u64))"
    by (simp add: encode_frame_Ok_iff response_message_def message_def sample_responder_def sample_archive_def
        failed_response_def response_check_def ensure_def clamp_cap_def HARD_MAX_BODY_def)
  show ?thesis
    using enc write_frame_free [of "sample_link []" None _ "li_frame_timeout limits_default"]
    by (simp add: turn_def complete_def retire_task_def sample_busy_def remove_key_def sample_task_def sample_peer_def answers_def
        sample_link_def Let_def)
qed

lemma sample_conn_reach:
  "\<exists>ln. conn_reach sample_responder limits_default sample_peer (sample_link []) sample_arms
     [failed_response 7 Failure.UnknownEffect] (sample_busy [(8, 1)] 2) ln"
proof -
  let ?reach = "conn_reach sample_responder limits_default sample_peer (sample_link [])"
  have start: "admitted_new sample_peer (ln_now (sample_link [])) = sample_busy [] 0"
    by (simp add: admitted_new_def sample_busy_def sample_link_def)
  have may: "possible limits_default ln c (Received item)" for ln c item by (simp add: possible_def enabled_def)
  have 1: "?reach ([] @ [Received (Ok (InboundRequest (sample_ping 7)))]) ([] @ answers (Received (Ok (InboundRequest (sample_ping 7)))) (sample_busy [] 0))
      (sample_busy [(7, 0)] 1) (sample_link [])"
    by (rule conn_turn [OF conn_opened [of sample_responder limits_default sample_peer "sample_link []", unfolded start] may sample_turns(1)])
  have 2: "?reach [Received (Ok (InboundRequest (sample_ping 7))), Received (Ok (InboundRequest (sample_ping 8)))] []
      (sample_busy [(8, 1), (7, 0)] 2) (sample_link [])"
    using conn_turn [OF 1 may sample_turns(2)] by (simp add: answers_def)
  have "possible limits_default (sample_link []) (sample_busy [(8, 1), (7, 0)] 2) (JoinedTask (Panicked 0))"
    by (simp add: possible_def enabled_def sample_busy_def)
  from conn_turn [OF 2 this] sample_answer show ?thesis by (auto simp: sample_arms_def)
qed

section \<open>Properties\<close>

text \<open>C13. Every request is answered once: on a connection that has not ended, the ids of the requests it accepted
  are, counted with multiplicity, those of the responses it sent and those still in flight; what it
  sent is exactly the frames of those responses; no two requests in flight share an id, there are
  never more than the bound allows, and every one of them runs as the tenant that was admitted.\<close>

theorem requests_answered_once:
  assumes "conn_reach ar limits conn ln0 arms resps c ln"
  shows "mset (requested arms) = mset (map resp_request_id resps) + mset (map fst (cn_in_flight c)) \<and>
    (\<exists>frames. ln_out ln = ln_out ln0 @ concat frames \<and>
      list_all2 (\<lambda>r f. encode_frame (response_message ar) r (conn_max_frame conn) = Ok f) resps frames) \<and>
    distinct (map fst (cn_in_flight c)) \<and> length (cn_in_flight c) \<le> li_max_in_flight limits \<and>
    (\<forall>(n, tk) \<in> set (cn_tasks c). tk_conn tk = conn)"
proof -
  note reached = conn_reach_inv [OF assms]
  then have "distinct (map fst (cn_in_flight c)) \<and> length (cn_in_flight c) \<le> li_max_in_flight limits \<and>
      (\<forall>(n, tk) \<in> set (cn_tasks c). tk_conn tk = conn)"
    by (auto simp: conn_inv_def comp_def case_prod_unfold)
  with reached show ?thesis by blast
qed

theorem requests_answered_once_witness:
  "\<exists>ln. conn_reach sample_responder limits_default sample_peer (sample_link []) sample_arms
     [failed_response 7 Failure.UnknownEffect] (sample_busy [(8, 1)] 2) ln \<and>
   mset (requested sample_arms) = {#7#} + {#8#}"
proof -
  obtain ln where reach: "conn_reach sample_responder limits_default sample_peer (sample_link []) sample_arms
     [failed_response 7 Failure.UnknownEffect] (sample_busy [(8, 1)] 2) ln" using sample_conn_reach by blast
  from requests_answered_once [OF reach] have "mset (requested sample_arms) = {#7#} + {#8#}"
    by (simp add: failed_response_def sample_busy_def)
  with reach show ?thesis by blast
qed

text \<open>C16. Cancellation is exact: a cancel frame fires the signal of the task that runs the request it names, and of
  no other task.  When the connection ends, every task it still runs is cancelled; and unless it ends
  for shutdown, what it sends after that is at most the one frame that names the fault: no response
  of a request it gave up follows.\<close>

theorem cancellation_is_exact:
  assumes "conn_reach ar limits conn ln0 arms resps c ln"
  shows "(\<exists>c'. turn ar limits (Received (Ok (InboundCancel rid))) c ln = (c', ln, Ok ()) \<and> cn_tasks c' = cn_tasks c \<and>
      (\<forall>(n, tk) \<in> set (cn_tasks c). is_cancelled c' n \<longleftrightarrow> is_cancelled c n \<or> request_id (tk_request tk) = rid)) \<and>
    (\<forall>close joins c' ln'. finish ar limits close joins c ln = (c', ln') \<longrightarrow>
      (\<forall>(n, tk) \<in> set (cn_tasks c). n \<in> set (cn_fired c')) \<and> cn_tasks c' = [] \<and>
      (close \<noteq> CloseShutdown \<longrightarrow>
        (\<exists>sent left. fault_bytes ar close = sent @ left \<and> ln_out ln' = ln_out ln @ sent)))"
proof (intro conjI allI impI)
  have inv: "conn_inv limits conn c" using conn_reach_inv [OF assms] by simp
  then have flight: "cn_in_flight c = map (\<lambda>(n, tk). (request_id (tk_request tk), n)) (cn_tasks c)" by (simp add: conn_inv_def)
  show "\<exists>c'. turn ar limits (Received (Ok (InboundCancel rid))) c ln = (c', ln, Ok ()) \<and> cn_tasks c' = cn_tasks c \<and>
      (\<forall>(n, tk) \<in> set (cn_tasks c). is_cancelled c' n \<longleftrightarrow> is_cancelled c n \<or> request_id (tk_request tk) = rid)"
  proof (cases "map_of (cn_in_flight c) rid")
    case None
    then have "request_id (tk_request tk) \<noteq> rid" if "(n, tk) \<in> set (cn_tasks c)" for n tk
      using that by (force simp: map_of_eq_None_iff flight)
    with None show ?thesis by (auto simp: turn_def accept_inbound_def Let_def is_cancelled_def)
  next
    case (Some m)
    have "n = m \<longleftrightarrow> request_id (tk_request tk) = rid" if "(n, tk) \<in> set (cn_tasks c)" for n tk
    proof -
      have "(request_id (tk_request tk), n) \<in> set (cn_in_flight c)" using that by (force simp: flight)
      then show ?thesis using in_flight_handle [OF inv Some] by blast
    qed
    with Some show ?thesis
      by (auto simp: turn_def accept_inbound_def Let_def is_cancelled_def cancel_handle_def)
  qed
  fix close joins c' ln'
  assume fin: "finish ar limits close joins c ln = (c', ln')"
  let ?c = "fold (\<lambda>(rid, n). cancel_handle n) (cn_in_flight c) c"
  let ?ln = "if close = CloseShutdown then ln else close_handshake ar close (li_frame_timeout limits) ln"
  obtain c2 where drained: "drain ar limits (close = CloseShutdown) (instant_after ?ln (li_dispatch_grace limits)) joins ?c ?ln = (c2, ln')"
    and c': "c' = c2\<lparr>cn_tasks := [], cn_in_flight := [], cn_task_ids := []\<rparr>"
    using fin by (auto simp: finish_def Let_def split: prod.splits)
  have "cn_fired c2 = cn_fired ?c" using drain_fired [of ar limits _ _ joins ?c ?ln] drained by (metis fst_conv)
  then show "\<forall>(n, tk) \<in> set (cn_tasks c). n \<in> set (cn_fired c')" by (force simp: c' fold_cancel flight)
  show "cn_tasks c' = []" by (simp add: c')
  show "\<exists>sent left. fault_bytes ar close = sent @ left \<and> ln_out ln' = ln_out ln @ sent" if "close \<noteq> CloseShutdown"
  proof -
    from that drained have "ln_out ln' = ln_out (close_handshake ar close (li_frame_timeout limits) ln)"
      by (simp add: drain_quiet)
    with close_handshake_out [of ar close "li_frame_timeout limits" ln] show ?thesis by auto
  qed
qed

theorem cancellation_is_exact_witness:
  "\<exists>ln c'. turn sample_responder limits_default (Received (Ok (InboundCancel 8))) (sample_busy [(8, 1)] 2) ln = (c', ln, Ok ()) \<and>
     is_cancelled c' 1 \<and> \<not> is_cancelled (sample_busy [(8, 1)] 2) 1"
proof -
  obtain ln where reach: "conn_reach sample_responder limits_default sample_peer (sample_link []) sample_arms
     [failed_response 7 Failure.UnknownEffect] (sample_busy [(8, 1)] 2) ln" using sample_conn_reach by blast
  obtain c' where c': "turn sample_responder limits_default (Received (Ok (InboundCancel 8))) (sample_busy [(8, 1)] 2) ln = (c', ln, Ok ())"
    "\<forall>(n, tk) \<in> set (cn_tasks (sample_busy [(8, 1)] 2)).
       is_cancelled c' n \<longleftrightarrow> is_cancelled (sample_busy [(8, 1)] 2) n \<or> request_id (tk_request tk) = 8"
    using cancellation_is_exact [OF reach, of 8] by blast
  then have "is_cancelled c' 1" by (simp add: sample_busy_def sample_task_def sample_ping_def)
  moreover have "\<not> is_cancelled (sample_busy [(8, 1)] 2) 1" by (simp add: is_cancelled_def sample_busy_def)
  ultimately show ?thesis using c'(1) by blast
qed

end
