(* ===== verification/Clients.thy ===== *)
theory Clients
  imports Connections
begin

text \<open>
  The client once it is admitted (\<^verbatim>\<open>crates/xenos/src/client.rs\<close>) and the raw connection beneath it (\<^verbatim>\<open>raw.rs\<close>),
  with what the client guarantees by itself and what a call through client and server gives.
\<close>

section \<open>Definitions\<close>

subsection \<open>Raw connections\<close>

record RawConn =
  rc_link :: Link
  rc_timeout :: nat

definition raw_from_stream :: "Link \<Rightarrow> nat \<Rightarrow> RawConn" where
  "raw_from_stream ln timeout = \<lparr>rc_link = ln, rc_timeout = timeout\<rparr>"

definition raw_set_timeout :: "nat \<Rightarrow> RawConn \<Rightarrow> RawConn" where
  "raw_set_timeout timeout rc = rc\<lparr>rc_timeout := timeout\<rparr>"

definition raw_deadline :: "RawConn \<Rightarrow> nat" where
  "raw_deadline rc = instant_after (rc_link rc) (rc_timeout rc)"

definition raw_run :: "(nat \<Rightarrow> 'a call) \<Rightarrow> RawConn \<Rightarrow> RawConn \<times> ('a, XenosError) result" where
  "raw_run op rc = (case op (raw_deadline rc) (rc_link rc) of (ln', r) \<Rightarrow> (rc\<lparr>rc_link := ln'\<rparr>, r))"

definition raw_send_bytes :: "u8 list \<Rightarrow> RawConn \<Rightarrow> RawConn \<times> (unit, XenosError) result" where
  "raw_send_bytes bytes = raw_run (\<lambda>deadline. write_all deadline bytes)"

definition raw_send_frame :: "u8 list \<Rightarrow> u8 list \<Rightarrow> RawConn \<Rightarrow> RawConn \<times> (unit, XenosError) result" where
  "raw_send_frame header body = raw_send_bytes (header @ body)"

definition raw_send_message :: "'m Message \<Rightarrow> 'm \<Rightarrow> u32 \<Rightarrow> RawConn \<Rightarrow> RawConn \<times> (unit, XenosError) result" where
  "raw_send_message T m cap rc =
     (case frame_bytes T m cap of Err e \<Rightarrow> (rc, Err e) | Ok bytes \<Rightarrow> raw_send_bytes bytes rc)"

definition raw_read_frame :: "u32 \<Rightarrow> RawConn \<Rightarrow> RawConn \<times> (XFrame, XenosError) result" where
  "raw_read_frame cap = raw_run (client_read_frame cap)"

definition raw_read_message :: "Failure Message \<Rightarrow> 'm Message \<Rightarrow> u32 \<Rightarrow> RawConn \<Rightarrow> RawConn \<times> ('m, XenosError) result" where
  "raw_read_message faults T cap = raw_run (read_message_by faults T cap)"

definition expect_close :: "RawConn \<Rightarrow> RawConn \<times> (unit, XenosError) result" where
  "expect_close = raw_run await_close"

subsection \<open>The client\<close>

definition into_raw :: "Client \<Rightarrow> RawConn" where
  "into_raw c = raw_from_stream (cl_link c) (to_frame (cl_timeouts c))"

definition guarded :: "(u32 \<Rightarrow> nat \<Rightarrow> 'a call) \<Rightarrow> Client \<Rightarrow> Client \<times> ('a, XenosError) result" where
  "guarded op c =
     (if cl_broken c then (c, Err XBroken)
      else (let deadline = instant_after (cl_link c) (to_frame (cl_timeouts c)) in
        (case op (cl_max_frame c) deadline (cl_link c) of
           (ln', r) \<Rightarrow> (c\<lparr>cl_link := ln', cl_broken := (case r of Err _ \<Rightarrow> True | Ok _ \<Rightarrow> False)\<rparr>, r))))"

definition send_message :: "'m Message \<Rightarrow> 'm \<Rightarrow> Client \<Rightarrow> Client \<times> (unit, XenosError) result" where
  "send_message T m c =
     (if cl_broken c then (c, Err XBroken)
      else (case frame_bytes T m (cl_max_frame c) of
          Err e \<Rightarrow> (c, Err e)
        | Ok bytes \<Rightarrow> guarded (\<lambda>_ deadline. write_all deadline bytes) c))"

definition send_request :: "Archive \<Rightarrow> RequestMsg \<Rightarrow> Client \<Rightarrow> Client \<times> (unit, XenosError) result" where
  "send_request ar request = send_message (request_message ar) request"

definition send_cancel :: "Archive \<Rightarrow> u64 \<Rightarrow> Client \<Rightarrow> Client \<times> (unit, XenosError) result" where
  "send_cancel ar rid = send_message (cancel_message ar) rid"

definition recv_response :: "Archive \<Rightarrow> Client \<Rightarrow> Client \<times> (ResponseMsg, XenosError) result" where
  "recv_response ar = guarded (read_message_by (fault_message ar) (response_message ar))"

definition call_request :: "Archive \<Rightarrow> RequestMsg \<Rightarrow> Client \<Rightarrow> Client \<times> (ResponseMsg, XenosError) result" where
  "call_request ar request c =
     (case send_request ar request c of
        (c1, Err e) \<Rightarrow> (c1, Err e)
      | (c1, Ok _) \<Rightarrow>
          (case recv_response ar c1 of
             (c2, Err e) \<Rightarrow> (c2, Err e)
           | (c2, Ok response) \<Rightarrow>
               if resp_request_id response \<noteq> request_id request
               then (c2\<lparr>cl_broken := True\<rparr>, Err (XUnexpectedResponse (request_id request) (resp_request_id response)))
               else (c2, Ok response)))"

definition supported_versions :: "u16 \<times> u16" where
  "supported_versions = (WIRE_VERSION, WIRE_VERSION)"

section \<open>Lemmas\<close>

subsection \<open>Deadlines\<close>

text \<open>An operation keeps its deadline when it returns by then, and does not run at all once it passed.\<close>

definition timely :: "nat \<Rightarrow> 'a call \<Rightarrow> bool" where
  "timely deadline m \<longleftrightarrow> (\<forall>ln. ln_now ln \<le> deadline \<longrightarrow> ln_now (fst (m ln)) \<le> deadline \<and> ln_now ln \<le> ln_now (fst (m ln)) \<and>
     ln_last (fst (m ln)) = ln_last ln)"

lemma sys_read_timely:
  assumes "sys_read ln (Some deadline) n = (ln', r)" and "ln_now ln \<le> deadline"
  shows "ln_now ln' \<le> deadline \<and> ln_now ln \<le> ln_now ln' \<and> ln_last ln' = ln_last ln"
  using assms by (auto simp: sys_read_def Let_def max_def split: list.splits Incoming.splits if_splits prod.splits)

lemma sys_write_timely:
  assumes "sys_write ln deadline bytes = (ln', r)" and "ln_now ln \<le> deadline"
  shows "ln_now ln' \<le> deadline \<and> ln_now ln \<le> ln_now ln' \<and> ln_last ln' = ln_last ln"
  using assms by (auto simp: sys_write_def Let_def max_def split: list.splits Accept.splits if_splits)

lemma fill_timely:
  "ln_now ln \<le> deadline \<Longrightarrow> ln_now (fst (fill deadline received n ln)) \<le> deadline \<and>
     ln_now ln \<le> ln_now (fst (fill deadline received n ln)) \<and> ln_last (fst (fill deadline received n ln)) = ln_last ln"
proof (induction "length (ln_in ln)" arbitrary: ln received n rule: less_induct)
  case less
  obtain ln1 o1 where rd: "sys_read ln (Some deadline) n = (ln1, o1)" by force
  note t1 = sys_read_timely [OF rd less.prems]
  show ?case
  proof (cases "n = 0 \<or> deadline \<le> ln_now ln")
    case True
    then show ?thesis using less.prems by (subst (1 2 3) fill.simps) auto
  next
    case False
    show ?thesis
    proof (cases o1)
      case (Got bs)
      obtain ln2 r2 where rec: "fill deadline (received + length bs) (n - length bs) ln1 = (ln2, r2)" by force
      have "length (ln_in ln1) < length (ln_in ln)" using sys_read_less [of ln1 bs ln "Some deadline" n] rd Got False by simp
      from less.hyps [OF this, of "received + length bs" "n - length bs"] t1 rec
      have "ln_now ln2 \<le> deadline \<and> ln_now ln \<le> ln_now ln2 \<and> ln_last ln2 = ln_last ln" by auto
      moreover have "fst (fill deadline received n ln) = ln2"
        using False rd Got rec unfolding fill.simps [of deadline received n ln] by (simp split: sum.split)
      ultimately show ?thesis by simp
    next
      case WasInterrupted
      have "length (ln_in ln1) < length (ln_in ln)" using sys_read_interrupted [of ln1 ln "Some deadline" n] rd WasInterrupted by simp
      moreover have "fill deadline received n ln = fill deadline received n ln1"
        using False rd WasInterrupted unfolding fill.simps [of deadline received n ln] by simp
      ultimately show ?thesis using less.hyps [of ln1 received n] t1 by auto
    qed (use t1 False rd in \<open>simp_all add: fill.simps [of deadline received n ln]\<close>)
  qed
qed

lemma write_all_timely: "timely deadline (write_all deadline bytes)"
  unfolding timely_def
proof (intro allI impI)
  fix ln :: Link assume "ln_now ln \<le> deadline"
  then show "ln_now (fst (write_all deadline bytes ln)) \<le> deadline \<and> ln_now ln \<le> ln_now (fst (write_all deadline bytes ln)) \<and>
      ln_last (fst (write_all deadline bytes ln)) = ln_last ln"
  proof (induction deadline bytes ln rule: write_all.induct)
    case (1 deadline bytes ln)
    obtain ln1 o1 where wr: "sys_write ln deadline (take WRITE_SLICE bytes) = (ln1, o1)" by force
    note t1 = sys_write_timely [OF wr 1(3)]
    show ?case
    proof (cases "bytes = [] \<or> deadline \<le> ln_now ln")
      case True
      then show ?thesis using 1(3) by (subst (1 2 3) write_all.simps) auto
    next
      case False
      then have go: "bytes \<noteq> []" "\<not> deadline \<le> ln_now ln" by auto
      show ?thesis
      proof (cases o1)
        case (Wrote n)
        show ?thesis
        proof (cases "n = 0")
          case n: False
          have "write_all deadline bytes ln = write_all deadline (drop n bytes) ln1"
            using go wr Wrote n unfolding write_all.simps [of deadline bytes ln] by simp
          then show ?thesis using 1(1) [OF go wr [symmetric] Wrote n] t1 by auto
        qed (use t1 go wr Wrote in \<open>simp add: write_all.simps [of deadline bytes ln]\<close>)
      next
        case WasWriteInterrupted
        have "write_all deadline bytes ln = write_all deadline bytes ln1"
          using go wr WasWriteInterrupted unfolding write_all.simps [of deadline bytes ln] by simp
        then show ?thesis using 1(2) [OF go wr [symmetric] WasWriteInterrupted] t1 by auto
      qed (use t1 go wr in \<open>simp_all add: write_all.simps [of deadline bytes ln]\<close>)
    qed
  qed
qed

lemma client_read_frame_timely: "timely deadline (client_read_frame cap deadline)"
  unfolding timely_def
proof (intro allI impI)
  fix ln :: Link assume "ln_now ln \<le> deadline"
  obtain ln1 r1 where f1: "fill deadline 0 HEADER_LEN ln = (ln1, r1)" by force
  with fill_timely [OF \<open>ln_now ln \<le> deadline\<close>, of 0 HEADER_LEN]
  have t1: "ln_now ln1 \<le> deadline" "ln_now ln \<le> ln_now ln1" "ln_last ln1 = ln_last ln" by auto
  have parts: "fst (client_read_frame cap deadline ln) = ln1 \<or> (\<exists>n. fst (client_read_frame cap deadline ln) = fst (fill deadline 0 n ln1))"
    using f1 by (auto simp: client_read_frame_def split: sum.split Short.split prod.split) (metis fst_conv)+
  then show "ln_now (fst (client_read_frame cap deadline ln)) \<le> deadline \<and>
      ln_now ln \<le> ln_now (fst (client_read_frame cap deadline ln)) \<and> ln_last (fst (client_read_frame cap deadline ln)) = ln_last ln"
    using t1 fill_timely [OF t1(1), of 0] by (elim disjE exE) (simp, smt (verit) order_trans)
qed

lemma read_message_timely: "timely deadline (read_message_by faults T cap deadline)"
  using client_read_frame_timely [of deadline cap]
  by (auto simp: timely_def read_message_by_def cbind_def creturn_def split: prod.splits sum.splits)

subsection \<open>Guarded operations\<close>

text \<open>How an operation of the client may end: refused because the client is broken, refused before a byte was written,
  failed and broken, or done.\<close>

definition fails_closed :: "nat \<Rightarrow> XenosError set \<Rightarrow> (Client \<Rightarrow> Client \<times> ('a, XenosError) result) \<Rightarrow> Client \<Rightarrow> bool" where
  "fails_closed k refusals op c \<longleftrightarrow>
     (case op c of (c', r) \<Rightarrow>
        ln_now (cl_link c') \<le> ln_now (cl_link c) + k * to_frame (cl_timeouts c) \<and>
        (if cl_broken c then c' = c \<and> r = Err XBroken
         else (case r of Ok _ \<Rightarrow> \<not> cl_broken c' | Err e \<Rightarrow> cl_broken c' \<or> c' = c \<and> e \<in> refusals)))"

lemma guarded_result:
  assumes "\<And>deadline. timely deadline (op (cl_max_frame c) deadline)" and "guarded op c = (c', r)"
  shows "ln_now (cl_link c') \<le> ln_now (cl_link c) + to_frame (cl_timeouts c)" and "cl_timeouts c' = cl_timeouts c"
    and "cl_max_frame c' = cl_max_frame c"
    and "if cl_broken c then c' = c \<and> r = Err XBroken else (cl_broken c' \<longleftrightarrow> (\<exists>e. r = Err e))"
proof -
  let ?d = "instant_after (cl_link c) (to_frame (cl_timeouts c))"
  have d: "ln_now (cl_link c) \<le> ?d" "?d \<le> ln_now (cl_link c) + to_frame (cl_timeouts c)" by (simp_all add: instant_after_def)
  obtain ln' r' where run: "op (cl_max_frame c) ?d (cl_link c) = (ln', r')" by force
  have "ln_now ln' \<le> ?d" using assms(1) [of ?d] d(1) run by (auto simp: timely_def)
  with d(2) show "ln_now (cl_link c') \<le> ln_now (cl_link c) + to_frame (cl_timeouts c)"
    using assms(2) run by (auto simp: guarded_def Let_def split: if_splits)
  show "cl_timeouts c' = cl_timeouts c" "cl_max_frame c' = cl_max_frame c"
    "if cl_broken c then c' = c \<and> r = Err XBroken else (cl_broken c' \<longleftrightarrow> (\<exists>e. r = Err e))"
    using assms(2) run by (auto simp: guarded_def Let_def split: if_splits sum.splits)
qed

lemma guarded_closed:
  assumes "\<And>deadline. timely deadline (op (cl_max_frame c) deadline)"
  shows "fails_closed 1 refusals (guarded op) c"
proof -
  obtain c' r where run: "guarded op c = (c', r)" by force
  from guarded_result [of op c c' r, OF assms run] show ?thesis by (cases r) (auto simp: fails_closed_def run split: if_splits)
qed

lemma send_message_closed:
  "fails_closed 1 {e. frame_bytes T m (cl_max_frame c) = Err e} (send_message T m) c"
proof (cases "cl_broken c")
  case True
  then show ?thesis by (simp add: fails_closed_def send_message_def)
next
  case ok: False
  show ?thesis
  proof (cases "frame_bytes T m (cl_max_frame c)")
    case (Inl e)
    with ok show ?thesis by (simp add: fails_closed_def send_message_def)
  next
    case (Inr bytes)
    have "fails_closed 1 {e. frame_bytes T m (cl_max_frame c) = Err e} (guarded (\<lambda>_ deadline. write_all deadline bytes)) c"
      by (rule guarded_closed) (rule write_all_timely)
    with ok Inr show ?thesis by (simp add: fails_closed_def send_message_def)
  qed
qed

lemma recv_response_closed: "fails_closed 1 {} (recv_response ar) c"
  unfolding recv_response_def by (rule guarded_closed) (rule read_message_timely)

lemma send_message_timeouts: "send_message T m c = (c', r) \<Longrightarrow> cl_timeouts c' = cl_timeouts c"
  by (auto simp: send_message_def guarded_def Let_def split: if_splits sum.splits prod.splits)

lemma call_request_closed:
  "fails_closed 2 {e. frame_bytes (request_message ar) request (cl_max_frame c) = Err e} (call_request ar request) c"
proof -
  obtain c1 r1 where sent: "send_request ar request c = (c1, r1)" by force
  obtain c2 r2 where recv: "recv_response ar c1 = (c2, r2)" by force
  have t: "cl_timeouts c1 = cl_timeouts c" using send_message_timeouts sent by (auto simp: send_request_def)
  show ?thesis
    using send_message_closed [of "request_message ar" request c] recv_response_closed [of ar c1] sent recv t
    by (auto simp: fails_closed_def call_request_def send_request_def split: sum.splits if_splits)
qed

subsection \<open>A request and its response\<close>

lemma read_inbound_request:
  assumes s: "faithful (ar_request ar)" and enc: "encode_frame (request_message ar) request cap = Ok frame"
    and inp: "ln_in ln = arriving ts frame @ rest" "length ts = length frame"
    and time: "ln_now ln \<le> limit" "\<forall>t \<in> set ts. t \<le> limit" "limit \<le> ln_now ln + frame_timeout"
      "limit + frame_timeout \<le> ln_last ln"
  shows "\<exists>at. read_inbound ar cap frame_timeout ln = (ln\<lparr>ln_now := at, ln_in := rest\<rparr>, Some (Ok (InboundRequest request)))"
proof -
  have "\<And>body. to_bytes (request_message ar) request = Some body \<Longrightarrow> from_bytes (request_message ar) body = Some request"
    using faithful_message [OF s] by (simp add: request_message_def)
  from read_encoded [OF this enc inp time(1-3) _ time(4), of None]
  obtain at fr where r: "read_frame None cap frame_timeout ln = (ln\<lparr>ln_now := at, ln_in := rest\<rparr>, Some (Ok fr))"
    "h_kind (fr_header fr) = msg_kind (request_message ar)"
    "decode_frame (request_message ar) (fr_header fr) (fr_body fr) cap = Ok request" by auto
  then have "read_inbound ar cap frame_timeout ln = (ln\<lparr>ln_now := at, ln_in := rest\<rparr>, Some (Ok (InboundRequest request)))"
    by (simp add: read_inbound_def lbind_def lmap_err_def lreturn_def map_err_def) (simp add: request_message_def message_def)
  then show ?thesis by blast
qed

lemma call_request_answered:
  assumes s: "faithful (ar_response ar)" and sent: "encode_frame (request_message ar) request (cl_max_frame c) = Ok f1"
    and answered: "encode_frame (response_message ar) resp (cl_max_frame c) = Ok f2" "resp_request_id resp = request_id request"
    and ok: "\<not> cl_broken c" "ln_writes (cl_link c) = []"
    and inp: "ln_in (cl_link c) = arriving ts f2 @ rest" "length ts = length f2"
    and time: "0 < to_frame (cl_timeouts c)" "ln_now (cl_link c) + to_frame (cl_timeouts c) \<le> ln_last (cl_link c)"
      "\<forall>t \<in> set ts. t < ln_now (cl_link c) + to_frame (cl_timeouts c)"
  shows "\<exists>at. call_request ar request c =
    (c\<lparr>cl_link := (cl_link c)\<lparr>ln_now := at, ln_in := rest, ln_out := ln_out (cl_link c) @ f1\<rparr>\<rparr>, Ok resp)"
proof -
  let ?ln = "cl_link c" and ?t = "to_frame (cl_timeouts c)"
  let ?ln1 = "?ln\<lparr>ln_out := ln_out ?ln @ f1\<rparr>"
  have d: "instant_after ?ln ?t = ln_now ?ln + ?t" "instant_after ?ln1 ?t = ln_now ?ln + ?t"
    using time(2) by (simp_all add: instant_after_def)
  have bytes: "frame_bytes (request_message ar) request (cl_max_frame c) = Ok f1" using sent by (simp add: frame_bytes_Ok_iff)
  have "send_request ar request c = (c\<lparr>cl_link := ?ln1\<rparr>, Ok ())"
    using ok bytes write_all_free [OF ok(2), of "ln_now ?ln + ?t" f1] time(1) d(1)
    by (simp add: send_request_def send_message_def guarded_def Let_def)
  moreover obtain at where "read_message_by (fault_message ar) (response_message ar) (cl_max_frame c) (ln_now ?ln + ?t) ?ln1 =
      (?ln1\<lparr>ln_now := at, ln_in := rest\<rparr>, Ok resp)"
    using read_message_encoded [of "ar_response ar" Response response_check resp "cl_max_frame c" f2 ?ln1 ts rest "ln_now ?ln + ?t"
        "fault_message ar"] s answered(1) inp time by (auto simp: response_message_def)
  ultimately show ?thesis
    using ok d answered(2)
    by (intro exI [of _ at]) (simp add: call_request_def recv_response_def guarded_def Let_def)
qed

section \<open>Properties\<close>

text \<open>C15. The client fails closed: an operation that failed once it started leaves the client broken, a broken client
  refuses every operation and touches nothing, a message refused before a byte was written changes
  nothing and leaves the client usable, and every operation returns within its frame timeout (a call
  within two), however slowly the server sends or takes bytes.\<close>

theorem client_fails_closed:
  "fails_closed 1 {e. frame_bytes (request_message ar) request (cl_max_frame c) = Err e} (send_request ar request) c \<and>
   fails_closed 1 {e. frame_bytes (cancel_message ar) rid (cl_max_frame c) = Err e} (send_cancel ar rid) c \<and>
   fails_closed 1 {} (recv_response ar) c \<and>
   fails_closed 2 {e. frame_bytes (request_message ar) request (cl_max_frame c) = Err e} (call_request ar request) c"
  unfolding send_request_def send_cancel_def
  by (intro conjI send_message_closed recv_response_closed call_request_closed)

text \<open>C14. A call comes back: the frame of a client's request, read by the server's connection, starts a task; the
  dispatcher's answer, given by the backstop, is sent under the request's id and leaves the
  connection as busy as it was; and the client that receives that frame in time returns the answer
  from its call and stays usable.  The serializer inverts requests and responses, and both fit the
  frame bound.\<close>

theorem call_roundtrip:
  assumes codec: "faithful (ar_request ar)" "faithful (ar_response ar)"
    and reach: "conn_reach ar limits conn ln0 arms resps c ln" "ln_writes ln = []"
    and room: "request_id request \<notin> fst ` set (cn_in_flight c)" "length (cn_in_flight c) < li_max_in_flight limits"
    and f1: "encode_frame (request_message ar) request (conn_max_frame conn) = Ok f1"
    and f2: "encode_frame (response_message ar) (tag answer (request_id request)) (conn_max_frame conn) = Ok f2"
    and server: "ln_in reader = arriving ts f1 @ rest" "length ts = length f1" "ln_now reader \<le> limit" "\<forall>t \<in> set ts. t \<le> limit"
      "limit \<le> ln_now reader + li_frame_timeout limits" "limit + li_frame_timeout limits \<le> ln_last reader"
    and client: "\<not> cl_broken client" "cl_max_frame client = conn_max_frame conn" "ln_writes (cl_link client) = []"
      "ln_in (cl_link client) = arriving ts' f2 @ rest'" "length ts' = length f2" "0 < to_frame (cl_timeouts client)"
      "ln_now (cl_link client) + to_frame (cl_timeouts client) \<le> ln_last (cl_link client)"
      "\<forall>t \<in> set ts'. t < ln_now (cl_link client) + to_frame (cl_timeouts client)"
  shows "\<exists>at c1 tk. read_inbound ar (conn_max_frame conn) (li_frame_timeout limits) reader =
      (reader\<lparr>ln_now := at, ln_in := rest\<rparr>, Some (Ok (InboundRequest request))) \<and>
    turn ar limits (Received (Ok (InboundRequest request))) c ln = (c1, ln, Ok ()) \<and>
    map_of (cn_tasks c1) (cn_next c) = Some tk \<and> tk_request tk = request \<and> tk_conn tk = conn \<and>
    (\<forall>t \<le> tk_backstop tk. \<exists>c2. turn ar limits (JoinedTask (Returned (cn_next c) (task_response tk (Some (t, answer))))) c1 ln =
       (c2, ln\<lparr>ln_out := ln_out ln @ f2\<rparr>, Ok ()) \<and> cn_in_flight c2 = cn_in_flight c) \<and>
    (\<exists>at'. call_request ar request client =
       (client\<lparr>cl_link := (cl_link client)\<lparr>ln_now := at', ln_in := rest', ln_out := ln_out (cl_link client) @ f1\<rparr>\<rparr>,
        Ok (tag answer (request_id request))))"
proof -
  have inv: "conn_inv limits conn c" using conn_reach_inv [OF reach(1)] by simp
  let ?c = "c\<lparr>cn_last_activity := ln_now ln\<rparr>"
  obtain c1 where ok: "start limits ln request ?c = Ok c1"
    using room by (auto simp: start_def Let_def map_of_eq_None_iff)
  have inv': "conn_inv limits conn ?c" using inv by (simp add: conn_inv_other)
  note started = start_inv [OF inv' ok]
  obtain tk where tk: "cn_tasks c1 = (cn_next c, tk) # cn_tasks c" "tk_request tk = request" "tk_conn tk = conn"
    using started(3) by auto
  have turn1: "turn ar limits (Received (Ok (InboundRequest request))) c ln = (c1, ln, Ok ())"
    using ok by (simp add: turn_def accept_inbound_def Let_def)
  have done_turn: "\<exists>c2. turn ar limits (JoinedTask (Returned (cn_next c) (task_response tk (Some (t, answer))))) c1 ln =
       (c2, ln\<lparr>ln_out := ln_out ln @ f2\<rparr>, Ok ()) \<and> cn_in_flight c2 = cn_in_flight c" if "t \<le> tk_backstop tk" for t
  proof -
    let ?joined = "Returned (cn_next c) (tag answer (request_id request))"
    have resp: "task_response tk (Some (t, answer)) = tag answer (request_id request)"
      using that tk(2) by (simp add: task_response_def Let_def)
    obtain c2 r where ret: "retire_task ?joined c1 = (c2, r)" by force
    have here: "map_of (cn_tasks c1) (joined_task ?joined) = Some tk" by (simp add: tk(1))
    note retired = retire_inv [OF started(1) here ret]
    have "cn_tasks c2 = cn_tasks c" using retired(4) tk(1) by simp
    then have flight: "cn_in_flight c2 = cn_in_flight c" using retired(1) inv by (simp add: conn_inv_def)
    have "cn_identity c2 = conn" using retired(1) by (simp add: conn_inv_def)
    then show ?thesis
      using retired(2) ret f2 write_frame_free [OF reach(2), of None f2 "li_frame_timeout limits"] flight
      by (simp add: turn_def resp complete_def)
  qed
  have "resp_request_id (tag answer (request_id request)) = request_id request" by (simp add: tag_def)
  with call_request_answered [OF codec(2), of request client f1 "tag answer (request_id request)" f2 ts' rest'] f1 f2 client
  have returned: "\<exists>at'. call_request ar request client =
      (client\<lparr>cl_link := (cl_link client)\<lparr>ln_now := at', ln_in := rest', ln_out := ln_out (cl_link client) @ f1\<rparr>\<rparr>,
       Ok (tag answer (request_id request)))" by simp
  obtain at where "read_inbound ar (conn_max_frame conn) (li_frame_timeout limits) reader =
      (reader\<lparr>ln_now := at, ln_in := rest\<rparr>, Some (Ok (InboundRequest request)))"
    using read_inbound_request [OF codec(1) f1 server] by blast
  with turn1 tk done_turn returned show ?thesis by (intro exI [of _ at] exI [of _ c1] exI [of _ tk]) simp
qed

definition sample_caller :: Archive where
  "sample_caller = sample_archive
     \<lparr>ar_request := ((\<lambda>m. if m = sample_ping 9 then Some [1] else None), (\<lambda>_. Some (sample_ping 9))),
      ar_response := ((\<lambda>m. if m = failed_response 9 Failure.NotFoundOrDenied then Some [2] else None),
        (\<lambda>_. Some (failed_response 9 Failure.NotFoundOrDenied)))\<rparr>"

definition sample_client :: "(nat \<times> Incoming) list \<Rightarrow> Client" where
  "sample_client input = \<lparr>cl_link = sample_link input, cl_version = 1, cl_max_frame = 1048576, cl_timeouts = timeouts_default,
     cl_broken = False\<rparr>"

theorem call_roundtrip_witness:
  "\<exists>f1 f2. length f1 = 13 \<and> (\<exists>at'. call_request sample_caller (sample_ping 9) (sample_client (arriving (replicate 13 200) f2)) =
     (sample_client []\<lparr>cl_link := (sample_link [])\<lparr>ln_now := at', ln_out := f1\<rparr>\<rparr>,
      Ok (failed_response 9 Failure.NotFoundOrDenied)))"
proof -
  let ?f1 = "header_encode (header_new Request 1) @ [1]" and ?f2 = "header_encode (header_new Response 1) @ [2]"
  have f1: "encode_frame (request_message sample_caller) (sample_ping 9) 1048576 = Ok ?f1"
    by (simp add: encode_frame_Ok_iff request_message_def message_def sample_caller_def request_check_def sample_ping_def
        clamp_cap_def HARD_MAX_BODY_def ensure_def)
  have tagged: "tag (failed_response 8 Failure.NotFoundOrDenied) (request_id (sample_ping 9)) = failed_response 9 Failure.NotFoundOrDenied"
    by (simp add: tag_def failed_response_def sample_ping_def)
  have f2: "encode_frame (response_message sample_caller) (failed_response 9 Failure.NotFoundOrDenied) 1048576 = Ok ?f2"
    by (simp add: encode_frame_Ok_iff response_message_def message_def sample_caller_def response_check_def failed_response_def
        clamp_cap_def HARD_MAX_BODY_def ensure_def)
  have len: "length ?f1 = 13" "length ?f2 = 13" by (simp_all add: header_encode_def MAGIC_def)
  have codec: "faithful (ar_request sample_caller)" "faithful (ar_response sample_caller)"
    by (simp_all add: faithful_def sample_caller_def)
  have reach: "conn_reach sample_caller limits_default sample_peer (sample_link []) [] [] (admitted_new sample_peer 100) (sample_link [])"
    using conn_opened [of sample_caller limits_default sample_peer "sample_link []"] by (simp add: sample_link_def)
  have "\<exists>at'. call_request sample_caller (sample_ping 9) (sample_client (arriving (replicate 13 200) ?f2)) =
     (sample_client []\<lparr>cl_link := (sample_link [])\<lparr>ln_now := at', ln_out := ?f1\<rparr>\<rparr>, Ok (failed_response 9 Failure.NotFoundOrDenied))"
    using call_roundtrip [OF codec reach, where request = "sample_ping 9" and answer = "failed_response 8 Failure.NotFoundOrDenied" and
        reader = "sample_link (arriving (replicate 13 200) ?f1)" and ts = "replicate 13 200" and rest = "[]" and limit = 200 and
        client = "sample_client (arriving (replicate 13 200) ?f2)" and ts' = "replicate 13 200" and rest' = "[]", of ?f1 ?f2]
      f1 f2 len
    by (simp add: tagged sample_peer_def sample_client_def sample_link_def admitted_new_def limits_default_def millis_def
        timeouts_default_def HANDSHAKE_TIMEOUT_MS_def HEADER_LEN_def) blast
  with len(1) show ?thesis by blast
qed

end
