(* ===== verification/Outcomes.thy ===== *)
theory Outcomes
  imports Permanence AuditLog
begin

text \<open>
  What each outcome of an intent writes, keyspace by keyspace: the effect of \<open>begin_invocation\<close> stated as the
  database it leaves, for an intent that is persisted, replayed, in conflict or refused.
\<close>

section \<open>The rows an intent writes\<close>

text \<open>The idempotency slot of an intent, and the entry it is bound to.\<close>

definition intent_slot :: "Intent \<Rightarrow> TenantId \<times> Capability \<times> IdempotencyKey" where
  "intent_slot intent =
     (az_tenant (int_authz intent), az_capability (int_authz intent), int_idempotency_key intent)"

text \<open>A persisted intent: the invocation is new, its slot is bound to it under the tenant's active key, the planned
  ledgers are debited by the declared cost, and no other row changes.\<close>

definition intent_written :: "Env \<Rightarrow> Intent \<Rightarrow> Keyring \<Rightarrow> GrantId list \<Rightarrow> ReservationPlan \<Rightarrow> Db \<Rightarrow> Db \<Rightarrow> bool" where
  "intent_written env intent keys chain plan db db' \<longleftrightarrow>
     (\<exists>ledgers. db' = db\<lparr>
        db_invocations := (db_invocations db)(int_invocation intent \<mapsto> intent_record env intent chain plan),
        db_idem := (db_idem db)(intent_slot intent \<mapsto> \<lparr>sealed_key = kr_active keys, sealed_value =
          \<lparr>idem_invocation = int_invocation intent, idem_request_binding = request_binding env intent\<rparr>\<rparr>),
        db_ledgers := ledgers\<rparr> \<and>
      (\<forall>l. l \<notin> set (rp_ledgers plan) \<longrightarrow> ledgers l = db_ledgers db l)) \<and>
     (\<forall>l \<in> set (rp_ledgers plan). \<forall>d.
        amount_nat (ledger_used db' l) d = amount_nat (ledger_used db l) d + amount_nat (rp_cost plan) d)"

text \<open>A refused intent: one audit entry, with the next sequence number, in the global log and in the partition of the
  caller's tenant, and no other row.\<close>

definition refusal_written :: "Env \<Rightarrow> Intent \<Rightarrow> Keyring \<Rightarrow> Failure \<Rightarrow> u64 \<Rightarrow> Db \<Rightarrow> Db \<Rightarrow> bool" where
  "refusal_written env intent keys failure k db db' \<longleftrightarrow>
     (let authz = int_authz intent; tenant = az_tenant authz in
      unat k = last_seq db + 1 \<and>
      db' = db\<lparr>
        db_audit_stub := db_audit_stub db @ [(k,
          \<lparr>stub_seq = AuditSeq k, stub_invocation = int_invocation intent, stub_capability = az_capability authz,
           stub_outcome = failure_kind failure, stub_time = env_now env\<rparr>)],
        db_audit := (db_audit db)(tenant := db_audit db tenant @ [(k,
          \<lparr>sealed_key = kr_active keys, sealed_value =
            \<lparr>aer_seq = AuditSeq k, aer_time = env_now env, aer_tenant = tenant, aer_session = az_session authz,
             aer_invocation = int_invocation intent, aer_capability = az_capability authz,
             aer_state = InvocationState.Denied, aer_outcome = failure_kind failure, aer_release_reason = None,
             aer_grant = Some (az_grant authz), aer_audit_scope = None\<rparr>\<rparr>)])\<rparr>)"

section \<open>Lemmas\<close>

lemma append_audit_exact:
  assumes inv: "audit_inv db" and "append_audit env db entry = Ok (seq, tx)"
  obtains k keys where "unat k = last_seq db + 1" and "seq = AuditSeq k" and "tenant_keys db (ae_tenant entry) = Ok keys"
    and "tx = db\<lparr>
        db_audit_stub := db_audit_stub db @ [(k,
          \<lparr>stub_seq = AuditSeq k, stub_invocation = ae_invocation entry, stub_capability = ae_capability entry,
           stub_outcome = ae_outcome entry, stub_time = env_now env\<rparr>)],
        db_audit := (db_audit db)(ae_tenant entry := db_audit db (ae_tenant entry) @ [(k,
          \<lparr>sealed_key = kr_active keys, sealed_value =
            \<lparr>aer_seq = AuditSeq k, aer_time = env_now env, aer_tenant = ae_tenant entry, aer_session = ae_session entry,
             aer_invocation = ae_invocation entry, aer_capability = ae_capability entry,
             aer_state = ae_state entry, aer_outcome = ae_outcome entry, aer_release_reason = ae_release_reason entry,
             aer_grant = ae_grant entry, aer_audit_scope = ae_audit_scope entry\<rparr>\<rparr>)])\<rparr>"
proof -
  from assms(2) obtain k where k: "next_audit_seq db = Ok k"
    unfolding append_audit_def by (auto simp: rbind_Ok_iff)
  then have next_k: "unat k = last_seq db + 1" by (simp add: next_audit_seq_iff [OF inv])
  have "k' < k" if "k' \<in> fst ` set (db_audit_stub db)" for k'
    using that next_k by (simp add: stub_key_iff [OF inv] word_less_nat_alt)
  with partition_key [OF inv] have ins: "kv_insert k v (db_audit_stub db) = db_audit_stub db @ [(k, v)]"
    "kv_insert k w (db_audit db t) = db_audit db t @ [(k, w)]" for v w t
    by (blast intro: kv_insert_append)+
  have keys: "tenant_keys (db\<lparr>db_audit_stub := stubs\<rparr>) t = tenant_keys db t" for stubs t
    by (rule tenant_keys_cong) simp_all
  from assms(2) k show ?thesis
    unfolding append_audit_def Let_def by (auto simp: rbind_Ok_iff ins keys intro!: that [OF next_k])
qed

lemma refuse_writes:
  assumes "audit_inv db" and "refuse env db intent failure = Ok (Commit b v tx)"
  shows "b = None \<and> (\<exists>k keys. v = Refused failure (AuditSeq k) \<and>
    tenant_keys db (az_tenant (int_authz intent)) = Ok keys \<and> refusal_written env intent keys failure k db tx)"
proof -
  define entry where "entry = (audit_entry_new (az_tenant (int_authz intent)) (int_invocation intent)
           (az_capability (int_authz intent)) InvocationState.Denied (failure_kind failure))
           \<lparr>ae_session := az_session (int_authz intent), ae_grant := Some (az_grant (int_authz intent))\<rparr>"
  from assms(2) obtain seq where r: "append_audit env db entry = Ok (seq, tx)" "v = Refused failure seq" "b = None"
    by (auto simp: refuse_def entry_def Let_def rbind_Ok_iff)
  from append_audit_exact [OF assms(1) r(1)] obtain k keys where
    out: "unat k = last_seq db + 1" "seq = AuditSeq k" "tenant_keys db (ae_tenant entry) = Ok keys"
    and tx: "tx = db\<lparr>
        db_audit_stub := db_audit_stub db @ [(k,
          \<lparr>stub_seq = AuditSeq k, stub_invocation = ae_invocation entry, stub_capability = ae_capability entry,
           stub_outcome = ae_outcome entry, stub_time = env_now env\<rparr>)],
        db_audit := (db_audit db)(ae_tenant entry := db_audit db (ae_tenant entry) @ [(k,
          \<lparr>sealed_key = kr_active keys, sealed_value =
            \<lparr>aer_seq = AuditSeq k, aer_time = env_now env, aer_tenant = ae_tenant entry, aer_session = ae_session entry,
             aer_invocation = ae_invocation entry, aer_capability = ae_capability entry,
             aer_state = ae_state entry, aer_outcome = ae_outcome entry, aer_release_reason = ae_release_reason entry,
             aer_grant = ae_grant entry, aer_audit_scope = ae_audit_scope entry\<rparr>\<rparr>)])\<rparr>" by blast
  have "refusal_written env intent keys failure k db tx"
    unfolding refusal_written_def Let_def tx using out(1) by (simp add: entry_def audit_entry_new_def)
  moreover have "tenant_keys db (az_tenant (int_authz intent)) = Ok keys"
    using out(3) by (simp add: entry_def audit_entry_new_def)
  ultimately show ?thesis using r(2,3) out(2) by blast
qed

lemma debit_ledgers_others:
  "debit_ledgers db ds = Ok db' \<Longrightarrow> l \<notin> fst ` set ds \<Longrightarrow> db_ledgers db' l = db_ledgers db l"
  by (induction db ds rule: debit_ledgers.induct) (auto simp: rbind_Ok_iff put_ledger_def)

lemma persist_writes:
  assumes "persist env db intent keys chain plan = Ok (Commit b v tx)" and "distinct (rp_ledgers plan)"
  shows "b = Some Boundary.PersistIntent \<and> v = Persisted (status_of (intent_record env intent chain plan)) \<and>
    intent_written env intent keys chain plan db tx"
proof -
  from assms(1) have b: "b = Some Boundary.PersistIntent" by (auto simp: persist_def Let_def rbind_Ok_iff)
  from assms(1) obtain m idem where m: "debit_ledgers db (debits plan) = Ok (db\<lparr>db_ledgers := m\<rparr>)"
    and tx: "tx = (put_invocation (db\<lparr>db_ledgers := m\<rparr>) (intent_record env intent chain plan))\<lparr>db_idem := idem\<rparr>"
    and v: "v = Persisted (status_of (intent_record env intent chain plan))"
    and idem: "idem = (db_idem db)((az_tenant (int_authz intent), az_capability (int_authz intent),
        int_idempotency_key intent) := Some \<lparr>sealed_key = kr_active keys, sealed_value =
          \<lparr>idem_invocation = int_invocation intent, idem_request_binding = request_binding env intent\<rparr>\<rparr>)"
    by (rule persist_Commit)
  have "m l = db_ledgers db l" if "l \<notin> set (rp_ledgers plan)" for l
    using debit_ledgers_others [OF m, of l] that by (simp add: debits_def image_image)
  moreover have "amount_nat (ledger_used tx l) d = amount_nat (ledger_used db l) d + amount_nat (rp_cost plan) d"
    if "l \<in> set (rp_ledgers plan)" for l d
    using debit_ledgers_amounts [OF m [unfolded debits_def] assms(2), of l d] that
    by (simp add: tx put_invocation_def ledger_used_def)
  moreover have "tx = db\<lparr>
        db_invocations := (db_invocations db)(int_invocation intent \<mapsto> intent_record env intent chain plan),
        db_idem := idem, db_ledgers := m\<rparr>"
    by (simp add: tx put_invocation_def intent_record_def)
  ultimately show ?thesis
    unfolding intent_written_def using b v by (auto simp: idem intent_slot_def intro!: exI [of _ m])
qed

text \<open>What the transaction of an intent ends in, given the keyring of its tenant.\<close>

lemma begin_tx_outcomes:
  assumes "audit_inv db" and "begin_tx env intent db = Ok tx_end"
  obtains (bound) sealed reply where "db_idem db (intent_slot intent) = Some sealed"
      "replay env db intent (sealed_value sealed) = Ok reply" "tx_end = Abandon reply"
    | (persisted) keys chain plan tx where "db_idem db (intent_slot intent) = None"
      "db_invocations db (int_invocation intent) = None" "tenant_keys db (az_tenant (int_authz intent)) = Ok keys"
      "authorize (store_view db) (int_authz intent) (env_now env) = Ok (Allowed chain plan)"
      "\<not> session_owner_shredded db (az_session (int_authz intent))" "intent_written env intent keys chain plan db tx"
      "tx_end = Commit (Some Boundary.PersistIntent) (Persisted (status_of (intent_record env intent chain plan))) tx"
    | (refused) keys decision failure k tx where "db_idem db (intent_slot intent) = None"
      "db_invocations db (int_invocation intent) = None" "tenant_keys db (az_tenant (int_authz intent)) = Ok keys"
      "authorize (store_view db) (int_authz intent) (env_now env) = Ok decision"
      "(case decision_refusal decision of Some f \<Rightarrow> failure = f
        | None \<Rightarrow> session_owner_shredded db (az_session (int_authz intent)) \<and> failure = Failure.NotFoundOrDenied)"
      "refusal_written env intent keys failure k db tx" "tx_end = Commit None (Refused failure (AuditSeq k)) tx"
proof (cases "db_idem db (intent_slot intent)")
  case (Some sealed)
  with assms(2) obtain reply where "replay env db intent (sealed_value sealed) = Ok reply" "tx_end = Abandon reply"
    by (auto simp: begin_tx_def intent_slot_def Let_def rbind_Ok_iff open_sealed_def split: if_splits)
  with Some show ?thesis by (rule bound)
next
  case None
  with assms(2) obtain keys decision where new: "tenant_keys db (az_tenant (int_authz intent)) = Ok keys"
    "db_invocations db (int_invocation intent) = None"
    "authorize (store_view db) (int_authz intent) (env_now env) = Ok decision"
    and rest: "(case decision of
                Allowed chain reservation \<Rightarrow>
                  if session_owner_shredded db (az_session (int_authz intent))
                  then refuse env db intent Failure.NotFoundOrDenied
                  else persist env db intent keys chain reservation
              | _ \<Rightarrow> refuse env db intent
                  (case decision_refusal decision of
                     Some failure \<Rightarrow> failure | None \<Rightarrow> Failure.NotFoundOrDenied)) = Ok tx_end"
    by (auto simp: begin_tx_def intent_slot_def Let_def result_iffs)
  have ends: "\<exists>b v tx. tx_end = Commit b v tx"
    using rest by (auto simp: refuse_def persist_def Let_def rbind_Ok_iff split: Decision.splits if_splits)
  then obtain b v tx where tx: "tx_end = Commit b v tx" by blast
  have refuse: ?thesis if r: "refuse env db intent failure = Ok tx_end"
    and why: "case decision_refusal decision of Some f \<Rightarrow> failure = f
        | None \<Rightarrow> session_owner_shredded db (az_session (int_authz intent)) \<and> failure = Failure.NotFoundOrDenied" for failure
  proof -
    from refuse_writes [OF assms(1) r [unfolded tx]] new(1) obtain k where "b = None" "v = Refused failure (AuditSeq k)"
      "refusal_written env intent keys failure k db tx" by auto
    with tx show ?thesis by (intro refused [OF None new(2,1,3) why]) simp_all
  qed
  show ?thesis
  proof (cases decision)
    case (Allowed chain plan)
    show ?thesis
    proof (cases "session_owner_shredded db (az_session (int_authz intent))")
      case False
      with rest Allowed tx persist_writes [OF _ authorize_distinct_ledgers [OF new(3) [unfolded Allowed]]]
      show ?thesis using new None by (intro persisted) auto
    qed (use rest Allowed in \<open>auto intro: refuse\<close>)
  qed (use rest in \<open>auto intro: refuse\<close>)
qed

end
