(* ===== verification/Maintenance.thy ===== *)
theory Maintenance
  imports Vault
begin

text \<open>
  The files around the store: the root key file (\<^verbatim>\<open>crates/phylake/src/keyfile.rs\<close>), compaction by rewrite
  (\<^verbatim>\<open>store/compact.rs\<close>) and the check of a restored copy (\<^verbatim>\<open>store/backup.rs\<close>).

  The outcome of every system call is an argument, so an operation is shown for every way the calls
  can fail.  A directory is what its database holds and, apart from that, every value its files ever
  held: fjall keeps deleted values in its journal.
\<close>

section \<open>The root key file\<close>















section \<open>Directories\<close>

type_synonym path = "string list"

definition file_name :: "path \<Rightarrow> string option" where
  "file_name p = (if p = [] \<or> last p = ''..'' then None else Some (last p))"

definition with_file_name :: "path \<Rightarrow> string \<Rightarrow> path" where
  "with_file_name p name = butlast p @ [name]"

record Dir =
  dir_live :: "Phys option"
  dir_held :: "(Keyspace \<times> u8 list \<times> u8 list) set"

type_synonym Disk = "path \<Rightarrow> Dir option"

definition empty_dir :: Dir where "empty_dir = \<lparr>dir_live = None, dir_held = {}\<rparr>"

text \<open>The calls of a compaction, and what a call that fails half way leaves of a directory it was removing.\<close>

datatype SysCall =
    RemoveTree bool | SyncParent nat | ReadDir | CreateDir | OpenDatabase bool | CommitBatch Keyspace nat | PersistCopy
  | OpenLock path | TryLock path nat | ExchangeDirs

datatype SysResult = CallDone | CallFailed | CallBusy

record SysCalls =
  ca_result :: "SysCall \<Rightarrow> SysResult"
  ca_unsupported :: bool
  ca_remains :: Dir

type_synonym 'a fsop = "Disk \<Rightarrow> Disk \<times> ('a, StoreError) result"

definition fbind :: "'a fsop \<Rightarrow> ('a \<Rightarrow> 'b fsop) \<Rightarrow> 'b fsop" where
  "fbind m k disk = (case m disk of (disk', Err e) \<Rightarrow> (disk', Err e) | (disk', Ok x) \<Rightarrow> k x disk')"

definition flift :: "('a, StoreError) result \<Rightarrow> 'a fsop" where
  "flift r disk = (disk, r)"

definition fcall :: "SysCalls \<Rightarrow> SysCall \<Rightarrow> StoreError \<Rightarrow> unit fsop" where
  "fcall calls c e = flift (ensure (ca_result calls c = CallDone) e (Ok ()))"

section \<open>Compaction\<close>

definition COPY_BATCH :: nat where "COPY_BATCH = 1024"
definition LOCK_ATTEMPTS :: nat where "LOCK_ATTEMPTS = 3"

definition staging_path :: "path \<Rightarrow> (path, StoreError) result" where
  "staging_path p = rbind (ok_or (file_name p) StorePathUnnamed) (\<lambda>name. Ok (with_file_name p (name @ ''.compact'')))"

text \<open>The flag tells the removal before the copy from the one after the exchange; the number tells the flushes of the parent
  directory apart.\<close>

definition remove_leftover :: "SysCalls \<Rightarrow> bool \<Rightarrow> path \<Rightarrow> unit fsop" where
  "remove_leftover calls after_swap p =
     fbind (flift (staging_path p)) (\<lambda>staging disk.
       (case disk staging of
          None \<Rightarrow> (disk, Ok ())
        | Some _ \<Rightarrow>
            if ca_result calls (RemoveTree after_swap) = CallDone
            then fcall calls (SyncParent (if after_swap then 2 else 0)) StoreIo (disk(staging := None))
            else (disk(staging \<mapsto> ca_remains calls), Err StoreIo)))"

definition prepare_empty_dir :: "SysCalls \<Rightarrow> path \<Rightarrow> unit fsop" where
  "prepare_empty_dir calls p =
     fbind (fcall calls ReadDir StoreIo) (\<lambda>_ disk.
       (case disk p of
          Some d \<Rightarrow> (disk, if d = empty_dir then Ok () else Err StoreExists)
        | None \<Rightarrow> if ca_result calls CreateDir = CallDone then (disk(p \<mapsto> empty_dir), Ok ()) else (disk, Err StoreIo)))"

fun batches :: "nat \<Rightarrow> 'a list \<Rightarrow> 'a list list" where
  "batches n xs = (if n = 0 \<or> xs = [] then [] else take n xs # batches n (drop n xs))"

declare batches.simps [simp del]

definition copy_entries :: "Keyspace \<Rightarrow> entries \<Rightarrow> Dir \<Rightarrow> Dir" where
  "copy_entries ks es d =
     \<lparr>dir_live = map_option (fold (\<lambda>(k, v). tx_insert ks k v) es) (dir_live d),
      dir_held = dir_held d \<union> (\<lambda>(k, v). (ks, k, v)) ` set es\<rparr>"

fun copy_batches :: "SysCalls \<Rightarrow> path \<Rightarrow> Keyspace \<Rightarrow> nat \<Rightarrow> entries list \<Rightarrow> unit fsop" where
  "copy_batches calls dest ks n [] = flift (Ok ())"
| "copy_batches calls dest ks n (es # rest) =
     (\<lambda>disk. if ca_result calls (CommitBatch ks n) = CallDone
       then copy_batches calls dest ks (Suc n) rest (disk(dest := map_option (copy_entries ks es) (disk dest)))
       else (disk, Err StoreDatabase))"

fun copy_keyspaces :: "SysCalls \<Rightarrow> path \<Rightarrow> Phys \<Rightarrow> Keyspace list \<Rightarrow> unit fsop" where
  "copy_keyspaces calls dest ph [] = flift (Ok ())"
| "copy_keyspaces calls dest ph (ks # rest) =
     fbind (copy_batches calls dest ks 0 (batches COPY_BATCH (ph ks))) (\<lambda>_. copy_keyspaces calls dest ph rest)"

definition ALL_KEYSPACES :: "Keyspace list" where
  "ALL_KEYSPACES = [KsMeta, KsKeys, KsTenants, KsGrants, KsRevocations, KsSessions, KsInvocations, KsIdem, KsLedgers,
     KsArtifacts, KsBlobs, KsSessionIndex, KsAudit, KsAuditStub, KsRekey]"

definition open_database :: "SysCalls \<Rightarrow> bool \<Rightarrow> path \<Rightarrow> unit fsop" where
  "open_database calls again p =
     fbind (fcall calls (OpenDatabase again) StoreDatabase) (\<lambda>_ disk.
       (disk(p := map_option (\<lambda>d. d\<lparr>dir_live := Some (case dir_live d of Some ph \<Rightarrow> ph | None \<Rightarrow> (\<lambda>_. []))\<rparr>) (disk p)), Ok ()))"

definition copy_into :: "SysCalls \<Rightarrow> Phys \<Rightarrow> path \<Rightarrow> unit fsop" where
  "copy_into calls ph dest =
     fbind (open_database calls False dest) (\<lambda>_.
     fbind (copy_keyspaces calls dest ph ALL_KEYSPACES) (\<lambda>_.
     fcall calls PersistCopy StoreDatabase))"

fun lock_attempts :: "SysCalls \<Rightarrow> path \<Rightarrow> nat list \<Rightarrow> (unit, StoreError) result" where
  "lock_attempts calls dir [] = Err StoreInUse"
| "lock_attempts calls dir (n # rest) =
     (case ca_result calls (TryLock dir n) of
        CallDone \<Rightarrow> Ok ()
      | CallBusy \<Rightarrow> lock_attempts calls dir rest
      | CallFailed \<Rightarrow> Err StoreIo)"

definition lock_database :: "SysCalls \<Rightarrow> path \<Rightarrow> unit fsop" where
  "lock_database calls dir =
     fbind (fcall calls (OpenLock dir) StoreIo) (\<lambda>_. flift (lock_attempts calls dir [1..<Suc LOCK_ATTEMPTS]))"

definition exchange_dirs :: "SysCalls \<Rightarrow> path \<Rightarrow> path \<Rightarrow> unit fsop" where
  "exchange_dirs calls p staging disk =
     (if ca_result calls ExchangeDirs = CallDone
      then fcall calls (SyncParent 1) StoreIo (disk(p := disk staging, staging := disk p))
      else (disk, Err (if ca_unsupported calls then ExchangeUnsupported else StoreIo)))"

definition swap_in :: "SysCalls \<Rightarrow> path \<Rightarrow> path \<Rightarrow> unit fsop" where
  "swap_in calls p staging =
     fbind (lock_database calls p) (\<lambda>_.
     fbind (lock_database calls staging) (\<lambda>_.
     fbind (exchange_dirs calls p staging) (\<lambda>_.
     remove_leftover calls True p)))"

text \<open>\<open>ph\<close> is the open database of the handle, the live entries at its path.\<close>

definition compact_store :: "SysCalls \<Rightarrow> path \<Rightarrow> Phys \<Rightarrow> unit fsop" where
  "compact_store calls p ph =
     fbind (flift (staging_path p)) (\<lambda>staging.
     fbind (remove_leftover calls False p) (\<lambda>_.
     fbind (prepare_empty_dir calls staging) (\<lambda>_.
     fbind (copy_into calls ph staging) (\<lambda>_.
     fbind (swap_in calls p staging) (\<lambda>_.
     open_database calls True p)))))"

section \<open>Restored copies\<close>

record RestoredStore =
  rest_schema_version :: u32
  rest_root_key_id :: u32

definition verify_restored :: "Crypto \<Rightarrow> u8 list \<Rightarrow> Phys \<Rightarrow> (RestoredStore, StoreError) result" where
  "verify_restored cr root ph =
     rbind (open_unlocked cr root ph) (\<lambda>keys.
     Ok \<lparr>rest_schema_version = SCHEMA_VERSION, rest_root_key_id = sks_root_key_id keys\<rparr>)"

section \<open>The key file\<close>




section \<open>Compaction\<close>

text \<open>Operations that touch no path but one.\<close>

definition touches_only :: "path \<Rightarrow> 'a fsop \<Rightarrow> bool" where
  "touches_only at m \<longleftrightarrow> (\<forall>disk disk' r q. m disk = (disk', r) \<longrightarrow> q \<noteq> at \<longrightarrow> disk' q = disk q)"

lemma touches_only_bind:
  assumes "touches_only at m" and "\<And>x. touches_only at (k x)"
  shows "touches_only at (fbind m k)"
  unfolding touches_only_def
proof (intro allI impI)
  fix disk disk' r q
  assume run: "fbind m k disk = (disk', r)" and q: "q \<noteq> at"
  obtain d1 r1 where m: "m disk = (d1, r1)" by force
  then have "d1 q = disk q" using assms(1) q unfolding touches_only_def by blast
  moreover have "disk' q = d1 q"
    using run m assms(2) q by (cases r1) (auto simp: fbind_def touches_only_def)
  ultimately show "disk' q = disk q" by simp
qed

lemma touches_only_pure [simp]: "touches_only at (flift r)" "touches_only at (fcall calls c e)"
  by (auto simp: touches_only_def flift_def fcall_def)

lemma copy_batches_touches: "touches_only dest (copy_batches calls dest ks n bs)"
proof (induction bs arbitrary: n)
  case (Cons es bs)
  show ?case
    unfolding touches_only_def
  proof (intro allI impI)
    fix disk disk' r q
    assume run: "copy_batches calls dest ks n (es # bs) disk = (disk', r)" and q: "q \<noteq> dest"
    show "disk' q = disk q"
    proof (cases "ca_result calls (CommitBatch ks n) = CallDone")
      case True
      with run have "copy_batches calls dest ks (Suc n) bs (disk(dest := map_option (copy_entries ks es) (disk dest))) = (disk', r)"
        by simp
      with Cons.IH [of "Suc n"] q have "disk' q = (disk(dest := map_option (copy_entries ks es) (disk dest))) q"
        unfolding touches_only_def by blast
      with q show ?thesis by simp
    qed (use run in auto)
  qed
qed simp

lemma copy_keyspaces_touches: "touches_only dest (copy_keyspaces calls dest ph kss)"
  by (induction kss) (auto intro: touches_only_bind copy_batches_touches)

lemma open_database_touches: "touches_only p (open_database calls again p)"
  unfolding open_database_def by (rule touches_only_bind) (simp, auto simp: touches_only_def)

lemma prepare_touches: "touches_only p (prepare_empty_dir calls p)"
  unfolding prepare_empty_dir_def
  by (rule touches_only_bind) (simp, auto simp: touches_only_def split: option.splits if_splits)

lemma copy_into_touches: "touches_only dest (copy_into calls ph dest)"
  unfolding copy_into_def by (intro touches_only_bind open_database_touches copy_keyspaces_touches touches_only_pure)

lemma remove_leftover_touches: "staging_path p = Ok staging \<Longrightarrow> touches_only staging (remove_leftover calls swapped p)"
  unfolding remove_leftover_def
  by (auto simp: touches_only_def fbind_def flift_def fcall_def split: option.splits if_splits)

lemma lock_database_pure: "lock_database calls dir disk = (disk, snd (lock_database calls dir disk))"
  by (auto simp: lock_database_def fbind_def flift_def fcall_def split: sum.splits)

lemma staging_differs:
  assumes "staging_path p = Ok staging"
  shows "staging \<noteq> p" and "p \<noteq> []"
proof -
  from assms have p: "p \<noteq> []" and s: "staging = butlast p @ [last p @ ''.compact'']"
    by (auto simp: staging_path_def rbind_Ok_iff ok_or_Ok_iff file_name_def with_file_name_def split: if_splits)
  show "p \<noteq> []" by fact
  have "p = butlast p @ [last p]" using p by simp
  then show "staging \<noteq> p" using s by (metis append_same_eq butlast_snoc last_snoc list.distinct(1) append_self_conv)
qed

subsection \<open>The copy\<close>

lemma bytes_less_asym: "bytes_less a b \<Longrightarrow> \<not> bytes_less b a \<and> a \<noteq> b"
  by (induction a b rule: bytes_less.induct) auto

lemma entry_put_last:
  "(\<And>k'. k' \<in> fst ` set xs \<Longrightarrow> bytes_less k' k) \<Longrightarrow> entry_put k v xs = xs @ [(k, v)]"
  by (induction k v xs rule: entry_put.induct) (auto dest: bytes_less_asym)

lemma fold_entry_put:
  "sorted_wrt bytes_less (map fst (xs @ es)) \<Longrightarrow> fold (\<lambda>(k, v). entry_put k v) es xs = xs @ es"
proof (induction es arbitrary: xs)
  case (Cons e es)
  obtain k v where e: "e = (k, v)" by force
  have "entry_put k v xs = xs @ [(k, v)]"
    using Cons.prems by (intro entry_put_last) (auto simp: sorted_wrt_append e)
  then show ?case using Cons.IH [of "xs @ [(k, v)]"] Cons.prems by (simp add: e)
qed simp

lemma fold_tx_insert:
  "fold (\<lambda>(k, v). tx_insert ks k v) es ph = ph(ks := fold (\<lambda>(k, v). entry_put k v) es (ph ks))"
  by (induction es arbitrary: ph) (auto simp: tx_insert_def)

lemma concat_batches: "0 < n \<Longrightarrow> concat (batches n xs) = xs"
  by (induction n xs rule: batches.induct) (subst batches.simps, simp)

lemma copy_entries_append: "copy_entries ks (a @ b) d = copy_entries ks b (copy_entries ks a d)"
  by (cases "dir_live d") (auto simp: copy_entries_def)

lemma copy_batches_Ok:
  "copy_batches calls dest ks n bs disk = (disk', Ok ()) \<Longrightarrow> disk dest = Some d \<Longrightarrow>
   disk' dest = Some (copy_entries ks (concat bs) d)"
proof (induction bs arbitrary: n disk d)
  case Nil
  then show ?case by (cases "dir_live d") (auto simp: flift_def copy_entries_def)
next
  case (Cons es bs)
  then show ?case by (auto simp: copy_entries_append split: if_splits)
qed

lemma fbind_Ok_iff: "fbind m k disk = (disk', Ok y) \<longleftrightarrow> (\<exists>d1 x. m disk = (d1, Ok x) \<and> k x d1 = (disk', Ok y))"
  by (auto simp: fbind_def split: prod.splits sum.splits)

lemma copy_keyspaces_Ok:
  "copy_keyspaces calls dest ph kss disk = (disk', Ok ()) \<Longrightarrow> disk dest = Some d \<Longrightarrow>
   disk' dest = Some (fold (\<lambda>ks. copy_entries ks (ph ks)) kss d)"
proof (induction kss arbitrary: disk d)
  case (Cons ks kss)
  then obtain d1 where c: "copy_batches calls dest ks 0 (batches COPY_BATCH (ph ks)) disk = (d1, Ok ())"
    and rest: "copy_keyspaces calls dest ph kss d1 = (disk', Ok ())" by (auto simp: fbind_Ok_iff)
  have "d1 dest = Some (copy_entries ks (ph ks) d)"
    using copy_batches_Ok [OF c Cons.prems(2)] by (simp add: concat_batches COPY_BATCH_def)
  from Cons.IH [OF rest this] show ?case by simp
qed (simp add: flift_def)

definition live_entries :: "Phys \<Rightarrow> (Keyspace \<times> u8 list \<times> u8 list) set" where
  "live_entries ph = {(ks, k, v). (k, v) \<in> set (ph ks)}"

lemma all_keyspaces: "set ALL_KEYSPACES = UNIV" "distinct ALL_KEYSPACES"
proof -
  have "ks \<in> set ALL_KEYSPACES" for ks by (cases ks) (simp_all add: ALL_KEYSPACES_def)
  then show "set ALL_KEYSPACES = UNIV" by blast
  show "distinct ALL_KEYSPACES" by (simp add: ALL_KEYSPACES_def)
qed

lemma fold_copy:
  assumes "\<And>ks. sorted_wrt bytes_less (map fst (ph ks))" and "distinct kss" and "\<And>ks. ks \<in> set kss \<Longrightarrow> x ks = []"
  shows "fold (\<lambda>ks. copy_entries ks (ph ks)) kss \<lparr>dir_live = Some x, dir_held = h\<rparr> =
    \<lparr>dir_live = Some (\<lambda>ks. if ks \<in> set kss then ph ks else x ks),
     dir_held = h \<union> {(ks, k, v). ks \<in> set kss \<and> (k, v) \<in> set (ph ks)}\<rparr>"
  using assms(2,3)
proof (induction kss arbitrary: x h)
  case (Cons ks kss)
  have "fold (\<lambda>(k, v). entry_put k v) (ph ks) (x ks) = ph ks"
    using fold_entry_put [of "[]" "ph ks"] assms(1) Cons.prems(2) [of ks] by simp
  then have "copy_entries ks (ph ks) \<lparr>dir_live = Some x, dir_held = h\<rparr> =
      \<lparr>dir_live = Some (x(ks := ph ks)), dir_held = h \<union> (\<lambda>(k, v). (ks, k, v)) ` set (ph ks)\<rparr>"
    by (simp add: copy_entries_def fold_tx_insert)
  note step = this
  have "fold (\<lambda>ks. copy_entries ks (ph ks)) (ks # kss) \<lparr>dir_live = Some x, dir_held = h\<rparr> =
      \<lparr>dir_live = Some (\<lambda>q. if q \<in> set kss then ph q else (x(ks := ph ks)) q),
       dir_held = h \<union> (\<lambda>(k, v). (ks, k, v)) ` set (ph ks) \<union> {(q, k, v). q \<in> set kss \<and> (k, v) \<in> set (ph q)}\<rparr>"
    unfolding fold_simps step by (rule Cons.IH) (use Cons.prems in auto)
  moreover have "(\<lambda>q. if q \<in> set kss then ph q else (x(ks := ph ks)) q) = (\<lambda>q. if q \<in> set (ks # kss) then ph q else x q)"
    by auto
  moreover have "h \<union> (\<lambda>(k, v). (ks, k, v)) ` set (ph ks) \<union> {(q, k, v). q \<in> set kss \<and> (k, v) \<in> set (ph q)} =
      h \<union> {(q, k, v). q \<in> set (ks # kss) \<and> (k, v) \<in> set (ph q)}" by auto
  ultimately show ?case by (simp only:)
qed auto

lemma copy_into_Ok:
  assumes "copy_into calls ph dest disk = (disk', Ok ())" and "disk dest = Some empty_dir"
    and "\<And>ks. sorted_wrt bytes_less (map fst (ph ks))"
  shows "disk' dest = Some \<lparr>dir_live = Some ph, dir_held = live_entries ph\<rparr>"
proof -
  from assms(1) obtain d1 d2 where o: "open_database calls False dest disk = (d1, Ok ())"
    and c: "copy_keyspaces calls dest ph ALL_KEYSPACES d1 = (d2, Ok ())" and e: "disk' = d2"
    by (auto simp: copy_into_def fbind_Ok_iff fcall_def flift_def)
  from o assms(2) have "d1 dest = Some \<lparr>dir_live = Some (\<lambda>_. []), dir_held = {}\<rparr>"
    by (auto simp: open_database_def fbind_Ok_iff fcall_def flift_def empty_dir_def)
  from copy_keyspaces_Ok [OF c this] fold_copy [where ph = ph and x = "\<lambda>_. []" and h = "{}", OF assms(3) all_keyspaces(2)] show ?thesis
    by (simp add: e all_keyspaces(1) live_entries_def)
qed

subsection \<open>The swap\<close>

lemma prepare_Ok:
  "prepare_empty_dir calls p disk = (disk', Ok ()) \<Longrightarrow> disk' p = Some empty_dir"
  by (auto simp: prepare_empty_dir_def fbind_Ok_iff fcall_def flift_def split: option.splits if_splits)

lemma remove_leftover_Ok:
  "staging_path p = Ok staging \<Longrightarrow> remove_leftover calls swapped p disk = (disk', Ok ()) \<Longrightarrow> disk' staging = None"
  by (auto simp: remove_leftover_def fbind_def flift_def fcall_def split: option.splits if_splits)

text \<open>Whatever fails, a swap leaves at the path one of the two directories it started from, and the copy when it
  succeeds.\<close>

lemma swap_in_holds:
  assumes staging: "staging_path p = Ok staging" and run: "swap_in calls p staging disk = (disk', r)"
  shows "disk' p = disk p \<or> disk' p = disk staging"
    and "r = Ok () \<Longrightarrow> disk' p = disk staging \<and> disk' staging = None"
    and "q \<noteq> p \<Longrightarrow> q \<noteq> staging \<Longrightarrow> disk' q = disk q"
proof -
  note ne = staging_differs(1) [OF staging]
  obtain r1 r2 where locks: "lock_database calls p disk = (disk, r1)" "lock_database calls staging disk = (disk, r2)"
    using lock_database_pure by blast
  obtain d3 r3 where ex: "exchange_dirs calls p staging disk = (d3, r3)" by force
  have d3: "d3 p = disk p \<or> d3 p = disk staging" "r3 = Ok () \<Longrightarrow> d3 p = disk staging"
    "\<And>q. q \<noteq> p \<Longrightarrow> q \<noteq> staging \<Longrightarrow> d3 q = disk q"
    using ex ne by (auto simp: exchange_dirs_def fcall_def flift_def split: if_splits)
  obtain d4 r4 where rm: "remove_leftover calls True p d3 = (d4, r4)" by force
  have d4: "\<And>q. q \<noteq> staging \<Longrightarrow> d4 q = d3 q" "r4 = Ok () \<Longrightarrow> d4 staging = None"
    using remove_leftover_touches [OF staging] rm remove_leftover_Ok [OF staging] unfolding touches_only_def by blast+
  have out: "disk' = disk \<and> (\<exists>e. r = Err e) \<or> disk' = d3 \<and> (\<exists>e. r = Err e) \<or> r3 = Ok () \<and> disk' = d4 \<and> r = r4"
    using run locks ex rm
    by (cases r1; cases r2; cases r3) (auto simp: swap_in_def fbind_def)
  then show "disk' p = disk p \<or> disk' p = disk staging" using d3(1) d4(1) ne by auto
  show "r = Ok () \<Longrightarrow> disk' p = disk staging \<and> disk' staging = None" using out d3(2) d4 ne by auto
  show "q \<noteq> p \<Longrightarrow> q \<noteq> staging \<Longrightarrow> disk' q = disk q" using out d3(3) d4(1) by auto
qed

text \<open>With every call working, a compaction runs to its end.\<close>

definition all_work :: "SysCalls \<Rightarrow> bool" where
  "all_work calls \<longleftrightarrow> (\<forall>c. ca_result calls c = CallDone)"

lemma fbind_works: "\<exists>d x. m disk = (d, Ok x) \<Longrightarrow> (\<And>x disk. \<exists>d y. k x disk = (d, Ok y)) \<Longrightarrow> \<exists>d y. fbind m k disk = (d, Ok y)"
  by (fastforce simp: fbind_def)

lemma works_steps:
  assumes "all_work calls"
  shows "\<exists>d x. fcall calls c e disk = (d, Ok x)" "\<exists>d x. open_database calls again p disk = (d, Ok x)"
    "\<exists>d x. copy_batches calls dest ks n bs disk = (d, Ok x)" "\<exists>d x. lock_database calls dir disk = (d, Ok x)"
    "\<exists>d x. exchange_dirs calls p staging disk = (d, Ok x)"
    "staging_path p = Ok staging \<Longrightarrow> \<exists>d x. remove_leftover calls swapped p disk = (d, Ok x)"
proof -
  have c: "ca_result calls c = CallDone" for c using assms by (simp add: all_work_def)
  show "\<exists>d x. fcall calls c e disk = (d, Ok x)" "\<exists>d x. open_database calls again p disk = (d, Ok x)"
    "\<exists>d x. exchange_dirs calls p staging disk = (d, Ok x)"
    by (auto simp: fcall_def flift_def ensure_def c open_database_def exchange_dirs_def fbind_def)
  show "\<exists>d x. copy_batches calls dest ks n bs disk = (d, Ok x)"
    by (induction bs arbitrary: n disk) (auto simp: flift_def c)
  show "\<exists>d x. lock_database calls dir disk = (d, Ok x)"
    by (simp add: lock_database_def fbind_def fcall_def flift_def ensure_def c LOCK_ATTEMPTS_def upt_rec)
  show "staging_path p = Ok staging \<Longrightarrow> \<exists>d x. remove_leftover calls swapped p disk = (d, Ok x)"
    by (auto simp: remove_leftover_def fbind_def flift_def fcall_def ensure_def c split: option.split)
qed

lemma copy_into_works: "all_work calls \<Longrightarrow> \<exists>d x. copy_into calls ph dest disk = (d, Ok x)"
proof -
  assume w: "all_work calls"
  have "\<exists>d x. copy_keyspaces calls dest ph kss disk = (d, Ok x)" for kss disk
  proof (induction kss arbitrary: disk)
    case (Cons ks kss)
    show ?case unfolding copy_keyspaces.simps by (intro fbind_works works_steps(3) [OF w] Cons.IH)
  qed (simp add: flift_def)
  then show ?thesis unfolding copy_into_def by (intro fbind_works works_steps(1,2) [OF w])
qed

lemma compact_works:
  assumes "all_work calls" and "staging_path p = Ok staging"
  shows "\<exists>d x. compact_store calls p ph disk = (d, Ok x)"
proof -
  obtain d1 where d1: "remove_leftover calls False p disk = (d1, Ok ())"
    using works_steps(6) [OF assms] by auto
  then have "d1 staging = None" by (rule remove_leftover_Ok [OF assms(2)])
  then have "\<exists>d. prepare_empty_dir calls staging d1 = (d, Ok ())"
    using assms(1) by (simp add: prepare_empty_dir_def fbind_def fcall_def flift_def ensure_def all_work_def)
  then obtain d2 where d2: "prepare_empty_dir calls staging d1 = (d2, Ok ())" by blast
  have swap: "\<exists>d x. swap_in calls p staging disk = (d, Ok x)" for disk
    unfolding swap_in_def by (intro fbind_works works_steps [OF assms(1)] works_steps(6) [OF assms])
  have rest: "\<exists>d x. fbind (copy_into calls ph staging) (\<lambda>_. fbind (swap_in calls p staging) (\<lambda>_. open_database calls True p)) d2 = (d, Ok x)"
    by (intro fbind_works copy_into_works swap works_steps(2) assms(1))
  have run: "m disk = (d, Ok x) \<Longrightarrow> fbind m k disk = k x d" for m :: "unit fsop" and k :: "unit \<Rightarrow> unit fsop" and disk d x
    by (simp add: fbind_def)
  have "compact_store calls p ph disk =
      fbind (copy_into calls ph staging) (\<lambda>_. fbind (swap_in calls p staging) (\<lambda>_. open_database calls True p)) d2"
    unfolding compact_store_def by (simp add: fbind_def [of "flift _"] flift_def assms(2) run [where m = "remove_leftover calls False p", OF d1]
        run [where m = "prepare_empty_dir calls staging", OF d2])
  with rest show ?thesis by simp
qed

section \<open>Properties\<close>



text \<open>C26. Compaction never loses the store and leaves nothing behind: wherever one of its calls fails, the store's path
  still holds a complete store with exactly the live entries it had, and no path but its staging
  directory has changed; when it succeeds, the files at the path have never held anything but the live
  entries, and the staging directory, whatever was in it, is gone.  It succeeds
  when every call does and the path has a name.\<close>

theorem compaction_is_safe:
  assumes "disk p = Some d" and "dir_live d = Some ph" and "\<And>ks. sorted_wrt bytes_less (map fst (ph ks))"
    and "compact_store calls p ph disk = (disk', r)"
  shows "(\<exists>d'. disk' p = Some d' \<and> dir_live d' = Some ph \<and> (r = Ok () \<longrightarrow> dir_held d' = live_entries ph)) \<and>
    (\<forall>q. q \<noteq> p \<longrightarrow> staging_path p \<noteq> Ok q \<longrightarrow> disk' q = disk q) \<and>
    (r = Ok () \<longrightarrow> (\<exists>staging. staging_path p = Ok staging \<and> disk' staging = None)) \<and>
    ((\<forall>c. ca_result calls c = CallDone) \<and> file_name p \<noteq> None \<longrightarrow> r = Ok ())"
proof (cases "staging_path p")
  case (Inl e)
  then have "file_name p = None" by (auto simp: staging_path_def ok_or_def split: option.splits)
  with Inl assms show ?thesis by (auto simp: compact_store_def fbind_def flift_def)
next
  case staging: (Inr staging)
  note ne = staging_differs(1) [OF staging]
  obtain d1 r1 where m1: "remove_leftover calls False p disk = (d1, r1)" by force
  obtain d2 r2 where m2: "prepare_empty_dir calls staging d1 = (d2, r2)" by force
  obtain d3 r3 where m3: "copy_into calls ph staging d2 = (d3, r3)" by force
  obtain d4 r4 where m4: "swap_in calls p staging d3 = (d4, r4)" by force
  obtain d5 r5 where m5: "open_database calls True p d4 = (d5, r5)" by force
  have q1: "d1 q = disk q" "d2 q = d1 q" "d3 q = d2 q" if "q \<noteq> staging" for q
    using that remove_leftover_touches [OF staging] m1 prepare_touches m2 copy_into_touches m3
    unfolding touches_only_def by metis+
  have q4: "d4 q = d3 q" if "q \<noteq> p" "q \<noteq> staging" for q using swap_in_holds(3) [OF staging m4] that by blast
  have q5: "d5 q = d4 q" if "q \<noteq> p" for q using open_database_touches m5 that unfolding touches_only_def by metis
  have copy: "d3 staging = Some \<lparr>dir_live = Some ph, dir_held = live_entries ph\<rparr>" if "r2 = Ok ()" "r3 = Ok ()"
    using copy_into_Ok [of calls ph staging d2 d3] m3 prepare_Ok [of calls staging d1 d2] m2 that assms(3) by simp
  have at_p: "d3 p = Some d" using q1 [of p] ne assms(1) by auto
  have out: "disk' = d1 \<and> (\<exists>e. r = Err e) \<or> disk' = d2 \<and> (\<exists>e. r = Err e) \<or> disk' = d3 \<and> (\<exists>e. r = Err e) \<or>
      r2 = Ok () \<and> r3 = Ok () \<and> disk' = d4 \<and> (\<exists>e. r = Err e) \<or>
      r2 = Ok () \<and> r3 = Ok () \<and> r4 = Ok () \<and> disk' = d5 \<and> r = r5"
    using assms(4) m1 m2 m3 m4 m5 staging
    by (cases r1; cases r2; cases r3; cases r4) (auto simp: compact_store_def fbind_def flift_def)
  have d4p: "d4 p = Some d \<or> d4 p = d3 staging" "r4 = Ok () \<Longrightarrow> d4 p = d3 staging \<and> d4 staging = None"
    using swap_in_holds(1,2) [OF staging m4] at_p by auto
  have d5p: "d5 p = d4 p" if "r4 = Ok ()" "r2 = Ok ()" "r3 = Ok ()"
    using m5 d4p(2) [OF that(1)] copy that
    by (auto simp: open_database_def fbind_def fcall_def flift_def ensure_def split: if_splits)
  have "\<exists>d'. disk' p = Some d' \<and> dir_live d' = Some ph \<and> (r = Ok () \<longrightarrow> dir_held d' = live_entries ph)"
    using out d4p d5p copy assms(1,2) q1 [of p] ne at_p by (elim disjE) auto
  moreover have "disk' q = disk q" if "q \<noteq> p" "staging_path p \<noteq> Ok q" for q
    using out q1 [of q] q4 [of q] q5 [of q] that staging by (elim disjE) auto
  moreover have "disk' staging = None" if "r = Ok ()"
    using out that d4p(2) q5 [of staging] ne by auto
  moreover have "r = Ok ()" if "\<forall>c. ca_result calls c = CallDone"
    using compact_works [of calls p staging ph disk] that staging assms(4) by (auto simp: all_work_def)
  ultimately show ?thesis using staging by blast
qed

theorem compaction_is_safe_witness:
  "\<exists>disk' d'. compact_store \<lparr>ca_result = \<lambda>_. CallDone, ca_unsupported = False, ca_remains = empty_dir\<rparr> [''store'']
      (\<lambda>ks. if ks = KsMeta then [([1], [2])] else [])
      [[''store''] \<mapsto> \<lparr>dir_live = Some (\<lambda>ks. if ks = KsMeta then [([1], [2])] else []), dir_held = {(KsMeta, [1], [2]), (KsKeys, [3], [4])}\<rparr>,
       [''store.compact''] \<mapsto> \<lparr>dir_live = None, dir_held = {(KsKeys, [5], [6])}\<rparr>] = (disk', Ok ()) \<and>
    disk' [''store''] = Some d' \<and> dir_held d' = {(KsMeta, [1], [2])} \<and> disk' [''store.compact''] = None"
proof -
  let ?calls = "\<lparr>ca_result = \<lambda>_. CallDone, ca_unsupported = False, ca_remains = empty_dir\<rparr>"
  let ?ph = "\<lambda>ks. if ks = KsMeta then [([1], [2])] else []"
  let ?d = "\<lparr>dir_live = Some ?ph, dir_held = {(KsMeta, [1], [2]), (KsKeys, [3], [4])}\<rparr>"
  let ?disk = "[[''store''] \<mapsto> ?d, [''store.compact''] \<mapsto> \<lparr>dir_live = None, dir_held = {(KsKeys, [5], [6])}\<rparr>]"
  obtain disk' r where run: "compact_store ?calls [''store''] ?ph ?disk = (disk', r)" by force
  have at: "?disk [''store''] = Some ?d" "dir_live ?d = Some ?ph" "sorted_wrt bytes_less (map fst (?ph ks))" for ks by simp_all
  have staging: "staging_path [''store''] = Ok [''store.compact'']"
    by (simp add: staging_path_def file_name_def with_file_name_def ok_or_def)
  have "live_entries ?ph = {(KsMeta, [1], [2])}" by (auto simp: live_entries_def split: if_splits)
  with compaction_is_safe [OF at run] staging run show ?thesis by (auto simp: file_name_def)
qed

end
