(* ===== verification/Replies.thy ===== *)
theory Replies
  imports Call_Samples Connections
begin

text \<open>
  Replies and the frame bound: the handlers cut what they return to the budget of the connection's frames, so that
  the response of a read encodes within the bound and the connection survives it.
\<close>

section \<open>Sizes\<close>

text \<open>The part of a reply that grows, in the bytes \<^verbatim>\<open>reads.rs\<close> counts for it.\<close>

fun payload_bytes :: "ResponseBody \<Rightarrow> nat option" where
  "payload_bytes (Chunk c) = Some (length (chunk_bytes c))"
| "payload_bytes (ResponseBody.QueryPage page) = Some (length (result_refs page) * unat QUERY_REF_BYTES)"
| "payload_bytes (ResponseBody.AuditPage page) = Some (length (page_records page) * unat AUDIT_RECORD_BYTES)"
| "payload_bytes _ = None"

text \<open>What the sources rely on of the serializer: a response encodes, in at most the reserved overhead beside its
  payload.\<close>

definition sized_responses :: "Archive \<Rightarrow> bool" where
  "sized_responses ar \<longleftrightarrow> (\<forall>response n. payload_bytes (resp_body response) = Some n \<longrightarrow>
     (\<exists>bytes. fst (ar_response ar) response = Some bytes \<and> length bytes \<le> unat FRAME_OVERHEAD + n))"

section \<open>Lemmas\<close>

text \<open>What each of the three answers with.\<close>

lemma read_call_body:
  assumes "read_call ms call request s = (s', Ok reply)"
  shows "(\<exists>c. reply_body reply = Chunk c) \<or> (\<exists>f. reply_body reply = Failed f)"
  using assms unfolding read_call_def
proof (cases rule: tbind_cases)
  case (ok s1 plan)
  show ?thesis
  proof (cases "plan_refusal plan")
    case None
    with ok(2) show ?thesis
      by (auto simp: tbind_def treturn_def reply_failed_def split: prod.splits sum.splits option.splits)
  qed (use ok(2) deny_fails in fastforce)
qed simp

lemma query_call_body:
  assumes "query_call ms scans call request s = (s', Ok reply)"
  shows "(\<exists>p. reply_body reply = ResponseBody.QueryPage p) \<or> (\<exists>f. reply_body reply = Failed f)"
  using assms unfolding query_call_def Let_def
proof (cases rule: tbind_cases)
  case (ok s1 plan)
  show ?thesis
  proof (cases "plan_refusal plan")
    case None
    with ok(2) show ?thesis
      by (auto simp: tbind_def treturn_def reply_failed_def split: prod.splits sum.splits option.splits)
  qed (use ok(2) deny_fails in fastforce)
qed simp

lemma audit_query_call_body:
  assumes "audit_query_call ms scans call request s = (s', Ok reply)"
  shows "(\<exists>p. reply_body reply = ResponseBody.AuditPage p) \<or> (\<exists>f. reply_body reply = Failed f)"
  using assms unfolding audit_query_call_def Let_def
proof (cases rule: tbind_cases)
  case (ok s1 plan)
  show ?thesis
  proof (cases "plan_refusal plan")
    case None
    with ok(2) show ?thesis
      by (auto simp: tbind_def treturn_def reply_of_def split: prod.splits sum.splits)
  qed (use ok(2) deny_fails in fastforce)
qed simp

lemma execute_payload:
  assumes "execute ms scans call body s = (s', Ok reply)" and "payload_bytes (reply_body reply) = Some n"
    and "body \<in> {RequestBody.Read rr, RequestBody.Query qr, RequestBody.AuditQuery aq}"
  shows "n \<le> unat (payload_budget call)"
proof -
  from assms(3) consider "body = RequestBody.Read rr" | "body = RequestBody.Query qr" | "body = RequestBody.AuditQuery aq" by blast
  then show ?thesis
  proof cases
    case 1
    with assms(1) have "read_call ms call rr s = (s', Ok reply)" by (simp add: execute_def)
    with read_call_body [OF this] read_chunk_fits [OF this] assms(2) show ?thesis by auto
  next
    case 2
    with assms(1) have "query_call ms scans call qr s = (s', Ok reply)" by (simp add: execute_def)
    with query_call_body [OF this] query_page_fits [OF this] assms(2) show ?thesis by (auto simp: QUERY_REF_BYTES_def)
  next
    case 3
    with assms(1) have "audit_query_call ms scans call aq s = (s', Ok reply)" by (simp add: execute_def)
    with audit_query_call_body [OF this] audit_page_fits [OF this] assms(2) show ?thesis by (auto simp: AUDIT_RECORD_BYTES_def)
  qed
qed

lemma sized_fits:
  assumes sizes: "sized_responses ar" and body: "payload_bytes (resp_body response) = Some n"
    and room: "n + unat FRAME_OVERHEAD \<le> unat cap" and cap: "cap \<le> HARD_MAX_BODY"
  shows "\<exists>bytes. encode_frame (response_message ar) response cap = Ok bytes"
proof -
  obtain bytes where b: "fst (ar_response ar) response = Some bytes" "length bytes \<le> unat FRAME_OVERHEAD + n"
    using sizes body by (auto simp: sized_responses_def)
  have check: "response_check response = Ok ()"
    using body by (cases "resp_body response") (simp_all add: response_check_def)
  have len: "length bytes \<le> unat cap" using b(2) room by simp
  have "unat cap < 2 ^ LENGTH(32)" by (rule unsigned_less)
  with len have small: "length bytes < 2 ^ 32" by simp
  then have "unat (of_nat (length bytes) :: u32) = length bytes" by (simp add: unsigned_of_nat take_bit_nat_eq_self)
  with len have "(of_nat (length bytes) :: u32) \<le> cap" by (simp add: word_le_nat_alt)
  moreover have "clamp_cap cap = cap" using cap unfolding clamp_cap_def by (meson leD)
  ultimately show ?thesis
    using b(1) check small by (simp add: encode_frame_def encode_def response_message_def message_def ok_or_def Let_def)
qed

section \<open>A sample page\<close>

text \<open>The sample store with one audit record of its tenant, and a serializer with responses of the sizes above.\<close>

definition sample_audited :: Db where
  "sample_audited = sample_db2\<lparr>
     db_audit_stub := [(1, \<lparr>stub_seq = AuditSeq 1, stub_invocation = InvocationId 5, stub_capability = Capability.AuditQuery,
       stub_outcome = Success, stub_time = 9\<rparr>)],
     db_audit := (\<lambda>_. [])(TenantId 1 := [(1, \<lparr>sealed_key = 1, sealed_value =
       \<lparr>aer_seq = AuditSeq 1, aer_time = 9, aer_tenant = TenantId 1, aer_session = None, aer_invocation = InvocationId 5,
        aer_capability = Capability.AuditQuery, aer_state = InvocationState.Settled, aer_outcome = Success,
        aer_release_reason = None, aer_grant = Some (GrantId 1), aer_audit_scope = None\<rparr>\<rparr>)])\<rparr>"

definition sized_archive :: Archive where
  "sized_archive = sample_archive\<lparr>
     ar_request := ((\<lambda>_. Some [0]), (\<lambda>_. None)),
     ar_response := ((\<lambda>r. Some (replicate (100 + (case payload_bytes (resp_body r) of Some n \<Rightarrow> n | None \<Rightarrow> 0)) 0)), (\<lambda>_. None))\<rparr>"

definition audit_request :: RequestMsg where
  "audit_request = \<lparr>request_id = 3, req_grant = GrantId 1, idempotency_key = None, req_mode = Execute, deadline_ms = 1000,
     req_body = RequestBody.AuditQuery \<lparr>aq_audit_scope = AllScope, aq_session = None, aq_after = None, aq_limit = 10\<rparr>\<rparr>"

lemma sample_sized: "sized_responses sized_archive"
  by (simp add: sized_responses_def sized_archive_def FRAME_OVERHEAD_def)

lemma audit_plan:
  "\<exists>plan. decide \<lparr>az_tenant = TenantId 1, az_grant = GrantId 1, az_capability = Capability.AuditQuery, az_target = None,
      az_session = None, az_declared = cost_default\<rparr> sample_env sample_audited = Ok plan \<and> plan_refusal plan = None"
proof -
  have view: "store_view sample_audited = store_view sample_db2"
    by (simp add: store_view_def sample_audited_def ledger_used_def)
  have "authorize (store_view sample_db2) \<lparr>az_tenant = TenantId 1, az_grant = GrantId 1, az_capability = Capability.AuditQuery,
      az_target = None, az_session = None, az_declared = cost_default\<rparr> 10 = Ok (Allowed [GrantId 1]
     \<lparr>rp_cost = cost_default, rp_ledgers = [LedgerGrant (GrantId 1), LedgerTenant (TenantId 1)]\<rparr>)"
    by (simp add: authorize_def designated_chain_def store_view_def sample_db2_eq sample_db1_eq
        empty_db_def record_to_grant_def target_scope_parse_def check_chain_def load_chain.simps
        link_code_def acting_session_def target_admitted_def reserve_for_def ledger_states_def grant_ledger_def
        tenant_ledger_def ledger_used_def plan_reservation_def ledger_covers_def checked_add_def
        Dimension_ALL_def cost_default_def ceilings_default_def ensure_def)
  then show ?thesis by (simp add: decide_def store_plan_def plan_call_def view sample_env_def)
qed

lemma audited_keys: "tenant_keys sample_audited (TenantId 1) = Ok \<lparr>kr_active = 1, kr_retiring = None\<rparr>"
  using sample_keys tenant_keys_cong [of sample_audited "TenantId 1" sample_db2] by (simp add: sample_audited_def)

lemma audited_query:
  "\<exists>event. store_audit_query sample_audited [TenantId 1]
     \<lparr>aqc_actor = TenantId 1, aqc_scope = AllScope, aqc_session = None, aqc_after = None, aqc_limit = limit\<rparr> = Ok [event]"
  if "0 < unat limit" for limit
proof -
  have ids: "tenant_ids sample_audited [TenantId 1] = [TenantId 1]"
    by (simp add: tenant_ids_def List.map_filter_def sample_audited_def sample_db2_eq sample_db1_eq)
  have keep: "selected sample_audited \<lparr>aqc_actor = TenantId 1, aqc_scope = AllScope, aqc_session = None, aqc_after = None,
      aqc_limit = limit\<rparr> = (\<lambda>_. True)"
    by (simp add: selected_def fun_eq_iff)
  have "\<exists>v. db_audit sample_audited (TenantId 1) = [(1, \<lparr>sealed_key = 1, sealed_value = v\<rparr>)]" by (simp add: sample_audited_def)
  then have "\<exists>event. partition_read sample_audited (TenantId 1) None (unat limit) (\<lambda>_. True) = Ok [event]"
    using that by (auto simp: partition_read_def audited_keys audit_openers_def open_sealed_def)
  then obtain event where "partition_read sample_audited (TenantId 1) None (unat limit) (\<lambda>_. True) = Ok [event]" by blast
  then have "store_audit_query sample_audited [TenantId 1]
     \<lparr>aqc_actor = TenantId 1, aqc_scope = AllScope, aqc_session = None, aqc_after = None, aqc_limit = limit\<rparr> = Ok [event]"
    using that by (simp add: store_audit_query_def ids keep)
  then show ?thesis by blast
qed

lemma audited_scope: "audit_scope_for call AllScope env sample_audited = Ok AllScope" if "call_grant call = GrantId 1" for call
  using that by (simp add: audit_scope_for_def store_view_def sample_audited_def sample_db2_eq sample_db1_eq
      record_to_grant_def target_scope_parse_def applied_audit_scope_def)

lemma audited_append:
  "\<exists>db' seq. record_audit sample_env \<lparr>an_tenant = TenantId 1, an_invocation = i, an_capability = Capability.AuditQuery,
     an_session = None, an_outcome = AuditCompleted None, an_grant = Some (GrantId 1), an_audit_scope = Some AllScope\<rparr>
     sample_audited = (db', Ok seq)"
proof -
  have "tenant_keys (sample_audited\<lparr>db_audit_stub := stubs\<rparr>) (TenantId 1) = Ok \<lparr>kr_active = 1, kr_retiring = None\<rparr>" for stubs
    using audited_keys tenant_keys_cong [of "sample_audited\<lparr>db_audit_stub := stubs\<rparr>" "TenantId 1" sample_audited] by simp
  moreover have "next_audit_seq sample_audited = Ok 2"
    by (simp add: next_audit_seq_def sample_audited_def checked_add_def ok_or_def)
  ultimately show ?thesis
    by (simp add: record_audit_def append_audit_def audit_entry_terminal_def audit_entry_new_def Let_def end_tx_def commit_def)
qed

lemma audit_answer:
  "\<exists>s' response page. dispatch_request (request_message sized_archive) (\<lambda>b. b) capture_moments
      \<lparr>scan_index_of = (\<lambda>_. []), scan_tenants = [TenantId 1]\<rparr> unavailable_producer sample_peer audit_request
      \<lparr>in_store = sample_audited, in_running = (\<lambda>_. None)\<rparr> = (s', response) \<and>
    resp_body response = ResponseBody.AuditPage page \<and> length (page_records page) = 1"
proof -
  let ?scans = "\<lparr>scan_index_of = (\<lambda>_. []), scan_tenants = [TenantId 1]\<rparr>"
  let ?s = "\<lparr>in_store = sample_audited, in_running = (\<lambda>_. None)\<rparr>"
  have ms: "m_env (capture_moments k) = sample_env" "m_others (capture_moments k) = (\<lambda>s. s)" for k
    by (simp_all add: capture_moments_def capture_moment_def)
  obtain call where new: "call_new (request_message sized_archive) (\<lambda>b. b) sample_peer audit_request = Ok call"
    and call: "call_tenant call = TenantId 1" "call_grant call = GrantId 1" "call_max_frame call = 1048576"
    by (simp add: call_new_def request_digest_def encode_def request_message_def message_def sized_archive_def request_check_def
        audit_request_def sample_peer_def ensure_def ok_or_def)
  have budget: "min 10 (payload_budget call div AUDIT_RECORD_BYTES) = 10"
    by (simp add: payload_budget_def call FRAME_OVERHEAD_def AUDIT_RECORD_BYTES_def saturating_sub_def)
  obtain plan where plan: "decide (authz_of call Capability.AuditQuery None None cost_default) sample_env sample_audited = Ok plan"
    "plan_refusal plan = None" using audit_plan by (auto simp: authz_of_def call)
  obtain event where query: "store_audit_query sample_audited [TenantId 1]
     \<lparr>aqc_actor = TenantId 1, aqc_scope = AllScope, aqc_session = None, aqc_after = None, aqc_limit = saturating_add 10 1\<rparr> = Ok [event]"
    using audited_query [of "saturating_add 10 1"] by (auto simp: saturating_add_def)
  obtain db' seq where app: "record_audit sample_env \<lparr>an_tenant = TenantId 1, an_invocation = capture_id, an_capability = Capability.AuditQuery,
     an_session = None, an_outcome = AuditCompleted None, an_grant = Some (GrantId 1), an_audit_scope = Some AllScope\<rparr>
     sample_audited = (db', Ok seq)" using audited_append by blast
  have "execute capture_moments ?scans call (req_body audit_request) ?s =
      (?s\<lparr>in_store := db'\<rparr>, Ok (reply_of capture_id (ResponseBody.AuditPage
        \<lparr>scope_applied = AllScope, page_records = [ev_record event], next_after = None\<rparr>)))"
    by (simp add: execute_def audit_request_def audit_query_call_def tbind_def at_read_def at_store_def ms plan call
        audited_scope budget query app capture_fresh lift_result_def treturn_def Let_def)
  then show ?thesis
    using new by (simp add: dispatch_request_def handle_def settled_reply_def audit_request_def reply_of_def)
qed

section \<open>Properties\<close>

text \<open>C34. Replies fit the connection: when the serializer needs no more than the reserved overhead beside the bytes
  the sources count for a reply's payload, the chunk or page with which the daemon answers a read, a query
  or an audit query encodes within the frame bound of the connection, whatever is stored and however
  much was asked for; the connection never has to close over it.\<close>

theorem replies_fit_the_frame:
  assumes "sized_responses ar" and "FRAME_OVERHEAD \<le> conn_max_frame conn" and "conn_max_frame conn \<le> HARD_MAX_BODY"
    and "dispatch_request codec sha256 ms scans produce conn request s = (s', response)"
    and "req_mode request = Execute"
    and "req_body request \<in> {RequestBody.Read rr, RequestBody.Query qr, RequestBody.AuditQuery aq}"
    and "payload_bytes (resp_body response) = Some n"
  shows "\<exists>bytes. encode_frame (response_message ar) response (conn_max_frame conn) = Ok bytes"
proof -
  obtain s1 reply where h: "handle codec sha256 ms scans produce conn request s = (s1, reply)" by force
  have body: "payload_bytes (reply_body reply) = Some n" using assms(4,7) h by (auto simp: dispatch_request_def)
  obtain call where call: "call_new codec sha256 conn request = Ok call"
    using h body by (cases "call_new codec sha256 conn request") (auto simp: handle_def internal_def reply_failed_def)
  have frame: "call_max_frame call = conn_max_frame conn" using call by (auto simp: call_new_def rbind_Ok_iff)
  have "settled_reply (execute ms scans call (req_body request)) s = (s1, reply)"
    using h call assms(5,6) by (auto simp: handle_def)
  then obtain reply' where "execute ms scans call (req_body request) s = (s1, Ok reply')" "reply = reply'"
    using body by (auto simp: settled_reply_def internal_def reply_failed_def split: prod.splits sum.splits)
  with execute_payload [OF _ _ assms(6)] body have n: "n \<le> unat (payload_budget call)" by blast
  have "unat (payload_budget call) + unat FRAME_OVERHEAD = unat (conn_max_frame conn)"
    using assms(2) frame by (simp add: payload_budget_def saturating_sub_def unat_sub word_le_nat_alt)
  with n have "n + unat FRAME_OVERHEAD \<le> unat (conn_max_frame conn)" by simp
  from sized_fits [OF assms(1,7) this assms(3)] show ?thesis .
qed

theorem replies_fit_the_frame_witness:
  "\<exists>s' response page bytes. dispatch_request (request_message sized_archive) (\<lambda>b. b) capture_moments
      \<lparr>scan_index_of = (\<lambda>_. []), scan_tenants = [TenantId 1]\<rparr> unavailable_producer sample_peer audit_request
      \<lparr>in_store = sample_audited, in_running = (\<lambda>_. None)\<rparr> = (s', response) \<and>
    resp_body response = ResponseBody.AuditPage page \<and> length (page_records page) = 1 \<and>
    encode_frame (response_message sized_archive) response 1048576 = Ok bytes"
proof -
  obtain s' response page where r: "dispatch_request (request_message sized_archive) (\<lambda>b. b) capture_moments
      \<lparr>scan_index_of = (\<lambda>_. []), scan_tenants = [TenantId 1]\<rparr> unavailable_producer sample_peer audit_request
      \<lparr>in_store = sample_audited, in_running = (\<lambda>_. None)\<rparr> = (s', response)"
    and page: "resp_body response = ResponseBody.AuditPage page" "length (page_records page) = 1"
    using audit_answer by blast
  have "FRAME_OVERHEAD \<le> conn_max_frame sample_peer" "conn_max_frame sample_peer \<le> HARD_MAX_BODY"
    by (simp_all add: FRAME_OVERHEAD_def sample_peer_def HARD_MAX_BODY_def)
  moreover have "req_mode audit_request = Execute"
    "req_body audit_request \<in> {RequestBody.Read rr, RequestBody.Query qr, RequestBody.AuditQuery
      \<lparr>aq_audit_scope = AllScope, aq_session = None, aq_after = None, aq_limit = 10\<rparr>}" for rr qr
    by (simp_all add: audit_request_def)
  moreover have "payload_bytes (resp_body response) = Some 160" by (simp add: page AUDIT_RECORD_BYTES_def)
  ultimately obtain bytes where "encode_frame (response_message sized_archive) response (conn_max_frame sample_peer) = Ok bytes"
    using replies_fit_the_frame [OF sample_sized _ _ r] by blast
  with r page show ?thesis by (auto simp: sample_peer_def)
qed

end
