(* ===== verification/Spec2Isabelle.thy ===== *)
theory Spec2Isabelle
  imports Captures Rotations Root_Rotation Clients Outcomes Maintenance Replies
begin

text \<open>
  Dioptron is a local custody daemon: clients with delegated grants capture external content through a
  producer, and the daemon keeps what was captured, under per-tenant keys, with budgets, an audit log and
  crash recovery.  Tenants connect over a local socket and prove who they are by a signature.  This
  development models the program from the bytes on that socket to the bytes in the store and proves that
  the parts keep their promises, alone and together.

  \<^bold>\<open>The program and its theories\<close>

  \<^item> \<^verbatim>\<open>crates/syntheke\<close>, the contract: identifiers and ULID text (\<open>Ids\<close>), names, enumerations, costs and
    failures (\<open>Vocab\<close>), requests and responses (\<open>Payload\<close>), frame headers, version negotiation, the
    authentication transcript and the canonical codec (\<open>Wire\<close>).
  \<^item> \<^verbatim>\<open>crates/epitrope\<close>, the rules: origins and target patterns (\<open>Origin\<close>), ledgers, reservations and
    settlement (\<open>Budget\<close>), grants, narrowing, chains and lineage (\<open>Grants\<close>), the authorization decision and
    revocation authority (\<open>Authorize\<close>), the invocation lifecycle (\<open>Lifecycle\<close>).
  \<^item> \<^verbatim>\<open>crates/phylake\<close>, the store: records, the database as one map per keyspace, transactions with crash
    points, keyrings, the view the rules read and the audit append (\<open>Custody\<close>); intents, transitions and
    recovery (\<open>Invocations\<close>); tenants, grants, sessions, claims and shredding (\<open>Directory\<close>); readers and
    audit queries (\<open>Reads\<close>); sealed values, the key hierarchy, wrapped keys and the format marker
    (\<open>Sealing\<close>); the hashed record keys (\<open>Record_Keys\<close>); the rotation of a tenant's data key (\<open>Rekey\<close>);
    the keyspaces as bytes with opening a store and the rotation of the root key (\<open>Vault\<close>); the root key
    file, compaction by rewrite and the check of a restored copy (\<open>Maintenance\<close>).
  \<^item> \<^verbatim>\<open>crates/dioptron\<close>, the daemon: the checks and the capture lifecycle (\<open>Orchestrator\<close>), the other
    calls, dry runs and the entry point (\<open>Calls\<close>); of the server, the timed frame input and output
    (\<open>Transport\<close>), the limits, the handshake and the admission of a connection (\<open>Handshake\<close>), the request
    loop of an admitted connection, cancellation and the permits of the accept loop (\<open>Connection\<close>).
  \<^item> \<^verbatim>\<open>crates/xenos\<close>, the client: its own frame codec (\<open>Transport\<close>), its half of the handshake (\<open>Handshake\<close>),
    its calls and the raw connection beneath them (\<open>Clients\<close>).

  \<open>Prelude\<close> holds what all of them share: results (\<open>Ok\<close> and \<open>Err\<close> over the sum type), checked and
  saturating word arithmetic, byte orders and the proof collections.

  A peer is admitted by \<^const>\<open>admit\<close>, which reads the tenants of the store; the connection then turns frames
  into tasks (\<^const>\<open>turn\<close>) and writes their responses.  A request arrives at \<^const>\<open>dispatch_request\<close>, which builds the facts of the call and runs a dry
  run, a capture or another handler.  Handlers decide with the rules over a snapshot of the store
  (\<^const>\<open>store_view\<close>) and change the store by its operations; the store applies the same rules again inside
  its transactions, debits ledgers and appends to the audit log.

  \<^bold>\<open>What is proved, by group\<close>

  \<^item> Each theory of the contract and the rules ends with its own properties: round trips and
    injectivity of the encodings, exactness of pattern cover, the reservation planner against a
    reference, attenuation of grants, refinement of the authorization contract, what is hidden from
    other tenants.
  \<^item> \<open>Ledgers\<close>, \<open>Reachable\<close>, \<open>AuditLog\<close>, \<open>Recovery\<close>, \<open>Permanence\<close> and \<open>Retrieval\<close> prove invariants of
    \<^const>\<open>store_reachable\<close>, the databases that any sequence of operations with any crashes can produce: ledgers
    hold exactly what their invocations hold, ceilings are respected, the audit log has no gaps, open
    invocations can always be finished, what is permanent stays, readers find exactly what was
    published.  \<open>Outcomes\<close> states what every outcome of an intent writes, row by row.  \<open>Bindings\<close> shows that
    request bindings are injective where they must be.
  \<^item> \<open>Sealing\<close> and \<open>Record_Keys\<close> prove that sealed values, wrapped keys and record keys are bound to what
    they belong to, up to forgeries and collisions of the primitives.
  \<^item> \<open>Rotation\<close> extends the reachable stores by the steps of key rotations (\<^const>\<open>custody_reachable\<close>) and
    proves the invariant on key ids that keeps every record openable; \<open>Rotation_Run\<close> shows which readers do
    not see a rotation and that the loop ends; \<open>Rotations\<close> states the results and runs a rotation.
    \<open>Root_Rotation\<close> proves at the level of bytes that the rotation of the root key loses nothing.
  \<^item> \<open>Maintenance\<close> proves that a compaction keeps the store wherever a system call fails and that a root key
    file loads exactly when it is in the operator's sole custody.
  \<^item> \<open>Admissions\<close> proves what the handshake guarantees: who is admitted, what a refusal shows, that honest
    parties agree and that an unadmitted peer holds the server for a bounded time; \<open>Connections\<close> that each
    request is answered once and cancellation is exact; \<open>Clients\<close> that a call comes back to its caller and
    that a client fails closed.
  \<^item> \<open>Handlers\<close> proves that handlers act on the store only through its operations, that reads and dry runs
    change nothing else, that chunks and pages are cut to the budget of a reply; \<open>Replies\<close> that they
    then fit a frame; \<open>Captures\<close> follows a capture through its steps with
    other tasks interfering.  \<open>Samples\<close> and \<open>Call_Samples\<close> build small stores with the operations
    themselves, on which the properties are instantiated.
  \<^item> This theory holds the properties that span components.

  \<^bold>\<open>How state and operations are modelled\<close>

  A store operation maps the environment of its transaction (the clock, the failpoints, the hash
  functions), its arguments and the database to the database afterwards and its result; a transaction
  ends by abandoning or by a commit at a boundary, and a failpoint may stop it before or after the commit
  (\<^const>\<open>end_tx\<close>).  Locales state the shared contracts: a transactional operation and its crash behaviour in
  \<open>Custody\<close>, the ledger table the reservation rules rely on in \<open>Authorize\<close>, enumerations with distinct
  names in \<open>Vocab\<close>; each is interpreted on the model's own definitions.

  In the database sealing is symbolic: a stored value carries the id of the key that sealed it and opens
  under a keyring that holds that id; \<open>Sealing\<close> models the bytes.  Hash functions and the keyed blob address are arguments; where a property needs
  that they do not collide it says so.  Maps are keyed by logical identifiers instead of hashed record
  keys, so a scan in key order is an argument that lists the visited identifiers, and its properties hold
  for every such order.  One transaction reads the clock once.  Failures of the database itself are not
  modelled, and the size limit of a plaintext is enforced for blobs, the only unbounded values.

  Handlers are tasks over the store and the running set.  A task takes a sequence of moments, one for
  each of its store calls, clock reads and flag checks; a moment carries the environment of that instant
  and an arbitrary function for what the other tasks did since the previous one.  Properties state what
  they rely on: \<^const>\<open>polite\<close> for others that use the store operations, \<^const>\<open>considerate\<close> for others that
  also leave a given invocation alone, \<^const>\<open>alone\<close> for none.  The producer is a parameter that says how its
  call ended.

  A socket is a link: its clock, what arrives and when, what was sent and how the next write calls will go.
  Reads and writes with timers are functions of it; computing takes no time there, so nothing is said
  about how long a signature check runs.  A connection is a state machine whose steps are the arms of the
  source's select, in any order the environment chooses.  The serializer of the messages (\<open>Archive\<close>) and
  the signature scheme are arguments; properties that need that a message decodes to what was encoded say
  so.  File operations take the outcome of every system call as an argument.

  \<^bold>\<open>Bounds\<close>

  Recursions that the code bounds are bounded the same way: tenant lineage by 255 steps, subtree walks by
  256, grant chains by the depth a \<open>u8\<close> allows.  The audit sequence is a 64-bit counter; totality
  statements assume it has room.  The loop of a data key rotation may in principle not return, so it is a
  partial function, and that it returns is a theorem.  Reading from a link ends because every read
  takes something out of what will arrive, and writing because every write takes a byte.  Nothing is
  fuelled.

  \<^bold>\<open>Not modelled\<close>

  The ciphers, hash functions, the signature scheme and the serializers, which are third-party code and
  parameters here; the command line, the system clock, the scripted producer; binding the socket file, its
  lock and the signal handlers, which are operating-system glue; the bytes a connection buffers, so the
  server's memory bound is not a theorem.  Of the orchestrator, the watcher that forwards a stop to a running
  producer, the poll for a lost chain and the backstop on the producer's deadline are replaced by the
  producer's parameter.  Failures of the database library itself are modelled in \<open>Maintenance\<close> only.
\<close>

section \<open>Properties of the store\<close>

text \<open>C1. Ledger conservation: in every store that operations, key rotations and crashes can reach, every ledger of a grant, a
  session or a tenant holds on every dimension exactly the sum of what the invocations charged to it
  hold there, their reservation while open and their debit once closed.\<close>
theorem ledger_conservation:
  assumes "custody_reachable phys db"
  shows "finite (dom (db_invocations db)) \<and>
    unat (cost_get (ledger_used db l) d) =
      (\<Sum>i \<in> {i. \<exists>r. db_invocations db i = Some r \<and> l \<in> set (inv_ledgers r)}.
         let r = the (db_invocations db i) in
         unat (cost_get (case inv_debited r of Some debited \<Rightarrow> debited | None \<Rightarrow> inv_reserved r) d))"
proof -
  have inv: "ledger_inv db" using custody_reachable_sound [OF assms] by (simp add: custody_sound_def sound_def)
  then have fin: "finite (dom (db_invocations db))" by (simp add: ledger_inv_def)
  have "total_on db l d = (\<Sum>i \<in> {i \<in> dom (db_invocations db). l \<in> set (inv_ledgers (the (db_invocations db i)))}.
      unat (cost_get (held (the (db_invocations db i))) d))"
    unfolding total_on_def charge_on_def using fin by (simp add: sum.inter_filter)
  moreover have "{i \<in> dom (db_invocations db). l \<in> set (inv_ledgers (the (db_invocations db i)))} =
      {i. \<exists>r. db_invocations db i = Some r \<and> l \<in> set (inv_ledgers r)}" by auto
  ultimately show ?thesis using inv fin by (simp add: ledger_inv_def held_def Let_def)
qed

theorem ledger_conservation_witness:
  "unat (cost_get (ledger_used sample_db3 (LedgerGrant (GrantId 1))) Fetches) =
    (\<Sum>i \<in> {i. \<exists>r. db_invocations sample_db3 i = Some r \<and> LedgerGrant (GrantId 1) \<in> set (inv_ledgers r)}.
       let r = the (db_invocations sample_db3 i) in
       unat (cost_get (case inv_debited r of Some debited \<Rightarrow> debited | None \<Rightarrow> inv_reserved r) Fetches)) \<and>
   unat (cost_get (ledger_used sample_db3 (LedgerGrant (GrantId 1))) Fetches) = 2"
  using ledger_conservation [OF store_reachable_custody [OF sample_reachable(3)], of "LedgerGrant (GrantId 1)" Fetches]
  by (simp add: sample_begin(3))

text \<open>C2. Ceilings hold in every reachable store: no grant, session or tenant ledger ever exceeds a ceiling its
  record sets, whatever interleaving of intents, settlements, issues, key rotations and crashes led there.\<close>
theorem ceilings_respected:
  assumes "custody_reachable phys db" and "ceilings_get (ledger_limits db l) d = Some c"
  shows "unat (cost_get (ledger_used db l) d) \<le> unat c"
  using custody_reachable_sound [OF assms(1)] assms(2) by (simp add: custody_sound_def ceiling_inv_def)

theorem ceilings_respected_witness:
  "unat (cost_get (ledger_used sample_db3 (LedgerGrant (GrantId 1))) Fetches) \<le> 10"
proof -
  have "ceilings_get (ledger_limits sample_db3 (LedgerGrant (GrantId 1))) Fetches = Some 10"
    by (simp add: ledger_limits_def sample_begin(4)) (simp add: sample_db2_eq)
  from ceilings_respected [OF store_reachable_custody [OF sample_reachable(3)] this] show ?thesis by simp
qed

text \<open>C3. Restart recovery is complete and idempotent: in every reachable store, a recovery run that no crash
  disturbs succeeds, closes every open invocation, leaves a reachable store, and a second run reports
  nothing and writes nothing, provided the audit sequence has room for one entry per invocation.\<close>
theorem recover_closes_everything:
  assumes "custody_reachable phys db" and "quiet env" and "distinct scan" and "set scan = dom (db_invocations db)"
    and "last_seq db + length scan < 2 ^ 64"
  shows "\<exists>db' report. recover env scan db = (db', Ok report) \<and> custody_reachable phys db' \<and>
    dom (db_invocations db') = dom (db_invocations db) \<and>
    (\<forall>i r. db_invocations db' i = Some r \<longrightarrow> is_terminal (inv_state r)) \<and>
    recover env scan db' = (db', Ok report_default)"
proof -
  have sound: "sound db" using custody_reachable_sound [OF assms(1)] by (simp add: custody_sound_def)
  let ?todo = "open_invocations scan db"
  have len: "last_seq db + length ?todo < 2 ^ 64"
    using assms(5) length_open_invocations [of scan db] by linarith
  from recover_all_total [OF assms(2) sound open_invocations_distinct [OF sound assms(3)] _ len, of report_default]
  obtain db' report where r: "recover_all env ?todo report_default db = (db', Ok report)" "store_step\<^sup>*\<^sup>* db db'"
    and each: "\<And>i. if i \<in> fst ` set ?todo then \<exists>r. db_invocations db' i = Some r \<and> is_terminal (inv_state r)
         else db_invocations db' i = db_invocations db i"
    using open_invocations_iff [OF sound] by blast
  have sound': "sound db'" using r(2) sound by (rule sound_steps)
  have closed: "is_terminal (inv_state q)" if q: "db_invocations db' i = Some q" for i q
    using recovered_closed [OF sound assms(4) each q] .
  have dom: "dom (db_invocations db') = dom (db_invocations db)"
    using each open_invocations_iff [OF sound] by (intro recovered_dom) blast+
  have "open_invocations scan db' = []" using closed by (rule closed_not_open)
  then have "recover env scan db' = (db', Ok report_default)" by (simp add: recover_def)
  moreover have "custody_reachable phys db'" using assms(1) r(2) by (rule custody_reachable_operations)
  ultimately show ?thesis using r(1) closed dom by (auto simp: recover_def)
qed

theorem recover_closes_everything_witness:
  "\<exists>db' report. recover sample_env [InvocationId 5] sample_db3 = (db', Ok report) \<and>
    dom (db_invocations db') = {InvocationId 5} \<and> recover sample_env [InvocationId 5] db' = (db', Ok report_default)"
proof -
  have "set [InvocationId 5] = dom (db_invocations sample_db3)" by (simp add: sample_begin(2))
  moreover have "last_seq sample_db3 + length [InvocationId 5] < 2 ^ 64" by (simp add: last_seq_def sample_begin(5))
  moreover have "distinct [InvocationId 5]" by simp
  ultimately obtain db' report where "recover sample_env [InvocationId 5] sample_db3 = (db', Ok report)"
    "dom (db_invocations db') = dom (db_invocations sample_db3)"
    "recover sample_env [InvocationId 5] db' = (db', Ok report_default)"
    using recover_closes_everything [OF store_reachable_custody [OF sample_reachable(3)] sample_quiet] by blast
  then show ?thesis by (auto simp: sample_begin(2))
qed

text \<open>C19. What an intent writes, outcome by outcome.  Persisted: authorization allowed it, its invocation and its
  idempotency key were new and its session is not shredded; the invocation record is written, the key is
  bound to it and to the request under the tenant's active key, each planned ledger is debited by exactly
  the declared cost, and no other row of the store changes.  Replayed, in conflict: the key was bound, to
  this request or to another one, and nothing is written.  Refused: the store's decision refuses it, or
  its session is shredded, and exactly one audit entry with the next sequence number is written, globally
  and in the caller's partition.  An error writes nothing, unless the crash came after the commit of an
  intent that is then persisted.\<close>
theorem begin_effects:
  assumes "custody_reachable phys db"
  shows "case begin_invocation env intent db of
     (db', Ok (Persisted st)) \<Rightarrow> (\<exists>chain plan keys.
        authorize (store_view db) (int_authz intent) (env_now env) = Ok (Allowed chain plan) \<and>
        tenant_keys db (az_tenant (int_authz intent)) = Ok keys \<and>
        \<not> session_owner_shredded db (az_session (int_authz intent)) \<and>
        db_invocations db (int_invocation intent) = None \<and> db_idem db (intent_slot intent) = None \<and>
        st = status_of (intent_record env intent chain plan) \<and> intent_written env intent keys chain plan db db')
   | (db', Ok (Replayed st)) \<Rightarrow> db' = db \<and> (\<exists>sealed. db_idem db (intent_slot intent) = Some sealed \<and>
        idem_request_binding (sealed_value sealed) = request_binding env intent \<and>
        invocation db (idem_invocation (sealed_value sealed)) = Some st)
   | (db', Ok BeginConflict) \<Rightarrow> db' = db \<and> (\<exists>sealed. db_idem db (intent_slot intent) = Some sealed \<and>
        idem_request_binding (sealed_value sealed) \<noteq> request_binding env intent)
   | (db', Ok (Refused failure seq)) \<Rightarrow> (\<exists>decision keys k.
        db_invocations db (int_invocation intent) = None \<and> db_idem db (intent_slot intent) = None \<and>
        authorize (store_view db) (int_authz intent) (env_now env) = Ok decision \<and>
        (case decision_refusal decision of Some f \<Rightarrow> failure = f
         | None \<Rightarrow> session_owner_shredded db (az_session (int_authz intent)) \<and> failure = Failure.NotFoundOrDenied) \<and>
        tenant_keys db (az_tenant (int_authz intent)) = Ok keys \<and> seq = AuditSeq k \<and>
        refusal_written env intent keys failure k db db')
   | (db', Err e) \<Rightarrow> db' = db \<or> e = InjectedCrash Boundary.PersistIntent AfterCommit \<and>
        (\<exists>st. begin_invocation (no_crash env) intent db = (db', Ok (Persisted st)))"
proof (cases "begin_tx env intent db")
  case (Inl e)
  then show ?thesis by (simp add: begin_invocation_def end_tx_def)
next
  case (Inr tx_end)
  have "audit_inv db" using custody_reachable_sound [OF assms] by (simp add: custody_sound_def sound_def)
  from this Inr show ?thesis
  proof (cases rule: begin_tx_outcomes)
    case (bound sealed reply)
    then show ?thesis
      using Inr by (auto simp: begin_invocation_def end_tx_def replay_def rbind_Ok_iff ok_or_Ok_iff invocation_def split: if_splits)
  next
    case (persisted keys chain plan tx)
    with begin_op.succeeds_without_crash [OF Inr [unfolded persisted(7)]] show ?thesis
      using Inr by (auto simp: begin_invocation_def end_tx_def commit_def) 
  next
    case (refused keys decision failure k tx)
    then show ?thesis
      using Inr by (simp add: begin_invocation_def end_tx_def commit_def)
  qed
qed

theorem begin_effects_witness:
  "\<exists>chain plan keys. intent_written sample_env sample_intent keys chain plan sample_db2 sample_db3 \<and>
     db_idem sample_db3 (TenantId 1, Capability.AuditQuery, IdempotencyKey [7]) \<noteq> None"
proof -
  from begin_effects [OF store_reachable_custody [OF sample_reachable(2)], of sample_env sample_intent]
  obtain chain plan keys where w: "intent_written sample_env sample_intent keys chain plan sample_db2 sample_db3"
    by (auto simp: sample_begin(1))
  from w obtain invocations entry ledgers where e: "sample_db3 = sample_db2\<lparr>db_invocations := invocations,
      db_idem := (db_idem sample_db2)(intent_slot sample_intent \<mapsto> entry), db_ledgers := ledgers\<rparr>"
    unfolding intent_written_def by blast
  have "db_idem sample_db3 (intent_slot sample_intent) \<noteq> None" by (subst e) simp
  then have "db_idem sample_db3 (TenantId 1, Capability.AuditQuery, IdempotencyKey [7]) \<noteq> None"
    by (simp add: intent_slot_def sample_intent_def sample_request_def)
  with w show ?thesis by blast
qed

text \<open>C18. Idempotency: after an intent was persisted, presenting its key again, at any time, with any failpoints, any
  invocation id and any declared cost, writes nothing and replays the stored status when the request
  binding is the same, and is a conflict otherwise.\<close>
theorem begin_is_idempotent:
  assumes "begin_invocation env intent db = (db', Ok (Persisted st))"
    and "az_tenant (int_authz again) = az_tenant (int_authz intent)"
    and "az_capability (int_authz again) = az_capability (int_authz intent)"
    and "int_idempotency_key again = int_idempotency_key intent"
  shows "begin_invocation env' again db' = (db', Ok
    (if request_binding env' again = request_binding env intent then Replayed st else BeginConflict))"
proof -
  obtain keys r where e: "tenant_keys db' (az_tenant (int_authz intent)) = Ok keys"
    "db_idem db' (az_tenant (int_authz intent), az_capability (int_authz intent),
        int_idempotency_key intent) = Some \<lparr>sealed_key = kr_active keys, sealed_value =
          \<lparr>idem_invocation = int_invocation intent, idem_request_binding = request_binding env intent\<rparr>\<rparr>"
    "db_invocations db' (int_invocation intent) = Some r" "st = status_of r"
    using assms(1) by (rule persisted_entry)
  show ?thesis
    using begin_replays [of db' again keys, unfolded assms(2-4), OF e(1,2)] e(3,4) by (auto split: if_splits)
qed

theorem begin_is_idempotent_witness:
  "begin_invocation sample_env (sample_intent\<lparr>int_invocation := InvocationId 6\<rparr>) sample_db3 =
   (sample_db3, Ok (Replayed (status_of sample_record)))"
proof -
  have "request_binding sample_env (sample_intent\<lparr>int_invocation := InvocationId 6\<rparr>) =
      request_binding sample_env sample_intent"
    by (simp add: request_binding_def binding_input_def)
  with begin_is_idempotent [OF sample_begin(1), of "sample_intent\<lparr>int_invocation := InvocationId 6\<rparr>" sample_env]
  show ?thesis by simp
qed

text \<open>C20. A closed invocation is final: every transition on it reports an illegal transition and writes nothing, and
  its record, with the terminal outcome and the debit, is the same in every later store.\<close>
theorem terminal_is_final:
  assumes "store_reachable db" and "db_invocations db i = Some r" and "is_terminal (inv_state r)"
    and "store_step\<^sup>*\<^sup>* db db'"
  shows "db_invocations db' i = Some r \<and>
    dispatch env i db' = (db', Err (Authz (IllegalTransition (inv_state r) Step.Dispatch))) \<and>
    complete_transfer env i transfer db' = (db', Err (Authz (IllegalTransition (inv_state r) Step.CompleteTransfer))) \<and>
    publish env i db' = (db', Err (Authz (IllegalTransition (inv_state r) Step.Publish))) \<and>
    settle_invocation env i outcome db' = (db', Err (Authz (IllegalTransition (inv_state r) Step.Settle))) \<and>
    release_invocation env i reason db' = (db', Err (Authz (IllegalTransition (inv_state r) (Step.Release reason)))) \<and>
    mark_unknown_effect env i db' = (db', Err (Authz (IllegalTransition (inv_state r) Step.MarkUnknownEffect)))"
proof -
  have r: "db_invocations db' i = Some r"
    using steps_permanent [OF assms(4) reachable_ledger_inv [OF assms(1)]] assms(2,3)
    by (simp add: permanent_def)
  note refused = terminal_transition [OF r assms(3)]
  show ?thesis
    unfolding dispatch_def complete_transfer_def publish_def settle_invocation_def release_invocation_def
      mark_unknown_effect_def
    using r refused by blast
qed

theorem terminal_is_final_witness:
  "settle_invocation sample_env (InvocationId 5) SettleSuccess sample_db5 =
     (sample_db5, Err (Authz (IllegalTransition InvocationState.Released Step.Settle)))"
proof -
  obtain r where r: "db_invocations sample_db5 (InvocationId 5) = Some r"
    "inv_state r = InvocationState.Released" "store_reachable sample_db5" by (rule sample_released)
  have "is_terminal (inv_state r)" by (simp add: r(2))
  from terminal_is_final [OF r(3,1) this rtranclp.rtrancl_refl] show ?thesis unfolding r(2) by blast
qed

text \<open>C21. The audit log has no gaps and no orphans: in every reachable store the sequence numbers are 1 to n in order,
  each tenant's partition is strictly ascending, and every number belongs to exactly one tenant's
  partition, whose entry agrees with the global stub on invocation, capability, outcome and time.\<close>
theorem audit_log_complete:
  assumes "custody_reachable phys db"
  shows "map (\<lambda>(k, stub). unat k) (db_audit_stub db) = [1..<Suc (length (db_audit_stub db))] \<and>
    sorted_wrt (<) (map fst (db_audit db t)) \<and>
    (\<forall>k stub. (k, stub) \<in> set (db_audit_stub db) \<longrightarrow>
       (\<exists>!u. \<exists>e. (k, e) \<in> set (db_audit db u)) \<and>
       (\<forall>u e. (k, e) \<in> set (db_audit db u) \<longrightarrow> mirrors u k stub (sealed_value e)))"
proof -
  have inv: "audit_inv db" using custody_reachable_sound [OF assms] by (simp add: custody_sound_def sound_def)
  have "map (\<lambda>(k, stub). unat k) (db_audit_stub db) = map (unat \<circ> fst) (db_audit_stub db)"
    by (simp add: case_prod_beta)
  moreover have "(\<exists>!u. \<exists>e. (k, e) \<in> set (db_audit db u)) \<and>
      (\<forall>u e. (k, e) \<in> set (db_audit db u) \<longrightarrow> mirrors u k stub (sealed_value e))"
    if "(k, stub) \<in> set (db_audit_stub db)" for k stub
    using audit_entry_of [OF inv that] .
  moreover have "map (unat \<circ> fst) (db_audit_stub db) = [1..<Suc (length (db_audit_stub db))]"
    "sorted_wrt (<) (map fst (db_audit db t))"
    using inv unfolding audit_inv_def by blast+
  ultimately show ?thesis by metis
qed

theorem audit_log_complete_witness:
  "map (\<lambda>(k, stub). unat k) (db_audit_stub sample_db5) = [1..<Suc (length (db_audit_stub sample_db5))]"
  using sample_released audit_log_complete [OF store_reachable_custody, of sample_db5] by blast

text \<open>C27. Revocation is final and immediate: once a grant's revocation is recorded, it is the same in every later
  store, revoking again returns it and writes nothing, and no call whose chain contains the grant is
  ever allowed again.\<close>
theorem revocation_is_final:
  assumes "store_reachable db" and "db_revocations db g = Some rrec" and "db_grants db g \<noteq> None"
    and "store_step\<^sup>*\<^sup>* db db'" and "rv_grant again = g"
  shows "db_revocations db' g = Some rrec \<and>
    revoke_grant env again db' = (db', Ok (Some (to_revocation rrec))) \<and>
    (\<forall>request now chain plan. authorize (store_view db') request now = Ok (Allowed chain plan) \<longrightarrow> g \<notin> set chain)"
proof -
  have p: "permanent db db'" using steps_permanent [OF assms(4) reachable_ledger_inv [OF assms(1)]] .
  then have r: "db_revocations db' g = Some rrec"
    using assms(2) by (metis permanent_def map_le_def domI)
  moreover from p assms(3) have "db_grants db' g \<noteq> None" by (metis permanent_def map_le_def domIff)
  ultimately have "revoke_grant env again db' = (db', Ok (Some (to_revocation rrec)))"
    using assms(5) by (simp add: revoke_grant_def revoke_grant_tx_def end_tx_def)
  moreover have "db_revocations db' g \<noteq> None" using r by simp
  ultimately show ?thesis using r revoked_not_allowed by blast
qed

theorem revocation_is_final_witness:
  "\<exists>rrec. revoke_grant sample_env sample_revoke sample_db6 = (sample_db6, Ok (Some (to_revocation rrec))) \<and>
     rr_at_time rrec = 10"
proof -
  obtain rrec where r: "db_revocations sample_db6 (GrantId 1) = Some rrec" "rr_at_time rrec = 10"
    "db_grants sample_db6 (GrantId 1) \<noteq> None" "store_reachable sample_db6" by (rule sample_revoked)
  have "rv_grant sample_revoke = GrantId 1" by (simp add: sample_revoke_def)
  from revocation_is_final [OF r(4,1,3) rtranclp.rtrancl_refl this] r(2) show ?thesis by blast
qed

text \<open>C28. Crypto-shredding is final: a tenant with a tombstone has no keys in any later store, so nothing sealed for it
  opens again, none of its intents is accepted, and its identifier can never be registered again.\<close>
theorem shredding_is_final:
  assumes "store_reachable db" and "db_tombstones db t \<noteq> None" and "store_step\<^sup>*\<^sup>* db db'"
    and "reg_id reg = t" and "az_tenant (int_authz intent) = t"
  shows "tenant_keys db' t = Err (TenantShredded t) \<and>
    begin_invocation env intent db' = (db', Err (TenantShredded t)) \<and>
    register_tenant env reg db' = (db', Err (TenantShredded t))"
proof -
  have "permanent db db'" using steps_permanent [OF assms(3) reachable_ledger_inv [OF assms(1)]] .
  then have t: "db_tombstones db' t \<noteq> None" using assms(2) by (metis permanent_def map_le_def domIff)
  have "store_reachable db'" using assms(1,3) unfolding store_reachable_def by (rule rtranclp_trans)
  then have inv: "tombstone_inv db'" by (rule reachable_tombstone_inv)
  have keys: "tenant_keys db' t = Err (TenantShredded t)" by (rule shredded_keys [OF inv t])
  then have "begin_invocation env intent db' = (db', Err (TenantShredded t))"
    using assms(5) by (simp add: begin_invocation_def begin_tx_def end_tx_def)
  with keys shredded_register [OF inv, of reg env] t assms(4) show ?thesis by simp
qed

theorem shredding_is_final_witness:
  "register_tenant sample_env sample_registration sample_db7 = (sample_db7, Err (TenantShredded (TenantId 1)))"
proof -
  have "az_tenant (int_authz sample_intent) = TenantId 1" "reg_id sample_registration = TenantId 1"
    by (simp_all add: sample_intent_def sample_request_def sample_registration_def)
  with shredding_is_final [OF sample_shredded(2,1) rtranclp.rtrancl_refl] show ?thesis by blast
qed

text \<open>Publication is atomic and exact: an artifact has no locator before its invocation is published; publishing
  makes exactly the staged artifact visible under its invocation's reference, with its owner and
  session, removes the staging record, and touches no other artifact.\<close>
theorem publish_is_exact:
  assumes "store_reachable db" and "publish env i db = (db', Ok st)"
  shows "db_locators db (artifact_ref i) = None \<and>
    (\<exists>r sealed. db_invocations db i = Some r \<and> inv_state r = TransferComplete \<and>
       db_pending db (inv_tenant r, i) = Some sealed \<and> db_pending db' (inv_tenant r, i) = None \<and>
       db_locators db' = (db_locators db)(artifact_ref i \<mapsto>
         \<lparr>loc_artifact = artifact_ref i, loc_owner = inv_tenant r, loc_session = inv_session r\<rparr>) \<and>
       map_option sealed_value (db_artifacts db' (inv_tenant r, artifact_ref i)) =
         Some ((sealed_value sealed)\<lparr>art_published_at := Some (env_now env)\<rparr>) \<and>
       (\<forall>t a. a \<noteq> artifact_ref i \<longrightarrow> db_artifacts db' (t, a) = db_artifacts db (t, a)))"
  by (rule publish_effect [OF reachable_sound [OF assms(1)] assms(2)])

theorem publish_is_exact_witness:
  "\<exists>db' st. publish sample_env (InvocationId 5) sample_db8 = (db', Ok st) \<and>
     db_locators db' (artifact_ref (InvocationId 5)) \<noteq> None"
proof -
  obtain db' st where p: "publish sample_env (InvocationId 5) sample_db8 = (db', Ok st)" "store_reachable sample_db8"
    by (rule sample_publishes)
  from publish_is_exact [OF p(2,1)] p(1) show ?thesis by auto
qed

text \<open>The request binding is injective where it must be: two intents with digests of equal length and the same
  binding input agree on digest, grant, capability, session and target; the invocation id and the
  declared cost are not bound.\<close>
theorem binding_input_determines:
  assumes "length (int_request_digest a) = length (int_request_digest b)"
    and "binding_input a = binding_input b"
    and "case az_target (int_authz a) of None \<Rightarrow> True | Some t \<Rightarrow> length t < 2 ^ 64"
    and "case az_target (int_authz b) of None \<Rightarrow> True | Some t \<Rightarrow> length t < 2 ^ 64"
  shows "int_request_digest a = int_request_digest b \<and> az_grant (int_authz a) = az_grant (int_authz b) \<and>
    az_capability (int_authz a) = az_capability (int_authz b) \<and>
    az_session (int_authz a) = az_session (int_authz b) \<and> az_target (int_authz a) = az_target (int_authz b)"
  by (rule binding_input_inject [OF assms])

theorem binding_input_determines_witness:
  "binding_input (sample_intent\<lparr>int_invocation := InvocationId 9\<rparr>) = binding_input sample_intent \<and>
   az_grant (int_authz (sample_intent\<lparr>int_invocation := InvocationId 9\<rparr>)) = az_grant (int_authz sample_intent)"
proof -
  have e: "binding_input (sample_intent\<lparr>int_invocation := InvocationId 9\<rparr>) = binding_input sample_intent"
    by (simp add: binding_input_def)
  from binding_input_determines [OF _ e] e show ?thesis by (simp add: sample_intent_def sample_request_def)
qed

text \<open>C37. A claim does not survive a key rotation in progress: while a tenant is being rekeyed, an idempotency entry still
  sealed under the retiring key opens for an intent but makes both the claim and its query fail with an
  unknown key.\<close>
theorem claim_fails_mid_rekey:
  assumes "tenant_keys db (cl_tenant claim) = Ok keys" and "kr_retiring keys = Some k" and "k \<noteq> kr_active keys"
    and "db_idem db (cl_tenant claim, cl_capability claim, cl_key claim) = Some sealed"
    and "sealed_key sealed = k"
  shows "open_sealed (meta_openers keys) sealed = Ok (sealed_value sealed) \<and>
    claim_key env claim db = (db, Err (UnknownKeyId k)) \<and>
    claimed env claim db = Err (UnknownKeyId k)"
  using assms
  by (simp add: open_sealed_def meta_openers_def claim_key_def claim_tx_def claimed_def end_tx_def)

theorem claim_fails_mid_rekey_witness:
  "claim_key sample_env sample_claim sample_rekeying = (sample_rekeying, Err (UnknownKeyId 1))"
  using claim_fails_mid_rekey [OF sample_rekeying_keys(1) _ _ sample_rekeying_keys(2), of 1 sample_env] by simp


section \<open>What the readers return\<close>

text \<open>C5. Verbatim custody: the bytes a transfer staged are the bytes every later reader gets, chunk by chunk, once
  the artifact is published and until its owner is shredded, whatever operations, crashes and recoveries
  lie between; the evidence identity and the text view come back unchanged.  The keyed blob address is
  assumed not to collide with a different envelope already stored.\<close>
theorem envelope_is_verbatim:
  assumes "store_reachable db" and "complete_transfer env i transfer db = (db1, Ok st)"
    and "\<And>blob. db_blobs db (st_tenant st, env_blob_address env (st_tenant st) (tf_envelope transfer)) =
      Some blob \<Longrightarrow> sealed_value blob = tf_envelope transfer"
    and "store_step\<^sup>*\<^sup>* db1 db2" and "db_locators db2 (artifact_ref i) \<noteq> None"
    and "db_tombstones db2 (st_tenant st) = None"
  shows "read_artifact db2 (artifact_ref i) offset len = Ok (Some \<lparr>chunk_offset = offset,
      chunk_bytes = take (unat len) (drop (unat offset) (tf_envelope transfer)),
      chunk_total_len = len_u64 (length (tf_envelope transfer))\<rparr>) \<and>
    (\<exists>info. artifact db2 (artifact_ref i) = Ok (Some info) \<and> ai_owner info = st_tenant st \<and>
      ai_session info = st_session st \<and> ai_source info = tf_source transfer \<and>
      ai_text_view info = tf_text_view transfer \<and> ai_truncated info = tf_truncated transfer \<and>
      ai_output_bytes info = tf_output_bytes transfer \<and>
      ai_revoked_after_effect info = tf_revoked_after_effect transfer)"
  using verbatim_chunk [OF assms(1,2) assms(3) assms(4-6)] verbatim_info [OF assms(1,2,4-6)] by blast

theorem envelope_is_verbatim_witness:
  "read_artifact sample_db9 (ArtifactRef 5) 1 2 = Ok (Some \<lparr>chunk_offset = 1, chunk_bytes = [2, 3], chunk_total_len = 3\<rparr>)"
proof -
  obtain st where p: "complete_transfer sample_env (InvocationId 5) sample_transfer sample_db4 = (sample_db8, Ok st)"
    "st_tenant st = TenantId 1" "db_locators sample_db9 (artifact_ref (InvocationId 5)) \<noteq> None"
    "store_step sample_db8 sample_db9" by (rule sample_published)
  have "sealed_value blob = tf_envelope sample_transfer"
    if "db_blobs sample_db4 (st_tenant st, env_blob_address sample_env (st_tenant st) (tf_envelope sample_transfer)) = Some blob"
    for blob using that by (simp add: sample_untouched)
  moreover have "db_tombstones sample_db9 (st_tenant st) = None" by (simp add: p(2) sample_untouched)
  ultimately have "read_artifact sample_db9 (artifact_ref (InvocationId 5)) 1 2 = Ok (Some \<lparr>chunk_offset = 1,
      chunk_bytes = take (unat (2 :: u32)) (drop (unat (1 :: u64)) (tf_envelope sample_transfer)),
      chunk_total_len = len_u64 (length (tf_envelope sample_transfer))\<rparr>)"
    using envelope_is_verbatim [OF sample_reachable(4) p(1) _ r_into_rtranclp [where r = store_step, OF p(4)] p(3)] by blast
  then show ?thesis by (simp add: sample_transfer_def len_u64_def)
qed

text \<open>Readers never fail and hide what is gone: in every reachable store reading an artifact succeeds, with a result
  exactly when the artifact is published and its owner is not shredded.\<close>
theorem readers_never_fail:
  assumes "store_reachable db"
  shows "(\<exists>info. artifact db a = Ok info \<and> (info \<noteq> None \<longleftrightarrow>
      (\<exists>loc. db_locators db a = Some loc \<and> db_tombstones db (loc_owner loc) = None))) \<and>
    (\<exists>chunk. read_artifact db a offset len = Ok chunk \<and> (chunk \<noteq> None \<longleftrightarrow>
      (\<exists>loc. db_locators db a = Some loc \<and> db_tombstones db (loc_owner loc) = None)))"
  by (rule readers_total [OF assms])

theorem readers_never_fail_witness: "read_artifact sample_db10 (ArtifactRef 9) 0 10 = Ok None"
  using readers_never_fail [OF sample_session_opened(1), of "ArtifactRef 9" 0 10]
  by (auto simp: sample_session_opened(4))

text \<open>Session pages are exact: for a session whose owner is not shredded, a page holds, in ascending id order, the
  first \<open>limit\<close> published artifacts of that session after the cursor, none missing and none of another
  session, and says truthfully whether more remain.\<close>
theorem session_pages_exact:
  assumes "store_reachable db" and "db_sessions db s = Some r" and "db_tombstones db (sr_owner r) = None"
    and "sorted_wrt (<) index" and "\<And>a. in_session db s a \<Longrightarrow> a \<in> set index"
  shows "let all = sorted_list_of_set {a. in_session db s a \<and> (case after of None \<Rightarrow> True | Some b \<Rightarrow> b < a)} in
    session_artifacts db index s after limit =
      Ok (Some \<lparr>result_refs = take (unat limit) all, query_more = (unat limit < length all)\<rparr>)"
  by (rule session_page_exact [OF assms])

theorem session_pages_exact_witness:
  "session_artifacts sample_db10 [ArtifactRef 1, ArtifactRef 2] (SessionId 3) None 7 =
     Ok (Some \<lparr>result_refs = [], query_more = False\<rparr>)"
proof -
  obtain r where r: "db_sessions sample_db10 (SessionId 3) = Some r" "sr_owner r = TenantId 1"
    using sample_session_opened(3) by blast
  have none: "\<not> in_session sample_db10 (SessionId 3) a" for a
    by (simp add: in_session_def sample_session_opened(4))
  have "sorted_wrt (<) [ArtifactRef 1, ArtifactRef 2]" by (simp add: less_ArtifactRef_def)
  from session_pages_exact [OF sample_session_opened(1) r(1) _ this, of None 7]
  show ?thesis by (simp add: r(2) sample_session_opened(2) none)
qed

text \<open>C36. Audit queries answer exactly their scope: scanning every live tenant's partition with the limit applied to each,
  then merging and cutting, gives the first \<open>limit\<close> records in sequence order of everything the query
  selects; under the narrow scope every record is the actor's own or was written in a session it owns.\<close>
theorem audit_query_is_reference:
  assumes "store_reachable db" and "\<And>t. t \<in> set tenants \<Longrightarrow> db_tenants db t \<noteq> None"
  shows "store_audit_query db tenants query = Ok (audit_answer db tenants query) \<and>
    (aqc_scope query = OwnAndOwnedSessions \<longrightarrow> (\<forall>event \<in> set (audit_answer db tenants query).
       ar_tenant (ev_record event) = aqc_actor query \<or>
       (\<exists>s r. ar_session (ev_record event) = Some s \<and> db_sessions db s = Some r \<and> sr_owner r = aqc_actor query)))"
proof -
  have "ar_tenant (ev_record event) = aqc_actor query \<or>
      (\<exists>s r. ar_session (ev_record event) = Some s \<and> db_sessions db s = Some r \<and> sr_owner r = aqc_actor query)"
    if scope: "aqc_scope query = OwnAndOwnedSessions" and e: "event \<in> set (audit_answer db tenants query)" for event
  proof -
    from e obtain entry where "event = audit_event entry" "selected db query entry"
      by (auto simp: audit_answer_def visible_def dest!: in_set_takeD)
    with scope show ?thesis by (auto simp: selected_def audit_event_def split: if_splits option.splits)
  qed
  with audit_query_exact [OF assms] show ?thesis by blast
qed

theorem audit_query_is_reference_witness:
  "store_audit_query sample_db2 [TenantId 1] \<lparr>aqc_actor = TenantId 1, aqc_scope = OwnAndOwnedSessions, aqc_session = None,
     aqc_after = None, aqc_limit = 5\<rparr> = Ok []"
proof -
  have "db_tenants sample_db2 t \<noteq> None" if "t \<in> set [TenantId 1]" for t
    using that by (simp add: sample_db2_eq sample_db1_eq)
  with audit_query_is_reference [OF sample_reachable(2), of "[TenantId 1]"] show ?thesis
    by (simp add: audit_answer_def visible_def sample_db2_eq sample_db1_eq empty_db_def)
qed


section \<open>The orchestrator over the store\<close>

text \<open>C4. A capture closes its invocation: once its intent is persisted, whatever the producer does, whether it answers,
  fails or disappears, and whatever store operations the other tasks do meanwhile on anything but this
  invocation, the invocation is closed when the reply leaves, and the reply is exactly the one a later
  replay of the closed invocation gives.  No failpoint strikes, and the audit log has room; a store
  failure in between is left to the recovery at the next start.\<close>
theorem capture_closes_its_invocation:
  assumes "store_reachable (in_store s)" and "steady i ms" and "fresh_invocation (ms 1) = Ok i"
    and "begin_capture ms call capture s = (s1, Ok (StartedPersisted status limits))"
    and "capture_call ms produce call capture s = (s', reply)" and "last_seq (in_store s') + 1 < 2 ^ 64"
  shows "\<exists>r. db_invocations (in_store s') i = Some r \<and> is_terminal (inv_state r) \<and>
    replay_reply (status_of r) (in_store s') = Ok reply"
proof -
  have "roomy s'" using assms(6) by (simp add: roomy_def)
  from capture_call_closes [OF assms(2,1,3-5) this] show ?thesis by (auto simp: closed_def)
qed

theorem capture_closes_its_invocation_witness:
  "\<exists>s' reply r. capture_call capture_moments unavailable_producer capture_sample_call capture_sample_request capture_inner =
     (s', reply) \<and> db_invocations (in_store s') capture_id = Some r \<and> is_terminal (inv_state r)"
proof -
  obtain s1 status limits where
    b: "begin_capture capture_moments capture_sample_call capture_sample_request capture_inner = (s1, Ok (StartedPersisted status limits))"
    by (rule capture_sample_starts)
  obtain s' reply where c: "capture_call capture_moments unavailable_producer capture_sample_call capture_sample_request capture_inner =
     (s', reply)" by (rule prod.exhaust)
  have "last_seq (in_store s') + 1 < 2 ^ 64" using capture_sample_room [OF c] by (simp add: roomy_def)
  from capture_closes_its_invocation [OF _ capture_steady capture_fresh b c this] c show ?thesis
    by (auto simp: capture_inner_def capture_reachable)
qed

text \<open>C29. Budget is given back exactly when nothing happened: a producer failure closes the dispatched invocation, and
  releases its reservation in full when, and only when, the producer reports that no external effect
  started.\<close>
theorem failure_releases_iff_no_effect:
  assumes "store_reachable (in_store s)" and "steady i ms"
    and "db_invocations (in_store s) i = Some r" and "inv_state r = Dispatched"
    and "fail ms grant i e elapsed s = (s', Ok reply)" and "last_seq (in_store s') + 1 < 2 ^ 64"
  shows "\<exists>q. db_invocations (in_store s') i = Some q \<and> is_terminal (inv_state q) \<and>
    (inv_state q = InvocationState.Released \<longleftrightarrow> \<not> effect_started e)"
proof -
  have "holds i (\<lambda>r. inv_state r = Dispatched) s" using assms(1,3,4) by (simp add: holds_def)
  moreover have "roomy s'" using assms(6) by (simp add: roomy_def)
  ultimately have "concluded i (ends_of e) s' (Ok reply)" using fail_concludes [OF assms(2) _ _ assms(5)] by blast
  then obtain state where state: "state \<in> ends_of e" "closed i state s' reply" by (auto simp: concluded_def)
  then have "state = InvocationState.Released \<longleftrightarrow> \<not> effect_started e" by (auto simp: ends_of_def split: if_splits)
  with state(2) show ?thesis by (auto simp: closed_def)
qed

theorem failure_releases_iff_no_effect_witness:
  "\<exists>s' reply q. fail capture_moments (GrantId 1) (InvocationId 5) (Unavailable False) 0
     \<lparr>in_store = sample_db4, in_running = (\<lambda>_. None)\<rparr> = (s', Ok reply) \<and>
     db_invocations (in_store s') (InvocationId 5) = Some q \<and> inv_state q = InvocationState.Released"
proof -
  let ?s = "\<lparr>in_store = sample_db4, in_running = (\<lambda>_. None)\<rparr>"
  obtain r where r: "db_invocations sample_db4 (InvocationId 5) = Some r" "inv_state r = Dispatched" by (rule sample_dispatched)
  have reach: "store_reachable (in_store ?s)" by (simp add: sample_reachable)
  obtain s' res where run: "fail capture_moments (GrantId 1) (InvocationId 5) (Unavailable False) 0 ?s = (s', res)"
    by (rule prod.exhaust)
  from sample_fail_room [OF run] have room: "roomy s'" .
  have h: "holds (InvocationId 5) (\<lambda>r. inv_state r = Dispatched) ?s" using reach r by (simp add: holds_def)
  have "release_call (capture_moments 8) (InvocationId 5) ReleaseReason.ProducerUnavailable ?s = (s', res)"
    using run by (simp add: fail_def)
  moreover have "holds (InvocationId 5) (\<lambda>r. lifecycle (inv_state r) (Step.Release ReleaseReason.ProducerUnavailable)
      InvocationState.Released) ?s" by (rule holds_mono [OF h]) (simp add: release_dispatched)
  ultimately obtain reply where ok: "res = Ok reply" using release_call_closes [OF capture_steady _ _ room] by blast
  have "last_seq (in_store s') + 1 < 2 ^ 64" using room by (simp add: roomy_def)
  from failure_releases_iff_no_effect [OF reach capture_steady _ r(2) run [unfolded ok] this] r(1) run ok
  show ?thesis by auto
qed


text \<open>What a capture stores and returns: the envelope and the evidence identity are the producer's, byte for byte; the
  text view is the longest prefix of the producer's text that ends between characters and fits both the
  declared output limit and the room the frame leaves beside the evidence identity, and it is marked
  truncated exactly when something was cut.\<close>
theorem capture_output_bounded:
  assumes "max_output_bytes limits = Some n" and "po_text_view output = Some whole"
  shows "let transfer = transfer_of call limits output elapsed revoked;
        room = unat (payload_budget call) - unat (source_len (po_source output)) in
    tf_envelope transfer = po_envelope output \<and> tf_source transfer = po_source output \<and>
    (\<exists>k \<le> min (min (unat n) room) (length whole).
       tf_text_view transfer = Some (take k whole) \<and> unat (tf_output_bytes transfer) = k \<and> is_char_boundary whole k \<and>
       (\<forall>j. k < j \<and> j \<le> min (min (unat n) room) (length whole) \<longrightarrow> \<not> is_char_boundary whole j) \<and>
       (tf_truncated transfer \<longleftrightarrow> k < length whole))"
proof -
  define transfer where "transfer = transfer_of call limits output elapsed revoked"
  define room where "room = unat (payload_budget call) - unat (source_len (po_source output))"
  let ?room = "saturating_sub (ucast (payload_budget call)) (source_len (po_source output)) :: u64"
  have room: "unat (min n ?room) = min (unat n) room"
    by (simp add: min_def word_le_nat_alt unat_saturating_sub room_def budget_u64)
  obtain k where k: "k \<le> length whole" "cut_text (Some whole) (min n ?room) = (Some (take k whole), unat (min n ?room) < length whole)"
    "is_char_boundary whole k" "k \<le> unat (min n ?room)"
    "\<And>j. k < j \<Longrightarrow> j \<le> unat (min n ?room) \<Longrightarrow> j \<le> length whole \<Longrightarrow> \<not> is_char_boundary whole j"
    using cut_text_longest [of whole "min n ?room"] by auto
  have full: "k = length whole" if "length whole \<le> unat (min n ?room)"
  proof (rule ccontr)
    assume "k \<noteq> length whole"
    with k(1,5) that have "\<not> is_char_boundary whole (length whole)" by simp
    then show False by (simp add: is_char_boundary_def)
  qed
  have view: "tf_text_view transfer = Some (take k whole)" "tf_truncated transfer = (unat (min n ?room) < length whole)"
    using k(2) assms(1,2) by (simp_all add: transfer_def transfer_of_text(1,2))
  have "unat (tf_output_bytes transfer) = k"
    using view(1) k(1) len_u64_exact [OF k(4)] by (simp add: transfer_def transfer_of_text(3))
  moreover have "tf_truncated transfer \<longleftrightarrow> k < length whole" using view(2) k(1,4) full by fastforce
  ultimately show ?thesis
    unfolding Let_def transfer_def [symmetric] room_def [symmetric]
    using view k by (auto simp: room transfer_def transfer_of_text(4,5))
qed

theorem capture_output_bounded_witness:
  "tf_text_view (transfer_of capture_sample_call \<lparr>max_output_bytes = Some 2, max_transfer_bytes = None\<rparr>
     \<lparr>po_envelope = [1], po_schema_id = [], po_producer_revision = [], po_fingerprint = [], po_text_view = Some ''abc''\<rparr> 0 False) =
   Some ''ab''"
proof -
  let ?out = "\<lparr>po_envelope = [1], po_schema_id = [], po_producer_revision = [], po_fingerprint = [], po_text_view = Some ''abc''\<rparr>"
  have budget: "payload_budget capture_sample_call = 64512"
    by (simp add: payload_budget_def capture_sample_call_def FRAME_OVERHEAD_def saturating_sub_def)
  have "source_len (po_source ?out) = 0"
    by (simp add: source_len_def po_source_def len_u64_def saturating_add_def)
  then have limit: "min (min (unat (2 :: u64)) (unat (payload_budget capture_sample_call) - unat (source_len (po_source ?out))))
      (length ''abc'') = 2" by (simp add: budget)
  obtain k where k: "k \<le> 2" "tf_text_view (transfer_of capture_sample_call \<lparr>max_output_bytes = Some 2, max_transfer_bytes = None\<rparr>
      ?out 0 False) = Some (take k ''abc'')" "\<forall>j. k < j \<and> j \<le> 2 \<longrightarrow> \<not> is_char_boundary ''abc'' j"
    using capture_output_bounded [of "\<lparr>max_output_bytes = Some 2, max_transfer_bytes = None\<rparr>" 2 ?out "''abc''"
      capture_sample_call 0 False, unfolded Let_def limit, OF CaptureLimits.select_convs(1) ProducerOutput.select_convs(5)]
    by blast
  have "is_char_boundary ''abc'' 2" by (simp add: is_char_boundary_def)
  with k(1,3) have "k = 2" by (metis le_neq_implies_less le_refl)
  with k(2) show ?thesis by (simp add: numeral_2_eq_2)
qed

text \<open>C30. Reads and dry runs change nothing: with no other task running, a dry run of any request leaves the shared state
  as it was, and an executed read, query, audit query or ingest changes only the audit log.\<close>
theorem reads_change_nothing:
  assumes "alone ms"
  shows "(req_mode request = DryRun \<longrightarrow> fst (handle codec sha256 ms scans produce conn request s) = s) \<and>
    (body \<in> {RequestBody.Read rr, RequestBody.Query qr, RequestBody.AuditQuery ar, RequestBody.Ingest ir} \<longrightarrow>
      (\<exists>stubs parts. fst (execute ms scans call body s) =
         s\<lparr>in_store := (in_store s)\<lparr>db_audit_stub := stubs, db_audit := parts\<rparr>\<rparr>))"
proof -
  have "fst (handle codec sha256 ms scans produce conn request s) = s" if "req_mode request = DryRun"
    using that plan_reply_still [OF assms]
    by (simp add: handle_def settled_reply_state still_def split: sum.split)
  moreover have "only_audit s (fst (execute ms scans call body s))"
    if "body \<in> {RequestBody.Read rr, RequestBody.Query qr, RequestBody.AuditQuery ar, RequestBody.Ingest ir}"
    using that reads_audit [OF assms] by (auto simp: execute_def audits_def)
  ultimately show ?thesis by (auto simp: only_audit_def)
qed

theorem reads_change_nothing_witness:
  "\<exists>stubs parts. fst (execute capture_moments sample_scans capture_sample_call (RequestBody.Read sample_read) capture_inner) =
     capture_inner\<lparr>in_store := capture_db\<lparr>db_audit_stub := stubs, db_audit := parts\<rparr>\<rparr>"
proof -
  have "RequestBody.Read sample_read \<in> {RequestBody.Read sample_read, RequestBody.Query qr, RequestBody.AuditQuery ar, RequestBody.Ingest ir}"
    for qr ar ir by simp
  then show ?thesis
    using reads_change_nothing [OF capture_alone, where body = "RequestBody.Read sample_read" and rr = sample_read and s = capture_inner]
    by (fastforce simp: capture_inner_def)
qed

text \<open>C31. A dry run tells the truth about a capture: at the same instant and under an unbound key, the refusal a plan
  reports is the refusal execution gives, and a plan without refusal means that execution persists the
  intent, except that execution also refuses a session whose owner was shredded, which no plan reports.\<close>
theorem capture_plan_is_honest:
  assumes "alone ms" and "env_now (m_env (ms 1)) = env_now (m_env (ms 2))" and "call_key call = Some key"
    and "db_idem (in_store s) (call_tenant call, Capability.Capture, key) = None"
    and "plan_body ms call (RequestBody.Capture capture) s = (s0, Ok plan)"
    and "begin_capture ms call capture s = (s1, Ok started)"
  shows "case plan_refusal plan of
      Some failure \<Rightarrow> started = Answered (reply_failed failure)
    | None \<Rightarrow> if session_owner_shredded (in_store s) (Some (cap_session capture))
        then started = Answered (reply_failed Failure.NotFoundOrDenied)
        else \<exists>st limits. started = StartedPersisted st limits"
  by (rule capture_dry_run_agrees [OF assms])

theorem capture_plan_is_honest_witness:
  "\<exists>s0 plan s1 started. plan_body capture_moments capture_sample_call (RequestBody.Capture capture_sample_request) capture_inner =
      (s0, Ok plan) \<and>
    begin_capture capture_moments capture_sample_call capture_sample_request capture_inner = (s1, Ok started) \<and>
    (plan_refusal plan = None \<longleftrightarrow> (\<exists>st limits. started = StartedPersisted st limits))"
proof -
  obtain s0 plan where p: "plan_body capture_moments capture_sample_call (RequestBody.Capture capture_sample_request) capture_inner =
      (s0, Ok plan)" by (rule capture_sample_plan)
  obtain s1 status limits where
    b: "begin_capture capture_moments capture_sample_call capture_sample_request capture_inner = (s1, Ok (StartedPersisted status limits))"
    by (rule capture_sample_starts)
  have "db_idem (in_store capture_inner) (call_tenant capture_sample_call, Capability.Capture, IdempotencyKey [1]) = None"
    by (simp add: capture_inner_def capture_db_parts)
  moreover have "call_key capture_sample_call = Some (IdempotencyKey [1])" by (simp add: capture_sample_call_def)
  ultimately have "plan_refusal plan = None"
    using capture_plan_is_honest [OF capture_alone _ _ _ p b]
    by (cases "plan_refusal plan") (simp_all add: capture_moments_def)
  with p b show ?thesis by auto
qed



end
